(* ===== verification/Ohl_Prelude.thy ===== *)
theory Ohl_Prelude
  imports Main "HOL-Library.Word"
begin

text \<open>
  The vocabulary every component shares: Rust's \<open>Result\<close> and the \<open>?\<close> operator, methods that
  take \<open>&mut self\<close> as state transformers, fixed-width unsigned integers, checked arithmetic and
  conversions, slices, and the little-endian integer codecs.

  Machine integers are words of their width.  A \<open>usize\<close> that is the length of, or an index into,
  a slice is a \<open>nat\<close>; where the code adds or multiplies such values with a checked operation the
  limit \<open>2 ^ 64\<close> of a 64-bit target is written out.
\<close>

named_theorems result_simps \<open>inversion of the result and state combinators\<close>
named_theorems codec_simps \<open>widths and round trips of the integer codecs\<close>

type_synonym u8 = "8 word"
type_synonym u16 = "16 word"
type_synonym u32 = "32 word"
type_synonym u64 = "64 word"
type_synonym bytes = "u8 list"


section \<open>Results and state transformers\<close>

text \<open>\<open>Result\<close> with the error type first, as in \<open>error + 'a\<close>.\<close>

datatype ('e, 'a) result = Err 'e | Ok 'a

text \<open>The \<open>?\<close> operator on a pure expression, \<open>map_err\<close>, and \<open>ok_or\<close> on an option.\<close>

fun and_then :: "('e, 'a) result \<Rightarrow> ('a \<Rightarrow> ('e, 'b) result) \<Rightarrow> ('e, 'b) result" where
  "and_then (Err e) f = Err e"
| "and_then (Ok v) f = f v"

fun map_err :: "('e \<Rightarrow> 'f) \<Rightarrow> ('e, 'a) result \<Rightarrow> ('f, 'a) result" where
  "map_err g (Err e) = Err (g e)"
| "map_err g (Ok v) = Ok v"

fun ok_or :: "'e \<Rightarrow> 'a option \<Rightarrow> ('e, 'a) result" where
  "ok_or e None = Err e"
| "ok_or e (Some v) = Ok v"

fun is_ok :: "('e, 'a) result \<Rightarrow> bool" where
  "is_ok (Err e) = False"
| "is_ok (Ok v) = True"

text \<open>A method on \<open>&mut self\<close>: the result and the state it leaves, on every path.\<close>

type_synonym ('s, 'e, 'a) stm = "'s \<Rightarrow> ('e, 'a) result \<times> 's"

definition st_return :: "'a \<Rightarrow> ('s, 'e, 'a) stm" where
  "st_return v s = (Ok v, s)"

definition st_fail :: "'e \<Rightarrow> ('s, 'e, 'a) stm" where
  "st_fail e s = (Err e, s)"

definition st_bind :: "('s, 'e, 'a) stm \<Rightarrow> ('a \<Rightarrow> ('s, 'e, 'b) stm) \<Rightarrow> ('s, 'e, 'b) stm" where
  "st_bind m f s = (case m s of (Err e, t) \<Rightarrow> (Err e, t) | (Ok v, t) \<Rightarrow> f v t)"

definition st_lift :: "('e, 'a) result \<Rightarrow> ('s, 'e, 'a) stm" where
  "st_lift r s = (r, s)"

lemma and_then_Ok [result_simps]:
  "and_then m f = Ok y \<longleftrightarrow> (\<exists>v. m = Ok v \<and> f v = Ok y)"
  by (cases m) auto

lemma and_then_Err [result_simps]:
  "and_then m f = Err e \<longleftrightarrow> m = Err e \<or> (\<exists>v. m = Ok v \<and> f v = Err e)"
  by (cases m) auto

lemma map_err_Ok [result_simps]: "map_err g m = Ok y \<longleftrightarrow> m = Ok y"
  by (cases m) auto

lemma map_err_Err [result_simps]: "map_err g m = Err e \<longleftrightarrow> (\<exists>d. m = Err d \<and> e = g d)"
  by (cases m) auto

lemma ok_or_Ok [result_simps]: "ok_or e m = Ok y \<longleftrightarrow> m = Some y"
  by (cases m) auto

lemma ok_or_Err [result_simps]: "ok_or e m = Err d \<longleftrightarrow> m = None \<and> d = e"
  by (cases m) auto

lemma st_return_simp [simp]: "st_return v s = (Ok v, s)"
  by (simp add: st_return_def)

lemma st_fail_simp [simp]: "st_fail e s = (Err e, s)"
  by (simp add: st_fail_def)

lemma st_lift_simp [simp]: "st_lift r s = (r, s)"
  by (simp add: st_lift_def)

lemma st_bind_Ok [result_simps]:
  "st_bind m f s = (Ok y, t) \<longleftrightarrow> (\<exists>v u. m s = (Ok v, u) \<and> f v u = (Ok y, t))"
  by (auto simp: st_bind_def split: prod.splits result.splits)

lemma st_bind_Err [result_simps]:
  "st_bind m f s = (Err e, t) \<longleftrightarrow>
     m s = (Err e, t) \<or> (\<exists>v u. m s = (Ok v, u) \<and> f v u = (Err e, t))"
  by (auto simp: st_bind_def split: prod.splits result.splits)

lemma st_bind_step_Ok: "m s = (Ok v, u) \<Longrightarrow> st_bind m f s = f v u"
  by (simp add: st_bind_def)

lemma st_bind_step_Err: "m s = (Err e, u) \<Longrightarrow> st_bind m f s = (Err e, u)"
  by (simp add: st_bind_def)

lemma is_ok_iff: "is_ok r \<longleftrightarrow> (\<exists>v. r = Ok v)"
  by (cases r) auto

lemma is_ok_unit: "is_ok r \<longleftrightarrow> r = Ok ()"
  by (cases r) auto

lemma fst_result_iff: "fst x = Ok v \<longleftrightarrow> (\<exists>t. x = (Ok v, t))"
  by (cases x) auto

lemma st_case_Ok:
  "(case x of (Err e, t) \<Rightarrow> st_fail e | (Ok u, t) \<Rightarrow> f t) r = (Ok v, r') \<longleftrightarrow>
     (\<exists>u t. x = (Ok u, t) \<and> f t r = (Ok v, r'))"
  by (auto split: prod.split result.split)


section \<open>Checked arithmetic and conversions\<close>

definition checked_add :: "'a::len word \<Rightarrow> 'a word \<Rightarrow> 'a word option" where
  "checked_add a b = (if unat a + unat b < 2 ^ LENGTH('a) then Some (a + b) else None)"

definition checked_sub :: "'a::len word \<Rightarrow> 'a word \<Rightarrow> 'a word option" where
  "checked_sub a b = (if b \<le> a then Some (a - b) else None)"

definition checked_mul :: "'a::len word \<Rightarrow> 'a word \<Rightarrow> 'a word option" where
  "checked_mul a b = (if unat a * unat b < 2 ^ LENGTH('a) then Some (a * b) else None)"

definition saturating_add :: "'a::len word \<Rightarrow> 'a word \<Rightarrow> 'a word" where
  "saturating_add a b = (if unat a + unat b < 2 ^ LENGTH('a) then a + b else - 1)"

text \<open>\<open>try_from\<close> a length into a narrower integer, and checked \<open>usize\<close> arithmetic.\<close>

definition try_from_nat :: "nat \<Rightarrow> 'a::len word option" where
  "try_from_nat n = (if n < 2 ^ LENGTH('a) then Some (of_nat n) else None)"

definition usize_add :: "nat \<Rightarrow> nat \<Rightarrow> nat option" where
  "usize_add a b = (if a + b < 2 ^ 64 then Some (a + b) else None)"

definition usize_mul :: "nat \<Rightarrow> nat \<Rightarrow> nat option" where
  "usize_mul a b = (if a * b < 2 ^ 64 then Some (a * b) else None)"

lemma checked_add_Some_iff:
  "checked_add a b = Some (c :: 'a::len word) \<longleftrightarrow>
     unat a + unat b < 2 ^ LENGTH('a) \<and> unat c = unat a + unat b"
  by (auto simp: checked_add_def unat_word_ariths intro!: word_unat_eq_iff[THEN iffD2])

lemma checked_sub_Some_iff:
  "checked_sub a b = Some (c :: 'a::len word) \<longleftrightarrow> b \<le> a \<and> unat c = unat a - unat b"
  by (auto simp: checked_sub_def unat_sub intro!: word_unat_eq_iff[THEN iffD2])

lemma checked_mul_Some_iff:
  "checked_mul a b = Some (c :: 'a::len word) \<longleftrightarrow>
     unat a * unat b < 2 ^ LENGTH('a) \<and> unat c = unat a * unat b"
  by (auto simp: checked_mul_def unat_word_ariths intro!: word_unat_eq_iff[THEN iffD2])

lemma try_from_nat_Some_iff:
  "try_from_nat n = Some (w :: 'a::len word) \<longleftrightarrow> n < 2 ^ LENGTH('a) \<and> unat w = n"
  by (auto simp: try_from_nat_def unat_of_nat intro!: word_unat_eq_iff[THEN iffD2])

lemma usize_add_Some_iff: "usize_add a b = Some c \<longleftrightarrow> a + b < 2 ^ 64 \<and> c = a + b"
  by (auto simp: usize_add_def)

lemma usize_mul_Some_iff: "usize_mul a b = Some c \<longleftrightarrow> a * b < 2 ^ 64 \<and> c = a * b"
  by (auto simp: usize_mul_def)

lemmas checked_iffs =
  checked_add_Some_iff checked_sub_Some_iff checked_mul_Some_iff try_from_nat_Some_iff
  usize_add_Some_iff usize_mul_Some_iff

lemma unat_less_pow: "unat (w :: 'a::len word) < 2 ^ LENGTH('a)"
  by simp

text \<open>Word facts the budgets use: a subtraction or addition that the guard keeps in range.\<close>

lemma unat_diff_le: "b \<le> a \<Longrightarrow> unat (a - b) = unat a - unat (b :: 'a::len word)"
  by (rule unat_sub)

lemma unat_add_no_wrap:
  fixes a c m :: "'a::len word"
  assumes "c \<le> m - a" and "a \<le> m"
  shows "unat (a + c) = unat a + unat c"
proof -
  from assms have "unat c \<le> unat m - unat a"
    by (simp add: word_le_nat_alt unat_diff_le)
  moreover have "unat m < 2 ^ LENGTH('a)" by simp
  ultimately have "unat a + unat c < 2 ^ LENGTH('a)"
    using assms(2) unfolding word_le_nat_alt by linarith
  then show ?thesis by (simp add: unat_word_ariths)
qed

lemma unat_ucast_widen:
  "LENGTH('a::len) \<le> LENGTH('b::len) \<Longrightarrow> unat (ucast (w :: 'a word) :: 'b word) = unat w"
  by (simp add: unsigned_ucast_eq take_bit_nat_eq_self_iff)
    (rule less_le_trans[OF unat_less_pow power_increasing], auto)

lemma less_of_nat_iff:
  "n < 2 ^ LENGTH('a) \<Longrightarrow> (w :: 'a::len word) < of_nat n \<longleftrightarrow> unat w < n"
  by (simp add: word_less_nat_alt unat_of_nat)

lemma unat_add_of_nat_within:
  "unat a + n \<le> unat m \<Longrightarrow> unat (a + of_nat n :: 'a::len word) = unat a + n"
  for m :: "'a::len word"
proof -
  assume "unat a + n \<le> unat m"
  then have "unat a + n < 2 ^ LENGTH('a)" by (rule le_less_trans[OF _ unat_less_pow])
  then show ?thesis by (simp add: unat_word_ariths unat_of_nat)
qed

lemma unat_add_within:
  "unat a + unat b \<le> unat m \<Longrightarrow> unat (a + b) = unat a + unat b"
  for a b m :: "'a::len word"
  using unat_add_of_nat_within[of a "unat b" m] by simp


section \<open>Components that retain their first failure\<close>

text \<open>
  The interface of every fail-closed component of the program (payload readers and writers, the
  session validator, the result session): it has a retained failure, an operation on a component
  that already failed reports that failure and changes nothing, and an operation that fails
  retains what it reported.  Clients rely on it to run a whole sequence and look at the failure
  once at the end.
\<close>

locale sticky_machine =
  fixes step :: "'i \<Rightarrow> ('s, 'e, unit) stm"
    and failure :: "'s \<Rightarrow> 'e option"
  assumes sticky: "failure s = Some e \<Longrightarrow> step i s = (Err e, s)"
    and retains: "step i s = (Err e, t) \<Longrightarrow> failure t = Some e"
    and ok_clear: "step i s = (Ok u, t) \<Longrightarrow> failure t = None"
begin

fun run :: "'i list \<Rightarrow> 's \<Rightarrow> 's" where
  "run [] s = s"
| "run (i # is) s = run is (snd (step i s))"

lemma run_append: "run (is @ js) s = run js (run is s)"
  by (induction "is" arbitrary: s) auto

lemma run_failed: "failure s = Some e \<Longrightarrow> run is s = s"
  by (induction "is") (auto simp: sticky)

lemma step_Ok_pre: "step i s = (Ok u, t) \<Longrightarrow> failure s = None"
  using sticky[of s _ i] by (cases "failure s") auto

text \<open>
  No failure at the end of a run means that no operation of the run failed: the whole sequence
  can be executed first and checked once.
\<close>

lemma run_ok_all_ok:
  assumes "failure (run is s) = None" and "is = js @ i # ks"
  shows "\<exists>t. step i (run js s) = (Ok (), t)"
proof -
  obtain r t where rt: "step i (run js s) = (r, t)" by (cases "step i (run js s)") auto
  from assms have "failure (run ks t) = None"
    using rt by (simp add: run_append)
  then have "failure t = None"
    using run_failed[of t _ ks] by (cases "failure t") auto
  then show ?thesis using rt retains[of i "run js s" _ t] by (cases r) auto
qed

lemma run_first_failure:
  assumes "failure (run is s) = Some e" and "failure s = None"
  shows "\<exists>js i ks t. is = js @ i # ks \<and> failure (run js s) = None \<and>
           step i (run js s) = (Err e, t) \<and> run is s = t"
  using assms
proof (induction "is" arbitrary: s)
  case Nil
  then show ?case by simp
next
  case (Cons i "is")
  obtain r t where rt: "step i s = (r, t)" by (cases "step i s") auto
  show ?case
  proof (cases r)
    case (Err d)
    with rt have t: "failure t = Some d" by (simp add: retains)
    with Cons.prems rt have "run is t = t" "d = e" by (auto simp: run_failed)
    with rt Err Cons.prems have "i # is = [] @ i # is \<and> failure (run [] s) = None \<and>
        step i (run [] s) = (Err e, t) \<and> run (i # is) s = t" by simp
    then show ?thesis by blast
  next
    case (Ok u)
    with rt have "failure t = None" by (simp add: ok_clear)
    moreover from Cons.prems(1) rt have "failure (run is t) = Some e" by simp
    ultimately obtain js k ks w where
      "is = js @ k # ks" "failure (run js t) = None" "step k (run js t) = (Err e, w)"
      "run is t = w" using Cons.IH by blast
    with rt have "i # is = (i # js) @ k # ks \<and> failure (run (i # js) s) = None \<and>
        step k (run (i # js) s) = (Err e, w) \<and> run (i # is) s = w" by simp
    then show ?thesis by blast
  qed
qed

end

end
