(* ===== verification/Ohl_Bytes.thy ===== *)
theory Ohl_Bytes
  imports Ohl_Prelude
begin

text \<open>
  Byte slices and the little-endian integer fields of every wire and file format of the program:
  \<open>to_le_bytes\<close> and \<open>from_le_bytes\<close> at the widths 8, 16, 32 and 64, and the codec interface that
  readers and writers rely on.
\<close>


section \<open>Slices\<close>

text \<open>\<open>bytes.get(a..b)\<close>, and \<open>destination[at..at + n].copy_from_slice(src)\<close>.\<close>

definition slice_get :: "nat \<Rightarrow> nat \<Rightarrow> 'a list \<Rightarrow> 'a list option" where
  "slice_get a b xs = (if a \<le> b \<and> b \<le> length xs then Some (take (b - a) (drop a xs)) else None)"

definition copy_at :: "nat \<Rightarrow> 'a list \<Rightarrow> 'a list \<Rightarrow> 'a list" where
  "copy_at at src dst = take at dst @ src @ drop (at + length src) dst"

lemma slice_get_Some_iff:
  "slice_get a b xs = Some ys \<longleftrightarrow> a \<le> b \<and> b \<le> length xs \<and> ys = take (b - a) (drop a xs)"
  by (auto simp: slice_get_def)

lemma length_slice_get: "slice_get a b xs = Some ys \<Longrightarrow> length ys = b - a"
  by (auto simp: slice_get_def split: if_splits)

lemma slice_get_append_middle:
  "a = length pre \<Longrightarrow> b = a + length mid \<Longrightarrow> slice_get a b (pre @ mid @ post) = Some mid"
  by (simp add: slice_get_def)

lemma take_drop_join: "q = p + w \<Longrightarrow> take w (drop p bs) @ drop q bs = drop p bs"
  by (metis add.commute append_take_drop_id drop_drop)

lemma length_copy_at [simp]:
  "at + length src \<le> length dst \<Longrightarrow> length (copy_at at src dst) = length dst"
  by (simp add: copy_at_def)

lemma take_copy_at:
  "at + length src \<le> length dst \<Longrightarrow> take (at + length src) (copy_at at src dst) = take at dst @ src"
  by (simp add: copy_at_def)

lemma drop_copy_at:
  "at + length src \<le> length dst \<Longrightarrow>
     drop (at + length src) (copy_at at src dst) = drop (at + length src) dst"
  by (simp add: copy_at_def)


section \<open>Little-endian integers\<close>

primrec le_digits :: "nat \<Rightarrow> nat \<Rightarrow> bytes" where
  "le_digits 0 x = []"
| "le_digits (Suc n) x = of_nat (x mod 256) # le_digits n (x div 256)"

primrec le_value :: "bytes \<Rightarrow> nat" where
  "le_value [] = 0"
| "le_value (b # bs) = unat b + 256 * le_value bs"

definition u8_to_le :: "u8 \<Rightarrow> bytes" where "u8_to_le v = [v]"
definition u16_to_le :: "u16 \<Rightarrow> bytes" where "u16_to_le v = le_digits 2 (unat v)"
definition u32_to_le :: "u32 \<Rightarrow> bytes" where "u32_to_le v = le_digits 4 (unat v)"
definition u64_to_le :: "u64 \<Rightarrow> bytes" where "u64_to_le v = le_digits 8 (unat v)"

definition u8_from_le :: "bytes \<Rightarrow> u8" where "u8_from_le bs = hd bs"
definition u16_from_le :: "bytes \<Rightarrow> u16" where "u16_from_le bs = of_nat (le_value bs)"
definition u32_from_le :: "bytes \<Rightarrow> u32" where "u32_from_le bs = of_nat (le_value bs)"
definition u64_from_le :: "bytes \<Rightarrow> u64" where "u64_from_le bs = of_nat (le_value bs)"

lemma length_le_digits [simp]: "length (le_digits n x) = n"
  by (induction n arbitrary: x) auto

lemma le_digits_numeral:
  "le_digits (numeral k) x = of_nat (x mod 256) # le_digits (pred_numeral k) (x div 256)"
  by (subst numeral_eq_Suc) (rule le_digits.simps(2))

lemma le_value_bound: "le_value bs < 256 ^ length bs"
proof (induction bs)
  case (Cons b bs)
  have "unat b < 256" using unat_less_pow[of b] by simp
  moreover have "256 * le_value bs + 256 \<le> 256 * 256 ^ length bs"
    using Cons.IH by (metis Suc_leI add.commute mult_Suc_right mult_le_mono2)
  ultimately show ?case by simp
qed simp

lemma le_value_le_digits: "x < 256 ^ n \<Longrightarrow> le_value (le_digits n x) = x"
proof (induction n arbitrary: x)
  case (Suc n)
  have "x div 256 < 256 ^ n" using Suc.prems by (simp add: less_mult_imp_div_less)
  with Suc.IH have "le_value (le_digits n (x div 256)) = x div 256" by simp
  moreover have "unat (of_nat (x mod 256) :: u8) = x mod 256" by (simp add: unat_of_nat)
  ultimately show ?case by simp
qed simp

lemma le_digits_le_value: "le_digits (length bs) (le_value bs) = bs"
proof (induction bs)
  case (Cons b bs)
  have b: "unat b < 256" using unat_less_pow[of b] by simp
  then have "(unat b + 256 * le_value bs) div 256 = le_value bs" by simp
  moreover have "(unat b + 256 * le_value bs) mod 256 = unat b" using b by simp
  ultimately show ?case using Cons.IH by simp
qed simp


section \<open>The fixed-width codec interface\<close>

text \<open>
  What a reader or writer of one integer field relies on: the encoding has the field's width, and
  the two directions are inverse on values and on byte strings of that width.  The lemmas below
  are about a field inside a longer buffer, which is how every format uses it.
\<close>

locale fixed_codec =
  fixes width :: nat
    and enc :: "'a \<Rightarrow> bytes"
    and dec :: "bytes \<Rightarrow> 'a"
  assumes length_enc: "length (enc v) = width"
    and dec_enc: "dec (enc v) = v"
    and enc_dec: "length bs = width \<Longrightarrow> enc (dec bs) = bs"
begin

lemma enc_inject: "enc v = enc w \<longleftrightarrow> v = w"
  using dec_enc by metis

lemma dec_inject: "length bs = width \<Longrightarrow> length cs = width \<Longrightarrow> dec bs = dec cs \<longleftrightarrow> bs = cs"
  using enc_dec by metis

lemma field_at: "dec (take width (drop (length pre) (pre @ enc v @ post))) = v"
  by (simp add: length_enc dec_enc)

lemma field_canonical:
  assumes "p + width \<le> length bs" and "dec (take width (drop p bs)) = v"
  shows "bs = take p bs @ enc v @ drop (p + width) bs"
proof -
  from assms(1) have "length (take width (drop p bs)) = width" by simp
  with assms(2) have "enc v = take width (drop p bs)" using enc_dec by blast
  then show ?thesis by (metis add.commute append_take_drop_id drop_drop)
qed

lemma append_enc_cancel: "enc v @ xs = enc w @ ys \<longleftrightarrow> v = w \<and> xs = ys"
  by (auto simp: length_enc enc_inject)

end

interpretation u8_codec: fixed_codec 1 u8_to_le u8_from_le
  by unfold_locales (auto simp: u8_to_le_def u8_from_le_def length_Suc_conv)

interpretation u16_codec: fixed_codec 2 u16_to_le u16_from_le
proof
  fix v :: u16
  show "length (u16_to_le v) = 2" by (simp add: u16_to_le_def)
  have "unat v < 256 ^ 2" using unat_less_pow[of v] by simp
  then show "u16_from_le (u16_to_le v) = v"
    by (simp add: u16_from_le_def u16_to_le_def le_value_le_digits)
next
  fix bs :: bytes
  assume len: "length bs = 2"
  then have "le_value bs < 2 ^ 16" using le_value_bound[of bs] by simp
  then show "u16_to_le (u16_from_le bs) = bs"
    using le_digits_le_value[of bs] len by (simp add: u16_from_le_def u16_to_le_def unat_of_nat)
qed

interpretation u32_codec: fixed_codec 4 u32_to_le u32_from_le
proof
  fix v :: u32
  show "length (u32_to_le v) = 4" by (simp add: u32_to_le_def)
  have "unat v < 256 ^ 4" using unat_less_pow[of v] by simp
  then show "u32_from_le (u32_to_le v) = v"
    by (simp add: u32_from_le_def u32_to_le_def le_value_le_digits)
next
  fix bs :: bytes
  assume len: "length bs = 4"
  then have "le_value bs < 2 ^ 32" using le_value_bound[of bs] by simp
  then show "u32_to_le (u32_from_le bs) = bs"
    using le_digits_le_value[of bs] len by (simp add: u32_from_le_def u32_to_le_def unat_of_nat)
qed

interpretation u64_codec: fixed_codec 8 u64_to_le u64_from_le
proof
  fix v :: u64
  show "length (u64_to_le v) = 8" by (simp add: u64_to_le_def)
  have "unat v < 256 ^ 8" using unat_less_pow[of v] by simp
  then show "u64_from_le (u64_to_le v) = v"
    by (simp add: u64_from_le_def u64_to_le_def le_value_le_digits)
next
  fix bs :: bytes
  assume len: "length bs = 8"
  then have "le_value bs < 2 ^ 64" using le_value_bound[of bs] by simp
  then show "u64_to_le (u64_from_le bs) = bs"
    using le_digits_le_value[of bs] len by (simp add: u64_from_le_def u64_to_le_def unat_of_nat)
qed

lemmas codec_widths [simp] =
  u8_codec.length_enc u16_codec.length_enc u32_codec.length_enc u64_codec.length_enc

lemmas codec_inverses [simp] =
  u8_codec.dec_enc u16_codec.dec_enc u32_codec.dec_enc u64_codec.dec_enc

lemmas codec_fields [codec_simps] =
  u8_codec.field_at u16_codec.field_at u32_codec.field_at u64_codec.field_at

end
