(* ===== verification/Ohl_Core.thy ===== *)
theory Ohl_Core
  imports Ohl_Bytes
begin

text \<open>
  Crate \<open>ohl-core\<close>: the sanitized diagnostic codes (\<open>error.rs\<close>) and the bounded arithmetic
  helpers (\<open>checked.rs\<close>) that parser and format code uses on media-controlled sizes.  The
  unsigned instances of the trait are one polymorphic definition over the word width.  The SHA-256
  seam of \<open>hash.rs\<close> calls a third-party crate; the digest is a parameter of the definitions that
  use it.
\<close>

datatype SanitizedError =
    ArithmeticOverflow
  | ArithmeticUnderflow
  | InvalidInput
  | NotFound
  | Unsupported
  | Internal

definition checked_add_bounded :: "'a::len word \<Rightarrow> 'a word \<Rightarrow> (SanitizedError, 'a word) result" where
  "checked_add_bounded a b = ok_or ArithmeticOverflow (checked_add a b)"

definition checked_sub_bounded :: "'a::len word \<Rightarrow> 'a word \<Rightarrow> (SanitizedError, 'a word) result" where
  "checked_sub_bounded a b = ok_or ArithmeticUnderflow (checked_sub a b)"

definition checked_mul_bounded :: "'a::len word \<Rightarrow> 'a word \<Rightarrow> (SanitizedError, 'a word) result" where
  "checked_mul_bounded a b = ok_or ArithmeticOverflow (checked_mul a b)"

text \<open>The same trait at \<open>usize\<close>, whose values are lengths.\<close>

definition usize_add_bounded :: "nat \<Rightarrow> nat \<Rightarrow> (SanitizedError, nat) result" where
  "usize_add_bounded a b = ok_or ArithmeticOverflow (usize_add a b)"

lemma checked_add_bounded_Ok:
  "checked_add_bounded a b = Ok (c :: 'a::len word) \<longleftrightarrow>
     unat a + unat b < 2 ^ LENGTH('a) \<and> unat c = unat a + unat b"
  by (simp add: checked_add_bounded_def result_simps checked_add_Some_iff)

lemma checked_sub_bounded_Ok:
  "checked_sub_bounded a b = Ok (c :: 'a::len word) \<longleftrightarrow> b \<le> a \<and> unat c = unat a - unat b"
  by (simp add: checked_sub_bounded_def result_simps checked_sub_Some_iff)

lemma checked_sub_bounded_Ok_eq: "b \<le> a \<Longrightarrow> checked_sub_bounded a b = Ok (a - b)"
  by (simp add: checked_sub_bounded_def checked_sub_def)

lemma usize_add_bounded_Ok:
  "usize_add_bounded a b = Ok c \<longleftrightarrow> a + b < 2 ^ 64 \<and> c = a + b"
  by (simp add: usize_add_bounded_def result_simps usize_add_Some_iff)

lemma checked_end_within:
  fixes a b s :: "'a::len word"
  shows "(case checked_add_bounded a b of Err _ \<Rightarrow> False | Ok e \<Rightarrow> e \<le> s) \<longleftrightarrow>
     unat a + unat b \<le> unat s"
  using le_less_trans[OF _ unat_less_pow, of "unat a + unat b" s]
  by (auto simp: checked_add_bounded_def checked_add_def word_le_nat_alt unat_word_ariths)

text \<open>
  The bounded helpers agree with exact arithmetic whenever they succeed, and fail exactly when
  the exact result does not fit the type; no input wraps silently.
\<close>

lemma bounded_arithmetic_exact:
  fixes a b :: "'a::len word"
  shows "checked_add_bounded a b =
      (if unat a + unat b < 2 ^ LENGTH('a) then Ok (of_nat (unat a + unat b))
       else Err ArithmeticOverflow)"
    and "checked_sub_bounded a b =
      (if unat b \<le> unat a then Ok (of_nat (unat a - unat b)) else Err ArithmeticUnderflow)"
    and "checked_mul_bounded a b =
      (if unat a * unat b < 2 ^ LENGTH('a) then Ok (of_nat (unat a * unat b))
       else Err ArithmeticOverflow)"
  by (auto simp: checked_add_bounded_def checked_sub_bounded_def checked_mul_bounded_def
      checked_add_def checked_sub_def checked_mul_def word_le_nat_alt of_nat_diff)

end
