(* ===== verification/Owp_Frame.thy ===== *)
theory Owp_Frame
  imports Ohl_Core
begin

text \<open>
  OWP/1, the wire protocol between the privileged parent and the sandboxed parser worker (crate
  \<open>ohl-parser-protocol\<close>): the constants, the message, status, phase and error codes of \<open>lib.rs\<close>,
  and the fixed 32-byte header and the framing of \<open>frame.rs\<close>.

  The wire image \<open>RawFrameHeader\<close> is a packed little-endian struct; its bytes are the
  concatenation of its fields in declaration order.  A function with a \<open>&mut [u8]\<close> destination is
  a state transformer on the destination's contents, so that what a failing call leaves in the
  buffer can be stated.
\<close>

named_theorems owp_consts \<open>the numeric limits of the protocol\<close>

definition FRAME_HEADER_BYTES :: nat where [owp_consts]: "FRAME_HEADER_BYTES = 32"
definition FRAME_MAGIC :: bytes where [owp_consts]: "FRAME_MAGIC = [0x4F, 0x48, 0x4C, 0x50]"
definition PROTOCOL_MAJOR_VERSION :: u16 where [owp_consts]: "PROTOCOL_MAJOR_VERSION = 1"
definition PROTOCOL_MINOR_VERSION :: u16 where [owp_consts]: "PROTOCOL_MINOR_VERSION = 0"
definition MAXIMUM_FRAME_PAYLOAD_BYTES :: u32 where
  [owp_consts]: "MAXIMUM_FRAME_PAYLOAD_BYTES = 1048576"
definition MAXIMUM_PROTOCOL_MESSAGES :: u64 where
  [owp_consts]: "MAXIMUM_PROTOCOL_MESSAGES = 1048576"
definition MAXIMUM_CUMULATIVE_PAYLOAD_BYTES :: u64 where
  [owp_consts]: "MAXIMUM_CUMULATIVE_PAYLOAD_BYTES = 64 * 1024 * 1024 * 1024"


section \<open>Codes\<close>

datatype MessageType =
    Hello | Ready | Enumerate | StreamEntry | ReadRequest | ReadReply
  | EntryBatch | DataChunk | Complete | Cancel | CancelAck | Shutdown

datatype ProtocolStatus =
    StatusOk | StatusUnsupported | StatusInvalidRequest | StatusParserRejected
  | StatusBudgetExceeded | StatusCancelled | StatusSourceChanged | StatusSourceReadFailed
  | StatusResultValidationFailed | StatusInternalFailure

datatype ProtocolPhase =
    PhaseHandshake | PhaseEnumerate | PhaseStream | PhaseSourceRead | PhaseComplete

datatype ProtocolError =
    TruncatedHeader | InvalidMagic | UnsupportedVersion | UnknownMessageType | ReservedFlags
  | PayloadTooLarge | TruncatedPayload | TrailingBytes | InvalidSessionId | InvalidRequestId
  | WrongSessionId | WrongRequestId | RequestIdNotMonotonic | UnexpectedMessage
  | RequestAlreadyActive | ReadAlreadyActive | NoReadInFlight | MessageBudgetExceeded
  | ByteBudgetExceeded | InvalidBudget | OutputTooSmall | PayloadUnderflow
  | PayloadTrailingBytes | NoncanonicalValue | TerminalState

definition message_type_from_wire :: "u16 \<Rightarrow> (ProtocolError, MessageType) result" where
  "message_type_from_wire v =
     (if v = 0x0001 then Ok Hello
      else if v = 0x0002 then Ok Ready
      else if v = 0x0010 then Ok Enumerate
      else if v = 0x0011 then Ok StreamEntry
      else if v = 0x0020 then Ok ReadRequest
      else if v = 0x0021 then Ok ReadReply
      else if v = 0x0030 then Ok EntryBatch
      else if v = 0x0031 then Ok DataChunk
      else if v = 0x0032 then Ok Complete
      else if v = 0x0040 then Ok Cancel
      else if v = 0x0041 then Ok CancelAck
      else if v = 0x0042 then Ok Shutdown
      else Err UnknownMessageType)"

fun message_type_to_wire :: "MessageType \<Rightarrow> u16" where
  "message_type_to_wire Hello = 0x0001"
| "message_type_to_wire Ready = 0x0002"
| "message_type_to_wire Enumerate = 0x0010"
| "message_type_to_wire StreamEntry = 0x0011"
| "message_type_to_wire ReadRequest = 0x0020"
| "message_type_to_wire ReadReply = 0x0021"
| "message_type_to_wire EntryBatch = 0x0030"
| "message_type_to_wire DataChunk = 0x0031"
| "message_type_to_wire Complete = 0x0032"
| "message_type_to_wire Cancel = 0x0040"
| "message_type_to_wire CancelAck = 0x0041"
| "message_type_to_wire Shutdown = 0x0042"

fun requires_zero_request_id :: "MessageType \<Rightarrow> bool" where
  "requires_zero_request_id Hello = True"
| "requires_zero_request_id Ready = True"
| "requires_zero_request_id Shutdown = True"
| "requires_zero_request_id _ = False"

definition status_from_wire :: "u16 \<Rightarrow> (ProtocolError, ProtocolStatus) result" where
  "status_from_wire v =
     (if v = 0 then Ok StatusOk
      else if v = 1 then Ok StatusUnsupported
      else if v = 2 then Ok StatusInvalidRequest
      else if v = 3 then Ok StatusParserRejected
      else if v = 4 then Ok StatusBudgetExceeded
      else if v = 5 then Ok StatusCancelled
      else if v = 6 then Ok StatusSourceChanged
      else if v = 7 then Ok StatusSourceReadFailed
      else if v = 8 then Ok StatusResultValidationFailed
      else if v = 9 then Ok StatusInternalFailure
      else Err NoncanonicalValue)"

fun status_to_wire :: "ProtocolStatus \<Rightarrow> u16" where
  "status_to_wire StatusOk = 0"
| "status_to_wire StatusUnsupported = 1"
| "status_to_wire StatusInvalidRequest = 2"
| "status_to_wire StatusParserRejected = 3"
| "status_to_wire StatusBudgetExceeded = 4"
| "status_to_wire StatusCancelled = 5"
| "status_to_wire StatusSourceChanged = 6"
| "status_to_wire StatusSourceReadFailed = 7"
| "status_to_wire StatusResultValidationFailed = 8"
| "status_to_wire StatusInternalFailure = 9"

definition phase_from_wire :: "u16 \<Rightarrow> (ProtocolError, ProtocolPhase) result" where
  "phase_from_wire v =
     (if v = 0 then Ok PhaseHandshake
      else if v = 1 then Ok PhaseEnumerate
      else if v = 2 then Ok PhaseStream
      else if v = 3 then Ok PhaseSourceRead
      else if v = 4 then Ok PhaseComplete
      else Err NoncanonicalValue)"

fun phase_to_wire :: "ProtocolPhase \<Rightarrow> u16" where
  "phase_to_wire PhaseHandshake = 0"
| "phase_to_wire PhaseEnumerate = 1"
| "phase_to_wire PhaseStream = 2"
| "phase_to_wire PhaseSourceRead = 3"
| "phase_to_wire PhaseComplete = 4"

fun sanitize_protocol_error :: "ProtocolError \<Rightarrow> SanitizedError" where
  "sanitize_protocol_error MessageBudgetExceeded = Unsupported"
| "sanitize_protocol_error ByteBudgetExceeded = Unsupported"
| "sanitize_protocol_error PayloadTooLarge = Unsupported"
| "sanitize_protocol_error TerminalState = NotFound"
| "sanitize_protocol_error _ = InvalidInput"


section \<open>Headers and frames\<close>

record FrameHeader =
  fh_major_version :: u16
  fh_minor_version :: u16
  fh_message_type :: MessageType
  fh_flags :: u16
  fh_payload_length :: u32
  fh_session_id :: u64
  fh_request_id :: u64

record FrameView =
  fv_header :: FrameHeader
  fv_payload :: bytes

definition frame_header_new :: "MessageType \<Rightarrow> u64 \<Rightarrow> u64 \<Rightarrow> u32 \<Rightarrow> FrameHeader" where
  "frame_header_new kind session request len =
     \<lparr>fh_major_version = PROTOCOL_MAJOR_VERSION, fh_minor_version = PROTOCOL_MINOR_VERSION,
      fh_message_type = kind, fh_flags = 0, fh_payload_length = len,
      fh_session_id = session, fh_request_id = request\<rparr>"

definition frame_header_validate :: "FrameHeader \<Rightarrow> (ProtocolError, unit) result" where
  "frame_header_validate h =
     (if fh_major_version h \<noteq> PROTOCOL_MAJOR_VERSION \<or> fh_minor_version h \<noteq> PROTOCOL_MINOR_VERSION
      then Err UnsupportedVersion
      else if fh_flags h \<noteq> 0 then Err ReservedFlags
      else if fh_payload_length h > MAXIMUM_FRAME_PAYLOAD_BYTES then Err PayloadTooLarge
      else if fh_session_id h = 0 then Err InvalidSessionId
      else let zero_request = requires_zero_request_id (fh_message_type h) in
        if (zero_request \<and> fh_request_id h \<noteq> 0) \<or> (\<not> zero_request \<and> fh_request_id h = 0)
        then Err InvalidRequestId else Ok ())"

record RawFrameHeader =
  raw_magic :: bytes
  raw_major_version :: u16
  raw_minor_version :: u16
  raw_message_type :: u16
  raw_flags :: u16
  raw_payload_length :: u32
  raw_session_id :: u64
  raw_request_id :: u64

definition raw_as_bytes :: "RawFrameHeader \<Rightarrow> bytes" where
  "raw_as_bytes r =
     raw_magic r @ u16_to_le (raw_major_version r) @ u16_to_le (raw_minor_version r) @
     u16_to_le (raw_message_type r) @ u16_to_le (raw_flags r) @
     u32_to_le (raw_payload_length r) @ u64_to_le (raw_session_id r) @
     u64_to_le (raw_request_id r)"

definition raw_ref_from_bytes :: "bytes \<Rightarrow> RawFrameHeader option" where
  "raw_ref_from_bytes bs =
     (if length bs = FRAME_HEADER_BYTES
      then Some
        \<lparr>raw_magic = take 4 bs,
         raw_major_version = u16_from_le (take 2 (drop 4 bs)),
         raw_minor_version = u16_from_le (take 2 (drop 6 bs)),
         raw_message_type = u16_from_le (take 2 (drop 8 bs)),
         raw_flags = u16_from_le (take 2 (drop 10 bs)),
         raw_payload_length = u32_from_le (take 4 (drop 12 bs)),
         raw_session_id = u64_from_le (take 8 (drop 16 bs)),
         raw_request_id = u64_from_le (take 8 (drop 24 bs))\<rparr>
      else None)"

definition frame_header_encode :: "FrameHeader \<Rightarrow> (bytes, ProtocolError, unit) stm" where
  "frame_header_encode h dst =
     (case frame_header_validate h of
        Err e \<Rightarrow> (Err e, dst)
      | Ok _ \<Rightarrow>
          (Ok (), raw_as_bytes
             \<lparr>raw_magic = FRAME_MAGIC,
              raw_major_version = fh_major_version h,
              raw_minor_version = fh_minor_version h,
              raw_message_type = message_type_to_wire (fh_message_type h),
              raw_flags = fh_flags h,
              raw_payload_length = fh_payload_length h,
              raw_session_id = fh_session_id h,
              raw_request_id = fh_request_id h\<rparr>))"

definition decode_frame_header :: "bytes \<Rightarrow> (ProtocolError, FrameHeader) result" where
  "decode_frame_header bs =
     (case raw_ref_from_bytes bs of
        None \<Rightarrow> Err TruncatedHeader
      | Some raw \<Rightarrow>
          if raw_magic raw \<noteq> FRAME_MAGIC then Err InvalidMagic
          else if raw_major_version raw \<noteq> PROTOCOL_MAJOR_VERSION
               \<or> raw_minor_version raw \<noteq> PROTOCOL_MINOR_VERSION
          then Err UnsupportedVersion
          else and_then (message_type_from_wire (raw_message_type raw)) (\<lambda>kind.
            let h = \<lparr>fh_major_version = raw_major_version raw,
                     fh_minor_version = raw_minor_version raw,
                     fh_message_type = kind,
                     fh_flags = raw_flags raw,
                     fh_payload_length = raw_payload_length raw,
                     fh_session_id = raw_session_id raw,
                     fh_request_id = raw_request_id raw\<rparr>
            in and_then (frame_header_validate h) (\<lambda>_. Ok h)))"

definition frame_view_new :: "FrameHeader \<Rightarrow> bytes \<Rightarrow> FrameView" where
  "frame_view_new h payload = \<lparr>fv_header = h, fv_payload = payload\<rparr>"

definition encode_frame :: "FrameHeader \<Rightarrow> bytes \<Rightarrow> (bytes, ProtocolError, nat) stm" where
  "encode_frame h payload dst =
     (if length payload > unat MAXIMUM_FRAME_PAYLOAD_BYTES then (Err PayloadTooLarge, dst)
      else if unat (fh_payload_length h) \<noteq> length payload then (Err NoncanonicalValue, dst)
      else case frame_header_validate h of
        Err e \<Rightarrow> (Err e, dst)
      | Ok _ \<Rightarrow>
          let frame_size = FRAME_HEADER_BYTES + length payload in
          if length dst < frame_size then (Err OutputTooSmall, dst)
          else
            let rest = drop FRAME_HEADER_BYTES dst in
            (case frame_header_encode h (take FRAME_HEADER_BYTES dst) of
               (Err e, header_bytes) \<Rightarrow> (Err e, header_bytes @ rest)
             | (Ok _, header_bytes) \<Rightarrow> (Ok frame_size, header_bytes @ copy_at 0 payload rest)))"

definition decode_frame :: "bytes \<Rightarrow> u64 \<Rightarrow> (ProtocolError, FrameView) result" where
  "decode_frame bs expected_session_id =
     and_then (ok_or TruncatedHeader (slice_get 0 FRAME_HEADER_BYTES bs)) (\<lambda>header_bytes.
     and_then (decode_frame_header header_bytes) (\<lambda>h.
       if expected_session_id \<noteq> 0 \<and> fh_session_id h \<noteq> expected_session_id
       then Err WrongSessionId
       else
         let frame_size = FRAME_HEADER_BYTES + unat (fh_payload_length h) in
         if length bs < frame_size then Err TruncatedPayload
         else if length bs \<noteq> frame_size then Err TrailingBytes
         else Ok (frame_view_new h
                (take (frame_size - FRAME_HEADER_BYTES) (drop FRAME_HEADER_BYTES bs)))))"

section \<open>The wire image\<close>

text \<open>
  Specification-level definitions: the raw fields of a header, the bytes of a whole frame, and
  the frames that may be on the wire at all.
\<close>

definition header_image :: "FrameHeader \<Rightarrow> RawFrameHeader" where
  "header_image h =
     \<lparr>raw_magic = FRAME_MAGIC, raw_major_version = fh_major_version h,
      raw_minor_version = fh_minor_version h,
      raw_message_type = message_type_to_wire (fh_message_type h),
      raw_flags = fh_flags h, raw_payload_length = fh_payload_length h,
      raw_session_id = fh_session_id h, raw_request_id = fh_request_id h\<rparr>"

definition frame_wire :: "FrameView \<Rightarrow> bytes" where
  "frame_wire f = raw_as_bytes (header_image (fv_header f)) @ fv_payload f"

definition wf_frame :: "FrameView \<Rightarrow> bool" where
  "wf_frame f \<longleftrightarrow> frame_header_validate (fv_header f) = Ok () \<and>
     unat (fh_payload_length (fv_header f)) = length (fv_payload f)"


section \<open>Wire codes\<close>

text \<open>
  The contract of the three code tables: the encoding is total and injective, the decoder accepts
  exactly the encoded values, and it rejects every other value with one fixed error.
\<close>

locale wire_enum =
  fixes to_wire :: "'k \<Rightarrow> u16"
    and from_wire :: "u16 \<Rightarrow> (ProtocolError, 'k) result"
    and unknown :: ProtocolError
  assumes from_to: "from_wire (to_wire k) = Ok k"
    and to_from: "from_wire w = Ok k \<Longrightarrow> to_wire k = w"
    and rejects: "from_wire w = Err e \<Longrightarrow> e = unknown"
begin

lemma to_wire_inject: "to_wire k = to_wire l \<longleftrightarrow> k = l"
  using from_to by (metis result.inject(2))

lemma from_wire_Ok: "from_wire w = Ok k \<longleftrightarrow> w = to_wire k"
  using from_to to_from by auto

lemma from_wire_Err: "from_wire w = Err e \<longleftrightarrow> e = unknown \<and> w \<notin> range to_wire"
proof (cases "from_wire w")
  case (Err d)
  then show ?thesis using rejects from_to by fastforce
next
  case (Ok k)
  then show ?thesis using to_from by auto
qed

end

interpretation message_type_wire: wire_enum message_type_to_wire message_type_from_wire UnknownMessageType
proof
  show "message_type_from_wire (message_type_to_wire k) = Ok k" for k
    by (cases k) (simp_all add: message_type_from_wire_def)
  show "message_type_from_wire w = Ok k \<Longrightarrow> message_type_to_wire k = w" for w k
    by (auto simp: message_type_from_wire_def split: if_splits)
  show "message_type_from_wire w = Err e \<Longrightarrow> e = UnknownMessageType" for w e
    by (auto simp: message_type_from_wire_def split: if_splits)
qed

interpretation status_wire: wire_enum status_to_wire status_from_wire NoncanonicalValue
proof
  show "status_from_wire (status_to_wire k) = Ok k" for k
    by (cases k) (simp_all add: status_from_wire_def)
  show "status_from_wire w = Ok k \<Longrightarrow> status_to_wire k = w" for w k
    by (auto simp: status_from_wire_def split: if_splits)
  show "status_from_wire w = Err e \<Longrightarrow> e = NoncanonicalValue" for w e
    by (auto simp: status_from_wire_def split: if_splits)
qed

interpretation phase_wire: wire_enum phase_to_wire phase_from_wire NoncanonicalValue
proof
  show "phase_from_wire (phase_to_wire k) = Ok k" for k
    by (cases k) (simp_all add: phase_from_wire_def)
  show "phase_from_wire w = Ok k \<Longrightarrow> phase_to_wire k = w" for w k
    by (auto simp: phase_from_wire_def split: if_splits)
  show "phase_from_wire w = Err e \<Longrightarrow> e = NoncanonicalValue" for w e
    by (auto simp: phase_from_wire_def split: if_splits)
qed


section \<open>Headers\<close>

lemma length_raw_as_bytes [simp]:
  "length (raw_magic r) = 4 \<Longrightarrow> length (raw_as_bytes r) = 32"
  by (simp add: raw_as_bytes_def)

lemma raw_from_as_bytes:
  "length (raw_magic r) = 4 \<Longrightarrow> raw_ref_from_bytes (raw_as_bytes r) = Some r"
  by (simp add: raw_ref_from_bytes_def owp_consts) (simp add: raw_as_bytes_def drop_append)

lemma raw_as_from_bytes:
  assumes "raw_ref_from_bytes bs = Some r"
  shows "raw_as_bytes r = bs \<and> length (raw_magic r) = 4"
proof -
  from assms have len: "length bs = 32"
    by (auto simp: raw_ref_from_bytes_def owp_consts split: if_splits)
  obtain m a b c d e f g where bs: "bs = m @ a @ b @ c @ d @ e @ f @ g"
    and w: "length m = 4" "length a = 2" "length b = 2" "length c = 2" "length d = 2"
      "length e = 4" "length f = 8" "length g = 8"
  proof -
    have "bs = take 4 bs @ take 2 (drop 4 bs) @ take 2 (drop 6 bs) @ take 2 (drop 8 bs) @
        take 2 (drop 10 bs) @ take 4 (drop 12 bs) @ take 8 (drop 16 bs) @ drop 24 bs"
      by (simp add: take_drop_join)
    then show ?thesis using len by (intro that) auto
  qed
  from assms bs w show ?thesis
    by (auto simp: raw_ref_from_bytes_def raw_as_bytes_def owp_consts u16_codec.enc_dec
        u32_codec.enc_dec u64_codec.enc_dec)
qed

lemma frame_header_encode_eq:
  "frame_header_encode h dst =
     (case frame_header_validate h of Err e \<Rightarrow> (Err e, dst)
      | Ok _ \<Rightarrow> (Ok (), raw_as_bytes (header_image h)))"
  by (simp add: frame_header_encode_def header_image_def split: result.split)

lemma header_image_magic [simp]: "raw_magic (header_image h) = FRAME_MAGIC"
  by (simp add: header_image_def)

lemma length_frame_magic [simp]: "length FRAME_MAGIC = 4"
  by (simp add: owp_consts)

lemma decode_frame_header_Ok_iff:
  "decode_frame_header bs = Ok h \<longleftrightarrow>
     frame_header_validate h = Ok () \<and> bs = raw_as_bytes (header_image h)"
proof
  assume "decode_frame_header bs = Ok h"
  then obtain raw where raw: "raw_ref_from_bytes bs = Some raw"
    and h: "raw = header_image h" "frame_header_validate h = Ok ()"
    by (auto simp: decode_frame_header_def header_image_def result_simps
        message_type_wire.from_wire_Ok Let_def split: option.splits if_splits)
  with raw_as_from_bytes show "frame_header_validate h = Ok () \<and> bs = raw_as_bytes (header_image h)"
    by blast
next
  assume a: "frame_header_validate h = Ok () \<and> bs = raw_as_bytes (header_image h)"
  then have "raw_ref_from_bytes bs = Some (header_image h)" by (simp add: raw_from_as_bytes)
  moreover have "fh_major_version h = PROTOCOL_MAJOR_VERSION" "fh_minor_version h = PROTOCOL_MINOR_VERSION"
    using a by (auto simp: frame_header_validate_def split: if_splits)
  ultimately show "decode_frame_header bs = Ok h" using a
    by (cases h) (simp add: decode_frame_header_def header_image_def message_type_wire.from_to Let_def)
qed

lemma length_frame_wire [simp]: "length (frame_wire f) = 32 + length (fv_payload f)"
  by (simp add: frame_wire_def)

lemma frame_header_validate_Ok:
  "frame_header_validate h = Ok () \<longleftrightarrow>
     fh_major_version h = PROTOCOL_MAJOR_VERSION \<and> fh_minor_version h = PROTOCOL_MINOR_VERSION \<and>
     fh_flags h = 0 \<and> fh_payload_length h \<le> MAXIMUM_FRAME_PAYLOAD_BYTES \<and>
     fh_session_id h \<noteq> 0 \<and>
     (fh_request_id h = 0 \<longleftrightarrow> requires_zero_request_id (fh_message_type h))"
  by (auto simp: frame_header_validate_def Let_def not_less split: if_splits)

lemma wf_frame_payload_bound:
  "wf_frame f \<Longrightarrow> length (fv_payload f) \<le> unat MAXIMUM_FRAME_PAYLOAD_BYTES"
  by (auto simp: wf_frame_def frame_header_validate_Ok word_le_nat_alt)

lemma encode_frame_eq:
  "encode_frame h payload dst =
     (if length payload > unat MAXIMUM_FRAME_PAYLOAD_BYTES then (Err PayloadTooLarge, dst)
      else if unat (fh_payload_length h) \<noteq> length payload then (Err NoncanonicalValue, dst)
      else case frame_header_validate h of Err e \<Rightarrow> (Err e, dst)
      | Ok _ \<Rightarrow>
         if length dst < 32 + length payload then (Err OutputTooSmall, dst)
         else (Ok (32 + length payload),
               frame_wire (frame_view_new h payload) @ drop (32 + length payload) dst))"
  by (auto simp: encode_frame_def frame_header_encode_eq FRAME_HEADER_BYTES_def frame_wire_def
      frame_view_new_def copy_at_def add.commute Let_def split: result.splits)

lemma encode_frame_Ok:
  assumes "encode_frame h payload dst = (Ok n, dst')"
  shows "wf_frame (frame_view_new h payload) \<and> take n dst' = frame_wire (frame_view_new h payload) \<and>
    drop n dst' = drop n dst \<and> length dst' = length dst"
  using assms
  by (auto simp: encode_frame_eq wf_frame_def frame_view_new_def frame_wire_def
      split: if_splits result.splits)

lemma decode_frame_Ok_iff:
  "decode_frame bs sid = Ok f \<longleftrightarrow>
     wf_frame f \<and> bs = frame_wire f \<and> (sid = 0 \<or> fh_session_id (fv_header f) = sid)"
proof
  assume "decode_frame bs sid = Ok f"
  then obtain h where h: "decode_frame_header (take 32 bs) = Ok h"
    and len: "length bs = 32 + unat (fh_payload_length h)"
    and s: "sid = 0 \<or> fh_session_id h = sid"
    and f: "f = frame_view_new h (drop 32 bs)"
    by (auto simp: decode_frame_def result_simps FRAME_HEADER_BYTES_def slice_get_Some_iff Let_def
        split: if_splits)
  from h have "frame_header_validate h = Ok ()" "take 32 bs = raw_as_bytes (header_image h)"
    by (simp_all add: decode_frame_header_Ok_iff)
  with len s f show "wf_frame f \<and> bs = frame_wire f \<and> (sid = 0 \<or> fh_session_id (fv_header f) = sid)"
    using append_take_drop_id[of 32 bs] by (auto simp: wf_frame_def frame_wire_def frame_view_new_def)
next
  assume a: "wf_frame f \<and> bs = frame_wire f \<and> (sid = 0 \<or> fh_session_id (fv_header f) = sid)"
  then have "take 32 bs = raw_as_bytes (header_image (fv_header f))"
    "drop 32 bs = fv_payload f" by (simp_all add: frame_wire_def)
  with a show "decode_frame bs sid = Ok f"
    by (auto simp: decode_frame_def FRAME_HEADER_BYTES_def slice_get_def wf_frame_def
        decode_frame_header_Ok_iff[THEN iffD2] frame_view_new_def)
qed

section \<open>Correctness of the framing\<close>

text \<open>
  C1: a frame that was encoded decodes to the same header and payload, whatever the destination
  held before, and the encoder wrote nothing past the frame.
\<close>

theorem frame_roundtrip:
  assumes "encode_frame h payload dst = (Ok n, dst')"
    and "sid = 0 \<or> sid = fh_session_id h"
  shows "decode_frame (take n dst') sid = Ok (frame_view_new h payload) \<and>
    drop n dst' = drop n dst \<and> length dst' = length dst"
proof -
  have "decode_frame (frame_wire (frame_view_new h payload)) sid = Ok (frame_view_new h payload)"
    using encode_frame_Ok[OF assms(1)] assms(2) by (auto simp: decode_frame_Ok_iff frame_view_new_def)
  then show ?thesis using encode_frame_Ok[OF assms(1)] by simp
qed

theorem frame_roundtrip_witness:
  "encode_frame (frame_header_new Ready 7 0 1) [42] (replicate 40 0) =
     (Ok 33, snd (encode_frame (frame_header_new Ready 7 0 1) [42] (replicate 40 0))) \<and>
   decode_frame (take 33 (snd (encode_frame (frame_header_new Ready 7 0 1) [42] (replicate 40 0)))) 7
     = Ok (frame_view_new (frame_header_new Ready 7 0 1) [42])"
proof -
  let ?e = "encode_frame (frame_header_new Ready 7 0 1) [42] (replicate 40 0)"
  have e: "?e = (Ok 33, snd ?e)"
    by (simp add: encode_frame_eq frame_header_validate_def frame_header_new_def owp_consts)
  have s: "7 = (0 :: u64) \<or> 7 = fh_session_id (frame_header_new Ready 7 0 1)"
    by (simp add: frame_header_new_def)
  show ?thesis using e frame_roundtrip[OF e s] by simp
qed

text \<open>
  C2: decoding is canonical.  Every byte string the decoder accepts is the unique encoding of the
  frame it returns, within the payload ceiling and of the pinned session, so no two byte strings
  carry the same frame and none is longer or shorter than its header declares.
\<close>

theorem frame_decode_canonical:
  assumes "decode_frame bs sid = Ok f" and "length bs \<le> length dst"
  shows "encode_frame (fv_header f) (fv_payload f) dst = (Ok (length bs), bs @ drop (length bs) dst) \<and>
    length (fv_payload f) \<le> unat MAXIMUM_FRAME_PAYLOAD_BYTES \<and>
    (sid \<noteq> 0 \<longrightarrow> fh_session_id (fv_header f) = sid)"
proof -
  from assms(1) have f: "wf_frame f" "bs = frame_wire f" "sid \<noteq> 0 \<longrightarrow> fh_session_id (fv_header f) = sid"
    by (auto simp: decode_frame_Ok_iff)
  moreover have "frame_view_new (fv_header f) (fv_payload f) = f" by (simp add: frame_view_new_def)
  ultimately show ?thesis using assms(2) wf_frame_payload_bound[OF f(1)]
    by (auto simp: encode_frame_eq wf_frame_def)
qed

theorem frame_decode_canonical_witness:
  "\<exists>f. decode_frame (frame_wire (frame_view_new (frame_header_new Hello 9 0 2) [1, 2])) 9 = Ok f \<and>
     fst (encode_frame (fv_header f) (fv_payload f) (replicate 34 0)) = Ok 34"
proof -
  let ?f = "frame_view_new (frame_header_new Hello 9 0 2) [1, 2]"
  have d: "decode_frame (frame_wire ?f) 9 = Ok ?f"
    by (simp add: decode_frame_Ok_iff wf_frame_def frame_view_new_def frame_header_new_def
        frame_header_validate_def owp_consts)
  have l: "length (frame_wire ?f) \<le> length (replicate 34 (0 :: u8))" by (simp add: frame_view_new_def)
  show ?thesis using d frame_decode_canonical[OF d l] by (auto simp: frame_view_new_def)
qed

text \<open>
  The encoder succeeds exactly on a valid header with the declared payload length and a large
  enough destination, and a failing call leaves the destination untouched.
\<close>

theorem encode_frame_atomic:
  "if wf_frame (frame_view_new h payload) \<and> FRAME_HEADER_BYTES + length payload \<le> length dst
   then \<exists>dst'. encode_frame h payload dst = (Ok (FRAME_HEADER_BYTES + length payload), dst')
   else \<exists>e. encode_frame h payload dst = (Err e, dst)"
proof (cases "frame_header_validate h")
  case (Err e)
  then show ?thesis by (auto simp: wf_frame_def frame_view_new_def encode_frame_eq)
next
  case (Ok u)
  then show ?thesis
    using wf_frame_payload_bound[of "frame_view_new h payload"]
    by (auto simp: wf_frame_def frame_view_new_def encode_frame_eq FRAME_HEADER_BYTES_def)
qed

end
