(* ===== verification/Owp_Payload.thy ===== *)
theory Owp_Payload
  imports Owp_Frame
begin

text \<open>
  \<open>payload.rs\<close> of crate \<open>ohl-parser-protocol\<close>: the bounded payload writer over a caller's buffer
  and the bounded payload reader over a borrowed payload.  Both are sticky: the first failure is
  recorded and every later operation reports it without touching the buffer.
\<close>

record PayloadWriter =
  pw_destination :: bytes
  pw_capacity :: nat
  pw_position :: nat
  pw_error :: "ProtocolError option"

definition payload_writer_new :: "bytes \<Rightarrow> PayloadWriter" where
  "payload_writer_new dst =
     \<lparr>pw_destination = dst,
      pw_capacity = min (length dst) (unat MAXIMUM_FRAME_PAYLOAD_BYTES),
      pw_position = 0, pw_error = None\<rparr>"

definition pw_reserve :: "nat \<Rightarrow> (PayloadWriter, ProtocolError, nat) stm" where
  "pw_reserve n w =
     (case pw_error w of
        Some e \<Rightarrow> (Err e, w)
      | None \<Rightarrow>
          if n > pw_capacity w - pw_position w
          then (Err OutputTooSmall, w\<lparr>pw_error := Some OutputTooSmall\<rparr>)
          else (Ok (pw_position w), w\<lparr>pw_position := pw_position w + n\<rparr>))"

definition pw_store :: "nat \<Rightarrow> bytes \<Rightarrow> (PayloadWriter, ProtocolError, unit) stm" where
  "pw_store at bs w = (Ok (), w\<lparr>pw_destination := copy_at at bs (pw_destination w)\<rparr>)"

definition write_u8 :: "u8 \<Rightarrow> (PayloadWriter, ProtocolError, unit) stm" where
  "write_u8 v = st_bind (pw_reserve 1)
     (\<lambda>at w. (Ok (), w\<lparr>pw_destination := (pw_destination w)[at := v]\<rparr>))"

definition write_u16 :: "u16 \<Rightarrow> (PayloadWriter, ProtocolError, unit) stm" where
  "write_u16 v = st_bind (pw_reserve 2) (\<lambda>at. pw_store at (u16_to_le v))"

definition write_u32 :: "u32 \<Rightarrow> (PayloadWriter, ProtocolError, unit) stm" where
  "write_u32 v = st_bind (pw_reserve 4) (\<lambda>at. pw_store at (u32_to_le v))"

definition write_u64 :: "u64 \<Rightarrow> (PayloadWriter, ProtocolError, unit) stm" where
  "write_u64 v = st_bind (pw_reserve 8) (\<lambda>at. pw_store at (u64_to_le v))"

definition write_bool :: "bool \<Rightarrow> (PayloadWriter, ProtocolError, unit) stm" where
  "write_bool v = write_u8 (if v then 1 else 0)"

definition write_status :: "ProtocolStatus \<Rightarrow> (PayloadWriter, ProtocolError, unit) stm" where
  "write_status v = write_u16 (status_to_wire v)"

definition write_phase :: "ProtocolPhase \<Rightarrow> (PayloadWriter, ProtocolError, unit) stm" where
  "write_phase v = write_u16 (phase_to_wire v)"

definition write_bytes :: "bytes \<Rightarrow> (PayloadWriter, ProtocolError, unit) stm" where
  "write_bytes bs = st_bind (pw_reserve (length bs)) (\<lambda>at. pw_store at bs)"

definition pw_written :: "PayloadWriter \<Rightarrow> bytes" where
  "pw_written w = take (pw_position w) (pw_destination w)"

record PayloadReader =
  pr_payload :: bytes
  pr_position :: nat
  pr_error :: "ProtocolError option"

definition payload_reader_new :: "bytes \<Rightarrow> PayloadReader" where
  "payload_reader_new payload =
     \<lparr>pr_payload = payload, pr_position = 0,
      pr_error = (if length payload > unat MAXIMUM_FRAME_PAYLOAD_BYTES
                  then Some PayloadTooLarge else None)\<rparr>"

definition pr_take :: "nat \<Rightarrow> (PayloadReader, ProtocolError, bytes) stm" where
  "pr_take n r =
     (case pr_error r of
        Some e \<Rightarrow> (Err e, r)
      | None \<Rightarrow>
          if n > length (pr_payload r) - pr_position r
          then (Err PayloadUnderflow, r\<lparr>pr_error := Some PayloadUnderflow\<rparr>)
          else (Ok (take n (drop (pr_position r) (pr_payload r))),
                r\<lparr>pr_position := pr_position r + n\<rparr>))"

definition read_u8 :: "(PayloadReader, ProtocolError, u8) stm" where
  "read_u8 = st_bind (pr_take 1) (\<lambda>bs. st_return (u8_from_le bs))"

definition read_u16 :: "(PayloadReader, ProtocolError, u16) stm" where
  "read_u16 = st_bind (pr_take 2) (\<lambda>bs. st_return (u16_from_le bs))"

definition read_u32 :: "(PayloadReader, ProtocolError, u32) stm" where
  "read_u32 = st_bind (pr_take 4) (\<lambda>bs. st_return (u32_from_le bs))"

definition read_u64 :: "(PayloadReader, ProtocolError, u64) stm" where
  "read_u64 = st_bind (pr_take 8) (\<lambda>bs. st_return (u64_from_le bs))"

text \<open>
  Recording a failure in the reader and returning it, and \<open>inspect_err\<close> that records the error of
  a checked value.
\<close>

definition pr_reject :: "ProtocolError \<Rightarrow> (PayloadReader, ProtocolError, 'a) stm" where
  "pr_reject e r = (Err e, r\<lparr>pr_error := Some e\<rparr>)"

definition pr_check :: "(ProtocolError, 'a) result \<Rightarrow> (PayloadReader, ProtocolError, 'a) stm" where
  "pr_check m = (case m of Err e \<Rightarrow> pr_reject e | Ok v \<Rightarrow> st_return v)"

definition read_bool :: "(PayloadReader, ProtocolError, bool) stm" where
  "read_bool = st_bind read_u8 (\<lambda>encoded.
     if encoded > 1 then pr_reject NoncanonicalValue else st_return (encoded \<noteq> 0))"

definition read_status :: "(PayloadReader, ProtocolError, ProtocolStatus) stm" where
  "read_status = st_bind read_u16 (\<lambda>encoded. pr_check (status_from_wire encoded))"

definition read_phase :: "(PayloadReader, ProtocolError, ProtocolPhase) stm" where
  "read_phase = st_bind read_u16 (\<lambda>encoded. pr_check (phase_from_wire encoded))"

definition read_bytes :: "nat \<Rightarrow> (PayloadReader, ProtocolError, bytes) stm" where
  "read_bytes n = pr_take n"

definition pr_finish :: "(PayloadReader, ProtocolError, unit) stm" where
  "pr_finish r =
     (case pr_error r of
        Some e \<Rightarrow> (Err e, r)
      | None \<Rightarrow>
          if pr_position r \<noteq> length (pr_payload r)
          then (Err PayloadTrailingBytes, r\<lparr>pr_error := Some PayloadTrailingBytes\<rparr>)
          else (Ok (), r))"

definition pr_remaining :: "PayloadReader \<Rightarrow> nat" where
  "pr_remaining r = length (pr_payload r) - pr_position r"


section \<open>Writers as byte emitters\<close>

text \<open>
  Every write is the emission of a byte string.  On a writer with room the emission extends what
  was written and keeps the well-formedness \<open>pw_inv\<close>.
\<close>

definition pw_inv :: "PayloadWriter \<Rightarrow> bool" where
  "pw_inv w \<longleftrightarrow> pw_position w \<le> pw_capacity w \<and> pw_capacity w \<le> length (pw_destination w)"

definition pw_emit :: "bytes \<Rightarrow> (PayloadWriter, ProtocolError, unit) stm" where
  "pw_emit bs w =
     (case pw_error w of
        Some e \<Rightarrow> (Err e, w)
      | None \<Rightarrow>
          if length bs > pw_capacity w - pw_position w
          then (Err OutputTooSmall, w\<lparr>pw_error := Some OutputTooSmall\<rparr>)
          else (Ok (), w\<lparr>pw_destination := copy_at (pw_position w) bs (pw_destination w),
                        pw_position := pw_position w + length bs\<rparr>))"

lemma pw_store_emit:
  "length bs = n \<Longrightarrow> st_bind (pw_reserve n) (\<lambda>at. pw_store at bs) = pw_emit bs"
  by (rule ext) (auto simp: st_bind_def pw_reserve_def pw_store_def pw_emit_def split: option.splits)

lemma pw_store1_emit:
  "pw_inv w \<Longrightarrow> st_bind (pw_reserve 1)
     (\<lambda>at w. (Ok (), w\<lparr>pw_destination := (pw_destination w)[at := v]\<rparr>)) w = pw_emit [v] w"
  by (auto simp: st_bind_def pw_reserve_def pw_emit_def pw_inv_def copy_at_def upd_conv_take_nth_drop
      split: option.splits)

lemma write_u8_emit: "pw_inv w \<Longrightarrow> write_u8 v w = pw_emit [v] w"
  unfolding write_u8_def by (rule pw_store1_emit)

lemma write_emits:
  "write_u16 a = pw_emit (u16_to_le a)"
  "write_u32 b = pw_emit (u32_to_le b)"
  "write_u64 c = pw_emit (u64_to_le c)"
  "write_status s = pw_emit (u16_to_le (status_to_wire s))"
  "write_phase p = pw_emit (u16_to_le (phase_to_wire p))"
  "write_bytes bs = pw_emit bs"
  by (simp_all add: write_u16_def write_u32_def write_u64_def write_status_def write_phase_def
      write_bytes_def pw_store_emit)

lemma pw_emit_inv: "pw_inv w \<Longrightarrow> pw_inv (snd (pw_emit bs w))"
  by (auto simp: pw_emit_def pw_inv_def split: option.splits)

lemma pw_emit_written:
  "pw_inv w \<Longrightarrow> pw_emit bs w = (Ok (), w') \<Longrightarrow> pw_written w' = pw_written w @ bs"
  by (auto simp: pw_emit_def pw_inv_def pw_written_def copy_at_def split: option.splits if_splits)

lemma pw_emit_Ok_iff:
  "pw_emit bs w = (Ok (), w') \<longleftrightarrow>
     pw_error w = None \<and> length bs \<le> pw_capacity w - pw_position w \<and>
     w' = w\<lparr>pw_destination := copy_at (pw_position w) bs (pw_destination w),
           pw_position := pw_position w + length bs\<rparr>"
  by (auto simp: pw_emit_def split: option.splits)


section \<open>Readers as consumers of a byte string\<close>

text \<open>
  A live reader is a payload split into the bytes consumed and the bytes ahead.  Each read is an
  equation on the bytes ahead, without side conditions, so that a schema is decided by rewriting.
\<close>

definition reader_of :: "bytes \<Rightarrow> bytes \<Rightarrow> PayloadReader" where
  "reader_of pre ahead = \<lparr>pr_payload = pre @ ahead, pr_position = length pre, pr_error = None\<rparr>"

named_theorems reader_simps \<open>successful reads as equations on the bytes ahead\<close>

lemma payload_reader_new_live:
  "length payload \<le> unat MAXIMUM_FRAME_PAYLOAD_BYTES \<Longrightarrow>
     payload_reader_new payload = reader_of [] payload"
  by (simp add: payload_reader_new_def reader_of_def)

lemma pr_remaining_reader_of [simp]: "pr_remaining (reader_of pre ahead) = length ahead"
  by (simp add: pr_remaining_def reader_of_def)

lemma pr_take_reader_of [reader_simps]:
  "pr_take n (reader_of pre ahead) = (Ok bs, r') \<longleftrightarrow>
     (\<exists>post. ahead = bs @ post \<and> length bs = n \<and> r' = reader_of (pre @ bs) post)"
proof
  assume "pr_take n (reader_of pre ahead) = (Ok bs, r')"
  then have "ahead = bs @ drop n ahead \<and> length bs = n \<and> r' = reader_of (pre @ bs) (drop n ahead)"
    by (auto simp: pr_take_def reader_of_def split: if_splits)
  then show "\<exists>post. ahead = bs @ post \<and> length bs = n \<and> r' = reader_of (pre @ bs) post" by blast
qed (auto simp: pr_take_def reader_of_def)

lemma read_bytes_reader_of [reader_simps]:
  "read_bytes n (reader_of pre ahead) = (Ok bs, r') \<longleftrightarrow>
     (\<exists>post. ahead = bs @ post \<and> length bs = n \<and> r' = reader_of (pre @ bs) post)"
  by (simp add: read_bytes_def reader_simps)

text \<open>One lemma for the fixed-width reads, through the codec interface.\<close>

context fixed_codec
begin

lemma read_fixed:
  "st_bind (pr_take width) (\<lambda>bs. st_return (dec bs)) (reader_of pre ahead) = (Ok v, r') \<longleftrightarrow>
     (\<exists>post. ahead = enc v @ post \<and> r' = reader_of (pre @ enc v) post)"
  (is "?m = _ \<longleftrightarrow> ?R")
proof
  assume "?m = (Ok v, r')"
  then show ?R by (auto simp: result_simps reader_simps enc_dec)
next
  assume ?R
  then obtain post where "ahead = enc v @ post" "r' = reader_of (pre @ enc v) post" by blast
  then have "pr_take width (reader_of pre ahead) = (Ok (enc v), r')"
    by (simp add: reader_simps length_enc)
  then show "?m = (Ok v, r')" by (simp add: st_bind_step_Ok dec_enc)
qed

end

lemma read_u8_reader_of [reader_simps]:
  "read_u8 (reader_of pre ahead) = (Ok v, r') \<longleftrightarrow>
     (\<exists>post. ahead = u8_to_le v @ post \<and> r' = reader_of (pre @ u8_to_le v) post)"
  unfolding read_u8_def by (rule u8_codec.read_fixed)

lemma read_u16_reader_of [reader_simps]:
  "read_u16 (reader_of pre ahead) = (Ok v, r') \<longleftrightarrow>
     (\<exists>post. ahead = u16_to_le v @ post \<and> r' = reader_of (pre @ u16_to_le v) post)"
  unfolding read_u16_def by (rule u16_codec.read_fixed)

lemma read_u32_reader_of [reader_simps]:
  "read_u32 (reader_of pre ahead) = (Ok v, r') \<longleftrightarrow>
     (\<exists>post. ahead = u32_to_le v @ post \<and> r' = reader_of (pre @ u32_to_le v) post)"
  unfolding read_u32_def by (rule u32_codec.read_fixed)

lemma read_u64_reader_of [reader_simps]:
  "read_u64 (reader_of pre ahead) = (Ok v, r') \<longleftrightarrow>
     (\<exists>post. ahead = u64_to_le v @ post \<and> r' = reader_of (pre @ u64_to_le v) post)"
  unfolding read_u64_def by (rule u64_codec.read_fixed)

lemma u8_le_1: "\<not> 1 < b \<longleftrightarrow> b = 0 \<or> b = (1 :: u8)"
proof
  assume "\<not> 1 < b"
  then have "unat b \<le> 1" by (simp add: word_le_nat_alt not_less)
  then have "unat b = 0 \<or> unat b = 1" by arith
  then show "b = 0 \<or> b = 1" by (simp add: word_unat_eq_iff)
qed (auto simp: word_less_nat_alt)

lemma bool_check_Ok:
  "(if 1 < (b :: u8) then pr_reject NoncanonicalValue else st_return (b \<noteq> 0)) r = (Ok v, r') \<longleftrightarrow>
     b = (if v then 1 else 0) \<and> r' = r"
proof (cases "1 < b")
  case True
  then have "b \<noteq> 0" "b \<noteq> 1" by (auto simp: word_less_nat_alt)
  with True show ?thesis by (simp add: pr_reject_def)
next
  case False
  then have "b = 0 \<or> b = 1" by (simp add: u8_le_1)
  then show ?thesis by (auto simp: word_less_nat_alt)
qed

lemma read_bool_reader_of [reader_simps]:
  "read_bool (reader_of pre ahead) = (Ok v, r') \<longleftrightarrow>
     (\<exists>post. ahead = [if v then 1 else 0] @ post \<and> r' = reader_of (pre @ [if v then 1 else 0]) post)"
  by (simp only: read_bool_def st_bind_Ok bool_check_Ok read_u8_reader_of u8_to_le_def) auto

lemma pr_check_Ok [result_simps]: "pr_check m r = (Ok v, r') \<longleftrightarrow> m = Ok v \<and> r' = r"
  and pr_check_Err [result_simps]: "pr_check m r = (Err e, r') \<longleftrightarrow> m = Err e \<and> r' = r\<lparr>pr_error := Some e\<rparr>"
  by (cases m; auto simp: pr_check_def pr_reject_def)+

context wire_enum
begin

lemma read_wire:
  "st_bind read_u16 (\<lambda>w. pr_check (from_wire w)) (reader_of pre ahead) = (Ok v, r') \<longleftrightarrow>
     (\<exists>post. ahead = u16_to_le (to_wire v) @ post \<and>
        r' = reader_of (pre @ u16_to_le (to_wire v)) post)"
  by (auto simp: result_simps reader_simps from_wire_Ok)

end

lemma read_status_reader_of [reader_simps]:
  "read_status (reader_of pre ahead) = (Ok v, r') \<longleftrightarrow>
     (\<exists>post. ahead = u16_to_le (status_to_wire v) @ post \<and>
        r' = reader_of (pre @ u16_to_le (status_to_wire v)) post)"
  unfolding read_status_def by (rule status_wire.read_wire)

lemma read_phase_reader_of [reader_simps]:
  "read_phase (reader_of pre ahead) = (Ok v, r') \<longleftrightarrow>
     (\<exists>post. ahead = u16_to_le (phase_to_wire v) @ post \<and>
        r' = reader_of (pre @ u16_to_le (phase_to_wire v)) post)"
  unfolding read_phase_def by (rule phase_wire.read_wire)

lemma pr_finish_reader_of [reader_simps]:
  "pr_finish (reader_of pre ahead) = (Ok u, r') \<longleftrightarrow> ahead = [] \<and> r' = reader_of pre []"
  by (auto simp: pr_finish_def reader_of_def split: if_splits)

lemma read_exact:
  "read_u16 (reader_of pre (u16_to_le a @ post)) = (Ok a, reader_of (pre @ u16_to_le a) post)"
  "read_u64 (reader_of pre (u64_to_le c @ post)) = (Ok c, reader_of (pre @ u64_to_le c) post)"
  "length bs = n \<Longrightarrow> read_bytes n (reader_of pre (bs @ post)) = (Ok bs, reader_of (pre @ bs) post)"
  by (simp_all add: reader_simps)


section \<open>Field sequences\<close>

text \<open>
  A schema is a sequence of fields.  \<open>write_field\<close> and \<open>read_field\<close> perform the operation of the
  field's kind; a read takes the kind and the length from the expected field.
\<close>

datatype PayloadField =
    FieldU8 u8 | FieldU16 u16 | FieldU32 u32 | FieldU64 u64 | FieldBool bool
  | FieldStatus ProtocolStatus | FieldPhase ProtocolPhase | FieldBytes bytes

fun field_bytes :: "PayloadField \<Rightarrow> bytes" where
  "field_bytes (FieldU8 v) = [v]"
| "field_bytes (FieldU16 v) = u16_to_le v"
| "field_bytes (FieldU32 v) = u32_to_le v"
| "field_bytes (FieldU64 v) = u64_to_le v"
| "field_bytes (FieldBool v) = [if v then 1 else 0]"
| "field_bytes (FieldStatus v) = u16_to_le (status_to_wire v)"
| "field_bytes (FieldPhase v) = u16_to_le (phase_to_wire v)"
| "field_bytes (FieldBytes bs) = bs"

fun write_field :: "PayloadField \<Rightarrow> (PayloadWriter, ProtocolError, unit) stm" where
  "write_field (FieldU8 v) = write_u8 v"
| "write_field (FieldU16 v) = write_u16 v"
| "write_field (FieldU32 v) = write_u32 v"
| "write_field (FieldU64 v) = write_u64 v"
| "write_field (FieldBool v) = write_bool v"
| "write_field (FieldStatus v) = write_status v"
| "write_field (FieldPhase v) = write_phase v"
| "write_field (FieldBytes bs) = write_bytes bs"

fun read_field :: "PayloadField \<Rightarrow> (PayloadReader, ProtocolError, PayloadField) stm" where
  "read_field (FieldU8 _) = st_bind read_u8 (\<lambda>v. st_return (FieldU8 v))"
| "read_field (FieldU16 _) = st_bind read_u16 (\<lambda>v. st_return (FieldU16 v))"
| "read_field (FieldU32 _) = st_bind read_u32 (\<lambda>v. st_return (FieldU32 v))"
| "read_field (FieldU64 _) = st_bind read_u64 (\<lambda>v. st_return (FieldU64 v))"
| "read_field (FieldBool _) = st_bind read_bool (\<lambda>v. st_return (FieldBool v))"
| "read_field (FieldStatus _) = st_bind read_status (\<lambda>v. st_return (FieldStatus v))"
| "read_field (FieldPhase _) = st_bind read_phase (\<lambda>v. st_return (FieldPhase v))"
| "read_field (FieldBytes bs) = st_bind (read_bytes (length bs)) (\<lambda>v. st_return (FieldBytes v))"

fun write_fields :: "PayloadField list \<Rightarrow> PayloadWriter \<Rightarrow> PayloadWriter" where
  "write_fields [] w = w"
| "write_fields (f # fs) w = write_fields fs (snd (write_field f w))"

fun read_fields :: "PayloadField list \<Rightarrow> (PayloadReader, ProtocolError, PayloadField list) stm" where
  "read_fields [] = st_bind pr_finish (\<lambda>_. st_return [])"
| "read_fields (f # fs) = st_bind (read_field f) (\<lambda>v. st_bind (read_fields fs) (\<lambda>vs. st_return (v # vs)))"

lemma write_field_emit: "pw_inv w \<Longrightarrow> write_field f w = pw_emit (field_bytes f) w"
  by (cases f) (simp_all add: write_emits write_u8_emit write_bool_def)

lemma write_field_inv: "pw_inv w \<Longrightarrow> pw_inv (snd (write_field f w))"
  by (simp add: write_field_emit pw_emit_inv)

text \<open>The writer and the reader are sticky machines over their operations.\<close>

lemma write_u8_Err: "write_u8 v w = (Err e, w') \<Longrightarrow> pw_error w' = Some e"
  and write_u8_Ok: "write_u8 v w = (Ok u, w') \<Longrightarrow> pw_error w' = None"
  and write_u8_sticky: "pw_error w = Some e \<Longrightarrow> write_u8 v w = (Err e, w)"
  by (auto simp: write_u8_def pw_reserve_def st_bind_def split: option.splits if_splits)

lemma pw_emit_Err: "pw_emit bs w = (Err e, w') \<Longrightarrow> pw_error w' = Some e"
  and pw_emit_Ok: "pw_emit bs w = (Ok u, w') \<Longrightarrow> pw_error w' = None"
  and pw_emit_sticky: "pw_error w = Some e \<Longrightarrow> pw_emit bs w = (Err e, w)"
  by (auto simp: pw_emit_def split: option.splits if_splits)

interpretation payload_writer: sticky_machine write_field pw_error
proof
  show "pw_error w = Some e \<Longrightarrow> write_field f w = (Err e, w)" for w e f
    by (cases f) (simp_all add: write_emits write_bool_def pw_emit_sticky write_u8_sticky)
  show "write_field f w = (Err e, w') \<Longrightarrow> pw_error w' = Some e" for f w e w'
    by (cases f) (auto simp: write_emits write_bool_def dest: pw_emit_Err write_u8_Err)
  show "write_field f w = (Ok u, w') \<Longrightarrow> pw_error w' = None" for f w u w'
    by (cases f) (auto simp: write_emits write_bool_def dest: pw_emit_Ok write_u8_Ok)
qed

definition read_step :: "PayloadField option \<Rightarrow> (PayloadReader, ProtocolError, unit) stm" where
  "read_step i = (case i of Some f \<Rightarrow> st_bind (read_field f) (\<lambda>_. st_return ()) | None \<Rightarrow> pr_finish)"

lemma pr_take_Err: "pr_take n r = (Err e, r') \<Longrightarrow> pr_error r' = Some e"
  and pr_take_Ok: "pr_take n r = (Ok bs, r') \<Longrightarrow> pr_error r' = None"
  and pr_take_sticky: "pr_error r = Some e \<Longrightarrow> pr_take n r = (Err e, r)"
  by (auto simp: pr_take_def split: option.splits if_splits)

lemmas read_defs = read_u8_def read_u16_def read_u32_def read_u64_def read_bool_def read_status_def
  read_phase_def read_bytes_def

lemma read_field_sticky: "pr_error r = Some e \<Longrightarrow> read_field f r = (Err e, r)"
  by (cases f) (simp_all add: read_defs st_bind_def pr_take_sticky)

lemma read_field_Err: "read_field f r = (Err e, r') \<Longrightarrow> pr_error r' = Some e"
  by (cases f) (auto simp: read_defs result_simps pr_reject_def dest: pr_take_Err
      split: if_splits)

lemma read_field_Ok: "read_field f r = (Ok v, r') \<Longrightarrow> pr_error r' = None"
  by (cases f) (auto simp: read_defs result_simps pr_reject_def dest: pr_take_Ok
      split: if_splits)

interpretation payload_reader: sticky_machine read_step pr_error
proof
  show "pr_error r = Some e \<Longrightarrow> read_step i r = (Err e, r)" for r e i
    by (cases i) (simp_all add: read_step_def read_field_sticky st_bind_def pr_finish_def)
  show "read_step i r = (Err e, r') \<Longrightarrow> pr_error r' = Some e" for i r e r'
    by (cases i) (auto simp: read_step_def result_simps pr_finish_def dest: read_field_Err
        split: option.splits if_splits)
  show "read_step i r = (Ok u, r') \<Longrightarrow> pr_error r' = None" for i r u r'
    by (cases i) (auto simp: read_step_def result_simps pr_finish_def dest: read_field_Ok
        split: option.splits if_splits)
qed

lemma payload_writer_new_fields [simp]:
  "pw_destination (payload_writer_new dst) = dst"
  "pw_capacity (payload_writer_new dst) = min (length dst) (unat MAXIMUM_FRAME_PAYLOAD_BYTES)"
  "pw_position (payload_writer_new dst) = 0"
  "pw_error (payload_writer_new dst) = None"
  by (simp_all add: payload_writer_new_def)

lemma payload_writer_new_inv [simp]: "pw_inv (payload_writer_new dst)"
  by (simp add: pw_inv_def)

lemma pw_emit_frame:
  "pw_inv w \<Longrightarrow> pw_capacity (snd (pw_emit bs w)) = pw_capacity w \<and>
     length (pw_destination (snd (pw_emit bs w))) = length (pw_destination w)"
  by (auto simp: pw_emit_def pw_inv_def split: option.splits)

lemma writer_run_ok:
  assumes "pw_inv w" and "pw_error (payload_writer.run fs w) = None"
  shows "pw_inv (payload_writer.run fs w) \<and>
    pw_written (payload_writer.run fs w) = pw_written w @ concat (map field_bytes fs) \<and>
    pw_capacity (payload_writer.run fs w) = pw_capacity w"
  using assms
proof (induction fs arbitrary: w)
  case (Cons f fs)
  obtain r w' where fw: "pw_emit (field_bytes f) w = (r, w')"
    by (cases "pw_emit (field_bytes f) w") auto
  have run: "payload_writer.run (f # fs) w = payload_writer.run fs w'"
    using Cons.prems(1) fw by (simp add: write_field_emit)
  have w': "pw_inv w'" "pw_capacity w' = pw_capacity w"
    using pw_emit_inv[OF Cons.prems(1), of "field_bytes f"]
      pw_emit_frame[OF Cons.prems(1), of "field_bytes f"] fw by simp_all
  have "pw_error w' = None"
    using Cons.prems(2) run payload_writer.run_failed[of w' _ fs] by (cases "pw_error w'") auto
  then have "r = Ok ()" using fw pw_emit_Err[of "field_bytes f" w _ w'] by (cases r) auto
  then have "pw_written w' = pw_written w @ field_bytes f"
    using pw_emit_written[OF Cons.prems(1)] fw by blast
  then show ?case using Cons.IH[OF w'(1)] Cons.prems(2) run w' by simp
qed simp

lemma read_field_exact:
  "read_field f (reader_of pre (field_bytes f @ post)) = (Ok f, reader_of (pre @ field_bytes f) post)"
  by (cases f) (simp_all add: result_simps reader_simps u8_to_le_def)

lemma read_fields_exact:
  "read_fields fs (reader_of pre (concat (map field_bytes fs))) =
     (Ok fs, reader_of (pre @ concat (map field_bytes fs)) [])"
proof (induction fs arbitrary: pre)
  case Nil
  then show ?case by (simp add: result_simps reader_simps)
next
  case (Cons f fs)
  show ?case
    by (simp add: st_bind_def read_field_exact Cons.IH)
qed


lemma write_fields_run: "write_fields fs w = payload_writer.run fs w"
  by (induction fs arbitrary: w) simp_all

lemma writer_run_destination:
  assumes "pw_inv w" and "pw_error w = None"
  shows "\<exists>k \<le> length fs. let bs = concat (map field_bytes (take k fs)); w' = write_fields fs w in
      pw_destination w' = copy_at (pw_position w) bs (pw_destination w) \<and>
      pw_position w' = pw_position w + length bs \<and> pw_position w' \<le> pw_capacity w \<and>
      (if k = length fs then pw_error w' = None
       else pw_error w' = Some OutputTooSmall \<and>
         pw_capacity w < pw_position w' + length (field_bytes (fs ! k)))"
  using assms
proof (induction fs arbitrary: w)
  case Nil
  then show ?case by (simp add: copy_at_def pw_inv_def)
next
  case (Cons f fs)
  let ?b = "field_bytes f"
  show ?case
  proof (cases "length ?b \<le> pw_capacity w - pw_position w")
    case False
    then have "write_field f w = (Err OutputTooSmall, w\<lparr>pw_error := Some OutputTooSmall\<rparr>)"
      using Cons.prems by (simp add: write_field_emit pw_emit_def)
    moreover have "write_fields fs (w\<lparr>pw_error := Some OutputTooSmall\<rparr>) = w\<lparr>pw_error := Some OutputTooSmall\<rparr>"
      by (simp add: write_fields_run payload_writer.run_failed)
    ultimately show ?thesis using False Cons.prems
      by (intro exI[of _ 0]) (auto simp: copy_at_def pw_inv_def)
  next
    case True
    define w1 where "w1 = w\<lparr>pw_destination := copy_at (pw_position w) ?b (pw_destination w),
      pw_position := pw_position w + length ?b\<rparr>"
    have step: "write_field f w = (Ok (), w1)"
      using Cons.prems True by (simp add: write_field_emit pw_emit_def w1_def)
    have w1: "pw_inv w1" "pw_error w1 = None" "pw_capacity w1 = pw_capacity w"
      using Cons.prems True by (auto simp: w1_def pw_inv_def)
    from Cons.IH[OF w1(1,2)] obtain k where k: "k \<le> length fs"
      and IH: "let bs = concat (map field_bytes (take k fs)); w' = write_fields fs w1 in
      pw_destination w' = copy_at (pw_position w1) bs (pw_destination w1) \<and>
      pw_position w' = pw_position w1 + length bs \<and> pw_position w' \<le> pw_capacity w1 \<and>
      (if k = length fs then pw_error w' = None
       else pw_error w' = Some OutputTooSmall \<and>
         pw_capacity w1 < pw_position w' + length (field_bytes (fs ! k)))" by blast
    have "copy_at (pw_position w1) bs (pw_destination w1) =
        copy_at (pw_position w) (?b @ bs) (pw_destination w)" for bs
      using Cons.prems True by (auto simp: w1_def copy_at_def pw_inv_def ac_simps)
    with k IH step w1(3) show ?thesis
      by (intro exI[of _ "Suc k"]) (auto simp: Let_def w1_def)
  qed
qed


section \<open>Correctness of the payload cursors\<close>

text \<open>
  A whole schema may be written and checked once at the end.  The buffer then holds the
  encodings of the fields before the first that did not fit, followed by its old contents; the
  recorded error is \<open>OutputTooSmall\<close> exactly when a field did not fit, and no operation after it
  touched the buffer.
\<close>

theorem payload_writer_prefix:
  "\<exists>k \<le> length fs. let bs = concat (map field_bytes (take k fs));
                         w = write_fields fs (payload_writer_new dst) in
     pw_destination w = bs @ drop (length bs) dst \<and> pw_written w = bs \<and>
     length bs \<le> min (length dst) (unat MAXIMUM_FRAME_PAYLOAD_BYTES) \<and>
     (if k = length fs then pw_error w = None
      else pw_error w = Some OutputTooSmall \<and>
        min (length dst) (unat MAXIMUM_FRAME_PAYLOAD_BYTES) < length bs + length (field_bytes (fs ! k)))"
proof -
  have e: "pw_error (payload_writer_new dst) = None" by simp
  let ?w = "write_fields fs (payload_writer_new dst)"
  from writer_run_destination[OF payload_writer_new_inv e, of fs]
  obtain k where "k \<le> length fs" and
    "let bs = concat (map field_bytes (take k fs)); w' = ?w in
      pw_destination w' = copy_at (pw_position (payload_writer_new dst)) bs
        (pw_destination (payload_writer_new dst)) \<and>
      pw_position w' = pw_position (payload_writer_new dst) + length bs \<and>
      pw_position w' \<le> pw_capacity (payload_writer_new dst) \<and>
      (if k = length fs then pw_error w' = None
       else pw_error w' = Some OutputTooSmall \<and>
         pw_capacity (payload_writer_new dst) < pw_position w' + length (field_bytes (fs ! k)))"
    by blast
  then show ?thesis
    by (intro exI[of _ k]) (auto simp: Let_def copy_at_def pw_written_def cong: if_cong)
qed

text \<open>
  Reading back.  When a schema was written without error, the reader returns the same fields
  from the written bytes and accepts the end of the payload; the bytes are the concatenation of
  the fields' encodings.
\<close>

theorem payload_fields_roundtrip:
  assumes "pw_error (write_fields fs (payload_writer_new dst)) = None"
  shows "fst (read_fields fs (payload_reader_new (pw_written (write_fields fs (payload_writer_new dst))))) = Ok fs
    \<and> pw_written (write_fields fs (payload_writer_new dst)) = concat (map field_bytes fs)"
proof -
  let ?w = "write_fields fs (payload_writer_new dst)"
  from assms have e: "pw_error (payload_writer.run fs (payload_writer_new dst)) = None"
    by (simp add: write_fields_run)
  from writer_run_ok[OF payload_writer_new_inv e]
  have w: "pw_written ?w = concat (map field_bytes fs)" and inv: "pw_inv ?w"
    and cap: "pw_capacity ?w = pw_capacity (payload_writer_new dst)"
    by (simp_all add: write_fields_run pw_written_def payload_writer_new_def)
  have "length (pw_written ?w) \<le> unat MAXIMUM_FRAME_PAYLOAD_BYTES"
    using inv cap by (auto simp: pw_inv_def pw_written_def payload_writer_new_def)
  then show ?thesis using w by (simp add: payload_reader_new_live read_fields_exact)
qed

theorem payload_fields_roundtrip_witness:
  "pw_error (write_fields [FieldU16 7, FieldBool True, FieldBytes [1, 2]] (payload_writer_new (replicate 5 0))) = None
   \<and> pw_written (write_fields [FieldU16 7, FieldBool True, FieldBytes [1, 2]]
       (payload_writer_new (replicate 5 0))) = [7, 0, 1, 1, 2]"
proof -
  let ?fs = "[FieldU16 7, FieldBool True, FieldBytes [1, 2]]"
  have e: "pw_error (write_fields ?fs (payload_writer_new (replicate 5 0))) = None"
    by (simp add: write_u16_def write_bool_def write_u8_def write_bytes_def st_bind_def pw_reserve_def
        pw_store_def payload_writer_new_def owp_consts)
  show ?thesis using e payload_fields_roundtrip[OF e] by (simp add: u16_to_le_def le_digits_numeral)
qed

end
