(* ===== verification/Owp_Messages.thy ===== *)
theory Owp_Messages
  imports Owp_Payload
begin

text \<open>
  \<open>messages.rs\<close> of crate \<open>ohl-parser-protocol\<close>: the read and enumeration budgets as validated
  constructors, the archive spelling, the twelve typed message schemas and their encoders and
  decoders.  An encoder is a state transformer on its destination buffer; the entry-batch decoder
  also returns the caller's entry storage.
\<close>

definition HELLO_PAYLOAD_BYTES :: nat where [owp_consts]: "HELLO_PAYLOAD_BYTES = 12"
definition READY_PAYLOAD_BYTES :: nat where [owp_consts]: "READY_PAYLOAD_BYTES = 0"
definition ENUMERATE_PAYLOAD_BYTES :: nat where [owp_consts]: "ENUMERATE_PAYLOAD_BYTES = 0"
definition STREAM_ENTRY_PAYLOAD_BYTES :: nat where [owp_consts]: "STREAM_ENTRY_PAYLOAD_BYTES = 8"
definition READ_REQUEST_PAYLOAD_BYTES :: nat where [owp_consts]: "READ_REQUEST_PAYLOAD_BYTES = 16"
definition READ_REPLY_PREFIX_BYTES :: nat where [owp_consts]: "READ_REPLY_PREFIX_BYTES = 6"
definition ENTRY_BATCH_PREFIX_BYTES :: nat where [owp_consts]: "ENTRY_BATCH_PREFIX_BYTES = 2"
definition ENTRY_BATCH_ENTRY_PREFIX_BYTES :: nat where
  [owp_consts]: "ENTRY_BATCH_ENTRY_PREFIX_BYTES = 18"
definition COMPLETE_PAYLOAD_BYTES :: nat where [owp_consts]: "COMPLETE_PAYLOAD_BYTES = 4"
definition CANCEL_PAYLOAD_BYTES :: nat where [owp_consts]: "CANCEL_PAYLOAD_BYTES = 0"
definition CANCEL_ACK_PAYLOAD_BYTES :: nat where [owp_consts]: "CANCEL_ACK_PAYLOAD_BYTES = 0"
definition SHUTDOWN_PAYLOAD_BYTES :: nat where [owp_consts]: "SHUTDOWN_PAYLOAD_BYTES = 0"

definition MAXIMUM_READ_BYTES :: u32 where
  [owp_consts]: "MAXIMUM_READ_BYTES = MAXIMUM_FRAME_PAYLOAD_BYTES - 6"
definition MAXIMUM_DATA_CHUNK_BYTES :: nat where
  [owp_consts]: "MAXIMUM_DATA_CHUNK_BYTES = 256 * 1024"
definition MAXIMUM_ENTRY_BATCH_ENTRIES :: u16 where
  [owp_consts]: "MAXIMUM_ENTRY_BATCH_ENTRIES = 256"
definition MAXIMUM_ENUMERATED_ENTRIES :: u32 where
  [owp_consts]: "MAXIMUM_ENUMERATED_ENTRIES = 50000"
definition MAXIMUM_ENTRY_BATCH_PATH_BYTES :: u64 where
  [owp_consts]: "MAXIMUM_ENTRY_BATCH_PATH_BYTES = 4096"
definition MAXIMUM_ENUMERATED_PATH_BYTES :: u64 where
  [owp_consts]: "MAXIMUM_ENUMERATED_PATH_BYTES = 64 * 1024 * 1024"
definition MAXIMUM_ENUMERATED_ENTRY_BYTES :: u64 where
  [owp_consts]: "MAXIMUM_ENUMERATED_ENTRY_BYTES = 8 * 1024 * 1024 * 1024"
definition MAXIMUM_ENUMERATED_TOTAL_BYTES :: u64 where
  [owp_consts]: "MAXIMUM_ENUMERATED_TOTAL_BYTES = 32 * 1024 * 1024 * 1024"


section \<open>Phases, policies and spellings\<close>

datatype OperationPhase = OpEnumerate | OpStream

fun phase_of_operation :: "OperationPhase \<Rightarrow> ProtocolPhase" where
  "phase_of_operation OpEnumerate = PhaseEnumerate"
| "phase_of_operation OpStream = PhaseStream"

fun operation_of_phase :: "ProtocolPhase \<Rightarrow> (ProtocolError, OperationPhase) result" where
  "operation_of_phase PhaseEnumerate = Ok OpEnumerate"
| "operation_of_phase PhaseStream = Ok OpStream"
| "operation_of_phase _ = Err InvalidBudget"

record SourceReadPolicy =
  srp_source_size :: u64
  srp_maximum_read_bytes :: u32

definition source_read_policy_new :: "u64 \<Rightarrow> u32 \<Rightarrow> (ProtocolError, SourceReadPolicy) result" where
  "source_read_policy_new src_size maximum_read_bytes =
     (if src_size = 0 \<or> maximum_read_bytes = 0 \<or> maximum_read_bytes > MAXIMUM_READ_BYTES
      then Err InvalidBudget
      else Ok \<lparr>srp_source_size = src_size, srp_maximum_read_bytes = maximum_read_bytes\<rparr>)"

record EntryBatchPolicy =
  ebp_remaining_entries :: u32
  ebp_remaining_path_bytes :: u64
  ebp_maximum_entry_bytes :: u64
  ebp_remaining_total_bytes :: u64
  ebp_previous_source_token :: "u64 option"

definition entry_batch_policy_new ::
  "u32 \<Rightarrow> u64 \<Rightarrow> u64 \<Rightarrow> u64 \<Rightarrow> u64 option \<Rightarrow> (ProtocolError, EntryBatchPolicy) result" where
  "entry_batch_policy_new remaining_entries remaining_path_bytes maximum_entry_bytes
      remaining_total_bytes previous_source_token =
     (if remaining_entries = 0 \<or> remaining_entries > MAXIMUM_ENUMERATED_ENTRIES
         \<or> remaining_path_bytes = 0 \<or> remaining_path_bytes > MAXIMUM_ENUMERATED_PATH_BYTES
         \<or> maximum_entry_bytes = 0 \<or> maximum_entry_bytes > MAXIMUM_ENUMERATED_ENTRY_BYTES
         \<or> remaining_total_bytes > MAXIMUM_ENUMERATED_TOTAL_BYTES
      then Err InvalidBudget
      else Ok \<lparr>ebp_remaining_entries = remaining_entries,
               ebp_remaining_path_bytes = remaining_path_bytes,
               ebp_maximum_entry_bytes = maximum_entry_bytes,
               ebp_remaining_total_bytes = remaining_total_bytes,
               ebp_previous_source_token = previous_source_token\<rparr>)"

text \<open>A spelling is its bytes; the constructor returns them when they are acceptable.\<close>

definition archive_spelling_new :: "bytes \<Rightarrow> (ProtocolError, bytes) result" where
  "archive_spelling_new bs =
     (if bs = [] \<or> length bs > unat MAXIMUM_ENTRY_BATCH_PATH_BYTES then Err NoncanonicalValue
      else if list_ex (\<lambda>b. b < 0x20 \<or> b > 0x7E) bs then Err NoncanonicalValue
      else Ok bs)"


section \<open>Message types\<close>

record HelloMessage =
  hello_source_size :: u64
  hello_maximum_read_bytes :: u32

record StreamEntryMessage =
  se_source_token :: u64

record ReadRequestMessage =
  rq_read_sequence :: u32
  rq_offset :: u64
  rq_length :: u32

record ReadReplyMessage =
  rp_read_sequence :: u32
  rp_status :: ProtocolStatus
  rp_data :: bytes

record EntryBatchEntry =
  ebe_source_token :: u64
  ebe_size_bytes :: u64
  ebe_archive_path :: bytes

record DataChunkMessage =
  dc_data :: bytes

record CompleteMessage =
  cm_status :: ProtocolStatus
  cm_phase :: ProtocolPhase


section \<open>Frames and destinations\<close>

definition validate_frame :: "FrameView \<Rightarrow> MessageType \<Rightarrow> (ProtocolError, unit) result" where
  "validate_frame frame expected =
     (let header = fv_header frame; payload = fv_payload frame in
      and_then (frame_header_validate header) (\<lambda>_.
        if length payload > unat MAXIMUM_FRAME_PAYLOAD_BYTES then Err PayloadTooLarge
        else if length payload < unat (fh_payload_length header) then Err TruncatedPayload
        else if length payload > unat (fh_payload_length header) then Err TrailingBytes
        else if fh_message_type header \<noteq> expected then Err UnexpectedMessage
        else Ok ()))"

text \<open>
  A decoder that runs a schema over a fresh reader, and an encoder that takes the first \<open>n\<close> bytes
  of the destination (\<open>get_mut(..n).ok_or(OutputTooSmall)\<close>), writes its fields there and returns
  \<open>n\<close>.
\<close>

definition run_reader :: "bytes \<Rightarrow> (PayloadReader, ProtocolError, 'a) stm \<Rightarrow> (ProtocolError, 'a) result" where
  "run_reader payload schema = fst (schema (payload_reader_new payload))"

definition write_prefix ::
  "nat \<Rightarrow> (PayloadWriter, ProtocolError, unit) stm \<Rightarrow> (bytes, ProtocolError, nat) stm" where
  "write_prefix n body dst =
     (if n > length dst then (Err OutputTooSmall, dst)
      else case body (payload_writer_new (take n dst)) of
        (Err e, w) \<Rightarrow> (Err e, pw_destination w @ drop n dst)
      | (Ok _, w) \<Rightarrow> (Ok n, pw_destination w @ drop n dst))"

definition decode_empty :: "FrameView \<Rightarrow> MessageType \<Rightarrow> (ProtocolError, unit) result" where
  "decode_empty frame expected =
     and_then (validate_frame frame expected) (\<lambda>_. run_reader (fv_payload frame) pr_finish)"


section \<open>hello\<close>

definition encode_hello_payload :: "HelloMessage \<Rightarrow> (bytes, ProtocolError, nat) stm" where
  "encode_hello_payload m =
     st_bind (st_lift (map_err (\<lambda>_. NoncanonicalValue)
       (source_read_policy_new (hello_source_size m) (hello_maximum_read_bytes m)))) (\<lambda>_.
     write_prefix HELLO_PAYLOAD_BYTES
       (st_bind (write_u64 (hello_source_size m)) (\<lambda>_.
        write_u32 (hello_maximum_read_bytes m))))"

definition decode_hello_payload :: "FrameView \<Rightarrow> (ProtocolError, HelloMessage) result" where
  "decode_hello_payload frame =
     and_then (validate_frame frame Hello) (\<lambda>_.
     run_reader (fv_payload frame)
       (st_bind read_u64 (\<lambda>src_size.
        st_bind read_u32 (\<lambda>maximum_read_bytes.
        st_bind pr_finish (\<lambda>_.
        st_bind (st_lift (map_err (\<lambda>_. NoncanonicalValue)
          (source_read_policy_new src_size maximum_read_bytes))) (\<lambda>_.
        st_return \<lparr>hello_source_size = src_size,
                   hello_maximum_read_bytes = maximum_read_bytes\<rparr>))))))"


section \<open>Empty-payload kinds\<close>

definition encode_ready_payload :: nat where "encode_ready_payload = READY_PAYLOAD_BYTES"
definition encode_enumerate_payload :: nat where "encode_enumerate_payload = ENUMERATE_PAYLOAD_BYTES"
definition encode_cancel_payload :: nat where "encode_cancel_payload = CANCEL_PAYLOAD_BYTES"
definition encode_cancel_ack_payload :: nat where
  "encode_cancel_ack_payload = CANCEL_ACK_PAYLOAD_BYTES"
definition encode_shutdown_payload :: nat where "encode_shutdown_payload = SHUTDOWN_PAYLOAD_BYTES"

definition decode_ready_payload :: "FrameView \<Rightarrow> (ProtocolError, unit) result" where
  "decode_ready_payload frame = decode_empty frame Ready"

definition decode_enumerate_payload :: "FrameView \<Rightarrow> (ProtocolError, unit) result" where
  "decode_enumerate_payload frame = decode_empty frame Enumerate"

definition decode_cancel_payload :: "FrameView \<Rightarrow> (ProtocolError, unit) result" where
  "decode_cancel_payload frame = decode_empty frame Cancel"

definition decode_cancel_ack_payload :: "FrameView \<Rightarrow> (ProtocolError, unit) result" where
  "decode_cancel_ack_payload frame = decode_empty frame CancelAck"

definition decode_shutdown_payload :: "FrameView \<Rightarrow> (ProtocolError, unit) result" where
  "decode_shutdown_payload frame = decode_empty frame Shutdown"


section \<open>stream_entry\<close>

definition encode_stream_entry_payload :: "StreamEntryMessage \<Rightarrow> (bytes, ProtocolError, nat) stm" where
  "encode_stream_entry_payload m =
     write_prefix STREAM_ENTRY_PAYLOAD_BYTES (write_u64 (se_source_token m))"

definition decode_stream_entry_payload :: "FrameView \<Rightarrow> (ProtocolError, StreamEntryMessage) result" where
  "decode_stream_entry_payload frame =
     and_then (validate_frame frame StreamEntry) (\<lambda>_.
     run_reader (fv_payload frame)
       (st_bind read_u64 (\<lambda>source_token.
        st_bind pr_finish (\<lambda>_.
        st_return \<lparr>se_source_token = source_token\<rparr>))))"


section \<open>read_request\<close>

definition validate_read_request ::
  "ReadRequestMessage \<Rightarrow> SourceReadPolicy \<Rightarrow> u32 \<Rightarrow> (ProtocolError, unit) result" where
  "validate_read_request m policy expected_sequence =
     (if expected_sequence = 0 then Err InvalidBudget
      else
        let fits = (case checked_add_bounded (rq_offset m) (ucast (rq_length m)) of
                      Err _ \<Rightarrow> False
                    | Ok last_byte \<Rightarrow> last_byte \<le> srp_source_size policy)
        in if rq_read_sequence m = 0
              \<or> rq_read_sequence m \<noteq> expected_sequence
              \<or> rq_length m = 0
              \<or> rq_length m > srp_maximum_read_bytes policy
              \<or> rq_offset m \<ge> srp_source_size policy
              \<or> \<not> fits
           then Err NoncanonicalValue else Ok ())"

definition encode_read_request_payload ::
  "ReadRequestMessage \<Rightarrow> SourceReadPolicy \<Rightarrow> u32 \<Rightarrow> (bytes, ProtocolError, nat) stm" where
  "encode_read_request_payload m policy expected_sequence =
     st_bind (st_lift (validate_read_request m policy expected_sequence)) (\<lambda>_.
     write_prefix READ_REQUEST_PAYLOAD_BYTES
       (st_bind (write_u32 (rq_read_sequence m)) (\<lambda>_.
        st_bind (write_u64 (rq_offset m)) (\<lambda>_.
        write_u32 (rq_length m)))))"

definition decode_read_request_payload ::
  "FrameView \<Rightarrow> SourceReadPolicy \<Rightarrow> u32 \<Rightarrow> (ProtocolError, ReadRequestMessage) result" where
  "decode_read_request_payload frame policy expected_sequence =
     and_then (validate_frame frame ReadRequest) (\<lambda>_.
     if expected_sequence = 0 then Err InvalidBudget
     else run_reader (fv_payload frame)
       (st_bind read_u32 (\<lambda>read_sequence.
        st_bind read_u64 (\<lambda>offset.
        st_bind read_u32 (\<lambda>len.
        let m = \<lparr>rq_read_sequence = read_sequence, rq_offset = offset, rq_length = len\<rparr> in
        st_bind pr_finish (\<lambda>_.
        st_bind (st_lift (validate_read_request m policy expected_sequence)) (\<lambda>_.
        st_return m)))))))"


section \<open>read_reply\<close>

fun reply_status_allowed :: "ProtocolStatus \<Rightarrow> bool" where
  "reply_status_allowed StatusOk = True"
| "reply_status_allowed StatusSourceChanged = True"
| "reply_status_allowed StatusSourceReadFailed = True"
| "reply_status_allowed _ = False"

definition validate_reply_context :: "u32 \<Rightarrow> u32 \<Rightarrow> (ProtocolError, unit) result" where
  "validate_reply_context expected_sequence requested_length =
     (if expected_sequence = 0 \<or> requested_length = 0 \<or> requested_length > MAXIMUM_READ_BYTES
      then Err InvalidBudget else Ok ())"

definition validate_read_reply ::
  "ReadReplyMessage \<Rightarrow> u32 \<Rightarrow> u32 \<Rightarrow> (ProtocolError, unit) result" where
  "validate_read_reply m expected_sequence requested_length =
     and_then (validate_reply_context expected_sequence requested_length) (\<lambda>_.
       if rp_read_sequence m = 0 \<or> rp_read_sequence m \<noteq> expected_sequence
          \<or> \<not> reply_status_allowed (rp_status m)
       then Err NoncanonicalValue
       else
         let shape_ok = (if rp_status m = StatusOk
                         then length (rp_data m) = unat requested_length
                         else rp_data m = [])
         in if shape_ok then Ok () else Err NoncanonicalValue)"

definition encode_read_reply_payload ::
  "ReadReplyMessage \<Rightarrow> u32 \<Rightarrow> u32 \<Rightarrow> (bytes, ProtocolError, nat) stm" where
  "encode_read_reply_payload m expected_sequence requested_length =
     st_bind (st_lift (map_err (\<lambda>_. PayloadTooLarge)
       (usize_add_bounded (length (rp_data m)) READ_REPLY_PREFIX_BYTES))) (\<lambda>payload_size.
     if payload_size > unat MAXIMUM_FRAME_PAYLOAD_BYTES then st_fail PayloadTooLarge
     else
       st_bind (st_lift (validate_read_reply m expected_sequence requested_length)) (\<lambda>_.
       write_prefix payload_size
         (st_bind (write_u32 (rp_read_sequence m)) (\<lambda>_.
          st_bind (write_status (rp_status m)) (\<lambda>_.
          write_bytes (rp_data m))))))"

definition decode_read_reply_payload ::
  "FrameView \<Rightarrow> u32 \<Rightarrow> u32 \<Rightarrow> (ProtocolError, ReadReplyMessage) result" where
  "decode_read_reply_payload frame expected_sequence requested_length =
     and_then (validate_frame frame ReadReply) (\<lambda>_.
     and_then (validate_reply_context expected_sequence requested_length) (\<lambda>_.
     run_reader (fv_payload frame)
       (st_bind read_u32 (\<lambda>read_sequence.
        st_bind read_status (\<lambda>status.
        st_bind (\<lambda>r. read_bytes (pr_remaining r) r) (\<lambda>data.
        st_bind pr_finish (\<lambda>_.
        let m = \<lparr>rp_read_sequence = read_sequence, rp_status = status, rp_data = data\<rparr> in
        st_bind (st_lift (validate_read_reply m expected_sequence requested_length)) (\<lambda>_.
        st_return m))))))))"


section \<open>entry_batch\<close>

record EntryBatchAccumulator =
  eba_path_bytes :: u64
  eba_total_bytes :: u64
  eba_previous_source_token :: "u64 option"

definition entry_batch_start :: "EntryBatchPolicy \<Rightarrow> EntryBatchAccumulator" where
  "entry_batch_start policy =
     \<lparr>eba_path_bytes = 0, eba_total_bytes = 0,
      eba_previous_source_token = ebp_previous_source_token policy\<rparr>"

definition entry_batch_accept ::
  "u64 \<Rightarrow> u64 \<Rightarrow> bytes \<Rightarrow> EntryBatchPolicy \<Rightarrow> (EntryBatchAccumulator, ProtocolError, unit) stm" where
  "entry_batch_accept source_token size_bytes path policy acc =
     (case archive_spelling_new path of Err e \<Rightarrow> (Err e, acc) | Ok _ \<Rightarrow>
        let path_bytes = of_nat (length path) in
        (case map_err (\<lambda>_. NoncanonicalValue)
            (checked_sub_bounded (ebp_remaining_path_bytes policy) (eba_path_bytes acc)) of
           Err e \<Rightarrow> (Err e, acc)
         | Ok path_budget \<Rightarrow>
             (case map_err (\<lambda>_. NoncanonicalValue)
                 (checked_sub_bounded (ebp_remaining_total_bytes policy) (eba_total_bytes acc)) of
                Err e \<Rightarrow> (Err e, acc)
              | Ok total_budget \<Rightarrow>
                  if size_bytes > ebp_maximum_entry_bytes policy
                     \<or> path_bytes > path_budget
                     \<or> size_bytes > total_budget
                     \<or> (case eba_previous_source_token acc of
                          None \<Rightarrow> False | Some previous \<Rightarrow> source_token \<le> previous)
                  then (Err NoncanonicalValue, acc)
                  else (Ok (), \<lparr>eba_path_bytes = eba_path_bytes acc + path_bytes,
                               eba_total_bytes = eba_total_bytes acc + size_bytes,
                               eba_previous_source_token = Some source_token\<rparr>))))"

fun entry_batch_payload_size_from :: "nat \<Rightarrow> EntryBatchEntry list \<Rightarrow> (ProtocolError, nat) result" where
  "entry_batch_payload_size_from n [] = Ok n"
| "entry_batch_payload_size_from n (e # es) =
     and_then (map_err (\<lambda>_. PayloadTooLarge)
       (usize_add_bounded n (ENTRY_BATCH_ENTRY_PREFIX_BYTES + length (ebe_archive_path e))))
       (\<lambda>m. entry_batch_payload_size_from m es)"

definition entry_batch_payload_size :: "EntryBatchEntry list \<Rightarrow> (ProtocolError, nat) result" where
  "entry_batch_payload_size entries = entry_batch_payload_size_from ENTRY_BATCH_PREFIX_BYTES entries"

fun accept_entries ::
  "EntryBatchEntry list \<Rightarrow> EntryBatchPolicy \<Rightarrow> (EntryBatchAccumulator, ProtocolError, unit) stm" where
  "accept_entries [] policy = st_return ()"
| "accept_entries (e # es) policy =
     st_bind (entry_batch_accept (ebe_source_token e) (ebe_size_bytes e) (ebe_archive_path e) policy)
       (\<lambda>_. accept_entries es policy)"

fun write_entries :: "EntryBatchEntry list \<Rightarrow> (PayloadWriter, ProtocolError, unit) stm" where
  "write_entries [] = st_return ()"
| "write_entries (e # es) =
     st_bind (write_u64 (ebe_source_token e)) (\<lambda>_.
     st_bind (write_u64 (ebe_size_bytes e)) (\<lambda>_.
     st_bind (st_lift (ok_or NoncanonicalValue (try_from_nat (length (ebe_archive_path e))))) (\<lambda>path_size.
     st_bind (write_u16 path_size) (\<lambda>_.
     st_bind (write_bytes (ebe_archive_path e)) (\<lambda>_.
     write_entries es)))))"

definition encode_entry_batch_payload ::
  "EntryBatchEntry list \<Rightarrow> EntryBatchPolicy \<Rightarrow> (bytes, ProtocolError, nat) stm" where
  "encode_entry_batch_payload entries policy =
     (if entries = [] \<or> length entries > unat MAXIMUM_ENTRY_BATCH_ENTRIES
         \<or> length entries > unat (ebp_remaining_entries policy)
      then st_fail NoncanonicalValue
      else
        st_bind (st_lift (fst (accept_entries entries policy (entry_batch_start policy)))) (\<lambda>_.
        st_bind (st_lift (entry_batch_payload_size entries)) (\<lambda>payload_size.
        if payload_size > unat MAXIMUM_FRAME_PAYLOAD_BYTES then st_fail PayloadTooLarge
        else write_prefix payload_size
          (st_bind (st_lift (ok_or NoncanonicalValue (try_from_nat (length entries)))) (\<lambda>entry_count.
           st_bind (write_u16 entry_count) (\<lambda>_.
           write_entries entries))))))"

text \<open>
  The first decoding pass: \<open>n\<close> entries are read and accepted; the second pass reads them again and
  fills the storage slots from index \<open>i\<close>.
\<close>

fun validate_entries ::
  "nat \<Rightarrow> EntryBatchPolicy \<Rightarrow> EntryBatchAccumulator \<Rightarrow> (PayloadReader, ProtocolError, unit) stm" where
  "validate_entries 0 policy acc = st_return ()"
| "validate_entries (Suc n) policy acc =
     st_bind read_u64 (\<lambda>source_token.
     st_bind read_u64 (\<lambda>size_bytes.
     st_bind read_u16 (\<lambda>path_size.
     st_bind (read_bytes (unat path_size)) (\<lambda>path.
     case entry_batch_accept source_token size_bytes path policy acc of
       (Err e, _) \<Rightarrow> st_fail e
     | (Ok _, acc') \<Rightarrow> validate_entries n policy acc'))))"

definition validate_entry_batch_payload ::
  "bytes \<Rightarrow> EntryBatchPolicy \<Rightarrow> (ProtocolError, u16) result" where
  "validate_entry_batch_payload payload policy =
     run_reader payload
       (st_bind read_u16 (\<lambda>entry_count.
        if entry_count = 0 \<or> entry_count > MAXIMUM_ENTRY_BATCH_ENTRIES
           \<or> ucast entry_count > ebp_remaining_entries policy
        then st_fail NoncanonicalValue
        else
          st_bind (validate_entries (unat entry_count) policy (entry_batch_start policy)) (\<lambda>_.
          st_bind pr_finish (\<lambda>_.
          st_return entry_count))))"

definition read_entry :: "(PayloadReader, ProtocolError, EntryBatchEntry) stm" where
  "read_entry =
     st_bind read_u64 (\<lambda>source_token.
     st_bind read_u64 (\<lambda>size_bytes.
     st_bind read_u16 (\<lambda>path_size.
     st_bind (read_bytes (unat path_size)) (\<lambda>path.
     st_bind (st_lift (archive_spelling_new path)) (\<lambda>spelling.
     st_return \<lparr>ebe_source_token = source_token, ebe_size_bytes = size_bytes,
                ebe_archive_path = spelling\<rparr>)))))"

fun populate_entries ::
  "nat \<Rightarrow> nat \<Rightarrow> EntryBatchEntry list \<Rightarrow> PayloadReader \<Rightarrow>
     (ProtocolError, unit) result \<times> EntryBatchEntry list" where
  "populate_entries 0 i storage r = (Ok (), storage)"
| "populate_entries (Suc n) i storage r =
     (case read_entry r of
        (Err e, _) \<Rightarrow> (Err e, storage)
      | (Ok entry, r') \<Rightarrow> populate_entries n (Suc i) (storage[i := entry]) r')"

definition decode_entry_batch_payload ::
  "FrameView \<Rightarrow> EntryBatchPolicy \<Rightarrow> (EntryBatchEntry list, ProtocolError, EntryBatchEntry list) stm" where
  "decode_entry_batch_payload frame policy storage =
     (case validate_frame frame EntryBatch of Err e \<Rightarrow> (Err e, storage) | Ok _ \<Rightarrow>
      (case validate_entry_batch_payload (fv_payload frame) policy of
         Err e \<Rightarrow> (Err e, storage)
       | Ok entry_count \<Rightarrow>
           if length storage < unat entry_count then (Err OutputTooSmall, storage)
           else
             (case read_u16 (payload_reader_new (fv_payload frame)) of
                (Err e, _) \<Rightarrow> (Err e, storage)
              | (Ok _, reader) \<Rightarrow>
                  (case populate_entries (unat entry_count) 0 storage reader of
                     (Err e, storage') \<Rightarrow> (Err e, storage')
                   | (Ok _, storage') \<Rightarrow> (Ok (take (unat entry_count) storage'), storage')))))"


section \<open>data_chunk\<close>

definition validate_data_chunk :: "DataChunkMessage \<Rightarrow> u64 \<Rightarrow> (ProtocolError, unit) result" where
  "validate_data_chunk m remaining_entry_bytes =
     (if remaining_entry_bytes = 0 then Err InvalidBudget
      else if dc_data m = [] \<or> length (dc_data m) > MAXIMUM_DATA_CHUNK_BYTES
              \<or> of_nat (length (dc_data m)) > remaining_entry_bytes
      then Err NoncanonicalValue
      else Ok ())"

definition encode_data_chunk_payload ::
  "DataChunkMessage \<Rightarrow> u64 \<Rightarrow> (bytes, ProtocolError, nat) stm" where
  "encode_data_chunk_payload m remaining_entry_bytes =
     st_bind (st_lift (validate_data_chunk m remaining_entry_bytes)) (\<lambda>_.
     write_prefix (length (dc_data m)) (write_bytes (dc_data m)))"

definition decode_data_chunk_payload ::
  "FrameView \<Rightarrow> u64 \<Rightarrow> (ProtocolError, DataChunkMessage) result" where
  "decode_data_chunk_payload frame remaining_entry_bytes =
     and_then (validate_frame frame DataChunk) (\<lambda>_.
     run_reader (fv_payload frame)
       (st_bind (\<lambda>r. read_bytes (pr_remaining r) r) (\<lambda>data.
        st_bind pr_finish (\<lambda>_.
        let m = \<lparr>dc_data = data\<rparr> in
        st_bind (st_lift (validate_data_chunk m remaining_entry_bytes)) (\<lambda>_.
        st_return m)))))"


section \<open>complete\<close>

definition validate_complete :: "CompleteMessage \<Rightarrow> (ProtocolError, unit) result" where
  "validate_complete m =
     (if cm_status m \<noteq> StatusOk \<or> cm_phase m \<noteq> PhaseComplete then Err NoncanonicalValue else Ok ())"

definition encode_complete_payload ::
  "CompleteMessage \<Rightarrow> OperationPhase \<Rightarrow> (bytes, ProtocolError, nat) stm" where
  "encode_complete_payload m expected_operation_phase =
     st_bind (st_lift (validate_complete m)) (\<lambda>_.
     write_prefix COMPLETE_PAYLOAD_BYTES
       (st_bind (write_status (cm_status m)) (\<lambda>_.
        write_phase (cm_phase m))))"

definition decode_complete_payload ::
  "FrameView \<Rightarrow> OperationPhase \<Rightarrow> (ProtocolError, CompleteMessage) result" where
  "decode_complete_payload frame expected_operation_phase =
     and_then (validate_frame frame Complete) (\<lambda>_.
     run_reader (fv_payload frame)
       (st_bind read_status (\<lambda>status.
        st_bind read_phase (\<lambda>phase.
        let m = \<lparr>cm_status = status, cm_phase = phase\<rparr> in
        st_bind pr_finish (\<lambda>_.
        st_bind (st_lift (validate_complete m)) (\<lambda>_.
        st_return m))))))"



section \<open>Encoders and decoders of one schema\<close>

text \<open>
  A body of writes emits a fixed byte string when the writer has room for all of it; then a
  prefix encoder is all or nothing.  A decoder accepts a frame when the frame itself is valid, of
  the expected kind, and the schema consumes its payload.
\<close>

definition emits :: "(PayloadWriter, ProtocolError, unit) stm \<Rightarrow> bytes \<Rightarrow> bool" where
  "emits body bs \<longleftrightarrow>
     (\<forall>w. pw_inv w \<longrightarrow> pw_error w = None \<longrightarrow> length bs \<le> pw_capacity w - pw_position w \<longrightarrow>
        body w = pw_emit bs w)"

named_theorems emit_intros \<open>what a body of writes emits\<close>

lemma emits_pw_emit [emit_intros]: "emits (pw_emit bs) bs"
  by (simp add: emits_def)

lemma emits_return [emit_intros]: "emits (st_return ()) []"
  by (auto simp: emits_def pw_emit_def pw_inv_def copy_at_def)

lemma emits_write [emit_intros]:
  "emits (write_u16 a) (u16_to_le a)"
  "emits (write_u32 b) (u32_to_le b)"
  "emits (write_u64 c) (u64_to_le c)"
  "emits (write_status s) (u16_to_le (status_to_wire s))"
  "emits (write_phase p) (u16_to_le (phase_to_wire p))"
  "emits (write_bytes bs) bs"
  by (simp_all add: write_emits emits_pw_emit)

lemma pw_emit_append:
  assumes "pw_inv w" and "pw_error w = None" and "length (as @ bs) \<le> pw_capacity w - pw_position w"
    and "pw_emit as w = (Ok (), w1)"
  shows "pw_emit bs w1 = pw_emit (as @ bs) w"
  using assms by (auto simp: pw_emit_Ok_iff pw_emit_def pw_inv_def copy_at_def ac_simps)

lemma emits_bind [emit_intros]:
  assumes a: "emits m as" and b: "\<And>u. emits (f u) bs"
  shows "emits (st_bind m f) (as @ bs)"
  unfolding emits_def
proof (intro allI impI)
  fix w :: PayloadWriter
  assume w: "pw_inv w" "pw_error w = None" "length (as @ bs) \<le> pw_capacity w - pw_position w"
  then obtain w1 where w1: "pw_emit as w = (Ok (), w1)" by (auto simp: pw_emit_Ok_iff)
  have "m w = (Ok (), w1)" using a w w1 by (simp add: emits_def)
  moreover have "f () w1 = pw_emit bs w1"
  proof -
    have "pw_inv w1" "pw_error w1 = None" "length bs \<le> pw_capacity w1 - pw_position w1"
      using w w1 by (auto simp: pw_emit_Ok_iff pw_inv_def)
    then show ?thesis using b by (simp add: emits_def)
  qed
  ultimately show "st_bind m f w = pw_emit (as @ bs) w"
    using pw_emit_append[OF w w1] by (simp add: st_bind_step_Ok)
qed

lemma emits_lift [emit_intros]: "r = Ok v \<Longrightarrow> emits (f v) bs \<Longrightarrow> emits (st_bind (st_lift r) f) bs"
  by (simp add: emits_def st_bind_def)

lemma write_prefix_emits:
  assumes "emits body bs" and "length bs = n" and "n \<le> unat MAXIMUM_FRAME_PAYLOAD_BYTES"
  shows "write_prefix n body dst =
    (if n \<le> length dst then (Ok n, bs @ drop n dst) else (Err OutputTooSmall, dst))"
proof (cases "n \<le> length dst")
  case True
  let ?w = "payload_writer_new (take n dst)"
  have "length bs \<le> pw_capacity ?w - pw_position ?w" using assms True by simp
  then have "body ?w = pw_emit bs ?w" using assms(1) by (simp add: emits_def)
  then show ?thesis using True assms(2,3) by (simp add: write_prefix_def pw_emit_def copy_at_def)
qed (simp add: write_prefix_def)

lemma validate_frame_Ok:
  "validate_frame f k = Ok () \<longleftrightarrow> wf_frame f \<and> fh_message_type (fv_header f) = k"
  using wf_frame_payload_bound[of f]
  by (auto simp: validate_frame_def wf_frame_def result_simps Let_def split: if_splits)

lemma decode_schema_Ok:
  "and_then (validate_frame f k) (\<lambda>_. run_reader (fv_payload f) schema) = Ok m \<longleftrightarrow>
     wf_frame f \<and> fh_message_type (fv_header f) = k \<and>
     (\<exists>r. schema (reader_of [] (fv_payload f)) = (Ok m, r))"
proof (cases "wf_frame f")
  case True
  then show ?thesis
    using payload_reader_new_live[OF wf_frame_payload_bound[OF True]]
    by (auto simp: result_simps validate_frame_Ok run_reader_def fst_result_iff)
next
  case False
  then show ?thesis by (auto simp: result_simps validate_frame_Ok)
qed

locale payload_codec =
  fixes kind :: "'m \<Rightarrow> MessageType"
    and wire :: "'m \<Rightarrow> bytes"
    and valid :: "'m \<Rightarrow> bool"
    and encode :: "'m \<Rightarrow> (bytes, ProtocolError, nat) stm"
    and decode :: "FrameView \<Rightarrow> (ProtocolError, 'm) result"
  assumes encode_valid: "valid m \<Longrightarrow> encode m dst =
      (if length (wire m) \<le> length dst then (Ok (length (wire m)), wire m @ drop (length (wire m)) dst)
       else (Err OutputTooSmall, dst))"
    and encode_invalid: "\<not> valid m \<Longrightarrow> \<exists>e. encode m dst = (Err e, dst)"
    and decode_Ok: "decode f = Ok m \<longleftrightarrow>
      wf_frame f \<and> fh_message_type (fv_header f) = kind m \<and> valid m \<and> fv_payload f = wire m"
begin

lemma encode_Ok:
  "encode m dst = (Ok n, dst') \<longleftrightarrow>
     valid m \<and> n = length (wire m) \<and> n \<le> length dst \<and> dst' = wire m @ drop n dst"
  using encode_valid[of m dst] encode_invalid[of m dst] by (cases "valid m") (auto split: if_splits)

lemma encode_atomic: "encode m dst = (Err e, dst') \<Longrightarrow> dst' = dst"
  using encode_valid[of m dst] encode_invalid[of m dst] by (cases "valid m") (auto split: if_splits)

lemma wire_bound: "decode f = Ok m \<Longrightarrow> length (wire m) \<le> unat MAXIMUM_FRAME_PAYLOAD_BYTES"
  using wf_frame_payload_bound by (metis decode_Ok)

lemma wire_injective:
  assumes "decode f = Ok m" and "valid m'" and "wire m' = wire m" and "kind m' = kind m"
  shows "m' = m"
  using assms by (metis decode_Ok result.inject(2))

text \<open>Round trip inside one frame.\<close>

lemma roundtrip:
  assumes "encode m dst = (Ok n, dst')" and "wf_frame (frame_view_new h (take n dst'))"
    and "fh_message_type h = kind m"
  shows "decode (frame_view_new h (take n dst')) = Ok m"
  using assms by (auto simp: encode_Ok decode_Ok frame_view_new_def)

text \<open>Canonicity: an accepted payload is what the encoder writes for the decoded message.\<close>

lemma canonical:
  assumes "decode f = Ok m" and "length (fv_payload f) \<le> length dst"
  shows "encode m dst = (Ok (length (fv_payload f)), fv_payload f @ drop (length (fv_payload f)) dst)"
  using assms by (simp add: encode_Ok decode_Ok)

text \<open>The whole path: a message through its payload encoder and the framing, and back.\<close>

lemma transport:
  assumes "encode m buf = (Ok n, buf')"
    and "encode_frame (frame_header_new (kind m) sid rid (of_nat n)) (take n buf') dst = (Ok k, dst')"
  shows "\<exists>f. decode_frame (take k dst') sid = Ok f \<and> fh_request_id (fv_header f) = rid \<and>
           decode f = Ok m"
proof -
  let ?h = "frame_header_new (kind m) sid rid (of_nat n)"
  let ?f = "frame_view_new ?h (take n buf')"
  have "sid = fh_session_id ?h" "fh_message_type ?h = kind m" "fh_request_id ?h = rid"
    by (simp_all add: frame_header_new_def)
  moreover have "decode_frame (take k dst') sid = Ok ?f"
    using encode_frame_Ok[OF assms(2)] by (simp add: decode_frame_Ok_iff frame_view_new_def frame_header_new_def)
  ultimately show ?thesis
    using roundtrip[OF assms(1)] by (auto simp: decode_frame_Ok_iff frame_view_new_def)
qed

end


section \<open>The schemas\<close>

text \<open>The wire image and the validity of each message, in exact arithmetic.\<close>

definition hello_wire :: "HelloMessage \<Rightarrow> bytes" where
  "hello_wire m = u64_to_le (hello_source_size m) @ u32_to_le (hello_maximum_read_bytes m)"

definition hello_valid :: "HelloMessage \<Rightarrow> bool" where
  "hello_valid m \<longleftrightarrow> hello_source_size m \<noteq> 0 \<and> hello_maximum_read_bytes m \<noteq> 0 \<and>
     hello_maximum_read_bytes m \<le> MAXIMUM_READ_BYTES"

definition stream_entry_wire :: "StreamEntryMessage \<Rightarrow> bytes" where
  "stream_entry_wire m = u64_to_le (se_source_token m)"

definition read_request_wire :: "ReadRequestMessage \<Rightarrow> bytes" where
  "read_request_wire m = u32_to_le (rq_read_sequence m) @ u64_to_le (rq_offset m) @ u32_to_le (rq_length m)"

definition read_request_valid :: "SourceReadPolicy \<Rightarrow> u32 \<Rightarrow> ReadRequestMessage \<Rightarrow> bool" where
  "read_request_valid policy sequence m \<longleftrightarrow>
     sequence \<noteq> 0 \<and> rq_read_sequence m = sequence \<and>
     0 < unat (rq_length m) \<and> unat (rq_length m) \<le> unat (srp_maximum_read_bytes policy) \<and>
     unat (rq_offset m) + unat (rq_length m) \<le> unat (srp_source_size policy)"

definition read_reply_wire :: "ReadReplyMessage \<Rightarrow> bytes" where
  "read_reply_wire m =
     u32_to_le (rp_read_sequence m) @ u16_to_le (status_to_wire (rp_status m)) @ rp_data m"

definition read_reply_valid :: "u32 \<Rightarrow> u32 \<Rightarrow> ReadReplyMessage \<Rightarrow> bool" where
  "read_reply_valid sequence len m \<longleftrightarrow>
     sequence \<noteq> 0 \<and> 0 < len \<and> len \<le> MAXIMUM_READ_BYTES \<and> rp_read_sequence m = sequence \<and>
     (rp_status m = StatusOk \<and> length (rp_data m) = unat len \<or>
      rp_status m \<in> {StatusSourceChanged, StatusSourceReadFailed} \<and> rp_data m = [])"

definition data_chunk_valid :: "u64 \<Rightarrow> DataChunkMessage \<Rightarrow> bool" where
  "data_chunk_valid remaining m \<longleftrightarrow>
     0 < length (dc_data m) \<and> length (dc_data m) \<le> MAXIMUM_DATA_CHUNK_BYTES \<and>
     length (dc_data m) \<le> unat remaining"

definition complete_wire :: "CompleteMessage \<Rightarrow> bytes" where
  "complete_wire m = u16_to_le (status_to_wire (cm_status m)) @ u16_to_le (phase_to_wire (cm_phase m))"

definition complete_valid :: "CompleteMessage \<Rightarrow> bool" where
  "complete_valid m \<longleftrightarrow> m = \<lparr>cm_status = StatusOk, cm_phase = PhaseComplete\<rparr>"

lemmas wire_defs = hello_wire_def stream_entry_wire_def read_request_wire_def read_reply_wire_def
  complete_wire_def

lemma source_read_policy_new_Ok:
  "source_read_policy_new a b = Ok p \<longleftrightarrow>
     a \<noteq> 0 \<and> b \<noteq> 0 \<and> b \<le> MAXIMUM_READ_BYTES \<and>
     p = \<lparr>srp_source_size = a, srp_maximum_read_bytes = b\<rparr>"
  by (auto simp: source_read_policy_new_def not_less)

lemma validate_read_request_Ok:
  "validate_read_request m policy sequence = Ok () \<longleftrightarrow> read_request_valid policy sequence m"
proof (cases "unat (rq_length m)")
  case 0
  then show ?thesis
    by (auto simp: validate_read_request_def read_request_valid_def unat_eq_0 Let_def)
next
  case (Suc n)
  then have "rq_length m \<noteq> 0" by auto
  with Suc show ?thesis
    by (auto simp: validate_read_request_def read_request_valid_def checked_end_within Let_def
        word_le_nat_alt word_less_nat_alt unat_ucast_widen split: if_splits)
qed

lemma validate_read_reply_Ok:
  "validate_read_reply m sequence len = Ok () \<longleftrightarrow> read_reply_valid sequence len m"
  by (cases "rp_status m")
    (auto simp: validate_read_reply_def validate_reply_context_def read_reply_valid_def Let_def
      word_neq_0_conv split: if_splits)

lemma validate_data_chunk_Ok:
  "validate_data_chunk m remaining = Ok () \<longleftrightarrow> data_chunk_valid remaining m"
proof (cases "length (dc_data m) \<le> MAXIMUM_DATA_CHUNK_BYTES")
  case True
  then have "length (dc_data m) < 2 ^ LENGTH(64)" by (simp add: owp_consts)
  then show ?thesis
    by (auto simp: validate_data_chunk_def data_chunk_valid_def less_of_nat_iff not_less)
qed (simp add: validate_data_chunk_def data_chunk_valid_def)

lemma validate_complete_Ok: "validate_complete m = Ok () \<longleftrightarrow> complete_valid m"
  by (cases m) (auto simp: validate_complete_def complete_valid_def)


lemma guarded_encode:
  assumes "emits body bs" and "length bs = n" and "n \<le> unat MAXIMUM_FRAME_PAYLOAD_BYTES"
  shows "st_bind (st_lift r) (\<lambda>_. write_prefix n body) dst =
    (case r of Err e \<Rightarrow> (Err e, dst)
     | Ok _ \<Rightarrow> if n \<le> length dst then (Ok n, bs @ drop n dst) else (Err OutputTooSmall, dst))"
  using write_prefix_emits[OF assms] by (cases r) (simp_all add: st_bind_def)

lemma hello_emits:
  "emits (st_bind (write_u64 (hello_source_size m)) (\<lambda>_. write_u32 (hello_maximum_read_bytes m)))
     (hello_wire m)"
  unfolding hello_wire_def by (intro emit_intros)

lemma read_request_emits:
  "emits (st_bind (write_u32 (rq_read_sequence m)) (\<lambda>_. st_bind (write_u64 (rq_offset m)) (\<lambda>_.
     write_u32 (rq_length m)))) (read_request_wire m)"
  unfolding read_request_wire_def by (intro emit_intros)

lemma read_reply_emits:
  "emits (st_bind (write_u32 (rp_read_sequence m)) (\<lambda>_. st_bind (write_status (rp_status m)) (\<lambda>_.
     write_bytes (rp_data m)))) (read_reply_wire m)"
  unfolding read_reply_wire_def by (intro emit_intros)

lemma complete_emits:
  "emits (st_bind (write_status (cm_status m)) (\<lambda>_. write_phase (cm_phase m))) (complete_wire m)"
  unfolding complete_wire_def by (intro emit_intros)

lemmas schema_emits = hello_emits read_request_emits read_reply_emits complete_emits

lemma wire_lengths [simp]:
  "length (hello_wire h) = 12" "length (stream_entry_wire s) = 8"
  "length (read_request_wire q) = 16" "length (read_reply_wire p) = 6 + length (rp_data p)"
  "length (complete_wire c) = 4"
  by (simp_all add: wire_defs)

lemma hello_policy_Ok:
  "map_err g (source_read_policy_new (hello_source_size m) (hello_maximum_read_bytes m)) = Ok p \<longleftrightarrow>
     hello_valid m \<and> p = \<lparr>srp_source_size = hello_source_size m,
       srp_maximum_read_bytes = hello_maximum_read_bytes m\<rparr>"
  by (auto simp: result_simps source_read_policy_new_Ok hello_valid_def)

text \<open>
  The schemas have one shape: a context-dependent validation before a fixed body of writes, and
  the same validation after the reads.
\<close>

lemma checked_codec:
  assumes enc: "\<And>m dst. encode m dst = (case check m of Err e \<Rightarrow> (Err e, dst)
      | Ok _ \<Rightarrow> if length (wire m) \<le> length dst
          then (Ok (length (wire m)), wire m @ drop (length (wire m)) dst) else (Err OutputTooSmall, dst))"
    and check: "\<And>m. is_ok (check m) \<longleftrightarrow> valid m"
    and dec: "\<And>f m. decode f = Ok m \<longleftrightarrow> wf_frame f \<and> fh_message_type (fv_header f) = kind m \<and>
      is_ok (check m) \<and> fv_payload f = wire m"
  shows "payload_codec kind wire valid encode decode"
proof
  fix m dst
  show "valid m \<Longrightarrow> encode m dst = (if length (wire m) \<le> length dst
      then (Ok (length (wire m)), wire m @ drop (length (wire m)) dst) else (Err OutputTooSmall, dst))"
    using check[of m] by (cases "check m") (simp_all add: enc)
  show "\<not> valid m \<Longrightarrow> \<exists>e. encode m dst = (Err e, dst)"
    using check[of m] by (cases "check m") (auto simp: enc)
qed (simp add: dec check)

lemmas guarded_encode_rules = guarded_encode[OF hello_emits] guarded_encode[OF read_request_emits]
  guarded_encode[OF complete_emits] guarded_encode[OF emits_write(6)]

interpretation hello_codec: payload_codec "\<lambda>_. Hello" hello_wire hello_valid
  encode_hello_payload decode_hello_payload
proof (rule checked_codec[where check = "\<lambda>m. map_err (\<lambda>_. NoncanonicalValue)
    (source_read_policy_new (hello_source_size m) (hello_maximum_read_bytes m))"])
  show "decode_hello_payload f = Ok m \<longleftrightarrow> wf_frame f \<and> fh_message_type (fv_header f) = Hello \<and>
      is_ok (map_err (\<lambda>_. NoncanonicalValue)
        (source_read_policy_new (hello_source_size m) (hello_maximum_read_bytes m))) \<and>
      fv_payload f = hello_wire m" for f m
    unfolding decode_hello_payload_def decode_schema_Ok is_ok_iff
    by (cases m) (auto simp: result_simps reader_simps hello_wire_def)
qed (auto simp: encode_hello_payload_def guarded_encode_rules owp_consts is_ok_iff hello_policy_Ok
    cong: result.case_cong)

interpretation stream_entry_codec: payload_codec "\<lambda>_. StreamEntry" stream_entry_wire "\<lambda>_. True"
  encode_stream_entry_payload decode_stream_entry_payload
proof
  fix m :: StreamEntryMessage and dst :: bytes and f
  show "encode_stream_entry_payload m dst =
      (if length (stream_entry_wire m) \<le> length dst
       then (Ok (length (stream_entry_wire m)),
             stream_entry_wire m @ drop (length (stream_entry_wire m)) dst)
       else (Err OutputTooSmall, dst))"
    by (simp add: encode_stream_entry_payload_def stream_entry_wire_def owp_consts
        write_prefix_emits[OF emits_write(3)])
  show "decode_stream_entry_payload f = Ok m \<longleftrightarrow> wf_frame f \<and>
      fh_message_type (fv_header f) = StreamEntry \<and> True \<and> fv_payload f = stream_entry_wire m"
    unfolding decode_stream_entry_payload_def decode_schema_Ok
    by (cases m) (auto simp: result_simps reader_simps stream_entry_wire_def)
qed simp

interpretation read_request_codec: payload_codec "\<lambda>_. ReadRequest" read_request_wire
  "read_request_valid policy sequence"
  "\<lambda>m. encode_read_request_payload m policy sequence"
  "\<lambda>f. decode_read_request_payload f policy sequence" for policy sequence
proof (rule checked_codec[where check = "\<lambda>m. validate_read_request m policy sequence"])
  show "decode_read_request_payload f policy sequence = Ok m \<longleftrightarrow> wf_frame f \<and>
      fh_message_type (fv_header f) = ReadRequest \<and> is_ok (validate_read_request m policy sequence) \<and>
      fv_payload f = read_request_wire m" for f m
  proof (cases "sequence = 0")
    case True
    then show ?thesis
      by (simp add: decode_read_request_payload_def result_simps validate_read_request_def)
  next
    case False
    show ?thesis
      unfolding decode_read_request_payload_def if_not_P[OF False] decode_schema_Ok is_ok_unit
      by (cases m) (auto simp: result_simps reader_simps Let_def read_request_wire_def)
  qed
qed (simp_all add: encode_read_request_payload_def guarded_encode_rules owp_consts is_ok_unit
    validate_read_request_Ok cong: result.case_cong)

lemma read_reply_size:
  "is_ok (validate_read_reply m sequence len) \<Longrightarrow> length (rp_data m) + 6 \<le> unat MAXIMUM_FRAME_PAYLOAD_BYTES"
  by (auto simp: is_ok_unit validate_read_reply_Ok read_reply_valid_def owp_consts word_le_nat_alt)

text \<open>The reply encoder also bounds the payload before it validates the message.\<close>

definition read_reply_check :: "u32 \<Rightarrow> u32 \<Rightarrow> ReadReplyMessage \<Rightarrow> (ProtocolError, unit) result" where
  "read_reply_check sequence len m =
     (if length (rp_data m) + READ_REPLY_PREFIX_BYTES > unat MAXIMUM_FRAME_PAYLOAD_BYTES
      then Err PayloadTooLarge else validate_read_reply m sequence len)"

lemma encode_read_reply_eq:
  "encode_read_reply_payload m sequence len dst =
     (case read_reply_check sequence len m of Err e \<Rightarrow> (Err e, dst)
      | Ok _ \<Rightarrow> if length (read_reply_wire m) \<le> length dst
          then (Ok (length (read_reply_wire m)),
                read_reply_wire m @ drop (length (read_reply_wire m)) dst)
          else (Err OutputTooSmall, dst))"
proof (cases "length (rp_data m) + READ_REPLY_PREFIX_BYTES > unat MAXIMUM_FRAME_PAYLOAD_BYTES")
  case True
  then show ?thesis
    by (auto simp: encode_read_reply_payload_def read_reply_check_def st_bind_def usize_add_bounded_def
        usize_add_def)
next
  case False
  then have "usize_add_bounded (length (rp_data m)) READ_REPLY_PREFIX_BYTES =
      Ok (length (read_reply_wire m))" "length (read_reply_wire m) \<le> unat MAXIMUM_FRAME_PAYLOAD_BYTES"
    by (simp_all add: usize_add_bounded_Ok owp_consts)
  then show ?thesis using False
    by (simp add: encode_read_reply_payload_def read_reply_check_def
        guarded_encode[OF read_reply_emits] st_bind_step_Ok[where m = "st_lift (Ok _)"]
        cong: result.case_cong)
qed

interpretation read_reply_codec: payload_codec "\<lambda>_. ReadReply" read_reply_wire "read_reply_valid sequence len"
  "\<lambda>m. encode_read_reply_payload m sequence len"
  "\<lambda>f. decode_read_reply_payload f sequence len" for sequence len
proof (rule checked_codec[where check = "read_reply_check sequence len"])
  have check: "is_ok (read_reply_check sequence len m) \<longleftrightarrow> read_reply_valid sequence len m" for m
    using read_reply_size[of m sequence len]
    by (auto simp: read_reply_check_def is_ok_unit validate_read_reply_Ok owp_consts)
  show "is_ok (read_reply_check sequence len m) \<longleftrightarrow> read_reply_valid sequence len m" for m
    by (rule check)
  show "decode_read_reply_payload f sequence len = Ok m \<longleftrightarrow> wf_frame f \<and>
      fh_message_type (fv_header f) = ReadReply \<and> is_ok (read_reply_check sequence len m) \<and>
      fv_payload f = read_reply_wire m" for f m
  proof (cases "validate_reply_context sequence len")
    case (Err e)
    then have "\<not> read_reply_valid sequence len m"
      using validate_read_reply_Ok[of m sequence len] by (simp add: validate_read_reply_def)
    with Err show ?thesis by (simp add: decode_read_reply_payload_def check result_simps)
  next
    case (Ok u)
    show ?thesis
      unfolding decode_read_reply_payload_def Ok and_then.simps decode_schema_Ok check
      by (cases m) (auto simp: result_simps reader_simps Let_def read_reply_wire_def validate_read_reply_Ok)
  qed
qed (rule encode_read_reply_eq)

lemma data_chunk_size:
  "validate_data_chunk m remaining = Ok () \<Longrightarrow> length (dc_data m) \<le> unat MAXIMUM_FRAME_PAYLOAD_BYTES"
  by (auto simp: validate_data_chunk_Ok data_chunk_valid_def owp_consts)

interpretation data_chunk_codec: payload_codec "\<lambda>_. DataChunk" dc_data "data_chunk_valid remaining"
  "\<lambda>m. encode_data_chunk_payload m remaining" "\<lambda>f. decode_data_chunk_payload f remaining"
  for remaining
proof (rule checked_codec[where check = "\<lambda>m. validate_data_chunk m remaining"])
  show "encode_data_chunk_payload m remaining dst =
      (case validate_data_chunk m remaining of Err e \<Rightarrow> (Err e, dst)
       | Ok _ \<Rightarrow> if length (dc_data m) \<le> length dst
           then (Ok (length (dc_data m)), dc_data m @ drop (length (dc_data m)) dst)
           else (Err OutputTooSmall, dst))" for m dst
    using data_chunk_size[of m remaining]
    by (cases "validate_data_chunk m remaining")
      (simp_all add: encode_data_chunk_payload_def st_bind_def write_prefix_emits[OF emits_write(6)])
  show "decode_data_chunk_payload f remaining = Ok m \<longleftrightarrow> wf_frame f \<and>
      fh_message_type (fv_header f) = DataChunk \<and> is_ok (validate_data_chunk m remaining) \<and>
      fv_payload f = dc_data m" for f m
    unfolding decode_data_chunk_payload_def decode_schema_Ok is_ok_unit
    by (cases m) (auto simp: result_simps reader_simps Let_def)
qed (simp add: is_ok_unit validate_data_chunk_Ok)

interpretation complete_codec: payload_codec "\<lambda>_. Complete" complete_wire complete_valid
  "\<lambda>m. encode_complete_payload m phase" "\<lambda>f. decode_complete_payload f phase" for phase
proof (rule checked_codec[where check = validate_complete])
  show "decode_complete_payload f phase = Ok m \<longleftrightarrow> wf_frame f \<and>
      fh_message_type (fv_header f) = Complete \<and> is_ok (validate_complete m) \<and>
      fv_payload f = complete_wire m" for f m
    unfolding decode_complete_payload_def decode_schema_Ok is_ok_unit
    by (cases m) (auto simp: result_simps reader_simps Let_def complete_wire_def)
qed (simp_all add: encode_complete_payload_def guarded_encode_rules owp_consts is_ok_unit
    validate_complete_Ok cong: result.case_cong)


lemma decode_empty_Ok:
  "decode_empty f k = Ok () \<longleftrightarrow> wf_frame f \<and> fh_message_type (fv_header f) = k \<and> fv_payload f = []"
  unfolding decode_empty_def decode_schema_Ok by (auto simp: reader_simps)


section \<open>Entry batches\<close>

definition spelling_ok :: "bytes \<Rightarrow> bool" where
  "spelling_ok bs \<longleftrightarrow> 0 < length bs \<and> length bs \<le> unat MAXIMUM_ENTRY_BATCH_PATH_BYTES \<and>
     (\<forall>b \<in> set bs. 0x20 \<le> b \<and> b \<le> 0x7E)"

fun tokens_above :: "u64 option \<Rightarrow> u64 list \<Rightarrow> bool" where
  "tokens_above None ts \<longleftrightarrow> sorted_wrt (<) ts"
| "tokens_above (Some p) ts \<longleftrightarrow> sorted_wrt (<) (p # ts)"

definition path_sum :: "EntryBatchEntry list \<Rightarrow> nat" where
  "path_sum es = (\<Sum>e\<leftarrow>es. length (ebe_archive_path e))"

definition content_sum :: "EntryBatchEntry list \<Rightarrow> nat" where
  "content_sum es = (\<Sum>e\<leftarrow>es. unat (ebe_size_bytes e))"

text \<open>
  A batch that respects what is left of an enumeration's quotas, in exact arithmetic: this is the
  specification the accumulator implements.
\<close>

definition entry_fits ::
  "EntryBatchPolicy \<Rightarrow> nat \<Rightarrow> nat \<Rightarrow> u64 option \<Rightarrow> EntryBatchEntry \<Rightarrow> bool" where
  "entry_fits policy paths sizes prev e \<longleftrightarrow>
     spelling_ok (ebe_archive_path e) \<and> ebe_size_bytes e \<le> ebp_maximum_entry_bytes policy \<and>
     paths + length (ebe_archive_path e) \<le> unat (ebp_remaining_path_bytes policy) \<and>
     sizes + unat (ebe_size_bytes e) \<le> unat (ebp_remaining_total_bytes policy) \<and>
     tokens_above prev [ebe_source_token e]"

definition entries_from ::
  "EntryBatchPolicy \<Rightarrow> nat \<Rightarrow> nat \<Rightarrow> u64 option \<Rightarrow> EntryBatchEntry list \<Rightarrow> bool" where
  "entries_from policy paths sizes prev es \<longleftrightarrow>
     (\<forall>e \<in> set es. spelling_ok (ebe_archive_path e) \<and>
        ebe_size_bytes e \<le> ebp_maximum_entry_bytes policy) \<and>
     paths + path_sum es \<le> unat (ebp_remaining_path_bytes policy) \<and>
     sizes + content_sum es \<le> unat (ebp_remaining_total_bytes policy) \<and>
     tokens_above prev (map ebe_source_token es)"

definition entries_within :: "EntryBatchPolicy \<Rightarrow> EntryBatchEntry list \<Rightarrow> bool" where
  "entries_within policy es \<longleftrightarrow> entries_from policy 0 0 (ebp_previous_source_token policy) es"

definition entry_wire :: "EntryBatchEntry \<Rightarrow> bytes" where
  "entry_wire e = u64_to_le (ebe_source_token e) @ u64_to_le (ebe_size_bytes e) @
     u16_to_le (of_nat (length (ebe_archive_path e))) @ ebe_archive_path e"

definition entry_batch_wire :: "EntryBatchEntry list \<Rightarrow> bytes" where
  "entry_batch_wire es = u16_to_le (of_nat (length es)) @ concat (map entry_wire es)"

definition entry_batch_valid :: "EntryBatchPolicy \<Rightarrow> EntryBatchEntry list \<Rightarrow> bool" where
  "entry_batch_valid policy es \<longleftrightarrow>
     es \<noteq> [] \<and> length es \<le> unat MAXIMUM_ENTRY_BATCH_ENTRIES \<and>
     length es \<le> unat (ebp_remaining_entries policy) \<and> entries_within policy es \<and>
     length (entry_batch_wire es) \<le> unat MAXIMUM_FRAME_PAYLOAD_BYTES"

lemma archive_spelling_new_Ok: "archive_spelling_new bs = Ok s \<longleftrightarrow> spelling_ok bs \<and> s = bs"
  by (auto simp: archive_spelling_new_def spelling_ok_def list_ex_iff not_less not_le)

lemma spelling_ok_length: "spelling_ok bs \<Longrightarrow> length bs \<le> 4096"
  by (simp add: spelling_ok_def owp_consts)

text \<open>The accumulator after a list of entries, and the budgets it still respects.\<close>

definition acc_within :: "EntryBatchPolicy \<Rightarrow> EntryBatchAccumulator \<Rightarrow> bool" where
  "acc_within policy acc \<longleftrightarrow> eba_path_bytes acc \<le> ebp_remaining_path_bytes policy \<and>
     eba_total_bytes acc \<le> ebp_remaining_total_bytes policy"

lemma tokens_above_Cons:
  "tokens_above prev (t # ts) \<longleftrightarrow> tokens_above prev [t] \<and> tokens_above (Some t) ts"
  by (cases prev) (auto intro: less_trans)

lemma entries_from_Cons:
  "entries_from policy paths sizes prev (e # es) \<longleftrightarrow>
     entry_fits policy paths sizes prev e \<and>
     entries_from policy (paths + length (ebe_archive_path e)) (sizes + unat (ebe_size_bytes e))
       (Some (ebe_source_token e)) es"
  using tokens_above_Cons[of prev "ebe_source_token e" "map ebe_source_token es"]
  by (auto simp: entries_from_def entry_fits_def path_sum_def content_sum_def)

definition acc_after :: "EntryBatchEntry \<Rightarrow> EntryBatchAccumulator \<Rightarrow> EntryBatchAccumulator" where
  "acc_after e acc =
     \<lparr>eba_path_bytes = eba_path_bytes acc + of_nat (length (ebe_archive_path e)),
      eba_total_bytes = eba_total_bytes acc + ebe_size_bytes e,
      eba_previous_source_token = Some (ebe_source_token e)\<rparr>"

definition acc_fits :: "EntryBatchPolicy \<Rightarrow> EntryBatchAccumulator \<Rightarrow> EntryBatchEntry \<Rightarrow> bool" where
  "acc_fits policy acc = entry_fits policy (unat (eba_path_bytes acc)) (unat (eba_total_bytes acc))
     (eba_previous_source_token acc)"

lemma entry_batch_accept_Ok:
  assumes "acc_within policy acc"
  shows "entry_batch_accept (ebe_source_token e) (ebe_size_bytes e) (ebe_archive_path e) policy acc
      = (Ok (), acc') \<longleftrightarrow> acc_fits policy acc e \<and> acc' = acc_after e acc"
proof (cases "spelling_ok (ebe_archive_path e)")
  case True
  then have "length (ebe_archive_path e) < 2 ^ LENGTH(64)"
    using spelling_ok_length[of "ebe_archive_path e"] by simp
  then have "unat (of_nat (length (ebe_archive_path e)) :: u64) = length (ebe_archive_path e)"
    by (simp add: unat_of_nat)
  moreover have "archive_spelling_new (ebe_archive_path e) = Ok (ebe_archive_path e)"
    using True by (simp add: archive_spelling_new_Ok)
  ultimately show ?thesis using True assms
    by (cases "eba_previous_source_token acc")
      (auto simp: entry_batch_accept_def acc_within_def checked_sub_bounded_Ok_eq word_le_nat_alt
        word_less_nat_alt unat_diff_le Let_def acc_fits_def entry_fits_def acc_after_def split: if_splits)
next
  case False
  then obtain d where "archive_spelling_new (ebe_archive_path e) = Err d"
    using archive_spelling_new_Ok[of "ebe_archive_path e"]
    by (cases "archive_spelling_new (ebe_archive_path e)") auto
  with False show ?thesis by (simp add: entry_batch_accept_def acc_fits_def entry_fits_def)
qed

lemma acc_after_within:
  assumes "acc_within policy acc" and "acc_fits policy acc e"
  shows "acc_within policy (acc_after e acc) \<and>
    unat (eba_path_bytes (acc_after e acc)) = unat (eba_path_bytes acc) + length (ebe_archive_path e) \<and>
    unat (eba_total_bytes (acc_after e acc)) = unat (eba_total_bytes acc) + unat (ebe_size_bytes e)"
  using assms unat_add_of_nat_within[of "eba_path_bytes acc" "length (ebe_archive_path e)" "ebp_remaining_path_bytes policy"]
    unat_add_within[of "eba_total_bytes acc" "ebe_size_bytes e" "ebp_remaining_total_bytes policy"]
  by (auto simp: acc_within_def acc_fits_def entry_fits_def acc_after_def word_le_nat_alt)

definition acc_entries :: "EntryBatchPolicy \<Rightarrow> EntryBatchAccumulator \<Rightarrow> EntryBatchEntry list \<Rightarrow> bool" where
  "acc_entries policy acc = entries_from policy (unat (eba_path_bytes acc)) (unat (eba_total_bytes acc))
     (eba_previous_source_token acc)"

lemma acc_entries_Nil: "acc_within policy acc \<Longrightarrow> acc_entries policy acc []"
  by (cases "eba_previous_source_token acc")
    (simp_all add: acc_entries_def entries_from_def acc_within_def path_sum_def content_sum_def word_le_nat_alt)

lemma acc_entries_Cons:
  assumes "acc_within policy acc"
  shows "acc_entries policy acc (e # es) \<longleftrightarrow> acc_fits policy acc e \<and> acc_entries policy (acc_after e acc) es"
  using acc_after_within[OF assms, of e]
  by (auto simp: acc_entries_def acc_fits_def entries_from_Cons) (auto simp: acc_after_def)

lemma accept_entries_Ok:
  assumes "acc_within policy acc"
  shows "(\<exists>acc'. accept_entries es policy acc = (Ok (), acc')) \<longleftrightarrow> acc_entries policy acc es"
  using assms
proof (induction es arbitrary: acc)
  case (Cons e es)
  show ?case
    using Cons.IH[of "acc_after e acc"] acc_after_within[OF Cons.prems, of e]
    by (auto simp: result_simps entry_batch_accept_Ok[OF Cons.prems] acc_entries_Cons[OF Cons.prems])
qed (simp add: acc_entries_Nil)

lemma entry_batch_start_within: "acc_within policy (entry_batch_start policy)"
  by (simp add: acc_within_def entry_batch_start_def)

lemma acc_entries_start: "acc_entries policy (entry_batch_start policy) = entries_within policy"
  by (rule ext) (simp add: acc_entries_def entry_batch_start_def entries_within_def)

text \<open>Encoding a batch.\<close>

lemma length_entry_wire [simp]: "length (entry_wire e) = 18 + length (ebe_archive_path e)"
  by (simp add: entry_wire_def)

lemma entry_batch_payload_size_from_eq:
  "n + length (concat (map entry_wire es)) < 2 ^ 64 \<Longrightarrow>
     entry_batch_payload_size_from n es = Ok (n + length (concat (map entry_wire es)))"
  by (induction es arbitrary: n) (simp_all add: usize_add_bounded_def usize_add_def owp_consts)

lemma entry_batch_payload_size_eq:
  assumes "entry_batch_payload_size es = Ok n"
  shows "n = length (entry_batch_wire es)"
proof -
  have "entry_batch_payload_size_from k es = Ok m \<Longrightarrow> m = k + length (concat (map entry_wire es))" for k m
  proof (induction es arbitrary: k)
    case (Cons e es)
    then have "entry_batch_payload_size_from (k + (18 + length (ebe_archive_path e))) es = Ok m"
      by (auto simp: result_simps usize_add_bounded_Ok owp_consts)
    from Cons.IH[OF this] show ?case by simp
  qed simp
  from this[of 2 n] show ?thesis
    using assms by (simp add: entry_batch_payload_size_def entry_batch_wire_def owp_consts)
qed

lemma write_entries_emits:
  "\<forall>e \<in> set es. spelling_ok (ebe_archive_path e) \<Longrightarrow> emits (write_entries es) (concat (map entry_wire es))"
proof (induction es)
  case (Cons e es)
  have "try_from_nat (length (ebe_archive_path e)) = Some (of_nat (length (ebe_archive_path e)) :: u16)"
    using Cons.prems spelling_ok_length[of "ebe_archive_path e"] by (simp add: try_from_nat_def)
  then have "ok_or NoncanonicalValue (try_from_nat (length (ebe_archive_path e))) =
      Ok (of_nat (length (ebe_archive_path e)) :: u16)" by simp
  with Cons show ?case
    by (simp add: entry_wire_def[of e], intro emit_intros) (simp_all, rule emits_write)
qed (simp add: emits_return)

lemma entries_within_spelling: "entries_within policy es \<Longrightarrow> \<forall>e \<in> set es. spelling_ok (ebe_archive_path e)"
  by (simp add: entries_within_def entries_from_def)

lemma entry_batch_emits:
  assumes "entry_batch_valid policy es"
  shows "emits (st_bind (st_lift (ok_or NoncanonicalValue (try_from_nat (length es)))) (\<lambda>entry_count.
     st_bind (write_u16 entry_count) (\<lambda>_. write_entries es))) (entry_batch_wire es)"
proof -
  have "try_from_nat (length es) = Some (of_nat (length es) :: u16)"
    using assms by (simp add: entry_batch_valid_def try_from_nat_def owp_consts)
  then have "ok_or NoncanonicalValue (try_from_nat (length es)) = Ok (of_nat (length es) :: u16)" by simp
  moreover have "emits (write_entries es) (concat (map entry_wire es))"
    using assms by (intro write_entries_emits entries_within_spelling[of policy]) (simp add: entry_batch_valid_def)
  ultimately show ?thesis
    unfolding entry_batch_wire_def by (intro emit_intros) (simp_all, rule emits_write)
qed

lemma accept_entries_within:
  "fst (accept_entries es policy (entry_batch_start policy)) = Ok () \<longleftrightarrow> entries_within policy es"
  using accept_entries_Ok[OF entry_batch_start_within, of es policy]
  by (auto simp: acc_entries_start fst_result_iff)

lemma encode_entry_batch_valid:
  assumes "entry_batch_valid policy es"
  shows "encode_entry_batch_payload es policy dst =
    (if length (entry_batch_wire es) \<le> length dst
     then (Ok (length (entry_batch_wire es)), entry_batch_wire es @ drop (length (entry_batch_wire es)) dst)
     else (Err OutputTooSmall, dst))"
proof -
  from assms have v: "length es \<le> unat MAXIMUM_ENTRY_BATCH_ENTRIES" "length es \<le> unat (ebp_remaining_entries policy)"
    "es \<noteq> []" "entries_within policy es" "length (entry_batch_wire es) \<le> unat MAXIMUM_FRAME_PAYLOAD_BYTES"
    by (auto simp: entry_batch_valid_def)
  then have "entry_batch_payload_size es = Ok (length (entry_batch_wire es))"
    using entry_batch_payload_size_from_eq[of ENTRY_BATCH_PREFIX_BYTES es]
    by (simp add: entry_batch_payload_size_def entry_batch_wire_def owp_consts)
  with v show ?thesis
    using accept_entries_within[of es policy] write_prefix_emits[OF entry_batch_emits[OF assms] refl v(5)]
    by (simp add: encode_entry_batch_payload_def st_bind_def)
qed

lemma encode_entry_batch_invalid:
  assumes "\<not> entry_batch_valid policy es"
  shows "\<exists>e. encode_entry_batch_payload es policy dst = (Err e, dst)"
proof (cases "entries_within policy es")
  case True
  then show ?thesis using assms accept_entries_within[of es policy]
    by (cases "entry_batch_payload_size es")
      (auto simp: encode_entry_batch_payload_def st_bind_def entry_batch_valid_def dest: entry_batch_payload_size_eq)
next
  case False
  then show ?thesis using accept_entries_within[of es policy]
    by (cases "fst (accept_entries es policy (entry_batch_start policy))")
      (auto simp: encode_entry_batch_payload_def st_bind_def)
qed

text \<open>Decoding a batch: the first pass.\<close>

lemma validate_entries_Ok:
  assumes "acc_within policy acc"
  shows "validate_entries n policy acc (reader_of pre ahead) = (Ok (), r') \<longleftrightarrow>
    (\<exists>es post. length es = n \<and> ahead = concat (map entry_wire es) @ post \<and>
       acc_entries policy acc es \<and> r' = reader_of (pre @ concat (map entry_wire es)) post)"
  using assms
proof (induction n arbitrary: acc pre ahead)
  case 0
  then show ?case by (auto simp: acc_entries_Nil)
next
  case (Suc n)
  show ?case (is "?L \<longleftrightarrow> ?R")
  proof
    assume ?L
    then obtain t s p path post acc' where ahead: "ahead = u64_to_le t @ u64_to_le s @ u16_to_le p @ path @ post"
      and len: "length path = unat p"
      and acc': "entry_batch_accept t s path policy acc = (Ok (), acc')"
      and rest: "validate_entries n policy acc'
        (reader_of (pre @ u64_to_le t @ u64_to_le s @ u16_to_le p @ path) post) = (Ok (), r')"
      by (auto simp: result_simps reader_simps st_case_Ok)
    let ?e = "\<lparr>ebe_source_token = t, ebe_size_bytes = s, ebe_archive_path = path\<rparr>"
    have e: "ahead = entry_wire ?e @ post" using ahead len by (simp add: entry_wire_def)
    have fit: "acc_fits policy acc ?e" "acc' = acc_after ?e acc"
      using acc' entry_batch_accept_Ok[OF Suc.prems, of ?e] by auto
    have "validate_entries n policy acc' (reader_of (pre @ entry_wire ?e) post) = (Ok (), r')"
      using rest len by (simp add: entry_wire_def)
    then obtain es post' where "length es = n" "post = concat (map entry_wire es) @ post'"
      "acc_entries policy acc' es"
      "r' = reader_of ((pre @ entry_wire ?e) @ concat (map entry_wire es)) post'"
      using Suc.IH[of acc' "pre @ entry_wire ?e" post] fit acc_after_within[OF Suc.prems, of ?e] by blast
    with e fit show ?R
      by (intro exI[of _ "?e # es"] exI[of _ post']) (simp add: acc_entries_Cons[OF Suc.prems])
  next
    assume ?R
    then obtain e es post where es: "length es = n" "ahead = entry_wire e @ concat (map entry_wire es) @ post"
      "acc_entries policy acc (e # es)" "r' = reader_of (pre @ entry_wire e @ concat (map entry_wire es)) post"
      by (auto simp: length_Suc_conv)
    then have fit: "acc_fits policy acc e" "acc_entries policy (acc_after e acc) es"
      by (simp_all add: acc_entries_Cons[OF Suc.prems])
    have "length (ebe_archive_path e) < 2 ^ LENGTH(16)"
      using fit spelling_ok_length[of "ebe_archive_path e"] by (simp add: acc_fits_def entry_fits_def)
    then have u: "unat (of_nat (length (ebe_archive_path e)) :: u16) = length (ebe_archive_path e)"
      by (simp add: unat_of_nat)
    have "validate_entries n policy (acc_after e acc)
        (reader_of (pre @ entry_wire e) (concat (map entry_wire es) @ post)) = (Ok (), r')"
      using Suc.IH[of "acc_after e acc" "pre @ entry_wire e"] acc_after_within[OF Suc.prems fit(1)] es fit by auto
    moreover have "entry_batch_accept (ebe_source_token e) (ebe_size_bytes e) (ebe_archive_path e) policy acc
        = (Ok (), acc_after e acc)" using entry_batch_accept_Ok[OF Suc.prems, of e] fit by blast
    ultimately show ?L using es u
      by (simp add: st_bind_def entry_wire_def[of e] read_exact)
  qed
qed

text \<open>The second pass: it cannot fail on a payload the first pass accepted, and fills the slots.\<close>

lemma populate_entries_exact:
  assumes "\<forall>e \<in> set es. spelling_ok (ebe_archive_path e)" and "i + length es \<le> length storage"
  shows "populate_entries (length es) i storage (reader_of pre (concat (map entry_wire es) @ post)) =
    (Ok (), take i storage @ es @ drop (i + length es) storage)"
  using assms
proof (induction es arbitrary: i storage pre)
  case (Cons e es)
  have s: "spelling_ok (ebe_archive_path e)" using Cons.prems by simp
  then have "length (ebe_archive_path e) < 2 ^ LENGTH(16)"
    using spelling_ok_length[of "ebe_archive_path e"] by simp
  then have "unat (of_nat (length (ebe_archive_path e)) :: u16) = length (ebe_archive_path e)"
    by (simp add: unat_of_nat)
  moreover have "archive_spelling_new (ebe_archive_path e) = Ok (ebe_archive_path e)"
    using s by (simp add: archive_spelling_new_Ok)
  ultimately have "read_entry (reader_of pre (entry_wire e @ concat (map entry_wire es) @ post)) =
      (Ok e, reader_of (pre @ entry_wire e) (concat (map entry_wire es) @ post))"
    by (simp add: read_entry_def st_bind_def read_exact entry_wire_def[of e])
  moreover have "take (Suc i) (storage[i := e]) = take i storage @ [e]"
    "drop (Suc (i + length es)) (storage[i := e]) = drop (Suc (i + length es)) storage"
    using Cons.prems by (auto simp: take_Suc_conv_app_nth)
  ultimately show ?case using Cons.IH[of "Suc i" "storage[i := e]"] Cons.prems by simp
qed simp

lemma validate_entry_batch_payload_Ok:
  assumes "length payload \<le> unat MAXIMUM_FRAME_PAYLOAD_BYTES"
  shows "validate_entry_batch_payload payload policy = Ok n \<longleftrightarrow>
    (\<exists>es. entry_batch_valid policy es \<and> payload = entry_batch_wire es \<and> n = of_nat (length es))"
proof -
  have count: "\<not> (n = 0 \<or> MAXIMUM_ENTRY_BATCH_ENTRIES < n \<or> ebp_remaining_entries policy < ucast n) \<longleftrightarrow>
      0 < k \<and> k \<le> unat MAXIMUM_ENTRY_BATCH_ENTRIES \<and> k \<le> unat (ebp_remaining_entries policy)"
    if "k = unat n" for n :: u16 and k
    using that by (auto simp: word_less_nat_alt word_le_nat_alt not_less unat_ucast_widen unat_gt_0)
  show ?thesis (is "?L \<longleftrightarrow> ?R")
  proof
    assume ?L
    then obtain ahead r u where p: "payload = u16_to_le n @ ahead"
      and g: "\<not> (n = 0 \<or> MAXIMUM_ENTRY_BATCH_ENTRIES < n \<or> ebp_remaining_entries policy < ucast n)"
      and v: "validate_entries (unat n) policy (entry_batch_start policy) (reader_of (u16_to_le n) ahead) = (Ok (), r)"
      and fin: "pr_finish r = (Ok (), u)"
      unfolding validate_entry_batch_payload_def run_reader_def payload_reader_new_live[OF assms] fst_result_iff
      by (auto simp: result_simps reader_simps split: if_splits)
    from v obtain es post where es: "length es = unat n" "entries_within policy es"
      and ahead: "ahead = concat (map entry_wire es) @ post"
      and r: "r = reader_of (u16_to_le n @ concat (map entry_wire es)) post"
      unfolding validate_entries_Ok[OF entry_batch_start_within] acc_entries_start by blast
    from fin r ahead p have p: "payload = u16_to_le n @ concat (map entry_wire es)"
      by (simp add: reader_simps)
    from g have k: "0 < length es \<and> length es \<le> unat MAXIMUM_ENTRY_BATCH_ENTRIES \<and>
        length es \<le> unat (ebp_remaining_entries policy)"
      unfolding count[OF es(1)] .
    have n: "n = of_nat (length es)" unfolding es(1) by simp
    have "payload = entry_batch_wire es" using p unfolding entry_batch_wire_def n[symmetric] .
    moreover from this have "entry_batch_valid policy es"
      using k es(2) assms by (simp add: entry_batch_valid_def)
    ultimately show ?R using n by blast
  next
    assume ?R
    then obtain es where es: "entry_batch_valid policy es" "payload = entry_batch_wire es"
      and n: "n = of_nat (length es)" by blast
    then have "length es < 2 ^ LENGTH(16)" by (simp add: entry_batch_valid_def owp_consts)
    then have un: "length es = unat n" using n by (simp add: unat_of_nat)
    have "\<not> (n = 0 \<or> MAXIMUM_ENTRY_BATCH_ENTRIES < n \<or> ebp_remaining_entries policy < ucast n)"
      using count[OF un] es by (auto simp: entry_batch_valid_def)
    moreover have "validate_entries (unat n) policy (entry_batch_start policy)
        (reader_of (u16_to_le n) (concat (map entry_wire es))) =
        (Ok (), reader_of (u16_to_le n @ concat (map entry_wire es)) [])"
      using es un by (auto simp: validate_entries_Ok[OF entry_batch_start_within] acc_entries_start
          entry_batch_valid_def)
    moreover have "pr_finish (reader_of pre []) = (Ok (), reader_of pre [])" for pre
      by (simp add: reader_simps)
    ultimately show ?L
      unfolding validate_entry_batch_payload_def run_reader_def payload_reader_new_live[OF assms]
      using es(2) n by (simp add: entry_batch_wire_def st_bind_def read_exact)
  qed
qed

lemma decode_entry_batch_accepts:
  assumes "wf_frame f" and "fh_message_type (fv_header f) = EntryBatch"
    and "entry_batch_valid policy es" and "fv_payload f = entry_batch_wire es"
  shows "decode_entry_batch_payload f policy storage =
    (if length es \<le> length storage then (Ok es, es @ drop (length es) storage)
     else (Err OutputTooSmall, storage))"
proof -
  let ?n = "of_nat (length es) :: u16"
  note bound = wf_frame_payload_bound[OF assms(1)]
  have n: "unat ?n = length es"
    using assms(3) by (simp add: entry_batch_valid_def owp_consts unat_of_nat)
  have v: "validate_frame f EntryBatch = Ok ()" using assms by (simp add: validate_frame_Ok)
  have first_pass: "validate_entry_batch_payload (fv_payload f) policy = Ok ?n"
    using assms validate_entry_batch_payload_Ok[OF bound] by blast
  have "read_u16 (payload_reader_new (fv_payload f)) =
      (Ok ?n, reader_of (u16_to_le ?n) (concat (map entry_wire es) @ []))"
    using payload_reader_new_live[OF bound] assms(4) by (simp add: entry_batch_wire_def reader_simps)
  moreover have "populate_entries (length es) 0 storage
      (reader_of (u16_to_le ?n) (concat (map entry_wire es) @ [])) = (Ok (), es @ drop (length es) storage)"
    if "length es \<le> length storage"
    using populate_entries_exact[of es 0 storage "u16_to_le ?n" "[]"] that assms(3)
      entries_within_spelling[of policy es] by (simp add: entry_batch_valid_def)
  ultimately show ?thesis
    using v first_pass n by (simp add: decode_entry_batch_payload_def)
qed

lemma decode_entry_batch_rejects:
  assumes "\<not> (wf_frame f \<and> fh_message_type (fv_header f) = EntryBatch \<and>
    (\<exists>es. entry_batch_valid policy es \<and> fv_payload f = entry_batch_wire es))"
  shows "\<exists>e. decode_entry_batch_payload f policy storage = (Err e, storage)"
proof (cases "validate_frame f EntryBatch")
  case (Err e)
  then show ?thesis by (simp add: decode_entry_batch_payload_def)
next
  case (Ok u)
  then have wf: "wf_frame f" "fh_message_type (fv_header f) = EntryBatch"
    using validate_frame_Ok[of f EntryBatch] by simp_all
  with assms have no: "validate_entry_batch_payload (fv_payload f) policy \<noteq> Ok n" for n
    using validate_entry_batch_payload_Ok[OF wf_frame_payload_bound[OF wf(1)], of policy] by blast
  then obtain e where "validate_entry_batch_payload (fv_payload f) policy = Err e"
    by (cases "validate_entry_batch_payload (fv_payload f) policy") blast+
  then show ?thesis using Ok by (simp add: decode_entry_batch_payload_def)
qed

lemma decode_entry_batch_Ok:
  "decode_entry_batch_payload f policy storage = (Ok es, storage') \<longleftrightarrow>
     wf_frame f \<and> fh_message_type (fv_header f) = EntryBatch \<and> entry_batch_valid policy es \<and>
     fv_payload f = entry_batch_wire es \<and> length es \<le> length storage \<and>
     storage' = es @ drop (length es) storage" (is "?L \<longleftrightarrow> ?R")
proof
  assume L: ?L
  then obtain ds where ds: "wf_frame f" "fh_message_type (fv_header f) = EntryBatch"
    "entry_batch_valid policy ds" "fv_payload f = entry_batch_wire ds"
    using decode_entry_batch_rejects[of f policy storage] by fastforce
  from L decode_entry_batch_accepts[OF ds, of storage] have "ds = es" by (auto split: if_splits)
  with L ds decode_entry_batch_accepts[OF ds, of storage] show ?R by (auto split: if_splits)
next
  assume ?R
  then show ?L using decode_entry_batch_accepts[of f policy es storage] by simp
qed

lemma decode_entry_batch_Err:
  assumes "decode_entry_batch_payload f policy storage = (Err e, storage')"
  shows "storage' = storage"
proof (cases "wf_frame f \<and> fh_message_type (fv_header f) = EntryBatch \<and>
    (\<exists>es. entry_batch_valid policy es \<and> fv_payload f = entry_batch_wire es)")
  case True
  then obtain es where "wf_frame f" "fh_message_type (fv_header f) = EntryBatch"
    "entry_batch_valid policy es" "fv_payload f = entry_batch_wire es" by blast
  from decode_entry_batch_accepts[OF this, of storage] assms show ?thesis by (auto split: if_splits)
next
  case False
  from decode_entry_batch_rejects[OF this, of storage] assms show ?thesis by auto
qed

text \<open>
  With storage for the largest batch, which is how the parent calls it, the batch codec is a
  payload codec like the others.
\<close>

interpretation entry_batch_codec: payload_codec "\<lambda>_. EntryBatch" entry_batch_wire "entry_batch_valid policy"
  "\<lambda>es. encode_entry_batch_payload es policy"
  "\<lambda>f. fst (decode_entry_batch_payload f policy (replicate (unat MAXIMUM_ENTRY_BATCH_ENTRIES) slot))"
  for policy slot
proof
  fix es dst f
  show "entry_batch_valid policy es \<Longrightarrow> encode_entry_batch_payload es policy dst =
    (if length (entry_batch_wire es) \<le> length dst
     then (Ok (length (entry_batch_wire es)), entry_batch_wire es @ drop (length (entry_batch_wire es)) dst)
     else (Err OutputTooSmall, dst))"
    by (rule encode_entry_batch_valid)
  show "\<not> entry_batch_valid policy es \<Longrightarrow> \<exists>e. encode_entry_batch_payload es policy dst = (Err e, dst)"
    by (rule encode_entry_batch_invalid)
  show "fst (decode_entry_batch_payload f policy (replicate (unat MAXIMUM_ENTRY_BATCH_ENTRIES) slot)) = Ok es \<longleftrightarrow>
      wf_frame f \<and> fh_message_type (fv_header f) = EntryBatch \<and> entry_batch_valid policy es \<and>
      fv_payload f = entry_batch_wire es"
    by (auto simp: fst_result_iff decode_entry_batch_Ok entry_batch_valid_def)
qed


section \<open>All kinds together\<close>

text \<open>
  One message of any kind, and the context a peer validates it against: the read policy, the
  expected sequence and requested length of the read in flight, the batch policy, and what is left
  of the entry being streamed.  \<open>encode_message\<close> and \<open>decode_message\<close> call the codec of the kind.
\<close>

datatype OwpMessage =
    MsgHello HelloMessage | MsgReady | MsgEnumerate | MsgStreamEntry StreamEntryMessage
  | MsgReadRequest ReadRequestMessage | MsgReadReply ReadReplyMessage
  | MsgEntryBatch "EntryBatchEntry list" | MsgDataChunk DataChunkMessage
  | MsgComplete CompleteMessage | MsgCancel | MsgCancelAck | MsgShutdown

record OwpContext =
  ctx_policy :: SourceReadPolicy
  ctx_sequence :: u32
  ctx_length :: u32
  ctx_batch :: EntryBatchPolicy
  ctx_remaining :: u64
  ctx_phase :: OperationPhase
  ctx_slot :: EntryBatchEntry

fun message_kind :: "OwpMessage \<Rightarrow> MessageType" where
  "message_kind (MsgHello m) = Hello"
| "message_kind MsgReady = Ready"
| "message_kind MsgEnumerate = Enumerate"
| "message_kind (MsgStreamEntry m) = StreamEntry"
| "message_kind (MsgReadRequest m) = ReadRequest"
| "message_kind (MsgReadReply m) = ReadReply"
| "message_kind (MsgEntryBatch es) = EntryBatch"
| "message_kind (MsgDataChunk m) = DataChunk"
| "message_kind (MsgComplete m) = Complete"
| "message_kind MsgCancel = Cancel"
| "message_kind MsgCancelAck = CancelAck"
| "message_kind MsgShutdown = Shutdown"

fun encode_message :: "OwpContext \<Rightarrow> OwpMessage \<Rightarrow> (bytes, ProtocolError, nat) stm" where
  "encode_message ctx (MsgHello m) = encode_hello_payload m"
| "encode_message ctx MsgReady = st_return encode_ready_payload"
| "encode_message ctx MsgEnumerate = st_return encode_enumerate_payload"
| "encode_message ctx (MsgStreamEntry m) = encode_stream_entry_payload m"
| "encode_message ctx (MsgReadRequest m) = encode_read_request_payload m (ctx_policy ctx) (ctx_sequence ctx)"
| "encode_message ctx (MsgReadReply m) = encode_read_reply_payload m (ctx_sequence ctx) (ctx_length ctx)"
| "encode_message ctx (MsgEntryBatch es) = encode_entry_batch_payload es (ctx_batch ctx)"
| "encode_message ctx (MsgDataChunk m) = encode_data_chunk_payload m (ctx_remaining ctx)"
| "encode_message ctx (MsgComplete m) = encode_complete_payload m (ctx_phase ctx)"
| "encode_message ctx MsgCancel = st_return encode_cancel_payload"
| "encode_message ctx MsgCancelAck = st_return encode_cancel_ack_payload"
| "encode_message ctx MsgShutdown = st_return encode_shutdown_payload"

definition decode_message :: "OwpContext \<Rightarrow> FrameView \<Rightarrow> (ProtocolError, OwpMessage) result" where
  "decode_message ctx f =
     (case fh_message_type (fv_header f) of
        Hello \<Rightarrow> and_then (decode_hello_payload f) (\<lambda>m. Ok (MsgHello m))
      | Ready \<Rightarrow> and_then (decode_ready_payload f) (\<lambda>_. Ok MsgReady)
      | Enumerate \<Rightarrow> and_then (decode_enumerate_payload f) (\<lambda>_. Ok MsgEnumerate)
      | StreamEntry \<Rightarrow> and_then (decode_stream_entry_payload f) (\<lambda>m. Ok (MsgStreamEntry m))
      | ReadRequest \<Rightarrow> and_then (decode_read_request_payload f (ctx_policy ctx) (ctx_sequence ctx))
                        (\<lambda>m. Ok (MsgReadRequest m))
      | ReadReply \<Rightarrow> and_then (decode_read_reply_payload f (ctx_sequence ctx) (ctx_length ctx))
                        (\<lambda>m. Ok (MsgReadReply m))
      | EntryBatch \<Rightarrow> and_then (fst (decode_entry_batch_payload f (ctx_batch ctx)
                          (replicate (unat MAXIMUM_ENTRY_BATCH_ENTRIES) (ctx_slot ctx))))
                        (\<lambda>m. Ok (MsgEntryBatch m))
      | DataChunk \<Rightarrow> and_then (decode_data_chunk_payload f (ctx_remaining ctx)) (\<lambda>m. Ok (MsgDataChunk m))
      | Complete \<Rightarrow> and_then (decode_complete_payload f (ctx_phase ctx)) (\<lambda>m. Ok (MsgComplete m))
      | Cancel \<Rightarrow> and_then (decode_cancel_payload f) (\<lambda>_. Ok MsgCancel)
      | CancelAck \<Rightarrow> and_then (decode_cancel_ack_payload f) (\<lambda>_. Ok MsgCancelAck)
      | Shutdown \<Rightarrow> and_then (decode_shutdown_payload f) (\<lambda>_. Ok MsgShutdown))"

fun message_wire :: "OwpMessage \<Rightarrow> bytes" where
  "message_wire (MsgHello m) = hello_wire m"
| "message_wire (MsgStreamEntry m) = stream_entry_wire m"
| "message_wire (MsgReadRequest m) = read_request_wire m"
| "message_wire (MsgReadReply m) = read_reply_wire m"
| "message_wire (MsgEntryBatch es) = entry_batch_wire es"
| "message_wire (MsgDataChunk m) = dc_data m"
| "message_wire (MsgComplete m) = complete_wire m"
| "message_wire _ = []"

fun message_valid :: "OwpContext \<Rightarrow> OwpMessage \<Rightarrow> bool" where
  "message_valid ctx (MsgHello m) = hello_valid m"
| "message_valid ctx (MsgReadRequest m) = read_request_valid (ctx_policy ctx) (ctx_sequence ctx) m"
| "message_valid ctx (MsgReadReply m) = read_reply_valid (ctx_sequence ctx) (ctx_length ctx) m"
| "message_valid ctx (MsgEntryBatch es) = entry_batch_valid (ctx_batch ctx) es"
| "message_valid ctx (MsgDataChunk m) = data_chunk_valid (ctx_remaining ctx) m"
| "message_valid ctx (MsgComplete m) = complete_valid m"
| "message_valid ctx _ = True"

lemmas codec_encode_valid = hello_codec.encode_valid stream_entry_codec.encode_valid
  read_request_codec.encode_valid read_reply_codec.encode_valid entry_batch_codec.encode_valid
  data_chunk_codec.encode_valid complete_codec.encode_valid

lemmas codec_encode_invalid = hello_codec.encode_invalid
  read_request_codec.encode_invalid read_reply_codec.encode_invalid entry_batch_codec.encode_invalid
  data_chunk_codec.encode_invalid complete_codec.encode_invalid

lemmas codec_decode_Ok = hello_codec.decode_Ok stream_entry_codec.decode_Ok
  read_request_codec.decode_Ok read_reply_codec.decode_Ok entry_batch_codec.decode_Ok
  data_chunk_codec.decode_Ok complete_codec.decode_Ok

lemmas empty_kind_defs = encode_ready_payload_def encode_enumerate_payload_def
  encode_cancel_payload_def encode_cancel_ack_payload_def encode_shutdown_payload_def
  decode_ready_payload_def decode_enumerate_payload_def decode_cancel_payload_def
  decode_cancel_ack_payload_def decode_shutdown_payload_def

interpretation message_codec: payload_codec message_kind message_wire "message_valid ctx"
  "encode_message ctx" "decode_message ctx" for ctx
proof
  show "message_valid ctx m \<Longrightarrow> encode_message ctx m dst =
      (if length (message_wire m) \<le> length dst
       then (Ok (length (message_wire m)), message_wire m @ drop (length (message_wire m)) dst)
       else (Err OutputTooSmall, dst))" for m dst
    by (cases m) (simp_all add: codec_encode_valid empty_kind_defs owp_consts)
  show "\<not> message_valid ctx m \<Longrightarrow> \<exists>e. encode_message ctx m dst = (Err e, dst)" for m dst
    by (cases m) (simp_all add: codec_encode_invalid)
  show "decode_message ctx f = Ok m \<longleftrightarrow> wf_frame f \<and> fh_message_type (fv_header f) = message_kind m \<and>
      message_valid ctx m \<and> fv_payload f = message_wire m" for f m
    by (cases m; cases "fh_message_type (fv_header f)")
      (auto simp: decode_message_def result_simps codec_decode_Ok empty_kind_defs decode_empty_Ok)
qed


section \<open>Correctness of the messages\<close>

text \<open>
  C6: a message of any kind that its encoder accepted survives the wire.  Encoded into a payload
  buffer, framed for a session and a request, and decoded from exactly the frame's bytes in the
  same context, it comes back unchanged under the same request id.
\<close>

theorem message_transport:
  assumes "encode_message ctx m buf = (Ok n, buf')"
    and "encode_frame (frame_header_new (message_kind m) sid rid (of_nat n)) (take n buf') dst = (Ok k, dst')"
  shows "\<exists>f. decode_frame (take k dst') sid = Ok f \<and> fh_request_id (fv_header f) = rid \<and>
    decode_message ctx f = Ok m"
  using assms by (rule message_codec.transport)

theorem message_transport_witness:
  "\<exists>f. decode_frame (take 48 (snd (encode_frame (frame_header_new ReadRequest 7 3 16)
        (read_request_wire \<lparr>rq_read_sequence = 1, rq_offset = 90, rq_length = 10\<rparr>) (replicate 64 0)))) 7 = Ok f \<and>
     fh_request_id (fv_header f) = 3 \<and>
     decode_read_request_payload f \<lparr>srp_source_size = 100, srp_maximum_read_bytes = 10\<rparr> 1 =
       Ok \<lparr>rq_read_sequence = 1, rq_offset = 90, rq_length = 10\<rparr>"
proof -
  let ?q = "\<lparr>rq_read_sequence = 1, rq_offset = 90, rq_length = 10\<rparr>"
  let ?ctx = "\<lparr>ctx_policy = \<lparr>srp_source_size = 100, srp_maximum_read_bytes = 10\<rparr>, ctx_sequence = 1,
    ctx_length = 0, ctx_batch = undefined, ctx_remaining = 0, ctx_phase = OpEnumerate, ctx_slot = undefined\<rparr>"
  let ?e = "encode_frame (frame_header_new ReadRequest 7 3 16) (read_request_wire ?q) (replicate 64 0)"
  have m: "encode_message ?ctx (MsgReadRequest ?q) (replicate 16 0) = (Ok 16, read_request_wire ?q)"
    by (simp add: read_request_codec.encode_Ok read_request_valid_def)
  have "?e = (Ok 48, snd ?e)"
    by (simp add: encode_frame_eq frame_header_validate_def frame_header_new_def owp_consts)
  then have f: "encode_frame (frame_header_new (message_kind (MsgReadRequest ?q)) 7 3 (of_nat 16))
      (take 16 (read_request_wire ?q)) (replicate 64 0) = (Ok 48, snd ?e)" by simp
  from message_transport[OF m f] obtain g where g: "decode_frame (take 48 (snd ?e)) 7 = Ok g"
    "fh_request_id (fv_header g) = 3" "decode_message ?ctx g = Ok (MsgReadRequest ?q)" by blast
  moreover have "fh_message_type (fv_header g) = ReadRequest"
    using g(3) by (simp add: message_codec.decode_Ok)
  ultimately show ?thesis by (auto simp: decode_message_def result_simps)
qed

text \<open>
  C7: decoding and encoding are exact, for every kind.  The decoder accepts exactly the well-formed
  frames of the kind whose payload is the wire form of a valid message, and returns that message.  The
  encoder succeeds exactly when the message is valid and its wire form fits; it then writes exactly the
  wire form, reports its length and leaves the rest of the buffer; a rejected encoding leaves the whole
  buffer as it was.
\<close>

theorem message_canonical:
  "(decode_message ctx f = Ok m \<longleftrightarrow>
      wf_frame f \<and> fh_message_type (fv_header f) = message_kind m \<and> message_valid ctx m \<and>
      fv_payload f = message_wire m) \<and>
   (case encode_message ctx m buf of
      (Ok n, buf') \<Rightarrow> message_valid ctx m \<and> n = length (message_wire m) \<and> n \<le> length buf \<and>
        buf' = message_wire m @ drop n buf
    | (Err e, buf') \<Rightarrow> buf' = buf \<and> \<not> (message_valid ctx m \<and> length (message_wire m) \<le> length buf))"
proof
  show "decode_message ctx f = Ok m \<longleftrightarrow>
      wf_frame f \<and> fh_message_type (fv_header f) = message_kind m \<and> message_valid ctx m \<and>
      fv_payload f = message_wire m"
    by (rule message_codec.decode_Ok)
  show "case encode_message ctx m buf of
      (Ok n, buf') \<Rightarrow> message_valid ctx m \<and> n = length (message_wire m) \<and> n \<le> length buf \<and>
        buf' = message_wire m @ drop n buf
    | (Err e, buf') \<Rightarrow> buf' = buf \<and> \<not> (message_valid ctx m \<and> length (message_wire m) \<le> length buf)"
  proof (cases "encode_message ctx m buf")
    case (Pair r buf')
    then show ?thesis using message_codec.encode_Ok[of ctx m buf] message_codec.encode_atomic[of ctx m buf]
        message_codec.encode_valid[of ctx m buf]
      by (cases r) auto
  qed
qed

text \<open>
  C8: the source-read boundary.  A read request is accepted exactly when it is the canonical
  encoding of a request with the expected nonzero sequence, a nonzero length within the negotiated
  maximum, and a range that ends inside the source in exact arithmetic: no 64-bit offset wraps.
\<close>

theorem read_request_decode_exact:
  "decode_read_request_payload f policy sequence = Ok m \<longleftrightarrow>
     wf_frame f \<and> fh_message_type (fv_header f) = ReadRequest \<and> fv_payload f = read_request_wire m \<and>
     sequence \<noteq> 0 \<and> rq_read_sequence m = sequence \<and>
     0 < unat (rq_length m) \<and> unat (rq_length m) \<le> unat (srp_maximum_read_bytes policy) \<and>
     unat (rq_offset m) + unat (rq_length m) \<le> unat (srp_source_size policy)"
  by (auto simp: read_request_codec.decode_Ok read_request_valid_def)

text \<open>
  C9: the enumeration boundary.  A batch is accepted exactly when the frame is well formed and an entry
  batch, its payload is the canonical encoding of a nonempty list of at most the protocol's entries per
  batch, within the remaining quotas in exact arithmetic (count, path bytes, total bytes, bytes per
  entry), with printable spellings and source tokens strictly increasing above the previous batch, and
  the caller's storage has room; the entries then fill the front of the storage.  A rejected batch
  leaves the storage untouched.
\<close>

theorem entry_batch_decode_exact:
  "(decode_entry_batch_payload f policy storage = (Ok es, storage') \<longleftrightarrow>
      wf_frame f \<and> fh_message_type (fv_header f) = EntryBatch \<and> fv_payload f = entry_batch_wire es \<and>
      es \<noteq> [] \<and> length es \<le> unat MAXIMUM_ENTRY_BATCH_ENTRIES \<and>
      length es \<le> unat (ebp_remaining_entries policy) \<and>
      path_sum es \<le> unat (ebp_remaining_path_bytes policy) \<and>
      content_sum es \<le> unat (ebp_remaining_total_bytes policy) \<and>
      list_all (\<lambda>e. spelling_ok (ebe_archive_path e) \<and>
         ebe_size_bytes e \<le> ebp_maximum_entry_bytes policy) es \<and>
      tokens_above (ebp_previous_source_token policy) (map ebe_source_token es) \<and>
      length es \<le> length storage \<and> storage' = es @ drop (length es) storage) \<and>
   (case decode_entry_batch_payload f policy storage of (Ok _, _) \<Rightarrow> True | (Err _, after) \<Rightarrow> after = storage)"
proof
  have "length (fv_payload f) \<le> unat MAXIMUM_FRAME_PAYLOAD_BYTES" if "wf_frame f" using wf_frame_payload_bound[OF that] .
  then show "decode_entry_batch_payload f policy storage = (Ok es, storage') \<longleftrightarrow>
      wf_frame f \<and> fh_message_type (fv_header f) = EntryBatch \<and> fv_payload f = entry_batch_wire es \<and>
      es \<noteq> [] \<and> length es \<le> unat MAXIMUM_ENTRY_BATCH_ENTRIES \<and>
      length es \<le> unat (ebp_remaining_entries policy) \<and>
      path_sum es \<le> unat (ebp_remaining_path_bytes policy) \<and>
      content_sum es \<le> unat (ebp_remaining_total_bytes policy) \<and>
      list_all (\<lambda>e. spelling_ok (ebe_archive_path e) \<and>
         ebe_size_bytes e \<le> ebp_maximum_entry_bytes policy) es \<and>
      tokens_above (ebp_previous_source_token policy) (map ebe_source_token es) \<and>
      length es \<le> length storage \<and> storage' = es @ drop (length es) storage"
    unfolding decode_entry_batch_Ok entry_batch_valid_def entries_within_def entries_from_def list_all_iff by auto
  show "case decode_entry_batch_payload f policy storage of (Ok _, _) \<Rightarrow> True | (Err _, after) \<Rightarrow> after = storage"
    using decode_entry_batch_Err by (auto split: prod.split result.split)
qed

end
