(* ===== verification/Owp_Session.thy ===== *)
theory Owp_Session
  imports Owp_Messages
begin

text \<open>
  \<open>session.rs\<close> of crate \<open>ohl-parser-protocol\<close>: the validator both peers feed with every header
  they send and receive, as a record and one state transformer per method; below it the protocol
  as an abstract machine over exchanged messages, the refinement between the two, and what holds
  of every accepted session.
\<close>

text \<open>A session id is a nonzero integer; the constructor is the only way to make one.\<close>

definition session_id_new :: "u64 \<Rightarrow> u64 option" where
  "session_id_new v = (if v = 0 then None else Some v)"

record ProtocolBudgets =
  pb_maximum_messages :: u64
  pb_maximum_payload_bytes :: u64

definition protocol_budgets_new :: "u64 \<Rightarrow> u64 \<Rightarrow> (ProtocolError, ProtocolBudgets) result" where
  "protocol_budgets_new messages payload_bytes =
     (if messages = 0 \<or> messages > MAXIMUM_PROTOCOL_MESSAGES
         \<or> payload_bytes = 0 \<or> payload_bytes > MAXIMUM_CUMULATIVE_PAYLOAD_BYTES
      then Err InvalidBudget
      else Ok \<lparr>pb_maximum_messages = messages, pb_maximum_payload_bytes = payload_bytes\<rparr>)"

definition protocol_budgets_default :: ProtocolBudgets where
  "protocol_budgets_default =
     \<lparr>pb_maximum_messages = MAXIMUM_PROTOCOL_MESSAGES,
      pb_maximum_payload_bytes = MAXIMUM_CUMULATIVE_PAYLOAD_BYTES\<rparr>"

datatype Direction = ParentToWorker | WorkerToParent

datatype SessionState =
    AwaitingHello | AwaitingReady | Idle | Enumerating | Streaming | Cancelling | Cancelled
  | Closed | Failed

record SessionValidator =
  sv_session_id :: u64
  sv_budgets :: ProtocolBudgets
  sv_state :: SessionState
  sv_error :: "ProtocolError option"
  sv_active_request_id :: u64
  sv_last_request_id :: u64
  sv_completed_request_id :: u64
  sv_late_read_reply_request_id :: u64
  sv_message_count :: u64
  sv_payload_bytes :: u64
  sv_active_result_type :: MessageType
  sv_read_in_flight :: bool
  sv_accept_late_cancel :: bool
  sv_crossed_read_request_seen :: bool

type_synonym session_op = "(SessionValidator, ProtocolError, unit) stm"

definition session_validator_new :: "u64 \<Rightarrow> ProtocolBudgets \<Rightarrow> SessionValidator" where
  "session_validator_new session_id budgets =
     \<lparr>sv_session_id = session_id, sv_budgets = budgets, sv_state = AwaitingHello, sv_error = None,
      sv_active_request_id = 0, sv_last_request_id = 0, sv_completed_request_id = 0,
      sv_late_read_reply_request_id = 0, sv_message_count = 0, sv_payload_bytes = 0,
      sv_active_result_type = Complete, sv_read_in_flight = False, sv_accept_late_cancel = False,
      sv_crossed_read_request_seen = False\<rparr>"

definition sv_fail :: "ProtocolError \<Rightarrow> session_op" where
  "sv_fail e v =
     (Err e, v\<lparr>sv_late_read_reply_request_id := 0, sv_error := Some e, sv_state := Failed\<rparr>)"

definition sv_charge :: "FrameHeader \<Rightarrow> session_op" where
  "sv_charge h v =
     (if sv_message_count v \<ge> pb_maximum_messages (sv_budgets v)
      then sv_fail MessageBudgetExceeded v
      else
        let v = v\<lparr>sv_message_count := sv_message_count v + 1\<rparr> in
        if ucast (fh_payload_length h) > pb_maximum_payload_bytes (sv_budgets v) - sv_payload_bytes v
        then sv_fail ByteBudgetExceeded v
        else (Ok (), v\<lparr>sv_payload_bytes := sv_payload_bytes v + ucast (fh_payload_length h)\<rparr>))"

definition sv_begin_request :: "FrameHeader \<Rightarrow> SessionState \<Rightarrow> session_op" where
  "sv_begin_request h st v =
     (if fh_request_id h \<le> sv_last_request_id v then sv_fail RequestIdNotMonotonic v
      else (Ok (), v\<lparr>sv_last_request_id := fh_request_id h,
                    sv_active_request_id := fh_request_id h,
                    sv_completed_request_id := 0,
                    sv_late_read_reply_request_id := 0,
                    sv_accept_late_cancel := False,
                    sv_read_in_flight := False,
                    sv_crossed_read_request_seen := False,
                    sv_active_result_type := (if st = Enumerating then EntryBatch else DataChunk),
                    sv_state := st\<rparr>))"

definition sv_complete_request :: "bool \<Rightarrow> SessionValidator \<Rightarrow> SessionValidator" where
  "sv_complete_request accept_late_cancel v =
     v\<lparr>sv_completed_request_id := sv_active_request_id v,
       sv_active_request_id := 0,
       sv_late_read_reply_request_id := 0,
       sv_read_in_flight := False,
       sv_crossed_read_request_seen := False,
       sv_accept_late_cancel := accept_late_cancel,
       sv_state := Idle\<rparr>"

definition observe_active :: "Direction \<Rightarrow> FrameHeader \<Rightarrow> MessageType \<Rightarrow> session_op" where
  "observe_active direction h result_type v =
     (let kind = fh_message_type h in
      if kind = Enumerate \<or> kind = StreamEntry then sv_fail RequestAlreadyActive v
      else if fh_request_id h = 0 then sv_fail UnexpectedMessage v
      else if fh_request_id h \<noteq> sv_active_request_id v then sv_fail WrongRequestId v
      else if kind = ReadRequest \<and> direction = WorkerToParent then
        (if sv_read_in_flight v then sv_fail ReadAlreadyActive v
         else (Ok (), v\<lparr>sv_read_in_flight := True\<rparr>))
      else if kind = ReadReply \<and> direction = ParentToWorker then
        (if \<not> sv_read_in_flight v then sv_fail NoReadInFlight v
         else (Ok (), v\<lparr>sv_read_in_flight := False\<rparr>))
      else if direction = WorkerToParent \<and> kind = result_type then
        (if sv_read_in_flight v then sv_fail UnexpectedMessage v else (Ok (), v))
      else if kind = Complete \<and> direction = WorkerToParent then
        (if sv_read_in_flight v then sv_fail UnexpectedMessage v
         else (Ok (), sv_complete_request True v))
      else if kind = Cancel \<and> direction = ParentToWorker then
        (Ok (), v\<lparr>sv_crossed_read_request_seen := False, sv_state := Cancelling\<rparr>)
      else sv_fail UnexpectedMessage v)"

definition observe_idle :: "Direction \<Rightarrow> FrameHeader \<Rightarrow> session_op" where
  "observe_idle direction h v =
     (if direction \<noteq> ParentToWorker then sv_fail UnexpectedMessage v
      else case fh_message_type h of
        Enumerate \<Rightarrow> sv_begin_request h Enumerating v
      | StreamEntry \<Rightarrow> sv_begin_request h Streaming v
      | Shutdown \<Rightarrow> (Ok (), v\<lparr>sv_state := Closed\<rparr>)
      | Cancel \<Rightarrow>
          if sv_accept_late_cancel v then
            (if fh_request_id h \<noteq> sv_completed_request_id v then sv_fail WrongRequestId v
             else (Ok (), v\<lparr>sv_accept_late_cancel := False\<rparr>))
          else sv_fail UnexpectedMessage v
      | _ \<Rightarrow> sv_fail UnexpectedMessage v)"

definition observe_cancelling :: "Direction \<Rightarrow> FrameHeader \<Rightarrow> session_op" where
  "observe_cancelling direction h v =
     (let kind = fh_message_type h; result_type = sv_active_result_type v in
      if fh_request_id h \<noteq> sv_active_request_id v then sv_fail WrongRequestId v
      else if kind = CancelAck \<and> direction = WorkerToParent then
        (Ok (), v\<lparr>sv_late_read_reply_request_id :=
                     (if sv_read_in_flight v then sv_active_request_id v else 0),
                   sv_active_request_id := 0,
                   sv_read_in_flight := False,
                   sv_crossed_read_request_seen := False,
                   sv_state := Cancelled\<rparr>)
      else if kind = Complete \<and> direction = WorkerToParent then
        (if sv_read_in_flight v \<or> sv_crossed_read_request_seen v then sv_fail UnexpectedMessage v
         else (Ok (), sv_complete_request False v))
      else if kind = ReadRequest \<and> direction = WorkerToParent then
        (if sv_read_in_flight v \<or> sv_crossed_read_request_seen v then sv_fail ReadAlreadyActive v
         else (Ok (), v\<lparr>sv_crossed_read_request_seen := True\<rparr>))
      else if kind = ReadReply \<and> direction = ParentToWorker then
        (if \<not> sv_read_in_flight v then sv_fail NoReadInFlight v
         else (Ok (), v\<lparr>sv_read_in_flight := False\<rparr>))
      else if direction = WorkerToParent \<and> kind = result_type then
        (if sv_read_in_flight v \<or> sv_crossed_read_request_seen v then sv_fail UnexpectedMessage v
         else (Ok (), v))
      else sv_fail UnexpectedMessage v)"

definition observe_cancelled :: "Direction \<Rightarrow> FrameHeader \<Rightarrow> session_op" where
  "observe_cancelled direction h v =
     (if direction = ParentToWorker \<and> fh_message_type h = Shutdown then
        (Ok (), v\<lparr>sv_late_read_reply_request_id := 0, sv_state := Closed\<rparr>)
      else if direction = ParentToWorker \<and> fh_message_type h = ReadReply
              \<and> sv_late_read_reply_request_id v \<noteq> 0 then
        (if fh_request_id h \<noteq> sv_late_read_reply_request_id v then sv_fail WrongRequestId v
         else (Ok (), v\<lparr>sv_late_read_reply_request_id := 0\<rparr>))
      else sv_fail TerminalState v)"

definition observe_state :: "Direction \<Rightarrow> FrameHeader \<Rightarrow> session_op" where
  "observe_state direction h v =
     (case sv_state v of
        AwaitingHello \<Rightarrow>
          if direction \<noteq> ParentToWorker \<or> fh_message_type h \<noteq> Hello then sv_fail UnexpectedMessage v
          else (Ok (), v\<lparr>sv_state := AwaitingReady\<rparr>)
      | AwaitingReady \<Rightarrow>
          if direction \<noteq> WorkerToParent \<or> fh_message_type h \<noteq> Ready then sv_fail UnexpectedMessage v
          else (Ok (), v\<lparr>sv_state := Idle\<rparr>)
      | Idle \<Rightarrow> observe_idle direction h v
      | Enumerating \<Rightarrow> observe_active direction h EntryBatch v
      | Streaming \<Rightarrow> observe_active direction h DataChunk v
      | Cancelling \<Rightarrow> observe_cancelling direction h v
      | Cancelled \<Rightarrow> observe_cancelled direction h v
      | Closed \<Rightarrow> sv_fail TerminalState v
      | Failed \<Rightarrow> sv_fail TerminalState v)"

definition observe :: "Direction \<Rightarrow> FrameHeader \<Rightarrow> session_op" where
  "observe direction h v =
     (case sv_error v of
        Some e \<Rightarrow> (Err e, v)
      | None \<Rightarrow>
          if sv_state v = Closed then sv_fail TerminalState v
          else case frame_header_validate h of
            Err e \<Rightarrow> sv_fail e v
          | Ok _ \<Rightarrow>
              if fh_session_id h \<noteq> sv_session_id v then sv_fail WrongSessionId v
              else st_bind (sv_charge h) (\<lambda>_. observe_state direction h) v)"

text \<open>A peer's whole view of a session: the frames it observed until the first violation.\<close>

fun observe_seq :: "(Direction \<times> FrameHeader) list \<Rightarrow> session_op" where
  "observe_seq [] = st_return ()"
| "observe_seq ((d, h) # tr) = st_bind (observe d h) (\<lambda>_. observe_seq tr)"


section \<open>The protocol as an abstract machine\<close>

text \<open>
  What a well-behaved session looks like, without budgets, ids of sessions or error codes: the
  handshake, one request at a time with increasing ids, one read at a time, and the three ways a
  cancellation can cross the traffic in flight.

  \<^item> \<open>Resting high stale\<close>: no request is open, \<open>high\<close> is the highest id used, and \<open>stale\<close> is the
    completed request one late cancel of which may still arrive;
  \<^item> \<open>Busy op rid reading\<close>: request \<open>rid\<close> is open, \<open>reading\<close> says whether a source read is
    outstanding;
  \<^item> \<open>Withdrawing op rid reading crossed\<close>: the parent cancelled \<open>rid\<close>; \<open>reading\<close> is a read that was
    outstanding at that moment, \<open>crossed\<close> a read request seen only afterwards;
  \<^item> \<open>Drained late\<close>: the cancellation was acknowledged; \<open>late\<close> is the request whose reply may
    still be in the transport.
\<close>

datatype ProtocolView =
    Fresh
  | Greeted
  | Resting u64 "u64 option"
  | Busy OperationPhase u64 bool
  | Withdrawing OperationPhase u64 bool bool
  | Drained "u64 option"
  | Over
  | Broken

type_synonym label = "Direction \<times> MessageType \<times> u64"

fun request_kind :: "OperationPhase \<Rightarrow> MessageType" where
  "request_kind OpEnumerate = Enumerate"
| "request_kind OpStream = StreamEntry"

fun result_kind :: "OperationPhase \<Rightarrow> MessageType" where
  "result_kind OpEnumerate = EntryBatch"
| "result_kind OpStream = DataChunk"

inductive exchange :: "ProtocolView \<Rightarrow> label \<Rightarrow> ProtocolView \<Rightarrow> bool" where
  hello: "exchange Fresh (ParentToWorker, Hello, rid) Greeted"
| ready: "exchange Greeted (WorkerToParent, Ready, rid) (Resting 0 None)"
| start: "high < rid \<Longrightarrow>
    exchange (Resting high stale) (ParentToWorker, request_kind op, rid) (Busy op rid False)"
| stale_cancel: "exchange (Resting high (Some rid)) (ParentToWorker, Cancel, rid) (Resting high None)"
| shutdown: "exchange (Resting high stale) (ParentToWorker, Shutdown, rid) Over"
| read_request: "exchange (Busy op rid False) (WorkerToParent, ReadRequest, rid) (Busy op rid True)"
| read_reply: "exchange (Busy op rid True) (ParentToWorker, ReadReply, rid) (Busy op rid False)"
| result: "exchange (Busy op rid False) (WorkerToParent, result_kind op, rid) (Busy op rid False)"
| complete: "exchange (Busy op rid False) (WorkerToParent, Complete, rid) (Resting rid (Some rid))"
| cancel: "exchange (Busy op rid reading) (ParentToWorker, Cancel, rid) (Withdrawing op rid reading False)"
| crossing_read: "exchange (Withdrawing op rid False False) (WorkerToParent, ReadRequest, rid)
    (Withdrawing op rid False True)"
| crossing_reply: "exchange (Withdrawing op rid True crossed) (ParentToWorker, ReadReply, rid)
    (Withdrawing op rid False crossed)"
| crossing_result: "exchange (Withdrawing op rid False False) (WorkerToParent, result_kind op, rid)
    (Withdrawing op rid False False)"
| crossing_complete: "exchange (Withdrawing op rid False False) (WorkerToParent, Complete, rid)
    (Resting rid None)"
| cancel_ack: "exchange (Withdrawing op rid reading crossed) (WorkerToParent, CancelAck, rid)
    (Drained (if reading then Some rid else None))"
| late_reply: "exchange (Drained (Some rid)) (ParentToWorker, ReadReply, rid) (Drained None)"
| final_shutdown: "exchange (Drained late) (ParentToWorker, Shutdown, rid) Over"

inductive session_trace :: "label list \<Rightarrow> ProtocolView \<Rightarrow> bool" where
  start: "session_trace [] Fresh"
| step: "session_trace tr w \<Longrightarrow> exchange w l w' \<Longrightarrow> session_trace (tr @ [l]) w'"

inductive_cases exchangeE: "exchange w l w'"

inductive_simps exchange_simps:
  "exchange Fresh l w" "exchange Greeted l w" "exchange (Resting high stale) l w"
  "exchange (Busy op rid reading) l w" "exchange (Withdrawing op rid reading crossed) l w"
  "exchange (Drained late) l w" "exchange Over l w" "exchange Broken l w"


section \<open>The refinement\<close>

text \<open>The abstract view of a validator, and its representation invariant.\<close>

definition op_of_result :: "MessageType \<Rightarrow> OperationPhase" where
  "op_of_result k = (if k = EntryBatch then OpEnumerate else OpStream)"

definition sv_view :: "SessionValidator \<Rightarrow> ProtocolView" where
  "sv_view v =
     (case sv_state v of
        AwaitingHello \<Rightarrow> Fresh
      | AwaitingReady \<Rightarrow> Greeted
      | Idle \<Rightarrow> Resting (sv_last_request_id v)
                 (if sv_accept_late_cancel v then Some (sv_completed_request_id v) else None)
      | Enumerating \<Rightarrow> Busy OpEnumerate (sv_active_request_id v) (sv_read_in_flight v)
      | Streaming \<Rightarrow> Busy OpStream (sv_active_request_id v) (sv_read_in_flight v)
      | Cancelling \<Rightarrow> Withdrawing (op_of_result (sv_active_result_type v)) (sv_active_request_id v)
                       (sv_read_in_flight v) (sv_crossed_read_request_seen v)
      | Cancelled \<Rightarrow> Drained (if sv_late_read_reply_request_id v = 0 then None
                              else Some (sv_late_read_reply_request_id v))
      | Closed \<Rightarrow> Over
      | Failed \<Rightarrow> Broken)"

definition budget_inv :: "SessionValidator \<Rightarrow> bool" where
  "budget_inv v \<longleftrightarrow> sv_message_count v \<le> pb_maximum_messages (sv_budgets v) \<and>
     sv_payload_bytes v \<le> pb_maximum_payload_bytes (sv_budgets v)"

fun view_inv :: "SessionValidator \<Rightarrow> SessionState \<Rightarrow> bool" where
  "view_inv v AwaitingHello \<longleftrightarrow> sv_last_request_id v = 0 \<and> sv_active_request_id v = 0 \<and>
     \<not> sv_accept_late_cancel v"
| "view_inv v AwaitingReady \<longleftrightarrow> sv_last_request_id v = 0 \<and> sv_active_request_id v = 0 \<and>
     \<not> sv_accept_late_cancel v"
| "view_inv v Idle \<longleftrightarrow> sv_active_request_id v = 0 \<and>
     (sv_accept_late_cancel v \<longrightarrow> sv_completed_request_id v = sv_last_request_id v)"
| "view_inv v Enumerating \<longleftrightarrow> sv_active_request_id v = sv_last_request_id v \<and>
     sv_active_request_id v \<noteq> 0 \<and> sv_active_result_type v = EntryBatch"
| "view_inv v Streaming \<longleftrightarrow> sv_active_request_id v = sv_last_request_id v \<and>
     sv_active_request_id v \<noteq> 0 \<and> sv_active_result_type v = DataChunk"
| "view_inv v Cancelling \<longleftrightarrow> sv_active_request_id v = sv_last_request_id v \<and>
     sv_active_request_id v \<noteq> 0 \<and> sv_active_result_type v \<in> {EntryBatch, DataChunk} \<and>
     \<not> (sv_read_in_flight v \<and> sv_crossed_read_request_seen v)"
| "view_inv v Cancelled \<longleftrightarrow> sv_active_request_id v = 0"
| "view_inv v Closed \<longleftrightarrow> sv_late_read_reply_request_id v = 0"
| "view_inv v Failed \<longleftrightarrow> sv_late_read_reply_request_id v = 0"

definition sv_inv :: "SessionValidator \<Rightarrow> bool" where
  "sv_inv v \<longleftrightarrow> budget_inv v \<and> (sv_error v = None \<longleftrightarrow> sv_state v \<noteq> Failed) \<and>
     (sv_late_read_reply_request_id v = 0 \<or> sv_state v = Cancelled) \<and> view_inv v (sv_state v)"

text \<open>A frame the transport rules admit, whatever the conversation: valid, of this session, within budget.\<close>

definition admissible :: "SessionValidator \<Rightarrow> FrameHeader \<Rightarrow> bool" where
  "admissible v h \<longleftrightarrow> frame_header_validate h = Ok () \<and> fh_session_id h = sv_session_id v \<and>
     sv_message_count v < pb_maximum_messages (sv_budgets v) \<and>
     unat (sv_payload_bytes v) + unat (fh_payload_length h) \<le> unat (pb_maximum_payload_bytes (sv_budgets v))"

definition label_of :: "Direction \<times> FrameHeader \<Rightarrow> label" where
  "label_of x = (case x of (d, h) \<Rightarrow> (d, fh_message_type h, fh_request_id h))"

definition charged :: "FrameHeader \<Rightarrow> SessionValidator \<Rightarrow> SessionValidator" where
  "charged h v = v\<lparr>sv_message_count := sv_message_count v + 1,
     sv_payload_bytes := sv_payload_bytes v + ucast (fh_payload_length h)\<rparr>"

lemma sv_charge_eq:
  assumes "budget_inv v"
  shows "sv_charge h v =
    (if sv_message_count v \<ge> pb_maximum_messages (sv_budgets v) then sv_fail MessageBudgetExceeded v
     else if unat (sv_payload_bytes v) + unat (fh_payload_length h) \<le> unat (pb_maximum_payload_bytes (sv_budgets v))
     then (Ok (), charged h v)
     else sv_fail ByteBudgetExceeded (v\<lparr>sv_message_count := sv_message_count v + 1\<rparr>))"
  using assms
  by (auto simp: sv_charge_def budget_inv_def charged_def word_less_nat_alt word_le_nat_alt unat_diff_le
      unat_ucast_widen Let_def)

lemma charged_counts:
  assumes "budget_inv v" and "admissible v h"
  shows "unat (sv_message_count (charged h v)) = unat (sv_message_count v) + 1 \<and>
    unat (sv_payload_bytes (charged h v)) = unat (sv_payload_bytes v) + unat (fh_payload_length h) \<and>
    budget_inv (charged h v)"
proof -
  have "unat (sv_message_count v) + unat (1 :: u64) \<le> unat (pb_maximum_messages (sv_budgets v))"
    using assms(2) by (simp add: admissible_def word_less_nat_alt)
  from unat_add_within[OF this]
  have m: "unat (sv_message_count v + 1) = unat (sv_message_count v) + 1" by simp
  have "unat (sv_payload_bytes v) + unat (ucast (fh_payload_length h) :: u64) \<le>
      unat (pb_maximum_payload_bytes (sv_budgets v))"
    using assms(2) by (simp add: admissible_def unat_ucast_widen)
  from unat_add_within[OF this] show ?thesis using m assms
    by (auto simp: charged_def budget_inv_def admissible_def word_le_nat_alt word_less_nat_alt unat_ucast_widen)
qed

lemma observe_eq:
  assumes "budget_inv v" and "sv_error v = None" and "sv_state v \<noteq> Closed"
  shows "if admissible v h then observe d h v = observe_state d h (charged h v)
    else \<exists>e w. observe d h v = sv_fail e w \<and> w\<lparr>sv_message_count := sv_message_count v\<rparr> = v \<and>
      sv_message_count w \<le> pb_maximum_messages (sv_budgets v)"
proof (cases "frame_header_validate h")
  case (Err e)
  then have "observe d h v = sv_fail e v" using assms by (simp add: observe_def)
  then show ?thesis using Err assms by (auto simp: admissible_def budget_inv_def intro!: exI[of _ v])
next
  case (Ok u)
  show ?thesis
  proof (cases "fh_session_id h = sv_session_id v")
    case False
    then have "observe d h v = sv_fail WrongSessionId v" using Ok assms by (simp add: observe_def)
    then show ?thesis using False assms by (auto simp: admissible_def budget_inv_def intro!: exI[of _ v])
  next
    case True
    have inc: "sv_message_count v < pb_maximum_messages (sv_budgets v) \<Longrightarrow>
        sv_message_count v + 1 \<le> pb_maximum_messages (sv_budgets v)"
      by (simp add: inc_le)
    have obs: "observe d h v = st_bind (sv_charge h) (\<lambda>_. observe_state d h) v"
      using True Ok assms by (simp add: observe_def)
    consider (full) "pb_maximum_messages (sv_budgets v) \<le> sv_message_count v"
      | (bytes) "sv_message_count v < pb_maximum_messages (sv_budgets v)"
          "unat (pb_maximum_payload_bytes (sv_budgets v)) < unat (sv_payload_bytes v) + unat (fh_payload_length h)"
      | (ok) "sv_message_count v < pb_maximum_messages (sv_budgets v)"
          "unat (sv_payload_bytes v) + unat (fh_payload_length h) \<le> unat (pb_maximum_payload_bytes (sv_budgets v))"
      by fastforce
    then show ?thesis
    proof cases
      case full
      then have "observe d h v = sv_fail MessageBudgetExceeded v"
        using obs assms by (simp add: st_bind_def sv_charge_eq sv_fail_def)
      with full assms show ?thesis by (auto simp: admissible_def budget_inv_def intro!: exI[of _ v])
    next
      case bytes
      then have "observe d h v = sv_fail ByteBudgetExceeded (v\<lparr>sv_message_count := sv_message_count v + 1\<rparr>)"
        using obs assms by (simp add: st_bind_def sv_charge_eq sv_fail_def)
      with bytes inc show ?thesis
        by (auto simp: admissible_def intro!: exI[of _ ByteBudgetExceeded]
            exI[of _ "v\<lparr>sv_message_count := sv_message_count v + 1\<rparr>"])
    next
      case ok
      then have "sv_charge h v = (Ok (), charged h v)" using assms by (simp add: sv_charge_eq not_le[symmetric])
      with ok obs True Ok show ?thesis by (simp add: admissible_def st_bind_step_Ok)
    qed
  qed
qed


text \<open>
  The step lemma: with the transport rules out of the way, the validator takes a frame exactly
  when the abstract machine has that exchange, lands in the view of its successor, and keeps the
  invariant; otherwise it fails and the machine has no such exchange.
\<close>

definition step_refines :: "label \<Rightarrow> SessionValidator \<Rightarrow> (ProtocolError, unit) result \<times> SessionValidator \<Rightarrow> bool" where
  "step_refines l v r \<longleftrightarrow>
     (case r of
        (Ok _, v') \<Rightarrow> exchange (sv_view v) l (sv_view v') \<and> sv_inv v' \<and>
          sv_message_count v' = sv_message_count v \<and> sv_payload_bytes v' = sv_payload_bytes v \<and>
          sv_session_id v' = sv_session_id v \<and> sv_budgets v' = sv_budgets v
      | (Err e, v') \<Rightarrow> (Err e, v') = sv_fail e v \<and> (\<nexists>w. exchange (sv_view v) l w))"

lemma step_refines_fail [simp]: "step_refines l v (sv_fail e v) \<longleftrightarrow> (\<nexists>w. exchange (sv_view v) l w)"
  by (auto simp: step_refines_def sv_fail_def)

lemma kind_iffs:
  "k = request_kind op \<longleftrightarrow> op = OpEnumerate \<and> k = Enumerate \<or> op = OpStream \<and> k = StreamEntry"
  "k = result_kind op \<longleftrightarrow> op = OpEnumerate \<and> k = EntryBatch \<or> op = OpStream \<and> k = DataChunk"
  by (cases op; simp)+

lemmas session_simps = exchange_simps label_of_def sv_view_def step_refines_def sv_fail_def sv_inv_def
  budget_inv_def kind_iffs op_of_result_def sv_complete_request_def Let_def

lemma observe_idle_refines:
  assumes "sv_inv v" and "sv_state v = Idle" and "frame_header_validate h = Ok ()"
  shows "step_refines (label_of (d, h)) v (observe_idle d h v)"
  using assms
  by (cases "fh_message_type h"; cases d)
    (auto simp: observe_idle_def sv_begin_request_def frame_header_validate_Ok session_simps)

lemma observe_enumerating_refines:
  assumes "sv_inv v" and "sv_state v = Enumerating" and "frame_header_validate h = Ok ()"
  shows "step_refines (label_of (d, h)) v (observe_active d h EntryBatch v)"
  using assms
  by (cases "fh_message_type h"; cases d; cases "sv_read_in_flight v")
    (simp_all add: observe_active_def frame_header_validate_Ok session_simps)

lemma observe_streaming_refines:
  assumes "sv_inv v" and "sv_state v = Streaming" and "frame_header_validate h = Ok ()"
  shows "step_refines (label_of (d, h)) v (observe_active d h DataChunk v)"
  using assms
  by (cases "fh_message_type h"; cases d; cases "sv_read_in_flight v")
    (simp_all add: observe_active_def frame_header_validate_Ok session_simps)

lemma observe_cancelling_refines:
  assumes "sv_inv v" and "sv_state v = Cancelling" and "frame_header_validate h = Ok ()"
  shows "step_refines (label_of (d, h)) v (observe_cancelling d h v)"
  using assms
  by (cases "fh_message_type h"; cases d)
    (auto simp: observe_cancelling_def frame_header_validate_Ok session_simps)

lemma observe_cancelled_refines:
  assumes "sv_inv v" and "sv_state v = Cancelled" and "frame_header_validate h = Ok ()"
  shows "step_refines (label_of (d, h)) v (observe_cancelled d h v)"
  using assms
  by (cases "fh_message_type h"; cases d)
    (auto simp: observe_cancelled_def frame_header_validate_Ok session_simps)

lemma observe_state_refines:
  assumes "sv_inv v" and "sv_error v = None" and "frame_header_validate h = Ok ()" and "sv_state v \<noteq> Closed"
  shows "step_refines (label_of (d, h)) v (observe_state d h v)"
proof (cases "sv_state v")
  case AwaitingHello
  then show ?thesis using assms by (auto simp: observe_state_def session_simps)
next
  case AwaitingReady
  then show ?thesis using assms by (auto simp: observe_state_def session_simps)
qed (use assms observe_idle_refines observe_enumerating_refines
    observe_streaming_refines observe_cancelling_refines
    observe_cancelled_refines in \<open>auto simp: observe_state_def sv_inv_def\<close>)


lemma charged_view [simp]:
  "sv_view (charged h v) = sv_view v" "sv_error (charged h v) = sv_error v"
  "sv_state (charged h v) = sv_state v" "sv_session_id (charged h v) = sv_session_id v"
  "sv_budgets (charged h v) = sv_budgets v"
  by (simp_all add: charged_def sv_view_def cong: SessionState.case_cong)

lemma charged_inv:
  assumes "sv_inv v" and "admissible v h"
  shows "sv_inv (charged h v)"
proof -
  have "view_inv (charged h v) st = view_inv v st" for st
    by (cases st) (simp_all add: charged_def)
  then show ?thesis using assms charged_counts[of v h] by (simp add: sv_inv_def) (simp add: charged_def)
qed

lemma sv_fail_inv:
  assumes "sv_inv v" and "w\<lparr>sv_message_count := sv_message_count v\<rparr> = v"
    and "sv_message_count w \<le> pb_maximum_messages (sv_budgets v)"
  shows "sv_inv (snd (sv_fail e w))"
proof -
  have "sv_budgets w = sv_budgets v" "sv_payload_bytes w = sv_payload_bytes v"
    using assms(2) by (metis SessionValidator.select_convs SessionValidator.surjective
      SessionValidator.update_convs)+
  then show ?thesis using assms(1,3) by (simp add: sv_inv_def sv_fail_def budget_inv_def)
qed

definition same_session :: "SessionValidator \<Rightarrow> SessionValidator \<Rightarrow> bool" where
  "same_session v v' \<longleftrightarrow> sv_session_id v' = sv_session_id v \<and> sv_budgets v' = sv_budgets v"

lemma observe_Ok_refines:
  assumes inv: "sv_inv v" and ok: "observe d h v = (Ok (), v')"
  shows "admissible v h \<and> exchange (sv_view v) (label_of (d, h)) (sv_view v') \<and> sv_inv v' \<and>
    sv_error v' = None \<and> same_session v v' \<and>
    unat (sv_message_count v') = unat (sv_message_count v) + 1 \<and>
    unat (sv_payload_bytes v') = unat (sv_payload_bytes v) + unat (fh_payload_length h)"
proof -
  have live: "sv_error v = None" "sv_state v \<noteq> Closed"
    using ok by (auto simp: observe_def sv_fail_def split: option.splits)
  have b: "budget_inv v" using inv by (simp add: sv_inv_def)
  have adm: "admissible v h" using observe_eq[OF b live, of h d] ok by (auto simp: sv_fail_def split: if_splits)
  then have "observe_state d h (charged h v) = (Ok (), v')" using observe_eq[OF b live, of h d] ok by simp
  moreover have "step_refines (label_of (d, h)) (charged h v) (observe_state d h (charged h v))"
    using adm live by (intro observe_state_refines charged_inv inv) (simp_all add: admissible_def)
  ultimately have "exchange (sv_view v) (label_of (d, h)) (sv_view v') \<and> sv_inv v' \<and> same_session v v' \<and>
      sv_message_count v' = sv_message_count (charged h v) \<and> sv_payload_bytes v' = sv_payload_bytes (charged h v)"
    by (simp add: step_refines_def same_session_def)
  moreover have "sv_view v' \<noteq> Broken" using calculation by (auto elim: exchangeE)
  then have "sv_error v' = None" using calculation by (auto simp: sv_inv_def sv_view_def split: SessionState.splits)
  ultimately show ?thesis using adm charged_counts[OF b adm] by simp
qed

lemma observe_Err_refines:
  assumes inv: "sv_inv v" and err: "observe d h v = (Err e, v')" and none: "sv_error v = None"
  shows "\<not> (admissible v h \<and> (\<exists>w. exchange (sv_view v) (label_of (d, h)) w)) \<and> sv_inv v' \<and>
    sv_error v' = Some e \<and> same_session v v'"
proof (cases "sv_state v = Closed")
  case True
  then have "(Err e, v') = sv_fail TerminalState v" using err none by (simp add: observe_def)
  then show ?thesis using True inv by (auto simp: sv_fail_def sv_inv_def budget_inv_def sv_view_def exchange_simps same_session_def)
next
  case False
  have b: "budget_inv v" using inv by (simp add: sv_inv_def)
  show ?thesis
  proof (cases "admissible v h")
    case True
    then have "observe_state d h (charged h v) = (Err e, v')" using observe_eq[OF b none False, of h d] err by simp
    moreover have "step_refines (label_of (d, h)) (charged h v) (observe_state d h (charged h v))"
      using True none False by (intro observe_state_refines charged_inv inv) (simp_all add: admissible_def)
    ultimately have "(Err e, v') = sv_fail e (charged h v)" "\<nexists>w. exchange (sv_view v) (label_of (d, h)) w"
      by (simp_all add: step_refines_def)
    then show ?thesis using charged_inv[OF inv True]
      by (auto simp: sv_fail_def sv_inv_def budget_inv_def same_session_def)
  next
    case no: False
    then obtain e' w where w: "observe d h v = sv_fail e' w" "w\<lparr>sv_message_count := sv_message_count v\<rparr> = v"
      "sv_message_count w \<le> pb_maximum_messages (sv_budgets v)" using observe_eq[OF b none False, of h d] by auto
    have "sv_inv v'" "sv_error v' = Some e" using sv_fail_inv[OF inv w(2,3), of e'] w(1) err
      by (auto simp: sv_fail_def)
    moreover have "same_session v v'"
      using w(1,2) err by (cases v, cases w) (auto simp: sv_fail_def same_session_def)
    ultimately show ?thesis using no by simp
  qed
qed

text \<open>Every rejection goes through \<open>sv_fail\<close>, so the validator is a sticky machine.\<close>

definition records_failure :: "session_op \<Rightarrow> bool" where
  "records_failure f \<longleftrightarrow>
     (\<forall>v. case f v of (Err e, v') \<Rightarrow> sv_error v' = Some e | (Ok _, v') \<Rightarrow> sv_error v' = sv_error v)"

lemma records_fail: "records_failure (sv_fail e)"
  by (simp add: records_failure_def sv_fail_def)

lemma records_charge: "records_failure (sv_charge h)"
  by (simp add: records_failure_def sv_charge_def sv_fail_def Let_def)

lemma records_idle: "records_failure (observe_idle d h)"
  by (simp add: records_failure_def observe_idle_def sv_begin_request_def sv_fail_def split: MessageType.split)

lemma records_active: "records_failure (observe_active d h k)"
  by (simp add: records_failure_def observe_active_def sv_fail_def sv_complete_request_def Let_def)

lemma records_cancelling: "records_failure (observe_cancelling d h)"
  by (simp add: records_failure_def observe_cancelling_def sv_fail_def sv_complete_request_def Let_def)

lemma records_cancelled: "records_failure (observe_cancelled d h)"
  by (simp add: records_failure_def observe_cancelled_def sv_fail_def)

lemmas records = records_fail records_charge records_idle records_active records_cancelling records_cancelled

lemma records_state: "records_failure (observe_state d h)"
  using records unfolding records_failure_def
  by (simp add: observe_state_def split: SessionState.split)

lemma records_bind:
  "records_failure f \<Longrightarrow> records_failure g \<Longrightarrow> records_failure (st_bind f (\<lambda>_. g))"
  by (auto simp: records_failure_def st_bind_def split: prod.splits result.splits)

interpretation session: sticky_machine "\<lambda>x. observe (fst x) (snd x)" sv_error
proof
  fix x :: "Direction \<times> FrameHeader" and v v' e
  have go: "records_failure (st_bind (sv_charge h) (\<lambda>_. observe_state d h))" for d h
    by (intro records_bind records_charge records_state)
  show "sv_error v = Some e \<Longrightarrow> observe (fst x) (snd x) v = (Err e, v)"
    by (simp add: observe_def)
  show "observe (fst x) (snd x) v = (Err e, v') \<Longrightarrow> sv_error v' = Some e"
    using go[of "snd x" "fst x"] unfolding records_failure_def
    by (auto simp: observe_def sv_fail_def split: option.splits if_splits result.splits dest: spec[of _ v])
  show "observe (fst x) (snd x) v = (Ok u, v') \<Longrightarrow> sv_error v' = None" for u
    using go[of "snd x" "fst x"] unfolding records_failure_def
    by (auto simp: observe_def sv_fail_def split: option.splits if_splits result.splits dest: spec[of _ v])
qed

definition observe_all :: "(Direction \<times> FrameHeader) list \<Rightarrow> SessionValidator \<Rightarrow> SessionValidator" where
  "observe_all tr v = fold (\<lambda>(d, h) v. snd (observe d h v)) tr v"

lemma observe_all_run: "observe_all tr v = session.run tr v"
  by (induction tr arbitrary: v) (auto simp: observe_all_def)

lemma observe_inv:
  assumes "sv_inv v"
  shows "sv_inv (snd (observe d h v)) \<and> same_session v (snd (observe d h v))"
proof (cases "sv_error v")
  case (Some e)
  then show ?thesis using assms by (simp add: observe_def same_session_def)
next
  case None
  obtain r v' where o: "observe d h v = (r, v')" by (cases "observe d h v") auto
  with assms None show ?thesis
    using observe_Ok_refines[of v d h v'] observe_Err_refines[of v d h _ v'] by (cases r) auto
qed

lemma observe_all_inv:
  "sv_inv v \<Longrightarrow> sv_inv (observe_all tr v) \<and> same_session v (observe_all tr v)"
proof (induction tr arbitrary: v)
  case (Cons x tr)
  obtain d h where x: "x = (d, h)" by (cases x)
  from Cons.IH[of "snd (observe d h v)"] observe_inv[OF Cons.prems, of d h] show ?case
    by (auto simp: observe_all_def x same_session_def)
qed (simp add: observe_all_def same_session_def)

lemma session_validator_new_inv [simp]: "sv_inv (session_validator_new sid b)"
  by (simp add: sv_inv_def session_validator_new_def budget_inv_def)

lemma session_validator_new_view [simp]:
  "sv_view (session_validator_new sid b) = Fresh" "sv_error (session_validator_new sid b) = None"
  "sv_message_count (session_validator_new sid b) = 0" "sv_payload_bytes (session_validator_new sid b) = 0"
  "sv_session_id (session_validator_new sid b) = sid" "sv_budgets (session_validator_new sid b) = b"
  by (simp_all add: sv_view_def session_validator_new_def)


section \<open>Accepted sessions\<close>

lemma observe_seq_snoc:
  "observe_seq (tr @ [(d, h)]) v = (Ok (), v') \<longleftrightarrow>
     (\<exists>u. observe_seq tr v = (Ok (), u) \<and> observe d h u = (Ok (), v'))"
proof (induction tr arbitrary: v)
  case Nil
  then show ?case by (auto simp: result_simps)
next
  case (Cons x tr)
  then show ?case by (cases x) (auto simp: result_simps)
qed

lemma exchange_deterministic: "exchange w l x \<Longrightarrow> exchange w l y \<Longrightarrow> x = y"
  by (cases w; cases l) (auto simp: exchange_simps kind_iffs)

lemma session_trace_Nil: "session_trace [] w \<longleftrightarrow> w = Fresh"
  by (auto elim: session_trace.cases intro: session_trace.intros)

lemma session_trace_snoc: "session_trace (tr @ [l]) w \<longleftrightarrow> (\<exists>u. session_trace tr u \<and> exchange u l w)"
  by (auto elim: session_trace.cases intro: session_trace.intros)

lemma session_trace_deterministic: "session_trace tr x \<Longrightarrow> session_trace tr y \<Longrightarrow> x = y"
proof (induction tr arbitrary: x y rule: rev_induct)
  case (snoc l tr)
  then show ?case using exchange_deterministic unfolding session_trace_snoc by blast
qed (simp add: session_trace_Nil)

definition payload_sum :: "(Direction \<times> FrameHeader) list \<Rightarrow> nat" where
  "payload_sum tr = (\<Sum>x\<leftarrow>tr. unat (fh_payload_length (snd x)))"

definition headers_ok :: "u64 \<Rightarrow> (Direction \<times> FrameHeader) list \<Rightarrow> bool" where
  "headers_ok sid tr = list_all (\<lambda>x. frame_header_validate (snd x) = Ok () \<and> fh_session_id (snd x) = sid) tr"

lemma observe_seq_Ok:
  assumes "observe_seq tr (session_validator_new sid b) = (Ok (), v)"
  shows "sv_inv v \<and> sv_error v = None \<and> sv_session_id v = sid \<and> sv_budgets v = b \<and>
    session_trace (map label_of tr) (sv_view v) \<and> headers_ok sid tr \<and>
    unat (sv_message_count v) = length tr \<and> unat (sv_payload_bytes v) = payload_sum tr"
  using assms
proof (induction tr arbitrary: v rule: rev_induct)
  case Nil
  then show ?case by (auto simp: session_trace_Nil payload_sum_def headers_ok_def)
next
  case (snoc x tr)
  obtain d h where x: "x = (d, h)" by (cases x)
  with snoc.prems obtain u where u: "observe_seq tr (session_validator_new sid b) = (Ok (), u)"
    "observe d h u = (Ok (), v)" by (auto simp: observe_seq_snoc)
  from snoc.IH[OF u(1)] have IH: "sv_inv u" "sv_session_id u = sid" "sv_budgets u = b"
    "session_trace (map label_of tr) (sv_view u)" "headers_ok sid tr"
    "unat (sv_message_count u) = length tr" "unat (sv_payload_bytes u) = payload_sum tr" by simp_all
  from observe_Ok_refines[OF IH(1) u(2)] IH show ?case
    by (auto simp: x session_trace_snoc same_session_def payload_sum_def headers_ok_def admissible_def)
qed

lemma observe_seq_complete:
  assumes "session_trace (map label_of tr) w" and "headers_ok sid tr"
    and "length tr \<le> unat (pb_maximum_messages b)" and "payload_sum tr \<le> unat (pb_maximum_payload_bytes b)"
  shows "\<exists>v. observe_seq tr (session_validator_new sid b) = (Ok (), v)"
  using assms
proof (induction tr arbitrary: w rule: rev_induct)
  case (snoc x tr)
  obtain d h where x: "x = (d, h)" by (cases x)
  from snoc.prems(1) obtain w0 where w0: "session_trace (map label_of tr) w0" "exchange w0 (label_of x) w"
    by (auto simp: session_trace_snoc)
  with snoc.IH[OF w0(1)] snoc.prems obtain u where u: "observe_seq tr (session_validator_new sid b) = (Ok (), u)"
    by (auto simp: headers_ok_def payload_sum_def)
  from observe_seq_Ok[OF u] have uf: "sv_inv u" "sv_error u = None" "sv_session_id u = sid" "sv_budgets u = b"
    "sv_view u = w0" "unat (sv_message_count u) = length tr" "unat (sv_payload_bytes u) = payload_sum tr"
    using session_trace_deterministic w0(1) by auto
  have adm: "admissible u h"
    using uf snoc.prems by (simp add: admissible_def headers_ok_def payload_sum_def x word_less_nat_alt)
  obtain r v where o: "observe d h u = (r, v)" by (cases "observe d h u") auto
  have "r = Ok ()" using observe_Err_refines[OF uf(1) _ uf(2), of d h _ v] o adm w0(2) uf(5) x by (cases r) auto
  with o u x show ?case by (auto simp: observe_seq_snoc)
qed simp

text \<open>What is counted along a trace.\<close>

definition begun :: "label list \<Rightarrow> u64 list" where
  "begun tr = map (\<lambda>l. snd (snd l)) (filter (\<lambda>l. fst (snd l) \<in> {Enumerate, StreamEntry}) tr)"

definition occurrences :: "MessageType \<Rightarrow> label list \<Rightarrow> nat" where
  "occurrences k tr = length (filter (\<lambda>l. fst (snd l) = k) tr)"

fun high_id :: "ProtocolView \<Rightarrow> u64 option" where
  "high_id Fresh = Some 0"
| "high_id Greeted = Some 0"
| "high_id (Resting high stale) = Some high"
| "high_id (Busy op rid reading) = Some rid"
| "high_id (Withdrawing op rid reading crossed) = Some rid"
| "high_id _ = None"

fun outstanding :: "ProtocolView \<Rightarrow> nat" where
  "outstanding (Busy op rid reading) = of_bool reading"
| "outstanding (Withdrawing op rid reading crossed) = of_bool reading + of_bool crossed"
| "outstanding _ = 0"

fun open_request :: "ProtocolView \<Rightarrow> bool" where
  "open_request (Busy op rid reading) = True"
| "open_request (Withdrawing op rid reading crossed) = True"
| "open_request _ = False"

fun drain_slot :: "ProtocolView \<Rightarrow> nat" where
  "drain_slot (Drained late) = of_bool (late \<noteq> None)"
| "drain_slot _ = 0"

lemma result_kind_neq [simp]:
  "result_kind op \<noteq> ReadRequest" "result_kind op \<noteq> ReadReply" "result_kind op \<noteq> Complete"
  "result_kind op \<noteq> CancelAck" "result_kind op \<noteq> Enumerate" "result_kind op \<noteq> StreamEntry"
  "request_kind op \<noteq> ReadRequest" "request_kind op \<noteq> ReadReply" "request_kind op \<noteq> Complete"
  "request_kind op \<noteq> CancelAck" "request_kind op = Enumerate \<or> request_kind op = StreamEntry"
  by (cases op; simp)+

lemma begun_snoc: "begun (tr @ [(d, k, rid)]) = begun tr @ (if k \<in> {Enumerate, StreamEntry} then [rid] else [])"
  by (simp add: begun_def)

lemma occurrences_snoc:
  "occurrences j (tr @ [(d, k, rid)]) = occurrences j tr + of_bool (k = j)"
  by (simp add: occurrences_def)

lemma trace_ids:
  assumes "session_trace tr w"
  shows "sorted_wrt (<) (begun tr) \<and> (case high_id w of None \<Rightarrow> True | Some m \<Rightarrow> \<forall>x \<in> set (begun tr). x \<le> m)"
  using assms
proof (induction rule: session_trace.induct)
  case start
  then show ?case by (simp add: begun_def)
next
  case (step tr w l w')
  from step.hyps(2) step.IH show ?case
    by (cases rule: exchange.cases)
      (auto simp: begun_snoc sorted_wrt_append split: if_splits intro: order.strict_trans1 less_imp_le le_less_trans)
qed

lemma trace_reads:
  assumes "session_trace tr w"
  shows "(w \<noteq> Over \<longrightarrow> occurrences ReadReply tr + outstanding w + drain_slot w \<le> occurrences ReadRequest tr) \<and>
    occurrences ReadReply tr \<le> occurrences ReadRequest tr \<and>
    occurrences ReadRequest tr \<le> occurrences ReadReply tr + 1 \<and>
    (case w of Drained late \<Rightarrow> True | Over \<Rightarrow> True
     | _ \<Rightarrow> occurrences ReadRequest tr = occurrences ReadReply tr + outstanding w) \<and>
    (case w of Withdrawing op rid reading crossed \<Rightarrow> \<not> (reading \<and> crossed) | _ \<Rightarrow> True)"
  using assms
proof (induction rule: session_trace.induct)
  case start
  then show ?case by (simp add: occurrences_def)
next
  case (step tr w l w')
  from step.hyps(2) step.IH show ?case
    by (cases rule: exchange.cases) (auto simp: occurrences_snoc)
qed

lemma trace_answers:
  assumes "session_trace tr w"
  shows "occurrences Complete tr + occurrences CancelAck tr + of_bool (open_request w) = length (begun tr)"
  using assms
proof (induction rule: session_trace.induct)
  case start
  then show ?case by (simp add: occurrences_def begun_def)
next
  case (step tr w l w')
  from step.hyps(2) step.IH show ?case
    by (cases rule: exchange.cases) (auto simp: occurrences_snoc begun_snoc)
qed

text \<open>After an acknowledged cancellation only the late reply and the shutdown remain.\<close>

definition drain_tail :: "u64 \<Rightarrow> label list \<Rightarrow> ProtocolView \<Rightarrow> bool" where
  "drain_tail rid post w \<longleftrightarrow>
     post = [] \<and> w \<in> {Drained None, Drained (Some rid)} \<or>
     post = [(ParentToWorker, ReadReply, rid)] \<and> w = Drained None \<or>
     (\<exists>r. post \<in> {[(ParentToWorker, Shutdown, r)],
                    [(ParentToWorker, ReadReply, rid), (ParentToWorker, Shutdown, r)]} \<and> w = Over)"

lemma trace_after_cancel_ack:
  assumes "session_trace tr w" and "tr = pre @ (d, CancelAck, rid) # post"
  shows "drain_tail rid post w"
  using assms
proof (induction arbitrary: post rule: session_trace.induct)
  case start
  then show ?case by simp
next
  case (step tr w l w')
  show ?case
  proof (cases post rule: rev_cases)
    case Nil
    with step.prems have "l = (d, CancelAck, rid)" by simp
    with step.hyps(2) Nil show ?thesis
      by (cases rule: exchange.cases) (auto simp: drain_tail_def kind_iffs)
  next
    case (snoc q m)
    with step.prems have "tr = pre @ (d, CancelAck, rid) # q" and l: "l = m" by simp_all
    then have "drain_tail rid q w" using step.IH by blast
    then show ?thesis using step.hyps(2) snoc l
      by (cases m) (auto simp: drain_tail_def exchange_simps)
  qed
qed


section \<open>Correctness of the session\<close>

text \<open>
  C10: the validator decides the protocol.  It accepts a sequence of frames exactly when their
  messages are a trace of the abstract machine, every header is valid and of this session, and
  the number of frames and their payload bytes, summed without wrap-around, are within the budgets.
\<close>

theorem session_decides_protocol:
  "(\<exists>v. observe_seq tr (session_validator_new sid b) = (Ok (), v)) \<longleftrightarrow>
     (\<exists>w. session_trace (map label_of tr) w) \<and> headers_ok sid tr \<and>
     length tr \<le> unat (pb_maximum_messages b) \<and> payload_sum tr \<le> unat (pb_maximum_payload_bytes b)"
proof
  assume "\<exists>v. observe_seq tr (session_validator_new sid b) = (Ok (), v)"
  then obtain v where v: "observe_seq tr (session_validator_new sid b) = (Ok (), v)" by blast
  note ok = observe_seq_Ok[OF v]
  then have "budget_inv v" by (simp add: sv_inv_def)
  with ok show "(\<exists>w. session_trace (map label_of tr) w) \<and> headers_ok sid tr \<and>
     length tr \<le> unat (pb_maximum_messages b) \<and> payload_sum tr \<le> unat (pb_maximum_payload_bytes b)"
    by (auto simp: budget_inv_def word_le_nat_alt)
qed (use observe_seq_complete in blast)

lemma observe_all_snoc: "observe_all (tr @ [(d, h)]) v = snd (observe d h (observe_all tr v))"
  by (simp add: observe_all_def)

lemma observe_all_live:
  "sv_error (observe_all tr (session_validator_new sid b)) = None \<Longrightarrow>
     observe_seq tr (session_validator_new sid b) = (Ok (), observe_all tr (session_validator_new sid b))"
proof (induction tr rule: rev_induct)
  case (snoc x tr)
  obtain d h where x: "x = (d, h)" by (cases x)
  let ?v = "observe_all tr (session_validator_new sid b)"
  obtain r w where o: "observe d h ?v = (r, w)" by fastforce
  have w: "sv_error w = None" using snoc.prems o by (simp add: x observe_all_snoc)
  have "sv_error ?v = None" using o w session.run_failed[of ?v _ "[(d, h)]"] by (cases "sv_error ?v") (auto simp: observe_def)
  moreover have "r = Ok ()" using o w session.retains[of "(d, h)" ?v] by (cases r) auto
  ultimately show ?case using snoc.IH o by (simp add: x observe_all_snoc observe_seq_snoc)
qed (simp add: observe_all_def)

text \<open>
  C11: failure is final and the budgets hold on every path.  After any sequence of observed frames the
  session id and the budgets are the ones the session was made with and both counters are within the
  budgets; without a failure the counters are exactly the number of frames and the exact sum of their
  payload lengths, after one every observation reports the same error and changes nothing.  An
  observation that reports an error leaves the session failed with that error, for good.
\<close>

theorem session_fails_closed:
  "let v = observe_all tr (session_validator_new sid b) in
     sv_session_id v = sid \<and> sv_budgets v = b \<and>
     unat (sv_message_count v) \<le> unat (pb_maximum_messages b) \<and>
     unat (sv_payload_bytes v) \<le> unat (pb_maximum_payload_bytes b) \<and>
     (case sv_error v of
        None \<Rightarrow> unat (sv_message_count v) = length tr \<and> unat (sv_payload_bytes v) = payload_sum tr \<and> sv_state v \<noteq> Failed
      | Some e \<Rightarrow> sv_state v = Failed \<and> observe d h v = (Err e, v)) \<and>
     (case observe d h v of
        (Ok _, w) \<Rightarrow> sv_error w = None
      | (Err e, w) \<Rightarrow> sv_error w = Some e \<and> sv_state w = Failed \<and> observe d' h' w = (Err e, w) \<and> observe_all tr' w = w)"
proof -
  let ?v = "observe_all tr (session_validator_new sid b)"
  have inv: "sv_inv ?v" "sv_session_id ?v = sid" "sv_budgets ?v = b"
    using observe_all_inv[OF session_validator_new_inv, of tr sid b] by (auto simp: same_session_def session_validator_new_def)
  then have budget: "unat (sv_message_count ?v) \<le> unat (pb_maximum_messages b)"
      "unat (sv_payload_bytes ?v) \<le> unat (pb_maximum_payload_bytes b)"
    by (auto simp: sv_inv_def budget_inv_def word_le_nat_alt)
  have now: "case sv_error ?v of
        None \<Rightarrow> unat (sv_message_count ?v) = length tr \<and> unat (sv_payload_bytes ?v) = payload_sum tr \<and> sv_state ?v \<noteq> Failed
      | Some e \<Rightarrow> sv_state ?v = Failed \<and> observe d h ?v = (Err e, ?v)"
    using inv(1) observe_seq_Ok[OF observe_all_live, of tr sid b]
    by (auto simp: sv_inv_def observe_def split: option.split)
  obtain r w where o: "observe d h ?v = (r, w)" by fastforce
  have w: "sv_inv w" using observe_inv[OF inv(1), of d h] o by simp
  have after: "case observe d h ?v of
        (Ok _, w) \<Rightarrow> sv_error w = None
      | (Err e, w) \<Rightarrow> sv_error w = Some e \<and> sv_state w = Failed \<and> observe d' h' w = (Err e, w) \<and> observe_all tr' w = w"
  proof (cases r)
    case (Ok u)
    then have "sv_error ?v = None" using o by (cases "sv_error ?v") (auto simp: observe_def)
    then show ?thesis using observe_Ok_refines[OF inv(1), of d h w] o Ok by simp
  next
    case (Err e)
    have f: "sv_error w = Some e" using session.retains[of "(d, h)" ?v] o Err by simp
    then show ?thesis using o Err w session.run_failed[OF f, of tr'] session.sticky[OF f, of "(d', h')"]
      by (auto simp: observe_all_run sv_inv_def)
  qed
  show ?thesis unfolding Let_def using inv budget now after by blast
qed

text \<open>
  In every accepted session the ids of the top-level requests are strictly increasing, every
  request is answered at most once by \<open>complete\<close> or \<open>cancel_ack\<close> and at most one is open, and at
  any moment at most one read request is unanswered while no reply is ever unsolicited.
\<close>

theorem session_request_discipline:
  assumes "observe_seq tr (session_validator_new sid b) = (Ok (), v)"
  shows "let ls = map label_of tr in
    sorted_wrt (<) (begun ls) \<and>
    occurrences Complete ls + occurrences CancelAck ls + of_bool (open_request (sv_view v)) = length (begun ls) \<and>
    occurrences ReadReply ls \<le> occurrences ReadRequest ls \<and>
    occurrences ReadRequest ls \<le> occurrences ReadReply ls + 1"
proof -
  have "session_trace (map label_of tr) (sv_view v)" using observe_seq_Ok[OF assms] by simp
  from trace_ids[OF this] trace_answers[OF this] trace_reads[OF this] show ?thesis by (simp add: Let_def)
qed

text \<open>A session that is cancelled while a read is outstanding, used to exercise the theorems.\<close>

definition cancelled_session :: "(Direction \<times> FrameHeader) list" where
  "cancelled_session =
     [(ParentToWorker, frame_header_new Hello 7 0 12), (WorkerToParent, frame_header_new Ready 7 0 0),
      (ParentToWorker, frame_header_new Enumerate 7 3 0),
      (WorkerToParent, frame_header_new ReadRequest 7 3 16),
      (ParentToWorker, frame_header_new Cancel 7 3 0), (WorkerToParent, frame_header_new CancelAck 7 3 0),
      (ParentToWorker, frame_header_new ReadReply 7 3 38), (ParentToWorker, frame_header_new Shutdown 7 0 0)]"

lemma cancelled_session_accepted:
  "observe_seq cancelled_session (session_validator_new 7 protocol_budgets_default) =
     (Ok (), snd (observe_seq cancelled_session (session_validator_new 7 protocol_budgets_default)))"
  by code_simp

theorem session_request_discipline_witness:
  "begun (map label_of cancelled_session) = [3] \<and>
   occurrences ReadReply (map label_of cancelled_session) \<le> occurrences ReadRequest (map label_of cancelled_session)"
  using session_request_discipline[OF cancelled_session_accepted]
  by (simp add: Let_def) (simp add: cancelled_session_def begun_def label_of_def frame_header_new_def)

text \<open>
  The cancellation race.  Once a \<open>cancel_ack\<close> was accepted, the session admits at most one late
  read reply, for the same request, and then at most a shutdown; nothing else, and no new request,
  ever.
\<close>

theorem session_cancel_ack_final:
  assumes "observe_seq (pre @ (d, h) # post) (session_validator_new sid b) = (Ok (), v)"
    and "fh_message_type h = CancelAck"
  shows "drain_tail (fh_request_id h) (map label_of post) (sv_view v)"
proof -
  have "session_trace (map label_of (pre @ (d, h) # post)) (sv_view v)" using observe_seq_Ok[OF assms(1)] by simp
  moreover have "map label_of (pre @ (d, h) # post) =
      map label_of pre @ (d, CancelAck, fh_request_id h) # map label_of post"
    using assms(2) by (simp add: label_of_def)
  ultimately show ?thesis by (rule trace_after_cancel_ack)
qed

theorem session_cancel_ack_final_witness:
  "cancelled_session = take 5 cancelled_session @
     (WorkerToParent, frame_header_new CancelAck 7 3 0) # drop 6 cancelled_session \<and>
   drain_tail 3 [(ParentToWorker, ReadReply, 3), (ParentToWorker, Shutdown, 0)]
     (sv_view (snd (observe_seq cancelled_session (session_validator_new 7 protocol_budgets_default))))"
proof -
  have split: "cancelled_session = take 5 cancelled_session @
     (WorkerToParent, frame_header_new CancelAck 7 3 0) # drop 6 cancelled_session"
    by (simp add: cancelled_session_def)
  have k: "fh_message_type (frame_header_new CancelAck 7 3 0) = CancelAck" by (simp add: frame_header_new_def)
  have acc: "observe_seq (take 5 cancelled_session @
     (WorkerToParent, frame_header_new CancelAck 7 3 0) # drop 6 cancelled_session)
      (session_validator_new 7 protocol_budgets_default) =
     (Ok (), snd (observe_seq cancelled_session (session_validator_new 7 protocol_budgets_default)))"
    using cancelled_session_accepted split by simp
  show ?thesis using split session_cancel_ack_final[OF acc k]
    by (simp add: cancelled_session_def label_of_def frame_header_new_def)
qed

end
