(* ===== verification/Media_Paths.thy ===== *)
theory Media_Paths
  imports Ohl_Core
begin

text \<open>
  \<open>path.rs\<close> of crate \<open>ohl-media-archive\<close>: the path rules every media reader and the import share.
  A string is its UTF-8 bytes; both separators are ASCII, so splitting at their bytes is splitting
  at the characters.
\<close>

definition MAX_PATH_BYTES :: nat where "MAX_PATH_BYTES = 4096"

definition SLASH :: u8 where "SLASH = 0x2F"
definition BACKSLASH :: u8 where "BACKSLASH = 0x5C"
definition DOT :: u8 where "DOT = 0x2E"

text \<open>\<open>str::split\<close> at every byte of a class: always at least one component.\<close>

fun split_on :: "(u8 \<Rightarrow> bool) \<Rightarrow> bytes \<Rightarrow> bytes list" where
  "split_on P [] = [[]]"
| "split_on P (b # bs) =
     (if P b then [] # split_on P bs else (b # hd (split_on P bs)) # tl (split_on P bs))"

definition is_separator :: "u8 \<Rightarrow> bool" where
  "is_separator b \<longleftrightarrow> b = SLASH \<or> b = BACKSLASH"

fun push_components :: "bytes \<Rightarrow> bytes list \<Rightarrow> bytes option" where
  "push_components normalized [] = Some normalized"
| "push_components normalized (c # cs) =
     (if c = [] then push_components normalized cs
      else if c = [DOT] \<or> c = [DOT, DOT] then None
      else push_components ((if length normalized > 1 then normalized @ [SLASH] else normalized) @ c) cs)"

definition normalize_path :: "bytes \<Rightarrow> bytes option" where
  "normalize_path path =
     (if length path > MAX_PATH_BYTES \<or> 0 \<in> set path then None
      else push_components [SLASH] (split_on is_separator path))"

definition is_single_path_component :: "bytes \<Rightarrow> bool" where
  "is_single_path_component name \<longleftrightarrow>
     name \<noteq> [] \<and> length name \<le> MAX_PATH_BYTES \<and> name \<noteq> [DOT] \<and> name \<noteq> [DOT, DOT] \<and>
     0 \<notin> set name \<and> SLASH \<notin> set name \<and> BACKSLASH \<notin> set name"

definition components :: "bytes \<Rightarrow> bytes list" where
  "components normalized = filter (\<lambda>part. part \<noteq> []) (split_on (\<lambda>b. b = SLASH) normalized)"


section \<open>Splitting and joining\<close>

lemma split_on_not_Nil [simp]: "split_on P bs \<noteq> []"
  by (cases bs) auto

lemma split_on_plain: "(\<forall>b \<in> set c. \<not> P b) \<Longrightarrow> split_on P c = [c]"
  by (induction c) auto

lemma split_on_at: "(\<forall>b \<in> set c. \<not> P b) \<Longrightarrow> P s \<Longrightarrow> split_on P (c @ s # rest) = c # split_on P rest"
  by (induction c) auto

lemma split_on_bytes: "c \<in> set (split_on P bs) \<Longrightarrow> set c \<subseteq> set bs \<and> (\<forall>b \<in> set c. \<not> P b)"
proof (induction bs arbitrary: c)
  case (Cons b bs)
  obtain d ds where split: "split_on P bs = d # ds" using split_on_not_Nil by (metis list.exhaust)
  then have d: "set d \<subseteq> set bs \<and> (\<forall>b \<in> set d. \<not> P b)" using Cons.IH[of d] by simp
  show ?case
  proof (cases "c \<in> set (split_on P bs)")
    case True
    then show ?thesis using Cons.IH by auto
  next
    case False
    with Cons.prems split have "c = [] \<or> \<not> P b \<and> c = b # d" by (auto split: if_splits)
    with d show ?thesis by auto
  qed
qed simp

lemma split_on_length: "length (concat (map (\<lambda>c. s # c) (split_on P bs))) = Suc (length bs)"
proof (induction bs)
  case (Cons b bs)
  obtain c cs where "split_on P bs = c # cs" using split_on_not_Nil by (metis list.exhaust)
  with Cons show ?case by simp
qed simp

text \<open>
  The canonical spelling of a list of components, and the components a canonical spelling may
  have: nonempty, neither \<open>.\<close> nor \<open>..\<close>, without separator and NUL.
\<close>

definition canonical :: "bytes list \<Rightarrow> bytes" where
  "canonical cs = (if cs = [] then [SLASH] else concat (map (\<lambda>c. SLASH # c) cs))"

definition plain_component :: "bytes \<Rightarrow> bool" where
  "plain_component c \<longleftrightarrow> c \<noteq> [] \<and> c \<noteq> [DOT] \<and> c \<noteq> [DOT, DOT] \<and>
     list_all (\<lambda>b. b \<noteq> 0 \<and> \<not> is_separator b) c"

lemma canonical_snoc: "\<forall>d \<in> set ds. d \<noteq> [] \<Longrightarrow>
   (if length (canonical ds) > 1 then canonical ds @ [SLASH] else canonical ds) @ c = canonical (ds @ [c])"
  by (cases ds) (auto simp: canonical_def)

lemma push_components_eq:
  assumes "\<forall>d \<in> set ds. d \<noteq> []"
  shows "push_components (canonical ds) cs =
    (if [DOT] \<in> set cs \<or> [DOT, DOT] \<in> set cs then None
     else Some (canonical (ds @ filter (\<lambda>c. c \<noteq> []) cs)))"
  using assms
proof (induction cs arbitrary: ds)
  case (Cons c cs)
  show ?case
  proof (cases "c = []")
    case True
    then show ?thesis using Cons by simp
  next
    case False
    then show ?thesis
      using Cons.IH[of "ds @ [c]"] Cons.prems canonical_snoc[of ds c] by auto
  qed
qed simp

definition path_parts :: "bytes \<Rightarrow> bytes list" where
  "path_parts p = filter (\<lambda>c. c \<noteq> []) (split_on is_separator p)"

lemma normalize_path_eq:
  "normalize_path p =
     (if length p \<le> MAX_PATH_BYTES \<and> list_all plain_component (path_parts p)
      then Some (canonical (path_parts p)) else None)"
proof -
  have nul: "0 \<in> set p \<longleftrightarrow> (\<exists>c \<in> set (split_on is_separator p). 0 \<in> set c)"
  proof (induction p)
    case (Cons b p)
    obtain c cs where "split_on is_separator p = c # cs" using split_on_not_Nil by (metis list.exhaust)
    moreover have "is_separator b \<Longrightarrow> b \<noteq> 0" by (auto simp: is_separator_def SLASH_def BACKSLASH_def)
    ultimately show ?case using Cons by auto
  qed simp
  have "list_all plain_component (path_parts p) \<longleftrightarrow>
      0 \<notin> set p \<and> [DOT] \<notin> set (split_on is_separator p) \<and> [DOT, DOT] \<notin> set (split_on is_separator p)"
    unfolding nul using split_on_bytes[of _ is_separator p]
    by (auto simp: path_parts_def list_all_iff plain_component_def)
  moreover have "canonical [] = [SLASH]" by (simp add: canonical_def)
  ultimately show ?thesis
    using push_components_eq[of "[]" "split_on is_separator p"]
    by (auto simp: normalize_path_def path_parts_def)
qed

lemma split_on_canonical:
  assumes "\<forall>c \<in> set cs. \<forall>b \<in> set c. \<not> P b" and "P SLASH"
  shows "filter (\<lambda>c. c \<noteq> []) (split_on P (canonical cs)) = filter (\<lambda>c. c \<noteq> []) cs"
proof (cases cs)
  case Nil
  then show ?thesis using assms(2) by (simp add: canonical_def)
next
  case (Cons c ds)
  have "split_on P (d @ concat (map ((#) SLASH) es)) = d # es"
    if "\<forall>b \<in> set d. \<not> P b" "\<forall>c \<in> set es. \<forall>b \<in> set c. \<not> P b" for d es
    using that
  proof (induction es arbitrary: d)
    case (Cons e es)
    then show ?case using split_on_at[of d P SLASH "e @ concat (map ((#) SLASH) es)"] assms(2) by simp
  qed (simp add: split_on_plain)
  from this[of c ds] show ?thesis using Cons assms by (simp add: canonical_def)
qed

lemma plain_filter: "list_all plain_component cs \<Longrightarrow> filter (\<lambda>c. c \<noteq> []) cs = cs"
  by (auto simp: filter_id_conv list_all_iff plain_component_def)

lemma path_parts_canonical: "list_all plain_component cs \<Longrightarrow> path_parts (canonical cs) = cs"
  unfolding path_parts_def
  by (subst split_on_canonical) (auto simp: plain_filter list_all_iff plain_component_def is_separator_def)

lemma components_canonical: "list_all plain_component cs \<Longrightarrow> components (canonical cs) = cs"
  unfolding components_def
  by (subst split_on_canonical) (auto simp: plain_filter list_all_iff plain_component_def is_separator_def)

lemma length_canonical_parts: "length (canonical (path_parts p)) \<le> Suc (length p)"
proof -
  have "length (concat (map (\<lambda>c. SLASH # c) (filter Q cs))) \<le> length (concat (map (\<lambda>c. SLASH # c) cs))" for Q cs
    by (induction cs) auto
  from this[of "\<lambda>c. c \<noteq> []" "split_on is_separator p"] split_on_length[of SLASH is_separator p]
  show ?thesis by (auto simp: canonical_def path_parts_def)
qed

lemma normalize_path_Some:
  "normalize_path p = Some q \<longleftrightarrow>
     length p \<le> MAX_PATH_BYTES \<and> list_all plain_component (path_parts p) \<and> q = canonical (path_parts p)"
  by (auto simp: normalize_path_eq)

text \<open>A single component is a plain component within the limit, and normalizes to itself under the root.\<close>

lemma is_single_path_component_eq:
  "is_single_path_component n \<longleftrightarrow> length n \<le> MAX_PATH_BYTES \<and> plain_component n"
  by (auto simp: is_single_path_component_def plain_component_def is_separator_def list_all_iff)

lemma normalize_single_component:
  "is_single_path_component n \<Longrightarrow> normalize_path n = Some (SLASH # n)"
  by (auto simp: is_single_path_component_eq normalize_path_Some path_parts_def split_on_plain canonical_def
      plain_component_def list_all_iff)

lemma canonical_inject:
  "list_all plain_component cs \<Longrightarrow> list_all plain_component ds \<Longrightarrow> canonical cs = canonical ds \<longleftrightarrow> cs = ds"
  by (metis path_parts_canonical)


section \<open>Correctness of the path rules\<close>

text \<open>
  C14: a path that passes normalization cannot escape.  A path is accepted exactly when it is within the
  length limit and its nonempty components are plain: none is \<open>.\<close> or \<open>..\<close> or holds a separator or NUL.
  The result is \<open>/\<close> followed by those components in order, joined by single \<open>/\<close>, and at most one byte
  longer than the input; normalizing it again gives the same path, or is refused when that one byte
  took it over the limit.
\<close>

theorem normalize_path_confines:
  "case normalize_path p of
     None \<Rightarrow> \<not> (length p \<le> MAX_PATH_BYTES \<and> list_all plain_component (path_parts p))
   | Some q \<Rightarrow>
       length p \<le> MAX_PATH_BYTES \<and> length q \<le> length p + 1 \<and>
       list_all plain_component (components q) \<and> components q = path_parts p \<and> q = canonical (components q) \<and>
       normalize_path q = (if length q \<le> MAX_PATH_BYTES then Some q else None)"
proof (cases "normalize_path p")
  case None
  then show ?thesis by (simp add: normalize_path_eq split: if_splits)
next
  case (Some q)
  then have p: "length p \<le> MAX_PATH_BYTES" "list_all plain_component (path_parts p)" and q: "q = canonical (path_parts p)"
    by (auto simp: normalize_path_Some)
  have "components q = path_parts p" "path_parts q = path_parts p"
    using p q by (simp_all add: components_canonical path_parts_canonical)
  moreover have "length q \<le> length p + 1" using q length_canonical_parts by simp
  ultimately show ?thesis using Some p q by (simp add: normalize_path_eq)
qed

end
