(* ===== verification/Import_Catalog.thy ===== *)
theory Import_Catalog
  imports Owp_Messages Media_Paths "HOL-Library.List_Lexorder" "HOL-Library.Multiset"
begin

text \<open>
  \<open>catalog.rs\<close> of crate \<open>ohl-import\<close>: catalog identities, the quotas of one enumeration, and the
  planner that validates every archive-controlled value before a catalog is promoted.  A
  \<open>BTreeSet\<close> is the sorted list of its elements; strings are ordered by their bytes, as lists.
\<close>

record CatalogGeneration =
  cg_epoch :: u64
  cg_enumeration :: u64

definition worker_epoch_new :: "u64 \<Rightarrow> u64 option" where
  "worker_epoch_new v = (if v = 0 then None else Some v)"

record EntryMetadata =
  em_source_token :: u64
  em_archive_path :: bytes
  em_size_bytes :: u64

record PlannedEntry =
  pe_source_token :: u64
  pe_relative_path :: bytes
  pe_size_bytes :: u64

record ImportLimits =
  il_entries :: u32
  il_path_bytes :: u64
  il_entry_bytes :: u64
  il_total_bytes :: u64

datatype LayoutError =
    InvalidLimits | TooManyEntries | TooManyPathBytes | SourceTokenConflict | InvalidPath
  | PathConflict | EntryTooLarge | LayoutPayloadTooLarge

definition import_limits_default :: ImportLimits where
  "import_limits_default =
     \<lparr>il_entries = MAXIMUM_ENUMERATED_ENTRIES, il_path_bytes = MAXIMUM_ENUMERATED_PATH_BYTES,
      il_entry_bytes = MAXIMUM_ENUMERATED_ENTRY_BYTES, il_total_bytes = MAXIMUM_ENUMERATED_TOTAL_BYTES\<rparr>"

definition import_limits_new :: "u32 \<Rightarrow> u64 \<Rightarrow> u64 \<Rightarrow> u64 \<Rightarrow> (LayoutError, ImportLimits) result" where
  "import_limits_new maximum_entries maximum_path_bytes maximum_entry_bytes maximum_total_bytes =
     (if maximum_entries = 0 \<or> maximum_entries > MAXIMUM_ENUMERATED_ENTRIES
         \<or> maximum_path_bytes = 0 \<or> maximum_path_bytes > MAXIMUM_ENUMERATED_PATH_BYTES
         \<or> maximum_entry_bytes = 0 \<or> maximum_entry_bytes > MAXIMUM_ENUMERATED_ENTRY_BYTES
         \<or> maximum_total_bytes = 0 \<or> maximum_total_bytes > MAXIMUM_ENUMERATED_TOTAL_BYTES
         \<or> maximum_entry_bytes > maximum_total_bytes
      then Err InvalidLimits
      else Ok \<lparr>il_entries = maximum_entries, il_path_bytes = maximum_path_bytes,
               il_entry_bytes = maximum_entry_bytes, il_total_bytes = maximum_total_bytes\<rparr>)"

record Catalog =
  cat_entries :: "PlannedEntry list"
  cat_by_token :: "(u64 \<times> nat) list"
  cat_total_bytes :: u64

definition catalog_default :: Catalog where
  "catalog_default = \<lparr>cat_entries = [], cat_by_token = [], cat_total_bytes = 0\<rparr>"

text \<open>
  \<open>slice::binary_search_by_key\<close> on the half-open range \<open>lo..hi\<close>: the index of an element with the
  key, if the slice is sorted by it.
\<close>

function binary_search_by_key :: "'k::linorder \<Rightarrow> ('k \<times> 'a) list \<Rightarrow> nat \<Rightarrow> nat \<Rightarrow> nat option" where
  "binary_search_by_key k xs lo hi =
     (if lo \<ge> hi then None
      else let mid = lo + (hi - lo) div 2; key = fst (xs ! mid) in
        if key = k then Some mid
        else if key < k then binary_search_by_key k xs (Suc mid) hi
        else binary_search_by_key k xs lo mid)"
  by pat_completeness auto
termination
  by (relation "measure (\<lambda>(k, xs, lo, hi). hi - lo)") auto

declare binary_search_by_key.simps [simp del]

definition catalog_find :: "Catalog \<Rightarrow> u64 \<Rightarrow> PlannedEntry option" where
  "catalog_find catalog token =
     (case binary_search_by_key token (cat_by_token catalog) 0 (length (cat_by_token catalog)) of
        None \<Rightarrow> None
      | Some index \<Rightarrow>
          let i = snd (cat_by_token catalog ! index) in
          if i < length (cat_entries catalog) then Some (cat_entries catalog ! i) else None)"

definition btree_insert :: "'a::linorder \<Rightarrow> 'a list \<Rightarrow> bool \<times> 'a list" where
  "btree_insert x xs = (if x \<in> set xs then (False, xs) else (True, insort x xs))"

definition ascii_lower :: "u8 \<Rightarrow> u8" where
  "ascii_lower b = (if 0x41 \<le> b \<and> b \<le> 0x5A then b + 0x20 else b)"

definition to_ascii_lowercase :: "bytes \<Rightarrow> bytes" where
  "to_ascii_lowercase s = map ascii_lower s"

text \<open>The state of the planning loop, one iteration, and the loop.\<close>

record PlanState =
  ps_planned :: "PlannedEntry list"
  ps_tokens :: "u64 list"
  ps_folded :: "bytes list"
  ps_path_bytes :: u64
  ps_total_bytes :: u64

definition plan_start :: PlanState where
  "plan_start = \<lparr>ps_planned = [], ps_tokens = [], ps_folded = [], ps_path_bytes = 0, ps_total_bytes = 0\<rparr>"

definition checked_within :: "u64 \<Rightarrow> u64 \<Rightarrow> u64 \<Rightarrow> u64 option" where
  "checked_within used n limit =
     (case checked_add used n of None \<Rightarrow> None | Some s \<Rightarrow> if s \<le> limit then Some s else None)"

definition plan_entry :: "ImportLimits \<Rightarrow> EntryMetadata \<Rightarrow> PlanState \<Rightarrow> (LayoutError, PlanState) result" where
  "plan_entry limits entry ps =
     (case btree_insert (em_source_token entry) (ps_tokens ps) of
        (False, _) \<Rightarrow> Err SourceTokenConflict
      | (True, tokens) \<Rightarrow>
          if em_size_bytes entry > il_entry_bytes limits then Err EntryTooLarge
          else
            and_then (ok_or LayoutPayloadTooLarge
              (checked_within (ps_total_bytes ps) (em_size_bytes entry) (il_total_bytes limits)))
            (\<lambda>total_bytes.
            and_then (ok_or TooManyPathBytes
              (checked_within (ps_path_bytes ps) (of_nat (length (em_archive_path entry))) (il_path_bytes limits)))
            (\<lambda>path_bytes.
            and_then (ok_or InvalidPath (normalize_path (em_archive_path entry))) (\<lambda>normalized.
            if normalized = [SLASH] then Err InvalidPath
            else
              case btree_insert (to_ascii_lowercase normalized) (ps_folded ps) of
                (False, _) \<Rightarrow> Err PathConflict
              | (True, folded) \<Rightarrow>
                  Ok \<lparr>ps_planned = ps_planned ps @
                        [\<lparr>pe_source_token = em_source_token entry, pe_relative_path = normalized,
                          pe_size_bytes = em_size_bytes entry\<rparr>],
                      ps_tokens = tokens, ps_folded = folded,
                      ps_path_bytes = path_bytes, ps_total_bytes = total_bytes\<rparr>))))"

fun plan_entries :: "ImportLimits \<Rightarrow> EntryMetadata list \<Rightarrow> PlanState \<Rightarrow> (LayoutError, PlanState) result" where
  "plan_entries limits [] ps = Ok ps"
| "plan_entries limits (e # es) ps = and_then (plan_entry limits e ps) (plan_entries limits es)"

text \<open>The second loop: whether a path extends the previous one of the sorted set by a component.\<close>

definition directory_prefix :: "bytes \<Rightarrow> bytes \<Rightarrow> bool" where
  "directory_prefix previous path \<longleftrightarrow>
     length path > length previous \<and> take (length previous) path = previous \<and>
     path ! length previous = SLASH"

fun neighbour_alias :: "bytes option \<Rightarrow> bytes list \<Rightarrow> bool" where
  "neighbour_alias previous [] = False"
| "neighbour_alias previous (path # paths) =
     ((case previous of None \<Rightarrow> False | Some p \<Rightarrow> directory_prefix p path)
      \<or> neighbour_alias (Some path) paths)"

definition plan_catalog :: "EntryMetadata list \<Rightarrow> ImportLimits \<Rightarrow> (LayoutError, Catalog) result" where
  "plan_catalog entries limits =
     (if length entries > unat (il_entries limits) then Err TooManyEntries
      else
        and_then (plan_entries limits entries plan_start) (\<lambda>ps.
          if neighbour_alias None (ps_folded ps) then Err PathConflict
          else
            let planned = ps_planned ps;
                by_token = sort_key fst (zip (map pe_source_token planned) [0..<length planned])
            in Ok \<lparr>cat_entries = planned, cat_by_token = by_token,
                   cat_total_bytes = ps_total_bytes ps\<rparr>))"


section \<open>Lookup\<close>

lemma binary_search_Some:
  "binary_search_by_key k xs lo hi = Some i \<Longrightarrow> lo \<le> i \<and> i < hi \<and> fst (xs ! i) = k"
proof (induction k xs lo hi rule: binary_search_by_key.induct)
  case (1 k xs lo hi)
  let ?mid = "lo + (hi - lo) div 2"
  note eq = binary_search_by_key.simps[of k xs lo hi]
  from 1(3) have lt: "\<not> hi \<le> lo" by (auto simp: eq)
  consider (hit) "fst (xs ! ?mid) = k" | (right) "fst (xs ! ?mid) < k" | (left) "k < fst (xs ! ?mid)" by fastforce
  then show ?case
  proof cases
    case hit
    with 1(3) lt show ?thesis by (auto simp: eq Let_def)
  next
    case right
    with 1(3) lt have "binary_search_by_key k xs (Suc ?mid) hi = Some i" by (auto simp: eq Let_def split: if_splits)
    with 1(1)[OF lt refl refl _ right] right show ?thesis by fastforce
  next
    case left
    with 1(3) lt have "binary_search_by_key k xs lo ?mid = Some i" by (auto simp: eq Let_def split: if_splits)
    with 1(2)[OF lt refl refl] left show ?thesis by fastforce
  qed
qed

lemma binary_search_None:
  assumes "sorted (map fst xs)" and "hi \<le> length xs" and "binary_search_by_key k xs lo hi = None"
    and "lo \<le> i" and "i < hi"
  shows "fst (xs ! i) \<noteq> k"
  using assms
proof (induction k xs lo hi rule: binary_search_by_key.induct)
  case (1 k xs lo hi)
  let ?mid = "lo + (hi - lo) div 2"
  have mono: "fst (xs ! a) \<le> fst (xs ! b)" if "a \<le> b" "b < length xs" for a b
    using sorted_nth_mono[OF 1(3), of a b] that by simp
  have mid: "lo < hi" "?mid < hi" "?mid < length xs" using 1(4,6,7) by auto
  with 1(5) have neq: "fst (xs ! ?mid) \<noteq> k"
    by (subst (asm) binary_search_by_key.simps) (auto simp: Let_def split: if_splits)
  show ?case
  proof (cases "fst (xs ! ?mid) < k")
    case True
    then have rec: "binary_search_by_key k xs (Suc ?mid) hi = None"
      using 1(5) mid by (subst (asm) binary_search_by_key.simps) (auto simp: Let_def split: if_splits)
    show ?thesis
    proof (cases "i \<le> ?mid")
      case le: True
      then show ?thesis using mono[OF le mid(3)] True by auto
    next
      case False
      then show ?thesis using 1(1)[OF _ refl refl neq True 1(3,4) rec] mid 1(7) by auto
    qed
  next
    case False
    then have rec: "binary_search_by_key k xs lo ?mid = None"
      using 1(5) mid neq by (subst (asm) binary_search_by_key.simps) (auto simp: Let_def split: if_splits)
    show ?thesis
    proof (cases "?mid \<le> i")
      case le: True
      then show ?thesis using mono[OF le] 1(4,7) False neq by fastforce
    next
      case no: False
      then show ?thesis using 1(2)[OF _ refl refl neq False 1(3) _ rec 1(6)] mid by auto
    qed
  qed
qed

text \<open>The index of a planned list, and the lookup as a linear search.\<close>

definition token_index :: "PlannedEntry list \<Rightarrow> (u64 \<times> nat) list" where
  "token_index planned = sort_key fst (zip (map pe_source_token planned) [0..<length planned])"

lemma token_index_props:
  "sorted (map fst (token_index planned))" "length (token_index planned) = length planned"
  "set (token_index planned) = (\<lambda>i. (pe_source_token (planned ! i), i)) ` {..<length planned}"
proof -
  show "sorted (map fst (token_index planned))" by (simp add: token_index_def)
  show "length (token_index planned) = length planned" by (simp add: token_index_def)
  show "set (token_index planned) = (\<lambda>i. (pe_source_token (planned ! i), i)) ` {..<length planned}"
    by (auto simp: token_index_def set_zip image_iff lessThan_iff)
      (metis add.left_neutral nth_map nth_upt)
qed

lemma catalog_find_eq:
  assumes "cat_by_token c = token_index (cat_entries c)" and "distinct (map pe_source_token (cat_entries c))"
  shows "catalog_find c t = Some e \<longleftrightarrow> e \<in> set (cat_entries c) \<and> pe_source_token e = t"
proof (cases "binary_search_by_key t (cat_by_token c) 0 (length (cat_by_token c))")
  case None
  have "t \<noteq> pe_source_token (cat_entries c ! i)" if "i < length (cat_entries c)" for i
  proof -
    have "(pe_source_token (cat_entries c ! i), i) \<in> set (token_index (cat_entries c))"
      using that by (auto simp: token_index_props)
    then obtain j where "j < length (cat_by_token c)" "cat_by_token c ! j = (pe_source_token (cat_entries c ! i), i)"
      by (metis assms(1) in_set_conv_nth)
    then show ?thesis
      using binary_search_None[OF _ _ None, of j] assms(1) token_index_props(1)[of "cat_entries c"] by auto
  qed
  then show ?thesis using None by (auto simp: catalog_find_def in_set_conv_nth)
next
  case (Some j)
  from binary_search_Some[OF Some] have j: "j < length (cat_by_token c)" "fst (cat_by_token c ! j) = t" by auto
  then have "cat_by_token c ! j \<in> set (token_index (cat_entries c))" using assms(1) nth_mem by metis
  then obtain i where i: "i < length (cat_entries c)" "cat_by_token c ! j = (pe_source_token (cat_entries c ! i), i)"
    by (auto simp: token_index_props)
  have "catalog_find c t = Some (cat_entries c ! i)" using Some i by (simp add: catalog_find_def)
  moreover have "pe_source_token (cat_entries c ! i) = t" using i j by simp
  moreover have "e = cat_entries c ! i" if "e \<in> set (cat_entries c)" "pe_source_token e = t"
    using that i j assms(2) by (auto simp: in_set_conv_nth distinct_conv_nth)
  ultimately show ?thesis using i(1) by auto
qed


section \<open>Planning\<close>

definition folded_path :: "EntryMetadata \<Rightarrow> bytes" where
  "folded_path e = to_ascii_lowercase (the (normalize_path (em_archive_path e)))"

definition plan_of :: "EntryMetadata \<Rightarrow> PlannedEntry" where
  "plan_of e = \<lparr>pe_source_token = em_source_token e,
     pe_relative_path = the (normalize_path (em_archive_path e)), pe_size_bytes = em_size_bytes e\<rparr>"

definition entry_ok :: "ImportLimits \<Rightarrow> EntryMetadata \<Rightarrow> bool" where
  "entry_ok limits e \<longleftrightarrow> em_size_bytes e \<le> il_entry_bytes limits \<and>
     normalize_path (em_archive_path e) \<noteq> None \<and> normalize_path (em_archive_path e) \<noteq> Some [SLASH]"

definition declared_bytes :: "EntryMetadata list \<Rightarrow> nat" where
  "declared_bytes es = (\<Sum>e\<leftarrow>es. unat (em_size_bytes e))"

definition spelling_bytes :: "EntryMetadata list \<Rightarrow> nat" where
  "spelling_bytes es = (\<Sum>e\<leftarrow>es. length (em_archive_path e))"

text \<open>What the planner demands of the entries, in exact arithmetic.\<close>

definition plan_valid :: "ImportLimits \<Rightarrow> EntryMetadata list \<Rightarrow> bool" where
  "plan_valid limits es \<longleftrightarrow>
     list_all (entry_ok limits) es \<and>
     distinct (map em_source_token es) \<and> distinct (map folded_path es) \<and>
     declared_bytes es \<le> unat (il_total_bytes limits) \<and> spelling_bytes es \<le> unat (il_path_bytes limits)"

definition plan_inv :: "ImportLimits \<Rightarrow> EntryMetadata list \<Rightarrow> PlanState \<Rightarrow> bool" where
  "plan_inv limits es ps \<longleftrightarrow>
     plan_valid limits es \<and> ps_planned ps = map plan_of es \<and>
     ps_tokens ps = sort (map em_source_token es) \<and> ps_folded ps = sort (map folded_path es) \<and>
     unat (ps_path_bytes ps) = spelling_bytes es \<and> unat (ps_total_bytes ps) = declared_bytes es"

lemma sums_snoc [simp]:
  "declared_bytes (es @ [e]) = declared_bytes es + unat (em_size_bytes e)"
  "spelling_bytes (es @ [e]) = spelling_bytes es + length (em_archive_path e)"
  by (simp_all add: declared_bytes_def spelling_bytes_def)

lemma insort_sort_snoc: "insort x (sort xs) = sort (xs @ [x])"
  by (rule sym, rule properties_for_sort) (simp_all add: sorted_insort)

lemma checked_within_Some:
  "checked_within used n limit = Some s \<longleftrightarrow> unat used + unat n \<le> unat limit \<and> unat s = unat used + unat n"
proof -
  have "unat used + unat n \<le> unat limit \<Longrightarrow> unat used + unat n < 2 ^ 64"
    using le_less_trans[OF _ unat_less_pow, of "unat used + unat n" limit] by simp
  then show ?thesis
    by (cases "checked_add used n")
      (auto simp: checked_within_def checked_add_Some_iff checked_add_def word_le_nat_alt unat_word_ariths
        word_unat_eq_iff split: if_splits)
qed

lemma plan_entry_eq:
  "plan_entry limits e ps = Ok ps' \<longleftrightarrow>
     em_source_token e \<notin> set (ps_tokens ps) \<and> em_size_bytes e \<le> il_entry_bytes limits \<and>
     (\<exists>tb pb n. checked_within (ps_total_bytes ps) (em_size_bytes e) (il_total_bytes limits) = Some tb \<and>
        checked_within (ps_path_bytes ps) (of_nat (length (em_archive_path e))) (il_path_bytes limits) = Some pb \<and>
        normalize_path (em_archive_path e) = Some n \<and> n \<noteq> [SLASH] \<and>
        to_ascii_lowercase n \<notin> set (ps_folded ps) \<and>
        ps' = \<lparr>ps_planned = ps_planned ps @ [\<lparr>pe_source_token = em_source_token e, pe_relative_path = n,
                 pe_size_bytes = em_size_bytes e\<rparr>],
               ps_tokens = insort (em_source_token e) (ps_tokens ps),
               ps_folded = insort (to_ascii_lowercase n) (ps_folded ps),
               ps_path_bytes = pb, ps_total_bytes = tb\<rparr>)"
  by (auto simp: plan_entry_def btree_insert_def result_simps split: if_splits)

lemma path_length_u64:
  "normalize_path p = Some n \<Longrightarrow> unat (of_nat (length p) :: u64) = length p"
  by (simp add: normalize_path_Some MAX_PATH_BYTES_def unat_of_nat)

lemma plan_entry_valid:
  assumes inv: "plan_inv limits es ps" and ok: "plan_entry limits e ps = Ok ps'"
  shows "plan_inv limits (es @ [e]) ps'"
proof -
  from ok obtain tb pb n where
    n: "normalize_path (em_archive_path e) = Some n" "n \<noteq> [SLASH]" "to_ascii_lowercase n \<notin> set (ps_folded ps)"
    and t: "em_source_token e \<notin> set (ps_tokens ps)" "em_size_bytes e \<le> il_entry_bytes limits"
    and b: "checked_within (ps_total_bytes ps) (em_size_bytes e) (il_total_bytes limits) = Some tb"
      "checked_within (ps_path_bytes ps) (of_nat (length (em_archive_path e))) (il_path_bytes limits) = Some pb"
    and ps': "ps' = \<lparr>ps_planned = ps_planned ps @ [\<lparr>pe_source_token = em_source_token e, pe_relative_path = n,
                 pe_size_bytes = em_size_bytes e\<rparr>],
               ps_tokens = insort (em_source_token e) (ps_tokens ps),
               ps_folded = insort (to_ascii_lowercase n) (ps_folded ps),
               ps_path_bytes = pb, ps_total_bytes = tb\<rparr>"
    by (auto simp: plan_entry_eq)
  have b': "unat tb = declared_bytes (es @ [e])" "unat tb \<le> unat (il_total_bytes limits)"
    "unat pb = spelling_bytes (es @ [e])" "unat pb \<le> unat (il_path_bytes limits)"
    using b inv path_length_u64[OF n(1)] by (auto simp: checked_within_Some plan_inv_def)
  then have "plan_valid limits (es @ [e])"
    using inv t n by (auto simp: plan_inv_def plan_valid_def entry_ok_def folded_path_def)
  then show ?thesis
    using inv ps' b' n(1) by (auto simp: plan_inv_def plan_of_def folded_path_def insort_sort_snoc)
qed

lemma plan_entry_complete:
  assumes inv: "plan_inv limits es ps" and valid: "plan_valid limits (es @ [e])"
  shows "\<exists>ps'. plan_entry limits e ps = Ok ps'"
proof -
  from valid obtain n where n: "normalize_path (em_archive_path e) = Some n" "n \<noteq> [SLASH]"
    by (auto simp: plan_valid_def entry_ok_def)
  have "unat (ps_total_bytes ps) + unat (em_size_bytes e) \<le> unat (il_total_bytes limits)"
    "unat (ps_path_bytes ps) + unat (of_nat (length (em_archive_path e)) :: u64) \<le> unat (il_path_bytes limits)"
    using inv valid path_length_u64[OF n(1)] by (auto simp: plan_inv_def plan_valid_def)
  then obtain tb pb where
    "checked_within (ps_total_bytes ps) (em_size_bytes e) (il_total_bytes limits) = Some tb"
    "checked_within (ps_path_bytes ps) (of_nat (length (em_archive_path e))) (il_path_bytes limits) = Some pb"
    by (metis checked_within_Some unat_add_within)
  moreover have "em_source_token e \<notin> set (ps_tokens ps)" "em_size_bytes e \<le> il_entry_bytes limits"
    "to_ascii_lowercase n \<notin> set (ps_folded ps)"
    using inv valid n(1) by (auto simp: plan_inv_def plan_valid_def entry_ok_def folded_path_def)
  ultimately show ?thesis using n by (auto simp: plan_entry_eq)
qed

lemma plan_valid_prefix: "plan_valid limits (es @ fs) \<Longrightarrow> plan_valid limits es"
  by (auto simp: plan_valid_def declared_bytes_def spelling_bytes_def)

lemma plan_entries_Ok:
  assumes "plan_inv limits es ps"
  shows "(\<exists>ps'. plan_entries limits fs ps = Ok ps') \<longleftrightarrow> plan_valid limits (es @ fs)"
    and "plan_entries limits fs ps = Ok ps' \<Longrightarrow> plan_inv limits (es @ fs) ps'"
proof -
  show "(\<exists>ps'. plan_entries limits fs ps = Ok ps') \<longleftrightarrow> plan_valid limits (es @ fs)"
    using assms
  proof (induction fs arbitrary: es ps)
    case Nil
    then show ?case by (simp add: plan_inv_def)
  next
    case (Cons f fs)
    show ?case
    proof (cases "plan_entry limits f ps")
      case (Err e)
      then have "\<not> plan_valid limits (es @ [f])" using plan_entry_complete[OF Cons.prems] by fastforce
      then show ?thesis using Err plan_valid_prefix[of limits "es @ [f]" fs] by auto
    next
      case (Ok ps1)
      then show ?thesis using Cons.IH[OF plan_entry_valid[OF Cons.prems Ok]] by simp
    qed
  qed
  show "plan_entries limits fs ps = Ok ps' \<Longrightarrow> plan_inv limits (es @ fs) ps'"
    using assms
  proof (induction fs arbitrary: es ps)
    case (Cons f fs)
    then obtain ps1 where p: "plan_entry limits f ps = Ok ps1" "plan_entries limits fs ps1 = Ok ps'"
      by (auto simp: result_simps)
    from Cons.IH[OF p(2) plan_entry_valid[OF Cons.prems(2) p(1)]] show ?case by simp
  qed simp
qed

lemma plan_start_inv: "plan_inv limits [] plan_start"
  by (simp add: plan_inv_def plan_start_def plan_valid_def declared_bytes_def spelling_bytes_def)

lemma plan_catalog_Ok:
  "plan_catalog es limits = Ok c \<longleftrightarrow>
     length es \<le> unat (il_entries limits) \<and> plan_valid limits es \<and>
     \<not> neighbour_alias None (sort (map folded_path es)) \<and>
     cat_entries c = map plan_of es \<and> cat_by_token c = token_index (map plan_of es) \<and>
     unat (cat_total_bytes c) = declared_bytes es" (is "?L \<longleftrightarrow> ?R")
proof
  assume L: ?L
  then obtain ps where ps: "plan_entries limits es plan_start = Ok ps" and n: "length es \<le> unat (il_entries limits)"
    by (auto simp: plan_catalog_def result_simps split: if_splits)
  from plan_entries_Ok(2)[OF plan_start_inv ps] have "plan_inv limits es ps" by simp
  with L ps n show ?R
    by (auto simp: plan_catalog_def plan_inv_def token_index_def Let_def split: if_splits)
next
  assume R: ?R
  then obtain ps where ps: "plan_entries limits es plan_start = Ok ps"
    using plan_entries_Ok(1)[OF plan_start_inv, of limits es] by auto
  from plan_entries_Ok(2)[OF plan_start_inv ps] have inv: "plan_inv limits es ps" by simp
  with R have "ps_total_bytes ps = cat_total_bytes c" by (simp add: plan_inv_def word_unat_eq_iff)
  with R ps inv show ?L
    by (cases c) (auto simp: plan_catalog_def plan_inv_def token_index_def Let_def)
qed

lemma plan_catalog_is_ok:
  "is_ok (plan_catalog es limits) \<longleftrightarrow> length es \<le> unat (il_entries limits) \<and> plan_valid limits es \<and>
     \<not> neighbour_alias None (sort (map folded_path es))" (is "_ \<longleftrightarrow> ?R")
proof
  assume R: ?R
  then have "declared_bytes es < 2 ^ 64"
    using le_less_trans[OF _ unat_less_pow, of "declared_bytes es" "il_total_bytes limits"]
    by (simp add: plan_valid_def)
  with R have "plan_catalog es limits = Ok \<lparr>cat_entries = map plan_of es,
      cat_by_token = token_index (map plan_of es), cat_total_bytes = of_nat (declared_bytes es)\<rparr>"
    by (simp add: plan_catalog_Ok unat_of_nat)
  then show "is_ok (plan_catalog es limits)" by simp
qed (auto simp: is_ok_iff plan_catalog_Ok)


section \<open>Directory aliases\<close>

text \<open>
  The second loop looks at immediate neighbours of the sorted set only.  Between a path and one of
  its extensions other paths can sort, but only paths that continue it with a byte below \<open>/\<close>; when
  no such byte occurs the neighbour check finds every alias.
\<close>

lemma neighbour_alias_nth:
  "neighbour_alias (Some p) xs \<longleftrightarrow> (\<exists>i < length xs. directory_prefix ((p # xs) ! i) (xs ! i))"
proof (induction xs arbitrary: p)
  case (Cons x xs)
  show ?case by (simp add: Cons.IH All_less_Suc2 Ex_less_Suc2)
qed simp

lemma neighbour_alias_start: "neighbour_alias None (x # xs) = neighbour_alias (Some x) xs"
  by simp

lemma lex_between:
  fixes p x s :: bytes
  assumes "p < x" and "x \<le> p @ s"
  shows "\<exists>y. x = p @ y \<and> y \<noteq> [] \<and> y \<le> s"
  using assms
proof (induction p arbitrary: x)
  case Nil
  then show ?case by (cases x) auto
next
  case (Cons a p)
  then obtain b z where x: "x = b # z" by (cases x) auto
  with Cons.prems have "b = a" "p < z" "z \<le> p @ s" by auto
  with Cons.IH[of z] x show ?case by auto
qed

lemma alias_neighbour:
  assumes "sorted xs" and "distinct xs" and "p \<in> set xs" and "q \<in> set xs" and "directory_prefix p q"
    and "list_all (list_all (\<lambda>b. SLASH \<le> b)) xs"
  shows "neighbour_alias None xs"
proof -
  from assms(3,4) obtain i j where ij: "i < length xs" "xs ! i = p" "j < length xs" "xs ! j = q"
    by (auto simp: in_set_conv_nth)
  obtain r where q: "q = p @ SLASH # r"
  proof
    show "q = p @ SLASH # drop (Suc (length p)) q"
      using assms(5) id_take_nth_drop[of "length p" q] by (simp add: directory_prefix_def)
  qed
  have "p < q" unfolding q by (induction p) auto
  have lt: "i < j"
  proof (rule ccontr)
    assume "\<not> i < j"
    then have "q \<le> p" using sorted_nth_mono[OF assms(1), of j i] ij by simp
    with \<open>p < q\<close> show False by simp
  qed
  let ?x = "xs ! Suc i"
  have x: "Suc i < length xs" "?x \<in> set xs" using lt ij by auto
  have "p \<le> ?x" using sorted_nth_mono[OF assms(1), of i "Suc i"] x ij by simp
  moreover have "p \<noteq> ?x" using assms(2) x ij by (auto simp: distinct_conv_nth)
  ultimately have "p < ?x" by simp
  moreover have "?x \<le> q" using sorted_nth_mono[OF assms(1), of "Suc i" j] lt ij by simp
  ultimately obtain y where y: "?x = p @ y" "y \<noteq> []" "y \<le> SLASH # r" using lex_between q by blast
  then obtain b z where b: "y = b # z" by (cases y) auto
  have "b \<in> set ?x" using y b by simp
  with x assms(6) have "SLASH \<le> b" by (auto simp: list_all_iff)
  with y b have "b = SLASH" by auto
  then have "directory_prefix (xs ! i) ?x" using y b ij by (simp add: directory_prefix_def)
  then show ?thesis using x
    by (cases xs) (auto simp: neighbour_alias_start neighbour_alias_nth)
qed

lemma folded_bytes:
  assumes "list_all (\<lambda>b. SLASH \<le> b) (em_archive_path e)" and "normalize_path (em_archive_path e) \<noteq> None"
  shows "list_all (\<lambda>b. SLASH \<le> b) (folded_path e)"
proof -
  have "SLASH \<le> ascii_lower b" if "SLASH \<le> b" for b
  proof (cases "0x41 \<le> b \<and> b \<le> 0x5A")
    case True
    then have "unat (b + 0x20) = unat b + 32"
      using unat_add_within[of b "0x20" "0x7A"] by (simp add: word_le_nat_alt)
    with True that show ?thesis by (simp add: ascii_lower_def word_le_nat_alt)
  qed (use that in \<open>auto simp: ascii_lower_def\<close>)
  moreover have "SLASH \<le> b" if "b \<in> set (canonical (path_parts (em_archive_path e)))" for b
    using that assms(1) split_on_bytes[of _ is_separator "em_archive_path e"]
    by (auto simp: canonical_def path_parts_def list_all_iff split: if_splits)
  moreover have "folded_path e = map ascii_lower (canonical (path_parts (em_archive_path e)))"
    using assms(2) by (simp add: folded_path_def to_ascii_lowercase_def normalize_path_eq split: if_splits)
  ultimately show ?thesis by (simp add: list_all_iff)
qed


section \<open>Correctness of the planner\<close>

text \<open>A path directly followed by a path below it.\<close>

definition adjacent_alias :: "bytes list \<Rightarrow> bool" where
  "adjacent_alias ps \<longleftrightarrow> (\<exists>i rest. Suc i < length ps \<and> ps ! Suc i = ps ! i @ SLASH # rest)"

lemma directory_prefix_append: "directory_prefix p q \<longleftrightarrow> (\<exists>rest. q = p @ SLASH # rest)"
proof
  assume d: "directory_prefix p q"
  then have "q = take (length p) q @ q ! length p # drop (Suc (length p)) q"
    by (intro id_take_nth_drop) (simp add: directory_prefix_def)
  then show "\<exists>rest. q = p @ SLASH # rest" using d unfolding directory_prefix_def by metis
qed (auto simp: directory_prefix_def)

lemma neighbour_alias_adjacent: "neighbour_alias None ps \<longleftrightarrow> adjacent_alias ps"
proof (cases ps)
  case (Cons x xs)
  then show ?thesis
    unfolding adjacent_alias_def by (auto simp: neighbour_alias_start neighbour_alias_nth directory_prefix_append)
qed (simp add: adjacent_alias_def)

text \<open>
  C15: the planner accepts an enumeration exactly when it respects the quotas in exact arithmetic,
  its tokens are distinct, its normalized paths are valid, not the root and distinct up to ASCII
  case, and no path in the sorted order of the folded paths is directly followed by itself, a slash
  and more.  The catalog then holds one entry per
  enumerated entry in order, with the normalized path and the declared size, the total is the exact
  sum, and looking a token up finds the entry that carries it and nothing else.
\<close>

theorem plan_catalog_exact:
  "case plan_catalog es limits of
     Ok c \<Rightarrow> length es \<le> unat (il_entries limits) \<and> plan_valid limits es \<and>
       \<not> adjacent_alias (sort (map folded_path es)) \<and>
       cat_entries c = map plan_of es \<and> unat (cat_total_bytes c) = declared_bytes es \<and>
       unat (cat_total_bytes c) \<le> unat (il_total_bytes limits) \<and>
       (catalog_find c t = Some p \<longleftrightarrow> p \<in> set (cat_entries c) \<and> pe_source_token p = t)
   | Err e \<Rightarrow> \<not> (length es \<le> unat (il_entries limits) \<and> plan_valid limits es \<and>
       \<not> adjacent_alias (sort (map folded_path es)))"
proof (cases "plan_catalog es limits")
  case (Err e)
  have "\<not> (length es \<le> unat (il_entries limits) \<and> plan_valid limits es \<and>
       \<not> adjacent_alias (sort (map folded_path es)))"
    using plan_catalog_is_ok[of es limits] unfolding Err neighbour_alias_adjacent by simp
  then show ?thesis unfolding Err by simp
next
  case (Ok c)
  then have c: "length es \<le> unat (il_entries limits)" "plan_valid limits es" "cat_entries c = map plan_of es"
    "cat_by_token c = token_index (cat_entries c)" "unat (cat_total_bytes c) = declared_bytes es"
    "\<not> adjacent_alias (sort (map folded_path es))"
    by (auto simp: plan_catalog_Ok neighbour_alias_adjacent)
  moreover have "distinct (map pe_source_token (cat_entries c))"
    using c(2,3) by (simp add: plan_valid_def plan_of_def comp_def)
  ultimately show ?thesis using Ok catalog_find_eq[OF c(4)] by (simp add: plan_valid_def)
qed

text \<open>
  When no spelling has a byte that sorts below \<open>/\<close>, a planned catalog has no file that is a
  directory prefix of another entry, up to ASCII case.
\<close>

lemma plan_catalog_no_directory_alias:
  assumes "plan_catalog es limits = Ok c"
    and "list_all (\<lambda>e. list_all (\<lambda>b. SLASH \<le> b) (em_archive_path e)) es"
    and "p \<in> set es" and "q \<in> set es"
  shows "\<not> directory_prefix (folded_path p) (folded_path q)"
proof
  assume dp: "directory_prefix (folded_path p) (folded_path q)"
  from assms(1) have v: "plan_valid limits es" "\<not> neighbour_alias None (sort (map folded_path es))"
    by (simp_all add: plan_catalog_Ok)
  have "list_all (list_all (\<lambda>b. SLASH \<le> b)) (sort (map folded_path es))"
    using v(1) assms(2) folded_bytes by (auto simp: list_all_iff plan_valid_def entry_ok_def)
  then have "neighbour_alias None (sort (map folded_path es))"
    using alias_neighbour[OF _ _ _ _ dp, of "sort (map folded_path es)"] v(1) assms(3,4)
    by (simp add: plan_valid_def)
  with v(2) show False by contradiction
qed

text \<open>Three entries: a file \<open>a\<close>, a file \<open>a.txt\<close> and a file \<open>b\<close> in a directory \<open>a\<close>.\<close>

definition shadowed_entries :: "EntryMetadata list" where
  "shadowed_entries =
     [\<lparr>em_source_token = 1, em_archive_path = [0x61], em_size_bytes = 1\<rparr>,
      \<lparr>em_source_token = 2, em_archive_path = [0x61, 0x2E, 0x74, 0x78, 0x74], em_size_bytes = 1\<rparr>,
      \<lparr>em_source_token = 3, em_archive_path = [0x61, 0x2F, 0x62], em_size_bytes = 1\<rparr>]"

lemma shadowed_normalized:
  "normalize_path [0x61] = Some [0x2F, 0x61]"
  "normalize_path [0x61, 0x2E, 0x74, 0x78, 0x74] = Some [0x2F, 0x61, 0x2E, 0x74, 0x78, 0x74]"
  "normalize_path [0x61, 0x2F, 0x62] = Some [0x2F, 0x61, 0x2F, 0x62]"
  by (simp_all add: normalize_path_def MAX_PATH_BYTES_def is_separator_def SLASH_def BACKSLASH_def DOT_def)

lemma shadowed_folded:
  "map folded_path shadowed_entries =
     [[0x2F, 0x61], [0x2F, 0x61, 0x2E, 0x74, 0x78, 0x74], [0x2F, 0x61, 0x2F, 0x62]]"
  by (simp add: shadowed_entries_def folded_path_def shadowed_normalized to_ascii_lowercase_def ascii_lower_def
      word_le_nat_alt)

lemma shadowed_planned:
  "is_ok (plan_catalog (take n shadowed_entries) import_limits_default)"
  if "n \<in> {1, 3}"
proof -
  have "plan_valid import_limits_default (take n shadowed_entries)"
    using that shadowed_folded
    by (auto simp: plan_valid_def shadowed_entries_def entry_ok_def shadowed_normalized declared_bytes_def
        spelling_bytes_def import_limits_default_def owp_consts SLASH_def word_le_nat_alt)
  moreover have "\<not> neighbour_alias None (sort (map folded_path (take n shadowed_entries)))"
    using that shadowed_folded[THEN arg_cong[of _ _ "take n"]]
    by (auto simp: take_map directory_prefix_def SLASH_def word_less_nat_alt word_le_nat_alt)
  ultimately show ?thesis
    using that by (auto simp: plan_catalog_is_ok import_limits_default_def owp_consts shadowed_entries_def)
qed

text \<open>
  Without that condition the check misses aliases.  The planner accepts \<open>a\<close>, \<open>a.txt\<close> and \<open>a/b\<close>,
  in which the file \<open>/a\<close> is a directory prefix of \<open>/a/b\<close>, because \<open>/a.txt\<close> sorts between the two.
\<close>

lemma plan_catalog_accepts_alias:
  "is_ok (plan_catalog shadowed_entries import_limits_default) \<and>
   directory_prefix (folded_path (shadowed_entries ! 0)) (folded_path (shadowed_entries ! 2))"
  using shadowed_planned[of 3] shadowed_folded
  by (simp add: shadowed_entries_def directory_prefix_def SLASH_def)

text \<open>
  C16: the alias check compares neighbours of the sorted paths only, and that is complete exactly up to
  bytes that sort below \<open>/\<close>.  When no spelling has such a byte, a planned catalog has no file that is a
  directory prefix of another entry, up to ASCII case; with one, the planner accepts \<open>a\<close>, \<open>a.txt\<close> and
  \<open>a/b\<close>, in which the file \<open>/a\<close> is a directory prefix of \<open>/a/b\<close>.
\<close>

theorem plan_catalog_alias_boundary:
  assumes "plan_catalog es limits = Ok c"
    and "list_all (\<lambda>e. list_all (\<lambda>b. SLASH \<le> b) (em_archive_path e)) es"
    and "p \<in> set es" and "q \<in> set es"
  shows "\<not> directory_prefix (folded_path p) (folded_path q) \<and>
    is_ok (plan_catalog shadowed_entries import_limits_default) \<and>
    directory_prefix (folded_path (shadowed_entries ! 0)) (folded_path (shadowed_entries ! 2))"
  using plan_catalog_no_directory_alias[OF assms] plan_catalog_accepts_alias by blast

theorem plan_catalog_alias_boundary_witness:
  "is_ok (plan_catalog (take 1 shadowed_entries) import_limits_default) \<and>
   \<not> directory_prefix (folded_path (shadowed_entries ! 0)) (folded_path (shadowed_entries ! 0))"
proof -
  have ok: "is_ok (plan_catalog (take 1 shadowed_entries) import_limits_default)"
    by (rule shadowed_planned) simp
  then obtain c where c: "plan_catalog (take 1 shadowed_entries) import_limits_default = Ok c"
    by (auto simp: is_ok_iff)
  have b: "list_all (\<lambda>e. list_all (\<lambda>b. SLASH \<le> b) (em_archive_path e)) (take 1 shadowed_entries)"
    by (simp add: shadowed_entries_def SLASH_def word_le_nat_alt)
  have "shadowed_entries ! 0 \<in> set (take 1 shadowed_entries)" by (simp add: shadowed_entries_def)
  from plan_catalog_alias_boundary[OF c b this this] ok show ?thesis by simp
qed

end
