(* ===== verification/Import_Results.thy ===== *)
theory Import_Results
  imports Owp_Session Import_Catalog
begin

text \<open>
  \<open>result_session.rs\<close> of crate \<open>ohl-import\<close>: the parent's owner of worker results.  It runs the
  protocol validator over every result frame, keeps the quotas of the enumeration in progress,
  promotes a complete enumeration into a catalog, and bounds the bytes of a stream by the declared
  size.  A \<open>ByteSink\<close> is a parameter: its \<open>write\<close> is a state transformer on the sink's own state.
\<close>

datatype ResultSessionError =
    InvalidConfiguration | InvalidState | Protocol ProtocolError | Layout LayoutError
  | ResultValidation | UnknownSourceToken | DownstreamFailure | IncompleteStream
  | GenerationExhausted | SourceInvalidated | SourceReadFailure | WorkerFailure

datatype ReadRequestOutcome = Serviceable ReadRequestMessage | IgnoredAfterCancel

record Candidate =
  cd_generation :: CatalogGeneration
  cd_promotable :: bool
  cd_remaining_entries :: u32
  cd_remaining_path_bytes :: u64
  cd_remaining_total_bytes :: u64
  cd_previous_source_token :: "u64 option"
  cd_entries :: "EntryMetadata list"

record StreamState =
  stm_remaining_bytes :: u64

record ResultSession =
  rs_protocol :: SessionValidator
  rs_limits :: ImportLimits
  rs_epoch :: u64
  rs_failure :: "ResultSessionError option"
  rs_enumeration_counter :: u64
  rs_candidate :: "Candidate option"
  rs_catalog :: "(CatalogGeneration \<times> Catalog) option"
  rs_stream :: "StreamState option"

type_synonym 'a result_op = "(ResultSession, ResultSessionError, 'a) stm"

definition result_session_new ::
  "SessionValidator \<Rightarrow> u64 \<Rightarrow> ImportLimits \<Rightarrow> (ResultSessionError, ResultSession) result" where
  "result_session_new protocol epoch limits =
     (if sv_error protocol \<noteq> None \<or> sv_state protocol \<noteq> Idle then Err InvalidConfiguration
      else Ok \<lparr>rs_protocol = protocol, rs_limits = limits, rs_epoch = epoch, rs_failure = None,
               rs_enumeration_counter = 0, rs_candidate = None, rs_catalog = None, rs_stream = None\<rparr>)"

definition rs_is_terminal :: "ResultSession \<Rightarrow> bool" where
  "rs_is_terminal s \<longleftrightarrow> rs_failure s \<noteq> None"

definition rs_remaining_stream_bytes :: "ResultSession \<Rightarrow> u64" where
  "rs_remaining_stream_bytes s = (case rs_stream s of None \<Rightarrow> 0 | Some st \<Rightarrow> stm_remaining_bytes st)"

definition rs_catalog_view :: "ResultSession \<Rightarrow> (CatalogGeneration \<times> Catalog) option" where
  "rs_catalog_view s = (if rs_is_terminal s then None else rs_catalog s)"

definition rs_retire_all :: "ResultSession \<Rightarrow> ResultSession" where
  "rs_retire_all s = s\<lparr>rs_catalog := None, rs_candidate := None, rs_stream := None\<rparr>"

definition rs_retire :: "ResultSessionError \<Rightarrow> ResultSession \<Rightarrow> ResultSession" where
  "rs_retire e s =
     (case rs_failure s of None \<Rightarrow> rs_retire_all (s\<lparr>rs_failure := Some e\<rparr>) | Some _ \<Rightarrow> s)"

definition rs_fail :: "ResultSessionError \<Rightarrow> 'a result_op" where
  "rs_fail e s =
     (let t = rs_retire e s in (Err (case rs_failure t of None \<Rightarrow> e | Some d \<Rightarrow> d), t))"

definition rs_guard :: "unit result_op" where
  "rs_guard s = (case rs_failure s of None \<Rightarrow> (Ok (), s) | Some e \<Rightarrow> (Err e, s))"

text \<open>A decoder whose error retires the session: \<open>match decode(..) { Err(e) => return self.fail(Protocol(e)) }\<close>.\<close>

definition rs_decoded :: "(ProtocolError, 'a) result \<Rightarrow> 'a result_op" where
  "rs_decoded r = (case r of Err e \<Rightarrow> rs_fail (Protocol e) | Ok v \<Rightarrow> st_return v)"

definition rs_observe :: "Direction \<Rightarrow> FrameView \<Rightarrow> unit result_op" where
  "rs_observe direction frame s =
     (case observe direction (fv_header frame) (rs_protocol s) of
        (Ok _, p) \<Rightarrow> (Ok (), s\<lparr>rs_protocol := p\<rparr>)
      | (Err e, p) \<Rightarrow> rs_fail (Protocol e) (s\<lparr>rs_protocol := p\<rparr>))"

definition rs_update :: "(ResultSession \<Rightarrow> ResultSession) \<Rightarrow> unit result_op" where
  "rs_update f s = (Ok (), f s)"

definition begin_enumeration :: "FrameView \<Rightarrow> unit result_op" where
  "begin_enumeration frame =
     st_bind rs_guard (\<lambda>_.
     st_bind (rs_decoded (decode_enumerate_payload frame)) (\<lambda>_ s.
     case checked_add (rs_enumeration_counter s) 1 of
       None \<Rightarrow> rs_fail GenerationExhausted s
     | Some enumeration \<Rightarrow>
         if enumeration = 0 then rs_fail GenerationExhausted s
         else
           st_bind (rs_observe ParentToWorker frame) (\<lambda>_.
           rs_update (\<lambda>s. (rs_retire_all s)\<lparr>
             rs_enumeration_counter := enumeration,
             rs_candidate := Some
               \<lparr>cd_generation = \<lparr>cg_epoch = rs_epoch s, cg_enumeration = enumeration\<rparr>,
                cd_promotable = True,
                cd_remaining_entries = il_entries (rs_limits s),
                cd_remaining_path_bytes = il_path_bytes (rs_limits s),
                cd_remaining_total_bytes = il_total_bytes (rs_limits s),
                cd_previous_source_token = None,
                cd_entries = []\<rparr>\<rparr>)) s))"

definition entry_batch_entry_default :: EntryBatchEntry where
  "entry_batch_entry_default = \<lparr>ebe_source_token = 0, ebe_size_bytes = 0, ebe_archive_path = []\<rparr>"

definition entry_metadata_of :: "EntryBatchEntry \<Rightarrow> EntryMetadata" where
  "entry_metadata_of e =
     \<lparr>em_source_token = ebe_source_token e, em_archive_path = ebe_archive_path e,
      em_size_bytes = ebe_size_bytes e\<rparr>"

text \<open>The sums, the last token and the prepared entries of one decoded batch.\<close>

definition batch_path_bytes :: "EntryBatchEntry list \<Rightarrow> u64" where
  "batch_path_bytes es = fold (\<lambda>e n. n + of_nat (length (ebe_archive_path e))) es 0"

definition batch_total_bytes :: "EntryBatchEntry list \<Rightarrow> u64" where
  "batch_total_bytes es = fold (\<lambda>e n. n + ebe_size_bytes e) es 0"

definition batch_last_token :: "EntryBatchEntry list \<Rightarrow> u64" where
  "batch_last_token es = fold (\<lambda>e _. ebe_source_token e) es 0"

definition batch_accepted_entries :: "EntryBatchEntry list \<Rightarrow> u32" where
  "batch_accepted_entries es = (case try_from_nat (length es) of Some n \<Rightarrow> n | None \<Rightarrow> - 1)"

definition candidate_policy :: "ImportLimits \<Rightarrow> Candidate \<Rightarrow> (ProtocolError, EntryBatchPolicy) result" where
  "candidate_policy limits c =
     entry_batch_policy_new (cd_remaining_entries c) (cd_remaining_path_bytes c) (il_entry_bytes limits)
       (cd_remaining_total_bytes c) (cd_previous_source_token c)"

definition candidate_accept :: "EntryBatchEntry list \<Rightarrow> Candidate \<Rightarrow> Candidate" where
  "candidate_accept es c =
     c\<lparr>cd_entries := (if cd_promotable c then cd_entries c @ map entry_metadata_of es else cd_entries c),
       cd_remaining_entries := cd_remaining_entries c - batch_accepted_entries es,
       cd_remaining_path_bytes := cd_remaining_path_bytes c - batch_path_bytes es,
       cd_remaining_total_bytes := cd_remaining_total_bytes c - batch_total_bytes es,
       cd_previous_source_token := Some (batch_last_token es)\<rparr>"

definition accept_entry_batch :: "FrameView \<Rightarrow> unit result_op" where
  "accept_entry_batch frame =
     st_bind rs_guard (\<lambda>_ s.
     case rs_candidate s of
       None \<Rightarrow> rs_fail InvalidState s
     | Some candidate \<Rightarrow>
         st_bind (rs_decoded (candidate_policy (rs_limits s) candidate)) (\<lambda>policy.
         st_bind (rs_decoded (fst (decode_entry_batch_payload frame policy
             (replicate (unat MAXIMUM_ENTRY_BATCH_ENTRIES) entry_batch_entry_default)))) (\<lambda>entries.
         st_bind (rs_observe WorkerToParent frame) (\<lambda>_ s.
         case rs_candidate s of
           None \<Rightarrow> rs_fail InvalidState s
         | Some candidate \<Rightarrow> (Ok (), s\<lparr>rs_candidate := Some (candidate_accept entries candidate)\<rparr>)))) s)"

definition complete_enumeration :: "FrameView \<Rightarrow> unit result_op" where
  "complete_enumeration frame =
     st_bind rs_guard (\<lambda>_.
     st_bind (rs_decoded (decode_complete_payload frame OpEnumerate)) (\<lambda>_ s.
     case rs_candidate s of
       None \<Rightarrow> rs_fail InvalidState s
     | Some candidate \<Rightarrow>
         let generation = cd_generation candidate;
             entries = cd_entries candidate;
             s = s\<lparr>rs_candidate := Some (candidate\<lparr>cd_entries := []\<rparr>)\<rparr>;
             finish = (\<lambda>promotion.
               st_bind (rs_observe WorkerToParent frame) (\<lambda>_.
               rs_update (\<lambda>s. s\<lparr>rs_catalog := (case promotion of None \<Rightarrow> rs_catalog s | Some p \<Rightarrow> Some p),
                                rs_candidate := None\<rparr>)))
         in if cd_promotable candidate then
              let accepted_total = il_total_bytes (rs_limits s) - cd_remaining_total_bytes candidate in
              case plan_catalog entries (rs_limits s) of
                Err e \<Rightarrow> rs_fail (Layout e) s
              | Ok planned \<Rightarrow>
                  if length (cat_entries planned) \<noteq> length entries \<or> cat_total_bytes planned \<noteq> accepted_total
                  then rs_fail ResultValidation s
                  else finish (Some (generation, planned)) s
            else finish None s))"

definition begin_stream_entry :: "FrameView \<Rightarrow> CatalogGeneration \<Rightarrow> unit result_op" where
  "begin_stream_entry frame expected_generation =
     st_bind rs_guard (\<lambda>_.
     st_bind (rs_decoded (decode_stream_entry_payload frame)) (\<lambda>decoded s.
     let size_bytes =
           (case rs_catalog s of
              None \<Rightarrow> None
            | Some (generation, catalog) \<Rightarrow>
                if generation = expected_generation
                then map_option pe_size_bytes (catalog_find catalog (se_source_token decoded))
                else None)
     in case size_bytes of
          None \<Rightarrow> rs_fail UnknownSourceToken s
        | Some n \<Rightarrow>
            st_bind (rs_observe ParentToWorker frame) (\<lambda>_.
            rs_update (\<lambda>s. s\<lparr>rs_stream := Some \<lparr>stm_remaining_bytes = n\<rparr>\<rparr>)) s))"

text \<open>The sink's state is threaded beside the session's.\<close>

definition accept_data_chunk ::
  "(bytes \<Rightarrow> 'k \<Rightarrow> bool \<times> 'k) \<Rightarrow> FrameView \<Rightarrow> (ResultSession \<times> 'k, ResultSessionError, unit) stm" where
  "accept_data_chunk write frame sk =
     (case sk of (s, k) \<Rightarrow>
      let keep = (\<lambda>r :: (ResultSessionError, unit) result \<times> ResultSession. (fst r, (snd r, k))) in
      case rs_guard s of (Err e, s) \<Rightarrow> (Err e, (s, k)) | (Ok _, s) \<Rightarrow>
      (case rs_stream s of
         None \<Rightarrow> keep (rs_fail InvalidState s)
       | Some stream \<Rightarrow>
           (case decode_data_chunk_payload frame (stm_remaining_bytes stream) of
              Err e \<Rightarrow> keep (rs_fail (Protocol e) s)
            | Ok decoded \<Rightarrow>
                (case rs_observe WorkerToParent frame s of
                   (Err e, s) \<Rightarrow> (Err e, (s, k))
                 | (Ok _, s) \<Rightarrow>
                     (case write (dc_data decoded) k of
                        (False, k) \<Rightarrow>
                          let r = rs_fail DownstreamFailure s in (fst r, (snd r, k))
                      | (True, k) \<Rightarrow>
                          (Ok (), (s\<lparr>rs_stream := map_option
                             (\<lambda>st. st\<lparr>stm_remaining_bytes := stm_remaining_bytes st - of_nat (length (dc_data decoded))\<rparr>)
                             (rs_stream s)\<rparr>, k)))))))"

definition complete_stream :: "FrameView \<Rightarrow> unit result_op" where
  "complete_stream frame =
     st_bind rs_guard (\<lambda>_.
     st_bind (rs_decoded (decode_complete_payload frame OpStream)) (\<lambda>_ s.
     case rs_stream s of
       None \<Rightarrow> rs_fail InvalidState s
     | Some stream \<Rightarrow>
         if stm_remaining_bytes stream \<noteq> 0 then rs_fail IncompleteStream s
         else st_bind (rs_observe WorkerToParent frame) (\<lambda>_.
              rs_update (\<lambda>s. s\<lparr>rs_stream := None\<rparr>)) s))"

definition accept_read_request ::
  "FrameView \<Rightarrow> SourceReadPolicy \<Rightarrow> u32 \<Rightarrow> ReadRequestOutcome result_op" where
  "accept_read_request frame policy expected_sequence =
     st_bind rs_guard (\<lambda>_ s.
     let cancelling = (sv_state (rs_protocol s) = Cancelling) in
     st_bind (rs_decoded (decode_read_request_payload frame policy expected_sequence)) (\<lambda>decoded.
     st_bind (rs_observe WorkerToParent frame) (\<lambda>_.
     st_return (if cancelling then IgnoredAfterCancel else Serviceable decoded))) s)"

definition accept_read_reply :: "FrameView \<Rightarrow> u32 \<Rightarrow> u32 \<Rightarrow> unit result_op" where
  "accept_read_reply frame expected_sequence requested_length =
     st_bind rs_guard (\<lambda>_.
     st_bind (rs_decoded (decode_read_reply_payload frame expected_sequence requested_length)) (\<lambda>decoded.
     st_bind (rs_observe ParentToWorker frame) (\<lambda>_.
     case rp_status decoded of
       StatusSourceChanged \<Rightarrow> rs_fail SourceInvalidated
     | StatusSourceReadFailed \<Rightarrow> rs_fail SourceReadFailure
     | _ \<Rightarrow> st_return ())))"

definition accept_cancel :: "FrameView \<Rightarrow> unit result_op" where
  "accept_cancel frame =
     st_bind rs_guard (\<lambda>_.
     st_bind (rs_decoded (decode_cancel_payload frame)) (\<lambda>_.
     st_bind (rs_observe ParentToWorker frame) (\<lambda>_.
     rs_update (\<lambda>s. s\<lparr>rs_catalog := None,
       rs_candidate := map_option (\<lambda>c. c\<lparr>cd_promotable := False, cd_entries := []\<rparr>) (rs_candidate s)\<rparr>))))"

definition accept_cancel_ack :: "FrameView \<Rightarrow> unit result_op" where
  "accept_cancel_ack frame =
     st_bind rs_guard (\<lambda>_.
     st_bind (rs_decoded (decode_cancel_ack_payload frame)) (\<lambda>_.
     st_bind (rs_observe WorkerToParent frame) (\<lambda>_.
     rs_update rs_retire_all)))"

definition accept_shutdown :: "FrameView \<Rightarrow> unit result_op" where
  "accept_shutdown frame =
     st_bind rs_guard (\<lambda>_.
     st_bind (rs_decoded (decode_shutdown_payload frame)) (\<lambda>_.
     st_bind (rs_observe ParentToWorker frame) (\<lambda>_.
     rs_update rs_retire_all)))"

definition invalidate_source :: "ResultSession \<Rightarrow> ResultSession" where
  "invalidate_source s = rs_retire SourceInvalidated s"

definition worker_failed :: "ResultSession \<Rightarrow> ResultSession" where
  "worker_failed s = rs_retire WorkerFailure s"


section \<open>Failing closed\<close>

text \<open>
  What every operation on a live session guarantees whatever its frame: on success the session is
  still live, on failure the error is retained and catalog, candidate and stream are gone; limits
  and epoch never change, and the validator keeps its invariant.  \<open>quiet\<close> is preserved by sequencing, so it is established once per building block.
\<close>

definition rs_kept :: "ResultSession \<Rightarrow> ResultSession \<Rightarrow> bool" where
  "rs_kept s t \<longleftrightarrow> rs_failure t = None \<and> rs_limits t = rs_limits s \<and> rs_epoch t = rs_epoch s \<and>
     (sv_inv (rs_protocol s) \<longrightarrow> sv_inv (rs_protocol t))"

definition rs_dead :: "ResultSession \<Rightarrow> ResultSessionError \<Rightarrow> ResultSession \<Rightarrow> bool" where
  "rs_dead s e t \<longleftrightarrow> rs_failure t = Some e \<and> rs_catalog t = None \<and> rs_candidate t = None \<and>
     rs_stream t = None \<and> rs_limits t = rs_limits s \<and> rs_epoch t = rs_epoch s \<and>
     (sv_inv (rs_protocol s) \<longrightarrow> sv_inv (rs_protocol t))"

definition quiet :: "'a result_op \<Rightarrow> bool" where
  "quiet f \<longleftrightarrow> (\<forall>s. rs_failure s = None \<longrightarrow>
     (case f s of (Err e, t) \<Rightarrow> rs_dead s e t | (Ok _, t) \<Rightarrow> rs_kept s t))"

named_theorems quiet_intros \<open>operations that fail closed\<close>

lemma quiet_pointwise:
  "(\<And>s. rs_failure s = None \<Longrightarrow> \<exists>g. quiet g \<and> f s = g s) \<Longrightarrow> quiet f"
  unfolding quiet_def by metis

lemma quietD_Ok: "quiet f \<Longrightarrow> rs_failure s = None \<Longrightarrow> f s = (Ok v, t) \<Longrightarrow> rs_kept s t"
  by (auto simp: quiet_def dest: spec[of _ s])

lemma quietD_Err: "quiet f \<Longrightarrow> rs_failure s = None \<Longrightarrow> f s = (Err e, t) \<Longrightarrow> rs_dead s e t"
  by (auto simp: quiet_def dest: spec[of _ s])

lemma rs_kept_trans: "rs_kept s t \<Longrightarrow> rs_kept t u \<Longrightarrow> rs_kept s u"
  by (auto simp: rs_kept_def)

lemma rs_kept_dead: "rs_kept s t \<Longrightarrow> rs_dead t e u \<Longrightarrow> rs_dead s e u"
  by (auto simp: rs_kept_def rs_dead_def)

lemma quiet_return [quiet_intros]: "quiet (st_return v)"
  by (simp add: quiet_def rs_kept_def)

lemma rs_fail_live:
  "rs_failure s = None \<Longrightarrow> rs_fail e s = (Err e, rs_retire_all (s\<lparr>rs_failure := Some e\<rparr>))"
  by (simp add: rs_fail_def rs_retire_def rs_retire_all_def)

lemma quiet_fail [quiet_intros]: "quiet (rs_fail e)"
  by (simp add: quiet_def rs_fail_live rs_dead_def rs_retire_all_def)

lemma quiet_decoded [quiet_intros]: "quiet (rs_decoded r)"
  by (cases r) (simp_all add: rs_decoded_def quiet_fail quiet_return)

lemma quiet_bind [quiet_intros]:
  assumes m: "quiet m" and f: "\<And>v. quiet (f v)"
  shows "quiet (st_bind m f)"
  unfolding quiet_def
proof (intro allI impI)
  fix s :: ResultSession assume live: "rs_failure s = None"
  obtain r t where mt: "m s = (r, t)" by (cases "m s") auto
  show "case st_bind m f s of (Err e, t) \<Rightarrow> rs_dead s e t | (Ok _, t) \<Rightarrow> rs_kept s t"
  proof (cases r)
    case (Err e)
    then show ?thesis using quietD_Err[OF m live] mt by (simp add: st_bind_def)
  next
    case (Ok v)
    then have t: "rs_kept s t" using quietD_Ok[OF m live] mt by simp
    then have "rs_failure t = None" by (simp add: rs_kept_def)
    moreover have "st_bind m f s = f v t" using mt Ok by (simp add: st_bind_def)
    ultimately show ?thesis
      using quietD_Ok[OF f[of v], of t] quietD_Err[OF f[of v], of t] rs_kept_trans[OF t] rs_kept_dead[OF t]
      by (auto split: prod.splits result.splits)
  qed
qed

lemma quiet_observe [quiet_intros]: "quiet (rs_observe d f)"
  unfolding quiet_def
proof (intro allI impI)
  fix s :: ResultSession assume live: "rs_failure s = None"
  obtain r p where o: "observe d (fv_header f) (rs_protocol s) = (r, p)"
    by (cases "observe d (fv_header f) (rs_protocol s)") auto
  have "sv_inv (rs_protocol s) \<longrightarrow> sv_inv p" using observe_inv[of "rs_protocol s" d "fv_header f"] o by simp
  with live o show "case rs_observe d f s of (Err e, t) \<Rightarrow> rs_dead s e t | (Ok _, t) \<Rightarrow> rs_kept s t"
    by (cases r) (simp_all add: rs_observe_def rs_fail_live rs_retire_all_def rs_dead_def rs_kept_def)
qed

lemma quiet_update [quiet_intros]:
  "(\<And>s. rs_failure s = None \<Longrightarrow> rs_kept s (f s)) \<Longrightarrow> quiet (rs_update f)"
  by (simp add: quiet_def rs_update_def)

lemma quiet_if [quiet_intros]: "quiet f \<Longrightarrow> quiet g \<Longrightarrow> quiet (if b then f else g)"
  by simp

lemmas result_op_defs = begin_enumeration_def accept_entry_batch_def complete_enumeration_def
  begin_stream_entry_def complete_stream_def accept_read_request_def accept_read_reply_def
  accept_cancel_def accept_cancel_ack_def accept_shutdown_def

text \<open>An operation is a guard followed by a quiet body.\<close>

definition guarded :: "'a result_op \<Rightarrow> bool" where
  "guarded f \<longleftrightarrow> quiet f \<and> (\<forall>s e. rs_failure s = Some e \<longrightarrow> f s = (Err e, s))"

lemma guardedI: "quiet body \<Longrightarrow> guarded (st_bind rs_guard (\<lambda>_. body))"
  by (auto simp: guarded_def quiet_def rs_guard_def st_bind_def)

lemma guarded_accept_shutdown: "guarded (accept_shutdown f)"
  unfolding accept_shutdown_def
  by (intro guardedI quiet_intros) (simp add: rs_kept_def rs_retire_all_def)

lemma guarded_accept_cancel_ack: "guarded (accept_cancel_ack f)"
  unfolding accept_cancel_ack_def
  by (intro guardedI quiet_intros) (simp add: rs_kept_def rs_retire_all_def)

lemma guarded_accept_cancel: "guarded (accept_cancel f)"
  unfolding accept_cancel_def
  by (intro guardedI quiet_intros) (simp add: rs_kept_def)

lemma guarded_accept_read_reply: "guarded (accept_read_reply f q n)"
  unfolding accept_read_reply_def
  by (intro guardedI quiet_bind quiet_decoded quiet_observe)
    (simp add: quiet_fail quiet_return split: ProtocolStatus.split)

lemma quiet_param: "(\<And>x. quiet (h x)) \<Longrightarrow> quiet (\<lambda>s. h (a s) s)"
  by (rule quiet_pointwise) blast

lemma quiet_option:
  "quiet g \<Longrightarrow> (\<And>x. quiet (h x)) \<Longrightarrow> quiet (\<lambda>s. case a s of None \<Rightarrow> g s | Some x \<Rightarrow> h x s)"
  by (rule quiet_pointwise) (auto split: option.split)

lemma quiet_result:
  "(\<And>e. quiet (g e)) \<Longrightarrow> (\<And>x. quiet (h x)) \<Longrightarrow> quiet (\<lambda>s. case a s of Err e \<Rightarrow> g e s | Ok x \<Rightarrow> h x s)"
  by (rule quiet_pointwise) (auto split: result.split)

lemma quiet_if_state: "quiet f \<Longrightarrow> quiet g \<Longrightarrow> quiet (\<lambda>s. if b s then f s else g s)"
  by (rule quiet_pointwise) auto

lemma guarded_accept_read_request: "guarded (accept_read_request f p q)"
  unfolding accept_read_request_def Let_def
  by (intro guardedI quiet_param[where a = "\<lambda>s. sv_state (rs_protocol s) = Cancelling" and
        h = "\<lambda>c. st_bind (rs_decoded (decode_read_request_payload f p q)) (\<lambda>decoded.
          st_bind (rs_observe WorkerToParent f) (\<lambda>_.
          st_return (if c then IgnoredAfterCancel else Serviceable decoded)))"] quiet_intros)

lemma guarded_complete_stream: "guarded (complete_stream f)"
  unfolding complete_stream_def
  by (intro guardedI quiet_bind quiet_option quiet_if_state quiet_intros) (simp_all add: rs_kept_def)

lemma guarded_begin_enumeration: "guarded (begin_enumeration f)"
  unfolding begin_enumeration_def
  by (intro guardedI quiet_bind quiet_option quiet_if_state quiet_intros)
    (simp_all add: rs_kept_def rs_retire_all_def)

lemma guarded_begin_stream_entry: "guarded (begin_stream_entry f g)"
  unfolding begin_stream_entry_def Let_def
  by (intro guardedI quiet_bind quiet_option quiet_if_state quiet_intros) (simp_all add: rs_kept_def)

lemma guarded_accept_entry_batch: "guarded (accept_entry_batch f)"
  unfolding accept_entry_batch_def
proof (intro guardedI, rule quiet_pointwise)
  fix s :: ResultSession
  have upd: "quiet (\<lambda>s. case rs_candidate s of None \<Rightarrow> rs_fail InvalidState s
      | Some c \<Rightarrow> (Ok (), s\<lparr>rs_candidate := Some (candidate_accept es c)\<rparr>))" for es
    by (simp add: quiet_def rs_fail_live rs_dead_def rs_kept_def rs_retire_all_def split: option.split)
  show "\<exists>g. quiet g \<and> (case rs_candidate s of None \<Rightarrow> rs_fail InvalidState s
     | Some candidate \<Rightarrow>
         st_bind (rs_decoded (candidate_policy (rs_limits s) candidate)) (\<lambda>policy.
         st_bind (rs_decoded (fst (decode_entry_batch_payload f policy
             (replicate (unat MAXIMUM_ENTRY_BATCH_ENTRIES) entry_batch_entry_default)))) (\<lambda>entries.
         st_bind (rs_observe WorkerToParent f) (\<lambda>_ s.
         case rs_candidate s of
           None \<Rightarrow> rs_fail InvalidState s
         | Some candidate \<Rightarrow> (Ok (), s\<lparr>rs_candidate := Some (candidate_accept entries candidate)\<rparr>)))) s) = g s"
  proof (cases "rs_candidate s")
    case (Some c)
    show ?thesis unfolding Some option.case
      by (rule exI, rule conjI[OF _ refl]) (intro quiet_intros upd)
  qed (use quiet_fail in auto)
qed

lemma quiet_shift:
  assumes "quiet g" and "\<And>s. rs_failure s = None \<Longrightarrow> rs_kept s (u s)"
  shows "quiet (\<lambda>s. g (u s))"
proof -
  have "quiet (st_bind (rs_update u) (\<lambda>_. g))" using assms by (intro quiet_intros)
  then show ?thesis by (simp add: st_bind_def rs_update_def quiet_def)
qed

text \<open>The end of an enumeration, with or without a promotion.\<close>

definition finish_enumeration :: "FrameView \<Rightarrow> (CatalogGeneration \<times> Catalog) option \<Rightarrow> unit result_op" where
  "finish_enumeration frame promotion =
     st_bind (rs_observe WorkerToParent frame) (\<lambda>_.
     rs_update (\<lambda>s. s\<lparr>rs_catalog := (case promotion of None \<Rightarrow> rs_catalog s | Some p \<Rightarrow> Some p),
                      rs_candidate := None\<rparr>))"

definition promote_candidate :: "FrameView \<Rightarrow> ImportLimits \<Rightarrow> Candidate \<Rightarrow> unit result_op" where
  "promote_candidate frame limits c =
     (if cd_promotable c then
        case plan_catalog (cd_entries c) limits of
          Err e \<Rightarrow> rs_fail (Layout e)
        | Ok planned \<Rightarrow>
            if length (cat_entries planned) \<noteq> length (cd_entries c)
               \<or> cat_total_bytes planned \<noteq> il_total_bytes limits - cd_remaining_total_bytes c
            then rs_fail ResultValidation
            else finish_enumeration frame (Some (cd_generation c, planned))
      else finish_enumeration frame None)"

lemma complete_enumeration_eq:
  "complete_enumeration frame =
     st_bind rs_guard (\<lambda>_.
     st_bind (rs_decoded (decode_complete_payload frame OpEnumerate)) (\<lambda>_ s.
     case rs_candidate s of
       None \<Rightarrow> rs_fail InvalidState s
     | Some c \<Rightarrow> promote_candidate frame (rs_limits s) c (s\<lparr>rs_candidate := Some (c\<lparr>cd_entries := []\<rparr>)\<rparr>)))"
  unfolding complete_enumeration_def promote_candidate_def finish_enumeration_def Let_def
  by (intro arg_cong[where f = "st_bind rs_guard"] arg_cong2[where f = st_bind] refl ext)
    (simp split: option.split result.split)

lemma quiet_promote_candidate: "quiet (promote_candidate f limits c)"
proof -
  have "quiet (finish_enumeration f p)" for p
    unfolding finish_enumeration_def by (intro quiet_intros) (simp add: rs_kept_def)
  then show ?thesis by (simp add: promote_candidate_def quiet_fail split: result.split)
qed

lemma guarded_complete_enumeration: "guarded (complete_enumeration f)"
  unfolding complete_enumeration_eq
proof (intro guardedI quiet_bind quiet_decoded, rule quiet_pointwise)
  fix s :: ResultSession
  show "\<exists>g. quiet g \<and> (case rs_candidate s of None \<Rightarrow> rs_fail InvalidState s
     | Some c \<Rightarrow> promote_candidate f (rs_limits s) c (s\<lparr>rs_candidate := Some (c\<lparr>cd_entries := []\<rparr>)\<rparr>)) = g s"
  proof (cases "rs_candidate s")
    case (Some c)
    have "quiet (\<lambda>s. promote_candidate f l c (s\<lparr>rs_candidate := Some (c\<lparr>cd_entries := []\<rparr>)\<rparr>))" for l
      by (rule quiet_shift[OF quiet_promote_candidate]) (simp add: rs_kept_def)
    then show ?thesis unfolding Some option.case by blast
  qed (use quiet_fail in auto)
qed

section \<open>Calls\<close>

text \<open>
  Any call a parent can make with a frame, as one type, with the sink's state threaded along; the
  session part of a data chunk does not depend on it.
\<close>

datatype ResultCall =
    BeginEnumeration FrameView | AcceptEntryBatch FrameView | CompleteEnumeration FrameView
  | BeginStreamEntry FrameView CatalogGeneration | AcceptDataChunk FrameView
  | CompleteStream FrameView | AcceptReadRequest FrameView SourceReadPolicy u32
  | AcceptReadReply FrameView u32 u32 | AcceptCancel FrameView | AcceptCancelAck FrameView
  | AcceptShutdown FrameView

definition on_session :: "'a result_op \<Rightarrow> (ResultSession \<times> 'k, ResultSessionError, unit) stm" where
  "on_session f sk =
     (case f (fst sk) of (Err e, s) \<Rightarrow> (Err e, (s, snd sk)) | (Ok _, s) \<Rightarrow> (Ok (), (s, snd sk)))"

fun result_call ::
  "(bytes \<Rightarrow> 'k \<Rightarrow> bool \<times> 'k) \<Rightarrow> ResultCall \<Rightarrow> (ResultSession \<times> 'k, ResultSessionError, unit) stm" where
  "result_call write (BeginEnumeration f) = on_session (begin_enumeration f)"
| "result_call write (AcceptEntryBatch f) = on_session (accept_entry_batch f)"
| "result_call write (CompleteEnumeration f) = on_session (complete_enumeration f)"
| "result_call write (BeginStreamEntry f g) = on_session (begin_stream_entry f g)"
| "result_call write (AcceptDataChunk f) = accept_data_chunk write f"
| "result_call write (CompleteStream f) = on_session (complete_stream f)"
| "result_call write (AcceptReadRequest f p q) = on_session (accept_read_request f p q)"
| "result_call write (AcceptReadReply f q n) = on_session (accept_read_reply f q n)"
| "result_call write (AcceptCancel f) = on_session (accept_cancel f)"
| "result_call write (AcceptCancelAck f) = on_session (accept_cancel_ack f)"
| "result_call write (AcceptShutdown f) = on_session (accept_shutdown f)"

lemmas guarded_ops = guarded_begin_enumeration guarded_accept_entry_batch guarded_complete_enumeration
  guarded_begin_stream_entry guarded_complete_stream guarded_accept_read_request
  guarded_accept_read_reply guarded_accept_cancel guarded_accept_cancel_ack guarded_accept_shutdown

definition guarded_call :: "(ResultSession \<times> 'k, ResultSessionError, unit) stm \<Rightarrow> bool" where
  "guarded_call f \<longleftrightarrow> (\<forall>s k.
     (case rs_failure s of
        Some e \<Rightarrow> f (s, k) = (Err e, (s, k))
      | None \<Rightarrow> (case f (s, k) of (Err e, t) \<Rightarrow> rs_dead s e (fst t) | (Ok _, t) \<Rightarrow> rs_kept s (fst t))))"

lemma guarded_on_session: "guarded f \<Longrightarrow> guarded_call (on_session f)"
  by (auto simp: guarded_def guarded_call_def on_session_def dest: quietD_Ok quietD_Err
      split: option.split prod.splits result.splits)

text \<open>A data chunk on a live session, step by step.\<close>

lemma accept_data_chunk_live:
  assumes "rs_failure s = None"
  shows "accept_data_chunk write f (s, k) =
    (case rs_stream s of
       None \<Rightarrow> (Err InvalidState, (snd (rs_fail InvalidState s :: (_, unit) result \<times> _), k))
     | Some st \<Rightarrow>
         (case decode_data_chunk_payload f (stm_remaining_bytes st) of
            Err e \<Rightarrow> (Err (Protocol e), (snd (rs_fail (Protocol e) s :: (_, unit) result \<times> _), k))
          | Ok m \<Rightarrow>
              (case rs_observe WorkerToParent f s of
                 (Err e, t) \<Rightarrow> (Err e, (t, k))
               | (Ok _, t) \<Rightarrow>
                   if fst (write (dc_data m) k)
                   then (Ok (), (t\<lparr>rs_stream := map_option (\<lambda>st. st\<lparr>stm_remaining_bytes :=
                      stm_remaining_bytes st - of_nat (length (dc_data m))\<rparr>) (rs_stream t)\<rparr>, snd (write (dc_data m) k)))
                   else (fst (rs_fail DownstreamFailure t),
                     (snd (rs_fail DownstreamFailure t :: (_, unit) result \<times> _), snd (write (dc_data m) k))))))"
  using assms
  by (simp add: accept_data_chunk_def rs_guard_def rs_fail_live Let_def split_beta
      split: option.split result.split prod.split bool.split)

lemma guarded_accept_data_chunk: "guarded_call (accept_data_chunk write f)"
  unfolding guarded_call_def
proof (intro allI)
  fix s :: ResultSession and k
  note q = quiet_observe[of WorkerToParent f]
  show "case rs_failure s of
        Some e \<Rightarrow> accept_data_chunk write f (s, k) = (Err e, (s, k))
      | None \<Rightarrow> (case accept_data_chunk write f (s, k) of
          (Err e, t) \<Rightarrow> rs_dead s e (fst t) | (Ok _, t) \<Rightarrow> rs_kept s (fst t))"
  proof (cases "rs_failure s")
    case (Some e)
    then show ?thesis by (simp add: accept_data_chunk_def rs_guard_def)
  next
    case None
    have fail: "rs_dead s e (snd (rs_fail e s :: (_, unit) result \<times> _))" for e
      using None by (auto simp: rs_fail_live rs_dead_def rs_retire_all_def)
    show ?thesis
    proof (cases "rs_stream s")
      case st: (Some st)
      show ?thesis
      proof (cases "decode_data_chunk_payload f (stm_remaining_bytes st)")
        case (Ok m)
        obtain r t where o: "rs_observe WorkerToParent f s = (r, t)" by (cases "rs_observe WorkerToParent f s") auto
        show ?thesis
        proof (cases r)
          case (Err e)
          then show ?thesis
            using None st Ok o quietD_Err[OF q None] by (simp add: accept_data_chunk_live[OF None])
        next
          case ok: (Ok u)
          then have kt: "rs_kept s t" using o quietD_Ok[OF q None] by simp
          then have "rs_failure t = None" by (simp add: rs_kept_def)
          then show ?thesis
            using None st Ok o ok kt
            by (auto simp: accept_data_chunk_live[OF None] rs_fail_live rs_dead_def rs_kept_def rs_retire_all_def)
        qed
      qed (use None st fail in \<open>simp add: accept_data_chunk_live[OF None]\<close>)
    qed (use None fail in \<open>simp add: accept_data_chunk_live[OF None]\<close>)
  qed
qed

lemma guarded_result_call: "guarded_call (result_call write c)"
  by (cases c) (simp_all add: guarded_on_session guarded_ops guarded_accept_data_chunk)

interpretation result_session: sticky_machine "result_call wr" "\<lambda>sk. rs_failure (fst sk)" for wr
proof
  fix sk t c e u
  note g = guarded_result_call[of wr c, unfolded guarded_call_def, rule_format, of "fst sk" "snd sk"]
  show "rs_failure (fst sk) = Some e \<Longrightarrow> result_call wr c sk = (Err e, sk)" using g by simp
  show "result_call wr c sk = (Err e, t) \<Longrightarrow> rs_failure (fst t) = Some e"
    using g by (auto simp: rs_dead_def split: option.splits)
  show "result_call wr c sk = (Ok u, t) \<Longrightarrow> rs_failure (fst t) = None"
    using g by (auto simp: rs_kept_def split: option.splits)
qed

section \<open>The invariant\<close>

fun view_op :: "ProtocolView \<Rightarrow> OperationPhase option" where
  "view_op (Busy op rid reading) = Some op"
| "view_op (Withdrawing op rid reading crossed) = Some op"
| "view_op _ = None"

definition rs_op :: "ResultSession \<Rightarrow> OperationPhase option" where
  "rs_op s = view_op (sv_view (rs_protocol s))"

definition last_token :: "EntryMetadata list \<Rightarrow> u64 option" where
  "last_token es = (if es = [] then None else Some (em_source_token (last es)))"

text \<open>
  The candidate's remaining quotas are exactly what the entries accepted so far leave of the limits,
  so that no subtraction wraps; after a cancel the entries are gone but the quotas still bound the
  frames in flight.
\<close>

definition candidate_inv :: "ImportLimits \<Rightarrow> Candidate \<Rightarrow> bool" where
  "candidate_inv limits c \<longleftrightarrow>
     cd_remaining_entries c \<le> il_entries limits \<and> cd_remaining_path_bytes c \<le> il_path_bytes limits \<and>
     cd_remaining_total_bytes c \<le> il_total_bytes limits \<and>
     (if cd_promotable c then
        length (cd_entries c) + unat (cd_remaining_entries c) = unat (il_entries limits) \<and>
        spelling_bytes (cd_entries c) + unat (cd_remaining_path_bytes c) = unat (il_path_bytes limits) \<and>
        declared_bytes (cd_entries c) + unat (cd_remaining_total_bytes c) = unat (il_total_bytes limits) \<and>
        sorted_wrt (<) (map em_source_token (cd_entries c)) \<and>
        cd_previous_source_token c = last_token (cd_entries c) \<and>
        list_all (\<lambda>e. em_size_bytes e \<le> il_entry_bytes limits \<and> spelling_ok (em_archive_path e)) (cd_entries c)
      else cd_entries c = [])"

definition current_generation :: "ResultSession \<Rightarrow> CatalogGeneration" where
  "current_generation s = \<lparr>cg_epoch = rs_epoch s, cg_enumeration = rs_enumeration_counter s\<rparr>"

definition candidate_ok ::
  "ImportLimits \<Rightarrow> CatalogGeneration \<Rightarrow> (CatalogGeneration \<times> Catalog) option \<Rightarrow> Candidate option \<Rightarrow> bool" where
  "candidate_ok limits g catalog cand \<longleftrightarrow>
     (case cand of None \<Rightarrow> True | Some c \<Rightarrow>
        candidate_inv limits c \<and> cd_generation c = g \<and> cg_enumeration g \<noteq> 0 \<and> catalog = None)"

definition catalog_ok ::
  "ImportLimits \<Rightarrow> CatalogGeneration \<Rightarrow> (CatalogGeneration \<times> Catalog) option \<Rightarrow> bool" where
  "catalog_ok limits g catalog \<longleftrightarrow>
     (case catalog of None \<Rightarrow> True | Some (h, c) \<Rightarrow>
        h = g \<and> cg_enumeration g \<noteq> 0 \<and> (\<exists>es. plan_catalog es limits = Ok c))"

lemma ok_simps [simp]:
  "candidate_ok limits g catalog None" "catalog_ok limits g None"
  "candidate_ok limits g catalog (Some c) \<longleftrightarrow>
     candidate_inv limits c \<and> cd_generation c = g \<and> cg_enumeration g \<noteq> 0 \<and> catalog = None"
  "catalog_ok limits g (Some (h, k)) \<longleftrightarrow>
     h = g \<and> cg_enumeration g \<noteq> 0 \<and> (\<exists>es. plan_catalog es limits = Ok k)"
  by (simp_all add: candidate_ok_def catalog_ok_def)

definition rs_inv :: "ResultSession \<Rightarrow> bool" where
  "rs_inv s \<longleftrightarrow> sv_inv (rs_protocol s) \<and>
     (if rs_failure s = None then
        (rs_candidate s \<noteq> None \<longleftrightarrow> rs_op s = Some OpEnumerate) \<and>
        (rs_stream s \<noteq> None \<longleftrightarrow> rs_op s = Some OpStream) \<and>
        candidate_ok (rs_limits s) (current_generation s) (rs_catalog s) (rs_candidate s) \<and>
        catalog_ok (rs_limits s) (current_generation s) (rs_catalog s)
      else rs_catalog s = None \<and> rs_candidate s = None \<and> rs_stream s = None)"

lemma rs_dead_inv: "rs_inv s \<Longrightarrow> rs_dead s e t \<Longrightarrow> rs_inv t"
  by (auto simp: rs_inv_def rs_dead_def)

text \<open>What a successful observation tells: the validator took an exchange of this kind.\<close>

lemma rs_observe_Ok:
  assumes "rs_observe d f s = (Ok (), t)" and "sv_inv (rs_protocol s)"
  shows "t = s\<lparr>rs_protocol := rs_protocol t\<rparr> \<and> sv_inv (rs_protocol t) \<and>
    exchange (sv_view (rs_protocol s)) (d, fh_message_type (fv_header f), fh_request_id (fv_header f))
      (sv_view (rs_protocol t))"
proof -
  obtain r p where o: "observe d (fv_header f) (rs_protocol s) = (r, p)"
    by (cases "observe d (fv_header f) (rs_protocol s)") auto
  with assms(1) have "r = Ok ()" "t = s\<lparr>rs_protocol := p\<rparr>"
    by (cases r; auto simp: rs_observe_def rs_fail_def Let_def)+
  with o observe_Ok_refines[OF assms(2), of d "fv_header f" p] show ?thesis by (simp add: label_of_def)
qed

lemma rs_guard_Ok [result_simps]: "rs_guard s = (Ok u, t) \<longleftrightarrow> rs_failure s = None \<and> t = s"
  by (auto simp: rs_guard_def split: option.splits)

lemma rs_fail_not_Ok [simp]: "rs_fail e s \<noteq> (Ok v, t)"
  by (simp add: rs_fail_def Let_def)

lemma rs_decoded_Ok [result_simps]: "rs_decoded r s = (Ok v, t) \<longleftrightarrow> r = Ok v \<and> t = s"
  by (cases r) (auto simp: rs_decoded_def)

lemma rs_update_Ok [result_simps]: "rs_update g s = (Ok u, t) \<longleftrightarrow> t = g s"
  by (auto simp: rs_update_def)

lemma exchange_op:
  "exchange w (ParentToWorker, Enumerate, r) w' \<Longrightarrow> view_op w' = Some OpEnumerate"
  "exchange w (ParentToWorker, StreamEntry, r) w' \<Longrightarrow> view_op w' = Some OpStream \<and> view_op w = None"
  "exchange w (d, EntryBatch, r) w' \<Longrightarrow> view_op w' = view_op w"
  "exchange w (d, DataChunk, r) w' \<Longrightarrow> view_op w' = view_op w"
  "exchange w (d, ReadRequest, r) w' \<Longrightarrow> view_op w' = view_op w"
  "exchange w (d, ReadReply, r) w' \<Longrightarrow> view_op w' = view_op w"
  "exchange w (d, Cancel, r) w' \<Longrightarrow> view_op w' = view_op w"
  "exchange w (d, Complete, r) w' \<Longrightarrow> view_op w' = None"
  "exchange w (d, CancelAck, r) w' \<Longrightarrow> view_op w' = None"
  "exchange w (d, Shutdown, r) w' \<Longrightarrow> view_op w' = None"
  by (erule exchange.cases; auto simp: kind_iffs)+

lemma session_upd [simp]:
  "rs_op (s\<lparr>rs_candidate := a\<rparr>) = rs_op s" "rs_op (s\<lparr>rs_catalog := b\<rparr>) = rs_op s"
  "rs_op (s\<lparr>rs_stream := c\<rparr>) = rs_op s" "rs_op (s\<lparr>rs_enumeration_counter := n\<rparr>) = rs_op s"
  "rs_op (s\<lparr>rs_protocol := p\<rparr>) = view_op (sv_view p)"
  "current_generation (s\<lparr>rs_candidate := a\<rparr>) = current_generation s"
  "current_generation (s\<lparr>rs_catalog := b\<rparr>) = current_generation s"
  "current_generation (s\<lparr>rs_stream := c\<rparr>) = current_generation s"
  "current_generation (s\<lparr>rs_protocol := p\<rparr>) = current_generation s"
  by (simp_all add: rs_op_def current_generation_def)

end
