(* ===== verification/Import_Results_Correct.thy ===== *)
theory Import_Results_Correct
  imports Import_Results
begin

text \<open>
  Correctness of \<open>result_session.rs\<close>: every operation keeps the invariant of the result session,
  also across failures and out-of-band notifications, and what follows for quotas, catalogs,
  streams and cancellation.
\<close>

section \<open>Batches and quotas\<close>

lemma batch_sums:
  assumes "entry_batch_valid policy es"
  shows "unat (batch_path_bytes es) = path_sum es" "unat (batch_total_bytes es) = content_sum es"
    "unat (batch_accepted_entries es) = length es" "batch_last_token es = ebe_source_token (last es)"
proof -
  from assms have q: "path_sum es \<le> unat (ebp_remaining_path_bytes policy)"
    "content_sum es \<le> unat (ebp_remaining_total_bytes policy)" "es \<noteq> []"
    by (simp_all add: entry_batch_valid_def entries_within_def entries_from_def)
  have p: "unat (fold (\<lambda>e n. n + of_nat (length (ebe_archive_path e))) es n) = unat n + path_sum es"
    if "unat n + path_sum es \<le> unat m" for n m :: u64
    using that
  proof (induction es arbitrary: n)
    case (Cons e es)
    have "unat n + length (ebe_archive_path e) \<le> unat m" using Cons.prems by (simp add: path_sum_def)
    from unat_add_of_nat_within[OF this] Cons.IH[of "n + of_nat (length (ebe_archive_path e))"] Cons.prems
    show ?case by (simp add: path_sum_def)
  qed (simp add: path_sum_def)
  from p[of 0 "ebp_remaining_path_bytes policy"] q show "unat (batch_path_bytes es) = path_sum es"
    by (simp add: batch_path_bytes_def)
  have c: "unat (fold (\<lambda>e n. n + ebe_size_bytes e) es n) = unat n + content_sum es"
    if "unat n + content_sum es \<le> unat m" for n m :: u64
    using that
  proof (induction es arbitrary: n)
    case (Cons e es)
    have "unat n + unat (ebe_size_bytes e) \<le> unat m" using Cons.prems by (simp add: content_sum_def)
    from unat_add_within[OF this] Cons.IH[of "n + ebe_size_bytes e"] Cons.prems
    show ?case by (simp add: content_sum_def)
  qed (simp add: content_sum_def)
  from c[of 0 "ebp_remaining_total_bytes policy"] q show "unat (batch_total_bytes es) = content_sum es"
    by (simp add: batch_total_bytes_def)
  have "length es \<le> 256" using assms by (simp add: entry_batch_valid_def owp_consts)
  then show "unat (batch_accepted_entries es) = length es"
    by (simp add: batch_accepted_entries_def try_from_nat_def unat_of_nat)
  have "fold (\<lambda>e _. ebe_source_token e) es t = ebe_source_token (last es)" for t
    using q(3) by (induction es arbitrary: t rule: rev_induct) auto
  then show "batch_last_token es = ebe_source_token (last es)" by (simp add: batch_last_token_def)
qed

lemma candidate_policy_Ok:
  "candidate_policy limits c = Ok policy \<Longrightarrow>
     ebp_remaining_entries policy = cd_remaining_entries c \<and>
     ebp_remaining_path_bytes policy = cd_remaining_path_bytes c \<and>
     ebp_maximum_entry_bytes policy = il_entry_bytes limits \<and>
     ebp_remaining_total_bytes policy = cd_remaining_total_bytes c \<and>
     ebp_previous_source_token policy = cd_previous_source_token c"
  by (auto simp: candidate_policy_def entry_batch_policy_new_def split: if_splits)

lemma entry_metadata_of_fields [simp]:
  "em_source_token (entry_metadata_of e) = ebe_source_token e"
  "em_archive_path (entry_metadata_of e) = ebe_archive_path e"
  "em_size_bytes (entry_metadata_of e) = ebe_size_bytes e"
  by (simp_all add: entry_metadata_of_def)

lemma metadata_sums [simp]:
  "spelling_bytes (map entry_metadata_of es) = path_sum es"
  "declared_bytes (map entry_metadata_of es) = content_sum es"
  by (simp_all add: spelling_bytes_def declared_bytes_def path_sum_def content_sum_def entry_metadata_of_def comp_def)

lemma sums_append:
  "spelling_bytes (es @ fs) = spelling_bytes es + spelling_bytes fs"
  "declared_bytes (es @ fs) = declared_bytes es + declared_bytes fs"
  by (simp_all add: spelling_bytes_def declared_bytes_def)

lemma tokens_extend:
  assumes "sorted_wrt (<) (map em_source_token es)" and "tokens_above (last_token es) ts"
  shows "sorted_wrt (<) (map em_source_token es @ ts)"
proof (cases "es = []")
  case False
  then have "last_token es = Some (em_source_token (last es))" by (simp add: last_token_def)
  with assms(2) have ts: "sorted_wrt (<) ts" "\<forall>t \<in> set ts. em_source_token (last es) < t" by auto
  have "x \<le> em_source_token (last es)" if "x \<in> set (map em_source_token es)" for x
  proof -
    have "map em_source_token es = map em_source_token (butlast es) @ [em_source_token (last es)]"
      using False by (metis append_butlast_last_id list.simps(8,9) map_append)
    with assms(1) that show ?thesis by (auto simp: sorted_wrt_append)
  qed
  with ts assms(1) show ?thesis by (force simp: sorted_wrt_append)
qed (use assms in \<open>simp add: last_token_def\<close>)

lemma candidate_accept_inv:
  assumes inv: "candidate_inv limits c" and policy: "candidate_policy limits c = Ok policy"
    and valid: "entry_batch_valid policy es"
  shows "candidate_inv limits (candidate_accept es c)"
proof -
  note p = candidate_policy_Ok[OF policy] and b = batch_sums[OF valid]
  have v: "es \<noteq> []" "length es \<le> unat (cd_remaining_entries c)"
    "path_sum es \<le> unat (cd_remaining_path_bytes c)" "content_sum es \<le> unat (cd_remaining_total_bytes c)"
    "tokens_above (cd_previous_source_token c) (map ebe_source_token es)"
    "\<forall>e \<in> set es. spelling_ok (ebe_archive_path e) \<and> ebe_size_bytes e \<le> il_entry_bytes limits"
    using valid p by (simp_all add: entry_batch_valid_def entries_within_def entries_from_def)
  have r: "unat (cd_remaining_entries c - batch_accepted_entries es) = unat (cd_remaining_entries c) - length es"
    "unat (cd_remaining_path_bytes c - batch_path_bytes es) = unat (cd_remaining_path_bytes c) - path_sum es"
    "unat (cd_remaining_total_bytes c - batch_total_bytes es) = unat (cd_remaining_total_bytes c) - content_sum es"
    using v b by (simp_all add: unat_diff_le word_le_nat_alt)
  have "sorted_wrt (<) (map em_source_token (cd_entries c) @ map ebe_source_token es)"
    if "cd_promotable c" using that inv v(5) by (intro tokens_extend) (simp_all add: candidate_inv_def)
  moreover have "last_token (xs @ map entry_metadata_of es) = Some (batch_last_token es)" for xs
    using v(1) b(4) by (simp add: last_token_def last_map entry_metadata_of_def)
  moreover have "list_all (\<lambda>e. em_size_bytes e \<le> il_entry_bytes limits \<and> spelling_ok (em_archive_path e))
      (map entry_metadata_of es)" using v(6) by (simp add: list_all_iff entry_metadata_of_def)
  ultimately show ?thesis
    using inv v r by (auto simp: candidate_inv_def candidate_accept_def word_le_nat_alt sums_append comp_def)
qed


lemma rs_observe_OkE:
  assumes "rs_observe d f s = (Ok (), t)" and "rs_inv s"
  obtains p where "t = s\<lparr>rs_protocol := p\<rparr>" "sv_inv p"
    "exchange (sv_view (rs_protocol s)) (d, fh_message_type (fv_header f), fh_request_id (fv_header f)) (sv_view p)"
  using rs_observe_Ok[OF assms(1)] assms(2) by (auto simp: rs_inv_def)

text \<open>Each operation keeps the invariant when it succeeds.\<close>

lemma begin_enumeration_inv:
  assumes "rs_inv s" and "begin_enumeration f s = (Ok (), t)"
  shows "rs_inv t \<and> unat (rs_enumeration_counter t) = unat (rs_enumeration_counter s) + 1 \<and> rs_catalog t = None"
proof -
  from assms(2) obtain n u where live: "rs_failure s = None"
    and dec: "decode_enumerate_payload f = Ok ()"
    and n: "checked_add (rs_enumeration_counter s) 1 = Some n" "n \<noteq> 0"
    and o: "rs_observe ParentToWorker f s = (Ok (), u)"
    and t: "t = (rs_retire_all u)\<lparr>
             rs_enumeration_counter := n,
             rs_candidate := Some
               \<lparr>cd_generation = \<lparr>cg_epoch = rs_epoch u, cg_enumeration = n\<rparr>,
                cd_promotable = True,
                cd_remaining_entries = il_entries (rs_limits u),
                cd_remaining_path_bytes = il_path_bytes (rs_limits u),
                cd_remaining_total_bytes = il_total_bytes (rs_limits u),
                cd_previous_source_token = None,
                cd_entries = []\<rparr>\<rparr>"
    by (auto simp: begin_enumeration_def result_simps split: option.splits if_splits)
  from o assms(1) obtain p where p: "u = s\<lparr>rs_protocol := p\<rparr>" "sv_inv p"
    "exchange (sv_view (rs_protocol s)) (ParentToWorker, Enumerate, fh_request_id (fv_header f)) (sv_view p)"
    using dec by (auto elim!: rs_observe_OkE simp: decode_enumerate_payload_def decode_empty_Ok)
  from exchange_op(1)[OF p(3)] p(1,2) t n live show ?thesis
    by (auto simp: rs_inv_def rs_retire_all_def candidate_inv_def current_generation_def last_token_def
        spelling_bytes_def declared_bytes_def checked_add_Some_iff rs_op_def)
qed

lemma accept_entry_batch_inv:
  assumes inv: "rs_inv s" and ok: "accept_entry_batch f s = (Ok (), t)"
  shows "rs_inv t"
proof -
  from ok obtain c policy es u where live: "rs_failure s = None" and c: "rs_candidate s = Some c"
    and pol: "candidate_policy (rs_limits s) c = Ok policy"
    and dec: "fst (decode_entry_batch_payload f policy
        (replicate (unat MAXIMUM_ENTRY_BATCH_ENTRIES) entry_batch_entry_default)) = Ok es"
    and o: "rs_observe WorkerToParent f s = (Ok (), u)"
    and t: "(case rs_candidate u of None \<Rightarrow> rs_fail InvalidState u
         | Some c \<Rightarrow> (Ok (), u\<lparr>rs_candidate := Some (candidate_accept es c)\<rparr>)) = (Ok (), t)"
    by (auto simp: accept_entry_batch_def result_simps split: option.splits)
  have b: "fh_message_type (fv_header f) = EntryBatch" "entry_batch_valid policy es"
    using dec by (simp_all add: entry_batch_codec.decode_Ok)
  from o inv obtain p where p: "u = s\<lparr>rs_protocol := p\<rparr>" "sv_inv p"
    "exchange (sv_view (rs_protocol s)) (WorkerToParent, EntryBatch, fh_request_id (fv_header f)) (sv_view p)"
    using b(1) by (auto elim!: rs_observe_OkE)
  then have "t = s\<lparr>rs_protocol := p, rs_candidate := Some (candidate_accept es c)\<rparr>" using t c by simp
  moreover have "candidate_inv (rs_limits s) (candidate_accept es c)"
    using inv live c pol b(2) by (auto intro!: candidate_accept_inv simp: rs_inv_def)
  ultimately show ?thesis using inv live c p(2) exchange_op(3)[OF p(3)]
    by (simp add: rs_inv_def rs_op_def candidate_accept_def)
qed

lemma finish_enumeration_inv:
  assumes inv: "rs_inv s" and live: "rs_failure s = None" and c: "rs_candidate s = Some c"
    and kind: "fh_message_type (fv_header f) = Complete"
    and ok: "finish_enumeration f promotion (s\<lparr>rs_candidate := Some (c\<lparr>cd_entries := []\<rparr>)\<rparr>) = (Ok (), t)"
    and promo: "promotion = None \<or> (\<exists>k es. promotion = Some (cd_generation c, k) \<and> plan_catalog es (rs_limits s) = Ok k)"
  shows "rs_inv t \<and> rs_catalog t = promotion"
proof -
  let ?s = "s\<lparr>rs_candidate := Some (c\<lparr>cd_entries := []\<rparr>)\<rparr>"
  from ok obtain u where o: "rs_observe WorkerToParent f ?s = (Ok (), u)"
    and t: "t = u\<lparr>rs_catalog := (case promotion of None \<Rightarrow> rs_catalog u | Some p \<Rightarrow> Some p), rs_candidate := None\<rparr>"
    by (auto simp: finish_enumeration_def result_simps)
  have "sv_inv (rs_protocol ?s)" using inv by (simp add: rs_inv_def)
  from rs_observe_Ok[OF o this] kind obtain p where p: "u = ?s\<lparr>rs_protocol := p\<rparr>" "sv_inv p"
    "exchange (sv_view (rs_protocol s)) (WorkerToParent, Complete, fh_request_id (fv_header f)) (sv_view p)"
    by auto
  have "rs_stream s = None" using inv live c by (auto simp: rs_inv_def)
  with inv live c p(1,2) exchange_op(8)[OF p(3)] t promo show ?thesis
    by (auto simp: rs_inv_def rs_op_def current_generation_def)
qed

lemma declared_total:
  assumes "candidate_inv limits c" and "cd_promotable c"
  shows "unat (il_total_bytes limits - cd_remaining_total_bytes c) = declared_bytes (cd_entries c)"
  using assms by (auto simp: candidate_inv_def unat_diff_le)

lemma complete_enumeration_inv:
  assumes inv: "rs_inv s" and ok: "complete_enumeration f s = (Ok (), t)"
  shows "rs_inv t \<and> (\<exists>c. rs_candidate s = Some c \<and>
    (if cd_promotable c then \<exists>k. rs_catalog t = Some (cd_generation c, k) \<and> plan_catalog (cd_entries c) (rs_limits s) = Ok k
     else rs_catalog t = None))"
proof -
  from ok obtain c m where live: "rs_failure s = None" and c: "rs_candidate s = Some c"
    and dec: "decode_complete_payload f OpEnumerate = Ok m"
    and pr: "promote_candidate f (rs_limits s) c (s\<lparr>rs_candidate := Some (c\<lparr>cd_entries := []\<rparr>)\<rparr>) = (Ok (), t)"
    by (auto simp: complete_enumeration_eq result_simps split: option.splits)
  have kind: "fh_message_type (fv_header f) = Complete" using dec by (simp add: complete_codec.decode_Ok)
  show ?thesis
  proof (cases "cd_promotable c")
    case True
    with pr obtain k where k: "plan_catalog (cd_entries c) (rs_limits s) = Ok k"
      "finish_enumeration f (Some (cd_generation c, k)) (s\<lparr>rs_candidate := Some (c\<lparr>cd_entries := []\<rparr>)\<rparr>) = (Ok (), t)"
      by (auto simp: promote_candidate_def split: result.splits if_splits)
    from finish_enumeration_inv[OF inv live c kind k(2)] k(1) True c show ?thesis by auto
  next
    case False
    with pr have fin: "finish_enumeration f None (s\<lparr>rs_candidate := Some (c\<lparr>cd_entries := []\<rparr>)\<rparr>) = (Ok (), t)"
      by (simp add: promote_candidate_def)
    from finish_enumeration_inv[OF inv live c kind fin] False c show ?thesis by auto
  qed
qed

lemma begin_stream_entry_inv:
  assumes inv: "rs_inv s" and ok: "begin_stream_entry f g s = (Ok (), t)"
  shows "rs_inv t \<and> (\<exists>k m e. rs_catalog s = Some (g, k) \<and> decode_stream_entry_payload f = Ok m \<and>
    catalog_find k (se_source_token m) = Some e \<and> rs_stream t = Some \<lparr>stm_remaining_bytes = pe_size_bytes e\<rparr>)"
proof -
  from ok obtain m k e u where live: "rs_failure s = None" and dec: "decode_stream_entry_payload f = Ok m"
    and k: "rs_catalog s = Some (g, k)" "catalog_find k (se_source_token m) = Some e"
    and o: "rs_observe ParentToWorker f s = (Ok (), u)"
    and t: "t = u\<lparr>rs_stream := Some \<lparr>stm_remaining_bytes = pe_size_bytes e\<rparr>\<rparr>"
    by (auto simp: begin_stream_entry_def result_simps Let_def split: option.splits if_splits)
  have "fh_message_type (fv_header f) = StreamEntry" using dec by (simp add: stream_entry_codec.decode_Ok)
  with o inv obtain p where p: "u = s\<lparr>rs_protocol := p\<rparr>" "sv_inv p"
    "exchange (sv_view (rs_protocol s)) (ParentToWorker, StreamEntry, fh_request_id (fv_header f)) (sv_view p)"
    by (auto elim!: rs_observe_OkE)
  have "rs_candidate s = None" using inv live k(1) by (cases "rs_candidate s") (auto simp: rs_inv_def)
  with inv live p t k dec exchange_op(2)[OF p(3)] show ?thesis
    by (auto simp: rs_inv_def rs_op_def)
qed

lemma complete_stream_inv:
  assumes inv: "rs_inv s" and ok: "complete_stream f s = (Ok (), t)"
  shows "rs_inv t \<and> rs_stream s = Some \<lparr>stm_remaining_bytes = 0\<rparr> \<and> rs_catalog t = rs_catalog s"
proof -
  from ok obtain m st u where live: "rs_failure s = None" and dec: "decode_complete_payload f OpStream = Ok m"
    and st: "rs_stream s = Some st" "stm_remaining_bytes st = 0"
    and o: "rs_observe WorkerToParent f s = (Ok (), u)" and t: "t = u\<lparr>rs_stream := None\<rparr>"
    by (auto simp: complete_stream_def result_simps split: option.splits if_splits)
  have "fh_message_type (fv_header f) = Complete" using dec by (simp add: complete_codec.decode_Ok)
  with o inv obtain p where p: "u = s\<lparr>rs_protocol := p\<rparr>" "sv_inv p"
    "exchange (sv_view (rs_protocol s)) (WorkerToParent, Complete, fh_request_id (fv_header f)) (sv_view p)"
    by (auto elim!: rs_observe_OkE)
  have "rs_candidate s = None" using inv live st(1) by (auto simp: rs_inv_def)
  with inv live p t st exchange_op(8)[OF p(3)] show ?thesis
    by (auto simp: rs_inv_def rs_op_def)
qed

lemma accept_read_request_inv:
  assumes inv: "rs_inv s" and ok: "accept_read_request f policy q s = (Ok v, t)"
  shows "rs_inv t \<and> rs_catalog t = rs_catalog s \<and> rs_stream t = rs_stream s \<and> rs_candidate t = rs_candidate s \<and>
    (\<forall>m. v = Serviceable m \<longrightarrow> decode_read_request_payload f policy q = Ok m \<and> sv_state (rs_protocol s) \<noteq> Cancelling)"
proof -
  from ok obtain m where live: "rs_failure s = None" and dec: "decode_read_request_payload f policy q = Ok m"
    and o: "rs_observe WorkerToParent f s = (Ok (), t)"
    and v: "v = (if sv_state (rs_protocol s) = Cancelling then IgnoredAfterCancel else Serviceable m)"
    by (auto simp: accept_read_request_def result_simps Let_def)
  have "fh_message_type (fv_header f) = ReadRequest" using dec by (simp add: read_request_codec.decode_Ok)
  with o inv obtain p where p: "t = s\<lparr>rs_protocol := p\<rparr>" "sv_inv p"
    "exchange (sv_view (rs_protocol s)) (WorkerToParent, ReadRequest, fh_request_id (fv_header f)) (sv_view p)"
    by (auto elim!: rs_observe_OkE)
  with inv live dec v exchange_op(5)[OF p(3)] show ?thesis by (auto simp: rs_inv_def rs_op_def)
qed

lemma accept_read_reply_inv:
  assumes inv: "rs_inv s" and ok: "accept_read_reply f q n s = (Ok (), t)"
  shows "rs_inv t \<and> rs_catalog t = rs_catalog s \<and> rs_stream t = rs_stream s \<and> rs_candidate t = rs_candidate s"
proof -
  from ok obtain m u where live: "rs_failure s = None" and dec: "decode_read_reply_payload f q n = Ok m"
    and "rs_observe ParentToWorker f s = (Ok (), u)"
    and "(case rp_status m of StatusSourceChanged \<Rightarrow> rs_fail SourceInvalidated
      | StatusSourceReadFailed \<Rightarrow> rs_fail SourceReadFailure | _ \<Rightarrow> st_return ()) u = (Ok (), t)"
    by (auto simp: accept_read_reply_def result_simps)
  then have o: "rs_observe ParentToWorker f s = (Ok (), t)" by (cases "rp_status m") simp_all
  have "fh_message_type (fv_header f) = ReadReply" using dec by (simp add: read_reply_codec.decode_Ok)
  with o inv obtain p where p: "t = s\<lparr>rs_protocol := p\<rparr>" "sv_inv p"
    "exchange (sv_view (rs_protocol s)) (ParentToWorker, ReadReply, fh_request_id (fv_header f)) (sv_view p)"
    by (auto elim!: rs_observe_OkE)
  with inv live exchange_op(6)[OF p(3)] show ?thesis by (auto simp: rs_inv_def rs_op_def)
qed

lemma accept_cancel_inv:
  assumes inv: "rs_inv s" and ok: "accept_cancel f s = (Ok (), t)"
  shows "rs_inv t \<and> rs_catalog t = None \<and> rs_stream t = rs_stream s"
proof -
  from ok obtain u where live: "rs_failure s = None" and dec: "decode_cancel_payload f = Ok ()"
    and o: "rs_observe ParentToWorker f s = (Ok (), u)"
    and t: "t = u\<lparr>rs_catalog := None,
       rs_candidate := map_option (\<lambda>c. c\<lparr>cd_promotable := False, cd_entries := []\<rparr>) (rs_candidate u)\<rparr>"
    by (auto simp: accept_cancel_def result_simps)
  have "fh_message_type (fv_header f) = Cancel" using dec by (simp add: decode_cancel_payload_def decode_empty_Ok)
  with o inv obtain p where p: "u = s\<lparr>rs_protocol := p\<rparr>" "sv_inv p"
    "exchange (sv_view (rs_protocol s)) (ParentToWorker, Cancel, fh_request_id (fv_header f)) (sv_view p)"
    by (auto elim!: rs_observe_OkE)
  with inv live t exchange_op(7)[OF p(3)] show ?thesis
    by (cases "rs_candidate s") (auto simp: rs_inv_def rs_op_def candidate_inv_def)
qed

lemma accept_cancel_ack_inv:
  assumes inv: "rs_inv s" and ok: "accept_cancel_ack f s = (Ok (), t)"
  shows "rs_inv t \<and> rs_catalog t = None"
proof -
  from ok obtain u where live: "rs_failure s = None" and dec: "decode_cancel_ack_payload f = Ok ()"
    and o: "rs_observe WorkerToParent f s = (Ok (), u)" and t: "t = rs_retire_all u"
    by (auto simp: accept_cancel_ack_def result_simps)
  have "fh_message_type (fv_header f) = CancelAck" using dec by (simp add: decode_cancel_ack_payload_def decode_empty_Ok)
  with o inv obtain p where p: "u = s\<lparr>rs_protocol := p\<rparr>" "sv_inv p"
    "exchange (sv_view (rs_protocol s)) (WorkerToParent, CancelAck, fh_request_id (fv_header f)) (sv_view p)"
    by (auto elim!: rs_observe_OkE)
  with live t exchange_op(9)[OF p(3)] show ?thesis by (simp add: rs_inv_def rs_op_def rs_retire_all_def)
qed

lemma accept_shutdown_inv:
  assumes inv: "rs_inv s" and ok: "accept_shutdown f s = (Ok (), t)"
  shows "rs_inv t \<and> rs_catalog t = None"
proof -
  from ok obtain u where live: "rs_failure s = None" and dec: "decode_shutdown_payload f = Ok ()"
    and o: "rs_observe ParentToWorker f s = (Ok (), u)" and t: "t = rs_retire_all u"
    by (auto simp: accept_shutdown_def result_simps)
  have "fh_message_type (fv_header f) = Shutdown" using dec by (simp add: decode_shutdown_payload_def decode_empty_Ok)
  with o inv obtain p where p: "u = s\<lparr>rs_protocol := p\<rparr>" "sv_inv p"
    "exchange (sv_view (rs_protocol s)) (ParentToWorker, Shutdown, fh_request_id (fv_header f)) (sv_view p)"
    by (auto elim!: rs_observe_OkE)
  with live t exchange_op(10)[OF p(3)] show ?thesis by (simp add: rs_inv_def rs_op_def rs_retire_all_def)
qed

lemma accept_data_chunk_inv:
  assumes inv: "rs_inv s" and ok: "accept_data_chunk wr f (s, k) = (Ok (), (t, k'))"
  shows "rs_inv t \<and> rs_catalog t = rs_catalog s \<and> wr (fv_payload f) k = (True, k') \<and>
    (\<exists>n. rs_stream s = Some \<lparr>stm_remaining_bytes = n\<rparr> \<and> length (fv_payload f) \<le> unat n \<and>
       rs_stream t = Some \<lparr>stm_remaining_bytes = n - of_nat (length (fv_payload f))\<rparr>)"
proof -
  have live: "rs_failure s = None"
    using ok by (cases "rs_failure s") (auto simp: accept_data_chunk_def rs_guard_def)
  note ok = ok[unfolded accept_data_chunk_live[OF live]]
  from ok obtain st where st: "rs_stream s = Some st" by (cases "rs_stream s") auto
  from ok st obtain m where dec: "decode_data_chunk_payload f (stm_remaining_bytes st) = Ok m"
    by (cases "decode_data_chunk_payload f (stm_remaining_bytes st)") auto
  obtain r u where ru: "rs_observe WorkerToParent f s = (r, u)" by (cases "rs_observe WorkerToParent f s") auto
  then have o: "rs_observe WorkerToParent f s = (Ok (), u)" using ok st dec by (cases r) auto
  with ok st dec have w: "wr (dc_data m) k = (True, k')"
    and t: "t = u\<lparr>rs_stream := map_option (\<lambda>st. st\<lparr>stm_remaining_bytes :=
        stm_remaining_bytes st - of_nat (length (dc_data m))\<rparr>) (rs_stream u)\<rparr>"
    by (cases "wr (dc_data m) k"; auto simp: rs_fail_def Let_def split: if_splits)+
  have m: "fh_message_type (fv_header f) = DataChunk" "dc_data m = fv_payload f"
    "length (fv_payload f) \<le> unat (stm_remaining_bytes st)"
    using dec by (auto simp: data_chunk_codec.decode_Ok data_chunk_valid_def)
  with o inv obtain p where p: "u = s\<lparr>rs_protocol := p\<rparr>" "sv_inv p"
    "exchange (sv_view (rs_protocol s)) (WorkerToParent, DataChunk, fh_request_id (fv_header f)) (sv_view p)"
    by (auto elim!: rs_observe_OkE)
  with inv live st m w t exchange_op(4)[OF p(3)] show ?thesis
    by (cases st) (auto simp: rs_inv_def rs_op_def)
qed


lemma on_session_Ok: "on_session g sk = (Ok (), t) \<longleftrightarrow> (\<exists>v. g (fst sk) = (Ok v, fst t)) \<and> snd t = snd sk"
  by (cases t) (auto simp: on_session_def split: prod.splits result.splits)

lemma result_call_inv:
  assumes inv: "rs_inv (fst sk)"
  shows "rs_inv (fst (snd (result_call wr c sk)))"
proof -
  obtain s k where sk: "sk = (s, k)" by (cases sk)
  obtain r t k' where rt: "result_call wr c (s, k) = (r, (t, k'))" by (cases "result_call wr c (s, k)") auto
  note g = guarded_result_call[of wr c, unfolded guarded_call_def, rule_format, of s k]
  show ?thesis
  proof (cases r)
    case (Err e)
    then show ?thesis
    proof (cases "rs_failure s")
      case None
      then have "rs_dead s e t" using g rt Err by simp
      then show ?thesis using rs_dead_inv inv rt sk by simp
    next
      case (Some d)
      then show ?thesis using g inv rt sk by simp
    qed
  next
    case (Ok u)
    have "rs_inv s" using inv sk by simp
    then have "rs_inv t" using Ok rt
      by (cases c)
        (auto simp: on_session_Ok dest: begin_enumeration_inv accept_entry_batch_inv complete_enumeration_inv
          begin_stream_entry_inv complete_stream_inv accept_read_request_inv accept_read_reply_inv
          accept_cancel_inv accept_cancel_ack_inv accept_shutdown_inv accept_data_chunk_inv)
    then show ?thesis using rt sk by simp
  qed
qed

text \<open>
  Everything that can happen to a result session: a call, or one of the two trusted out-of-band
  notifications.
\<close>

datatype ResultEvent = Call ResultCall | SourceInvalidation | WorkerFailureNotice

fun result_event :: "(bytes \<Rightarrow> 'k \<Rightarrow> bool \<times> 'k) \<Rightarrow> ResultEvent \<Rightarrow> ResultSession \<times> 'k \<Rightarrow> ResultSession \<times> 'k" where
  "result_event wr (Call c) sk = snd (result_call wr c sk)"
| "result_event wr SourceInvalidation sk = (invalidate_source (fst sk), snd sk)"
| "result_event wr WorkerFailureNotice sk = (worker_failed (fst sk), snd sk)"

definition result_events ::
  "(bytes \<Rightarrow> 'k \<Rightarrow> bool \<times> 'k) \<Rightarrow> ResultEvent list \<Rightarrow> ResultSession \<times> 'k \<Rightarrow> ResultSession \<times> 'k" where
  "result_events wr evs sk = fold (result_event wr) evs sk"

lemma rs_retire_inv: "rs_inv s \<Longrightarrow> rs_inv (rs_retire e s)"
  by (auto simp: rs_retire_def rs_inv_def rs_retire_all_def split: option.split)

lemma result_event_inv: "rs_inv (fst sk) \<Longrightarrow> rs_inv (fst (result_event wr ev sk))"
  by (cases ev) (auto simp: result_call_inv rs_retire_inv invalidate_source_def worker_failed_def)

lemma result_events_inv: "rs_inv (fst sk) \<Longrightarrow> rs_inv (fst (result_events wr evs sk))"
  by (induction evs arbitrary: sk) (auto simp: result_events_def result_event_inv)

lemma result_session_new_inv:
  assumes "result_session_new p epoch limits = Ok s" and "sv_inv p"
  shows "rs_inv s \<and> rs_limits s = limits \<and> rs_epoch s = epoch \<and> rs_enumeration_counter s = 0 \<and> rs_failure s = None"
  using assms by (auto simp: result_session_new_def rs_inv_def rs_op_def sv_view_def split: if_splits)

text \<open>Only the start of an enumeration moves the counter.\<close>

definition steady :: "'a result_op \<Rightarrow> bool" where
  "steady f \<longleftrightarrow> (\<forall>s. rs_enumeration_counter (snd (f s)) = rs_enumeration_counter s)"

lemma rs_fail_counter [simp]: "rs_enumeration_counter (snd (rs_fail e s)) = rs_enumeration_counter s"
  by (simp add: rs_fail_def rs_retire_def rs_retire_all_def Let_def split: option.split)

lemma rs_fail_counterD: "rs_fail e s = (r, u) \<Longrightarrow> rs_enumeration_counter u = rs_enumeration_counter s"
  using rs_fail_counter[of e s] by (metis snd_conv)

named_theorems steady_intros \<open>operations that keep the enumeration counter\<close>

lemma steady_blocks [steady_intros]:
  "steady rs_guard" "steady (rs_fail e)" "steady (st_return v)" "steady (rs_decoded r)"
  "(\<And>s. rs_enumeration_counter (g s) = rs_enumeration_counter s) \<Longrightarrow> steady (rs_update g)"
  by (auto simp: steady_def rs_guard_def rs_decoded_def rs_update_def split: option.split result.split)

lemma steady_observe [steady_intros]: "steady (rs_observe d f)"
  by (auto simp: steady_def rs_observe_def split: prod.split result.split)

lemma steady_bind [steady_intros]: "steady m \<Longrightarrow> (\<And>v. steady (f v)) \<Longrightarrow> steady (st_bind m f)"
  unfolding steady_def st_bind_def by (auto split: prod.split result.split) (metis snd_conv)+

lemma steady_pointwise: "(\<And>s. \<exists>g. steady g \<and> f s = g s) \<Longrightarrow> steady f"
  unfolding steady_def by metis

lemma steady_option:
  "steady g \<Longrightarrow> (\<And>x. steady (h x)) \<Longrightarrow> steady (\<lambda>s. case a s of None \<Rightarrow> g s | Some x \<Rightarrow> h x s)"
  by (rule steady_pointwise) (auto split: option.split)

lemma steady_if: "steady f \<Longrightarrow> steady g \<Longrightarrow> steady (\<lambda>s. if b s then f s else g s)"
  by (rule steady_pointwise) auto

lemma steady_accept_cancel [steady_intros]: "steady (accept_cancel f)"
  unfolding accept_cancel_def by (intro steady_intros) simp

lemma steady_accept_cancel_ack [steady_intros]: "steady (accept_cancel_ack f)"
  unfolding accept_cancel_ack_def by (intro steady_intros) (simp add: rs_retire_all_def)

lemma steady_accept_shutdown [steady_intros]: "steady (accept_shutdown f)"
  unfolding accept_shutdown_def by (intro steady_intros) (simp add: rs_retire_all_def)

lemma steady_complete_stream [steady_intros]: "steady (complete_stream f)"
  unfolding complete_stream_def
  by (intro steady_bind steady_option steady_if steady_intros) simp

lemma steady_begin_stream_entry [steady_intros]: "steady (begin_stream_entry f g)"
  unfolding begin_stream_entry_def Let_def
  by (intro steady_bind steady_option steady_if steady_intros) simp

lemma steady_accept_read_request [steady_intros]: "steady (accept_read_request f p q)"
proof -
  have b: "steady (st_bind (rs_decoded r) (\<lambda>d. st_bind (rs_observe WorkerToParent f) (\<lambda>_. st_return (g d))))"
    for r and g :: "ReadRequestMessage \<Rightarrow> ReadRequestOutcome" by (intro steady_intros)
  have "steady (\<lambda>s. st_bind (rs_decoded (decode_read_request_payload f p q)) (\<lambda>decoded.
     st_bind (rs_observe WorkerToParent f) (\<lambda>_.
     st_return (if sv_state (rs_protocol s) = Cancelling then IgnoredAfterCancel else Serviceable decoded))) s)"
    by (rule steady_pointwise) (rule exI, rule conjI[OF b refl])
  then show ?thesis unfolding accept_read_request_def Let_def by (intro steady_bind steady_blocks)
qed

lemma steady_accept_read_reply [steady_intros]: "steady (accept_read_reply f q n)"
  unfolding accept_read_reply_def
  by (intro steady_bind steady_blocks steady_observe) (simp add: steady_blocks split: ProtocolStatus.split)

lemma steady_enumeration [steady_intros]: "steady (accept_entry_batch f)" "steady (complete_enumeration f)"
proof -
  have upd: "steady (\<lambda>s. case rs_candidate s of None \<Rightarrow> rs_fail InvalidState s
      | Some c \<Rightarrow> (Ok (), s\<lparr>rs_candidate := Some (candidate_accept es c)\<rparr>))" for es
    by (simp add: steady_def split: option.split)
  have "steady (st_bind (rs_decoded r) (\<lambda>policy.
         st_bind (rs_decoded (fst (decode_entry_batch_payload f policy
             (replicate (unat MAXIMUM_ENTRY_BATCH_ENTRIES) entry_batch_entry_default)))) (\<lambda>entries.
         st_bind (rs_observe WorkerToParent f) (\<lambda>_ s.
         case rs_candidate s of
           None \<Rightarrow> rs_fail InvalidState s
         | Some candidate \<Rightarrow> (Ok (), s\<lparr>rs_candidate := Some (candidate_accept entries candidate)\<rparr>)))))" for r
    by (intro steady_intros upd)
  then have "\<exists>g. steady g \<and> (case rs_candidate s of None \<Rightarrow> rs_fail InvalidState s
     | Some candidate \<Rightarrow>
         st_bind (rs_decoded (candidate_policy (rs_limits s) candidate)) (\<lambda>policy.
         st_bind (rs_decoded (fst (decode_entry_batch_payload f policy
             (replicate (unat MAXIMUM_ENTRY_BATCH_ENTRIES) entry_batch_entry_default)))) (\<lambda>entries.
         st_bind (rs_observe WorkerToParent f) (\<lambda>_ s.
         case rs_candidate s of
           None \<Rightarrow> rs_fail InvalidState s
         | Some candidate \<Rightarrow> (Ok (), s\<lparr>rs_candidate := Some (candidate_accept entries candidate)\<rparr>)))) s) = g s" for s
    by (cases "rs_candidate s") (use steady_blocks(2) in auto)
  then show "steady (accept_entry_batch f)"
    unfolding accept_entry_batch_def by (intro steady_bind steady_blocks(1), rule steady_pointwise)
  have "steady (finish_enumeration f pr)" for pr
    unfolding finish_enumeration_def by (intro steady_intros) simp
  then have pc: "steady (promote_candidate f l c)" for l c
    by (simp add: promote_candidate_def steady_blocks split: result.split)
  have "steady (\<lambda>s. case rs_candidate s of None \<Rightarrow> rs_fail InvalidState s
     | Some c \<Rightarrow> promote_candidate f (rs_limits s) c (s\<lparr>rs_candidate := Some (c\<lparr>cd_entries := []\<rparr>)\<rparr>))"
    unfolding steady_def
  proof
    fix s
    show "rs_enumeration_counter (snd (case rs_candidate s of None \<Rightarrow> rs_fail InvalidState s
     | Some c \<Rightarrow> promote_candidate f (rs_limits s) c (s\<lparr>rs_candidate := Some (c\<lparr>cd_entries := []\<rparr>)\<rparr>))) =
       rs_enumeration_counter s"
      using pc[unfolded steady_def, rule_format] by (cases "rs_candidate s") simp_all
  qed
  then show "steady (complete_enumeration f)"
    unfolding complete_enumeration_eq by (intro steady_bind steady_blocks)
qed

lemma begin_enumeration_counter:
  assumes "rs_inv s"
  shows "rs_enumeration_counter s \<le> rs_enumeration_counter (snd (begin_enumeration f s))"
proof (cases "fst (begin_enumeration f s)")
  case (Ok u)
  then show ?thesis using begin_enumeration_inv[OF assms, of f "snd (begin_enumeration f s)"]
    by (simp add: word_le_nat_alt prod_eq_iff)
next
  case (Err e)
  have obs: "rs_enumeration_counter (snd (rs_observe ParentToWorker f s)) = rs_enumeration_counter s"
    using steady_observe by (simp add: steady_def)
  from Err have "rs_enumeration_counter (snd (begin_enumeration f s)) = rs_enumeration_counter s"
    using obs
    by (auto simp: begin_enumeration_def st_bind_def rs_guard_def rs_decoded_def rs_update_def
        dest!: rs_fail_counterD split: option.splits if_splits result.splits prod.splits)
  then show ?thesis by simp
qed

lemma on_session_fst: "fst (snd (on_session g sk)) = snd (g (fst sk))"
  by (auto simp: on_session_def split: prod.split result.split)

lemma data_chunk_counter:
  "rs_enumeration_counter (fst (snd (accept_data_chunk wr f (s, k)))) = rs_enumeration_counter s"
proof (cases "rs_failure s")
  case None
  have "rs_enumeration_counter (snd (rs_observe WorkerToParent f s)) = rs_enumeration_counter s"
    using steady_observe by (simp add: steady_def)
  then show ?thesis
    by (auto simp: accept_data_chunk_live[OF None] split: option.split result.split prod.split)
qed (simp add: accept_data_chunk_def rs_guard_def)

lemma result_call_counter:
  assumes "rs_inv (fst sk)"
  shows "rs_enumeration_counter (fst sk) \<le> rs_enumeration_counter (fst (snd (result_call wr c sk)))"
  using assms steady_intros[unfolded steady_def, rule_format] data_chunk_counter[of wr _ "fst sk" "snd sk"]
  by (cases c) (simp_all add: on_session_fst begin_enumeration_counter)

lemma result_event_counter:
  assumes "rs_inv (fst sk)"
  shows "rs_enumeration_counter (fst sk) \<le> rs_enumeration_counter (fst (result_event wr ev sk))"
  using assms
  by (cases ev) (auto simp: result_call_counter invalidate_source_def worker_failed_def rs_retire_def
      rs_retire_all_def split: option.split)

lemma result_events_counter:
  "rs_inv (fst sk) \<Longrightarrow> rs_enumeration_counter (fst sk) \<le> rs_enumeration_counter (fst (result_events wr evs sk))"
proof (induction evs arbitrary: sk)
  case (Cons ev evs)
  have "rs_enumeration_counter (fst (result_event wr ev sk)) \<le>
      rs_enumeration_counter (fst (result_events wr evs (result_event wr ev sk)))"
    by (rule Cons.IH) (rule result_event_inv[OF Cons.prems])
  with result_event_counter[OF Cons.prems, of wr ev] show ?case by (simp add: result_events_def)
qed (simp add: result_events_def)

lemma result_event_fixed:
  "rs_limits (fst (result_event wr ev sk)) = rs_limits (fst sk) \<and> rs_epoch (fst (result_event wr ev sk)) = rs_epoch (fst sk)"
proof (cases ev)
  case (Call c)
  note g = guarded_result_call[of wr c, unfolded guarded_call_def, rule_format, of "fst sk" "snd sk"]
  show ?thesis
  proof (cases "rs_failure (fst sk)")
    case None
    then show ?thesis using g Call by (auto simp: rs_dead_def rs_kept_def split: prod.splits result.splits)
  next
    case (Some e)
    then show ?thesis using g Call by simp
  qed
qed (auto simp: invalidate_source_def worker_failed_def rs_retire_def rs_retire_all_def split: option.split)

lemma result_events_fixed:
  "rs_limits (fst (result_events wr evs sk)) = rs_limits (fst sk) \<and> rs_epoch (fst (result_events wr evs sk)) = rs_epoch (fst sk)"
  by (induction evs arbitrary: sk) (auto simp: result_events_def result_event_fixed)


section \<open>Streams\<close>

text \<open>
  The traffic of one stream between its start and its completion, the payloads of its data chunks in
  order, and a sink that is handed a list of chunks and takes each of them.
\<close>

fun stream_traffic :: "ResultCall \<Rightarrow> bool" where
  "stream_traffic (AcceptDataChunk f) = True"
| "stream_traffic (AcceptReadRequest f p q) = True"
| "stream_traffic (AcceptReadReply f q n) = True"
| "stream_traffic (AcceptCancel f) = True"
| "stream_traffic _ = False"

fun stream_chunks :: "ResultCall list \<Rightarrow> bytes list" where
  "stream_chunks [] = []"
| "stream_chunks (AcceptDataChunk f # cs) = fv_payload f # stream_chunks cs"
| "stream_chunks (_ # cs) = stream_chunks cs"

fun sink_takes :: "(bytes \<Rightarrow> 'k \<Rightarrow> bool \<times> 'k) \<Rightarrow> bytes list \<Rightarrow> 'k \<Rightarrow> 'k option" where
  "sink_takes wr [] k = Some k"
| "sink_takes wr (chunk # chunks) k = (case wr chunk k of (True, k') \<Rightarrow> sink_takes wr chunks k' | (False, _) \<Rightarrow> None)"

lemma stream_chunks_append: "stream_chunks (cs @ ds) = stream_chunks cs @ stream_chunks ds"
  by (induction cs rule: stream_chunks.induct) auto

lemma sink_takes_append: "sink_takes wr (xs @ ys) k = Option.bind (sink_takes wr xs k) (sink_takes wr ys)"
  by (induction xs arbitrary: k) (auto split: prod.split bool.split)

fun result_calls ::
  "(bytes \<Rightarrow> 'k \<Rightarrow> bool \<times> 'k) \<Rightarrow> ResultCall list \<Rightarrow> (ResultSession \<times> 'k, ResultSessionError, unit) stm" where
  "result_calls wr [] = st_return ()"
| "result_calls wr (c # cs) = st_bind (result_call wr c) (\<lambda>_. result_calls wr cs)"

lemma stream_step:
  assumes inv: "rs_inv s" and st: "rs_stream s = Some \<lparr>stm_remaining_bytes = n\<rparr>" and c: "stream_traffic c"
    and ok: "result_call wr c (s, k) = (Ok (), (t, k'))"
  shows "rs_inv t \<and> length (concat (stream_chunks [c])) \<le> unat n \<and>
    rs_stream t = Some \<lparr>stm_remaining_bytes = n - of_nat (length (concat (stream_chunks [c])))\<rparr> \<and>
    sink_takes wr (stream_chunks [c]) k = Some k'"
proof (cases c)
  case (AcceptDataChunk f)
  then show ?thesis using accept_data_chunk_inv[OF inv, of wr f k t k'] ok st by auto
next
  case (AcceptReadRequest f p q)
  then show ?thesis using ok st inv by (auto simp: on_session_Ok dest: accept_read_request_inv)
next
  case (AcceptReadReply f q m)
  then show ?thesis using ok st inv by (auto simp: on_session_Ok dest: accept_read_reply_inv)
next
  case (AcceptCancel f)
  then show ?thesis using ok st inv by (auto simp: on_session_Ok dest: accept_cancel_inv)
qed (use c in auto)

lemma stream_calls:
  assumes "rs_inv s" and "rs_stream s = Some \<lparr>stm_remaining_bytes = n\<rparr>" and "list_all stream_traffic cs"
    and "result_calls wr cs (s, k) = (Ok (), (t, k'))"
  shows "rs_inv t \<and> sink_takes wr (stream_chunks cs) k = Some k' \<and>
    (\<exists>r. rs_stream t = Some \<lparr>stm_remaining_bytes = r\<rparr> \<and> unat r + length (concat (stream_chunks cs)) = unat n)"
  using assms
proof (induction cs arbitrary: s n k)
  case (Cons c cs)
  then obtain u k1 where c: "result_call wr c (s, k) = (Ok (), (u, k1))"
    and rest: "result_calls wr cs (u, k1) = (Ok (), (t, k'))" by (auto simp: result_simps)
  have "stream_traffic c" using Cons.prems(3) by simp
  note step = stream_step[OF Cons.prems(1,2) this c]
  let ?l = "length (concat (stream_chunks [c]))"
  have "?l < 2 ^ 64" using step le_less_trans[OF _ unat_less_pow, of ?l n] by simp
  then have u: "unat (n - of_nat ?l) = unat n - ?l"
    using step by (subst unat_diff_le) (simp_all add: word_le_nat_alt unat_of_nat)
  have chunks: "stream_chunks (c # cs) = stream_chunks [c] @ stream_chunks cs"
    using stream_chunks_append[of "[c]" cs] by simp
  have IH: "rs_inv t \<and> sink_takes wr (stream_chunks cs) k1 = Some k' \<and>
    (\<exists>r. rs_stream t = Some \<lparr>stm_remaining_bytes = r\<rparr> \<and> unat r + length (concat (stream_chunks cs)) = unat (n - of_nat ?l))"
    using Cons.IH[of u "n - of_nat ?l" k1] step rest Cons.prems(3) by simp
  moreover have "sink_takes wr (stream_chunks (c # cs)) k = Some k'"
    using IH step unfolding chunks sink_takes_append by simp
  ultimately show ?case using step unfolding chunks concat_append length_append u by auto
qed simp


section \<open>Cancelled enumerations\<close>

fun starts_enumeration :: "ResultEvent \<Rightarrow> bool" where
  "starts_enumeration (Call (BeginEnumeration f)) = True"
| "starts_enumeration _ = False"

definition withdrawn :: "ResultSession \<Rightarrow> bool" where
  "withdrawn s \<longleftrightarrow> rs_inv s \<and> rs_catalog s = None \<and>
     (case rs_candidate s of None \<Rightarrow> True | Some c \<Rightarrow> \<not> cd_promotable c)"

lemma rs_observe_candidate:
  "rs_observe d f s = (Ok (), t) \<Longrightarrow> rs_candidate t = rs_candidate s \<and> rs_catalog t = rs_catalog s"
  by (auto simp: rs_observe_def rs_fail_def Let_def split: prod.splits result.splits)

lemma accept_entry_batch_candidate:
  assumes "accept_entry_batch f s = (Ok (), t)"
  shows "rs_catalog t = rs_catalog s \<and>
    (\<exists>c es. rs_candidate s = Some c \<and> rs_candidate t = Some (candidate_accept es c))"
proof -
  from assms obtain es u where o: "rs_observe WorkerToParent f s = (Ok (), u)"
    and t: "(case rs_candidate u of None \<Rightarrow> rs_fail InvalidState u
         | Some c \<Rightarrow> (Ok (), u\<lparr>rs_candidate := Some (candidate_accept es c)\<rparr>)) = (Ok (), t)"
    by (auto simp: accept_entry_batch_def result_simps split: option.splits)
  note u = rs_observe_candidate[OF o]
  show ?thesis
  proof (cases "rs_candidate s")
    case (Some c)
    then show ?thesis using t u by auto
  qed (use t u in simp)
qed

lemma withdrawn_call:
  assumes w: "withdrawn s" and c: "\<not> starts_enumeration (Call c)" and ok: "result_call wr c (s, k) = (Ok (), (t, k'))"
  shows "withdrawn t"
proof -
  have inv: "rs_inv s" and cat: "rs_catalog s = None" using w by (simp_all add: withdrawn_def)
  have t: "rs_inv t" using result_call_inv[of "(s, k)" wr c] inv ok by simp
  show ?thesis
  proof (cases c)
    case (AcceptEntryBatch f)
    then show ?thesis
      using ok w t by (auto simp: on_session_Ok withdrawn_def candidate_accept_def dest!: accept_entry_batch_candidate)
  next
    case (CompleteEnumeration f)
    then have fin: "complete_enumeration f s = (Ok (), t)" using ok by (simp add: on_session_Ok)
    then have "rs_candidate t = None"
      by (auto simp: complete_enumeration_eq promote_candidate_def finish_enumeration_def result_simps
          split: option.splits if_splits result.splits)
    with complete_enumeration_inv[OF inv fin] w t show ?thesis by (auto simp: withdrawn_def)
  next
    case (BeginStreamEntry f g)
    then show ?thesis using ok cat begin_stream_entry_inv[OF inv, of f g t] by (auto simp: on_session_Ok)
  next
    case (AcceptDataChunk f)
    then have d: "accept_data_chunk wr f (s, k) = (Ok (), (t, k'))" using ok by simp
    then have "rs_stream s \<noteq> None" using accept_data_chunk_inv[OF inv d] by auto
    then have "rs_op s = Some OpStream" "rs_failure s = None" using inv by (auto simp: rs_inv_def split: if_splits)
    have "rs_stream t \<noteq> None" using accept_data_chunk_inv[OF inv d] by auto
    then have "rs_candidate t = None" using t by (auto simp: rs_inv_def split: if_splits)
    then show ?thesis using accept_data_chunk_inv[OF inv d] cat by (simp add: withdrawn_def)
  next
    case (CompleteStream f)
    then have d: "complete_stream f s = (Ok (), t)" using ok by (simp add: on_session_Ok)
    from complete_stream_inv[OF inv d] have "rs_stream s \<noteq> None" by simp
    then have "rs_candidate s = None" using inv by (auto simp: rs_inv_def split: if_splits)
    moreover have "rs_candidate t = rs_candidate s"
      using d by (auto simp: complete_stream_def result_simps dest: rs_observe_candidate split: option.splits if_splits)
    ultimately show ?thesis using complete_stream_inv[OF inv d] cat by (simp add: withdrawn_def)
  next
    case (AcceptReadRequest f p q)
    then show ?thesis using ok w t accept_read_request_inv[OF inv] by (auto simp: on_session_Ok withdrawn_def)
  next
    case (AcceptReadReply f q n)
    then show ?thesis using ok w t accept_read_reply_inv[OF inv] by (auto simp: on_session_Ok withdrawn_def)
  next
    case (AcceptCancel f)
    then have "accept_cancel f s = (Ok (), t)" using ok by (simp add: on_session_Ok)
    then show ?thesis using t
      by (auto simp: accept_cancel_def result_simps withdrawn_def split: option.splits)
  next
    case (AcceptCancelAck f)
    then have "accept_cancel_ack f s = (Ok (), t)" using ok by (simp add: on_session_Ok)
    then show ?thesis using t by (auto simp: accept_cancel_ack_def result_simps withdrawn_def rs_retire_all_def)
  next
    case (AcceptShutdown f)
    then have "accept_shutdown f s = (Ok (), t)" using ok by (simp add: on_session_Ok)
    then show ?thesis using t by (auto simp: accept_shutdown_def result_simps withdrawn_def rs_retire_all_def)
  qed (use c in simp)
qed

lemma withdrawn_retire: "withdrawn s \<Longrightarrow> withdrawn (rs_retire e s)"
  using rs_retire_inv[of s e] by (auto simp: withdrawn_def rs_retire_def rs_retire_all_def split: option.splits)

lemma withdrawn_event:
  assumes "withdrawn (fst sk)" and "\<not> starts_enumeration ev"
  shows "withdrawn (fst (result_event wr ev sk))"
proof (cases ev)
  case (Call c)
  obtain r t k' where rt: "result_call wr c (fst sk, snd sk) = (r, (t, k'))"
    by (cases "result_call wr c (fst sk, snd sk)") auto
  show ?thesis
  proof (cases r)
    case (Ok u)
    then show ?thesis using withdrawn_call[OF assms(1), of c wr "snd sk" t k'] rt assms(2) Call by simp
  next
    case (Err e)
    note g = guarded_result_call[of wr c, unfolded guarded_call_def, rule_format, of "fst sk" "snd sk"]
    have "rs_inv t" using result_call_inv[of sk wr c] assms(1) rt by (simp add: withdrawn_def)
    then show ?thesis
      using g rt Err assms(1) Call
      by (cases "rs_failure (fst sk)") (auto simp: withdrawn_def rs_dead_def)
  qed
qed (use assms withdrawn_retire in \<open>auto simp: invalidate_source_def worker_failed_def\<close>)

lemma withdrawn_events:
  "withdrawn (fst sk) \<Longrightarrow> list_all (\<lambda>ev. \<not> starts_enumeration ev) evs \<Longrightarrow> withdrawn (fst (result_events wr evs sk))"
  by (induction evs arbitrary: sk) (auto simp: result_events_def withdrawn_event)



section \<open>A small session\<close>

text \<open>A session after its handshake, and the same session holding a catalog of one entry of one byte.\<close>

definition demo_idle :: SessionValidator where
  "demo_idle = snd (observe_seq
     [(ParentToWorker, frame_header_new Hello 7 0 12), (WorkerToParent, frame_header_new Ready 7 0 0)]
     (session_validator_new 7 protocol_budgets_default))"

definition demo_session :: ResultSession where
  "demo_session = \<lparr>rs_protocol = demo_idle, rs_limits = import_limits_default, rs_epoch = 5,
     rs_failure = None, rs_enumeration_counter = 0, rs_candidate = None, rs_catalog = None, rs_stream = None\<rparr>"

definition demo_catalog :: Catalog where
  "demo_catalog = \<lparr>cat_entries = [\<lparr>pe_source_token = 1, pe_relative_path = [0x2F, 0x61], pe_size_bytes = 1\<rparr>],
     cat_by_token = [(1, 0)], cat_total_bytes = 1\<rparr>"

definition demo_generation :: CatalogGeneration where
  "demo_generation = \<lparr>cg_epoch = 5, cg_enumeration = 1\<rparr>"

definition demo_promoted :: ResultSession where
  "demo_promoted = demo_session\<lparr>rs_enumeration_counter := 1, rs_catalog := Some (demo_generation, demo_catalog)\<rparr>"

definition demo_enumerate :: FrameView where
  "demo_enumerate = frame_view_new (frame_header_new Enumerate 7 1 0) []"

definition demo_stream_entry :: FrameView where
  "demo_stream_entry = frame_view_new (frame_header_new StreamEntry 7 1 8) [1, 0, 0, 0, 0, 0, 0, 0]"

definition demo_chunk :: FrameView where
  "demo_chunk = frame_view_new (frame_header_new DataChunk 7 1 1) [42]"

definition demo_complete :: FrameView where
  "demo_complete = frame_view_new (frame_header_new Complete 7 1 4) [0, 0, 4, 0]"

definition demo_cancel :: FrameView where
  "demo_cancel = frame_view_new (frame_header_new Cancel 7 1 0) []"

definition demo_sink :: "bytes \<Rightarrow> bytes \<Rightarrow> bool \<times> bytes" where
  "demo_sink bs k = (True, k @ bs)"

lemma demo_idle_accepted:
  "observe_seq [(ParentToWorker, frame_header_new Hello 7 0 12), (WorkerToParent, frame_header_new Ready 7 0 0)]
     (session_validator_new 7 protocol_budgets_default) = (Ok (), demo_idle)"
  by code_simp

lemma demo_idle_state: "sv_error demo_idle = None \<and> sv_state demo_idle = Idle"
  by code_simp

lemma demo_session_new: "result_session_new demo_idle 5 import_limits_default = Ok demo_session"
  using demo_idle_state by (simp add: result_session_new_def demo_session_def)

lemma demo_session_inv: "rs_inv demo_session"
  using result_session_new_inv[OF demo_session_new] observe_seq_Ok[OF demo_idle_accepted] by simp

lemma demo_catalog_planned: "plan_catalog (take 1 shadowed_entries) import_limits_default = Ok demo_catalog"
proof -
  have "is_ok (plan_catalog (take 1 shadowed_entries) import_limits_default)" by (rule shadowed_planned) simp
  then show ?thesis
    by (auto simp: plan_catalog_is_ok plan_catalog_Ok demo_catalog_def)
      (simp_all add: shadowed_entries_def plan_of_def shadowed_normalized token_index_def declared_bytes_def)
qed

lemma demo_promoted_inv: "rs_inv demo_promoted"
proof -
  have "rs_op demo_session = None"
    using demo_idle_state by (simp add: rs_op_def demo_session_def sv_view_def)
  then show ?thesis
    using demo_session_inv demo_catalog_planned
    by (auto simp: demo_promoted_def rs_inv_def current_generation_def demo_generation_def) (auto simp: demo_session_def)
qed

definition demo_streaming :: SessionValidator where
  "demo_streaming = snd (observe ParentToWorker (fv_header demo_stream_entry) demo_idle)"

definition demo_chunked :: SessionValidator where
  "demo_chunked = snd (observe WorkerToParent (fv_header demo_chunk) demo_streaming)"

definition demo_done :: SessionValidator where
  "demo_done = snd (observe WorkerToParent (fv_header demo_complete) demo_chunked)"

lemma demo_observed:
  "observe ParentToWorker (fv_header demo_stream_entry) demo_idle = (Ok (), demo_streaming)"
  "observe WorkerToParent (fv_header demo_chunk) demo_streaming = (Ok (), demo_chunked)"
  "observe WorkerToParent (fv_header demo_complete) demo_chunked = (Ok (), demo_done)"
  by code_simp+

lemmas demo_frame_defs = demo_enumerate_def demo_stream_entry_def demo_chunk_def demo_complete_def
  demo_cancel_def frame_view_new_def frame_header_new_def wf_frame_def frame_header_validate_def

lemma demo_decoded:
  "decode_stream_entry_payload demo_stream_entry = Ok \<lparr>se_source_token = 1\<rparr>"
  "decode_data_chunk_payload demo_chunk 1 = Ok \<lparr>dc_data = [42]\<rparr>"
  "decode_complete_payload demo_complete phase = Ok \<lparr>cm_status = StatusOk, cm_phase = PhaseComplete\<rparr>"
  by (simp_all add: stream_entry_codec.decode_Ok data_chunk_codec.decode_Ok complete_codec.decode_Ok
      demo_frame_defs stream_entry_wire_def complete_wire_def data_chunk_valid_def complete_valid_def
      u64_to_le_def u16_to_le_def le_digits_numeral owp_consts)

lemma demo_found:
  "catalog_find demo_catalog 1 = Some \<lparr>pe_source_token = 1, pe_relative_path = [0x2F, 0x61], pe_size_bytes = 1\<rparr>"
  by (simp add: catalog_find_def demo_catalog_def binary_search_by_key.simps)

lemma demo_begin_stream:
  "begin_stream_entry demo_stream_entry demo_generation demo_promoted =
     (Ok (), demo_promoted\<lparr>rs_protocol := demo_streaming, rs_stream := Some \<lparr>stm_remaining_bytes = 1\<rparr>\<rparr>)"
  by (simp add: begin_stream_entry_def st_bind_def rs_guard_def rs_decoded_def rs_observe_def rs_update_def
      demo_promoted_def demo_session_def demo_decoded demo_found demo_observed)

lemma demo_calls:
  "result_calls demo_sink [AcceptDataChunk demo_chunk]
     (demo_promoted\<lparr>rs_protocol := demo_streaming, rs_stream := Some \<lparr>stm_remaining_bytes = 1\<rparr>\<rparr>, []) =
   (Ok (), (demo_promoted\<lparr>rs_protocol := demo_chunked, rs_stream := Some \<lparr>stm_remaining_bytes = 0\<rparr>\<rparr>, [42]))"
  by (simp add: st_bind_def accept_data_chunk_def rs_guard_def rs_observe_def demo_promoted_def
      demo_session_def demo_decoded demo_observed demo_sink_def Let_def)

lemma demo_complete_stream:
  "complete_stream demo_complete
     (demo_promoted\<lparr>rs_protocol := demo_chunked, rs_stream := Some \<lparr>stm_remaining_bytes = 0\<rparr>\<rparr>) =
   (Ok (), demo_promoted\<lparr>rs_protocol := demo_done, rs_stream := None\<rparr>)"
  by (simp add: complete_stream_def st_bind_def rs_guard_def rs_decoded_def rs_observe_def rs_update_def
      demo_promoted_def demo_session_def demo_decoded demo_observed)

definition demo_enumerating :: SessionValidator where
  "demo_enumerating = snd (observe ParentToWorker (fv_header demo_enumerate) demo_idle)"

lemma demo_enumerate_observed:
  "observe ParentToWorker (fv_header demo_enumerate) demo_idle = (Ok (), demo_enumerating)"
  by code_simp


section \<open>Correctness of the result session\<close>

text \<open>
  C18: whatever a worker sends, the quotas are exact.  In every state a session can reach, an
  enumeration in progress has consumed exactly what its accepted entries declare, so no remaining
  quota ever wraps; a catalog is always the plan of a complete enumeration under the session's own
  limits and carries the current generation; and a failed session holds no catalog, no candidate
  and no stream.
\<close>

theorem result_session_quotas:
  assumes "observe_seq hs (session_validator_new sid b) = (Ok (), p)"
    and "result_session_new p epoch limits = Ok s0"
    and "fst (result_events wr evs (s0, k)) = s"
  shows "(case rs_candidate s of None \<Rightarrow> True | Some c \<Rightarrow>
      if cd_promotable c
      then length (cd_entries c) + unat (cd_remaining_entries c) = unat (il_entries limits) \<and>
        spelling_bytes (cd_entries c) + unat (cd_remaining_path_bytes c) = unat (il_path_bytes limits) \<and>
        declared_bytes (cd_entries c) + unat (cd_remaining_total_bytes c) = unat (il_total_bytes limits) \<and>
        sorted_wrt (<) (map em_source_token (cd_entries c))
      else cd_entries c = []) \<and>
    (case rs_catalog s of None \<Rightarrow> True | Some (g, c) \<Rightarrow>
      g = \<lparr>cg_epoch = epoch, cg_enumeration = rs_enumeration_counter s\<rparr> \<and> (\<exists>es. plan_catalog es limits = Ok c)) \<and>
    (rs_is_terminal s \<longrightarrow> rs_catalog s = None \<and> rs_candidate s = None \<and> rs_stream s = None)"
proof -
  have s0: "rs_inv s0" "rs_limits s0 = limits" "rs_epoch s0 = epoch"
    using result_session_new_inv[OF assms(2)] observe_seq_Ok[OF assms(1)] by auto
  have "rs_inv s" "rs_limits s = limits" "rs_epoch s = epoch"
    using result_events_inv[of "(s0, k)" wr evs] result_events_fixed[of wr evs "(s0, k)"] s0 assms(3) by auto
  then show ?thesis
    by (auto simp: rs_inv_def candidate_ok_def catalog_ok_def candidate_inv_def current_generation_def
        rs_is_terminal_def split: option.splits if_splits)
qed

theorem result_session_quotas_witness:
  "\<exists>c. rs_candidate (fst (result_events demo_sink [Call (BeginEnumeration demo_enumerate)] (demo_session, []))) = Some c \<and>
     length (cd_entries c) + unat (cd_remaining_entries c) = 50000"
proof -
  let ?s = "fst (result_events demo_sink [Call (BeginEnumeration demo_enumerate)] (demo_session, []))"
  have "decode_enumerate_payload demo_enumerate = Ok ()"
    by (simp add: decode_enumerate_payload_def decode_empty_Ok demo_frame_defs owp_consts)
  then obtain c where c: "rs_candidate ?s = Some c" "cd_promotable c"
    by (simp add: result_events_def on_session_fst begin_enumeration_def st_bind_def rs_guard_def rs_decoded_def
        rs_observe_def rs_update_def demo_session_def demo_enumerate_observed checked_add_def)
  with result_session_quotas[OF demo_idle_accepted demo_session_new refl, of demo_sink
      "[Call (BeginEnumeration demo_enumerate)]" "[]"]
  show ?thesis by (simp add: import_limits_default_def owp_consts)
qed

text \<open>
  C19: a stream hands the sink exactly what the catalog declared.  If a stream was opened for a token
  under a generation, every later frame was accepted, and the stream completed, then the session held
  the catalog of that generation and the token named an entry of it; the sink was handed the payloads
  of the data chunks, each once, whole, in order and nothing else, took every one of them, and is in
  the state they lead to; and those payloads add up to the declared size of the entry.
\<close>

theorem stream_delivers_declared_size:
  assumes "rs_inv s" and "begin_stream_entry f g s = (Ok (), s1)"
    and "list_all stream_traffic cs" and "result_calls wr cs (s1, k) = (Ok (), (s2, k'))"
    and "complete_stream f' s2 = (Ok (), s3)"
  shows "\<exists>c m e. rs_catalog s = Some (g, c) \<and> decode_stream_entry_payload f = Ok m \<and>
    catalog_find c (se_source_token m) = Some e \<and>
    sink_takes wr (stream_chunks cs) k = Some k' \<and>
    length (concat (stream_chunks cs)) = unat (pe_size_bytes e)"
proof -
  from begin_stream_entry_inv[OF assms(1,2)] obtain c m e where
    c: "rs_catalog s = Some (g, c)" "decode_stream_entry_payload f = Ok m" "catalog_find c (se_source_token m) = Some e"
    and s1: "rs_inv s1" "rs_stream s1 = Some \<lparr>stm_remaining_bytes = pe_size_bytes e\<rparr>" by blast
  from stream_calls[OF s1 assms(3,4)] obtain r where
    r: "rs_inv s2" "rs_stream s2 = Some \<lparr>stm_remaining_bytes = r\<rparr>"
      "unat r + length (concat (stream_chunks cs)) = unat (pe_size_bytes e)"
    and taken: "sink_takes wr (stream_chunks cs) k = Some k'" by blast
  from complete_stream_inv[OF r(1) assms(5)] r(2) have "r = 0" by simp
  with r(3) c taken show ?thesis by auto
qed

theorem stream_delivers_declared_size_witness:
  "\<exists>e. catalog_find demo_catalog 1 = Some e \<and>
     sink_takes demo_sink (stream_chunks [AcceptDataChunk demo_chunk]) [] = Some [42] \<and>
     length (concat (stream_chunks [AcceptDataChunk demo_chunk])) = unat (pe_size_bytes e)"
proof -
  have "list_all stream_traffic [AcceptDataChunk demo_chunk]" by simp
  from stream_delivers_declared_size[OF demo_promoted_inv demo_begin_stream this demo_calls demo_complete_stream]
  show ?thesis by (auto simp: demo_decoded demo_promoted_def)
qed

text \<open>
  C20: a catalog handle does not survive the next enumeration.  Once a new enumeration was started,
  whatever happens later, no catalog carries the generation of the old one again, so a stream
  request that presents the old generation is refused even if the worker reuses the token.
\<close>

theorem stale_generation_refused:
  assumes "rs_inv s" and "rs_catalog s = Some (g, c)" and "begin_enumeration f s = (Ok (), s1)"
    and "fst (result_events wr evs (s1, k)) = t"
  shows "(\<nexists>c'. rs_catalog t = Some (g, c')) \<and> (\<forall>f'. fst (begin_stream_entry f' g t) \<noteq> Ok ())"
proof -
  have n: "g = current_generation s"
    using assms(1,2) by (cases g) (auto simp: rs_inv_def split: if_splits)
  from begin_enumeration_inv[OF assms(1,3)] have s1: "rs_inv s1"
    "unat (rs_enumeration_counter s1) = unat (rs_enumeration_counter s) + 1" by auto
  have t: "rs_inv t" "rs_enumeration_counter s1 \<le> rs_enumeration_counter t"
    using result_events_inv[of "(s1, k)" wr evs] result_events_counter[of "(s1, k)" wr evs] s1(1) assms(4) by auto
  have no: "\<nexists>c'. rs_catalog t = Some (g, c')"
  proof
    assume "\<exists>c'. rs_catalog t = Some (g, c')"
    then have "g = current_generation t" using t(1) by (auto simp: rs_inv_def split: if_splits)
    with n have "rs_enumeration_counter t = rs_enumeration_counter s" by (simp add: current_generation_def)
    with s1(2) t(2) show False by (simp add: word_le_nat_alt)
  qed
  have "fst (begin_stream_entry f' g t) \<noteq> Ok ()" for f'
  proof
    assume "fst (begin_stream_entry f' g t) = Ok ()"
    then obtain u where "begin_stream_entry f' g t = (Ok (), u)" by (auto simp: fst_result_iff)
    from begin_stream_entry_inv[OF t(1) this] no show False by blast
  qed
  with no show ?thesis by blast
qed

lemma demo_begin_enumeration:
  "\<exists>s1. begin_enumeration demo_enumerate demo_promoted = (Ok (), s1)"
proof -
  have "decode_enumerate_payload demo_enumerate = Ok ()"
    by (simp add: decode_enumerate_payload_def decode_empty_Ok demo_frame_defs owp_consts)
  then show ?thesis
    by (simp add: begin_enumeration_def st_bind_def rs_guard_def rs_decoded_def rs_observe_def rs_update_def
        demo_promoted_def demo_session_def demo_enumerate_observed checked_add_def)
qed

theorem stale_generation_refused_witness:
  "\<exists>s1. begin_enumeration demo_enumerate demo_promoted = (Ok (), s1) \<and>
     fst (begin_stream_entry demo_stream_entry demo_generation s1) \<noteq> Ok ()"
proof -
  obtain s1 where s1: "begin_enumeration demo_enumerate demo_promoted = (Ok (), s1)"
    using demo_begin_enumeration by blast
  have c: "rs_catalog demo_promoted = Some (demo_generation, demo_catalog)" by (simp add: demo_promoted_def)
  have e: "fst (result_events demo_sink [] (s1, [])) = s1" by (simp add: result_events_def)
  show ?thesis using s1 stale_generation_refused[OF demo_promoted_inv c s1 e] by blast
qed

text \<open>
  A cancelled enumeration is never promoted.  After a cancel was accepted, no catalog is live
  again until another enumeration is started, whatever result, completion or acknowledgement frames
  still cross.
\<close>

theorem cancelled_enumeration_never_promotes:
  assumes "rs_inv s" and "accept_cancel f s = (Ok (), s1)"
    and "list_all (\<lambda>ev. \<not> starts_enumeration ev) evs"
  shows "rs_catalog (fst (result_events wr evs (s1, k))) = None"
proof -
  have "case rs_candidate s1 of None \<Rightarrow> True | Some c \<Rightarrow> \<not> cd_promotable c"
    using assms(2) by (auto simp: accept_cancel_def result_simps split: option.split)
  with accept_cancel_inv[OF assms(1,2)] have "withdrawn (fst (s1, k))" by (simp add: withdrawn_def)
  from withdrawn_events[OF this assms(3)] show ?thesis by (simp add: withdrawn_def)
qed

lemma demo_cancelled:
  "\<exists>s s1. rs_inv s \<and> rs_candidate s \<noteq> None \<and> accept_cancel demo_cancel s = (Ok (), s1)"
proof -
  obtain s where s: "begin_enumeration demo_enumerate demo_promoted = (Ok (), s)"
    using demo_begin_enumeration by blast
  then have p: "rs_protocol s = demo_enumerating" and live: "rs_failure s = None" and c: "rs_candidate s \<noteq> None"
    by (auto simp: begin_enumeration_def st_bind_def rs_guard_def rs_decoded_def rs_observe_def rs_update_def
        demo_promoted_def demo_session_def demo_enumerate_observed checked_add_def rs_retire_all_def rs_fail_def Let_def
        split: result.splits prod.splits)
  have "\<exists>q. observe ParentToWorker (fv_header demo_cancel) demo_enumerating = (Ok (), q)"
  proof
    show "observe ParentToWorker (fv_header demo_cancel) demo_enumerating =
        (Ok (), snd (observe ParentToWorker (fv_header demo_cancel) demo_enumerating))" by code_simp
  qed
  moreover have "decode_cancel_payload demo_cancel = Ok ()"
    by (simp add: decode_cancel_payload_def decode_empty_Ok demo_frame_defs owp_consts)
  ultimately have "\<exists>s1. accept_cancel demo_cancel s = (Ok (), s1)"
    using p live by (auto simp: accept_cancel_def st_bind_def rs_guard_def rs_decoded_def rs_observe_def rs_update_def)
  with begin_enumeration_inv[OF demo_promoted_inv s] c show ?thesis by blast
qed

theorem cancelled_enumeration_never_promotes_witness:
  "\<exists>s s1. rs_candidate s \<noteq> None \<and> accept_cancel demo_cancel s = (Ok (), s1) \<and>
     rs_catalog (fst (result_events demo_sink [Call (CompleteEnumeration demo_complete)] (s1, []))) = None"
proof -
  obtain s s1 where s: "rs_inv s" "rs_candidate s \<noteq> None" "accept_cancel demo_cancel s = (Ok (), s1)"
    using demo_cancelled by blast
  have "list_all (\<lambda>ev. \<not> starts_enumeration ev) [Call (CompleteEnumeration demo_complete)]" by simp
  from cancelled_enumeration_never_promotes[OF s(1,3) this, of demo_sink "[]"] s(2,3) show ?thesis by blast
qed

text \<open>
  The final cross-check never fires.  In a live session the planned catalog always agrees with
  the accepted quotas, so completing an enumeration never reports \<open>ResultValidation\<close>: a failure is
  a protocol, layout or state error.
\<close>

theorem completion_agrees_with_quotas:
  assumes "rs_inv s" and "rs_failure s = None"
  shows "fst (complete_enumeration f s) \<noteq> Err ResultValidation"
proof (cases "decode_complete_payload f OpEnumerate")
  case (Err e)
  then show ?thesis using assms(2)
    by (simp add: complete_enumeration_eq st_bind_def rs_guard_def rs_decoded_def rs_fail_live)
next
  case dec: (Ok m)
  show ?thesis
  proof (cases "rs_candidate s")
    case None
    then show ?thesis using dec assms(2)
      by (simp add: complete_enumeration_eq st_bind_def rs_guard_def rs_decoded_def rs_fail_live)
  next
    case (Some c)
    let ?s = "s\<lparr>rs_candidate := Some (c\<lparr>cd_entries := []\<rparr>)\<rparr>"
    have eq: "complete_enumeration f s = promote_candidate f (rs_limits s) c ?s"
      using dec Some assms(2) by (simp add: complete_enumeration_eq st_bind_def rs_guard_def rs_decoded_def)
    have live: "rs_failure ?s = None" using assms(2) by simp
    have fin: "fst (finish_enumeration f pr ?s) \<noteq> Err ResultValidation" for pr
      using assms(2)
      by (auto simp: finish_enumeration_def st_bind_def rs_observe_def rs_update_def rs_fail_live
          split: prod.split result.split)
    have inv: "candidate_inv (rs_limits s) c" using assms Some by (simp add: rs_inv_def)
    have "cat_total_bytes k = il_total_bytes (rs_limits s) - cd_remaining_total_bytes c \<and>
        length (cat_entries k) = length (cd_entries c)"
      if "cd_promotable c" "plan_catalog (cd_entries c) (rs_limits s) = Ok k" for k
      using that declared_total[OF inv that(1)] by (simp add: plan_catalog_Ok word_unat_eq_iff)
    then show ?thesis
      using fin live by (auto simp: eq promote_candidate_def rs_fail_live split: result.split)
  qed
qed

theorem completion_agrees_with_quotas_witness:
  "fst (complete_enumeration demo_complete demo_promoted) \<noteq> Err ResultValidation"
  by (rule completion_agrees_with_quotas[OF demo_promoted_inv]) (simp add: demo_promoted_def demo_session_def)

text \<open>
  C23: the session fails closed.  Once a call reported an error, every later call of any kind reports
  that same error and leaves session and sink untouched, notifications change nothing, and no
  catalog is visible.
\<close>

theorem result_session_fails_closed:
  assumes "result_call wr c sk = (Err e, t)"
  shows "result_call wr c' t = (Err e, t) \<and> result_events wr evs t = t \<and> rs_catalog_view (fst t) = None"
proof -
  have f: "rs_failure (fst t) = Some e" using result_session.retains[OF assms] .
  have "result_event wr ev t = t" for ev
    using f result_session.sticky[OF f] by (cases ev) (simp_all add: invalidate_source_def worker_failed_def rs_retire_def)
  then have "result_events wr evs t = t" by (induction evs) (simp_all add: result_events_def)
  then show ?thesis using f result_session.sticky[OF f] by (simp add: rs_catalog_view_def rs_is_terminal_def)
qed

theorem result_session_fails_closed_witness:
  "\<exists>e t. result_call demo_sink (CompleteStream demo_complete) (demo_promoted, []) = (Err e, t) \<and>
     result_call demo_sink (BeginEnumeration demo_enumerate) t = (Err e, t)"
proof -
  have "\<exists>e t. result_call demo_sink (CompleteStream demo_complete) (demo_promoted, []) = (Err e, t)"
    by (simp add: on_session_def complete_stream_def st_bind_def rs_guard_def rs_decoded_def demo_decoded
        demo_promoted_def demo_session_def rs_fail_def Let_def)
  then obtain e t where e: "result_call demo_sink (CompleteStream demo_complete) (demo_promoted, []) = (Err e, t)" by blast
  from result_session_fails_closed[OF e] e show ?thesis by blast
qed

end
