(* ===== verification/Import_Reads.thy ===== *)
theory Import_Reads
  imports Import_Results_Correct
begin

text \<open>
  \<open>source_read_broker.rs\<close> and \<open>source_window.rs\<close> of crate \<open>ohl-import\<close>: the parent serves a worker's
  \<open>read_request\<close> from the pinned source.  The seam \<open>SourceOps\<close> is a record of functions on the state
  \<open>'w\<close> of the outside world (the source may change between two calls); a read returns what it left in
  the destination buffer also when it fails.  The broker's methods take the result session and, for
  \<open>prepare\<close>, the caller's two buffers, and return all of them updated.
\<close>


section \<open>Limits, errors and the source seam\<close>

datatype SourceReadError =
    SrInvalidConfiguration | SrInvalidState | SrReplyPending | SrOutputTooSmall
  | SrRequestBudgetExceeded | SrByteBudgetExceeded | SrSequenceExhausted | SrTicketExhausted
  | SrProtocol ProtocolError | SrInternal | SrInvalidTicket | SrTransportAbandoned
  | SrSourceChanged | SrSourceReadFailure

fun sr_is_terminal :: "SourceReadError \<Rightarrow> bool" where
  "sr_is_terminal SrReplyPending = False"
| "sr_is_terminal SrOutputTooSmall = False"
| "sr_is_terminal _ = True"

record SourceReadLimits =
  srl_read_bytes :: u32
  srl_requests :: u64
  srl_reply_payload_bytes :: u64

definition source_read_limits_default :: SourceReadLimits where
  "source_read_limits_default =
     \<lparr>srl_read_bytes = MAXIMUM_READ_BYTES, srl_requests = MAXIMUM_PROTOCOL_MESSAGES div 2,
      srl_reply_payload_bytes = MAXIMUM_CUMULATIVE_PAYLOAD_BYTES\<rparr>"

definition source_read_limits_new :: "u32 \<Rightarrow> u64 \<Rightarrow> u64 \<Rightarrow> (SourceReadError, SourceReadLimits) result" where
  "source_read_limits_new maximum_read_bytes maximum_requests maximum_reply_payload_bytes =
     (if maximum_read_bytes = 0
         \<or> maximum_read_bytes > MAXIMUM_READ_BYTES
         \<or> maximum_requests = 0
         \<or> maximum_requests > MAXIMUM_PROTOCOL_MESSAGES div 2
         \<or> maximum_reply_payload_bytes < of_nat READ_REPLY_PREFIX_BYTES + ucast maximum_read_bytes
         \<or> maximum_reply_payload_bytes > MAXIMUM_CUMULATIVE_PAYLOAD_BYTES
      then Err SrInvalidConfiguration
      else Ok \<lparr>srl_read_bytes = maximum_read_bytes, srl_requests = maximum_requests,
               srl_reply_payload_bytes = maximum_reply_payload_bytes\<rparr>)"

definition reply_storage_bytes :: "SourceReadLimits \<Rightarrow> nat" where
  "reply_storage_bytes limits = READ_REPLY_PREFIX_BYTES + unat (srl_read_bytes limits)"

datatype MediaSourceError =
    MediaNotFound | NotRegularFile | OpenFailed | ReadFailed | UnexpectedEof | OutOfRange
  | Changed | ResourceExhausted | MediaUnsupported

record 'w SourceOps =
  ops_verify_unchanged :: "'w \<Rightarrow> (MediaSourceError, unit) result \<times> 'w"
  ops_read_exact_at :: "u64 \<Rightarrow> bytes \<Rightarrow> 'w \<Rightarrow> (MediaSourceError, unit) result \<times> bytes \<times> 'w"
  ops_window_length :: u64


section \<open>The window seam\<close>

record SourceWindow =
  win_base_offset :: u64
  win_length :: u64

text \<open>\<open>SourceWindow::new\<close> over a mounted file and \<open>from_source\<close>: the same check of the bounds.\<close>

definition source_window_new :: "u64 \<Rightarrow> u64 \<Rightarrow> u64 \<Rightarrow> (SanitizedError, SourceWindow) result" where
  "source_window_new size_bytes base_offset len =
     (if len = 0 \<or> (case checked_add base_offset len of None \<Rightarrow> True | Some e \<Rightarrow> e > size_bytes)
      then Err InvalidInput
      else Ok \<lparr>win_base_offset = base_offset, win_length = len\<rparr>)"

text \<open>
  \<open>read_window\<close>: the bounds, then the read at the absolute offset, either of the pinned source
  itself or of the mounted file.
\<close>

definition read_window ::
  "SourceWindow \<Rightarrow> (u64 \<Rightarrow> bytes \<Rightarrow> 'w \<Rightarrow> (MediaSourceError, unit) result \<times> bytes \<times> 'w) \<Rightarrow>
     u64 \<Rightarrow> bytes \<Rightarrow> 'w \<Rightarrow> (MediaSourceError, unit) result \<times> bytes \<times> 'w" where
  "read_window win underlying offset destination w =
     (let requested = (case try_from_nat (length destination) of None \<Rightarrow> - 1 | Some n \<Rightarrow> n);
          within = (case checked_add offset requested of None \<Rightarrow> False | Some e \<Rightarrow> e \<le> win_length win)
      in if \<not> within then (Err OutOfRange, destination, w)
         else case checked_add (win_base_offset win) offset of
           None \<Rightarrow> (Err OutOfRange, destination, w)
         | Some absolute \<Rightarrow> underlying absolute destination w)"

text \<open>
  The read of a mounted file: a seek, then reads until the destination is full.  \<open>file_read n\<close>
  returns whether it succeeded and the bytes it put at the front of a buffer of \<open>n\<close> bytes.
\<close>

function fill_from_file ::
  "(nat \<Rightarrow> 'w \<Rightarrow> bool \<times> bytes \<times> 'w) \<Rightarrow> nat \<Rightarrow> bytes \<Rightarrow> 'w \<Rightarrow>
     (MediaSourceError, unit) result \<times> bytes \<times> 'w" where
  "fill_from_file file_read filled destination w =
     (if filled < length destination then
        case file_read (length destination - filled) w of
          (ok, part, w') \<Rightarrow>
            let destination' = copy_at filled (take (length destination - filled) part) destination in
            if \<not> ok then (Err ReadFailed, destination', w')
            else if length part = 0 then (Err UnexpectedEof, destination', w')
            else fill_from_file file_read (filled + length part) destination' w'
      else (Ok (), destination, w))"
  by pat_completeness auto
termination
  by (relation "measure (\<lambda>(_, filled, destination, _). length destination - filled)")
    (auto intro!: diff_less_mono2)

declare fill_from_file.simps [simp del]

definition read_mounted_file ::
  "(u64 \<Rightarrow> 'w \<Rightarrow> bool \<times> 'w) \<Rightarrow> (nat \<Rightarrow> 'w \<Rightarrow> bool \<times> bytes \<times> 'w) \<Rightarrow>
     u64 \<Rightarrow> bytes \<Rightarrow> 'w \<Rightarrow> (MediaSourceError, unit) result \<times> bytes \<times> 'w" where
  "read_mounted_file seek file_read absolute destination w =
     (case seek absolute w of
        (False, w') \<Rightarrow> (Err OutOfRange, destination, w')
      | (True, w') \<Rightarrow> fill_from_file file_read 0 destination w')"

text \<open>The window as a seam over either kind of underlying read.\<close>

definition window_ops ::
  "SourceWindow \<Rightarrow> ('w \<Rightarrow> (MediaSourceError, unit) result \<times> 'w) \<Rightarrow>
     (u64 \<Rightarrow> bytes \<Rightarrow> 'w \<Rightarrow> (MediaSourceError, unit) result \<times> bytes \<times> 'w) \<Rightarrow> 'w SourceOps" where
  "window_ops win verify underlying =
     \<lparr>ops_verify_unchanged = verify, ops_read_exact_at = read_window win underlying,
      ops_window_length = win_length win\<rparr>"


section \<open>The broker\<close>

record PreparedReply =
  pp_ticket :: u64
  pp_status :: ProtocolStatus
  pp_header :: FrameHeader
  pp_payload :: bytes

datatype PrepareOutcome = ReplyReady PreparedReply | PrepareIgnoredAfterCancel

record Pending =
  pend_ticket :: u64
  pend_request_id :: u64
  pend_sequence :: u32
  pend_requested_length :: u32
  pend_status :: ProtocolStatus

record SourceReadBroker =
  srb_policy :: SourceReadPolicy
  srb_limits :: SourceReadLimits
  srb_failure :: "SourceReadError option"
  srb_committed_request_id :: "u64 option"
  srb_next_sequence :: u32
  srb_sequence_exhausted :: bool
  srb_requests_charged :: u64
  srb_reply_payload_bytes_charged :: u64
  srb_ticket_counter :: u64
  srb_pending :: "Pending option"

type_synonym brokered = "SourceReadBroker \<times> ResultSession"

definition broker_with_ops ::
  "u64 \<Rightarrow> u64 \<Rightarrow> SourceReadLimits \<Rightarrow> ResultSession \<Rightarrow> (SourceReadError, SourceReadBroker) result \<times> ResultSession" where
  "broker_with_ops media_size pinned_size limits session =
     (let usable = (pinned_size = media_size \<and> \<not> rs_is_terminal session \<and>
                    sv_state (rs_protocol session) = Idle)
      in case source_read_policy_new media_size (srl_read_bytes limits) of
           Err _ \<Rightarrow> (Err SrInvalidConfiguration, worker_failed session)
         | Ok policy \<Rightarrow>
             if usable
             then (Ok \<lparr>srb_policy = policy, srb_limits = limits, srb_failure = None,
                       srb_committed_request_id = None, srb_next_sequence = 1,
                       srb_sequence_exhausted = False, srb_requests_charged = 0,
                       srb_reply_payload_bytes_charged = 0, srb_ticket_counter = 0,
                       srb_pending = None\<rparr>, session)
             else (Err SrInvalidConfiguration, worker_failed session))"

definition broker_retire :: "SourceReadBroker \<Rightarrow> ResultSession \<Rightarrow> ResultSession" where
  "broker_retire b session =
     (let state = sv_state (rs_protocol session) in
      if \<not> rs_is_terminal session \<and> state \<noteq> Closed \<and> state \<noteq> Cancelled
      then worker_failed session else session)"

definition broker_fail :: "SourceReadError \<Rightarrow> brokered \<Rightarrow> SourceReadError \<times> brokered" where
  "broker_fail e bs =
     (case bs of (b, session) \<Rightarrow>
        let (b, session) =
              (if srb_failure b = None
               then (b\<lparr>srb_failure := Some e, srb_pending := None\<rparr>,
                     if rs_is_terminal session then session else worker_failed session)
               else (b, session))
        in (case srb_failure b of None \<Rightarrow> e | Some f \<Rightarrow> f, b, session))"

fun map_session_error :: "ResultSessionError \<Rightarrow> SourceReadError" where
  "map_session_error (Protocol p) = SrProtocol p"
| "map_session_error _ = SrInternal"

fun boundary_status :: "MediaSourceError \<Rightarrow> ProtocolStatus" where
  "boundary_status Changed = StatusSourceChanged"
| "boundary_status _ = StatusSourceReadFailed"

fun read_failure_status :: "MediaSourceError \<Rightarrow> ProtocolStatus" where
  "read_failure_status Changed = StatusSourceChanged"
| "read_failure_status UnexpectedEof = StatusSourceChanged"
| "read_failure_status OutOfRange = StatusSourceChanged"
| "read_failure_status _ = StatusSourceReadFailed"

definition broker_service :: "'w SourceOps \<Rightarrow> u64 \<Rightarrow> bytes \<Rightarrow> 'w \<Rightarrow> ProtocolStatus \<times> bytes \<times> 'w" where
  "broker_service ops offset destination w =
     (case ops_verify_unchanged ops w of
        (Err e, w) \<Rightarrow> (boundary_status e, destination, w)
      | (Ok _, w) \<Rightarrow>
          (case ops_read_exact_at ops offset destination w of
             (r, destination, w) \<Rightarrow>
               (case ops_verify_unchanged ops w of
                  (Err e, w) \<Rightarrow> (boundary_status e, destination, w)
                | (Ok _, w) \<Rightarrow>
                    (case r of
                       Ok _ \<Rightarrow> (StatusOk, destination, w)
                     | Err e \<Rightarrow> (read_failure_status e, destination, w)))))"

text \<open>
  \<open>prepare\<close> works on the broker and the session, the caller's scratch and reply storage, and the
  world behind the seam.  A failure that retires the broker keeps the buffers it reached.
\<close>

record 'w ReadFrame =
  rf_brokered :: brokered
  rf_scratch :: bytes
  rf_reply_storage :: bytes
  rf_world :: 'w

type_synonym 'w prepare_result = "(SourceReadError, PrepareOutcome) result \<times> 'w ReadFrame"

definition prepare_fail :: "SourceReadError \<Rightarrow> 'w ReadFrame \<Rightarrow> 'w prepare_result" where
  "prepare_fail e x = (case broker_fail e (rf_brokered x) of (f, bs) \<Rightarrow> (Err f, x\<lparr>rf_brokered := bs\<rparr>))"

text \<open>The checks before the session sees the request: buffers and quotas.\<close>

definition prepare_refusal :: "SourceReadBroker \<Rightarrow> nat \<Rightarrow> nat \<Rightarrow> u32 \<Rightarrow> SourceReadError option" where
  "prepare_refusal b scratch_len reply_len len =
     (let reply_size = READ_REPLY_PREFIX_BYTES + unat len in
      if scratch_len < unat len \<or> reply_len < reply_size then Some SrOutputTooSmall
      else if srb_requests_charged b \<ge> srl_requests (srb_limits b) then Some SrRequestBudgetExceeded
      else if (of_nat reply_size :: u64) >
              srl_reply_payload_bytes (srb_limits b) - srb_reply_payload_bytes_charged b
           then Some SrByteBudgetExceeded
      else if srb_ticket_counter b = - 1 then Some SrTicketExhausted
      else None)"

text \<open>The part after the session accepted a serviceable request: charge, read, encode, scrub.\<close>

definition prepare_serve ::
  "'w SourceOps \<Rightarrow> FrameView \<Rightarrow> u32 \<Rightarrow> ReadRequestMessage \<Rightarrow> 'w ReadFrame \<Rightarrow> 'w prepare_result" where
  "prepare_serve ops request expected_sequence decoded x =
     (case rf_brokered x of (b, session) \<Rightarrow>
        let n = unat (rq_length decoded);
            reply_size = READ_REPLY_PREFIX_BYTES + n;
            b = b\<lparr>srb_requests_charged := srb_requests_charged b + 1,
                  srb_reply_payload_bytes_charged := srb_reply_payload_bytes_charged b + of_nat reply_size\<rparr>
        in
        case broker_service ops (rq_offset decoded) (take n (rf_scratch x)) (rf_world x) of
          (status, destination, w) \<Rightarrow>
            (case encode_read_reply_payload
                    \<lparr>rp_read_sequence = expected_sequence, rp_status = status,
                     rp_data = (if status = StatusOk then destination else [])\<rparr>
                    expected_sequence (rq_length decoded) (rf_reply_storage x) of
               (encoded, reply_storage) \<Rightarrow>
                 let x = \<lparr>rf_brokered = (b, session),
                          rf_scratch = replicate n 0 @ drop n (rf_scratch x),
                          rf_reply_storage = reply_storage, rf_world = w\<rparr>
                 in case encoded of
                      Err e \<Rightarrow> prepare_fail (SrProtocol e) x
                    | Ok size_bytes \<Rightarrow>
                        let ticket = srb_ticket_counter b + 1;
                            b = b\<lparr>srb_ticket_counter := ticket,
                                  srb_pending := Some
                                    \<lparr>pend_ticket = ticket,
                                     pend_request_id = fh_request_id (fv_header request),
                                     pend_sequence = expected_sequence,
                                     pend_requested_length = rq_length decoded,
                                     pend_status = status\<rparr>\<rparr>;
                            payload_length = (case try_from_nat size_bytes of None \<Rightarrow> - 1 | Some k \<Rightarrow> k)
                        in (Ok (ReplyReady
                              \<lparr>pp_ticket = ticket, pp_status = status,
                               pp_header = frame_header_new ReadReply (fh_session_id (fv_header request))
                                 (fh_request_id (fv_header request)) payload_length,
                               pp_payload = take size_bytes reply_storage\<rparr>),
                            x\<lparr>rf_brokered := (b, session)\<rparr>)))"

definition expected_sequence_of :: "SourceReadBroker \<Rightarrow> FrameView \<Rightarrow> u32" where
  "expected_sequence_of b request =
     (if srb_committed_request_id b = Some (fh_request_id (fv_header request))
      then srb_next_sequence b else 1)"

definition broker_prepare :: "'w SourceOps \<Rightarrow> FrameView \<Rightarrow> 'w ReadFrame \<Rightarrow> 'w prepare_result" where
  "broker_prepare ops request x =
     (case rf_brokered x of (b, session) \<Rightarrow>
        case srb_failure b of
          Some failure \<Rightarrow> (Err failure, x)
        | None \<Rightarrow>
            if srb_pending b \<noteq> None then (Err SrReplyPending, x)
            else if srb_committed_request_id b = Some (fh_request_id (fv_header request))
                    \<and> srb_sequence_exhausted b
                 then prepare_fail SrSequenceExhausted x
            else
              let expected_sequence = expected_sequence_of b request;
                  cancelling = (sv_state (rs_protocol session) = Cancelling)
              in
              case decode_read_request_payload request (srb_policy b) expected_sequence of
                Err _ \<Rightarrow>
                  (case accept_read_request request (srb_policy b) expected_sequence session of
                     (r, session) \<Rightarrow>
                       prepare_fail (case r of Err e \<Rightarrow> map_session_error e | Ok _ \<Rightarrow> SrInternal)
                         (x\<lparr>rf_brokered := (b, session)\<rparr>))
              | Ok decoded \<Rightarrow>
                  (case (if cancelling then None
                         else prepare_refusal b (length (rf_scratch x)) (length (rf_reply_storage x))
                                (rq_length decoded)) of
                     Some e \<Rightarrow> if e = SrOutputTooSmall then (Err e, x) else prepare_fail e x
                   | None \<Rightarrow>
                       (case accept_read_request request (srb_policy b) expected_sequence session of
                          (Err e, session) \<Rightarrow>
                            prepare_fail (map_session_error e) (x\<lparr>rf_brokered := (b, session)\<rparr>)
                        | (Ok IgnoredAfterCancel, session) \<Rightarrow>
                            let x = x\<lparr>rf_brokered := (b, session)\<rparr> in
                            if \<not> cancelling then prepare_fail SrInternal x
                            else (Ok PrepareIgnoredAfterCancel, x)
                        | (Ok (Serviceable accepted), session) \<Rightarrow>
                            let x = x\<lparr>rf_brokered := (b, session)\<rparr> in
                            if cancelling \<or> accepted \<noteq> decoded then prepare_fail SrInternal x
                            else prepare_serve ops request expected_sequence decoded x)))"

definition take_pending :: "u64 \<Rightarrow> brokered \<Rightarrow> (SourceReadError, Pending) result \<times> brokered" where
  "take_pending ticket bs =
     (case bs of (b, session) \<Rightarrow>
        case srb_failure b of
          Some failure \<Rightarrow> (Err failure, bs)
        | None \<Rightarrow>
            (case srb_pending b of
               None \<Rightarrow> (case broker_fail SrInvalidState (b, session) of (e, bs) \<Rightarrow> (Err e, bs))
             | Some pending \<Rightarrow>
                 if ticket \<noteq> pend_ticket pending
                 then (case broker_fail SrInvalidTicket (b, session) of (e, bs) \<Rightarrow> (Err e, bs))
                 else (Ok pending, b\<lparr>srb_pending := None\<rparr>, session)))"

definition commit_reply_sent :: "PreparedReply \<Rightarrow> (brokered, SourceReadError, unit) stm" where
  "commit_reply_sent prepared bs =
     (case take_pending (pp_ticket prepared) bs of
        (Err e, bs) \<Rightarrow> (Err e, bs)
      | (Ok pending, b, session) \<Rightarrow>
          (case accept_read_reply (frame_view_new (pp_header prepared) (pp_payload prepared))
                  (pend_sequence pending) (pend_requested_length pending) session of
             (accepted, session) \<Rightarrow>
               let stop = (\<lambda>e. case broker_fail e (b, session) of (f, bs) \<Rightarrow> (Err f, bs)) in
               if pend_status pending = StatusOk then
                 (case accepted of
                    Err e \<Rightarrow> stop (map_session_error e)
                  | Ok _ \<Rightarrow>
                      let b = b\<lparr>srb_committed_request_id := Some (pend_request_id pending)\<rparr> in
                      if pend_sequence pending = - 1
                      then (Ok (), b\<lparr>srb_sequence_exhausted := True\<rparr>, session)
                      else (Ok (), b\<lparr>srb_next_sequence := pend_sequence pending + 1,
                                     srb_sequence_exhausted := False\<rparr>, session))
               else stop
                 (case accepted of
                    Err e \<Rightarrow>
                      if pend_status pending = StatusSourceChanged \<and> e = SourceInvalidated then SrSourceChanged
                      else if pend_status pending = StatusSourceReadFailed \<and> e = SourceReadFailure
                           then SrSourceReadFailure
                      else map_session_error e
                  | Ok _ \<Rightarrow> SrInternal)))"

definition abandon_reply :: "PreparedReply \<Rightarrow> brokered \<Rightarrow> SourceReadError \<times> brokered" where
  "abandon_reply prepared bs =
     (case take_pending (pp_ticket prepared) bs of
        (Ok _, bs) \<Rightarrow> broker_fail SrTransportAbandoned bs
      | (Err e, bs) \<Rightarrow> (e, bs))"

end
