(* ===== verification/Import_Reads_Correct.thy ===== *)
theory Import_Reads_Correct
  imports Import_Reads
begin

text \<open>
  The theorems about the source-read broker and the source window: budgets and fail-closed coupling
  with the result session in every reachable state, confinement of the reads to the policy and to
  the window, exactness of the prepared reply, scrubbing of the scratch buffer, and progress of a
  served read.
\<close>


section \<open>The seam contract\<close>

text \<open>
  What the broker relies on of a seam: a read writes into the destination and does not resize it.
  In the source this is the type of a mutable slice.
\<close>

locale source_seam =
  fixes ops :: "'w SourceOps"
  assumes read_width: "length (fst (snd (ops_read_exact_at ops offset destination w))) = length destination"
begin

lemma service_outcome:
  assumes "broker_service ops offset destination w = (status, destination', w')"
  shows "length destination' = length destination \<and>
    status \<in> {StatusOk, StatusSourceChanged, StatusSourceReadFailed}"
proof -
  have boundary: "boundary_status e \<in> {StatusSourceChanged, StatusSourceReadFailed}" for e
    by (cases e) auto
  have refused: "read_failure_status e \<in> {StatusSourceChanged, StatusSourceReadFailed}" for e
    by (cases e) auto
  have width: "ops_read_exact_at ops offset destination u = (r, d, v) \<Longrightarrow> length d = length destination" for u r d v
    using read_width[of offset destination u] by simp
  show ?thesis
    using assms boundary refused
    by (auto simp: broker_service_def split: prod.splits result.splits dest: width)
qed

text \<open>An accepted request is always answered: the reply fits the storage and its schema.\<close>

lemma serve_ready:
  assumes b: "rf_brokered x = (b, s)"
    and service: "broker_service ops (rq_offset m) (take (unat (rq_length m)) (rf_scratch x)) (rf_world x) =
      (status, destination, w')"
    and fits: "unat (rq_length m) \<le> length (rf_scratch x)"
      "READ_REPLY_PREFIX_BYTES + unat (rq_length m) \<le> length (rf_reply_storage x)"
    and len: "0 < rq_length m" "rq_length m \<le> MAXIMUM_READ_BYTES" "seq \<noteq> 0"
  defines "reply \<equiv> \<lparr>rp_read_sequence = seq, rp_status = status,
      rp_data = (if status = StatusOk then destination else [])\<rparr>"
  shows "\<exists>p b'. prepare_serve ops request seq m x =
      (Ok (ReplyReady p),
       \<lparr>rf_brokered = (b', s), rf_scratch = replicate (unat (rq_length m)) 0 @ drop (unat (rq_length m)) (rf_scratch x),
        rf_reply_storage = read_reply_wire reply @ drop (length (read_reply_wire reply)) (rf_reply_storage x),
        rf_world = w'\<rparr>) \<and>
      b' = b\<lparr>srb_requests_charged := srb_requests_charged b + 1,
             srb_reply_payload_bytes_charged := srb_reply_payload_bytes_charged b +
               of_nat (READ_REPLY_PREFIX_BYTES + unat (rq_length m)),
             srb_ticket_counter := srb_ticket_counter b + 1,
             srb_pending := Some \<lparr>pend_ticket = srb_ticket_counter b + 1,
               pend_request_id = fh_request_id (fv_header request), pend_sequence = seq,
               pend_requested_length = rq_length m, pend_status = status\<rparr>\<rparr> \<and>
      p = \<lparr>pp_ticket = srb_ticket_counter b + 1, pp_status = status,
           pp_header = frame_header_new ReadReply (fh_session_id (fv_header request))
             (fh_request_id (fv_header request)) (of_nat (length (read_reply_wire reply))),
           pp_payload = read_reply_wire reply\<rparr> \<and>
      read_reply_valid seq (rq_length m) reply"
proof -
  have out: "length destination = unat (rq_length m)"
      "status \<in> {StatusOk, StatusSourceChanged, StatusSourceReadFailed}"
    using service_outcome[OF service] fits(1) by auto
  then have valid: "read_reply_valid seq (rq_length m) reply"
    using len by (auto simp: reply_def read_reply_valid_def)
  have size: "length (read_reply_wire reply) \<le> READ_REPLY_PREFIX_BYTES + unat (rq_length m)"
    using out by (simp add: reply_def read_reply_wire_def owp_consts)
  then have "length (read_reply_wire reply) \<le> length (rf_reply_storage x)" using fits(2) by simp
  then have enc: "encode_read_reply_payload reply seq (rq_length m) (rf_reply_storage x) =
      (Ok (length (read_reply_wire reply)),
       read_reply_wire reply @ drop (length (read_reply_wire reply)) (rf_reply_storage x))"
    by (simp add: read_reply_codec.encode_valid[OF valid])
  have "length (read_reply_wire reply) < 2 ^ 32"
    using size len(2) by (simp add: owp_consts word_le_nat_alt)
  then have conv: "(try_from_nat (length (read_reply_wire reply)) :: u32 option) =
      Some (of_nat (length (read_reply_wire reply)))"
    by (simp add: try_from_nat_def)
  show ?thesis
    using valid b service enc[unfolded reply_def] conv
    by (simp add: prepare_serve_def Let_def reply_def[symmetric])
qed

end

lemma fill_from_file_width:
  "length (fst (snd (fill_from_file file_read filled destination w))) = length destination"
proof (induction file_read filled destination w rule: fill_from_file.induct)
  case (1 file_read filled destination w)
  show ?case
    using 1 by (subst fill_from_file.simps) (auto simp: Let_def split: prod.splits)
qed

text \<open>A window over a mounted file is such a seam, whatever the file does.\<close>

interpretation mounted: source_seam "window_ops win verify (read_mounted_file seek file_read)"
  for win verify seek file_read
  by unfold_locales
    (auto simp: window_ops_def read_window_def read_mounted_file_def Let_def fill_from_file_width
      split: option.splits prod.splits bool.splits)



section \<open>The ways a request can go\<close>

lemma accept_read_request_outcome:
  assumes "accept_read_request f policy seq s = (Ok v, t)"
  shows "\<exists>m. decode_read_request_payload f policy seq = Ok m \<and> rs_failure s = None \<and>
    rs_observe WorkerToParent f s = (Ok (), t) \<and>
    v = (if sv_state (rs_protocol s) = Cancelling then IgnoredAfterCancel else Serviceable m)"
  using assms by (auto simp: accept_read_request_def result_simps Let_def)

text \<open>
  Four ways: refused without any change, failed (which retires the broker), consumed after a cancel,
  or served.  The internal-error branches of the code are not among them.
\<close>

lemma broker_prepare_cases:
  assumes prep: "broker_prepare ops request x = (r, x')" and b: "rf_brokered x = (b, s)"
  obtains (refused) e where "r = Err e" "x' = x" "srb_failure b = Some e \<or> \<not> sr_is_terminal e"
  | (failed) e s' where "srb_failure b = None" "srb_pending b = None"
      "prepare_fail e (x\<lparr>rf_brokered := (b, s')\<rparr>) = (r, x')"
      "s' = s \<or> s' = snd (accept_read_request request (srb_policy b) (expected_sequence_of b request) s)"
  | (ignored) s' where "srb_failure b = None" "srb_pending b = None" "r = Ok PrepareIgnoredAfterCancel"
      "x' = x\<lparr>rf_brokered := (b, s')\<rparr>"
      "accept_read_request request (srb_policy b) (expected_sequence_of b request) s = (Ok IgnoredAfterCancel, s')"
  | (served) m s' where "srb_failure b = None" "srb_pending b = None"
      "decode_read_request_payload request (srb_policy b) (expected_sequence_of b request) = Ok m"
      "sv_state (rs_protocol s) \<noteq> Cancelling"
      "prepare_refusal b (length (rf_scratch x)) (length (rf_reply_storage x)) (rq_length m) = None"
      "accept_read_request request (srb_policy b) (expected_sequence_of b request) s = (Ok (Serviceable m), s')"
      "prepare_serve ops request (expected_sequence_of b request) m (x\<lparr>rf_brokered := (b, s')\<rparr>) = (r, x')"
proof (cases "srb_failure b \<noteq> None \<or> srb_pending b \<noteq> None")
  case True
  then show ?thesis
    using refused prep by (auto simp: broker_prepare_def b split: option.splits if_splits)
next
  case False
  then have live: "srb_failure b = None" "srb_pending b = None" by auto
  let ?seq = "expected_sequence_of b request"
  obtain a s' where acc: "accept_read_request request (srb_policy b) ?seq s = (a, s')" by fastforce
  have self: "x\<lparr>rf_brokered := (b, s)\<rparr> = x" using b by (cases x) simp
  show ?thesis
  proof (cases "srb_committed_request_id b = Some (fh_request_id (fv_header request)) \<and> srb_sequence_exhausted b")
    case True
    then show ?thesis
      using failed[of SrSequenceExhausted s] prep live self by (auto simp: broker_prepare_def b)
  next
    case go: False
    show ?thesis
    proof (cases "decode_read_request_payload request (srb_policy b) ?seq")
      case (Err e)
      then show ?thesis
        using failed[of "case a of Err e \<Rightarrow> map_session_error e | Ok _ \<Rightarrow> SrInternal" s'] prep live go acc
        by (auto simp: broker_prepare_def b Let_def)
    next
      case (Ok m)
      let ?cancelling = "sv_state (rs_protocol s) = Cancelling"
      let ?refusal = "if ?cancelling then None
        else prepare_refusal b (length (rf_scratch x)) (length (rf_reply_storage x)) (rq_length m)"
      show ?thesis
      proof (cases ?refusal)
        case (Some e)
        then show ?thesis
          using refused[of e] failed[of e s] prep live go Ok self
          by (auto simp: broker_prepare_def b Let_def split: if_splits)
      next
        case None
        show ?thesis
        proof (cases a)
          case (Err e)
          then show ?thesis
            using failed[of "map_session_error e" s'] prep live go Ok None acc
            by (auto simp: broker_prepare_def b Let_def split: if_splits)
        next
          case (Ok v)
          from accept_read_request_outcome[OF acc[unfolded Ok]] \<open>decode_read_request_payload _ _ _ = Ok m\<close>
          have v: "v = (if ?cancelling then IgnoredAfterCancel else Serviceable m)" by auto
          show ?thesis
          proof (cases ?cancelling)
            case True
            then show ?thesis
              using ignored[of s'] prep live go \<open>decode_read_request_payload _ _ _ = Ok m\<close> None acc Ok v
              by (auto simp: broker_prepare_def b Let_def)
          next
            case False
            then show ?thesis
              using served[of m s'] prep live go \<open>decode_read_request_payload _ _ _ = Ok m\<close> None acc Ok v
              by (auto simp: broker_prepare_def b Let_def)
          qed
        qed
      qed
    qed
  qed
qed

lemma broker_fail_live:
  "srb_failure b = None \<Longrightarrow> broker_fail e (b, s) =
     (e, b\<lparr>srb_failure := Some e, srb_pending := None\<rparr>, if rs_is_terminal s then s else worker_failed s)"
  by (simp add: broker_fail_def)

lemma prepare_fail_live:
  "rf_brokered x = (b, s) \<Longrightarrow> srb_failure b = None \<Longrightarrow> prepare_fail e x =
     (Err e, x\<lparr>rf_brokered := (b\<lparr>srb_failure := Some e, srb_pending := None\<rparr>,
        if rs_is_terminal s then s else worker_failed s)\<rparr>)"
  by (simp add: prepare_fail_def broker_fail_live)

lemma worker_failed_terminal [simp]: "rs_is_terminal (worker_failed s)"
  by (auto simp: worker_failed_def rs_retire_def rs_is_terminal_def rs_retire_all_def split: option.splits)



section \<open>The broker invariant\<close>

definition broker_inv :: "u64 \<Rightarrow> SourceReadLimits \<Rightarrow> brokered \<Rightarrow> bool" where
  "broker_inv size_bytes limits bs \<longleftrightarrow>
     (case bs of (b, s) \<Rightarrow>
        srb_limits b = limits \<and>
        srb_policy b = \<lparr>srp_source_size = size_bytes, srp_maximum_read_bytes = srl_read_bytes limits\<rparr> \<and>
        srl_read_bytes limits \<le> MAXIMUM_READ_BYTES \<and>
        unat (srb_requests_charged b) \<le> unat (srl_requests limits) \<and>
        unat (srb_reply_payload_bytes_charged b) \<le> unat (srl_reply_payload_bytes limits) \<and>
        unat (srb_ticket_counter b) \<le> unat (srb_requests_charged b) \<and>
        (srb_failure b \<noteq> None \<longrightarrow> srb_pending b = None \<and> rs_is_terminal s))"

lemma broker_inv_session:
  "broker_inv size_bytes limits (b, s) \<Longrightarrow> (rs_is_terminal s \<Longrightarrow> rs_is_terminal s') \<Longrightarrow>
     broker_inv size_bytes limits (b, s')"
  by (auto simp: broker_inv_def)

lemma broker_inv_fail:
  assumes "broker_inv size_bytes limits (b, s)" "srb_failure b = None"
  shows "broker_inv size_bytes limits (snd (broker_fail e (b, s)))"
  using assms by (auto simp: broker_fail_live broker_inv_def)

lemma broker_inv_start:
  assumes "broker_with_ops size_bytes pinned limits s = (Ok b, s')"
  shows "broker_inv size_bytes limits (b, s')"
  using assms
  by (auto simp: broker_with_ops_def broker_inv_def source_read_policy_new_def Let_def split: result.splits if_splits)

text \<open>The charge of a served request stays within both quotas, and no counter wraps.\<close>

lemma prepare_refusal_None:
  assumes "prepare_refusal b n k len = None"
    and inv: "unat (srb_reply_payload_bytes_charged b) \<le> unat (srl_reply_payload_bytes (srb_limits b))"
    and max: "len \<le> MAXIMUM_READ_BYTES"
  shows "unat (srb_requests_charged b + 1) = unat (srb_requests_charged b) + 1"
    and "unat (srb_requests_charged b) < unat (srl_requests (srb_limits b))"
    and "unat (srb_reply_payload_bytes_charged b + of_nat (READ_REPLY_PREFIX_BYTES + unat len)) =
      unat (srb_reply_payload_bytes_charged b) + (READ_REPLY_PREFIX_BYTES + unat len)"
    and "unat (srb_reply_payload_bytes_charged b) + (READ_REPLY_PREFIX_BYTES + unat len) \<le>
      unat (srl_reply_payload_bytes (srb_limits b))"
    and "unat (srb_ticket_counter b + 1) = unat (srb_ticket_counter b) + 1"
    and "unat len \<le> n" and "READ_REPLY_PREFIX_BYTES + unat len \<le> k"
proof -
  let ?size = "READ_REPLY_PREFIX_BYTES + unat len"
  let ?max = "srl_reply_payload_bytes (srb_limits b)" and ?used = "srb_reply_payload_bytes_charged b"
  have c: "unat len \<le> n" "?size \<le> k" "srb_requests_charged b < srl_requests (srb_limits b)"
      "(of_nat ?size :: u64) \<le> ?max - ?used" "srb_ticket_counter b \<noteq> - 1"
    using assms(1) by (auto simp: prepare_refusal_def Let_def not_less not_le split: if_splits)
  show "unat len \<le> n" "?size \<le> k" using c by simp_all
  show req: "unat (srb_requests_charged b) < unat (srl_requests (srb_limits b))"
    using c(3) by (simp add: word_less_nat_alt)
  then show "unat (srb_requests_charged b + 1) = unat (srb_requests_charged b) + 1"
    using unat_less_pow[of "srl_requests (srb_limits b)"] by (simp add: unat_word_ariths)
  have small: "unat (of_nat ?size :: u64) = ?size"
  proof -
    have "?size < 2 ^ 64" using max by (simp add: word_le_nat_alt owp_consts)
    then show ?thesis unfolding unat_of_nat by simp
  qed
  have "?size \<le> unat (?max - ?used)" using c(4) small by (simp add: word_le_nat_alt)
  then show le: "unat ?used + ?size \<le> unat ?max" using inv by (simp add: unat_sub word_le_nat_alt)
  then show "unat (?used + of_nat ?size) = unat ?used + ?size"
    by (rule unat_add_of_nat_within)
  show "unat (srb_ticket_counter b + 1) = unat (srb_ticket_counter b) + 1"
  proof -
    have "1 + srb_ticket_counter b \<noteq> 0" using c(5) by (metis add_eq_0_iff)
    then show ?thesis by (simp add: unatSuc add.commute)
  qed
qed

lemma decode_read_request_bounds:
  assumes "decode_read_request_payload f policy seq = Ok m"
  shows "seq \<noteq> 0" "0 < rq_length m" "unat (rq_length m) \<le> unat (srp_maximum_read_bytes policy)"
    "unat (rq_offset m) + unat (rq_length m) \<le> unat (srp_source_size policy)" "wf_frame f"
    "fh_message_type (fv_header f) = ReadRequest"
  using assms by (auto simp: read_request_codec.decode_Ok read_request_valid_def word_less_nat_alt)


text \<open>Whatever the seam returns, a served request charges both quotas within their limits.\<close>

lemma prepare_serve_inv:
  assumes inv: "broker_inv size_bytes limits (b, s')"
    and live: "srb_failure b = None"
    and refusal: "prepare_refusal b (length (rf_scratch x)) (length (rf_reply_storage x)) (rq_length m) = None"
    and len: "unat (rq_length m) \<le> unat (srp_maximum_read_bytes (srb_policy b))"
    and serve: "prepare_serve ops request seq m (x\<lparr>rf_brokered := (b, s')\<rparr>) = (r, x')"
  shows "broker_inv size_bytes limits (rf_brokered x')"
proof -
  have max: "rq_length m \<le> MAXIMUM_READ_BYTES"
    using inv len by (simp add: broker_inv_def word_le_nat_alt)
  have "unat (srb_reply_payload_bytes_charged b) \<le> unat (srl_reply_payload_bytes (srb_limits b))"
    using inv by (auto simp: broker_inv_def)
  note c = prepare_refusal_None[OF refusal this max]
  let ?b = "b\<lparr>srb_requests_charged := srb_requests_charged b + 1,
      srb_reply_payload_bytes_charged := srb_reply_payload_bytes_charged b +
        of_nat (READ_REPLY_PREFIX_BYTES + unat (rq_length m))\<rparr>"
  have charged: "broker_inv size_bytes limits (?b\<lparr>srb_ticket_counter := srb_ticket_counter b + 1,
      srb_pending := p\<rparr>, s')" "broker_inv size_bytes limits (?b, s')" for p
    using inv c live by (auto simp: broker_inv_def)
  obtain status destination w' where service: "broker_service ops (rq_offset m) (take (unat (rq_length m)) (rf_scratch x))
      (rf_world x) = (status, destination, w')" by (metis prod_cases3)
  obtain e storage where enc: "encode_read_reply_payload \<lparr>rp_read_sequence = seq, rp_status = status,
      rp_data = (if status = StatusOk then destination else [])\<rparr> seq (rq_length m) (rf_reply_storage x) = (e, storage)"
    by fastforce
  show ?thesis
  proof (cases e)
    case (Err d)
    have "rf_brokered x' = snd (broker_fail (SrProtocol d) (?b, s'))"
      using serve service enc Err live
      by (auto simp: prepare_serve_def Let_def prepare_fail_live broker_fail_live)
    then show ?thesis using broker_inv_fail[OF charged(2)] live by simp
  next
    case (Ok k)
    have "\<exists>p. rf_brokered x' = (?b\<lparr>srb_ticket_counter := srb_ticket_counter b + 1, srb_pending := p\<rparr>, s')"
      using serve service enc Ok by (auto simp: prepare_serve_def Let_def)
    then show ?thesis using charged(1) by auto
  qed
qed

lemma accept_terminal:
  assumes "guarded f" "rs_is_terminal s"
  shows "rs_is_terminal (snd (f s))"
proof -
  obtain e where "rs_failure s = Some e" using assms(2) by (auto simp: rs_is_terminal_def)
  then show ?thesis using assms by (simp add: guarded_def)
qed

lemma broker_prepare_inv:
  assumes prep: "broker_prepare ops request x = (r, x')" and inv: "broker_inv size_bytes limits (rf_brokered x)"
  shows "broker_inv size_bytes limits (rf_brokered x')"
proof -
  obtain b s where b: "rf_brokered x = (b, s)" by fastforce
  let ?acc = "accept_read_request request (srb_policy b) (expected_sequence_of b request)"
  have next_session: "broker_inv size_bytes limits (b, s')" if "s' = s \<or> s' = snd (?acc s)" for s'
    using that inv accept_terminal[OF guarded_accept_read_request] unfolding b
    by (auto intro: broker_inv_session)
  from prep b show ?thesis
  proof (cases rule: broker_prepare_cases)
    case (refused e)
    with inv show ?thesis by simp
  next
    case (failed e s')
    from failed(3) have "x' = x\<lparr>rf_brokered := snd (broker_fail e (b, s'))\<rparr>"
      by (auto simp: prepare_fail_def split: prod.splits)
    then show ?thesis using broker_inv_fail[OF next_session[OF failed(4)] failed(1)] by simp
  next
    case (ignored s')
    with next_session[of s'] show ?thesis by simp
  next
    case (served m s')
    with next_session[of s'] have "broker_inv size_bytes limits (b, s')" by simp
    from prepare_serve_inv[OF this served(1,5) decode_read_request_bounds(3)[OF served(3)] served(7)]
    show ?thesis .
  qed
qed

lemma take_pending_inv:
  assumes "take_pending ticket (b, s) = (r, bs')" "broker_inv size_bytes limits (b, s)"
  shows "broker_inv size_bytes limits bs' \<and> (\<forall>p. r = Ok p \<longrightarrow> srb_failure b = None \<and>
    bs' = (b\<lparr>srb_pending := None\<rparr>, s) \<and> srb_pending b = Some p \<and> ticket = pend_ticket p)"
proof (cases "srb_failure b")
  case (Some e)
  with assms show ?thesis by (auto simp: take_pending_def)
next
  case None
  have fail: "broker_inv size_bytes limits (snd (broker_fail e (b, s)))" for e
    by (rule broker_inv_fail[OF assms(2) None])
  have cleared: "broker_inv size_bytes limits (b\<lparr>srb_pending := None\<rparr>, s)"
    using assms(2) None by (auto simp: broker_inv_def)
  show ?thesis
    using assms(1) None fail[of SrInvalidState] fail[of SrInvalidTicket] cleared
    by (auto simp: take_pending_def split: option.splits if_splits prod.splits)
qed

lemma commit_reply_sent_inv:
  assumes commit: "commit_reply_sent p bs = (r, bs')" and inv: "broker_inv size_bytes limits bs"
  shows "broker_inv size_bytes limits bs'"
proof -
  obtain b s where bs: "bs = (b, s)" by (cases bs)
  obtain t bs1 where tp: "take_pending (pp_ticket p) (b, s) = (t, bs1)"
    by (cases "take_pending (pp_ticket p) (b, s)")
  note tinv = take_pending_inv[OF tp inv[unfolded bs]]
  show ?thesis
  proof (cases t)
    case (Err e)
    with commit tp tinv show ?thesis by (simp add: commit_reply_sent_def bs)
  next
    case (Ok q)
    with tinv have b1: "bs1 = (b\<lparr>srb_pending := None\<rparr>, s)" "srb_failure b = None" by auto
    obtain a s' where acc: "accept_read_reply (frame_view_new (pp_header p) (pp_payload p))
        (pend_sequence q) (pend_requested_length q) s = (a, s')" by fastforce
    have "broker_inv size_bytes limits (b\<lparr>srb_pending := None\<rparr>, s')"
      using tinv b1 accept_terminal[OF guarded_accept_read_reply, of s] acc
      by (auto intro: broker_inv_session split: prod.splits) (metis acc snd_conv broker_inv_session)
    moreover from this have "broker_inv size_bytes limits (snd (broker_fail e (b\<lparr>srb_pending := None\<rparr>, s')))" for e
      using b1(2) by (intro broker_inv_fail) simp_all
    ultimately show ?thesis
      using commit tp Ok b1 acc
      by (auto simp: commit_reply_sent_def bs Let_def broker_inv_def broker_fail_live
          split: result.splits if_splits)
  qed
qed

lemma abandon_reply_inv:
  assumes "abandon_reply p bs = (e, bs')" "broker_inv size_bytes limits bs"
  shows "broker_inv size_bytes limits bs'"
proof -
  obtain b s where bs: "bs = (b, s)" by (cases bs)
  obtain t bs1 where tp: "take_pending (pp_ticket p) (b, s) = (t, bs1)"
    by (cases "take_pending (pp_ticket p) (b, s)")
  note tinv = take_pending_inv[OF tp assms(2)[unfolded bs]]
  show ?thesis
  proof (cases t)
    case (Err d)
    with assms(1) tp tinv show ?thesis by (simp add: abandon_reply_def bs)
  next
    case (Ok q)
    with tinv have "bs1 = (b\<lparr>srb_pending := None\<rparr>, s)" "srb_failure b = None" by auto
    with tinv Ok assms(1) tp show ?thesis
      using broker_inv_fail[of size_bytes limits "b\<lparr>srb_pending := None\<rparr>" s SrTransportAbandoned]
      by (simp add: abandon_reply_def bs split: prod.splits)
  qed
qed

lemma result_event_terminal:
  "rs_is_terminal (fst sk) \<Longrightarrow> rs_is_terminal (fst (result_event wr ev sk))"
  using result_session.sticky[of "sk"]
  by (cases ev) (auto simp: rs_is_terminal_def invalidate_source_def worker_failed_def rs_retire_def)


text \<open>
  The read lengths the worker was answered for, taken from the request frames, and what their replies
  are charged for in exact arithmetic.
\<close>

definition asked :: "FrameView \<Rightarrow> nat" where
  "asked request = unat (u32_from_le (drop 12 (fv_payload request)))"

definition answered :: "FrameView \<Rightarrow> (SourceReadError, PrepareOutcome) result \<Rightarrow> nat list" where
  "answered request r = (case r of Ok (ReplyReady _) \<Rightarrow> [asked request] | _ \<Rightarrow> [])"

definition reply_total :: "nat list \<Rightarrow> nat" where
  "reply_total log = (\<Sum>n\<leftarrow>log. READ_REPLY_PREFIX_BYTES + n)"

definition charged_for :: "nat list \<Rightarrow> SourceReadBroker \<Rightarrow> bool" where
  "charged_for log b \<longleftrightarrow>
     unat (srb_ticket_counter b) = length log \<and>
     (if srb_failure b = None
      then unat (srb_requests_charged b) = length log \<and> unat (srb_reply_payload_bytes_charged b) = reply_total log
      else length log \<le> unat (srb_requests_charged b) \<and> reply_total log \<le> unat (srb_reply_payload_bytes_charged b))"

lemma charged_for_kept:
  assumes "charged_for log b" and "srb_requests_charged b' = srb_requests_charged b"
    and "srb_reply_payload_bytes_charged b' = srb_reply_payload_bytes_charged b"
    and "srb_ticket_counter b' = srb_ticket_counter b" and "srb_failure b' = None \<longrightarrow> srb_failure b = None"
  shows "charged_for log b'"
  using assms by (auto simp: charged_for_def split: if_splits)

lemma asked_decoded:
  assumes "decode_read_request_payload request policy seq = Ok m"
  shows "asked request = unat (rq_length m)"
proof -
  have "fv_payload request = read_request_wire m" using assms by (simp add: read_request_codec.decode_Ok)
  then have "drop 12 (fv_payload request) = u32_to_le (rq_length m)" by (simp add: read_request_wire_def)
  then show ?thesis by (simp add: asked_def)
qed

lemma prepare_serve_charged:
  assumes inv: "broker_inv size_bytes limits (b, s')" and live: "srb_failure b = None"
    and refusal: "prepare_refusal b (length (rf_scratch x)) (length (rf_reply_storage x)) (rq_length m) = None"
    and m: "decode_read_request_payload request (srb_policy b) seq = Ok m"
    and serve: "prepare_serve ops request seq m (x\<lparr>rf_brokered := (b, s')\<rparr>) = (r, x')"
    and charged: "charged_for log b"
  shows "charged_for (log @ answered request r) (fst (rf_brokered x'))"
proof -
  have max: "rq_length m \<le> MAXIMUM_READ_BYTES"
    using inv decode_read_request_bounds(3)[OF m] by (simp add: broker_inv_def word_le_nat_alt)
  have "unat (srb_reply_payload_bytes_charged b) \<le> unat (srl_reply_payload_bytes (srb_limits b))"
    using inv by (auto simp: broker_inv_def)
  note c = prepare_refusal_None[OF refusal this max]
  let ?b = "b\<lparr>srb_requests_charged := srb_requests_charged b + 1,
      srb_reply_payload_bytes_charged := srb_reply_payload_bytes_charged b +
        of_nat (READ_REPLY_PREFIX_BYTES + unat (rq_length m))\<rparr>"
  have counts: "unat (srb_requests_charged ?b) = length log + 1"
      "unat (srb_reply_payload_bytes_charged ?b) = reply_total log + (READ_REPLY_PREFIX_BYTES + asked request)"
    using c(1,3) charged live asked_decoded[OF m] by (simp_all add: charged_for_def)
  have "srb_ticket_counter b = srb_requests_charged b" using charged live by (simp add: charged_for_def word_unat_eq_iff)
  then have ticket: "unat (srb_ticket_counter b + 1) = length log + 1" using counts(1) by simp
  obtain status destination w' where service: "broker_service ops (rq_offset m) (take (unat (rq_length m)) (rf_scratch x))
      (rf_world x) = (status, destination, w')" by (metis prod_cases3)
  obtain e storage where enc: "encode_read_reply_payload \<lparr>rp_read_sequence = seq, rp_status = status,
      rp_data = (if status = StatusOk then destination else [])\<rparr> seq (rq_length m) (rf_reply_storage x) = (e, storage)"
    by fastforce
  show ?thesis
  proof (cases e)
    case (Err d)
    have "rf_brokered x' = snd (broker_fail (SrProtocol d) (?b, s'))" "\<exists>f. r = Err f"
      using serve service enc Err live
      by (auto simp: prepare_serve_def Let_def prepare_fail_live broker_fail_live)
    then show ?thesis using counts live charged by (auto simp: broker_fail_live charged_for_def answered_def)
  next
    case (Ok k)
    have "\<exists>p q. rf_brokered x' = (?b\<lparr>srb_ticket_counter := srb_ticket_counter b + 1, srb_pending := p\<rparr>, s') \<and> r = Ok (ReplyReady q)"
      using serve service enc Ok by (auto simp: prepare_serve_def Let_def)
    then show ?thesis using counts live ticket by (auto simp: charged_for_def answered_def reply_total_def)
  qed
qed

lemma broker_prepare_charged:
  assumes prep: "broker_prepare ops request x = (r, x')" and inv: "broker_inv size_bytes limits (rf_brokered x)"
    and charged: "charged_for log (fst (rf_brokered x))"
  shows "charged_for (log @ answered request r) (fst (rf_brokered x'))"
proof -
  obtain b s where b: "rf_brokered x = (b, s)" by fastforce
  from prep b show ?thesis
  proof (cases rule: broker_prepare_cases)
    case (refused e)
    with charged show ?thesis by (simp add: answered_def)
  next
    case (failed e s')
    from failed(1,3) have "x' = x\<lparr>rf_brokered := snd (broker_fail e (b, s'))\<rparr>" "\<exists>f. r = Err f"
      by (auto simp: prepare_fail_def split: prod.splits)
    then show ?thesis using charged b failed(1) by (auto simp: broker_fail_live answered_def intro: charged_for_kept)
  next
    case (ignored s')
    with charged b show ?thesis by (simp add: answered_def)
  next
    case (served m s')
    have "broker_inv size_bytes limits (b, s')"
      using inv b served(6) accept_terminal[OF guarded_accept_read_request, of s request "srb_policy b" "expected_sequence_of b request"]
      by (auto intro: broker_inv_session)
    from prepare_serve_charged[OF this served(1,5,3,7)] charged b show ?thesis by simp
  qed
qed

lemma take_pending_charged:
  assumes "take_pending ticket bs = (r, bs')" and "charged_for log (fst bs)"
  shows "charged_for log (fst bs')"
  using assms by (auto simp: take_pending_def broker_fail_def Let_def
      split: prod.splits option.splits if_splits intro: charged_for_kept)

lemma commit_reply_sent_charged:
  assumes "commit_reply_sent p bs = (r, bs')" and "charged_for log (fst bs)"
  shows "charged_for log (fst bs')"
proof -
  obtain t b s where tp: "take_pending (pp_ticket p) bs = (t, (b, s))" by (metis prod_cases3)
  have b: "charged_for log b" using take_pending_charged[OF tp assms(2)] by simp
  show ?thesis
  proof (cases t)
    case (Err e)
    then show ?thesis using assms(1) tp b by (auto simp: commit_reply_sent_def)
  next
    case (Ok q)
    obtain a s' where acc: "accept_read_reply (frame_view_new (pp_header p) (pp_payload p))
      (pend_sequence q) (pend_requested_length q) s = (a, s')" by fastforce
    show ?thesis using assms(1) tp b acc Ok
      by (auto simp: commit_reply_sent_def Let_def broker_fail_def split: result.splits if_splits prod.splits option.splits
          intro: charged_for_kept)
  qed
qed

lemma abandon_reply_charged:
  assumes "abandon_reply p bs = (e, bs')" and "charged_for log (fst bs)"
  shows "charged_for log (fst bs')"
  using assms take_pending_charged[of "pp_ticket p" bs _ _ log]
  by (auto simp: abandon_reply_def broker_fail_def Let_def split: prod.splits result.splits if_splits intro: charged_for_kept)

text \<open>
  Every state the parent can bring a broker and its session to: any requests, replies committed or
  abandoned (also with a ticket of another reply), and any direct calls on the session in between;
  with the lengths of the reads that were answered on the way.
\<close>

inductive broker_reach :: "'w SourceOps \<Rightarrow> u64 \<Rightarrow> SourceReadLimits \<Rightarrow> nat list \<Rightarrow> brokered \<Rightarrow> bool"
  for ops size_bytes limits where
  start: "broker_with_ops size_bytes pinned limits s = (Ok b, s') \<Longrightarrow> broker_reach ops size_bytes limits [] (b, s')"
| prepare: "broker_reach ops size_bytes limits log (rf_brokered x) \<Longrightarrow> broker_prepare ops request x = (r, x') \<Longrightarrow>
    broker_reach ops size_bytes limits (log @ answered request r) (rf_brokered x')"
| commit: "broker_reach ops size_bytes limits log bs \<Longrightarrow> commit_reply_sent p bs = (r, bs') \<Longrightarrow>
    broker_reach ops size_bytes limits log bs'"
| abandon: "broker_reach ops size_bytes limits log bs \<Longrightarrow> abandon_reply p bs = (e, bs') \<Longrightarrow>
    broker_reach ops size_bytes limits log bs'"
| session: "broker_reach ops size_bytes limits log (b, s) \<Longrightarrow> result_event wr ev (s, k :: bytes) = (s', k') \<Longrightarrow>
    broker_reach ops size_bytes limits log (b, s')"

lemma broker_reach_inv: "broker_reach ops size_bytes limits log bs \<Longrightarrow> broker_inv size_bytes limits bs"
proof (induction rule: broker_reach.induct)
  case (start pinned s b s')
  then show ?case by (rule broker_inv_start)
next
  case (prepare log x request r x')
  then show ?case by (metis broker_prepare_inv)
next
  case (commit log bs p r bs')
  then show ?case by (metis commit_reply_sent_inv)
next
  case (abandon log bs p e bs')
  then show ?case by (metis abandon_reply_inv)
next
  case (session log b s wr ev k s' k')
  then show ?case using result_event_terminal[of "(s, k)" wr ev] by (auto intro: broker_inv_session)
qed

lemma broker_reach_charged: "broker_reach ops size_bytes limits log bs \<Longrightarrow> charged_for log (fst bs)"
proof (induction rule: broker_reach.induct)
  case (start pinned s b s')
  then show ?case
    by (auto simp: broker_with_ops_def charged_for_def reply_total_def Let_def split: if_splits result.splits option.splits)
next
  case (prepare log x request r x')
  show ?case by (rule broker_prepare_charged[OF prepare.hyps(2) broker_reach_inv[OF prepare.hyps(1)] prepare.IH])
next
  case (commit log bs p r bs')
  show ?case by (rule commit_reply_sent_charged[OF commit.hyps(2) commit.IH])
next
  case (abandon log bs p e bs')
  show ?case by (rule abandon_reply_charged[OF abandon.hyps(2) abandon.IH])
qed simp


section \<open>Confinement\<close>

text \<open>The seam with every read outside the policy cut off.\<close>

definition confine :: "SourceReadPolicy \<Rightarrow> 'w SourceOps \<Rightarrow> 'w SourceOps" where
  "confine policy ops = ops\<lparr>ops_read_exact_at := \<lambda>offset destination w.
     if 0 < length destination \<and> length destination \<le> unat (srp_maximum_read_bytes policy) \<and>
        unat offset + length destination \<le> unat (srp_source_size policy)
     then ops_read_exact_at ops offset destination w
     else (Err OutOfRange, destination, w)\<rparr>"

lemma prepare_serve_confined:
  assumes "decode_read_request_payload request policy seq = Ok m" "unat (rq_length m) \<le> length (rf_scratch x)"
  shows "prepare_serve (confine policy ops) request seq m x = prepare_serve ops request seq m x"
proof -
  have "length (take (unat (rq_length m)) (rf_scratch x)) = unat (rq_length m)" using assms(2) by simp
  then have read: "ops_read_exact_at (confine policy ops) (rq_offset m) (take (unat (rq_length m)) (rf_scratch x)) u =
      ops_read_exact_at ops (rq_offset m) (take (unat (rq_length m)) (rf_scratch x)) u" for u
    using decode_read_request_bounds[OF assms(1)] by (auto simp: confine_def word_less_nat_alt)
  have verify: "ops_verify_unchanged (confine policy ops) = ops_verify_unchanged ops" by (simp add: confine_def)
  have "broker_service (confine policy ops) (rq_offset m) (take (unat (rq_length m)) (rf_scratch x)) w =
      broker_service ops (rq_offset m) (take (unat (rq_length m)) (rf_scratch x)) w" for w
    unfolding broker_service_def read verify ..
  then show ?thesis by (simp add: prepare_serve_def)
qed

lemma prepare_refusal_fits: "prepare_refusal b n k len = None \<Longrightarrow> unat len \<le> n"
  by (auto simp: prepare_refusal_def Let_def split: if_splits)


section \<open>Correctness of the broker\<close>

text \<open>
  C31: in every state that any sequence of requests, replies and session calls can reach, the number of
  reads answered and the exact sum of the reply bytes they are charged are within the quotas; on a live
  broker the two counters are exactly that number and that sum, on a failed one at least, so no charge
  is missed and no counter has wrapped; the last ticket is the number of replies given out; the policy
  is the one fixed at construction; and a failed broker holds no pending reply and has retired its
  session.
\<close>

theorem broker_budgets:
  assumes "broker_reach ops size_bytes limits log (b, s)"
  shows "srb_limits b = limits \<and> srp_source_size (srb_policy b) = size_bytes \<and>
    srp_maximum_read_bytes (srb_policy b) = srl_read_bytes limits \<and>
    length log \<le> unat (srl_requests limits) \<and>
    (\<Sum>n\<leftarrow>log. READ_REPLY_PREFIX_BYTES + n) \<le> unat (srl_reply_payload_bytes limits) \<and>
    unat (srb_requests_charged b) \<le> unat (srl_requests limits) \<and>
    unat (srb_reply_payload_bytes_charged b) \<le> unat (srl_reply_payload_bytes limits) \<and>
    (if srb_failure b = None
     then unat (srb_requests_charged b) = length log \<and>
       unat (srb_reply_payload_bytes_charged b) = (\<Sum>n\<leftarrow>log. READ_REPLY_PREFIX_BYTES + n)
     else length log \<le> unat (srb_requests_charged b) \<and>
       (\<Sum>n\<leftarrow>log. READ_REPLY_PREFIX_BYTES + n) \<le> unat (srb_reply_payload_bytes_charged b)) \<and>
    unat (srb_ticket_counter b) = length log \<and>
    (srb_failure b \<noteq> None \<longrightarrow> srb_pending b = None \<and> rs_is_terminal s)"
proof -
  have inv: "broker_inv size_bytes limits (b, s)" using assms by (rule broker_reach_inv)
  have charged: "charged_for log b" using broker_reach_charged[OF assms] by simp
  have "length log \<le> unat (srb_requests_charged b)" "reply_total log \<le> unat (srb_reply_payload_bytes_charged b)"
    using charged by (auto simp: charged_for_def split: if_splits)
  then show ?thesis
    using inv charged unfolding broker_inv_def charged_for_def reply_total_def by auto
qed

definition demo_broker :: SourceReadBroker where
  "demo_broker = \<lparr>srb_policy = \<lparr>srp_source_size = 100, srp_maximum_read_bytes = MAXIMUM_READ_BYTES\<rparr>,
     srb_limits = source_read_limits_default, srb_failure = None, srb_committed_request_id = None,
     srb_next_sequence = 1, srb_sequence_exhausted = False, srb_requests_charged = 0,
     srb_reply_payload_bytes_charged = 0, srb_ticket_counter = 0, srb_pending = None\<rparr>"

lemma demo_broker_new:
  "broker_with_ops 100 100 source_read_limits_default demo_session = (Ok demo_broker, demo_session)"
  using demo_idle_state
  by (simp add: broker_with_ops_def source_read_policy_new_def source_read_limits_default_def demo_broker_def
      demo_session_def rs_is_terminal_def owp_consts)

text \<open>
  C32: a worker cannot make the parent read outside the policy.  Whatever the frame and the state,
  replacing the seam by one that refuses every read that is empty, longer than the policy allows or
  not inside the source changes nothing of what \<open>prepare\<close> does.
\<close>

theorem broker_reads_confined:
  "broker_prepare (confine (srb_policy (fst (rf_brokered x))) ops) request x = broker_prepare ops request x"
proof -
  obtain b s where b: "rf_brokered x = (b, s)" by fastforce
  let ?seq = "expected_sequence_of b request"
  have serve: "prepare_serve (confine (srb_policy b) ops) request ?seq m (x\<lparr>rf_brokered := bs\<rparr>) =
      prepare_serve ops request ?seq m (x\<lparr>rf_brokered := bs\<rparr>)"
    if "decode_read_request_payload request (srb_policy b) ?seq = Ok m"
      "prepare_refusal b (length (rf_scratch x)) k (rq_length m) = None" for m bs k
    using that prepare_refusal_fits[OF that(2)] by (intro prepare_serve_confined) simp_all
  show ?thesis
    using serve unfolding broker_prepare_def b
    by (auto simp: Let_def split: option.split result.split prod.split ReadRequestOutcome.split)
qed


text \<open>The reply a served request produces, and what it leaves in the caller's buffers.\<close>

lemma prepare_ready:
  assumes seam: "source_seam ops" and b: "rf_brokered x = (b, s)"
    and max: "srp_maximum_read_bytes (srb_policy b) \<le> MAXIMUM_READ_BYTES"
    and prep: "broker_prepare ops request x = (Ok (ReplyReady p), x')"
  obtains m s' b' status destination w' reply where
    "decode_read_request_payload request (srb_policy b) (expected_sequence_of b request) = Ok m"
    "accept_read_request request (srb_policy b) (expected_sequence_of b request) s = (Ok (Serviceable m), s')"
    "broker_service ops (rq_offset m) (take (unat (rq_length m)) (rf_scratch x)) (rf_world x) =
       (status, destination, w')"
    "reply = \<lparr>rp_read_sequence = expected_sequence_of b request, rp_status = status,
       rp_data = (if status = StatusOk then destination else [])\<rparr>"
    "read_reply_valid (expected_sequence_of b request) (rq_length m) reply"
    "p = \<lparr>pp_ticket = srb_ticket_counter b + 1, pp_status = status,
       pp_header = frame_header_new ReadReply (fh_session_id (fv_header request))
         (fh_request_id (fv_header request)) (of_nat (length (read_reply_wire reply))),
       pp_payload = read_reply_wire reply\<rparr>"
    "srb_failure b = None" "srb_failure b' = None"
    "srb_committed_request_id b' = srb_committed_request_id b"
    "srb_pending b' = Some \<lparr>pend_ticket = srb_ticket_counter b + 1,
       pend_request_id = fh_request_id (fv_header request), pend_sequence = expected_sequence_of b request,
       pend_requested_length = rq_length m, pend_status = status\<rparr>"
    "rf_brokered x' = (b', s')"
    "rf_scratch x' = replicate (unat (rq_length m)) 0 @ drop (unat (rq_length m)) (rf_scratch x)"
    "rf_world x' = w'"
  using prep b
proof (cases rule: broker_prepare_cases)
  case (failed e s')
  then have False by (auto simp: prepare_fail_def split: prod.splits)
  then show ?thesis ..
next
  case (served m s')
  let ?seq = "expected_sequence_of b request" and ?x = "x\<lparr>rf_brokered := (b, s')\<rparr>"
  obtain status destination w' where service: "broker_service ops (rq_offset m)
      (take (unat (rq_length m)) (rf_scratch x)) (rf_world x) = (status, destination, w')" by (metis prod_cases3)
  note bounds = decode_read_request_bounds[OF served(3)]
  have len: "rq_length m \<le> MAXIMUM_READ_BYTES" using bounds(3) max by (simp add: word_le_nat_alt)
  have fits: "unat (rq_length m) \<le> length (rf_scratch ?x)"
      "READ_REPLY_PREFIX_BYTES + unat (rq_length m) \<le> length (rf_reply_storage ?x)"
    using served(5) by (auto simp: prepare_refusal_def Let_def split: if_splits)
  have "rf_brokered ?x = (b, s')" by simp
  from source_seam.serve_ready[OF seam this _ fits bounds(2) len bounds(1), of status destination w' request]
    service served show ?thesis
    by (intro that[of m s' status destination w' _ "fst (rf_brokered x')"]) auto
qed auto

lemma reply_frame_wf:
  assumes "wf_frame request" "fh_message_type (fv_header request) = ReadRequest"
    "read_reply_valid seq len reply"
  shows "wf_frame (frame_view_new (frame_header_new ReadReply (fh_session_id (fv_header request))
     (fh_request_id (fv_header request)) (of_nat (length (read_reply_wire reply)))) (read_reply_wire reply))"
proof -
  have "length (read_reply_wire reply) \<le> 6 + unat MAXIMUM_READ_BYTES"
    using assms(3) by (auto simp: read_reply_valid_def read_reply_wire_def word_le_nat_alt)
  then have size: "length (read_reply_wire reply) \<le> 1048576" by (simp add: owp_consts)
  then have "unat (of_nat (length (read_reply_wire reply)) :: u32) = length (read_reply_wire reply)"
    unfolding unat_of_nat by simp
  with assms(1,2) size show ?thesis
    by (auto simp: wf_frame_def frame_view_new_def frame_header_new_def frame_header_validate_def owp_consts
        word_less_nat_alt word_le_nat_alt split: if_splits)
qed


lemma prepare_fail_keeps:
  "prepare_fail e x = (r, x') \<Longrightarrow> rf_scratch x' = rf_scratch x \<and> rf_reply_storage x' = rf_reply_storage x \<and>
     rf_world x' = rf_world x \<and> (\<exists>f. r = Err f)"
  by (auto simp: prepare_fail_def split: prod.splits)


text \<open>
  C34: a served read makes progress.  After a reply with an ok status was prepared, and as long as
  the protocol budgets admit its frame, committing it succeeds: the session is live and back in the
  operation it was in before the request, no reply is pending, and the next request of the operation
  is expected with the next sequence number.
\<close>

theorem broker_commit_progress:
  assumes "source_seam ops" and "rf_brokered x = (b, s)" and "rs_inv s"
    and "srp_maximum_read_bytes (srb_policy b) \<le> MAXIMUM_READ_BYTES"
    and "broker_prepare ops request x = (Ok (ReplyReady p), x')" and "pp_status p = StatusOk"
    and "admissible (rs_protocol (snd (rf_brokered x'))) (pp_header p)"
  shows "\<exists>b' s'. commit_reply_sent p (rf_brokered x') = (Ok (), (b', s')) \<and>
    srb_failure b' = None \<and> srb_pending b' = None \<and> rs_failure s' = None \<and>
    sv_view (rs_protocol s') = sv_view (rs_protocol s) \<and>
    (if expected_sequence_of b request = - 1 then srb_sequence_exhausted b'
     else expected_sequence_of b' request = expected_sequence_of b request + 1)"
proof (rule prepare_ready[OF assms(1,2,4,5)], goal_cases)
  case (1 m s1 b1 status destination w' reply)
  let ?seq = "expected_sequence_of b request" and ?rid = "fh_request_id (fv_header request)"
  let ?f = "frame_view_new (pp_header p) (pp_payload p)"
  note bounds = decode_read_request_bounds[OF 1(1)]
  have status: "status = StatusOk" using 1(6) assms(6) by simp
  from accept_read_request_outcome[OF 1(2)] obtain
    live: "rs_failure s = None" and obs: "rs_observe WorkerToParent request s = (Ok (), s1)"
    and busy: "sv_state (rs_protocol s) \<noteq> Cancelling" by (auto split: if_splits)
  have "sv_inv (rs_protocol s)" using assms(3) by (simp add: rs_inv_def)
  from rs_observe_Ok[OF obs this] have s1: "s1 = s\<lparr>rs_protocol := rs_protocol s1\<rparr>" "sv_inv (rs_protocol s1)"
    "exchange (sv_view (rs_protocol s)) (WorkerToParent, ReadRequest, ?rid) (sv_view (rs_protocol s1))"
    using bounds(6) by simp_all
  then obtain op where views: "sv_view (rs_protocol s) = Busy op ?rid False" "sv_view (rs_protocol s1) = Busy op ?rid True"
    using busy by (auto elim!: exchangeE simp: sv_view_def split: SessionState.splits)
  have "exchange (sv_view (rs_protocol s1)) (label_of (ParentToWorker, pp_header p)) (Busy op ?rid False)"
    by (simp add: views label_of_def 1(6) frame_header_new_def exchange.read_reply)
  moreover have "sv_error (rs_protocol s1) = None"
    using s1(2) views(2) by (auto simp: sv_inv_def sv_view_def split: SessionState.splits)
  moreover obtain r v where rv: "observe ParentToWorker (pp_header p) (rs_protocol s1) = (r, v)" by fastforce
  ultimately have ok: "observe ParentToWorker (pp_header p) (rs_protocol s1) = (Ok (), v)"
    using observe_Err_refines[OF s1(2), of ParentToWorker "pp_header p" _ v] assms(7) 1(11)
    by (cases r) auto
  have "exchange (Busy op ?rid True) (ParentToWorker, ReadReply, ?rid) (sv_view v)"
    using observe_Ok_refines[OF s1(2) ok] views by (simp add: label_of_def 1(6) frame_header_new_def)
  then have v: "sv_view v = Busy op ?rid False" by (auto simp: exchange_simps kind_iffs)
  have dec: "decode_read_reply_payload ?f ?seq (rq_length m) = Ok reply"
    using reply_frame_wf[OF bounds(5,6) 1(5)] 1(5)
    by (simp add: read_reply_codec.decode_Ok 1(6) frame_view_new_def frame_header_new_def)
  have "rs_failure s1 = None" using s1(1) live by (metis ResultSession.simps(4) ResultSession.ext_inject ResultSession.surjective ResultSession.update_convs(1))
  then have acc: "accept_read_reply ?f ?seq (rq_length m) s1 = (Ok (), s1\<lparr>rs_protocol := v\<rparr>)"
    using dec ok status
    by (simp add: accept_read_reply_def st_bind_def rs_guard_def rs_decoded_def rs_observe_def frame_view_new_def 1(4))
  have "take_pending (pp_ticket p) (b1, s1) = (Ok \<lparr>pend_ticket = srb_ticket_counter b + 1, pend_request_id = ?rid,
      pend_sequence = ?seq, pend_requested_length = rq_length m, pend_status = status\<rparr>,
      b1\<lparr>srb_pending := None\<rparr>, s1)"
    using 1(8,10) by (simp add: take_pending_def 1(6))
  with acc status \<open>rs_failure s1 = None\<close> show ?case
    using 1(8,11) v views(1) by (simp add: commit_reply_sent_def Let_def expected_sequence_of_def)
qed


section \<open>A concrete read\<close>

text \<open>
  A stream is open and the worker asks for three bytes at offset 2 of a window that starts at byte 1
  of a mounted file.
\<close>

definition demo_window :: SourceWindow where
  "demo_window = \<lparr>win_base_offset = 1, win_length = 6\<rparr>"

definition demo_seek :: "u64 \<Rightarrow> bytes \<times> nat \<Rightarrow> bool \<times> bytes \<times> nat" where
  "demo_seek absolute w = (True, fst w, unat absolute)"

definition demo_file_read :: "nat \<Rightarrow> bytes \<times> nat \<Rightarrow> bool \<times> bytes \<times> bytes \<times> nat" where
  "demo_file_read n w = (let part = take n (drop (snd w) (fst w)) in (True, part, fst w, snd w + length part))"

definition demo_ops :: "(bytes \<times> nat) SourceOps" where
  "demo_ops = window_ops demo_window (\<lambda>w. (Ok (), w)) (read_mounted_file demo_seek demo_file_read)"

definition demo_read_request :: FrameView where
  "demo_read_request = frame_view_new (frame_header_new ReadRequest 7 1 16)
     (read_request_wire \<lparr>rq_read_sequence = 1, rq_offset = 2, rq_length = 3\<rparr>)"

definition demo_stream_session :: ResultSession where
  "demo_stream_session = demo_promoted\<lparr>rs_protocol := demo_streaming, rs_stream := Some \<lparr>stm_remaining_bytes = 1\<rparr>\<rparr>"

definition demo_reading :: SessionValidator where
  "demo_reading = snd (observe WorkerToParent (frame_header_new ReadRequest 7 1 16) demo_streaming)"

definition demo_frame :: "(bytes \<times> nat) ReadFrame" where
  "demo_frame = \<lparr>rf_brokered = (demo_broker, demo_stream_session), rf_scratch = [9, 9, 9, 9],
     rf_reply_storage = replicate 16 0, rf_world = ([10, 11, 12, 13, 14, 15, 16, 17], 0)\<rparr>"

lemma demo_read_decoded:
  "decode_read_request_payload demo_read_request (srb_policy demo_broker) 1 =
     Ok \<lparr>rq_read_sequence = 1, rq_offset = 2, rq_length = 3\<rparr>"
  by (simp add: read_request_codec.decode_Ok read_request_valid_def demo_read_request_def demo_broker_def
      demo_frame_defs owp_consts)

lemma demo_read_observed:
  "observe WorkerToParent (frame_header_new ReadRequest 7 1 16) demo_streaming = (Ok (), demo_reading)"
  "sv_state demo_streaming = Streaming"
  by code_simp+

lemma demo_stream_session_inv: "rs_inv demo_stream_session"
  using begin_stream_entry_inv[OF demo_promoted_inv demo_begin_stream] by (simp add: demo_stream_session_def)

lemma demo_reply_observed:
  "fst (observe ParentToWorker (frame_header_new ReadReply 7 1 9) demo_reading) = Ok ()"
  by code_simp

lemma demo_reply_admissible: "admissible demo_reading (frame_header_new ReadReply 7 1 9)"
proof -
  have "sv_inv demo_streaming"
    using demo_stream_session_inv by (simp add: rs_inv_def demo_stream_session_def)
  then have "sv_inv demo_reading" using observe_Ok_refines demo_read_observed(1) by blast
  then show ?thesis using observe_Ok_refines demo_reply_observed by (metis prod.collapse)
qed

lemma demo_read_accepted:
  "accept_read_request demo_read_request (srb_policy demo_broker) 1 demo_stream_session =
     (Ok (Serviceable \<lparr>rq_read_sequence = 1, rq_offset = 2, rq_length = 3\<rparr>),
      demo_stream_session\<lparr>rs_protocol := demo_reading\<rparr>)"
proof -
  have g: "rs_guard demo_stream_session = (Ok (), demo_stream_session)"
    by (simp add: rs_guard_def demo_stream_session_def demo_promoted_def demo_session_def)
  have p: "rs_protocol demo_stream_session = demo_streaming" by (simp add: demo_stream_session_def)
  have h: "fv_header demo_read_request = frame_header_new ReadRequest 7 1 16"
    by (simp add: demo_read_request_def frame_view_new_def)
  have o: "rs_observe WorkerToParent demo_read_request demo_stream_session =
      (Ok (), demo_stream_session\<lparr>rs_protocol := demo_reading\<rparr>)"
    unfolding rs_observe_def h p demo_read_observed(1) by simp
  show ?thesis
    unfolding accept_read_request_def st_bind_step_Ok[where m = rs_guard, OF g] Let_def demo_read_decoded
      rs_decoded_def p demo_read_observed(2)
    by (simp add: st_bind_def o)
qed

lemma demo_broker_facts:
  "srb_failure demo_broker = None" "srb_pending demo_broker = None" "srb_committed_request_id demo_broker = None"
  "expected_sequence_of demo_broker demo_read_request = 1" "rf_brokered demo_frame = (demo_broker, demo_stream_session)" "rs_protocol demo_stream_session = demo_streaming"
  "prepare_refusal demo_broker (length (rf_scratch demo_frame)) (length (rf_reply_storage demo_frame)) 3 = None"
  by (simp_all add: demo_frame_def demo_stream_session_def)
    (simp_all add: demo_broker_def expected_sequence_of_def prepare_refusal_def source_read_limits_default_def
      owp_consts)

lemma demo_serviced:
  "broker_service demo_ops 2 (take 3 [9, 9, 9, 9]) ([10, 11, 12, 13, 14, 15, 16, 17], 0) =
     (StatusOk, [13, 14, 15], [10, 11, 12, 13, 14, 15, 16, 17], 6)"
  by (simp add: broker_service_def demo_ops_def window_ops_def read_window_def demo_window_def
      read_mounted_file_def demo_seek_def demo_file_read_def fill_from_file.simps Let_def copy_at_def
      try_from_nat_def checked_add_def)

lemma demo_seam: "source_seam demo_ops"
  unfolding demo_ops_def by (rule mounted.source_seam_axioms)

lemma demo_prepared:
  "\<exists>p x'. broker_prepare demo_ops demo_read_request demo_frame = (Ok (ReplyReady p), x') \<and>
     pp_status p = StatusOk \<and> pp_header p = frame_header_new ReadReply 7 1 9 \<and>
     rs_protocol (snd (rf_brokered x')) = demo_reading"
proof -
  let ?s = "demo_stream_session\<lparr>rs_protocol := demo_reading\<rparr>"
  let ?m = "\<lparr>rq_read_sequence = 1, rq_offset = 2, rq_length = 3\<rparr>"
  let ?x = "demo_frame\<lparr>rf_brokered := (demo_broker, ?s)\<rparr>"
  have prep: "broker_prepare demo_ops demo_read_request demo_frame = prepare_serve demo_ops demo_read_request 1 ?m ?x"
    using demo_read_decoded demo_read_accepted demo_read_observed(2)
    by (simp add: broker_prepare_def demo_broker_facts)
  have "rf_brokered ?x = (demo_broker, ?s)" by simp
  moreover have "broker_service demo_ops (rq_offset ?m) (take (unat (rq_length ?m)) (rf_scratch ?x)) (rf_world ?x) =
      (StatusOk, [13, 14, 15], [10, 11, 12, 13, 14, 15, 16, 17], 6)"
    using demo_serviced by (simp add: demo_frame_def)
  ultimately show ?thesis
    using source_seam.serve_ready[OF demo_seam, of ?x demo_broker ?s ?m StatusOk "[13, 14, 15]"
        "([10, 11, 12, 13, 14, 15, 16, 17], 6)" 1 demo_read_request] prep
    by (auto simp: demo_frame_def owp_consts demo_read_request_def frame_view_new_def frame_header_new_def
        read_reply_wire_def)
qed


lemma demo_reached: "broker_reach demo_ops 100 source_read_limits_default [] (rf_brokered demo_frame)"
proof -
  have "broker_with_ops 100 100 source_read_limits_default demo_promoted = (Ok demo_broker, demo_promoted)"
    using demo_idle_state
    by (simp add: broker_with_ops_def source_read_policy_new_def source_read_limits_default_def demo_broker_def
        demo_promoted_def demo_session_def rs_is_terminal_def owp_consts)
  then have reach: "broker_reach demo_ops 100 source_read_limits_default [] (demo_broker, demo_promoted)"
    by (rule broker_reach.start)
  have event: "result_event demo_sink (Call (BeginStreamEntry demo_stream_entry demo_generation)) (demo_promoted, []) =
      (demo_stream_session, [])"
    by (simp add: on_session_def demo_begin_stream demo_stream_session_def)
  show ?thesis
    unfolding demo_broker_facts(5) by (rule broker_reach.session[OF reach event])
qed

theorem broker_budgets_witness:
  "\<exists>b s. broker_reach demo_ops 100 source_read_limits_default [3] (b, s) \<and>
     rf_brokered (snd (broker_prepare demo_ops demo_read_request demo_frame)) = (b, s) \<and>
     unat (srb_requests_charged b) \<le> unat (srl_requests source_read_limits_default) \<and>
     unat (srb_ticket_counter b) = 1"
proof -
  obtain p x' where x': "broker_prepare demo_ops demo_read_request demo_frame = (Ok (ReplyReady p), x')"
    using demo_prepared by blast
  obtain b s where bs: "rf_brokered x' = (b, s)" by fastforce
  have "answered demo_read_request (Ok (ReplyReady p)) = [3]"
    using asked_decoded[OF demo_read_decoded] by (simp add: answered_def)
  then have reach: "broker_reach demo_ops 100 source_read_limits_default [3] (b, s)"
    using broker_reach.prepare[OF demo_reached x'] by (simp add: bs)
  have "unat (srb_requests_charged b) \<le> unat (srl_requests source_read_limits_default) \<and> unat (srb_ticket_counter b) = 1"
    using broker_budgets[OF reach] by simp
  then show ?thesis using reach x' bs by auto
qed


theorem broker_commit_progress_witness:
  "\<exists>p x' b' s'. broker_prepare demo_ops demo_read_request demo_frame = (Ok (ReplyReady p), x') \<and>
     commit_reply_sent p (rf_brokered x') = (Ok (), (b', s')) \<and> rs_failure s' = None \<and>
     expected_sequence_of b' demo_read_request = 2"
proof -
  obtain p x' where prep: "broker_prepare demo_ops demo_read_request demo_frame = (Ok (ReplyReady p), x')"
      "pp_status p = StatusOk" "pp_header p = frame_header_new ReadReply 7 1 9"
      "rs_protocol (snd (rf_brokered x')) = demo_reading"
    using demo_prepared by blast
  have max: "srp_maximum_read_bytes (srb_policy demo_broker) \<le> MAXIMUM_READ_BYTES" by (simp add: demo_broker_def)
  have adm: "admissible (rs_protocol (snd (rf_brokered x'))) (pp_header p)"
    using demo_reply_admissible prep by simp
  show ?thesis
    using broker_commit_progress[OF demo_seam demo_broker_facts(5) demo_stream_session_inv max prep(1,2) adm] prep(1)
    by (auto simp: demo_broker_facts(4))
qed


section \<open>Correctness of the window\<close>

text \<open>A mounted file with contents \<open>data\<close> that returns as few bytes per read as \<open>chunk\<close> says.\<close>

definition short_read :: "bytes \<Rightarrow> (nat \<Rightarrow> nat \<Rightarrow> nat) \<Rightarrow> nat \<Rightarrow> nat \<Rightarrow> bool \<times> bytes \<times> nat" where
  "short_read data chunk n pos =
     (let part = take (min n (Suc (chunk n pos))) (drop pos data) in (True, part, pos + length part))"

definition seek_to :: "u64 \<Rightarrow> nat \<Rightarrow> bool \<times> nat" where
  "seek_to absolute pos = (True, unat absolute)"

lemma fill_from_file_short:
  assumes "filled \<le> length destination" "pos + (length destination - filled) \<le> length data"
  shows "fill_from_file (short_read data chunk) filled destination pos =
    (Ok (), take filled destination @ take (length destination - filled) (drop pos data),
     pos + (length destination - filled))"
  using assms
proof (induction "length destination - filled" arbitrary: filled destination pos rule: less_induct)
  case less
  show ?case
  proof (cases "filled < length destination")
    case False
    with less.prems(1) have "filled = length destination" by simp
    then show ?thesis by (subst fill_from_file.simps) simp
  next
    case True
    let ?n = "length destination - filled"
    let ?k = "min ?n (Suc (chunk ?n pos))"
    let ?part = "take ?k (drop pos data)"
    have k: "0 < ?k" "?k \<le> ?n" "length ?part = ?k" "pos + ?k \<le> length data" using True less.prems(2) by auto
    let ?d = "copy_at filled ?part destination"
    have d: "length ?d = length destination" using True k by (intro length_copy_at) simp
    have "filled + length ?part \<le> length destination" using True k(2,3) by linarith
    from take_copy_at[OF this] have front: "take (filled + ?k) ?d = take filled destination @ ?part"
      unfolding k(3) .
    have "fill_from_file (short_read data chunk) filled destination pos =
        fill_from_file (short_read data chunk) (filled + ?k) ?d (pos + ?k)"
    proof -
      have "short_read data chunk ?n pos = (True, ?part, pos + ?k)" "take ?n ?part = ?part" "(?k = 0) = False"
        unfolding short_read_def Let_def k(3) using k(1-3) by simp_all
      then show ?thesis
        using True
        by (subst fill_from_file.simps) (simp only: prod.case if_True if_False not_True_eq_False Let_def k(3))
    qed
    also have "\<dots> =
        (Ok (), take (filled + ?k) ?d @ take (length ?d - (filled + ?k)) (drop (pos + ?k) data),
         pos + ?k + (length ?d - (filled + ?k)))"
      by (rule less.hyps; unfold d; use True k(1,2) less.prems(2) in linarith)
    also have "take (filled + ?k) ?d @ take (length ?d - (filled + ?k)) (drop (pos + ?k) data) =
        take filled destination @ take ?n (drop pos data)"
    proof -
      have "?k + (?n - ?k) = ?n" using k(2) by linarith
      from take_add[of ?k "?n - ?k" "drop pos data", unfolded this drop_drop add.commute[of ?k pos]]
      have "?part @ take (?n - ?k) (drop (pos + ?k) data) = take ?n (drop pos data)" by (rule sym)
      then show ?thesis unfolding front d by (simp only: append_assoc diff_diff_left)
    qed
    also have "pos + ?k + (length ?d - (filled + ?k)) = pos + ?n" unfolding d using k(2) by linarith
    finally show ?thesis .
  qed
qed

text \<open>
  C35: a window shows exactly its range.  For a window accepted for a file of \<open>size_bytes\<close> bytes, a
  read at a window offset returns exactly the file's bytes at the corresponding place, however short
  the single file reads are, when the range ends inside the window, and is refused whole without
  touching the file otherwise; the absolute offset never wraps.
\<close>

theorem window_read_exact:
  assumes "source_window_new size_bytes base_offset len = Ok win" and "length data = unat size_bytes"
    and "length destination < 2 ^ 64"
  shows "read_window win (read_mounted_file seek_to (short_read data chunk)) offset destination pos =
    (if unat offset + length destination \<le> unat len
     then (Ok (), take (length destination) (drop (unat base_offset + unat offset) data),
           unat base_offset + unat offset + length destination)
     else (Err OutOfRange, destination, pos))"
proof -
  have win: "win = \<lparr>win_base_offset = base_offset, win_length = len\<rparr>"
      "unat base_offset + unat len \<le> unat size_bytes"
    using assms(1)
    by (auto simp: source_window_new_def checked_add_def word_le_nat_alt not_less unat_word_ariths split: if_splits)
  show ?thesis
  proof (cases "unat offset + length destination \<le> unat len")
    case True
    have "unat len < 2 ^ 64" "unat size_bytes < 2 ^ 64"
      using unat_less_pow[of len] unat_less_pow[of size_bytes] by simp_all
    then have fits: "length destination < 2 ^ 64" "unat offset + length destination < 2 ^ 64"
        "unat base_offset + unat offset < 2 ^ 64"
      using True win(2) by linarith+
    then have n: "(try_from_nat (length destination) :: u64 option) = Some (of_nat (length destination))"
        "unat (of_nat (length destination) :: u64) = length destination"
        "unat (offset + of_nat (length destination)) = unat offset + length destination"
        "unat (base_offset + offset) = unat base_offset + unat offset"
      by (simp_all add: try_from_nat_def unat_of_nat unat_word_ariths)
    have "fill_from_file (short_read data chunk) 0 destination (unat base_offset + unat offset) =
        (Ok (), take (length destination) (drop (unat base_offset + unat offset) data),
         unat base_offset + unat offset + length destination)"
      using fill_from_file_short[of 0 destination "unat base_offset + unat offset" data chunk] True win(2) assms(2)
      by simp
    with True fits n show ?thesis
      by (simp add: read_window_def win(1) Let_def checked_add_def word_le_nat_alt read_mounted_file_def seek_to_def)
  next
    case False
    have "\<not> (case checked_add offset (case try_from_nat (length destination) of None \<Rightarrow> - 1 | Some n \<Rightarrow> n) of
        None \<Rightarrow> False | Some e \<Rightarrow> e \<le> win_length win)"
      using False assms(3)
      by (auto simp: win(1) try_from_nat_def checked_add_Some_iff word_le_nat_alt unat_of_nat split: option.splits)
    then have "\<And>u. read_window win u offset destination pos = (Err OutOfRange, destination, pos)"
      unfolding read_window_def Let_def by (rule if_P)
    with False show ?thesis by simp
  qed
qed

theorem window_read_exact_witness:
  "read_window \<lparr>win_base_offset = 1, win_length = 6\<rparr>
     (read_mounted_file seek_to (short_read [10, 11, 12, 13, 14, 15, 16, 17] (\<lambda>_ _. 0))) 2 [0, 0, 0] 0 =
     (Ok (), [13, 14, 15], 6)"
proof -
  have "source_window_new 8 1 6 = Ok \<lparr>win_base_offset = 1, win_length = 6\<rparr>"
    by (simp add: source_window_new_def checked_add_def)
  from window_read_exact[OF this, of "[10, 11, 12, 13, 14, 15, 16, 17]" "[0, 0, 0]" "\<lambda>_ _. 0" 2 0]
  show ?thesis by simp
qed

text \<open>A file whose reads are counted in the first component of the world.\<close>

definition counted_read :: "(nat \<Rightarrow> 'w \<Rightarrow> bool \<times> bytes \<times> 'w) \<Rightarrow> nat \<Rightarrow> nat \<times> 'w \<Rightarrow> bool \<times> bytes \<times> nat \<times> 'w" where
  "counted_read file_read n kw = (case file_read n (snd kw) of (ok, part, w) \<Rightarrow> (ok, part, Suc (fst kw), w))"

lemma length_fill_step:
  "filled < length destination \<Longrightarrow>
     length (copy_at filled (take (length destination - filled) part) destination) = length destination"
  by (rule length_copy_at) simp

text \<open>
  The read loop of a mounted file ends.  Whatever the file returns, including reads that fail or
  come back empty, the loop over the destination makes at most one read per byte still missing, and the
  buffer keeps its length.
\<close>

theorem mounted_read_bounded:
  "case fill_from_file (counted_read file_read) filled destination (k, w) of
     (r, destination', k', w') \<Rightarrow>
       k' \<le> k + (length destination - filled) \<and> length destination' = length destination"
proof (induction "length destination - filled" arbitrary: filled destination k w rule: less_induct)
  case less
  let ?n = "length destination - filled"
  show ?case
  proof (cases "filled < length destination")
    case False
    then show ?thesis by (subst fill_from_file.simps) simp
  next
    case True
    obtain ok part w1 where read: "file_read ?n w = (ok, part, w1)" by (cases "file_read ?n w")
    let ?d = "copy_at filled (take ?n part) destination"
    have d: "length ?d = length destination" using True by (rule length_fill_step)
    show ?thesis
    proof (cases "ok \<and> part \<noteq> []")
      case False
      then show ?thesis
        using True d read by (subst fill_from_file.simps) (auto simp: counted_read_def Let_def)
    next
      case again: True
      then have pos: "0 < length part" by simp
      have "length ?d - (filled + length part) < ?n" unfolding d using True pos by linarith
      moreover have "Suc k + (length ?d - (filled + length part)) \<le> k + ?n"
        unfolding d using True pos by linarith
      ultimately show ?thesis using less[of ?d "filled + length part" "Suc k" w1]
        using True again d read pos
        by (subst fill_from_file.simps) (auto simp: counted_read_def Let_def split: prod.splits)
    qed
  qed
qed

end
