(* ===== verification/Frame_Channel.thy ===== *)
theory Frame_Channel
  imports Owp_Session
begin

text \<open>
  \<open>frame_channel.rs\<close> of crate \<open>ohl-import\<close> with the transport interface of \<open>io.rs\<close>: frames over an
  exact byte channel.  The transport is a parameter, a record of functions on the state \<open>'w\<close> of the
  outside world; deadlines and cancellation tokens are passed through to it unread and belong to that
  state.  The critical sections under the channel's mutex are functions on \<open>ChannelState\<close>; \<open>send\<close> and
  \<open>receive\<close> are built from them, and so is the step relation of the operations that overlap.
\<close>


section \<open>The transport\<close>

datatype IoError = IoFailure | TimedOut | TransportCancelled | PeerClosed | TransportAborted

record 'w ExactIo =
  io_read_exact :: "bytes \<Rightarrow> 'w \<Rightarrow> (IoError, nat) result \<times> bytes \<times> 'w"
  io_write_all :: "bytes \<Rightarrow> 'w \<Rightarrow> (IoError, nat) result \<times> 'w"
  io_abort_io :: "'w \<Rightarrow> 'w"


section \<open>Errors, buffers and state\<close>

datatype ChannelError =
    ConcurrentOperation | BufferInvalidated | ChannelProtocol ProtocolError | ChannelTransport IoError
  | ChannelAborted

fun channel_protocol_error :: "ChannelError \<Rightarrow> ProtocolError option" where
  "channel_protocol_error (ChannelProtocol e) = Some e"
| "channel_protocol_error _ = None"

fun channel_error_is_terminal :: "ChannelError \<Rightarrow> bool" where
  "channel_error_is_terminal (ChannelProtocol _) = True"
| "channel_error_is_terminal (ChannelTransport _) = True"
| "channel_error_is_terminal ChannelAborted = True"
| "channel_error_is_terminal _ = False"

record FrameBuffer =
  fb_bytes :: bytes
  fb_usable :: bool

definition frame_buffer_new :: FrameBuffer where
  "frame_buffer_new = \<lparr>fb_bytes = replicate (unat MAXIMUM_FRAME_PAYLOAD_BYTES) 0, fb_usable = True\<rparr>"

definition frame_buffer_reinit :: "FrameBuffer \<Rightarrow> FrameBuffer" where
  "frame_buffer_reinit b = b\<lparr>fb_bytes := replicate (length (fb_bytes b)) 0, fb_usable := True\<rparr>"

record ChannelState =
  ch_failure :: "ChannelError option"
  ch_send_active :: bool
  ch_receive_active :: bool

record FrameChannel =
  fc_session_id :: u64
  fc_state :: ChannelState

datatype ChannelDirection = DirSend | DirReceive

definition frame_channel_new :: "u64 \<Rightarrow> FrameChannel" where
  "frame_channel_new session_id = \<lparr>fc_session_id = session_id,
     fc_state = \<lparr>ch_failure = None, ch_send_active = False, ch_receive_active = False\<rparr>\<rparr>"

definition channel_is_terminal :: "FrameChannel \<Rightarrow> bool" where
  "channel_is_terminal c \<longleftrightarrow> ch_failure (fc_state c) \<noteq> None"


section \<open>The critical sections\<close>

fun chan_active :: "ChannelDirection \<Rightarrow> ChannelState \<Rightarrow> bool" where
  "chan_active DirSend st = ch_send_active st"
| "chan_active DirReceive st = ch_receive_active st"

fun chan_set_active :: "ChannelDirection \<Rightarrow> bool \<Rightarrow> ChannelState \<Rightarrow> ChannelState" where
  "chan_set_active DirSend b st = st\<lparr>ch_send_active := b\<rparr>"
| "chan_set_active DirReceive b st = st\<lparr>ch_receive_active := b\<rparr>"

definition chan_begin :: "ChannelDirection \<Rightarrow> (ChannelState, ChannelError, unit) stm" where
  "chan_begin d st =
     (case ch_failure st of
        Some failure \<Rightarrow> (Err failure, st)
      | None \<Rightarrow>
          if chan_active d st then (Err ConcurrentOperation, st)
          else (Ok (), chan_set_active d True st))"

definition chan_clear :: "ChannelDirection \<Rightarrow> ChannelState \<Rightarrow> ChannelState" where
  "chan_clear d st = chan_set_active d False st"

definition chan_end_success :: "ChannelDirection \<Rightarrow> (ChannelState, ChannelError, unit) stm" where
  "chan_end_success d st =
     (let st = chan_clear d st in (case ch_failure st of None \<Rightarrow> Ok () | Some f \<Rightarrow> Err f, st))"

definition chan_end_failure :: "ChannelDirection \<Rightarrow> ChannelError \<Rightarrow> ChannelState \<Rightarrow> ChannelError \<times> ChannelState" where
  "chan_end_failure d e st =
     (let st = chan_clear d st in (case ch_failure st of None \<Rightarrow> e | Some f \<Rightarrow> f, st))"

text \<open>The locked part of \<open>poison\<close>: the retained failure, and whether the transport must be aborted.\<close>

definition poison_state :: "ChannelError \<Rightarrow> ChannelState \<Rightarrow> ChannelError \<times> bool \<times> ChannelState" where
  "poison_state e st =
     (case ch_failure st of
        Some existing \<Rightarrow> (existing, False, st)
      | None \<Rightarrow> (e, True, st\<lparr>ch_failure := Some e\<rparr>))"


section \<open>Operations\<close>

type_synonym 'w channel = "FrameChannel \<times> 'w"

definition channel_poison :: "'w ExactIo \<Rightarrow> ChannelError \<Rightarrow> 'w channel \<Rightarrow> ChannelError \<times> 'w channel" where
  "channel_poison io e cw =
     (case cw of (c, w) \<Rightarrow>
        case poison_state e (fc_state c) of (retained, abort, st) \<Rightarrow>
          (retained, c\<lparr>fc_state := st\<rparr>, if abort then io_abort_io io w else w))"

definition channel_abort :: "'w ExactIo \<Rightarrow> 'w channel \<Rightarrow> 'w channel" where
  "channel_abort io cw = snd (channel_poison io ChannelAborted cw)"

text \<open>\<open>map_err(|error| self.poison(k(error)))\<close>.\<close>

definition or_poison :: "'w ExactIo \<Rightarrow> ('e \<Rightarrow> ChannelError) \<Rightarrow> ('e, 'a) result \<Rightarrow> ('w channel, ChannelError, 'a) stm" where
  "or_poison io k r cw =
     (case r of
        Ok v \<Rightarrow> (Ok v, cw)
      | Err e \<Rightarrow> (case channel_poison io (k e) cw of (f, cw) \<Rightarrow> (Err f, cw)))"

fun transferred :: "(IoError, nat) result \<Rightarrow> nat \<Rightarrow> (IoError, unit) result" where
  "transferred (Ok n) expected = (if n = expected then Ok () else Err IoFailure)"
| "transferred (Err e) expected = Err e"

definition validate_outgoing :: "u64 \<Rightarrow> FrameHeader \<Rightarrow> bytes \<Rightarrow> (ProtocolError, unit) result" where
  "validate_outgoing session_id h payload =
     and_then (frame_header_validate h) (\<lambda>_.
       if fh_session_id h \<noteq> session_id then Err WrongSessionId
       else if length payload > unat MAXIMUM_FRAME_PAYLOAD_BYTES then Err PayloadTooLarge
       else if unat (fh_payload_length h) \<noteq> length payload then Err NoncanonicalValue
       else Ok ())"

definition chan_write :: "'w ExactIo \<Rightarrow> bytes \<Rightarrow> ('w channel, ChannelError, unit) stm" where
  "chan_write io bs cw =
     (case cw of (c, w) \<Rightarrow> case io_write_all io bs w of (r, w) \<Rightarrow>
        or_poison io ChannelTransport (transferred r (length bs)) (c, w))"

definition send_inner :: "'w ExactIo \<Rightarrow> FrameHeader \<Rightarrow> bytes \<Rightarrow> ('w channel, ChannelError, unit) stm" where
  "send_inner io h payload cw =
     (let protocol =
            and_then (validate_outgoing (fc_session_id (fst cw)) h payload) (\<lambda>_.
              case frame_header_encode h (replicate FRAME_HEADER_BYTES 0) of
                (Err e, _) \<Rightarrow> Err e
              | (Ok _, encoded) \<Rightarrow> Ok encoded)
      in st_bind (or_poison io ChannelProtocol protocol) (\<lambda>encoded.
         st_bind (chan_write io encoded) (\<lambda>_.
         if payload \<noteq> [] then chan_write io payload else st_return ())) cw)"

definition channel_send :: "'w ExactIo \<Rightarrow> FrameHeader \<Rightarrow> bytes \<Rightarrow> ('w channel, ChannelError, unit) stm" where
  "channel_send io h payload cw =
     (case cw of (c, w) \<Rightarrow>
        case chan_begin DirSend (fc_state c) of
          (Err e, st) \<Rightarrow> (Err e, c\<lparr>fc_state := st\<rparr>, w)
        | (Ok _, st) \<Rightarrow>
            (case send_inner io h payload (c\<lparr>fc_state := st\<rparr>, w) of
               (Ok _, c, w) \<Rightarrow>
                 (case chan_end_success DirSend (fc_state c) of (r, st) \<Rightarrow> (r, c\<lparr>fc_state := st\<rparr>, w))
             | (Err e, c, w) \<Rightarrow>
                 (case chan_end_failure DirSend e (fc_state c) of (f, st) \<Rightarrow> (Err f, c\<lparr>fc_state := st\<rparr>, w))))"

text \<open>\<open>receive\<close> also updates the caller's buffer, which only a payload transfer touches.\<close>

type_synonym 'w receiving = "'w channel \<times> FrameBuffer"

definition receive_header :: "'w ExactIo \<Rightarrow> ('w channel, ChannelError, FrameHeader) stm" where
  "receive_header io cw =
     (case cw of (c, w) \<Rightarrow> case io_read_exact io (replicate FRAME_HEADER_BYTES 0) w of (r, header_bytes, w) \<Rightarrow>
        st_bind (or_poison io ChannelTransport (transferred r (length header_bytes))) (\<lambda>_.
        or_poison io ChannelProtocol
          (and_then (decode_frame_header header_bytes) (\<lambda>h.
             if fh_session_id h = fc_session_id c then Ok h else Err WrongSessionId))) (c, w))"

definition receive_inner :: "'w ExactIo \<Rightarrow> ('w receiving, ChannelError, FrameHeader) stm" where
  "receive_inner io x =
     (case x of (cw, buffer) \<Rightarrow>
        case receive_header io cw of
          (Err e, cw) \<Rightarrow> (Err e, cw, buffer)
        | (Ok h, c, w) \<Rightarrow>
            let n = unat (fh_payload_length h) in
            if n \<noteq> 0 then
              let buffer = buffer\<lparr>fb_usable := False\<rparr> in
              (case io_read_exact io (take n (fb_bytes buffer)) w of (r, part, w) \<Rightarrow>
                 let buffer = buffer\<lparr>fb_bytes := part @ drop n (fb_bytes buffer)\<rparr> in
                 case or_poison io ChannelTransport (transferred r n) (c, w) of
                   (Err e, cw) \<Rightarrow> (Err e, cw, buffer)
                 | (Ok _, cw) \<Rightarrow> (Ok h, cw, buffer\<lparr>fb_usable := True\<rparr>))
            else (Ok h, (c, w), buffer))"

definition channel_receive :: "'w ExactIo \<Rightarrow> ('w receiving, ChannelError, FrameView) stm" where
  "channel_receive io x =
     (case x of ((c, w), buffer) \<Rightarrow>
        case chan_begin DirReceive (fc_state c) of
          (Err e, st) \<Rightarrow> (Err e, (c\<lparr>fc_state := st\<rparr>, w), buffer)
        | (Ok _, st) \<Rightarrow>
            if \<not> fb_usable buffer then
              (case chan_end_success DirReceive st of
                 (Err e, st) \<Rightarrow> (Err e, (c\<lparr>fc_state := st\<rparr>, w), buffer)
               | (Ok _, st) \<Rightarrow> (Err BufferInvalidated, (c\<lparr>fc_state := st\<rparr>, w), buffer))
            else
              (case receive_inner io ((c\<lparr>fc_state := st\<rparr>, w), buffer) of
                 (Ok h, (c, w), buffer) \<Rightarrow>
                   (case chan_end_success DirReceive (fc_state c) of
                      (Err e, st) \<Rightarrow> (Err e, (c\<lparr>fc_state := st\<rparr>, w), buffer)
                    | (Ok _, st) \<Rightarrow>
                        (Ok (frame_view_new h (take (unat (fh_payload_length h)) (fb_bytes buffer))),
                         (c\<lparr>fc_state := st\<rparr>, w), buffer))
               | (Err e, (c, w), buffer) \<Rightarrow>
                   (case chan_end_failure DirReceive e (fc_state c) of
                      (f, st) \<Rightarrow> (Err f, (c\<lparr>fc_state := st\<rparr>, w), buffer))))"


section \<open>Operations that overlap\<close>

text \<open>
  Any number of threads share one channel.  A thread is between two of the atomic steps of an
  operation: it has not begun, is transferring, holds the duty to abort the transport after it
  recorded the first failure (\<open>poison\<close> releases the lock before it calls \<open>abort_io\<close>), has failed but
  not ended, or has returned.  \<open>AbortCall\<close> is a thread that calls \<open>abort\<close>.
\<close>

datatype ChannelTask =
    Starting ChannelDirection
  | Working ChannelDirection
  | Interrupting "ChannelDirection option" ChannelError
  | Failing ChannelDirection ChannelError
  | AbortCall
  | Returned "(ChannelError, unit) result"

record SharedChannel =
  sc_state :: ChannelState
  sc_aborts :: nat
  sc_tasks :: "ChannelTask list"

inductive channel_step :: "SharedChannel \<Rightarrow> SharedChannel \<Rightarrow> bool" where
  enter: "i < length (sc_tasks s) \<Longrightarrow> sc_tasks s ! i = Starting d \<Longrightarrow> chan_begin d (sc_state s) = (r, st) \<Longrightarrow>
    channel_step s (s\<lparr>sc_state := st,
      sc_tasks := (sc_tasks s)[i := case r of Ok _ \<Rightarrow> Working d | Err e \<Rightarrow> Returned (Err e)]\<rparr>)"
| poison: "i < length (sc_tasks s) \<Longrightarrow> sc_tasks s ! i = Working d \<Longrightarrow> channel_error_is_terminal e \<Longrightarrow>
    poison_state e (sc_state s) = (f, abort, st) \<Longrightarrow>
    channel_step s (s\<lparr>sc_state := st,
      sc_tasks := (sc_tasks s)[i := if abort then Interrupting (Some d) f else Failing d f]\<rparr>)"
| abort_call: "i < length (sc_tasks s) \<Longrightarrow> sc_tasks s ! i = AbortCall \<Longrightarrow>
    poison_state ChannelAborted (sc_state s) = (f, abort, st) \<Longrightarrow>
    channel_step s (s\<lparr>sc_state := st,
      sc_tasks := (sc_tasks s)[i := if abort then Interrupting None f else Returned (Ok ())]\<rparr>)"
| interrupt: "i < length (sc_tasks s) \<Longrightarrow> sc_tasks s ! i = Interrupting d f \<Longrightarrow>
    channel_step s (s\<lparr>sc_aborts := Suc (sc_aborts s),
      sc_tasks := (sc_tasks s)[i := case d of Some d \<Rightarrow> Failing d f | None \<Rightarrow> Returned (Ok ())]\<rparr>)"
| leave_ok: "i < length (sc_tasks s) \<Longrightarrow> sc_tasks s ! i = Working d \<Longrightarrow> chan_end_success d (sc_state s) = (r, st) \<Longrightarrow>
    channel_step s (s\<lparr>sc_state := st, sc_tasks := (sc_tasks s)[i := Returned r]\<rparr>)"
| leave_refused: "i < length (sc_tasks s) \<Longrightarrow> sc_tasks s ! i = Working DirReceive \<Longrightarrow>
    chan_end_success DirReceive (sc_state s) = (r, st) \<Longrightarrow>
    channel_step s (s\<lparr>sc_state := st,
      sc_tasks := (sc_tasks s)[i := Returned (and_then r (\<lambda>_. Err BufferInvalidated))]\<rparr>)"
| leave_failed: "i < length (sc_tasks s) \<Longrightarrow> sc_tasks s ! i = Failing d e \<Longrightarrow> chan_end_failure d e (sc_state s) = (f, st) \<Longrightarrow>
    channel_step s (s\<lparr>sc_state := st, sc_tasks := (sc_tasks s)[i := Returned (Err f)]\<rparr>)"

fun starting_task :: "ChannelTask \<Rightarrow> bool" where
  "starting_task (Starting d) = True"
| "starting_task AbortCall = True"
| "starting_task _ = False"

inductive channel_reach :: "SharedChannel \<Rightarrow> bool" where
  start: "list_all starting_task ts \<Longrightarrow>
    channel_reach \<lparr>sc_state = fc_state (frame_channel_new sid), sc_aborts = 0, sc_tasks = ts\<rparr>"
| step: "channel_reach s \<Longrightarrow> channel_step s t \<Longrightarrow> channel_reach t"

fun occupies :: "ChannelDirection \<Rightarrow> ChannelTask \<Rightarrow> bool" where
  "occupies d (Working d') \<longleftrightarrow> d' = d"
| "occupies d (Interrupting d' f) \<longleftrightarrow> d' = Some d"
| "occupies d (Failing d' f) \<longleftrightarrow> d' = d"
| "occupies d _ \<longleftrightarrow> False"

fun interrupting :: "ChannelTask \<Rightarrow> bool" where
  "interrupting (Interrupting d f) = True"
| "interrupting _ = False"

text \<open>What a task may hold, given the failure the channel retains.\<close>

fun task_agrees :: "ChannelError option \<Rightarrow> ChannelTask \<Rightarrow> bool" where
  "task_agrees failure (Interrupting d f) \<longleftrightarrow> failure = Some f"
| "task_agrees failure (Failing d f) \<longleftrightarrow> failure = Some f"
| "task_agrees failure (Returned (Err e)) \<longleftrightarrow> \<not> channel_error_is_terminal e \<or> failure = Some e"
| "task_agrees failure _ \<longleftrightarrow> True"

definition count_tasks :: "(ChannelTask \<Rightarrow> bool) \<Rightarrow> ChannelTask list \<Rightarrow> nat" where
  "count_tasks P ts = length (filter P ts)"

definition shared_inv :: "SharedChannel \<Rightarrow> bool" where
  "shared_inv s \<longleftrightarrow>
     (\<forall>d. count_tasks (occupies d) (sc_tasks s) = of_bool (chan_active d (sc_state s))) \<and>
     sc_aborts s + count_tasks interrupting (sc_tasks s) = of_bool (ch_failure (sc_state s) \<noteq> None) \<and>
     list_all (task_agrees (ch_failure (sc_state s))) (sc_tasks s) \<and>
     pred_option channel_error_is_terminal (ch_failure (sc_state s))"

lemma count_tasks_update:
  "i < length ts \<Longrightarrow> count_tasks P (ts[i := x]) + of_bool (P (ts ! i)) = count_tasks P ts + of_bool (P x)"
proof (induction ts arbitrary: i)
  case (Cons t ts)
  then show ?case using Cons.IH[of "i - 1"] by (cases i) (simp_all add: count_tasks_def)
qed simp

lemma count_tasks_pos: "i < length ts \<Longrightarrow> P (ts ! i) \<Longrightarrow> 0 < count_tasks P ts"
  using nth_mem[of i ts] by (auto simp: count_tasks_def filter_empty_conv)

lemma list_all_update: "list_all P ts \<Longrightarrow> P x \<Longrightarrow> list_all P (ts[i := x])"
  by (auto simp: list_all_iff dest!: set_update_subset_insert[THEN subsetD])

lemma chan_set_active_simps [simp]:
  "chan_active d (chan_set_active d' b st) = (if d = d' then b else chan_active d st)"
  "ch_failure (chan_set_active d b st) = ch_failure st"
  "ch_failure (chan_clear d st) = ch_failure st"
  "chan_active d (chan_clear d' st) = (if d = d' then False else chan_active d st)"
  "\<not> ch_send_active (chan_clear DirSend st)" "\<not> ch_receive_active (chan_clear DirReceive st)"
  by (cases d; cases d'; simp add: chan_clear_def)+

lemma chan_active_failure [simp]: "chan_active d (st\<lparr>ch_failure := f\<rparr>) = chan_active d st"
  by (cases d) simp_all

text \<open>What the invariant says of one task.\<close>

lemma shared_inv_task:
  assumes "shared_inv s" and "i < length (sc_tasks s)"
  shows "occupies d (sc_tasks s ! i) \<Longrightarrow> chan_active d (sc_state s)"
    and "task_agrees (ch_failure (sc_state s)) (sc_tasks s ! i)"
    and "ch_failure (sc_state s) = Some f \<Longrightarrow> channel_error_is_terminal f"
  using assms count_tasks_pos[OF assms(2), of "occupies d"]
  by (auto simp: shared_inv_def list_all_length)

text \<open>
  One step changes one task.  The invariant follows from what the step does to that task's part in
  the two counts and to the retained failure.
\<close>

lemma shared_inv_update:
  assumes inv: "shared_inv s" and i: "i < length (sc_tasks s)" and tasks: "sc_tasks t = (sc_tasks s)[i := x]"
    and occ: "\<And>d. of_bool (occupies d x) + of_bool (chan_active d (sc_state s)) =
      of_bool (occupies d (sc_tasks s ! i)) + (of_bool (chan_active d (sc_state t)) :: nat)"
    and aborts: "sc_aborts t + of_bool (interrupting x) + of_bool (ch_failure (sc_state s) \<noteq> None) =
      sc_aborts s + of_bool (interrupting (sc_tasks s ! i)) + of_bool (ch_failure (sc_state t) \<noteq> None)"
    and agrees: "task_agrees (ch_failure (sc_state t)) x"
    and fail: "ch_failure (sc_state t) = ch_failure (sc_state s) \<or>
      ch_failure (sc_state s) = None \<and> pred_option channel_error_is_terminal (ch_failure (sc_state t))"
  shows "shared_inv t"
proof -
  have keep: "task_agrees (ch_failure (sc_state t)) k" if "task_agrees (ch_failure (sc_state s)) k" for k
    using that fail by (cases "(ch_failure (sc_state t), k)" rule: task_agrees.cases) auto
  have "count_tasks (occupies d) (sc_tasks t) = of_bool (chan_active d (sc_state t))" for d
  proof -
    have "count_tasks (occupies d) (sc_tasks s) = of_bool (chan_active d (sc_state s))"
      using inv by (simp add: shared_inv_def)
    with count_tasks_update[OF i, of "occupies d" x] occ[of d] show ?thesis unfolding tasks by linarith
  qed
  moreover have "sc_aborts t + count_tasks interrupting (sc_tasks t) = of_bool (ch_failure (sc_state t) \<noteq> None)"
  proof -
    have "sc_aborts s + count_tasks interrupting (sc_tasks s) = of_bool (ch_failure (sc_state s) \<noteq> None)"
      using inv by (simp add: shared_inv_def)
    with count_tasks_update[OF i, of interrupting x] aborts show ?thesis unfolding tasks by linarith
  qed
  moreover have "list_all (task_agrees (ch_failure (sc_state t))) (sc_tasks t)"
    unfolding tasks using inv keep agrees by (intro list_all_update) (auto simp: shared_inv_def list_all_iff)
  ultimately show ?thesis using inv fail unfolding shared_inv_def by metis
qed

lemma shared_step_inv:
  assumes "shared_inv s" and "channel_step s t"
  shows "shared_inv t"
  using assms(2)
proof cases
  case (enter i d r st)
  show ?thesis
    by (rule shared_inv_update[OF assms(1) enter(2)])
      (use enter shared_inv_task(3)[OF assms(1) enter(2)] in
        \<open>auto simp: chan_begin_def split: option.splits if_splits\<close>)
next
  case (poison i d e f abort st)
  show ?thesis
    by (rule shared_inv_update[OF assms(1) poison(2)])
      (use poison in \<open>auto simp: poison_state_def split: option.splits\<close>)
next
  case (abort_call i f abort st)
  show ?thesis
    by (rule shared_inv_update[OF assms(1) abort_call(2)])
      (use abort_call in \<open>auto simp: poison_state_def split: option.splits\<close>)
next
  case (interrupt i d f)
  show ?thesis
    by (rule shared_inv_update[OF assms(1) interrupt(2)])
      (use interrupt shared_inv_task(2)[OF assms(1) interrupt(2)] in \<open>auto split: option.splits\<close>)
next
  case (leave_ok i d r st)
  show ?thesis
    by (rule shared_inv_update[OF assms(1) leave_ok(2)])
      (use leave_ok shared_inv_task(1)[OF assms(1) leave_ok(2)] in
        \<open>auto simp: chan_end_success_def Let_def split: option.splits\<close>)
next
  case (leave_refused i r st)
  show ?thesis
    by (rule shared_inv_update[OF assms(1) leave_refused(2)])
      (use leave_refused shared_inv_task(1)[OF assms(1) leave_refused(2)] in
        \<open>auto simp: chan_end_success_def Let_def split: option.splits\<close>)
next
  case (leave_failed i d e f st)
  show ?thesis
    by (rule shared_inv_update[OF assms(1) leave_failed(2)])
      (use leave_failed shared_inv_task(1,2)[OF assms(1) leave_failed(2)] in
        \<open>auto simp: chan_end_failure_def Let_def split: option.splits\<close>)
qed

lemma channel_reach_inv: "channel_reach s \<Longrightarrow> shared_inv s"
proof (induction rule: channel_reach.induct)
  case (start ts sid)
  have "\<not> occupies d t \<and> \<not> interrupting t \<and> task_agrees None t" if "starting_task t" for d t
    using that by (cases t) auto
  moreover have "chan_active d (fc_state (frame_channel_new sid)) = False" for d
    by (cases d) (simp_all add: frame_channel_new_def)
  ultimately show ?case
    using start by (auto simp: shared_inv_def count_tasks_def list_all_iff filter_empty_conv frame_channel_new_def)
qed (rule shared_step_inv)

lemma channel_step_keeps_failure:
  "channel_step s t \<Longrightarrow> ch_failure (sc_state s) = Some f \<Longrightarrow> ch_failure (sc_state t) = Some f"
  by (induction rule: channel_step.induct)
    (auto simp: chan_begin_def poison_state_def chan_end_success_def chan_end_failure_def Let_def split: if_splits)

text \<open>
  C37: the first failure wins, however sends, receives and aborts of any number of threads interleave.
  At most one thread is inside an operation of each direction; a failure, once retained, never
  changes, and every terminal error any thread returns is that failure; the transport is aborted only
  after a failure, at most once, and exactly once when no thread is still on its way to do it.
\<close>

theorem channel_first_failure_wins:
  assumes "channel_reach s"
  shows "(\<forall>d. count_tasks (occupies d) (sc_tasks s) \<le> 1) \<and>
    (\<forall>t f. channel_step s t \<longrightarrow> ch_failure (sc_state s) = Some f \<longrightarrow> ch_failure (sc_state t) = Some f) \<and>
    (\<forall>e. Returned (Err e) \<in> set (sc_tasks s) \<longrightarrow> channel_error_is_terminal e \<longrightarrow>
       ch_failure (sc_state s) = Some e) \<and>
    sc_aborts s \<le> 1 \<and> (ch_failure (sc_state s) = None \<longrightarrow> sc_aborts s = 0) \<and>
    (ch_failure (sc_state s) \<noteq> None \<longrightarrow> count_tasks interrupting (sc_tasks s) = 0 \<longrightarrow> sc_aborts s = 1)"
  using channel_reach_inv[OF assms] channel_step_keeps_failure[of s]
  by (auto simp: shared_inv_def list_all_iff of_bool_def split: if_splits)

definition demo_shared :: SharedChannel where
  "demo_shared = \<lparr>sc_state = \<lparr>ch_failure = Some (ChannelTransport PeerClosed), ch_send_active = True,
      ch_receive_active = False\<rparr>, sc_aborts = 1,
     sc_tasks = [Failing DirSend (ChannelTransport PeerClosed), Starting DirReceive]\<rparr>"

lemma demo_shared_reach: "channel_reach demo_shared"
proof -
  let ?e = "ChannelTransport PeerClosed"
  let ?busy = "\<lambda>f. \<lparr>ch_failure = f, ch_send_active = True, ch_receive_active = False\<rparr>"
  let ?s0 = "\<lparr>sc_state = fc_state (frame_channel_new 7), sc_aborts = 0,
      sc_tasks = [Starting DirSend, Starting DirReceive]\<rparr>"
  let ?s1 = "\<lparr>sc_state = ?busy None, sc_aborts = 0, sc_tasks = [Working DirSend, Starting DirReceive]\<rparr>"
  let ?s2 = "\<lparr>sc_state = ?busy (Some ?e), sc_aborts = 0,
      sc_tasks = [Interrupting (Some DirSend) ?e, Starting DirReceive]\<rparr>"
  have "channel_reach ?s0" by (rule channel_reach.start) simp
  moreover have "channel_step ?s0 ?s1"
    using channel_step.enter[of 0 ?s0 DirSend "Ok ()" "?busy None"] by (simp add: chan_begin_def frame_channel_new_def)
  moreover have "channel_step ?s1 ?s2"
    using channel_step.poison[of 0 ?s1 DirSend ?e ?e True "?busy (Some ?e)"] by (simp add: poison_state_def)
  moreover have "channel_step ?s2 demo_shared"
    using channel_step.interrupt[of 0 ?s2 "Some DirSend" ?e] by (simp add: demo_shared_def)
  ultimately show ?thesis by (blast intro: channel_reach.step)
qed

theorem channel_first_failure_wins_witness:
  "count_tasks (occupies DirSend) (sc_tasks demo_shared) \<le> 1 \<and> sc_aborts demo_shared = 1 \<and>
   ch_failure (sc_state demo_shared) = Some (ChannelTransport PeerClosed)"
proof -
  have "ch_failure (sc_state demo_shared) = Some (ChannelTransport PeerClosed)"
      "count_tasks interrupting (sc_tasks demo_shared) = 0"
    by (simp_all add: demo_shared_def count_tasks_def)
  then show ?thesis using channel_first_failure_wins[OF demo_shared_reach] by simp
qed


section \<open>What a successful operation transferred\<close>

lemma or_poison_Ok [result_simps]: "or_poison io k r cw = (Ok v, cw') \<longleftrightarrow> r = Ok v \<and> cw' = cw"
  by (auto simp: or_poison_def split: result.splits prod.splits)

lemma transferred_Ok [simp]: "transferred r n = Ok u \<longleftrightarrow> r = Ok n"
  by (cases r) auto

lemma chan_write_Ok:
  "chan_write io bs (c, w) = (Ok (), c', w') \<longleftrightarrow> io_write_all io bs w = (Ok (length bs), w') \<and> c' = c"
  by (auto simp: chan_write_def or_poison_Ok split: prod.splits)

lemma validate_outgoing_Ok:
  "validate_outgoing sid h payload = Ok () \<longleftrightarrow> wf_frame (frame_view_new h payload) \<and> fh_session_id h = sid"
  using wf_frame_payload_bound[of "frame_view_new h payload"]
  by (auto simp: validate_outgoing_def result_simps wf_frame_def frame_view_new_def)

definition header_bytes :: "FrameHeader \<Rightarrow> bytes" where
  "header_bytes h = raw_as_bytes (header_image h)"

lemma length_header_bytes [simp]: "length (header_bytes h) = FRAME_HEADER_BYTES"
  by (simp add: header_bytes_def FRAME_HEADER_BYTES_def)

lemma send_inner_Ok:
  "send_inner io h payload (c, w) = (Ok (), c', w') \<longleftrightarrow>
     wf_frame (frame_view_new h payload) \<and> fh_session_id h = fc_session_id c \<and> c' = c \<and>
     (\<exists>w1. io_write_all io (header_bytes h) w = (Ok FRAME_HEADER_BYTES, w1) \<and>
        (if payload = [] then w' = w1 else io_write_all io payload w1 = (Ok (length payload), w')))"
proof -
  have "(case frame_header_encode h (replicate FRAME_HEADER_BYTES 0) of (Err e, _) \<Rightarrow> Err e | (Ok _, encoded) \<Rightarrow> Ok encoded) =
      Ok (header_bytes h)" if "wf_frame (frame_view_new h payload)"
    using that by (simp add: frame_header_encode_eq wf_frame_def frame_view_new_def header_bytes_def)
  then show ?thesis
    by (auto simp: send_inner_def st_bind_Ok or_poison_Ok chan_write_Ok and_then_Ok validate_outgoing_Ok Let_def
        split: if_splits)
qed

lemma receive_header_Ok:
  "receive_header io (c, w) = (Ok h, c', w') \<longleftrightarrow>
     io_read_exact io (replicate FRAME_HEADER_BYTES 0) w = (Ok (length (header_bytes h)), header_bytes h, w') \<and>
     frame_header_validate h = Ok () \<and> fh_session_id h = fc_session_id c \<and> c' = c"
  by (auto simp: receive_header_def st_bind_Ok or_poison_Ok and_then_Ok decode_frame_header_Ok_iff header_bytes_def
      split: prod.splits if_splits)

definition sends :: "'w ExactIo \<Rightarrow> FrameView \<Rightarrow> 'w \<Rightarrow> 'w \<Rightarrow> bool" where
  "sends io f w w' \<longleftrightarrow>
     (\<exists>w1. io_write_all io (header_bytes (fv_header f)) w = (Ok FRAME_HEADER_BYTES, w1) \<and>
        (if fv_payload f = [] then w' = w1
         else io_write_all io (fv_payload f) w1 = (Ok (length (fv_payload f)), w')))"

text \<open>A channel between two operations: no failure retained, nothing active.\<close>

definition chan_ready :: "FrameChannel \<Rightarrow> bool" where
  "chan_ready c \<longleftrightarrow> ch_failure (fc_state c) = None \<and> \<not> ch_send_active (fc_state c) \<and> \<not> ch_receive_active (fc_state c)"

lemma chan_set_active_undo:
  "\<not> chan_active d st \<Longrightarrow> chan_clear d (chan_set_active d True st) = st"
  by (cases d) (simp_all add: chan_clear_def)

lemma channel_send_Ok:
  "channel_send io h payload (c, w) = (Ok (), c', w') \<longleftrightarrow>
     ch_failure (fc_state c) = None \<and> \<not> ch_send_active (fc_state c) \<and> c' = c \<and>
     wf_frame (frame_view_new h payload) \<and> fh_session_id h = fc_session_id c \<and>
     sends io (frame_view_new h payload) w w'"
proof (cases "ch_failure (fc_state c) = None \<and> \<not> ch_send_active (fc_state c)")
  case True
  let ?c = "c\<lparr>fc_state := chan_set_active DirSend True (fc_state c)\<rparr>"
  have entered: "chan_begin DirSend (fc_state c) = (Ok (), fc_state ?c)"
    using True by (simp add: chan_begin_def)
  have same: "send_inner io h payload (?c, w) = (Ok (), ?c, w') \<longleftrightarrow>
      wf_frame (frame_view_new h payload) \<and> fh_session_id h = fc_session_id c \<and>
      sends io (frame_view_new h payload) w w'"
    by (simp add: send_inner_Ok sends_def frame_view_new_def)
  have inner: "c1 = ?c" if "send_inner io h payload (?c, w) = (Ok u, c1, w1)" for u c1 w1
    using that by (auto simp: send_inner_Ok)
  have "chan_end_success DirSend (fc_state ?c) = (Ok (), fc_state c)"
    using True by (simp add: chan_end_success_def chan_set_active_undo del: chan_set_active.simps)
  then show ?thesis
    using True entered inner same unfolding channel_send_def
    by (auto split: result.splits prod.splits simp del: chan_set_active.simps)
next
  case False
  then show ?thesis by (auto simp: channel_send_def chan_begin_def split: option.splits if_splits)
qed


lemma receive_inner_Ok:
  "receive_inner io ((c, w), buf) = (Ok h, (c', w'), buf') \<longleftrightarrow>
     c' = c \<and> (\<exists>w1. receive_header io (c, w) = (Ok h, c, w1) \<and>
       (let n = unat (fh_payload_length h) in
        if n = 0 then w' = w1 \<and> buf' = buf
        else \<exists>part. io_read_exact io (take n (fb_bytes buf)) w1 = (Ok n, part, w') \<and>
          buf' = buf\<lparr>fb_bytes := part @ drop n (fb_bytes buf), fb_usable := True\<rparr>))"
proof -
  obtain r c1 w1 where hd: "receive_header io (c, w) = (r, c1, w1)" by (cases "receive_header io (c, w)")
  show ?thesis
  proof (cases r)
    case (Err e)
    then show ?thesis using hd by (simp add: receive_inner_def)
  next
    case (Ok k)
    then have c1: "c1 = c" using hd by (simp add: receive_header_Ok)
    obtain rr part w2 where rd: "io_read_exact io (take (unat (fh_payload_length k)) (fb_bytes buf)) w1 = (rr, part, w2)"
      by (cases "io_read_exact io (take (unat (fh_payload_length k)) (fb_bytes buf)) w1")
    show ?thesis
      using hd Ok c1 rd
      by (cases "or_poison io ChannelTransport (transferred rr (unat (fh_payload_length k))) (c, w2)")
        (auto simp: receive_inner_def or_poison_Ok Let_def or_poison_def split: result.splits prod.splits)
  qed
qed

text \<open>The transfers of one received frame: the header, then the payload when there is one.\<close>

definition receives :: "'w ExactIo \<Rightarrow> FrameBuffer \<Rightarrow> 'w \<Rightarrow> FrameView \<Rightarrow> 'w \<Rightarrow> FrameBuffer \<Rightarrow> bool" where
  "receives io buf w f w' buf' \<longleftrightarrow>
     (\<exists>w1. io_read_exact io (replicate FRAME_HEADER_BYTES 0) w =
        (Ok FRAME_HEADER_BYTES, header_bytes (fv_header f), w1) \<and>
       (if fv_payload f = [] then w' = w1 \<and> buf' = buf
        else io_read_exact io (take (length (fv_payload f)) (fb_bytes buf)) w1 =
            (Ok (length (fv_payload f)), fv_payload f, w') \<and>
          buf' = buf\<lparr>fb_bytes := fv_payload f @ drop (length (fv_payload f)) (fb_bytes buf)\<rparr>))"

text \<open>What the receiver relies on of a transport: a read fills the slice it is given.\<close>

locale exact_transport =
  fixes io :: "'w ExactIo"
  assumes length_read: "io_read_exact io dst w = (r, dst', w') \<Longrightarrow> length dst' = length dst"
begin

lemma receive_inner_frame:
  assumes buf: "length (fb_bytes buf) = unat MAXIMUM_FRAME_PAYLOAD_BYTES" "fb_usable buf"
    and inner: "receive_inner io ((c, w), buf) = (Ok h, (c', w'), buf')"
    and f: "f = frame_view_new h (take (unat (fh_payload_length h)) (fb_bytes buf'))"
  shows "c' = c \<and> wf_frame f \<and> fh_session_id (fv_header f) = fc_session_id c \<and> receives io buf w f w' buf'"
proof -
  let ?n = "unat (fh_payload_length h)"
  from inner obtain w1 where hd: "receive_header io (c, w) = (Ok h, c, w1)" and c: "c' = c"
    and rest: "if ?n = 0 then w' = w1 \<and> buf' = buf
        else \<exists>part. io_read_exact io (take ?n (fb_bytes buf)) w1 = (Ok ?n, part, w') \<and>
          buf' = buf\<lparr>fb_bytes := part @ drop ?n (fb_bytes buf), fb_usable := True\<rparr>"
    unfolding receive_inner_Ok Let_def by blast
  from hd have h: "frame_header_validate h = Ok ()" "fh_session_id h = fc_session_id c"
    "io_read_exact io (replicate FRAME_HEADER_BYTES 0) w = (Ok FRAME_HEADER_BYTES, header_bytes h, w1)"
    by (simp_all add: receive_header_Ok)
  show ?thesis
  proof (cases "?n = 0")
    case True
    then show ?thesis using rest h c f by (simp add: wf_frame_def frame_view_new_def receives_def)
  next
    case False
    then obtain part where part: "io_read_exact io (take ?n (fb_bytes buf)) w1 = (Ok ?n, part, w')"
      "buf' = buf\<lparr>fb_bytes := part @ drop ?n (fb_bytes buf), fb_usable := True\<rparr>" using rest by auto
    have "?n \<le> length (fb_bytes buf)" using h(1) buf(1) by (simp add: frame_header_validate_Ok word_le_nat_alt)
    then have len: "length part = ?n" using length_read[OF part(1)] by simp
    have buf': "buf' = buf\<lparr>fb_bytes := part @ drop ?n (fb_bytes buf)\<rparr>" using part(2) buf(2) by (cases buf) simp
    have f': "f = frame_view_new h part" using f len by (simp add: buf')
    have "part \<noteq> []" using len False by auto
    then show ?thesis
      using h c part(1) len f' buf' by (simp add: wf_frame_def frame_view_new_def receives_def)
  qed
qed

lemma receive_inner_of_frame:
  assumes buf: "fb_usable buf" and wf: "wf_frame f" "fh_session_id (fv_header f) = fc_session_id c"
    and rd: "receives io buf w f w' buf'"
  shows "receive_inner io ((c, w), buf) = (Ok (fv_header f), (c, w'), buf')"
proof -
  let ?p = "fv_payload f"
  from rd obtain w1 where h: "receive_header io (c, w) = (Ok (fv_header f), c, w1)"
    and rest: "if ?p = [] then w' = w1 \<and> buf' = buf
        else io_read_exact io (take (length ?p) (fb_bytes buf)) w1 = (Ok (length ?p), ?p, w') \<and>
          buf' = buf\<lparr>fb_bytes := ?p @ drop (length ?p) (fb_bytes buf)\<rparr>"
    using wf by (auto simp: receives_def receive_header_Ok wf_frame_def)
  have n: "unat (fh_payload_length (fv_header f)) = length ?p" using wf(1) by (simp add: wf_frame_def)
  have "buf\<lparr>fb_bytes := bs, fb_usable := True\<rparr> = buf\<lparr>fb_bytes := bs\<rparr>" for bs using buf by (cases buf) simp
  then show ?thesis using h rest unfolding receive_inner_Ok n Let_def by auto
qed

lemma receive_frame_bytes:
  assumes "receives io buf w f w' buf'"
  shows "take (length (fv_payload f)) (fb_bytes buf') = fv_payload f"
proof (cases "fv_payload f = []")
  case False
  with assms have "buf' = buf\<lparr>fb_bytes := fv_payload f @ drop (length (fv_payload f)) (fb_bytes buf)\<rparr>"
    unfolding receives_def by auto
  then have "fb_bytes buf' = fv_payload f @ drop (length (fv_payload f)) (fb_bytes buf)" by simp
  then show ?thesis by simp
qed simp

lemma receive_Ok:
  assumes buf: "length (fb_bytes buf) = unat MAXIMUM_FRAME_PAYLOAD_BYTES"
  shows "channel_receive io ((c, w), buf) = (Ok f, (c', w'), buf') \<longleftrightarrow>
     ch_failure (fc_state c) = None \<and> \<not> ch_receive_active (fc_state c) \<and> fb_usable buf \<and> c' = c \<and>
     wf_frame f \<and> fh_session_id (fv_header f) = fc_session_id c \<and> receives io buf w f w' buf'"
proof (cases "ch_failure (fc_state c) = None \<and> \<not> ch_receive_active (fc_state c) \<and> fb_usable buf")
  case False
  then show ?thesis
    by (auto simp: channel_receive_def chan_begin_def chan_end_success_def Let_def split: option.splits if_splits)
next
  case True
  let ?c = "c\<lparr>fc_state := chan_set_active DirReceive True (fc_state c)\<rparr>"
  have entered: "chan_begin DirReceive (fc_state c) = (Ok (), fc_state ?c)"
    using True by (simp add: chan_begin_def)
  have left: "chan_end_success DirReceive (fc_state ?c) = (Ok (), fc_state c)"
    using True by (simp add: chan_end_success_def chan_set_active_undo del: chan_set_active.simps)
  have inner: "c1 = ?c" if "receive_inner io ((?c, w), buf) = (Ok k, (c1, w1), buf1)" for k c1 w1 buf1
    using that by (simp add: receive_inner_Ok)
  have step: "channel_receive io ((c, w), buf) = (Ok f, (c', w'), buf') \<longleftrightarrow> c' = c \<and>
      (\<exists>h. receive_inner io ((?c, w), buf) = (Ok h, (?c, w'), buf') \<and>
        f = frame_view_new h (take (unat (fh_payload_length h)) (fb_bytes buf')))"
    using True entered left inner unfolding channel_receive_def
    by (auto split: result.splits prod.splits simp del: chan_set_active.simps)
  show ?thesis
  proof
    assume "channel_receive io ((c, w), buf) = (Ok f, (c', w'), buf')"
    then show "ch_failure (fc_state c) = None \<and> \<not> ch_receive_active (fc_state c) \<and> fb_usable buf \<and> c' = c \<and>
       wf_frame f \<and> fh_session_id (fv_header f) = fc_session_id c \<and> receives io buf w f w' buf'"
      unfolding step using True receive_inner_frame[OF buf] by fastforce
  next
    assume a: "ch_failure (fc_state c) = None \<and> \<not> ch_receive_active (fc_state c) \<and> fb_usable buf \<and> c' = c \<and>
       wf_frame f \<and> fh_session_id (fv_header f) = fc_session_id c \<and> receives io buf w f w' buf'"
    then have "receive_inner io ((?c, w), buf) = (Ok (fv_header f), (?c, w'), buf')"
      by (intro receive_inner_of_frame) simp_all
    moreover have "f = frame_view_new (fv_header f) (take (unat (fh_payload_length (fv_header f))) (fb_bytes buf'))"
      using a receive_frame_bytes[of buf w f w' buf'] by (simp add: wf_frame_def frame_view_new_def)
    ultimately show "channel_receive io ((c, w), buf) = (Ok f, (c', w'), buf')" unfolding step using a by blast
  qed
qed

end


section \<open>What a failed operation leaves\<close>

text \<open>
  A failed step retains its failure in the channel and changes nothing else of it; a successful one
  leaves the channel as it was.
\<close>

definition poisoned :: "ChannelError \<Rightarrow> FrameChannel \<Rightarrow> FrameChannel" where
  "poisoned e c = c\<lparr>fc_state := (fc_state c)\<lparr>ch_failure := Some e\<rparr>\<rparr>"

definition leaves :: "FrameChannel \<Rightarrow> (ChannelError, 'a) result \<times> 'w channel \<Rightarrow> bool" where
  "leaves c x \<longleftrightarrow> (case x of (Ok v, c', w) \<Rightarrow> c' = c | (Err e, c', w) \<Rightarrow> c' = poisoned e c)"

lemma poisoned_simps [simp]:
  "fc_session_id (poisoned e c) = fc_session_id c" "ch_failure (fc_state (poisoned e c)) = Some e"
  "chan_active d (fc_state (poisoned e c)) = chan_active d (fc_state c)"
  by (simp_all add: poisoned_def)

lemma channel_poison_eq:
  "channel_poison io e (c, w) =
     (case ch_failure (fc_state c) of
        None \<Rightarrow> (e, poisoned e c, io_abort_io io w)
      | Some f \<Rightarrow> (f, c, w))"
  by (cases c) (simp add: channel_poison_def poison_state_def poisoned_def split: option.split)

lemma poisoned_same: "ch_failure (fc_state c) = Some f \<Longrightarrow> poisoned f c = c"
  by (cases c, cases "fc_state c") (simp add: poisoned_def)

lemma leaves_or_poison: "leaves c (or_poison io k r (c, w))"
  by (cases r) (auto simp: leaves_def or_poison_def channel_poison_eq poisoned_same split: option.split)

lemma leaves_bind:
  "leaves c (m (c, w)) \<Longrightarrow> (\<And>v w'. leaves c (f v (c, w'))) \<Longrightarrow> leaves c (st_bind m f (c, w))"
proof -
  assume m: "leaves c (m (c, w))" and f: "\<And>v w'. leaves c (f v (c, w'))"
  obtain r c' w' where r: "m (c, w) = (r, c', w')" by (cases "m (c, w)")
  show ?thesis
  proof (cases r)
    case (Ok v)
    then have "c' = c" using m r by (simp add: leaves_def)
    then show ?thesis using f[of v w'] r Ok by (simp add: st_bind_def)
  qed (use m r in \<open>simp add: leaves_def st_bind_def\<close>)
qed

lemma leaves_return: "leaves c (st_return v (c, w))"
  by (simp add: leaves_def)

lemma leaves_chan_write: "leaves c (chan_write io bs (c, w))"
  by (auto simp: chan_write_def leaves_or_poison split: prod.split)

lemma leaves_send_inner: "leaves c (send_inner io h payload (c, w))"
  unfolding send_inner_def Let_def
  by (intro leaves_bind leaves_or_poison leaves_chan_write) (auto intro: leaves_chan_write leaves_return simp del: st_return_simp)

lemma leaves_receive_header: "leaves c (receive_header io (c, w))"
  by (auto simp: receive_header_def intro!: leaves_bind leaves_or_poison split: prod.split)

lemma receive_inner_Err:
  "receive_inner io ((c, w), buf) = (Err e, (c', w'), buf') \<Longrightarrow>
     c' = poisoned e c \<and> (buf' = buf \<or> \<not> fb_usable buf')"
  using leaves_receive_header[of c io w] leaves_or_poison[of c io ChannelTransport]
  by (fastforce simp: receive_inner_def leaves_def Let_def split: prod.splits result.splits if_splits)

lemma channel_send_Err:
  assumes "channel_send io h payload (c, w) = (Err e, c', w')" and "\<not> ch_send_active (fc_state c)"
  shows "c' = poisoned e c"
proof (cases "ch_failure (fc_state c)")
  case (Some f)
  then show ?thesis using assms poisoned_same[OF Some] by (cases c) (auto simp: channel_send_def chan_begin_def)
next
  case None
  let ?c = "c\<lparr>fc_state := (fc_state c)\<lparr>ch_send_active := True\<rparr>\<rparr>"
  obtain r c1 w1 where inner: "send_inner io h payload (?c, w) = (r, c1, w1)" by (cases "send_inner io h payload (?c, w)")
  have "leaves ?c (r, c1, w1)" using leaves_send_inner[of ?c io h payload w] inner by simp
  then show ?thesis
    using assms None inner
    by (cases r; cases c; cases "fc_state c")
      (auto simp: channel_send_def chan_begin_def leaves_def chan_end_success_def chan_end_failure_def chan_clear_def
        poisoned_def Let_def)
qed

lemma channel_receive_Err:
  assumes "channel_receive io ((c, w), buf) = (Err e, (c', w'), buf')" and "\<not> ch_receive_active (fc_state c)"
    and "fb_usable buf"
  shows "c' = poisoned e c \<and> (buf' = buf \<or> \<not> fb_usable buf')"
proof (cases "ch_failure (fc_state c)")
  case (Some f)
  then show ?thesis using assms poisoned_same[OF Some] by (cases c) (auto simp: channel_receive_def chan_begin_def)
next
  case None
  let ?c = "c\<lparr>fc_state := (fc_state c)\<lparr>ch_receive_active := True\<rparr>\<rparr>"
  obtain r c1 w1 b1 where inner: "receive_inner io ((?c, w), buf) = (r, (c1, w1), b1)"
    by (cases "receive_inner io ((?c, w), buf)") auto
  show ?thesis
  proof (cases r)
    case (Err d)
    then have "c1 = poisoned d ?c \<and> (b1 = buf \<or> \<not> fb_usable b1)" using inner receive_inner_Err[of io ?c w buf d c1 w1 b1] by simp
    then show ?thesis
      using assms None inner Err
      by (cases c; cases "fc_state c")
        (auto simp: channel_receive_def chan_begin_def chan_end_failure_def chan_clear_def poisoned_def Let_def)
  next
    case (Ok k)
    then have "c1 = ?c" using inner by (simp add: receive_inner_Ok)
    then show ?thesis
      using assms None inner Ok
      by (cases c; cases "fc_state c")
        (auto simp: channel_receive_def chan_begin_def chan_end_success_def chan_clear_def Let_def)
  qed
qed


section \<open>Correctness of the channel\<close>

text \<open>
  C38: a frame crosses the channel whole or not at all.  \<open>send\<close> succeeds exactly when the channel is
  live, no other send is active, the frame is well-formed and of this session, and the transport took
  the canonical header and then the payload, each to the last byte; \<open>receive\<close> succeeds exactly when the
  transport delivered such a header and exactly the declared payload into a usable buffer, and returns
  that frame.  Both leave the channel unchanged; a failure of either is retained by the channel.
\<close>

theorem channel_frames_exact:
  assumes "exact_transport io" and "length (fb_bytes buf) = unat MAXIMUM_FRAME_PAYLOAD_BYTES"
    and "f = frame_view_new h payload"
  shows "(channel_send io h payload (c, w) = (Ok (), c', w') \<longleftrightarrow>
       ch_failure (fc_state c) = None \<and> \<not> ch_send_active (fc_state c) \<and> c' = c \<and>
       wf_frame f \<and> fh_session_id h = fc_session_id c \<and> sends io f w w') \<and>
    (channel_receive io ((c, w), buf) = (Ok f, (c', w'), buf') \<longleftrightarrow>
       ch_failure (fc_state c) = None \<and> \<not> ch_receive_active (fc_state c) \<and> fb_usable buf \<and> c' = c \<and>
       wf_frame f \<and> fh_session_id h = fc_session_id c \<and> receives io buf w f w' buf') \<and>
    (channel_send io h payload (c, w) = (Err e, c', w') \<longrightarrow> \<not> ch_send_active (fc_state c) \<longrightarrow>
       ch_failure (fc_state c') = Some e) \<and>
    (channel_receive io ((c, w), buf) = (Err e, (c', w'), buf') \<longrightarrow> \<not> ch_receive_active (fc_state c) \<longrightarrow>
       fb_usable buf \<longrightarrow> ch_failure (fc_state c') = Some e \<and> (buf' = buf \<or> \<not> fb_usable buf'))"
proof (intro conjI)
  have "fv_header f = h" using assms(3) by (simp add: frame_view_new_def)
  then show "channel_receive io ((c, w), buf) = (Ok f, (c', w'), buf') \<longleftrightarrow>
       ch_failure (fc_state c) = None \<and> \<not> ch_receive_active (fc_state c) \<and> fb_usable buf \<and> c' = c \<and>
       wf_frame f \<and> fh_session_id h = fc_session_id c \<and> receives io buf w f w' buf'"
    using exact_transport.receive_Ok[OF assms(1,2)] by simp
  show "channel_send io h payload (c, w) = (Ok (), c', w') \<longleftrightarrow>
       ch_failure (fc_state c) = None \<and> \<not> ch_send_active (fc_state c) \<and> c' = c \<and>
       wf_frame f \<and> fh_session_id h = fc_session_id c \<and> sends io f w w'"
    unfolding assms(3) by (rule channel_send_Ok)
qed (use channel_send_Err[of io h payload c w e c' w'] channel_receive_Err[of io c w buf e c' w' buf'] in auto)

text \<open>A pair of byte queues: what the peer sent, and what was sent to it.\<close>

definition pipe_io :: "(bytes \<times> bytes) ExactIo" where
  "pipe_io = \<lparr>io_read_exact = (\<lambda>dst w. if length dst \<le> length (fst w)
       then (Ok (length dst), take (length dst) (fst w), drop (length dst) (fst w), snd w)
       else (Err PeerClosed, dst, w)),
     io_write_all = (\<lambda>bs w. (Ok (length bs), fst w, snd w @ bs)), io_abort_io = (\<lambda>w. ([], snd w))\<rparr>"

lemma pipe_exact: "exact_transport pipe_io"
  by unfold_locales (auto simp: pipe_io_def split: if_splits)

definition demo_ready :: FrameHeader where
  "demo_ready = frame_header_new Ready 7 0 0"

lemma demo_ready_wf: "wf_frame (frame_view_new demo_ready [])" "fh_session_id demo_ready = 7"
  by (simp_all add: wf_frame_def frame_view_new_def demo_ready_def frame_header_new_def frame_header_validate_def
      owp_consts)

theorem channel_frames_exact_witness:
  "\<exists>w buf. channel_send pipe_io demo_ready [] (frame_channel_new 7, [], []) = (Ok (), frame_channel_new 7, w) \<and>
     snd w = frame_wire (frame_view_new demo_ready []) \<and>
     channel_receive pipe_io ((frame_channel_new 7, snd w, []), frame_buffer_new) =
       (Ok (frame_view_new demo_ready []), (frame_channel_new 7, [], []), buf)"
proof -
  let ?f = "frame_view_new demo_ready []" and ?c = "frame_channel_new 7"
  have buf: "length (fb_bytes frame_buffer_new) = unat MAXIMUM_FRAME_PAYLOAD_BYTES"
    by (simp add: frame_buffer_new_def)
  have live: "ch_failure (fc_state ?c) = None" "\<not> ch_send_active (fc_state ?c)" "\<not> ch_receive_active (fc_state ?c)"
      "fc_session_id ?c = 7" "fb_usable frame_buffer_new"
    by (simp_all add: frame_channel_new_def frame_buffer_new_def)
  have "sends pipe_io ?f ([], []) ([], frame_wire ?f)"
    by (simp add: sends_def pipe_io_def frame_view_new_def frame_wire_def header_bytes_def FRAME_HEADER_BYTES_def)
  moreover have "receives pipe_io frame_buffer_new (frame_wire ?f, []) ?f ([], []) frame_buffer_new"
    by (simp add: receives_def pipe_io_def frame_view_new_def frame_wire_def header_bytes_def FRAME_HEADER_BYTES_def)
  ultimately show ?thesis
    using channel_frames_exact[OF pipe_exact buf, of ?f demo_ready "[]" ?c "([], [])" ?c "([], frame_wire ?f)"]
      channel_frames_exact[OF pipe_exact buf, of ?f demo_ready "[]" ?c "(frame_wire ?f, [])" ?c "([], [])" frame_buffer_new]
      live demo_ready_wf by (intro exI[of _ "([], frame_wire ?f)"] exI[of _ frame_buffer_new]) simp
qed

end
