(* ===== verification/Parent_Session.thy ===== *)
theory Parent_Session
  imports Import_Reads_Correct Frame_Channel
begin

text \<open>
  \<open>handshake.rs\<close> and \<open>parent_session.rs\<close> of crate \<open>ohl-import\<close>: the parent's side of one worker's
  lifetime, composed of the frame channel, the result session and the source-read broker.  The
  typestate of the code, in which a transition consumes the session, becomes the phase a method
  returns; a method that fails retires the session, and its state is the \<open>TerminalSession\<close>.  One state
  \<open>'w\<close> of the outside world stands for the transport and the source together.
\<close>


section \<open>The handshake\<close>

definition HELLO_PAYLOAD_LENGTH :: u32 where [owp_consts]: "HELLO_PAYLOAD_LENGTH = 12"

datatype HandshakeError =
    HsInvalidConfiguration | HsProtocol ProtocolError | HsChannel ChannelError | HsInternal

text \<open>The proof names the channel that carried the exchange by its address.\<close>

record HandshakeProof =
  hp_protocol :: SessionValidator
  hp_channel :: nat
  hp_session_id :: u64
  hp_source_read_limits :: SourceReadLimits
  hp_source_read_policy :: SourceReadPolicy

definition matches_channel :: "HandshakeProof \<Rightarrow> nat \<Rightarrow> FrameChannel \<Rightarrow> bool" where
  "matches_channel hp address c \<longleftrightarrow> address = hp_channel hp \<and> fc_session_id c = hp_session_id hp"

definition handshake_abort :: "'w ExactIo \<Rightarrow> HandshakeError \<Rightarrow> ('w receiving, HandshakeError, 'a) stm" where
  "handshake_abort io e x = (case x of (cw, buffer) \<Rightarrow> (Err e, channel_abort io cw, buffer))"

text \<open>The exchange proper, after the configuration was accepted and the hello encoded.\<close>

definition handshake_exchange ::
  "'w ExactIo \<Rightarrow> FrameHeader \<Rightarrow> bytes \<Rightarrow> SessionValidator \<Rightarrow> ('w receiving, HandshakeError, SessionValidator) stm" where
  "handshake_exchange io header payload protocol x =
     (case x of (cw, buffer) \<Rightarrow>
        case channel_send io header payload cw of
          (Err e, cw) \<Rightarrow> handshake_abort io (HsChannel e) (cw, buffer)
        | (Ok _, cw) \<Rightarrow>
            (case observe ParentToWorker header protocol of
               (Err e, _) \<Rightarrow> handshake_abort io (HsProtocol e) (cw, buffer)
             | (Ok _, protocol) \<Rightarrow>
                 (case channel_receive io (cw, buffer) of
                    (Err e, x) \<Rightarrow> handshake_abort io (HsChannel e) x
                  | (Ok received, x) \<Rightarrow>
                      (case decode_ready_payload received of
                         Err e \<Rightarrow> handshake_abort io (HsProtocol e) x
                       | Ok _ \<Rightarrow>
                           (case observe WorkerToParent (fv_header received) protocol of
                              (Err e, _) \<Rightarrow> handshake_abort io (HsProtocol e) x
                            | (Ok _, protocol) \<Rightarrow>
                                if sv_state protocol \<noteq> Idle
                                   \<or> sv_message_count protocol \<noteq> 2
                                   \<or> sv_payload_bytes protocol \<noteq> ucast HELLO_PAYLOAD_LENGTH
                                then handshake_abort io HsInternal x
                                else (Ok protocol, x))))))"

definition parent_handshake_over_window ::
  "'w ExactIo \<Rightarrow> nat \<Rightarrow> u64 \<Rightarrow> u64 \<Rightarrow> u64 \<Rightarrow> SourceReadLimits \<Rightarrow> ProtocolBudgets \<Rightarrow>
     ('w receiving, HandshakeError, HandshakeProof) stm" where
  "parent_handshake_over_window io address media_size pinned_size src_size limits budgets x =
     (let c = fst (fst x) in
      case ch_failure (fc_state c) of
        Some failure \<Rightarrow> (Err (HsChannel failure), x)
      | None \<Rightarrow>
          if pinned_size \<noteq> media_size
             \<or> src_size = 0
             \<or> src_size > media_size
             \<or> pb_maximum_messages budgets < 2
             \<or> pb_maximum_payload_bytes budgets < ucast HELLO_PAYLOAD_LENGTH
          then (Err HsInvalidConfiguration, x)
          else
            (case source_read_policy_new src_size (srl_read_bytes limits) of
               Err _ \<Rightarrow> (Err HsInvalidConfiguration, x)
             | Ok policy \<Rightarrow>
                 (case encode_hello_payload
                         \<lparr>hello_source_size = srp_source_size policy,
                          hello_maximum_read_bytes = srp_maximum_read_bytes policy\<rparr>
                         (replicate HELLO_PAYLOAD_BYTES 0) of
                    (Err e, _) \<Rightarrow> (Err (HsProtocol e), x)
                  | (Ok _, payload) \<Rightarrow>
                      (case handshake_exchange io
                              (frame_header_new Hello (fc_session_id c) 0 HELLO_PAYLOAD_LENGTH) payload
                              (session_validator_new (fc_session_id c) budgets) x of
                         (Err e, x) \<Rightarrow> (Err e, x)
                       | (Ok protocol, x) \<Rightarrow>
                           (Ok \<lparr>hp_protocol = protocol, hp_channel = address,
                                hp_session_id = fc_session_id c, hp_source_read_limits = limits,
                                hp_source_read_policy = policy\<rparr>, x)))))"

definition perform_parent_handshake ::
  "'w ExactIo \<Rightarrow> nat \<Rightarrow> u64 \<Rightarrow> u64 \<Rightarrow> SourceReadLimits \<Rightarrow> ProtocolBudgets \<Rightarrow>
     ('w receiving, HandshakeError, HandshakeProof) stm" where
  "perform_parent_handshake io address media_size pinned_size limits budgets =
     parent_handshake_over_window io address media_size pinned_size media_size limits budgets"


section \<open>The session's state\<close>

definition STREAM_ENTRY_PAYLOAD_LENGTH :: u32 where [owp_consts]: "STREAM_ENTRY_PAYLOAD_LENGTH = 8"

datatype SessionError =
    PsInvalidConfiguration | RequestIdExhausted | BuffersTooSmall | PsProtocol ProtocolError
  | PsChannel ChannelError | PsResult ResultSessionError | PsSource SourceReadError
  | PsWorkerFailure | PsSourceInvalidated

record SessionBuffers =
  sb_receive :: FrameBuffer
  sb_scratch :: bytes
  sb_reply :: bytes
  sb_maximum_read_bytes :: u32

definition session_buffers_new :: "SourceReadLimits \<Rightarrow> SessionBuffers" where
  "session_buffers_new limits =
     \<lparr>sb_receive = frame_buffer_new, sb_scratch = replicate (unat (srl_read_bytes limits)) 0,
      sb_reply = replicate (reply_storage_bytes limits) 0, sb_maximum_read_bytes = srl_read_bytes limits\<rparr>"

definition scrub_reply :: "SessionBuffers \<Rightarrow> SessionBuffers" where
  "scrub_reply b = b\<lparr>sb_reply := replicate (length (sb_reply b)) 0\<rparr>"

definition reinit_receive :: "SessionBuffers \<Rightarrow> SessionBuffers" where
  "reinit_receive b = b\<lparr>sb_receive := frame_buffer_reinit (sb_receive b)\<rparr>"

datatype SessionPhaseKind =
    KindIdle | KindEnumerating | KindStreaming | KindCancelling | KindCancelled | KindClosed

fun retire_on_drop :: "SessionPhaseKind \<Rightarrow> bool" where
  "retire_on_drop KindClosed = False"
| "retire_on_drop _ = True"

record SessionCore =
  core_channel :: FrameChannel
  core_results :: ResultSession
  core_reads :: SourceReadBroker
  core_limits :: SourceReadLimits
  core_next_request_id :: u64
  core_request_ids_exhausted :: bool
  core_active_request_id :: u64

type_synonym 'w parent = "SessionCore \<times> 'w"

definition allocate_request_id :: "(SessionCore, SessionError, u64) stm" where
  "allocate_request_id core =
     (if core_request_ids_exhausted core then (Err RequestIdExhausted, core)
      else
        let request_id = core_next_request_id core in
        (Ok request_id,
         if request_id = - 1 then core\<lparr>core_request_ids_exhausted := True\<rparr>
         else core\<lparr>core_next_request_id := request_id + 1\<rparr>))"

definition core_abort :: "'w ExactIo \<Rightarrow> 'w parent \<Rightarrow> 'w parent" where
  "core_abort io p =
     (case p of (core, w) \<Rightarrow> case channel_abort io (core_channel core, w) of
        (c, w) \<Rightarrow> (core\<lparr>core_channel := c\<rparr>, w))"

definition core_retire :: "'w ExactIo \<Rightarrow> 'w parent \<Rightarrow> 'w parent" where
  "core_retire io p =
     (case p of (core, w) \<Rightarrow>
        core_abort io (core\<lparr>core_results := worker_failed (core_results core)\<rparr>, w))"

text \<open>\<open>advance\<close>: the next phase, or the retired session with the failure.\<close>

definition parent_advance ::
  "'w ExactIo \<Rightarrow> 'a \<Rightarrow> (SessionError, unit) result \<times> 'w parent \<Rightarrow> (SessionError, 'a) result \<times> 'w parent" where
  "parent_advance io next outcome =
     (case outcome of
        (Ok _, p) \<Rightarrow> (Ok next, p)
      | (Err e, p) \<Rightarrow> (Err e, core_retire io p))"

definition parent_drop :: "'w ExactIo \<Rightarrow> SessionPhaseKind \<Rightarrow> 'w parent \<Rightarrow> 'w parent" where
  "parent_drop io phase p = (if retire_on_drop phase then core_retire io p else p)"

definition notify_worker_failed :: "'w ExactIo \<Rightarrow> 'w parent \<Rightarrow> SessionError \<times> 'w parent" where
  "notify_worker_failed io p = (PsWorkerFailure, core_retire io p)"

definition parent_invalidate_source :: "'w ExactIo \<Rightarrow> 'w parent \<Rightarrow> SessionError \<times> 'w parent" where
  "parent_invalidate_source io p =
     (case p of (core, w) \<Rightarrow>
        (PsSourceInvalidated, core_abort io (core\<lparr>core_results := invalidate_source (core_results core)\<rparr>, w)))"


section \<open>Requests\<close>

definition send_transaction ::
  "'w ExactIo \<Rightarrow> FrameHeader \<Rightarrow> bytes \<Rightarrow> (FrameView \<Rightarrow> unit result_op) \<Rightarrow> ('w parent, SessionError, unit) stm" where
  "send_transaction io header payload observe_with p =
     (case p of (core, w) \<Rightarrow>
        case observe_with (frame_view_new header payload) (core_results core) of
          (Err e, results) \<Rightarrow> (Err (PsResult e), core\<lparr>core_results := results\<rparr>, w)
        | (Ok _, results) \<Rightarrow>
            (case channel_send io header payload (core_channel core, w) of
               (r, c, w) \<Rightarrow> (map_err PsChannel r, core\<lparr>core_results := results, core_channel := c\<rparr>, w)))"

definition request_header :: "MessageType \<Rightarrow> u64 \<Rightarrow> u32 \<Rightarrow> SessionCore \<Rightarrow> FrameHeader" where
  "request_header kind request_id len core = frame_header_new kind (fc_session_id (core_channel core)) request_id len"

definition send_request ::
  "'w ExactIo \<Rightarrow> MessageType \<Rightarrow> bytes \<Rightarrow> u32 \<Rightarrow> (FrameView \<Rightarrow> unit result_op) \<Rightarrow> ('w parent, SessionError, unit) stm" where
  "send_request io kind payload len observe_with p =
     (case p of (core, w) \<Rightarrow>
        case allocate_request_id core of
          (Err e, core) \<Rightarrow> (Err e, core, w)
        | (Ok request_id, core) \<Rightarrow>
            (case send_transaction io (request_header kind request_id len core) payload observe_with (core, w) of
               (Err e, p) \<Rightarrow> (Err e, p)
             | (Ok _, core, w) \<Rightarrow> (Ok (), core\<lparr>core_active_request_id := request_id\<rparr>, w)))"

definition parent_begin_enumeration :: "'w ExactIo \<Rightarrow> ('w parent, SessionError, SessionPhaseKind) stm" where
  "parent_begin_enumeration io p =
     parent_advance io KindEnumerating (send_request io Enumerate [] 0 begin_enumeration p)"

definition parent_begin_stream ::
  "'w ExactIo \<Rightarrow> CatalogGeneration \<Rightarrow> u64 \<Rightarrow> ('w parent, SessionError, SessionPhaseKind) stm" where
  "parent_begin_stream io generation source_token p =
     (case encode_stream_entry_payload \<lparr>se_source_token = source_token\<rparr> (replicate STREAM_ENTRY_PAYLOAD_BYTES 0) of
        (Err e, _) \<Rightarrow> parent_advance io KindStreaming (Err (PsProtocol e), p)
      | (Ok _, payload) \<Rightarrow>
          parent_advance io KindStreaming
            (send_request io StreamEntry payload STREAM_ENTRY_PAYLOAD_LENGTH
               (\<lambda>frame. begin_stream_entry frame generation) p))"

definition shutdown_session :: "'w ExactIo \<Rightarrow> ('w parent, SessionError, SessionPhaseKind) stm" where
  "shutdown_session io p =
     (case send_transaction io (request_header Shutdown 0 0 (fst p)) [] accept_shutdown p of
        (r, core, w) \<Rightarrow> parent_advance io KindClosed (r, core\<lparr>core_active_request_id := 0\<rparr>, w))"

definition request_cancel :: "'w ExactIo \<Rightarrow> ('w parent, SessionError, SessionPhaseKind) stm" where
  "request_cancel io p =
     parent_advance io KindCancelling
       (send_transaction io (request_header Cancel (core_active_request_id (fst p)) 0 (fst p)) [] accept_cancel p)"


section \<open>Receiving\<close>

datatype Received = RcvProgress | RcvReadReplied | RcvReadIgnored | RcvComplete | RcvCancelAck

datatype ActiveRequest = ActiveEnumeration | ActiveStream

text \<open>The core, the caller's buffers, the state of the byte sink and the world.\<close>

record ('k, 'w) ReceiveState =
  rc_core :: SessionCore
  rc_buffers :: SessionBuffers
  rc_sink :: 'k
  rc_world :: 'w

type_synonym ('k, 'w) receive_op = "(('k, 'w) ReceiveState, SessionError, Received) stm"

text \<open>A frame that goes to the result session: \<open>map_err(SessionError::Result)\<close> and the outcome.\<close>

definition deliver ::
  "Received \<Rightarrow> (ResultSession \<times> 'k, ResultSessionError, unit) stm \<Rightarrow> ('k, 'w) receive_op" where
  "deliver outcome m x =
     (case m (core_results (rc_core x), rc_sink x) of (r, results, k) \<Rightarrow>
        (case r of Err e \<Rightarrow> Err (PsResult e) | Ok _ \<Rightarrow> Ok outcome,
         x\<lparr>rc_core := (rc_core x)\<lparr>core_results := results\<rparr>, rc_sink := k\<rparr>))"

definition with_brokered :: "brokered \<Rightarrow> SessionCore \<Rightarrow> SessionCore" where
  "with_brokered bs core = core\<lparr>core_reads := fst bs, core_results := snd bs\<rparr>"

definition answer_read :: "'w ExactIo \<Rightarrow> PreparedReply \<Rightarrow> ('k, 'w) receive_op" where
  "answer_read io prepared x =
     (let core = rc_core x in
      case channel_send io (pp_header prepared) (pp_payload prepared) (core_channel core, rc_world x) of
        (Ok _, c, w) \<Rightarrow>
          (case commit_reply_sent prepared (core_reads core, core_results core) of
             (r, bs) \<Rightarrow>
               (case r of Err e \<Rightarrow> Err (PsSource e) | Ok _ \<Rightarrow> Ok RcvReadReplied,
                x\<lparr>rc_core := with_brokered bs (core\<lparr>core_channel := c\<rparr>), rc_world := w\<rparr>))
      | (Err e, c, w) \<Rightarrow>
          (case abandon_reply prepared (core_reads core, core_results core) of
             (_, bs) \<Rightarrow>
               (Err (PsChannel e), x\<lparr>rc_core := with_brokered bs (core\<lparr>core_channel := c\<rparr>), rc_world := w\<rparr>)))"

definition serve_read :: "'w ExactIo \<Rightarrow> 'w SourceOps \<Rightarrow> FrameView \<Rightarrow> ('k, 'w) receive_op" where
  "serve_read io ops frame x =
     (let core = rc_core x; buffers = rc_buffers x in
      case broker_prepare ops frame
             \<lparr>rf_brokered = (core_reads core, core_results core), rf_scratch = sb_scratch buffers,
              rf_reply_storage = sb_reply buffers, rf_world = rc_world x\<rparr> of
        (r, rf) \<Rightarrow>
          let x = x\<lparr>rc_core := with_brokered (rf_brokered rf) core,
                    rc_buffers := buffers\<lparr>sb_scratch := rf_scratch rf, sb_reply := rf_reply_storage rf\<rparr>,
                    rc_world := rf_world rf\<rparr>
          in case r of
               Err e \<Rightarrow> (Err (PsSource e), x)
             | Ok PrepareIgnoredAfterCancel \<Rightarrow> (Ok RcvReadIgnored, x)
             | Ok (ReplyReady prepared) \<Rightarrow> answer_read io prepared x)"

definition dispatch_frame ::
  "'w ExactIo \<Rightarrow> 'w SourceOps \<Rightarrow> (bytes \<Rightarrow> 'k \<Rightarrow> bool \<times> 'k) option \<Rightarrow> ActiveRequest \<Rightarrow> FrameView \<Rightarrow>
     ('k, 'w) receive_op" where
  "dispatch_frame io ops sink active frame x =
     (case fh_message_type (fv_header frame) of
        EntryBatch \<Rightarrow> deliver RcvProgress (on_session (accept_entry_batch frame)) x
      | DataChunk \<Rightarrow>
          (case sink of
             None \<Rightarrow> (Err (PsProtocol UnexpectedMessage), x)
           | Some wr \<Rightarrow> deliver RcvProgress (accept_data_chunk wr frame) x)
      | Complete \<Rightarrow>
          deliver RcvComplete (on_session
            (case active of
               ActiveEnumeration \<Rightarrow> complete_enumeration frame
             | ActiveStream \<Rightarrow> complete_stream frame)) x
      | CancelAck \<Rightarrow> deliver RcvCancelAck (on_session (accept_cancel_ack frame)) x
      | ReadRequest \<Rightarrow> serve_read io ops frame x
      | _ \<Rightarrow> (Err (PsProtocol UnexpectedMessage), x))"

definition receive_one_inner ::
  "'w ExactIo \<Rightarrow> 'w SourceOps \<Rightarrow> (bytes \<Rightarrow> 'k \<Rightarrow> bool \<times> 'k) option \<Rightarrow> ActiveRequest \<Rightarrow> ('k, 'w) receive_op" where
  "receive_one_inner io ops sink active x =
     (if sb_maximum_read_bytes (rc_buffers x) < srl_read_bytes (core_limits (rc_core x))
      then (Err BuffersTooSmall, x)
      else
        (case channel_receive io ((core_channel (rc_core x), rc_world x), sb_receive (rc_buffers x)) of
           (r, (c, w), buffer) \<Rightarrow>
             let x = x\<lparr>rc_core := (rc_core x)\<lparr>core_channel := c\<rparr>, rc_world := w,
                       rc_buffers := (rc_buffers x)\<lparr>sb_receive := buffer\<rparr>\<rparr>
             in case r of
                  Err e \<Rightarrow> (Err (PsChannel e), x)
                | Ok frame \<Rightarrow> dispatch_frame io ops sink active frame x))"

definition rc_retire :: "'w ExactIo \<Rightarrow> ('k, 'w) ReceiveState \<Rightarrow> ('k, 'w) ReceiveState" where
  "rc_retire io x =
     (case core_retire io (rc_core x, rc_world x) of (core, w) \<Rightarrow> x\<lparr>rc_core := core, rc_world := w\<rparr>)"

definition rc_finish :: "('k, 'w) ReceiveState \<Rightarrow> ('k, 'w) ReceiveState" where
  "rc_finish x = x\<lparr>rc_core := (rc_core x)\<lparr>core_active_request_id := 0\<rparr>\<rparr>"

text \<open>
  \<open>receive_one\<close> of the two request phases, and of the phase after a cancel; the result is what the
  step was and the phase of the session it carries.
\<close>

definition receive_one ::
  "'w ExactIo \<Rightarrow> 'w SourceOps \<Rightarrow> (bytes \<Rightarrow> 'k \<Rightarrow> bool \<times> 'k) option \<Rightarrow> ActiveRequest \<Rightarrow>
     (('k, 'w) ReceiveState, SessionError, Received \<times> SessionPhaseKind) stm" where
  "receive_one io ops sink active x =
     (let phase = (case active of ActiveEnumeration \<Rightarrow> KindEnumerating | ActiveStream \<Rightarrow> KindStreaming) in
      case receive_one_inner io ops sink active x of
        (Ok RcvProgress, x) \<Rightarrow> (Ok (RcvProgress, phase), x)
      | (Ok RcvReadReplied, x) \<Rightarrow> (Ok (RcvReadReplied, phase), x)
      | (Ok RcvComplete, x) \<Rightarrow> (Ok (RcvComplete, KindIdle), rc_finish x)
      | (Ok RcvReadIgnored, x) \<Rightarrow> (Err (PsProtocol UnexpectedMessage), rc_retire io x)
      | (Ok RcvCancelAck, x) \<Rightarrow> (Err (PsProtocol UnexpectedMessage), rc_retire io x)
      | (Err e, x) \<Rightarrow> (Err e, rc_retire io x))"

definition receive_cancelling ::
  "'w ExactIo \<Rightarrow> 'w SourceOps \<Rightarrow> (bytes \<Rightarrow> 'k \<Rightarrow> bool \<times> 'k) option \<Rightarrow> bool \<Rightarrow>
     (('k, 'w) ReceiveState, SessionError, Received \<times> SessionPhaseKind) stm" where
  "receive_cancelling io ops sink active_was_stream x =
     (case receive_one_inner io ops sink (if active_was_stream then ActiveStream else ActiveEnumeration) x of
        (Ok RcvProgress, x) \<Rightarrow> (Ok (RcvProgress, KindCancelling), x)
      | (Ok RcvReadIgnored, x) \<Rightarrow> (Ok (RcvReadIgnored, KindCancelling), x)
      | (Ok RcvReadReplied, x) \<Rightarrow> (Ok (RcvReadReplied, KindCancelling), x)
      | (Ok RcvCancelAck, x) \<Rightarrow> (Ok (RcvCancelAck, KindCancelled), rc_finish x)
      | (Ok RcvComplete, x) \<Rightarrow> (Ok (RcvComplete, KindIdle), rc_finish x)
      | (Err e, x) \<Rightarrow> (Err e, rc_retire io x))"

definition create_parser_session ::
  "'w ExactIo \<Rightarrow> 'w SourceOps \<Rightarrow> HandshakeProof \<Rightarrow> nat \<Rightarrow> u64 \<Rightarrow> u64 \<Rightarrow> u64 \<Rightarrow> ImportLimits \<Rightarrow>
     'w channel \<Rightarrow> (SessionError, SessionCore) result \<times> 'w channel" where
  "create_parser_session io ops hp address media_size pinned_size worker_epoch import_limits cw =
     (let c = fst cw; limits = hp_source_read_limits hp; policy = hp_source_read_policy hp;
          refused = (Err PsInvalidConfiguration, channel_abort io cw)
      in if \<not> matches_channel hp address c
            \<or> channel_is_terminal c
            \<or> pinned_size \<noteq> media_size
            \<or> srp_source_size policy \<noteq> ops_window_length ops
            \<or> srp_maximum_read_bytes policy \<noteq> srl_read_bytes limits
         then refused
         else
           (case result_session_new (hp_protocol hp) worker_epoch import_limits of
              Err _ \<Rightarrow> refused
            | Ok results \<Rightarrow>
                (case broker_with_ops media_size pinned_size limits results of
                   (Err _, _) \<Rightarrow> refused
                 | (Ok reads, results) \<Rightarrow>
                     (Ok \<lparr>core_channel = c, core_results = results, core_reads = reads, core_limits = limits,
                          core_next_request_id = 1, core_request_ids_exhausted = False,
                          core_active_request_id = 0\<rparr>, cw))))"

end
