(* ===== verification/Parent_Session_Correct.thy ===== *)
theory Parent_Session_Correct
  imports Parent_Session
begin

text \<open>
  What the parent's composition guarantees: the handshake is exactly one hello and one ready, and in
  every state a session can reach, the bytes that crossed the transport are the frames of a
  conversation the protocol specification admits, with the typestate phase the code is in.
\<close>


section \<open>The handshake\<close>

lemma channel_abort_terminal: "channel_is_terminal (fst (channel_abort io cw))"
  by (cases cw) (simp add: channel_abort_def channel_poison_eq channel_is_terminal_def split: option.split)

lemma channel_abortD: "(c, w) = channel_abort io cw \<Longrightarrow> channel_is_terminal c"
  using channel_abort_terminal[of io cw] by (metis fst_conv)

lemma handshake_abort_eq:
  "handshake_abort io e x = (r, x') \<longleftrightarrow> r = Err e \<and> x' = (channel_abort io (fst x), snd x)"
  by (cases x) (auto simp: handshake_abort_def)

lemma sv_view_Resting:
  "sv_view v = Resting high stale \<Longrightarrow> sv_state v = Idle"
  by (simp add: sv_view_def split: SessionState.splits)

text \<open>Two frames that a fresh validator takes as hello and ready leave it idle and charged for them.\<close>

lemma handshake_validator:
  assumes hello: "observe ParentToWorker h (session_validator_new sid budgets) = (Ok (), v1)"
    and ready: "observe WorkerToParent k v1 = (Ok (), v2)"
    and kinds: "fh_message_type h = Hello" "fh_message_type k = Ready" and empty: "fh_payload_length k = 0"
  shows "sv_inv v2 \<and> sv_view v2 = Resting 0 None \<and> sv_error v2 = None \<and> sv_session_id v2 = sid \<and>
    sv_budgets v2 = budgets \<and> sv_message_count v2 = 2 \<and> sv_payload_bytes v2 = ucast (fh_payload_length h)"
proof -
  note o1 = observe_Ok_refines[OF session_validator_new_inv hello]
  then have inv1: "sv_inv v1" by simp
  note o2 = observe_Ok_refines[OF inv1 ready]
  have "exchange Fresh (ParentToWorker, Hello, fh_request_id h) (sv_view v1)"
    using o1 kinds(1) by (simp add: label_of_def)
  then have "sv_view v1 = Greeted" by (auto simp: exchange_simps)
  then have "exchange Greeted (WorkerToParent, Ready, fh_request_id k) (sv_view v2)"
    using o2 kinds(2) by (simp add: label_of_def)
  then have "sv_view v2 = Resting 0 None" by (auto simp: exchange_simps)
  moreover have "unat (sv_message_count v2) = unat (2 :: u64)" using o1 o2 by simp
  then have "sv_message_count v2 = 2" by (simp only: word_unat_eq_iff)
  moreover have "unat (sv_payload_bytes v2) = unat (ucast (fh_payload_length h) :: u64)"
    using o1 o2 empty by (simp add: unat_ucast_widen)
  then have "sv_payload_bytes v2 = ucast (fh_payload_length h)" by (simp only: word_unat_eq_iff)
  ultimately show ?thesis using o1 o2 by (simp add: same_session_def)
qed

lemma decode_ready_Ok:
  "decode_ready_payload f = Ok u \<longleftrightarrow> wf_frame f \<and> fh_message_type (fv_header f) = Ready \<and> fv_payload f = []"
  using decode_empty_Ok[of f Ready] by (simp add: decode_ready_payload_def)

lemma handshake_exchange_cases:
  assumes io: "exact_transport io" and buf: "length (fb_bytes buf) = unat MAXIMUM_FRAME_PAYLOAD_BYTES"
    and h: "fh_message_type h = Hello" "fh_payload_length h = HELLO_PAYLOAD_LENGTH"
    and ex: "handshake_exchange io h payload (session_validator_new sid budgets) ((c, w), buf) = (r, (c', w'), buf')"
  shows "case r of
      Ok v \<Rightarrow> c' = c \<and> sv_inv v \<and> sv_view v = Resting 0 None \<and> sv_error v = None \<and> sv_session_id v = sid \<and>
        sv_budgets v = budgets \<and> sv_message_count v = 2 \<and> sv_payload_bytes v = ucast HELLO_PAYLOAD_LENGTH \<and>
        (\<exists>ready w1. wf_frame (frame_view_new h payload) \<and> sends io (frame_view_new h payload) w w1 \<and>
           decode_ready_payload ready = Ok () \<and> fh_session_id (fv_header ready) = fc_session_id c \<and>
           receives io buf w1 ready w' buf')
    | Err e \<Rightarrow> e \<noteq> HsInternal \<and> channel_is_terminal c'"
proof -
  obtain s c1 w1 where send: "channel_send io h payload (c, w) = (s, c1, w1)" by (cases "channel_send io h payload (c, w)")
  obtain o1 v1 where hello: "observe ParentToWorker h (session_validator_new sid budgets) = (o1, v1)" by fastforce
  obtain g c2 w2 b2 where recv: "channel_receive io ((c1, w1), buf) = (g, (c2, w2), b2)"
    by (cases "channel_receive io ((c1, w1), buf)") auto
  show ?thesis
  proof (cases s)
    case (Err e)
    then show ?thesis using ex send by (auto simp: handshake_exchange_def handshake_abort_eq dest: channel_abortD)
  next
    case sent: (Ok u)
    then have out: "c1 = c" "wf_frame (frame_view_new h payload)" "sends io (frame_view_new h payload) w w1"
      using send by (simp_all add: channel_send_Ok)
    show ?thesis
    proof (cases o1)
      case (Err e)
      then show ?thesis
        using ex send sent hello by (auto simp: handshake_exchange_def handshake_abort_eq dest: channel_abortD)
    next
      case said: (Ok u)
      show ?thesis
      proof (cases g)
        case (Err e)
        then show ?thesis using ex send sent hello said recv
          by (auto simp: handshake_exchange_def handshake_abort_eq dest: channel_abortD)
      next
        case got: (Ok f)
        obtain o2 v2 where ready: "observe WorkerToParent (fv_header f) v1 = (o2, v2)" by fastforce
        have inn: "c2 = c1" "fh_session_id (fv_header f) = fc_session_id c" "receives io buf w1 f w2 b2"
          using recv got out(1) exact_transport.receive_Ok[OF io buf, of c1 w1 f c2 w2 b2] by auto
        show ?thesis
        proof (cases "decode_ready_payload f = Ok () \<and> o2 = Ok ()")
          case True
          then have f: "fh_message_type (fv_header f) = Ready" "fh_payload_length (fv_header f) = 0"
            by (auto simp: decode_ready_Ok wf_frame_def unat_eq_0)
          note v = handshake_validator[of h sid budgets v1 "fv_header f" v2]
          have v2: "sv_inv v2 \<and> sv_view v2 = Resting 0 None \<and> sv_error v2 = None \<and> sv_session_id v2 = sid \<and>
              sv_budgets v2 = budgets \<and> sv_message_count v2 = 2 \<and> sv_payload_bytes v2 = ucast HELLO_PAYLOAD_LENGTH"
            using v hello said ready True h f by simp
          then have "r = Ok v2 \<and> c' = c \<and> w' = w2 \<and> buf' = b2"
            using ex send sent hello said recv got ready True out inn sv_view_Resting[of v2 0 None]
            by (auto simp: handshake_exchange_def)
          then show ?thesis using v2 out inn True by auto
        next
          case False
          then show ?thesis
            using ex send sent hello said recv got ready
            by (cases "decode_ready_payload f"; cases o2)
              (auto simp: handshake_exchange_def handshake_abort_eq dest: channel_abortD)
        qed
      qed
    qed
  qed
qed


lemma hello_encoded:
  assumes "source_read_policy_new size_bytes n = Ok policy"
    and "encode_hello_payload \<lparr>hello_source_size = srp_source_size policy,
      hello_maximum_read_bytes = srp_maximum_read_bytes policy\<rparr> (replicate HELLO_PAYLOAD_BYTES 0) = (Ok k, payload)"
  shows "policy = \<lparr>srp_source_size = size_bytes, srp_maximum_read_bytes = n\<rparr>"
    and "wf_frame (frame_view_new (frame_header_new Hello sid 0 HELLO_PAYLOAD_LENGTH) payload) \<Longrightarrow>
       decode_hello_payload (frame_view_new (frame_header_new Hello sid 0 HELLO_PAYLOAD_LENGTH) payload) =
         Ok \<lparr>hello_source_size = size_bytes, hello_maximum_read_bytes = n\<rparr>"
proof -
  show policy: "policy = \<lparr>srp_source_size = size_bytes, srp_maximum_read_bytes = n\<rparr>"
    using assms(1) by (simp add: source_read_policy_new_Ok)
  then show "decode_hello_payload (frame_view_new (frame_header_new Hello sid 0 HELLO_PAYLOAD_LENGTH) payload) =
         Ok \<lparr>hello_source_size = size_bytes, hello_maximum_read_bytes = n\<rparr>"
    if "wf_frame (frame_view_new (frame_header_new Hello sid 0 HELLO_PAYLOAD_LENGTH) payload)"
    using assms(2) that
    by (auto simp: hello_codec.encode_Ok hello_codec.decode_Ok frame_view_new_def frame_header_new_def
        HELLO_PAYLOAD_BYTES_def hello_wire_def)
qed

text \<open>
  C39: a handshake is exactly one hello and one ready.  When it succeeds, the transport carried the
  canonical hello that declares the window's size and the read limit, then one canonical ready of the
  same session; the channel is unchanged, the validator is at rest with both frames charged, and the
  proof pins this channel, these limits and this policy.  When it fails, either nothing was touched or
  the channel is terminally poisoned, and the check of the validator's final state never is the
  reason.
\<close>

theorem handshake_exact:
  assumes "exact_transport io" and "length (fb_bytes buf) = unat MAXIMUM_FRAME_PAYLOAD_BYTES"
    and "parent_handshake_over_window io address media_size pinned_size src_size limits budgets ((c, w), buf) =
      (r, (c', w'), buf')"
  shows "case r of
      Ok hp \<Rightarrow> c' = c \<and> matches_channel hp address c \<and> hp_source_read_limits hp = limits \<and>
        hp_source_read_policy hp = \<lparr>srp_source_size = src_size, srp_maximum_read_bytes = srl_read_bytes limits\<rparr> \<and>
        sv_inv (hp_protocol hp) \<and> sv_view (hp_protocol hp) = Resting 0 None \<and>
        sv_message_count (hp_protocol hp) = 2 \<and> sv_payload_bytes (hp_protocol hp) = 12 \<and>
        (\<exists>hello ready w1. sends io hello w w1 \<and> receives io buf w1 ready w' buf' \<and>
           decode_hello_payload hello = Ok \<lparr>hello_source_size = src_size, hello_maximum_read_bytes = srl_read_bytes limits\<rparr> \<and>
           decode_ready_payload ready = Ok () \<and>
           fh_session_id (fv_header hello) = fc_session_id c \<and> fh_session_id (fv_header ready) = fc_session_id c)
    | Err e \<Rightarrow> e \<noteq> HsInternal \<and> (c' = c \<and> w' = w \<and> buf' = buf \<or> channel_is_terminal c')"
proof (cases "source_read_policy_new src_size (srl_read_bytes limits)")
  case (Err e)
  then show ?thesis
    using assms(3) by (auto simp: parent_handshake_over_window_def Let_def split: option.splits if_splits)
next
  case (Ok policy)
  let ?h = "frame_header_new Hello (fc_session_id c) 0 HELLO_PAYLOAD_LENGTH"
  obtain k payload where enc: "encode_hello_payload \<lparr>hello_source_size = srp_source_size policy,
      hello_maximum_read_bytes = srp_maximum_read_bytes policy\<rparr> (replicate HELLO_PAYLOAD_BYTES 0) = (k, payload)"
    by fastforce
  obtain g c1 w1 b1 where ex: "handshake_exchange io ?h payload (session_validator_new (fc_session_id c) budgets)
      ((c, w), buf) = (g, (c1, w1), b1)"
    by (cases "handshake_exchange io ?h payload (session_validator_new (fc_session_id c) budgets) ((c, w), buf)") auto
  have h: "fh_message_type ?h = Hello" "fh_payload_length ?h = HELLO_PAYLOAD_LENGTH" "fh_session_id ?h = fc_session_id c"
    by (simp_all add: frame_header_new_def)
  note xc = handshake_exchange_cases[OF assms(1,2) h(1,2) ex]
  consider (early) e where "r = Err e" "c' = c" "w' = w" "buf' = buf" "e \<noteq> HsInternal"
    | (late) n e where "k = Ok n" "g = Err e" "r = Err e" "c' = c1"
    | (agreed) n v where "k = Ok n" "g = Ok v" "c' = c1" "w' = w1" "buf' = b1"
        "r = Ok \<lparr>hp_protocol = v, hp_channel = address, hp_session_id = fc_session_id c,
          hp_source_read_limits = limits, hp_source_read_policy = policy\<rparr>"
    using assms(3) Ok enc ex
    by (auto simp: parent_handshake_over_window_def Let_def split: option.splits if_splits result.splits)
  then show ?thesis
  proof cases
    case (agreed n v)
    note enc' = hello_encoded[OF Ok enc[unfolded agreed(1)]]
    from xc agreed obtain ready u where "wf_frame (frame_view_new ?h payload)" "sends io (frame_view_new ?h payload) w u"
      "decode_ready_payload ready = Ok ()" "fh_session_id (fv_header ready) = fc_session_id c"
      "receives io buf u ready w' buf'" "c' = c" "sv_inv v" "sv_view v = Resting 0 None"
      "sv_message_count v = 2" "sv_payload_bytes v = ucast HELLO_PAYLOAD_LENGTH" by auto
    moreover from this have "decode_hello_payload (frame_view_new ?h payload) =
        Ok \<lparr>hello_source_size = src_size, hello_maximum_read_bytes = srl_read_bytes limits\<rparr>"
      using enc'(2) by simp
    moreover have "fh_session_id (fv_header (frame_view_new ?h payload)) = fc_session_id c"
      using h(3) by (simp add: frame_view_new_def)
    ultimately show ?thesis
      using agreed enc'(1) by (auto simp: matches_channel_def HELLO_PAYLOAD_LENGTH_def)
  qed (use xc in auto)
qed

definition demo_hello :: FrameView where
  "demo_hello = frame_view_new (frame_header_new Hello 7 0 12)
     (hello_wire \<lparr>hello_source_size = 100, hello_maximum_read_bytes = MAXIMUM_READ_BYTES\<rparr>)"

definition demo_greeted :: SessionValidator where
  "demo_greeted = snd (observe ParentToWorker (frame_header_new Hello 7 0 12)
     (session_validator_new 7 protocol_budgets_default))"

definition demo_opened :: SessionValidator where
  "demo_opened = snd (observe WorkerToParent demo_ready demo_greeted)"

definition demo_proof :: HandshakeProof where
  "demo_proof = \<lparr>hp_protocol = demo_opened, hp_channel = 0, hp_session_id = 7,
     hp_source_read_limits = source_read_limits_default,
     hp_source_read_policy = \<lparr>srp_source_size = 100, srp_maximum_read_bytes = MAXIMUM_READ_BYTES\<rparr>\<rparr>"

lemma demo_handshake_observed:
  "observe ParentToWorker (frame_header_new Hello 7 0 12) (session_validator_new 7 protocol_budgets_default) =
     (Ok (), demo_greeted)"
  "observe WorkerToParent demo_ready demo_greeted = (Ok (), demo_opened)"
  "sv_state demo_opened = Idle" "sv_message_count demo_opened = 2" "sv_payload_bytes demo_opened = 12"
  "sv_error demo_opened = None"
  by code_simp+

lemma demo_handshake_transfers:
  "channel_send pipe_io (frame_header_new Hello 7 0 12)
     (hello_wire \<lparr>hello_source_size = 100, hello_maximum_read_bytes = MAXIMUM_READ_BYTES\<rparr>)
     (frame_channel_new 7, bs, []) = (Ok (), frame_channel_new 7, bs, frame_wire demo_hello)"
  "channel_receive pipe_io ((frame_channel_new 7, frame_wire (frame_view_new demo_ready []), out), frame_buffer_new) =
     (Ok (frame_view_new demo_ready []), (frame_channel_new 7, [], out), frame_buffer_new)"
proof -
  show "channel_send pipe_io (frame_header_new Hello 7 0 12)
     (hello_wire \<lparr>hello_source_size = 100, hello_maximum_read_bytes = MAXIMUM_READ_BYTES\<rparr>)
     (frame_channel_new 7, bs, []) = (Ok (), frame_channel_new 7, bs, frame_wire demo_hello)"
    unfolding channel_send_Ok
    by (simp add: frame_channel_new_def wf_frame_def frame_view_new_def frame_header_new_def frame_header_validate_def
        sends_def pipe_io_def header_bytes_def frame_wire_def demo_hello_def hello_wire_def owp_consts)
  have "length (fb_bytes frame_buffer_new) = unat MAXIMUM_FRAME_PAYLOAD_BYTES" by (simp add: frame_buffer_new_def)
  from exact_transport.receive_Ok[OF pipe_exact this]
  show "channel_receive pipe_io ((frame_channel_new 7, frame_wire (frame_view_new demo_ready []), out), frame_buffer_new) =
     (Ok (frame_view_new demo_ready []), (frame_channel_new 7, [], out), frame_buffer_new)"
    using demo_ready_wf
    by (simp add: frame_channel_new_def frame_buffer_new_def receives_def pipe_io_def frame_view_new_def frame_wire_def
        header_bytes_def FRAME_HEADER_BYTES_def)
qed

lemma demo_handshake_over:
  assumes "channel_send io (frame_header_new Hello 7 0 12)
     (hello_wire \<lparr>hello_source_size = 100, hello_maximum_read_bytes = MAXIMUM_READ_BYTES\<rparr>)
     (frame_channel_new 7, w0) = (Ok (), frame_channel_new 7, w1)"
    and "channel_receive io ((frame_channel_new 7, w1), frame_buffer_new) =
     (Ok (frame_view_new demo_ready []), (frame_channel_new 7, w2), frame_buffer_new)"
  shows "parent_handshake_over_window io 0 100 100 100 source_read_limits_default protocol_budgets_default
     ((frame_channel_new 7, w0), frame_buffer_new) = (Ok demo_proof, (frame_channel_new 7, w2), frame_buffer_new)"
proof -
  have c: "ch_failure (fc_state (frame_channel_new 7)) = None" "fc_session_id (frame_channel_new 7) = 7"
    by (simp_all add: frame_channel_new_def)
  have "source_read_policy_new 100 (srl_read_bytes source_read_limits_default) =
      Ok \<lparr>srp_source_size = 100, srp_maximum_read_bytes = MAXIMUM_READ_BYTES\<rparr>"
    by (simp add: source_read_policy_new_Ok source_read_limits_default_def owp_consts)
  moreover have "encode_hello_payload \<lparr>hello_source_size = 100, hello_maximum_read_bytes = MAXIMUM_READ_BYTES\<rparr>
      (replicate HELLO_PAYLOAD_BYTES 0) =
      (Ok 12, hello_wire \<lparr>hello_source_size = 100, hello_maximum_read_bytes = MAXIMUM_READ_BYTES\<rparr>)"
    by (simp add: hello_codec.encode_Ok hello_valid_def hello_wire_def owp_consts)
  moreover have "decode_ready_payload (frame_view_new demo_ready []) = Ok ()"
    using demo_ready_wf by (simp add: decode_ready_Ok) (simp add: frame_view_new_def demo_ready_def frame_header_new_def)
  moreover have "fv_header (frame_view_new demo_ready []) = demo_ready" by (simp add: frame_view_new_def)
  moreover have "\<not> pb_maximum_messages protocol_budgets_default < 2"
      "\<not> pb_maximum_payload_bytes protocol_budgets_default < 12"
    by (simp_all add: owp_consts protocol_budgets_default_def)
  ultimately show ?thesis
    using demo_handshake_observed assms c
    by (simp add: parent_handshake_over_window_def handshake_exchange_def demo_proof_def source_read_limits_default_def
        HELLO_PAYLOAD_LENGTH_def Let_def)
qed

lemmas demo_handshake = demo_handshake_over[OF demo_handshake_transfers(1) demo_handshake_transfers(2)]

theorem handshake_exact_witness:
  "\<exists>hp w'. parent_handshake_over_window pipe_io 0 100 100 100 source_read_limits_default protocol_budgets_default
     ((frame_channel_new 7, frame_wire (frame_view_new demo_ready []), []), frame_buffer_new) =
       (Ok hp, (frame_channel_new 7, w'), frame_buffer_new) \<and>
     sv_view (hp_protocol hp) = Resting 0 None \<and> matches_channel hp 0 (frame_channel_new 7)"
proof -
  have "length (fb_bytes frame_buffer_new) = unat MAXIMUM_FRAME_PAYLOAD_BYTES" by (simp add: frame_buffer_new_def)
  from handshake_exact[OF pipe_exact this demo_handshake] demo_handshake show ?thesis by auto
qed


section \<open>A tap on the transport\<close>

text \<open>
  The transport with a record of every transfer it was asked for, and a source seam beside it that
  does not touch the record.
\<close>

type_synonym transfers = "(Direction \<times> bytes) list"

definition tapped :: "'w ExactIo \<Rightarrow> (transfers \<times> 'w) ExactIo" where
  "tapped io =
     \<lparr>io_read_exact = (\<lambda>dst (log, w). case io_read_exact io dst w of
        (r, dst', w') \<Rightarrow> (r, dst', log @ [(WorkerToParent, dst')], w')),
      io_write_all = (\<lambda>bs (log, w). case io_write_all io bs w of
        (r, w') \<Rightarrow> (r, log @ [(ParentToWorker, bs)], w')),
      io_abort_io = (\<lambda>(log, w). (log, io_abort_io io w))\<rparr>"

definition beside :: "'w SourceOps \<Rightarrow> (transfers \<times> 'w) SourceOps" where
  "beside ops =
     \<lparr>ops_verify_unchanged = (\<lambda>(log, w). case ops_verify_unchanged ops w of (r, w') \<Rightarrow> (r, log, w')),
      ops_read_exact_at = (\<lambda>offset dst (log, w). case ops_read_exact_at ops offset dst w of
        (r, dst', w') \<Rightarrow> (r, dst', log, w')),
      ops_window_length = ops_window_length ops\<rparr>"

definition frame_transfers :: "Direction \<Rightarrow> FrameView \<Rightarrow> transfers" where
  "frame_transfers d f =
     (d, header_bytes (fv_header f)) # (if fv_payload f = [] then [] else [(d, fv_payload f)])"

lemma tapped_exact: "exact_transport io \<Longrightarrow> exact_transport (tapped io)"
  unfolding exact_transport_def tapped_def by (auto split: prod.splits)

lemma beside_seam: "source_seam ops \<Longrightarrow> source_seam (beside ops)"
  unfolding source_seam_def beside_def by (auto split: prod.splits) (metis fst_conv snd_conv)

lemma tapped_sends: "sends (tapped io) f (log, w) x \<Longrightarrow> fst x = log @ frame_transfers ParentToWorker f"
  by (auto simp: sends_def tapped_def frame_transfers_def split: prod.splits if_splits)

lemma tapped_receives:
  "receives (tapped io) buf (log, w) f x buf' \<Longrightarrow> fst x = log @ frame_transfers WorkerToParent f"
  by (auto simp: receives_def tapped_def frame_transfers_def split: prod.splits if_splits)

lemma beside_service:
  "broker_service (beside ops) offset dst (log, w) = (status, dst', x) \<Longrightarrow> fst x = log"
  by (auto simp: broker_service_def beside_def split: prod.splits result.splits)


section \<open>What a call of the result session exchanges\<close>

fun call_frame :: "ResultCall \<Rightarrow> FrameView" where
  "call_frame (BeginEnumeration f) = f"
| "call_frame (AcceptEntryBatch f) = f"
| "call_frame (CompleteEnumeration f) = f"
| "call_frame (BeginStreamEntry f g) = f"
| "call_frame (AcceptDataChunk f) = f"
| "call_frame (CompleteStream f) = f"
| "call_frame (AcceptReadRequest f p q) = f"
| "call_frame (AcceptReadReply f q n) = f"
| "call_frame (AcceptCancel f) = f"
| "call_frame (AcceptCancelAck f) = f"
| "call_frame (AcceptShutdown f) = f"

fun call_direction :: "ResultCall \<Rightarrow> Direction" where
  "call_direction (BeginEnumeration f) = ParentToWorker"
| "call_direction (BeginStreamEntry f g) = ParentToWorker"
| "call_direction (AcceptReadReply f q n) = ParentToWorker"
| "call_direction (AcceptCancel f) = ParentToWorker"
| "call_direction (AcceptShutdown f) = ParentToWorker"
| "call_direction _ = WorkerToParent"

text \<open>A call that succeeds observed its frame once: the protocol component is the validator's successor.\<close>

lemma rs_observe_protocol:
  "rs_observe d f s = (Ok u, t) \<Longrightarrow> observe d (fv_header f) (rs_protocol s) = (Ok (), rs_protocol t)"
  by (auto simp: rs_observe_def split: prod.splits result.splits)

lemma rs_observe_other:
  "rs_observe d f (s\<lparr>rs_candidate := c\<rparr>) = (Ok u, t) \<Longrightarrow>
     observe d (fv_header f) (rs_protocol s) = (Ok (), rs_protocol t)"
  using rs_observe_protocol by fastforce

lemma accept_read_reply_observes:
  assumes "accept_read_reply f q n s = (Ok u, t)"
  shows "rs_observe ParentToWorker f s = (Ok (), t)"
proof -
  from assms obtain m v where "decode_read_reply_payload f q n = Ok m" "rs_observe ParentToWorker f s = (Ok (), v)"
    and "(case rp_status m of StatusSourceChanged \<Rightarrow> rs_fail SourceInvalidated
      | StatusSourceReadFailed \<Rightarrow> rs_fail SourceReadFailure | _ \<Rightarrow> st_return ()) v = (Ok (), t)"
    by (auto simp: accept_read_reply_def result_simps)
  then show ?thesis by (cases "rp_status m") simp_all
qed

lemmas result_ok_simps = result_simps Let_def rs_retire_all_def

lemma result_call_observes:
  assumes "result_call wr call (s, k) = (Ok (), t, k')"
  shows "observe (call_direction call) (fv_header (call_frame call)) (rs_protocol s) = (Ok (), rs_protocol t)"
proof (cases call)
  case (BeginEnumeration f)
  then show ?thesis using assms
    by (auto simp: on_session_Ok begin_enumeration_def result_ok_simps split: option.splits if_splits
        dest!: rs_observe_protocol)
next
  case (AcceptEntryBatch f)
  then show ?thesis using assms
    by (auto simp: on_session_Ok accept_entry_batch_def result_ok_simps split: option.splits if_splits
        dest!: rs_observe_protocol)
next
  case (CompleteEnumeration f)
  then show ?thesis using assms
    by (auto simp: on_session_Ok complete_enumeration_def result_ok_simps split: option.splits if_splits result.splits
        dest!: rs_observe_other)
next
  case (BeginStreamEntry f g)
  then show ?thesis using assms
    by (auto simp: on_session_Ok begin_stream_entry_def result_ok_simps split: option.splits if_splits
        dest!: rs_observe_protocol)
next
  case (CompleteStream f)
  then show ?thesis using assms
    by (auto simp: on_session_Ok complete_stream_def result_ok_simps split: option.splits if_splits
        dest!: rs_observe_protocol)
next
  case (AcceptReadRequest f p q)
  then show ?thesis using assms
    by (auto simp: on_session_Ok accept_read_request_def result_ok_simps dest!: rs_observe_protocol)
next
  case (AcceptReadReply f q n)
  then show ?thesis using assms
    by (auto simp: on_session_Ok dest!: accept_read_reply_observes rs_observe_protocol)
next
  case (AcceptCancel f)
  then show ?thesis using assms
    by (auto simp: on_session_Ok accept_cancel_def result_ok_simps dest!: rs_observe_protocol)
next
  case (AcceptCancelAck f)
  then show ?thesis using assms
    by (auto simp: on_session_Ok accept_cancel_ack_def result_ok_simps dest!: rs_observe_protocol)
next
  case (AcceptShutdown f)
  then show ?thesis using assms
    by (auto simp: on_session_Ok accept_shutdown_def result_ok_simps dest!: rs_observe_protocol)
next
  case (AcceptDataChunk f)
  have "rs_failure s = None"
    using assms AcceptDataChunk by (cases "rs_failure s") (auto simp: accept_data_chunk_def rs_guard_def)
  then show ?thesis using assms AcceptDataChunk
    by (auto simp: accept_data_chunk_live rs_fail_def Let_def split: option.splits result.splits prod.splits if_splits
        dest!: rs_observe_protocol)
qed

lemma result_call_exchange:
  assumes "result_call wr call (s, k) = (Ok (), t, k')" and "rs_inv s"
  shows "exchange (sv_view (rs_protocol s)) (label_of (call_direction call, fv_header (call_frame call)))
      (sv_view (rs_protocol t)) \<and> rs_inv t \<and> rs_failure t = None"
proof -
  have "sv_inv (rs_protocol s)" using assms(2) by (simp add: rs_inv_def)
  from observe_Ok_refines[OF this result_call_observes[OF assms(1)]]
  show ?thesis
    using result_call_inv[of "(s, k)" wr call] result_session.ok_clear[OF assms(1)] assms by simp
qed


section \<open>The conversation of a live session\<close>

text \<open>How the typestate phase and the active request id show in the validator's view.\<close>

fun phase_matches :: "SessionPhaseKind \<Rightarrow> u64 \<Rightarrow> ProtocolView \<Rightarrow> bool" where
  "phase_matches KindIdle active (Resting high stale) \<longleftrightarrow> active = 0"
| "phase_matches KindEnumerating active (Busy op rid reading) \<longleftrightarrow> op = OpEnumerate \<and> active = rid \<and> \<not> reading"
| "phase_matches KindStreaming active (Busy op rid reading) \<longleftrightarrow> op = OpStream \<and> active = rid \<and> \<not> reading"
| "phase_matches KindCancelling active (Withdrawing op rid reading crossed) \<longleftrightarrow> active = rid \<and> \<not> reading"
| "phase_matches KindCancelled active (Drained late) \<longleftrightarrow> active = 0 \<and> late = None"
| "phase_matches KindClosed active Over \<longleftrightarrow> active = 0"
| "phase_matches _ _ _ \<longleftrightarrow> False"

fun_cases phase_matchesE: "phase_matches phase active v"

type_synonym conversation = "(Direction \<times> FrameView) list"

definition conversation_transfers :: "conversation \<Rightarrow> transfers" where
  "conversation_transfers fs = concat (map (\<lambda>(d, f). frame_transfers d f) fs)"

definition conversation_labels :: "conversation \<Rightarrow> label list" where
  "conversation_labels fs = map (\<lambda>(d, f). label_of (d, fv_header f)) fs"

text \<open>The record and the result session agree: same frames, and the specification admits them.\<close>

definition conversing :: "u64 \<Rightarrow> transfers \<Rightarrow> ResultSession \<Rightarrow> bool" where
  "conversing sid log s \<longleftrightarrow> rs_inv s \<and> rs_failure s = None \<and>
     (\<exists>fs. log = conversation_transfers fs \<and>
        list_all (\<lambda>(d, f). wf_frame f \<and> fh_session_id (fv_header f) = sid) fs \<and>
        session_trace (conversation_labels fs) (sv_view (rs_protocol s)))"

lemma conversing_step:
  assumes conv: "conversing sid log s" and call: "result_call wr call (s, k) = (Ok (), t, k')"
    and frame: "wf_frame (call_frame call)" "fh_session_id (fv_header (call_frame call)) = sid"
    and log: "log' = log @ frame_transfers (call_direction call) (call_frame call)"
  shows "conversing sid log' t \<and>
    exchange (sv_view (rs_protocol s)) (label_of (call_direction call, fv_header (call_frame call))) (sv_view (rs_protocol t))"
proof -
  from conv obtain fs where fs: "log = conversation_transfers fs"
    "list_all (\<lambda>(d, f). wf_frame f \<and> fh_session_id (fv_header f) = sid) fs"
    "session_trace (conversation_labels fs) (sv_view (rs_protocol s))" and inv: "rs_inv s"
    by (auto simp: conversing_def)
  note ex = result_call_exchange[OF call inv]
  let ?fs = "fs @ [(call_direction call, call_frame call)]"
  have "log' = conversation_transfers ?fs" using fs(1) log by (simp add: conversation_transfers_def)
  moreover have "session_trace (conversation_labels ?fs) (sv_view (rs_protocol t))"
    using session_trace.step[OF fs(3)] ex by (simp add: conversation_labels_def)
  ultimately show ?thesis using ex fs(2) frame unfolding conversing_def by force
qed


subsection \<open>Sending\<close>

text \<open>The sink plays no part in a call that sends a frame.\<close>

definition no_sink :: "bytes \<Rightarrow> unit \<Rightarrow> bool \<times> unit" where
  "no_sink bs k = (True, k)"

lemma send_transaction_Ok:
  assumes send: "send_transaction (tapped io) h payload ob (core, log, w) = (Ok (), core', log', w')"
    and conv: "conversing (fc_session_id (core_channel core)) log (core_results core)"
    and call: "result_call no_sink call = on_session (ob (frame_view_new h payload))"
      "call_frame call = frame_view_new h payload" "call_direction call = ParentToWorker"
  shows "\<exists>s. core' = core\<lparr>core_results := s\<rparr> \<and> conversing (fc_session_id (core_channel core)) log' s \<and>
    exchange (sv_view (rs_protocol (core_results core))) (ParentToWorker, fh_message_type h, fh_request_id h)
      (sv_view (rs_protocol s))"
proof -
  let ?f = "frame_view_new h payload" and ?sid = "fc_session_id (core_channel core)"
  from send obtain s c where s: "ob ?f (core_results core) = (Ok (), s)"
    and sent: "channel_send (tapped io) h payload (core_channel core, log, w) = (Ok (), c, log', w')"
    and core': "core' = core\<lparr>core_results := s, core_channel := c\<rparr>"
    by (auto simp: send_transaction_def map_err_Ok split: prod.splits result.splits)
  from sent have f: "c = core_channel core" "wf_frame ?f" "fh_session_id h = ?sid" "sends (tapped io) ?f (log, w) (log', w')"
    by (simp_all add: channel_send_Ok)
  have "result_call no_sink call (core_results core, ()) = (Ok (), s, ())"
    using call(1) s by (simp add: on_session_def)
  from conversing_step[OF conv this, of log'] f call(2,3) tapped_sends[OF f(4)]
  have "conversing ?sid log' s \<and> exchange (sv_view (rs_protocol (core_results core)))
      (ParentToWorker, fh_message_type h, fh_request_id h) (sv_view (rs_protocol s))"
    by (simp add: frame_view_new_def label_of_def)
  moreover have "core' = core\<lparr>core_results := s\<rparr>" using core' f(1) by simp
  ultimately show ?thesis by blast
qed

lemma send_request_Ok:
  assumes send: "send_request (tapped io) kind payload len ob (core, log, w) = (Ok (), core', log', w')"
    and conv: "conversing (fc_session_id (core_channel core)) log (core_results core)"
    and call: "\<And>h. result_call no_sink (call h) = on_session (ob (frame_view_new h payload))"
      "\<And>h. call_frame (call h) = frame_view_new h payload" "\<And>h. call_direction (call h) = ParentToWorker"
  shows "core_channel core' = core_channel core \<and>
    conversing (fc_session_id (core_channel core)) log' (core_results core') \<and>
    exchange (sv_view (rs_protocol (core_results core))) (ParentToWorker, kind, core_active_request_id core')
      (sv_view (rs_protocol (core_results core')))"
proof -
  from send obtain rid core1 where alloc: "allocate_request_id core = (Ok rid, core1)"
    and tx: "\<exists>core2. send_transaction (tapped io) (request_header kind rid len core1) payload ob (core1, log, w) =
        (Ok (), core2, log', w') \<and> core' = core2\<lparr>core_active_request_id := rid\<rparr>"
    by (auto simp: send_request_def split: prod.splits result.splits)
  then obtain core2 where tx: "send_transaction (tapped io) (request_header kind rid len core1) payload ob (core1, log, w) =
        (Ok (), core2, log', w')" and core': "core' = core2\<lparr>core_active_request_id := rid\<rparr>" by blast
  have core1: "core_channel core1 = core_channel core" "core_results core1 = core_results core"
    using alloc by (auto simp: allocate_request_id_def Let_def split: if_splits)
  have h: "fh_message_type (request_header kind rid len core1) = kind" "fh_request_id (request_header kind rid len core1) = rid"
    by (simp_all add: request_header_def frame_header_new_def)
  from send_transaction_Ok[OF tx _ call] conv core1 h core' show ?thesis by auto
qed


subsection \<open>Receiving\<close>

lemma deliver_Ok:
  "deliver outcome m x = (Ok r, x') \<longleftrightarrow> r = outcome \<and>
     (\<exists>s k. m (core_results (rc_core x), rc_sink x) = (Ok (), s, k) \<and>
        x' = x\<lparr>rc_core := (rc_core x)\<lparr>core_results := s\<rparr>, rc_sink := k\<rparr>)"
  by (auto simp: deliver_def split: prod.splits result.splits)

lemma commit_reply_sent_Ok:
  assumes "commit_reply_sent p (b, s) = (Ok (), b', s')"
  shows "\<exists>q n. accept_read_reply (frame_view_new (pp_header p) (pp_payload p)) q n s = (Ok (), s')"
proof -
  from assms obtain pending b1 s1 where tp: "take_pending (pp_ticket p) (b, s) = (Ok pending, b1, s1)"
    by (auto simp: commit_reply_sent_def split: prod.splits result.splits)
  then have s1: "s1 = s" by (auto simp: take_pending_def split: option.splits if_splits prod.splits)
  obtain a s2 where acc: "accept_read_reply (frame_view_new (pp_header p) (pp_payload p)) (pend_sequence pending)
      (pend_requested_length pending) s = (a, s2)" by fastforce
  have "a = Ok () \<and> s2 = s'"
    using assms tp s1 acc
    by (cases a) (auto simp: commit_reply_sent_def broker_fail_def Let_def split: if_splits prod.splits)
  then show ?thesis using acc by blast
qed

lemma prepare_serve_ready:
  assumes "prepare_serve (beside ops) request seq m x = (Ok (ReplyReady p), x')" and "rf_world x = (log, w)"
  shows "snd (rf_brokered x') = snd (rf_brokered x) \<and> fst (rf_world x') = log \<and>
    fh_session_id (pp_header p) = fh_session_id (fv_header request) \<and> fh_message_type (pp_header p) = ReadReply \<and>
    fh_request_id (pp_header p) = fh_request_id (fv_header request)"
proof -
  obtain b s where bs: "rf_brokered x = (b, s)" by fastforce
  obtain status dst w1 where service: "broker_service (beside ops) (rq_offset m)
      (take (unat (rq_length m)) (rf_scratch x)) (log, w) = (status, dst, w1)" by (metis prod_cases3)
  from beside_service[OF service] assms service bs show ?thesis
    by (auto simp: prepare_serve_def Let_def prepare_fail_def frame_header_new_def split: prod.splits result.splits)
qed

lemma broker_prepare_Ok:
  assumes prep: "broker_prepare (beside ops) request x = (Ok r, x')" and bs: "rf_brokered x = (b, s)"
    and w: "rf_world x = (log, w)"
  shows "\<exists>q. case r of
      PrepareIgnoredAfterCancel \<Rightarrow> fst (rf_world x') = log \<and>
        accept_read_request request (srb_policy b) q s = (Ok IgnoredAfterCancel, snd (rf_brokered x'))
    | ReplyReady p \<Rightarrow> fst (rf_world x') = log \<and>
        (\<exists>m. accept_read_request request (srb_policy b) q s = (Ok (Serviceable m), snd (rf_brokered x'))) \<and>
        fh_session_id (pp_header p) = fh_session_id (fv_header request) \<and> fh_message_type (pp_header p) = ReadReply \<and>
        fh_request_id (pp_header p) = fh_request_id (fv_header request)"
  using prep bs
proof (cases rule: broker_prepare_cases)
  case (failed e s')
  then show ?thesis using prepare_fail_keeps by blast
next
  case (ignored s')
  then show ?thesis using w by auto
next
  case (served m s')
  show ?thesis
  proof (cases r)
    case (ReplyReady p)
    let ?x = "x\<lparr>rf_brokered := (b, s')\<rparr>"
    have "rf_world ?x = (log, w)" "snd (rf_brokered ?x) = s'" using w by simp_all
    with prepare_serve_ready[of ops request "expected_sequence_of b request" m ?x p x' log w] served ReplyReady
    show ?thesis by auto
  next
    case PrepareIgnoredAfterCancel
    then show ?thesis using served(7)
      by (auto simp: prepare_serve_def Let_def prepare_fail_def split: prod.splits result.splits)
  qed
qed auto

text \<open>
  The state between two frames of one receive: the record and the result session agree, and channel
  and request id are those the call started with.
\<close>

definition rc_conversing :: "SessionCore \<Rightarrow> ('k, transfers \<times> 'w) ReceiveState \<Rightarrow> bool" where
  "rc_conversing core x \<longleftrightarrow>
     conversing (fc_session_id (core_channel core)) (fst (rc_world x)) (core_results (rc_core x)) \<and>
     core_channel (rc_core x) = core_channel core \<and>
     core_active_request_id (rc_core x) = core_active_request_id core"

abbreviation rc_view :: "('k, 'w) ReceiveState \<Rightarrow> ProtocolView" where
  "rc_view x \<equiv> sv_view (rs_protocol (core_results (rc_core x)))"

text \<open>The exchanges behind each outcome.\<close>

fun outcome_exchanges :: "Received \<Rightarrow> ProtocolView \<Rightarrow> ProtocolView \<Rightarrow> bool" where
  "outcome_exchanges RcvProgress v v' \<longleftrightarrow>
     (\<exists>rid. exchange v (WorkerToParent, EntryBatch, rid) v' \<or> exchange v (WorkerToParent, DataChunk, rid) v')"
| "outcome_exchanges RcvComplete v v' \<longleftrightarrow> (\<exists>rid. exchange v (WorkerToParent, Complete, rid) v')"
| "outcome_exchanges RcvCancelAck v v' \<longleftrightarrow> (\<exists>rid. exchange v (WorkerToParent, CancelAck, rid) v')"
| "outcome_exchanges RcvReadIgnored v v' \<longleftrightarrow> (\<exists>rid. exchange v (WorkerToParent, ReadRequest, rid) v')"
| "outcome_exchanges RcvReadReplied v v' \<longleftrightarrow>
     (\<exists>rid u. exchange v (WorkerToParent, ReadRequest, rid) u \<and> exchange u (ParentToWorker, ReadReply, rid) v')"

lemma deliver_step:
  assumes rx: "deliver outcome (result_call wr call) x = (Ok r, x')"
    and conv: "conversing sid log (core_results (rc_core x))"
    and frame: "wf_frame (call_frame call)" "fh_session_id (fv_header (call_frame call)) = sid"
    and log: "fst (rc_world x) = log @ frame_transfers (call_direction call) (call_frame call)"
  shows "r = outcome \<and> conversing sid (fst (rc_world x')) (core_results (rc_core x')) \<and>
    core_channel (rc_core x') = core_channel (rc_core x) \<and>
    core_active_request_id (rc_core x') = core_active_request_id (rc_core x) \<and>
    exchange (rc_view x) (label_of (call_direction call, fv_header (call_frame call))) (rc_view x')"
proof -
  from rx obtain s k where r: "r = outcome" and call: "result_call wr call (core_results (rc_core x), rc_sink x) = (Ok (), s, k)"
    and x': "x' = x\<lparr>rc_core := (rc_core x)\<lparr>core_results := s\<rparr>, rc_sink := k\<rparr>"
    by (auto simp: deliver_Ok)
  from conversing_step[OF conv call frame log] r x' show ?thesis by simp
qed

lemma answer_read_step:
  assumes rx: "answer_read (tapped io) p x = (Ok r, x')"
    and conv: "conversing (fc_session_id (core_channel (rc_core x))) (fst (rc_world x)) (core_results (rc_core x))"
    and reply: "fh_message_type (pp_header p) = ReadReply" "fh_request_id (pp_header p) = rid"
  shows "r = RcvReadReplied \<and> rc_conversing (rc_core x) x' \<and>
    exchange (rc_view x) (ParentToWorker, ReadReply, rid) (rc_view x')"
proof -
  let ?core = "rc_core x" and ?f = "frame_view_new (pp_header p) (pp_payload p)"
  obtain log w where w: "rc_world x = (log, w)" by (cases "rc_world x")
  from rx w obtain c log' w' b' s' where
    sent: "channel_send (tapped io) (pp_header p) (pp_payload p) (core_channel ?core, log, w) = (Ok (), c, log', w')"
    and commit: "commit_reply_sent p (core_reads ?core, core_results ?core) = (Ok (), b', s')"
    and r: "r = RcvReadReplied"
    and x': "x' = x\<lparr>rc_core := with_brokered (b', s') (?core\<lparr>core_channel := c\<rparr>), rc_world := (log', w')\<rparr>"
    by (auto simp: answer_read_def Let_def split: prod.splits result.splits)
  from sent have f: "c = core_channel ?core" "wf_frame ?f" "fh_session_id (pp_header p) = fc_session_id (core_channel ?core)"
    "log' = log @ frame_transfers ParentToWorker ?f"
    using tapped_sends[of io ?f log w "(log', w')"] by (simp_all add: channel_send_Ok)
  from commit_reply_sent_Ok[OF commit] obtain q n where "accept_read_reply ?f q n (core_results ?core) = (Ok (), s')" by blast
  then have call: "result_call no_sink (AcceptReadReply ?f q n) (core_results ?core, ()) = (Ok (), s', ())"
    by (simp add: on_session_def)
  have "conversing (fc_session_id (core_channel ?core)) log (core_results ?core)" using conv w by simp
  from conversing_step[OF this call, of log'] f reply r x' show ?thesis
    by (simp add: rc_conversing_def with_brokered_def label_of_def frame_view_new_def)
qed

lemma accept_read_request_label:
  "accept_read_request f policy q s = (Ok v, t) \<Longrightarrow> fh_message_type (fv_header f) = ReadRequest"
  by (auto simp: accept_read_request_def result_simps Let_def read_request_codec.decode_Ok)

lemma serve_read_step:
  assumes rx: "serve_read (tapped io) (beside ops) f x = (Ok r, x')"
    and conv: "conversing (fc_session_id (core_channel (rc_core x))) log (core_results (rc_core x))"
    and frame: "wf_frame f" "fh_session_id (fv_header f) = fc_session_id (core_channel (rc_core x))"
    and w: "rc_world x = (log @ frame_transfers WorkerToParent f, w)"
  shows "rc_conversing (rc_core x) x' \<and> outcome_exchanges r (rc_view x) (rc_view x')"
proof -
  let ?core = "rc_core x" and ?log = "log @ frame_transfers WorkerToParent f"
  let ?rf = "\<lparr>rf_brokered = (core_reads ?core, core_results ?core), rf_scratch = sb_scratch (rc_buffers x),
      rf_reply_storage = sb_reply (rc_buffers x), rf_world = rc_world x\<rparr>"
  obtain g rf where prep: "broker_prepare (beside ops) f ?rf = (g, rf)" by fastforce
  from rx prep obtain o1 where g: "g = Ok o1" by (cases g) (auto simp: serve_read_def Let_def)
  let ?y = "x\<lparr>rc_core := with_brokered (rf_brokered rf) ?core,
      rc_buffers := (rc_buffers x)\<lparr>sb_scratch := rf_scratch rf, sb_reply := rf_reply_storage rf\<rparr>, rc_world := rf_world rf\<rparr>"
  have "rf_brokered ?rf = (core_reads ?core, core_results ?core)" "rf_world ?rf = (?log, w)" using w by simp_all
  from broker_prepare_Ok[OF prep[unfolded g] this] obtain q v where
    acc: "accept_read_request f (srb_policy (core_reads ?core)) q (core_results ?core) = (Ok v, snd (rf_brokered rf))"
    and log: "fst (rf_world rf) = ?log"
    and reply: "case o1 of PrepareIgnoredAfterCancel \<Rightarrow> True
      | ReplyReady p \<Rightarrow> fh_message_type (pp_header p) = ReadReply \<and> fh_request_id (pp_header p) = fh_request_id (fv_header f)"
    by (cases o1) auto
  let ?call = "AcceptReadRequest f (srb_policy (core_reads ?core)) q"
  have call: "result_call no_sink ?call (core_results ?core, ()) = (Ok (), snd (rf_brokered rf), ())"
    using acc by (simp add: on_session_def)
  from conversing_step[OF conv call, of ?log] frame accept_read_request_label[OF acc]
  have step: "conversing (fc_session_id (core_channel ?core)) ?log (snd (rf_brokered rf))"
    "exchange (rc_view x) (WorkerToParent, ReadRequest, fh_request_id (fv_header f)) (rc_view ?y)"
    by (simp_all add: label_of_def with_brokered_def)
  show ?thesis
  proof (cases o1)
    case PrepareIgnoredAfterCancel
    then have "r = RcvReadIgnored" "x' = ?y" using rx prep g by (simp_all add: serve_read_def Let_def)
    then show ?thesis using step log by (auto simp: rc_conversing_def with_brokered_def)
  next
    case (ReplyReady p)
    then have ans: "answer_read (tapped io) p ?y = (Ok r, x')" using rx prep g by (simp add: serve_read_def Let_def)
    have same: "core_channel (rc_core ?y) = core_channel ?core" "core_active_request_id (rc_core ?y) = core_active_request_id ?core"
      by (simp_all add: with_brokered_def)
    have "conversing (fc_session_id (core_channel (rc_core ?y))) (fst (rc_world ?y)) (core_results (rc_core ?y))"
      using step(1) log by (simp add: with_brokered_def)
    from answer_read_step[OF ans this] reply ReplyReady
    have "r = RcvReadReplied \<and> rc_conversing (rc_core ?y) x' \<and>
        exchange (rc_view ?y) (ParentToWorker, ReadReply, fh_request_id (fv_header f)) (rc_view x')" by simp
    then show ?thesis using step(2) same by (auto simp: rc_conversing_def)
  qed
qed

lemma dispatch_step:
  assumes rx: "dispatch_frame (tapped io) (beside ops) sink active f x = (Ok r, x')"
    and conv: "conversing (fc_session_id (core_channel (rc_core x))) log (core_results (rc_core x))"
    and frame: "wf_frame f" "fh_session_id (fv_header f) = fc_session_id (core_channel (rc_core x))"
    and w: "rc_world x = (log @ frame_transfers WorkerToParent f, w)"
  shows "rc_conversing (rc_core x) x' \<and> outcome_exchanges r (rc_view x) (rc_view x')"
proof -
  have result: "rc_conversing (rc_core x) x' \<and> outcome_exchanges r (rc_view x) (rc_view x')"
    if "deliver outcome (result_call wr call) x = (Ok r, x')" "call_frame call = f" "call_direction call = WorkerToParent"
      "(outcome, fh_message_type (fv_header f)) \<in>
         {(RcvProgress, EntryBatch), (RcvProgress, DataChunk), (RcvComplete, Complete), (RcvCancelAck, CancelAck)}"
    for outcome wr call
    using deliver_step[OF that(1) conv] that(2-4) frame w
    by (auto simp: rc_conversing_def label_of_def)
  show ?thesis
  proof (cases "fh_message_type (fv_header f)")
    case EntryBatch
    then show ?thesis using rx result[of RcvProgress "\<lambda>_ k. (True, k)" "AcceptEntryBatch f"]
      by (simp add: dispatch_frame_def)
  next
    case DataChunk
    then obtain wr where "sink = Some wr" using rx by (cases sink) (auto simp: dispatch_frame_def)
    then show ?thesis using rx DataChunk result[of RcvProgress wr "AcceptDataChunk f"] by (simp add: dispatch_frame_def)
  next
    case Complete
    then show ?thesis
      using rx result[of RcvComplete "\<lambda>_ k. (True, k)" "CompleteEnumeration f"]
        result[of RcvComplete "\<lambda>_ k. (True, k)" "CompleteStream f"]
      by (cases active) (simp_all add: dispatch_frame_def)
  next
    case CancelAck
    then show ?thesis using rx result[of RcvCancelAck "\<lambda>_ k. (True, k)" "AcceptCancelAck f"]
      by (simp add: dispatch_frame_def)
  next
    case ReadRequest
    then show ?thesis using rx serve_read_step[OF _ conv frame w] by (simp add: dispatch_frame_def)
  qed (use rx in \<open>simp_all add: dispatch_frame_def\<close>)
qed

lemma receive_one_inner_step:
  assumes io: "exact_transport io"
    and buf: "length (fb_bytes (sb_receive (rc_buffers x))) = unat MAXIMUM_FRAME_PAYLOAD_BYTES"
    and rx: "receive_one_inner (tapped io) (beside ops) sink active x = (Ok r, x')"
    and conv: "rc_conversing (rc_core x) x"
  shows "rc_conversing (rc_core x) x' \<and> outcome_exchanges r (rc_view x) (rc_view x')"
proof -
  let ?core = "rc_core x"
  obtain log w where w: "rc_world x = (log, w)" by (cases "rc_world x")
  obtain g c log1 w1 b where recv: "channel_receive (tapped io) ((core_channel ?core, log, w), sb_receive (rc_buffers x)) =
      (g, (c, log1, w1), b)"
    by (cases "channel_receive (tapped io) ((core_channel ?core, log, w), sb_receive (rc_buffers x))") auto
  let ?y = "x\<lparr>rc_core := ?core\<lparr>core_channel := c\<rparr>, rc_world := (log1, w1),
      rc_buffers := (rc_buffers x)\<lparr>sb_receive := b\<rparr>\<rparr>"
  from rx recv w obtain f where g: "g = Ok f"
    and disp: "dispatch_frame (tapped io) (beside ops) sink active f ?y = (Ok r, x')"
    by (cases g) (auto simp: receive_one_inner_def Let_def split: if_splits)
  have "channel_receive (tapped io) ((core_channel ?core, log, w), sb_receive (rc_buffers x)) = (Ok f, (c, log1, w1), b)"
    using recv g by simp
  then have f: "c = core_channel ?core" "wf_frame f" "fh_session_id (fv_header f) = fc_session_id (core_channel ?core)"
    "receives (tapped io) (sb_receive (rc_buffers x)) (log, w) f (log1, w1) b"
    using exact_transport.receive_Ok[OF tapped_exact[OF io] buf] by auto
  have y: "rc_core ?y = ?core" using f(1) by simp
  have "conversing (fc_session_id (core_channel (rc_core ?y))) log (core_results (rc_core ?y))"
    using conv w y by (simp add: rc_conversing_def)
  from dispatch_step[OF disp this] f tapped_receives[OF f(4)] y show ?thesis by simp
qed


section \<open>Every session that lives\<close>

text \<open>
  The states a session can be in without having failed, from the handshake on: any method of the
  phase, with any buffers, any sink and any answers of the worker.
\<close>

inductive parent_live ::
  "'w ExactIo \<Rightarrow> 'w SourceOps \<Rightarrow> (bytes \<Rightarrow> 'k \<Rightarrow> bool \<times> 'k) \<Rightarrow> u64 \<Rightarrow> 'w \<Rightarrow> SessionPhaseKind \<Rightarrow> SessionCore \<Rightarrow> 'w \<Rightarrow> bool"
  for io ops wr sid w0 where
  opened: "parent_handshake_over_window io address media_size pinned_size src_size limits budgets
      ((frame_channel_new sid, w0), buf) = (Ok hp, (c, w), buf') \<Longrightarrow>
    length (fb_bytes buf) = unat MAXIMUM_FRAME_PAYLOAD_BYTES \<Longrightarrow>
    create_parser_session io ops hp address media_size pinned_size epoch import_limits (c, w) = (Ok core, c', w') \<Longrightarrow>
    parent_live io ops wr sid w0 KindIdle core w'"
| enumerate: "parent_live io ops wr sid w0 KindIdle core w \<Longrightarrow>
    parent_begin_enumeration io (core, w) = (Ok phase, core', w') \<Longrightarrow> parent_live io ops wr sid w0 phase core' w'"
| stream: "parent_live io ops wr sid w0 KindIdle core w \<Longrightarrow>
    parent_begin_stream io generation token (core, w) = (Ok phase, core', w') \<Longrightarrow> parent_live io ops wr sid w0 phase core' w'"
| shutdown: "parent_live io ops wr sid w0 phase core w \<Longrightarrow> phase = KindIdle \<or> phase = KindCancelled \<Longrightarrow>
    shutdown_session io (core, w) = (Ok phase', core', w') \<Longrightarrow> parent_live io ops wr sid w0 phase' core' w'"
| cancel: "parent_live io ops wr sid w0 phase core w \<Longrightarrow> phase = KindEnumerating \<or> phase = KindStreaming \<Longrightarrow>
    request_cancel io (core, w) = (Ok phase', core', w') \<Longrightarrow> parent_live io ops wr sid w0 phase' core' w'"
| receive: "parent_live io ops wr sid w0
      (case active of ActiveEnumeration \<Rightarrow> KindEnumerating | ActiveStream \<Rightarrow> KindStreaming) (rc_core x) (rc_world x) \<Longrightarrow>
    length (fb_bytes (sb_receive (rc_buffers x))) = unat MAXIMUM_FRAME_PAYLOAD_BYTES \<Longrightarrow>
    receive_one io ops (if given then Some wr else None) active x = (Ok (r, phase), x') \<Longrightarrow>
    parent_live io ops wr sid w0 phase (rc_core x') (rc_world x')"
| drain: "parent_live io ops wr sid w0 KindCancelling (rc_core x) (rc_world x) \<Longrightarrow>
    length (fb_bytes (sb_receive (rc_buffers x))) = unat MAXIMUM_FRAME_PAYLOAD_BYTES \<Longrightarrow>
    receive_cancelling io ops (if given then Some wr else None) was_stream x = (Ok (r, phase), x') \<Longrightarrow>
    parent_live io ops wr sid w0 phase (rc_core x') (rc_world x')"

definition live_inv :: "u64 \<Rightarrow> SessionPhaseKind \<Rightarrow> SessionCore \<Rightarrow> transfers \<Rightarrow> bool" where
  "live_inv sid phase core log \<longleftrightarrow> fc_session_id (core_channel core) = sid \<and>
     conversing sid log (core_results core) \<and> chan_ready (core_channel core) \<and>
     phase_matches phase (core_active_request_id core) (sv_view (rs_protocol (core_results core)))"

text \<open>The phases follow the exchanges.\<close>

lemma idle_requests:
  assumes "phase_matches KindIdle a v"
  shows "exchange v (ParentToWorker, Enumerate, rid) v' \<Longrightarrow> phase_matches KindEnumerating rid v'"
    and "exchange v (ParentToWorker, StreamEntry, rid) v' \<Longrightarrow> phase_matches KindStreaming rid v'"
  using assms by (cases v; auto simp: exchange_simps kind_iffs)+

lemma shutdown_closes:
  "phase_matches KindIdle a v \<or> phase_matches KindCancelled a v \<Longrightarrow>
     exchange v (ParentToWorker, Shutdown, rid) v' \<Longrightarrow> phase_matches KindClosed 0 v'"
  by (cases v) (auto simp: exchange_simps kind_iffs)

lemma cancel_withdraws:
  "phase_matches KindEnumerating a v \<or> phase_matches KindStreaming a v \<Longrightarrow>
     exchange v (ParentToWorker, Cancel, rid) v' \<Longrightarrow> phase_matches KindCancelling a v'"
  by (cases v) (auto simp: exchange_simps kind_iffs)

lemma request_outcomes:
  assumes "phase_matches (case active of ActiveEnumeration \<Rightarrow> KindEnumerating | ActiveStream \<Rightarrow> KindStreaming) a v"
    and "outcome_exchanges r v v'"
  shows "case r of
      RcvComplete \<Rightarrow> phase_matches KindIdle 0 v'
    | RcvProgress \<Rightarrow> phase_matches (case active of ActiveEnumeration \<Rightarrow> KindEnumerating | ActiveStream \<Rightarrow> KindStreaming) a v'
    | RcvReadReplied \<Rightarrow> phase_matches (case active of ActiveEnumeration \<Rightarrow> KindEnumerating | ActiveStream \<Rightarrow> KindStreaming) a v'
    | _ \<Rightarrow> True"
  using assms by (cases v; cases active; cases r) (auto simp: exchange_simps kind_iffs)

lemma cancelling_outcomes:
  assumes "phase_matches KindCancelling a v" and "outcome_exchanges r v v'"
  shows "case r of
      RcvComplete \<Rightarrow> phase_matches KindIdle 0 v'
    | RcvCancelAck \<Rightarrow> phase_matches KindCancelled 0 v'
    | _ \<Rightarrow> phase_matches KindCancelling a v'"
  using assms by (cases v; cases r) (auto simp: exchange_simps kind_iffs)

lemma parent_advance_Ok:
  "parent_advance io next outcome = (Ok phase, p) \<longleftrightarrow> phase = next \<and> outcome = (Ok (), p)"
  by (auto simp: parent_advance_def split: prod.splits result.splits)

lemma handshake_Ok_exchange:
  assumes "parent_handshake_over_window io address media_size pinned_size src_size limits budgets ((c, w), buf) = (Ok hp, x)"
  shows "\<exists>payload. handshake_exchange io (frame_header_new Hello (fc_session_id c) 0 HELLO_PAYLOAD_LENGTH) payload
      (session_validator_new (fc_session_id c) budgets) ((c, w), buf) = (Ok (hp_protocol hp), x)"
  using assms
  by (auto simp: parent_handshake_over_window_def Let_def split: option.splits if_splits result.splits prod.splits)

lemma create_parser_session_Ok:
  assumes "create_parser_session io ops hp address media_size pinned_size epoch import_limits cw = (Ok core, cw')"
  shows "cw' = cw \<and> core_channel core = fst cw \<and> core_active_request_id core = 0 \<and>
    result_session_new (hp_protocol hp) epoch import_limits = Ok (core_results core)"
proof -
  have same: "broker_with_ops m q l s = (Ok b, t) \<Longrightarrow> t = s" for m q l s b t
    by (auto simp: broker_with_ops_def Let_def split: result.splits if_splits)
  show ?thesis using assms
    by (auto simp: create_parser_session_def Let_def dest!: same split: if_splits result.splits prod.splits)
qed

lemma live_opened:
  assumes io: "exact_transport io"
    and hs: "parent_handshake_over_window (tapped io) address media_size pinned_size src_size limits budgets
      ((frame_channel_new sid, [], w0), buf) = (Ok hp, (c, w), buf')"
    and buf: "length (fb_bytes buf) = unat MAXIMUM_FRAME_PAYLOAD_BYTES"
    and cr: "create_parser_session (tapped io) ops hp address media_size pinned_size epoch import_limits (c, w) =
      (Ok core, c', w')"
  shows "live_inv sid KindIdle core (fst w')"
proof -
  let ?c = "frame_channel_new sid" and ?h = "frame_header_new Hello sid 0 HELLO_PAYLOAD_LENGTH"
  have sid: "fc_session_id ?c = sid" by (simp add: frame_channel_new_def)
  from handshake_Ok_exchange[OF hs] obtain payload where
    ex: "handshake_exchange (tapped io) ?h payload (session_validator_new sid budgets) ((?c, [], w0), buf) =
      (Ok (hp_protocol hp), (c, w), buf')" unfolding sid by blast
  have h: "fh_message_type ?h = Hello" "fh_payload_length ?h = HELLO_PAYLOAD_LENGTH" "fh_session_id ?h = sid"
    by (simp_all add: frame_header_new_def)
  let ?hello = "frame_view_new ?h payload"
  from handshake_exchange_cases[OF tapped_exact[OF io] buf h(1,2) ex] sid obtain ready w1 where
    v: "c = ?c" "sv_inv (hp_protocol hp)" "sv_view (hp_protocol hp) = Resting 0 None" "sv_error (hp_protocol hp) = None"
    and hello: "wf_frame ?hello" "sends (tapped io) ?hello ([], w0) w1"
    and ready: "decode_ready_payload ready = Ok ()" "fh_session_id (fv_header ready) = sid"
      "receives (tapped io) buf w1 ready w buf'" by auto
  note cs = create_parser_session_Ok[OF cr]
  let ?fs = "[(ParentToWorker, ?hello), (WorkerToParent, ready)]"
  have "fst w1 = frame_transfers ParentToWorker ?hello" using tapped_sends[OF hello(2)] by simp
  moreover have "fst w = fst w1 @ frame_transfers WorkerToParent ready"
    using tapped_receives[of io buf "fst w1" "snd w1" ready w buf'] ready(3) by simp
  ultimately have log: "fst w' = conversation_transfers ?fs" using cs by (simp add: conversation_transfers_def)
  have kinds: "fh_message_type (fv_header ?hello) = Hello" "fh_message_type (fv_header ready) = Ready" "wf_frame ready"
    using ready(1) h(1) by (simp_all add: decode_ready_Ok frame_view_new_def)
  have "session_trace (([] @ [(ParentToWorker, Hello, fh_request_id (fv_header ?hello))]) @
      [(WorkerToParent, Ready, fh_request_id (fv_header ready))]) (Resting 0 None)"
    by (rule session_trace.step[OF session_trace.step[OF session_trace.start exchange.hello] exchange.ready])
  then have "session_trace (conversation_labels ?fs) (Resting 0 None)"
    using kinds by (simp add: conversation_labels_def label_of_def)
  moreover have new: "result_session_new (hp_protocol hp) epoch import_limits = Ok (core_results core)" using cs by blast
  then have proto: "rs_protocol (core_results core) = hp_protocol hp"
    by (cases "core_results core") (simp add: result_session_new_def split: if_splits)
  moreover have "rs_inv (core_results core)" "rs_failure (core_results core) = None"
    using result_session_new_inv[OF new v(2)] by blast+
  moreover have "list_all (\<lambda>(d, f). wf_frame f \<and> fh_session_id (fv_header f) = sid) ?fs"
    using hello(1) kinds(3) ready(2) h(3) by (simp add: frame_view_new_def)
  ultimately have "conversing sid (fst w') (core_results core)"
    unfolding conversing_def using v(3) log by (metis (no_types, lifting))
  moreover have "chan_ready ?c" by (simp add: chan_ready_def frame_channel_new_def)
  moreover have "core_channel core = ?c" "core_active_request_id core = 0" using cs v(1) by simp_all
  ultimately show ?thesis using v(3) sid proto by (simp add: live_inv_def)
qed

lemma live_requests:
  assumes live: "live_inv sid KindIdle core log"
  shows "parent_begin_enumeration (tapped io) (core, log, w) = (Ok phase, core', log', w') \<Longrightarrow> live_inv sid phase core' log'"
    and "parent_begin_stream (tapped io) g token (core, log, w) = (Ok phase, core', log', w') \<Longrightarrow> live_inv sid phase core' log'"
proof -
  let ?a = "core_active_request_id core" and ?v = "sv_view (rs_protocol (core_results core))"
  have conv: "conversing (fc_session_id (core_channel core)) log (core_results core)" and ph: "phase_matches KindIdle ?a ?v"
    using live by (simp_all add: live_inv_def)
  show "live_inv sid phase core' log'"
    if "parent_begin_enumeration (tapped io) (core, log, w) = (Ok phase, core', log', w')"
  proof -
    have send: "send_request (tapped io) Enumerate [] 0 begin_enumeration (core, log, w) = (Ok (), core', log', w')"
        "phase = KindEnumerating"
      using that by (simp_all add: parent_begin_enumeration_def parent_advance_Ok)
    from send_request_Ok[OF send(1) conv, of "\<lambda>h. BeginEnumeration (frame_view_new h [])"] live send(2)
    show ?thesis using idle_requests(1)[OF ph] by (auto simp: live_inv_def)
  qed
  show "live_inv sid phase core' log'"
    if "parent_begin_stream (tapped io) g token (core, log, w) = (Ok phase, core', log', w')"
  proof -
    obtain q payload where enc: "encode_stream_entry_payload \<lparr>se_source_token = token\<rparr>
        (replicate STREAM_ENTRY_PAYLOAD_BYTES 0) = (q, payload)" by fastforce
    have send: "send_request (tapped io) StreamEntry payload STREAM_ENTRY_PAYLOAD_LENGTH
        (\<lambda>frame. begin_stream_entry frame g) (core, log, w) = (Ok (), core', log', w')" "phase = KindStreaming"
      using that enc by (cases q; simp add: parent_begin_stream_def parent_advance_Ok)+
    from send_request_Ok[OF send(1) conv, of "\<lambda>h. BeginStreamEntry (frame_view_new h payload) g"] live send(2)
    show ?thesis using idle_requests(2)[OF ph] by (auto simp: live_inv_def)
  qed
qed

lemma live_sends:
  assumes live: "live_inv sid phase core log"
  shows "shutdown_session (tapped io) (core, log, w) = (Ok phase', core', log', w') \<Longrightarrow>
      phase = KindIdle \<or> phase = KindCancelled \<Longrightarrow> live_inv sid phase' core' log'"
    and "request_cancel (tapped io) (core, log, w) = (Ok phase', core', log', w') \<Longrightarrow>
      phase = KindEnumerating \<or> phase = KindStreaming \<Longrightarrow> live_inv sid phase' core' log'"
proof -
  let ?a = "core_active_request_id core" and ?v = "sv_view (rs_protocol (core_results core))"
  have conv: "conversing (fc_session_id (core_channel core)) log (core_results core)" and ph: "phase_matches phase ?a ?v"
    using live by (simp_all add: live_inv_def)
  show "live_inv sid phase' core' log'"
    if sd: "shutdown_session (tapped io) (core, log, w) = (Ok phase', core', log', w')" "phase = KindIdle \<or> phase = KindCancelled"
  proof -
    let ?h = "request_header Shutdown 0 0 core"
    obtain core1 where send: "send_transaction (tapped io) ?h [] accept_shutdown (core, log, w) = (Ok (), core1, log', w')"
        "core' = core1\<lparr>core_active_request_id := 0\<rparr>" "phase' = KindClosed"
      using sd(1) by (auto simp: shutdown_session_def parent_advance_Ok split: prod.splits)
    from send_transaction_Ok[OF send(1) conv, of "AcceptShutdown (frame_view_new ?h [])"] live send(2,3)
    show ?thesis using shutdown_closes[of ?a ?v] ph sd(2)
      by (auto simp: live_inv_def request_header_def frame_header_new_def)
  qed
  show "live_inv sid phase' core' log'"
    if rc: "request_cancel (tapped io) (core, log, w) = (Ok phase', core', log', w')" "phase = KindEnumerating \<or> phase = KindStreaming"
  proof -
    let ?h = "request_header Cancel ?a 0 core"
    have send: "send_transaction (tapped io) ?h [] accept_cancel (core, log, w) = (Ok (), core', log', w')" "phase' = KindCancelling"
      using rc(1) by (simp_all add: request_cancel_def parent_advance_Ok)
    from send_transaction_Ok[OF send(1) conv, of "AcceptCancel (frame_view_new ?h [])"] live send(2)
    show ?thesis using cancel_withdraws[of ?a ?v] ph rc(2)
      by (auto simp: live_inv_def request_header_def frame_header_new_def)
  qed
qed

lemma live_receives:
  assumes io: "exact_transport io"
    and buf: "length (fb_bytes (sb_receive (rc_buffers x))) = unat MAXIMUM_FRAME_PAYLOAD_BYTES"
    and live: "live_inv sid phase (rc_core x) (fst (rc_world x))"
  shows "receive_one (tapped io) (beside ops) sink active x = (Ok (r, phase'), x') \<Longrightarrow>
      phase = (case active of ActiveEnumeration \<Rightarrow> KindEnumerating | ActiveStream \<Rightarrow> KindStreaming) \<Longrightarrow>
      live_inv sid phase' (rc_core x') (fst (rc_world x'))"
    and "receive_cancelling (tapped io) (beside ops) sink was_stream x = (Ok (r, phase'), x') \<Longrightarrow>
      phase = KindCancelling \<Longrightarrow> live_inv sid phase' (rc_core x') (fst (rc_world x'))"
proof -
  have conv: "rc_conversing (rc_core x) x" and ph: "phase_matches phase (core_active_request_id (rc_core x)) (rc_view x)"
    using live by (simp_all add: live_inv_def rc_conversing_def)
  have inner: "rc_conversing (rc_core x) y \<and> outcome_exchanges q (rc_view x) (rc_view y)"
    if "receive_one_inner (tapped io) (beside ops) sink a x = (Ok q, y)" for a q y
    using receive_one_inner_step[OF io buf that conv] .
  show "live_inv sid phase' (rc_core x') (fst (rc_world x'))"
    if rx: "receive_one (tapped io) (beside ops) sink active x = (Ok (r, phase'), x')"
      "phase = (case active of ActiveEnumeration \<Rightarrow> KindEnumerating | ActiveStream \<Rightarrow> KindStreaming)"
  proof -
    from rx(1) obtain q y where q: "receive_one_inner (tapped io) (beside ops) sink active x = (Ok q, y)"
      by (auto simp: receive_one_def Let_def split: prod.splits result.splits)
    from inner[OF q] request_outcomes[OF ph[unfolded rx(2)], of q "rc_view y"] rx q live
    show ?thesis
      by (cases q) (auto simp: receive_one_def Let_def rc_conversing_def live_inv_def rc_finish_def)
  qed
  show "live_inv sid phase' (rc_core x') (fst (rc_world x'))"
    if rx: "receive_cancelling (tapped io) (beside ops) sink was_stream x = (Ok (r, phase'), x')" "phase = KindCancelling"
  proof -
    from rx(1) obtain q y where q: "receive_one_inner (tapped io) (beside ops) sink
        (if was_stream then ActiveStream else ActiveEnumeration) x = (Ok q, y)"
      by (auto simp: receive_cancelling_def split: prod.splits result.splits)
    from inner[OF q] cancelling_outcomes[OF ph[unfolded rx(2)], of q "rc_view y"] rx q live
    show ?thesis
      by (cases q) (auto simp: receive_cancelling_def rc_conversing_def live_inv_def rc_finish_def)
  qed
qed

lemma parent_live_inv:
  assumes io: "exact_transport io"
  shows "parent_live (tapped io) (beside ops) wr sid ([], w0) phase core x \<Longrightarrow> live_inv sid phase core (fst x)"
proof (induction phase core x rule: parent_live.induct)
  case (opened address media_size pinned_size src_size limits budgets buf hp c w buf' epoch import_limits core c' w')
  then show ?case using live_opened[OF io] by blast
next
  case (enumerate core w phase core' w')
  then show ?case using live_requests(1)[of sid core "fst w" io "snd w" phase core' "fst w'" "snd w'"] by simp
next
  case (stream core w g token phase core' w')
  then show ?case using live_requests(2)[of sid core "fst w" io g token "snd w" phase core' "fst w'" "snd w'"] by simp
next
  case (shutdown phase core w phase' core' w')
  then show ?case using live_sends(1)[of sid phase core "fst w" io "snd w" phase' core' "fst w'" "snd w'"] by simp
next
  case (cancel phase core w phase' core' w')
  then show ?case using live_sends(2)[of sid phase core "fst w" io "snd w" phase' core' "fst w'" "snd w'"] by simp
next
  case (receive active x given r phase x')
  then show ?case using live_receives(1)[OF io] by blast
next
  case (drain x given was_stream r phase x')
  then show ?case using live_receives(2)[OF io] by blast
qed

text \<open>
  C40: the parent never leaves the protocol.  In every state a session can reach without having
  failed, whatever the worker answered, the transfers that crossed the transport are exactly the
  canonical headers and payloads of a sequence of well-formed frames of this session, in order, and
  those frames are a conversation of the protocol specification.  The phase the typestate is in and
  the active request id are those of the conversation's end: in particular no source read is left
  unanswered between two calls, and the result session and the channel are live.
\<close>

theorem parent_conversation_admitted:
  assumes "exact_transport io" and "parent_live (tapped io) (beside ops) wr sid ([], w0) phase core (log, w)"
  shows "\<exists>fs v. log = conversation_transfers fs \<and> session_trace (conversation_labels fs) v \<and>
    list_all (\<lambda>(d, f). wf_frame f \<and> fh_session_id (fv_header f) = sid) fs \<and>
    sv_view (rs_protocol (core_results core)) = v \<and> phase_matches phase (core_active_request_id core) v \<and>
    rs_failure (core_results core) = None \<and> \<not> channel_is_terminal (core_channel core)"
  using parent_live_inv[OF assms]
  by (auto simp: live_inv_def conversing_def chan_ready_def channel_is_terminal_def)

definition demo_wide_ops :: "'w SourceOps" where
  "demo_wide_ops = window_ops \<lparr>win_base_offset = 0, win_length = 100\<rparr> (\<lambda>w. (Ok (), w)) (\<lambda>offset dst w. (Ok (), dst, w))"

lemma demo_live:
  "\<exists>core log w. parent_live (tapped pipe_io) (beside demo_wide_ops) demo_sink 7
     ([], frame_wire (frame_view_new demo_ready []), []) KindIdle core (log, w)"
proof -
  let ?w0 = "([], frame_wire (frame_view_new demo_ready []), []) :: transfers \<times> bytes \<times> bytes"
  let ?w1 = "(frame_transfers ParentToWorker demo_hello, frame_wire (frame_view_new demo_ready []), frame_wire demo_hello)"
  let ?w2 = "(frame_transfers ParentToWorker demo_hello @ frame_transfers WorkerToParent (frame_view_new demo_ready []),
      [], frame_wire demo_hello)"
  let ?c = "frame_channel_new 7"
  have buf: "length (fb_bytes frame_buffer_new) = unat MAXIMUM_FRAME_PAYLOAD_BYTES" by (simp add: frame_buffer_new_def)
  have "channel_send (tapped pipe_io) (frame_header_new Hello 7 0 12)
     (hello_wire \<lparr>hello_source_size = 100, hello_maximum_read_bytes = MAXIMUM_READ_BYTES\<rparr>) (?c, ?w0) = (Ok (), ?c, ?w1)"
    unfolding channel_send_Ok
    by (simp add: frame_channel_new_def wf_frame_def frame_view_new_def frame_header_new_def frame_header_validate_def
        sends_def tapped_def pipe_io_def header_bytes_def frame_wire_def demo_hello_def hello_wire_def
        frame_transfers_def owp_consts)
  moreover have "channel_receive (tapped pipe_io) ((?c, ?w1), frame_buffer_new) =
     (Ok (frame_view_new demo_ready []), (?c, ?w2), frame_buffer_new)"
    unfolding exact_transport.receive_Ok[OF tapped_exact[OF pipe_exact] buf]
    using demo_ready_wf
    by (simp add: frame_channel_new_def frame_buffer_new_def receives_def tapped_def pipe_io_def frame_view_new_def
        frame_wire_def header_bytes_def frame_transfers_def FRAME_HEADER_BYTES_def)
  ultimately have hs: "parent_handshake_over_window (tapped pipe_io) 0 100 100 100 source_read_limits_default
      protocol_budgets_default ((?c, ?w0), frame_buffer_new) = (Ok demo_proof, (?c, ?w2), frame_buffer_new)"
    by (rule demo_handshake_over)
  have "\<exists>core. create_parser_session (tapped pipe_io) (beside demo_wide_ops) demo_proof 0 100 100 5 import_limits_default
      (?c, ?w2) = (Ok core, ?c, ?w2)"
    using demo_handshake_observed
    by (simp add: create_parser_session_def demo_proof_def matches_channel_def channel_is_terminal_def
        frame_channel_new_def beside_def demo_wide_ops_def window_ops_def source_read_limits_default_def
        result_session_new_def broker_with_ops_def source_read_policy_new_def rs_is_terminal_def Let_def owp_consts)
  then show ?thesis using parent_live.opened[OF hs buf] by blast
qed

theorem parent_conversation_admitted_witness:
  "\<exists>core log w fs v. parent_live (tapped pipe_io) (beside demo_wide_ops) demo_sink 7
       ([], frame_wire (frame_view_new demo_ready []), []) KindIdle core (log, w) \<and>
     log = conversation_transfers fs \<and> session_trace (conversation_labels fs) v \<and>
     phase_matches KindIdle (core_active_request_id core) v"
proof -
  from demo_live obtain core log w where live: "parent_live (tapped pipe_io) (beside demo_wide_ops) demo_sink 7
       ([], frame_wire (frame_view_new demo_ready []), []) KindIdle core (log, w)" by blast
  from parent_conversation_admitted[OF pipe_exact live] live show ?thesis by blast
qed

end
