(* ===== verification/Parent_Session_Errors.thy ===== *)
theory Parent_Session_Errors
  imports Parent_Session_Correct
begin

text \<open>
  The error paths of the parent session: a method that fails retires the session and poisons the
  channel, and a retired session refuses everything without touching the transport, the source or the
  byte sink.
\<close>

definition retired :: "SessionCore \<Rightarrow> bool" where
  "retired core \<longleftrightarrow> rs_is_terminal (core_results core) \<and> channel_is_terminal (core_channel core)"

definition same_results :: "SessionCore \<Rightarrow> SessionCore \<Rightarrow> bool" where
  "same_results a b \<longleftrightarrow> core_results a = core_results b \<and> core_channel a = core_channel b"

fun err_of :: "('e, 'a) result \<Rightarrow> 'e option" where
  "err_of (Err e) = Some e"
| "err_of (Ok v) = None"

lemma err_of_Some [simp]: "err_of r = Some e \<longleftrightarrow> r = Err e" "Some e = err_of r \<longleftrightarrow> r = Err e"
  by (cases r; auto)+

text \<open>Every method of the session, with the failure it returned if it did; the triple is core, sink and world.\<close>

inductive parent_call ::
  "'w ExactIo \<Rightarrow> 'w SourceOps \<Rightarrow> (bytes \<Rightarrow> 'k \<Rightarrow> bool \<times> 'k) option \<Rightarrow>
     SessionCore \<times> 'k \<times> 'w \<Rightarrow> SessionError option \<Rightarrow> SessionCore \<times> 'k \<times> 'w \<Rightarrow> bool"
  for io ops sink where
  enumeration: "parent_begin_enumeration io (core, w) = (r, core', w') \<Longrightarrow>
    parent_call io ops sink (core, k, w) (err_of r) (core', k, w')"
| streaming: "parent_begin_stream io generation token (core, w) = (r, core', w') \<Longrightarrow>
    parent_call io ops sink (core, k, w) (err_of r) (core', k, w')"
| shutdown: "shutdown_session io (core, w) = (r, core', w') \<Longrightarrow>
    parent_call io ops sink (core, k, w) (err_of r) (core', k, w')"
| cancel: "request_cancel io (core, w) = (r, core', w') \<Longrightarrow>
    parent_call io ops sink (core, k, w) (err_of r) (core', k, w')"
| receiving: "receive_one io ops sink active x = (q, x') \<Longrightarrow>
    parent_call io ops sink (rc_core x, rc_sink x, rc_world x) (err_of q) (rc_core x', rc_sink x', rc_world x')"
| draining: "receive_cancelling io ops sink was_stream x = (q, x') \<Longrightarrow>
    parent_call io ops sink (rc_core x, rc_sink x, rc_world x) (err_of q) (rc_core x', rc_sink x', rc_world x')"
| notified: "notify_worker_failed io (core, w) = (e, core', w') \<Longrightarrow>
    parent_call io ops sink (core, k, w) (Some e) (core', k, w')"
| invalidated: "parent_invalidate_source io (core, w) = (e, core', w') \<Longrightarrow>
    parent_call io ops sink (core, k, w) (Some e) (core', k, w')"

lemma core_abort_channel: "channel_is_terminal (core_channel (fst (core_abort io p)))"
  using channel_abort_terminal[of io "(core_channel (fst p), snd p)"]
  by (cases p) (auto simp: core_abort_def split: prod.splits)

lemma core_abort_results: "core_results (fst (core_abort io p)) = core_results (fst p)"
  by (cases p) (auto simp: core_abort_def split: prod.splits)

lemma rs_retire_terminal: "rs_is_terminal (rs_retire e s)"
  by (auto simp: rs_is_terminal_def rs_retire_def rs_retire_all_def split: option.split)

lemma core_retire_retired: "retired (fst (core_retire io p))"
  by (cases p)
    (simp add: retired_def core_retire_def core_abort_channel core_abort_results worker_failed_def rs_retire_terminal)

lemma invalidate_retired: "retired (fst (snd (parent_invalidate_source io p)))"
  by (cases p)
    (simp add: retired_def parent_invalidate_source_def core_abort_channel core_abort_results invalidate_source_def
      rs_retire_terminal)

lemma advance_Err: "parent_advance io next outcome = (Err e, core, w) \<Longrightarrow> retired core"
  using core_retire_retired[of io "snd outcome"]
  by (cases outcome; cases "fst outcome") (auto simp: parent_advance_def)

lemma rc_retire_retired: "retired (rc_core (rc_retire io x))"
  using core_retire_retired[of io "(rc_core x, rc_world x)"] by (auto simp: rc_retire_def split: prod.splits)

lemma parent_call_Err:
  assumes "parent_call io ops sink x (Some e) y"
  shows "retired (fst y)"
  using assms
proof cases
  case streaming
  then show ?thesis
    by (auto simp: parent_begin_stream_def dest: advance_Err split: prod.splits result.splits)
next
  case receiving
  then show ?thesis using rc_retire_retired
    by (auto simp: receive_one_def Let_def split: prod.splits result.splits Received.splits)
next
  case draining
  then show ?thesis using rc_retire_retired
    by (auto simp: receive_cancelling_def Let_def split: prod.splits result.splits Received.splits)
next
  case notified
  then show ?thesis by (simp add: notify_worker_failed_def) (metis core_retire_retired fst_conv)
next
  case invalidated
  then show ?thesis using invalidate_retired by (metis fst_conv snd_conv)
qed (auto simp: parent_begin_enumeration_def shutdown_session_def request_cancel_def dest: advance_Err split: prod.splits)


section \<open>A retired session is inert\<close>

lemma terminal_channel_inert:
  assumes "channel_is_terminal c"
  shows "channel_abort io (c, w) = (c, w)"
    and "\<exists>e. channel_send io h payload (c, w) = (Err e, c, w)"
    and "\<exists>e. channel_receive io ((c, w), buf) = (Err e, (c, w), buf)"
  using assms
  by (auto simp: channel_is_terminal_def channel_abort_def channel_poison_def poison_state_def channel_send_def
      channel_receive_def chan_begin_def split: option.splits)

lemma rs_retire_again: "rs_is_terminal s \<Longrightarrow> rs_retire e s = s"
  by (auto simp: rs_is_terminal_def rs_retire_def)

lemma core_retire_again: "retired core \<Longrightarrow> core_retire io (core, w) = (core, w)"
  by (simp add: retired_def core_retire_def core_abort_def worker_failed_def rs_retire_again terminal_channel_inert)

lemma retired_cong: "same_results a b \<Longrightarrow> retired a \<longleftrightarrow> retired b"
  by (simp add: retired_def same_results_def)

lemma retired_send_transaction:
  assumes "retired core" and "\<forall>f. guarded (observe_with f)"
  shows "\<exists>e. send_transaction io h payload observe_with (core, w) = (Err e, core, w)"
proof -
  from assms(1) obtain e where "rs_failure (core_results core) = Some e"
    by (auto simp: retired_def rs_is_terminal_def)
  then have "observe_with f (core_results core) = (Err e, core_results core)" for f
    using assms(2) by (simp add: guarded_def)
  then show ?thesis by (simp add: send_transaction_def)
qed

lemma retired_send_request:
  assumes "retired core" and "\<forall>f. guarded (observe_with f)"
  shows "\<exists>e core'. send_request io kind payload len observe_with (core, w) = (Err e, core', w) \<and> same_results core core'"
proof -
  obtain r core1 where id: "allocate_request_id core = (r, core1)" by fastforce
  then have same: "same_results core core1"
    by (auto simp: allocate_request_id_def same_results_def Let_def split: if_splits)
  have "\<exists>e. send_transaction io (request_header kind q len core1) payload observe_with (core1, w) = (Err e, core1, w)"
    for q using retired_send_transaction[of core1 observe_with io _ payload w] assms retired_cong[OF same] by blast
  then obtain d where d: "send_transaction io (request_header kind (case r of Ok q \<Rightarrow> q | Err _ \<Rightarrow> 0) len core1) payload
      observe_with (core1, w) = (Err d, core1, w)" by blast
  then show ?thesis using id same by (cases r) (simp_all add: send_request_def)
qed

lemma retired_advance:
  assumes "retired core"
  shows "parent_advance io next (Err e, core, w) = (Err e, core, w)"
  using core_retire_again[OF assms] by (simp add: parent_advance_def)

text \<open>What a call on a retired session amounts to.\<close>

definition refused :: "SessionCore \<times> 'k \<times> 'w \<Rightarrow> SessionError option \<Rightarrow> SessionCore \<times> 'k \<times> 'w \<Rightarrow> bool" where
  "refused x r y \<longleftrightarrow> r \<noteq> None \<and> same_results (fst x) (fst y) \<and> snd y = snd x"

lemma refused_request:
  assumes dead: "retired core" and "\<forall>f. guarded (observe_with f)"
    and run: "parent_advance io next (send_request io kind payload len observe_with (core, w)) = (r, core', w')"
  shows "refused (core, k, w) (err_of r) (core', k, w')"
proof -
  obtain e core1 where sent: "send_request io kind payload len observe_with (core, w) = (Err e, core1, w)"
    and same: "same_results core core1"
    using retired_send_request[OF assms(1,2), of io kind payload len w] by blast
  then have "retired core1" using dead retired_cong by blast
  then show ?thesis using run sent same retired_advance[of core1 io "next" e w] by (auto simp: refused_def)
qed

lemma refused_shutdown:
  assumes dead: "retired core" and run: "shutdown_session io (core, w) = (r, core', w')"
  shows "refused (core, k, w) (err_of r) (core', k, w')"
proof -
  obtain e where sent:
    "send_transaction io (request_header Shutdown 0 0 core) [] accept_shutdown (core, w) = (Err e, core, w)"
    using retired_send_transaction[OF dead, of accept_shutdown io _ "[]" w] guarded_accept_shutdown by blast
  let ?core = "core\<lparr>core_active_request_id := 0\<rparr>"
  have same: "same_results core ?core" by (simp add: same_results_def)
  then have "retired ?core" using dead retired_cong by blast
  then show ?thesis using run sent same retired_advance[of ?core io KindClosed e w]
    by (auto simp: refused_def shutdown_session_def)
qed

lemma refused_cancel:
  assumes dead: "retired core" and run: "request_cancel io (core, w) = (r, core', w')"
  shows "refused (core, k, w) (err_of r) (core', k, w')"
proof -
  obtain e where sent: "send_transaction io (request_header Cancel (core_active_request_id core) 0 core) []
      accept_cancel (core, w) = (Err e, core, w)"
    using retired_send_transaction[OF dead, of accept_cancel io _ "[]" w] guarded_accept_cancel by blast
  then show ?thesis using run retired_advance[OF dead, of io KindCancelling e w]
    by (auto simp: refused_def request_cancel_def same_results_def)
qed

lemma retired_receive_inner:
  assumes "retired (rc_core x)"
  shows "\<exists>e x'. receive_one_inner io ops sink active x = (Err e, x') \<and> rc_retire io x' = x' \<and>
    rc_core x' = rc_core x \<and> rc_sink x' = rc_sink x \<and> rc_world x' = rc_world x"
proof -
  have c: "channel_is_terminal (core_channel (rc_core x))" using assms by (simp add: retired_def)
  have again: "rc_retire io z = z" if "retired (rc_core z)" for z
    using core_retire_again[OF that, of io "rc_world z"] by (simp add: rc_retire_def)
  obtain e where "channel_receive io ((core_channel (rc_core x), rc_world x), sb_receive (rc_buffers x)) =
      (Err e, (core_channel (rc_core x), rc_world x), sb_receive (rc_buffers x))"
    using terminal_channel_inert(3)[OF c, of io "rc_world x" "sb_receive (rc_buffers x)"] by blast
  then show ?thesis using assms again by (simp add: receive_one_inner_def Let_def)
qed

lemma parent_call_retired:
  assumes "parent_call io ops sink x r y" and "retired (fst x)"
  shows "refused x r y"
  using assms(1)
proof cases
  case (enumeration core w q core' w' k)
  then show ?thesis
    using assms(2) refused_request[of core begin_enumeration io KindEnumerating Enumerate "[]" 0 w q core' w' k]
      guarded_begin_enumeration
    by (simp add: parent_begin_enumeration_def)
next
  case (streaming generation token core w q core' w' k)
  let ?observed = "\<lambda>frame. begin_stream_entry frame generation"
  obtain v payload where enc: "encode_stream_entry_payload \<lparr>se_source_token = token\<rparr>
      (replicate STREAM_ENTRY_PAYLOAD_BYTES 0) = (v, payload)" by fastforce
  show ?thesis
  proof (cases v)
    case (Ok u)
    then show ?thesis
      using assms(2) streaming enc guarded_begin_stream_entry
        refused_request[of core ?observed io KindStreaming StreamEntry payload STREAM_ENTRY_PAYLOAD_LENGTH w q core' w' k]
      by (simp add: parent_begin_stream_def)
  next
    case (Err d)
    then show ?thesis using assms(2) streaming enc retired_advance[of core io KindStreaming "PsProtocol d" w]
      by (auto simp: parent_begin_stream_def refused_def same_results_def)
  qed
next
  case shutdown
  then show ?thesis using assms(2) refused_shutdown by simp
next
  case cancel
  then show ?thesis using assms(2) refused_cancel by simp
next
  case (receiving active z q z')
  then show ?thesis using assms(2) retired_receive_inner[of z io ops sink active]
    by (auto simp: receive_one_def refused_def same_results_def)
next
  case (draining was_stream z q z')
  then show ?thesis using assms(2)
      retired_receive_inner[of z io ops sink "if was_stream then ActiveStream else ActiveEnumeration"]
    by (auto simp: receive_cancelling_def refused_def same_results_def)
next
  case (notified core w e core' w' k)
  then show ?thesis using assms(2) core_retire_again[of core io w]
    by (auto simp: notify_worker_failed_def refused_def same_results_def)
next
  case invalidated
  then show ?thesis using assms(2)
    by (auto simp: parent_invalidate_source_def refused_def same_results_def core_abort_def retired_def
        invalidate_source_def rs_retire_again terminal_channel_inert)
qed

text \<open>
  C3: the parent session fails closed and stays closed.  Whichever method returns an error, the result
  session has failed and published no catalog, and the shared channel is terminal; from then on every
  method on that core fails again and leaves the result session, the channel, the transport, the source
  and the byte sink exactly as they were.
\<close>

theorem parent_fails_closed:
  assumes "parent_call io ops sink x (Some e) y" and "parent_call io ops sink (fst y, k, w) r z"
  shows "rs_is_terminal (core_results (fst y)) \<and> rs_catalog_view (core_results (fst y)) = None \<and>
    channel_is_terminal (core_channel (fst y)) \<and> r \<noteq> None \<and> snd z = (k, w) \<and>
    core_results (fst z) = core_results (fst y) \<and> core_channel (fst z) = core_channel (fst y)"
proof -
  have dead: "retired (fst y)" by (rule parent_call_Err[OF assms(1)])
  then have "refused (fst y, k, w) r z" using parent_call_retired[OF assms(2)] by simp
  then show ?thesis using dead by (auto simp: retired_def refused_def same_results_def rs_catalog_view_def)
qed

theorem parent_fails_closed_witness:
  "\<exists>core w y e z. parent_live (tapped pipe_io) (beside demo_wide_ops) demo_sink 7
       ([], frame_wire (frame_view_new demo_ready []), []) KindIdle core w \<and>
     parent_call (tapped pipe_io) (beside demo_wide_ops) (Some demo_sink) (core, [], w) (Some PsWorkerFailure) y \<and>
     parent_call (tapped pipe_io) (beside demo_wide_ops) (Some demo_sink) (fst y, [], w) (Some e) z \<and>
     rs_is_terminal (core_results (fst y)) \<and> channel_is_terminal (core_channel (fst y)) \<and> snd z = ([], w)"
proof -
  let ?call = "parent_call (tapped pipe_io) (beside demo_wide_ops) (Some demo_sink)"
  from demo_live obtain core log w where live: "parent_live (tapped pipe_io) (beside demo_wide_ops) demo_sink 7
       ([], frame_wire (frame_view_new demo_ready []), []) KindIdle core (log, w)" by blast
  obtain core' w' where gone: "notify_worker_failed (tapped pipe_io) (core, log, w) = (PsWorkerFailure, core', w')"
    by (cases "core_retire (tapped pipe_io) (core, log, w)") (simp add: notify_worker_failed_def)
  obtain y where fail: "?call (core, [], log, w) (Some PsWorkerFailure) y"
    using parent_call.notified[OF gone, of "beside demo_wide_ops" "Some demo_sink" "[]"] by blast
  obtain q z where again: "?call (fst y, [], log, w) q z"
    using parent_call.enumeration[of "tapped pipe_io" "fst y" "(log, w)" _ _ _ "beside demo_wide_ops" "Some demo_sink" "[]"]
    by (metis prod.collapse)
  from parent_fails_closed[OF fail again] live fail again show ?thesis by blast
qed

end
