(* ===== verification/Worker_Process.thy ===== *)
theory Worker_Process
  imports Parent_Session_Correct
begin

text \<open>
  \<open>platform.rs\<close> and \<open>process_session.rs\<close> of crate \<open>ohl-import\<close>: the transport over a confined worker,
  the allocation of session identities, and the owner of the worker's process, which opens one session
  and then reaps the worker exactly once.  The native worker is the operating-system layer and a
  parameter, a record of functions on its state.
\<close>


section \<open>The native worker behind the capabilities\<close>

datatype IsolatedWorkerError =
    IwInvalidArgument | IwInvalidState | IwUnsupported | IwServiceUnavailable | IwServiceIdentityMismatch
  | IwConfinementUnavailable | IwChannelCreationFailed | IwProcessCreationFailed | IwBootstrapFailed
  | IwResourceExhausted | IwTransferTooLarge | IwTimeout | IwCancelled | IwPeerClosed | IwIoFailure
  | IwTerminationFailed | IwReapFailed

datatype IsolatedWorkerExitKind =
    ExitRunning | ExitClean | ExitFailed | ExitCrashed | ExitResourceLimit | ExitTerminated | ExitUnknown

datatype WorkerExit = Exited int | WorkerTerminated

type_synonym WaitOutcome = "(IoError, WorkerExit) result"

fun map_io_error :: "IsolatedWorkerError \<Rightarrow> IoError" where
  "map_io_error IwTimeout = TimedOut"
| "map_io_error IwCancelled = TransportCancelled"
| "map_io_error IwPeerClosed = PeerClosed"
| "map_io_error IwInvalidState = TransportAborted"
| "map_io_error _ = IoFailure"

fun map_exit :: "IsolatedWorkerExitKind \<Rightarrow> WaitOutcome" where
  "map_exit ExitClean = Ok (Exited 0)"
| "map_exit ExitFailed = Ok (Exited 1)"
| "map_exit ExitCrashed = Ok WorkerTerminated"
| "map_exit ExitResourceLimit = Ok WorkerTerminated"
| "map_exit ExitTerminated = Ok WorkerTerminated"
| "map_exit _ = Err IoFailure"

text \<open>
  The native calls.  A read returns the bytes it left at the front of the destination; the last two
  fields are what the caller's cancellation token and the mutex show at that moment.
\<close>

record 'n NativeWorker =
  nw_read_exact :: "nat \<Rightarrow> 'n \<Rightarrow> (IsolatedWorkerError, unit) result \<times> bytes \<times> 'n"
  nw_write_all :: "bytes \<Rightarrow> 'n \<Rightarrow> (IsolatedWorkerError, unit) result \<times> 'n"
  nw_abort_io :: "'n \<Rightarrow> 'n"
  nw_request_cancellation :: "'n \<Rightarrow> 'n"
  nw_close_channel :: "'n \<Rightarrow> 'n"
  nw_wait :: "'n \<Rightarrow> (IsolatedWorkerError, IsolatedWorkerExitKind) result \<times> 'n"
  nw_terminate_and_wait :: "'n \<Rightarrow> (IsolatedWorkerError, IsolatedWorkerExitKind) result \<times> 'n"
  nw_caller_cancelled :: "'n \<Rightarrow> bool"
  nw_contended :: "'n \<Rightarrow> bool"

record 'n WorkerHandle =
  wh_worker :: 'n
  wh_aborted :: bool
  wh_abort_pending :: bool

definition handle_lock :: "'n NativeWorker \<Rightarrow> 'n WorkerHandle \<Rightarrow> 'n WorkerHandle" where
  "handle_lock native h =
     (if wh_abort_pending h
      then h\<lparr>wh_abort_pending := False, wh_worker := nw_abort_io native (wh_worker h)\<rparr>
      else h)"

definition handle_abort :: "'n NativeWorker \<Rightarrow> 'n WorkerHandle \<Rightarrow> 'n WorkerHandle" where
  "handle_abort native h =
     (let h = h\<lparr>wh_aborted := True, wh_worker := nw_request_cancellation native (wh_worker h)\<rparr> in
      if nw_contended native (wh_worker h) then h\<lparr>wh_abort_pending := True\<rparr>
      else h\<lparr>wh_worker := nw_abort_io native (wh_worker h)\<rparr>)"

definition handle_gate :: "'n NativeWorker \<Rightarrow> 'n WorkerHandle \<Rightarrow> (IoError, unit) result" where
  "handle_gate native h =
     (if wh_aborted h then Err TransportAborted
      else if nw_caller_cancelled native (wh_worker h) then Err TransportCancelled
      else Ok ())"

definition worker_channel :: "'n NativeWorker \<Rightarrow> 'n WorkerHandle ExactIo" where
  "worker_channel native =
     \<lparr>io_read_exact = (\<lambda>destination h.
        case handle_gate native h of
          Err e \<Rightarrow> (Err e, destination, h)
        | Ok _ \<Rightarrow>
            let h = handle_lock native h in
            (case nw_read_exact native (length destination) (wh_worker h) of
               (r, part, n) \<Rightarrow>
                 (case r of Ok _ \<Rightarrow> Ok (length destination) | Err e \<Rightarrow> Err (map_io_error e),
                  copy_at 0 (take (length destination) part) destination, h\<lparr>wh_worker := n\<rparr>))),
      io_write_all = (\<lambda>source h.
        case handle_gate native h of
          Err e \<Rightarrow> (Err e, h)
        | Ok _ \<Rightarrow>
            let h = handle_lock native h in
            (case nw_write_all native source (wh_worker h) of
               (r, n) \<Rightarrow>
                 (case r of Ok _ \<Rightarrow> Ok (length source) | Err e \<Rightarrow> Err (map_io_error e), h\<lparr>wh_worker := n\<rparr>))),
      io_abort_io = handle_abort native\<rparr>"

text \<open>The adapter fulfils what the channel relies on.\<close>

interpretation worker_transport: exact_transport "worker_channel native" for native :: "'n NativeWorker"
  by unfold_locales
    (auto simp: worker_channel_def Let_def length_copy_at split: result.splits prod.splits)

record 'w WorkerProcess =
  wp_io :: "'w ExactIo"
  wp_close_channel :: "'w \<Rightarrow> 'w"
  wp_wait :: "'w \<Rightarrow> WaitOutcome \<times> 'w"
  wp_terminate_and_wait :: "'w \<Rightarrow> WaitOutcome \<times> 'w"

definition wait_outcome :: "(IsolatedWorkerError, IsolatedWorkerExitKind) result \<Rightarrow> WaitOutcome" where
  "wait_outcome r = (case r of Ok kind \<Rightarrow> map_exit kind | Err e \<Rightarrow> Err (map_io_error e))"

definition parser_worker_process :: "'n NativeWorker \<Rightarrow> 'n WorkerHandle WorkerProcess" where
  "parser_worker_process native =
     \<lparr>wp_io = worker_channel native,
      wp_close_channel = (\<lambda>h.
        let h = handle_lock native h in h\<lparr>wh_worker := nw_close_channel native (wh_worker h)\<rparr>),
      wp_wait = (\<lambda>h.
        let h = handle_lock native h in
        case nw_wait native (wh_worker h) of (r, n) \<Rightarrow> (wait_outcome r, h\<lparr>wh_worker := n\<rparr>)),
      wp_terminate_and_wait = (\<lambda>h.
        let h = handle_lock native
                  (h\<lparr>wh_aborted := True, wh_worker := nw_request_cancellation native (wh_worker h)\<rparr>) in
        case nw_terminate_and_wait native (wh_worker h) of (r, n) \<Rightarrow> (wait_outcome r, h\<lparr>wh_worker := n\<rparr>))\<rparr>"


section \<open>Session identities\<close>

record SessionAllocation =
  sa_session_id :: u64
  sa_worker_epoch :: u64

record SessionIdAllocator =
  al_next_session_id :: u64
  al_next_worker_epoch :: u64
  al_exhausted :: bool

definition allocator_new :: SessionIdAllocator where
  "allocator_new = \<lparr>al_next_session_id = 1, al_next_worker_epoch = 1, al_exhausted = False\<rparr>"

definition allocator_starting_at :: "u64 \<Rightarrow> u64 \<Rightarrow> SessionIdAllocator" where
  "allocator_starting_at first_session_id first_worker_epoch =
     \<lparr>al_next_session_id = first_session_id, al_next_worker_epoch = first_worker_epoch,
      al_exhausted = (first_session_id = 0 \<or> first_worker_epoch = 0)\<rparr>"

datatype AllocatorError = AllocatorExhausted

definition allocate :: "(SessionIdAllocator, AllocatorError, SessionAllocation) stm" where
  "allocate a =
     (let allocation =
            (if al_exhausted a then None
             else case session_id_new (al_next_session_id a) of
               None \<Rightarrow> None
             | Some session_id \<Rightarrow>
                 map_option (\<lambda>epoch. \<lparr>sa_session_id = session_id, sa_worker_epoch = epoch\<rparr>)
                   (worker_epoch_new (al_next_worker_epoch a)))
      in case allocation of
           None \<Rightarrow> (Err AllocatorExhausted, a\<lparr>al_exhausted := True\<rparr>)
         | Some allocation \<Rightarrow>
             (Ok allocation,
              if al_next_session_id a = - 1 \<or> al_next_worker_epoch a = - 1
              then a\<lparr>al_exhausted := True\<rparr>
              else a\<lparr>al_next_session_id := al_next_session_id a + 1,
                     al_next_worker_epoch := al_next_worker_epoch a + 1\<rparr>))"


section \<open>The process session\<close>

record SessionConfig =
  cfg_source_read_limits :: SourceReadLimits
  cfg_protocol_budgets :: ProtocolBudgets
  cfg_import_limits :: ImportLimits

datatype ProcessState = ProcIdle | ProcOpen | ProcClosed | ProcTerminated

datatype OpenError = OpenInvalidState | OpenHandshake HandshakeError | OpenSession SessionError

record OpenFailure =
  of_error :: OpenError
  of_termination :: "WaitOutcome option"

datatype ShutdownError = ShutdownInvalidState | ShutdownProtocol SessionError | ShutdownReap IoError

record ShutdownFailure =
  sf_error :: ShutdownError
  sf_termination :: WaitOutcome

text \<open>The shared frame channel lives in the session; the owner only remembers that it made one.\<close>

record ProcessSession =
  ps_channel :: "nat option"
  ps_session_id :: u64
  ps_worker_epoch :: u64
  ps_state :: ProcessState
  ps_termination :: "WaitOutcome option"

type_synonym 'w process = "ProcessSession \<times> 'w"

definition process_session_new :: "SessionAllocation \<Rightarrow> ProcessSession" where
  "process_session_new allocation =
     \<lparr>ps_channel = None, ps_session_id = sa_session_id allocation, ps_worker_epoch = sa_worker_epoch allocation,
      ps_state = ProcIdle, ps_termination = None\<rparr>"

definition ps_is_terminal :: "ProcessSession \<Rightarrow> bool" where
  "ps_is_terminal ps \<longleftrightarrow> ps_state ps = ProcClosed \<or> ps_state ps = ProcTerminated"

definition terminate_once :: "'w WorkerProcess \<Rightarrow> 'w process \<Rightarrow> WaitOutcome \<times> 'w process" where
  "terminate_once wp pw =
     (case pw of (ps, w) \<Rightarrow>
        case ps_termination ps of
          Some cached \<Rightarrow> (cached, ps, w)
        | None \<Rightarrow>
            (case wp_terminate_and_wait wp w of
               (outcome, w) \<Rightarrow>
                 (outcome, ps\<lparr>ps_state := ProcTerminated, ps_termination := Some outcome\<rparr>, w)))"

definition open_failed ::
  "'w WorkerProcess \<Rightarrow> OpenError \<Rightarrow> 'w process \<Rightarrow> FrameBuffer \<Rightarrow>
     (OpenFailure, SessionCore) result \<times> 'w process \<times> FrameBuffer" where
  "open_failed wp e pw buffer =
     (case terminate_once wp pw of
        (outcome, pw) \<Rightarrow> (Err \<lparr>of_error = e, of_termination = Some outcome\<rparr>, pw, buffer))"

definition open_with_ops ::
  "'w WorkerProcess \<Rightarrow> 'w SourceOps \<Rightarrow> nat \<Rightarrow> u64 \<Rightarrow> u64 \<Rightarrow> SessionConfig \<Rightarrow>
     'w process \<times> FrameBuffer \<Rightarrow> (OpenFailure, SessionCore) result \<times> 'w process \<times> FrameBuffer" where
  "open_with_ops wp ops address media_size pinned_size config x =
     (case x of ((ps, w), buffer) \<Rightarrow>
        if ps_state ps \<noteq> ProcIdle \<or> ps_channel ps \<noteq> None
        then (Err \<lparr>of_error = OpenInvalidState, of_termination = None\<rparr>, (ps, w), buffer)
        else
          let ps = ps\<lparr>ps_channel := Some address\<rparr> in
          (case parent_handshake_over_window (wp_io wp) address media_size pinned_size (ops_window_length ops)
                  (cfg_source_read_limits config) (cfg_protocol_budgets config)
                  ((frame_channel_new (ps_session_id ps), w), buffer) of
             (Err e, (c, w), buffer) \<Rightarrow> open_failed wp (OpenHandshake e) (ps, w) buffer
           | (Ok hp, (c, w), buffer) \<Rightarrow>
               (case create_parser_session (wp_io wp) ops hp address media_size pinned_size (ps_worker_epoch ps)
                       (cfg_import_limits config) (c, w) of
                  (Ok core, c, w) \<Rightarrow> (Ok core, (ps\<lparr>ps_state := ProcOpen\<rparr>, w), buffer)
                | (Err e, c, w) \<Rightarrow> open_failed wp (OpenSession e) (ps, w) buffer)))"

definition cached_result :: "ProcessSession \<Rightarrow> (ShutdownFailure, WorkerExit) result" where
  "cached_result ps =
     (case ps_termination ps of
        Some (Ok exit) \<Rightarrow> Ok exit
      | Some (Err e) \<Rightarrow> Err \<lparr>sf_error = ShutdownReap e, sf_termination = Err e\<rparr>
      | None \<Rightarrow> Err \<lparr>sf_error = ShutdownInvalidState, sf_termination = Err IoFailure\<rparr>)"

definition shutdown_failed ::
  "'w WorkerProcess \<Rightarrow> ShutdownError \<Rightarrow> 'w process \<Rightarrow> (ShutdownFailure, WorkerExit) result \<times> 'w process" where
  "shutdown_failed wp e pw =
     (case terminate_once wp pw of
        (outcome, pw) \<Rightarrow> (Err \<lparr>sf_error = e, sf_termination = outcome\<rparr>, pw))"

text \<open>A session that is not consumed by the protocol shutdown is dropped on return.\<close>

definition drop_session ::
  "'w WorkerProcess \<Rightarrow> SessionPhaseKind \<Rightarrow> SessionCore \<Rightarrow> 'a \<times> 'w process \<Rightarrow> 'a \<times> 'w process" where
  "drop_session wp phase core x =
     (case x of (r, ps, w) \<Rightarrow> (r, ps, snd (parent_drop (wp_io wp) phase (core, w))))"

definition orderly_shutdown ::
  "'w WorkerProcess \<Rightarrow> SessionPhaseKind \<Rightarrow> SessionCore \<Rightarrow> 'w process \<Rightarrow>
     (ShutdownFailure, WorkerExit) result \<times> 'w process" where
  "orderly_shutdown wp phase core pw =
     (case pw of (ps, w) \<Rightarrow>
        if ps_is_terminal ps then drop_session wp phase core (cached_result ps, ps, w)
        else if ps_state ps \<noteq> ProcOpen
        then drop_session wp phase core (shutdown_failed wp ShutdownInvalidState (ps, w))
        else
          (case shutdown_session (wp_io wp) (core, w) of
             (Err e, _, w) \<Rightarrow> shutdown_failed wp (ShutdownProtocol e) (ps, w)
           | (Ok _, _, w) \<Rightarrow>
               (case wp_wait wp (wp_close_channel wp w) of
                  (Ok exit, w) \<Rightarrow>
                    (Ok exit, ps\<lparr>ps_termination := Some (Ok exit), ps_state := ProcClosed\<rparr>, w)
                | (Err e, w) \<Rightarrow> shutdown_failed wp (ShutdownReap e) (ps, w))))"

definition process_abandon :: "'w WorkerProcess \<Rightarrow> 'w process \<Rightarrow> WaitOutcome \<times> 'w process" where
  "process_abandon wp pw = terminate_once wp pw"

definition process_finish :: "'w WorkerProcess \<Rightarrow> 'w process \<Rightarrow> (ShutdownFailure, WorkerExit) result \<times> 'w process" where
  "process_finish wp pw =
     (if ps_is_terminal (fst pw) then (cached_result (fst pw), pw)
      else shutdown_failed wp ShutdownInvalidState pw)"

definition process_drop :: "'w WorkerProcess \<Rightarrow> 'w process \<Rightarrow> 'w process" where
  "process_drop wp pw = (if \<not> ps_is_terminal (fst pw) then snd (terminate_once wp pw) else pw)"


section \<open>What the transport operations cannot change\<close>

text \<open>
  A part \<open>g\<close> of the outside world that the three transport calls leave alone is left alone by every
  operation built from them; here \<open>g\<close> will be how often the worker was waited for or terminated.
\<close>

definition io_keeps :: "('w \<Rightarrow> 'a) \<Rightarrow> 'w ExactIo \<Rightarrow> bool" where
  "io_keeps g io \<longleftrightarrow>
     (\<forall>dst w. g (snd (snd (io_read_exact io dst w))) = g w) \<and>
     (\<forall>bs w. g (snd (io_write_all io bs w)) = g w) \<and> (\<forall>w. g (io_abort_io io w) = g w)"

lemma io_keepsD:
  assumes "io_keeps g io"
  shows "io_read_exact io dst w = (r, dst', w') \<Longrightarrow> g w' = g w"
    and "io_write_all io bs w = (q, w'') \<Longrightarrow> g w'' = g w"
    and "g (io_abort_io io w) = g w"
  using assms by (auto simp: io_keeps_def) (metis snd_conv)+

lemma keeps_poison: "io_keeps g io \<Longrightarrow> g (snd (snd (channel_poison io e cw))) = g (snd cw)"
  by (cases cw) (auto simp: channel_poison_eq io_keepsD(3) split: option.split)

lemma keeps_abort: "io_keeps g io \<Longrightarrow> g (snd (channel_abort io cw)) = g (snd cw)"
  using keeps_poison by (simp add: channel_abort_def)

lemma keeps_or_poison: "io_keeps g io \<Longrightarrow> g (snd (snd (or_poison io k r cw))) = g (snd cw)"
  using keeps_poison[of g io] by (cases r) (simp_all add: or_poison_def split_beta)

definition keeping :: "('w \<Rightarrow> 'a) \<Rightarrow> ('w channel, 'e, 'b) stm \<Rightarrow> bool" where
  "keeping g f \<longleftrightarrow> (\<forall>cw. g (snd (snd (f cw))) = g (snd cw))"

lemma keepingD: "keeping g f \<Longrightarrow> f (c, w) = (r, c', w') \<Longrightarrow> g w' = g w"
  unfolding keeping_def by (metis snd_conv)

lemma keepingI: "(\<And>c w r c' w'. f (c, w) = (r, c', w') \<Longrightarrow> g w' = g w) \<Longrightarrow> keeping g f"
  unfolding keeping_def by (metis prod.collapse)

lemma keeping_bind:
  assumes m: "keeping g m" and f: "\<And>v. keeping g (f v)"
  shows "keeping g (st_bind m f)"
proof (rule keepingI)
  fix c w r c' w'
  assume run: "st_bind m f (c, w) = (r, c', w')"
  obtain q c1 w1 where first: "m (c, w) = (q, c1, w1)" by (cases "m (c, w)")
  show "g w' = g w"
    using run first keepingD[OF m first] keepingD[OF f, of _ c1 w1 r c' w'] by (cases q) (auto simp: st_bind_def)
qed

lemma keeping_return: "keeping g (st_return v)"
  by (simp add: keeping_def)

lemma keeping_or_poison: "io_keeps g io \<Longrightarrow> keeping g (or_poison io k r)"
  by (simp add: keeping_def keeps_or_poison)

lemma keeping_chan_write:
  assumes "io_keeps g io"
  shows "keeping g (chan_write io bs)"
proof (rule keepingI)
  fix c w r c' w'
  assume run: "chan_write io bs (c, w) = (r, c', w')"
  obtain q w1 where wrote: "io_write_all io bs w = (q, w1)" by fastforce
  have "or_poison io ChannelTransport (transferred q (length bs)) (c, w1) = (r, c', w')"
    using run wrote by (simp add: chan_write_def)
  from keepingD[OF keeping_or_poison[OF assms] this] io_keepsD(2)[OF assms wrote] show "g w' = g w" by simp
qed

lemma keeping_send_inner:
  assumes "io_keeps g io"
  shows "keeping g (send_inner io h payload)"
proof -
  have last: "keeping g (if payload \<noteq> [] then chan_write io payload else st_return ())"
    using keeping_chan_write[OF assms] keeping_return[of g] by (cases "payload = []") simp_all
  have "keeping g (st_bind (or_poison io ChannelProtocol p) (\<lambda>encoded. st_bind (chan_write io encoded)
      (\<lambda>_. if payload \<noteq> [] then chan_write io payload else st_return ())))" for p
    by (intro keeping_bind keeping_or_poison keeping_chan_write assms last)
  then show ?thesis unfolding keeping_def send_inner_def Let_def by blast
qed

lemma keeping_channel_send:
  assumes "io_keeps g io"
  shows "keeping g (channel_send io h payload)"
proof (rule keepingI)
  fix c w r c' w'
  assume run: "channel_send io h payload (c, w) = (r, c', w')"
  obtain b st where entered: "chan_begin DirSend (fc_state c) = (b, st)" by fastforce
  obtain q c1 w1 where inner: "send_inner io h payload (c\<lparr>fc_state := st\<rparr>, w) = (q, c1, w1)"
    by (cases "send_inner io h payload (c\<lparr>fc_state := st\<rparr>, w)")
  show "g w' = g w"
    using run entered inner keepingD[OF keeping_send_inner[OF assms] inner]
    by (cases b; cases q) (auto simp: channel_send_def split: prod.splits)
qed

lemma keeping_receive_header:
  assumes "io_keeps g io"
  shows "keeping g (receive_header io)"
proof (rule keepingI)
  fix c w r c' w'
  assume run: "receive_header io (c, w) = (r, c', w')"
  obtain q bs w1 where got: "io_read_exact io (replicate FRAME_HEADER_BYTES 0) w = (q, bs, w1)"
    by (cases "io_read_exact io (replicate FRAME_HEADER_BYTES 0) w")
  have "keeping g (st_bind (or_poison io ChannelTransport p) (\<lambda>_. or_poison io ChannelProtocol k))"
    for p and k :: "(ProtocolError, FrameHeader) result"
    by (intro keeping_bind keeping_or_poison assms)
  from keepingD[OF this] run got have "g w' = g w1" by (auto simp: receive_header_def)
  then show "g w' = g w" using io_keepsD(1)[OF assms got] by simp
qed

lemma keeps_receive_inner:
  assumes "io_keeps g io" and "receive_inner io ((c, w), buf) = (r, (c', w'), buf')"
  shows "g w' = g w"
proof -
  obtain q c1 w1 where hd: "receive_header io (c, w) = (q, c1, w1)" by (cases "receive_header io (c, w)")
  have same: "g w1 = g w" using keepingD[OF keeping_receive_header[OF assms(1)] hd] .
  show ?thesis
  proof (cases q)
    case (Ok h)
    let ?n = "unat (fh_payload_length h)"
    obtain p part w2 where got: "io_read_exact io (take ?n (fb_bytes buf)) w1 = (p, part, w2)"
      by (cases "io_read_exact io (take ?n (fb_bytes buf)) w1")
    obtain o1 c3 w3 where op: "or_poison io ChannelTransport (transferred p ?n) (c1, w2) = (o1, c3, w3)"
      by (cases "or_poison io ChannelTransport (transferred p ?n) (c1, w2)")
    have "g w3 = g w1"
      using keepingD[OF keeping_or_poison[OF assms(1)] op] io_keepsD(1)[OF assms(1) got] by simp
    then show ?thesis using assms(2) hd Ok got op same
      by (cases o1) (auto simp: receive_inner_def Let_def split: if_splits)
  qed (use assms(2) hd same in \<open>simp add: receive_inner_def\<close>)
qed

lemma keeps_channel_receive:
  assumes "io_keeps g io" and "channel_receive io ((c, w), buf) = (r, (c', w'), buf')"
  shows "g w' = g w"
proof -
  obtain b st where entered: "chan_begin DirReceive (fc_state c) = (b, st)" by fastforce
  obtain q c1 w1 b1 where inner: "receive_inner io ((c\<lparr>fc_state := st\<rparr>, w), buf) = (q, (c1, w1), b1)"
    by (cases "receive_inner io ((c\<lparr>fc_state := st\<rparr>, w), buf)") auto
  show ?thesis
    using assms(2) entered inner keeps_receive_inner[OF assms(1) inner]
    by (cases b; cases q)
      (auto simp: channel_receive_def split: if_splits prod.splits result.splits)
qed

lemma keeps_handshake_exchange:
  assumes io: "io_keeps g io" and run: "handshake_exchange io h payload v ((c, w), buf) = (r, (c', w'), buf')"
  shows "g w' = g w"
proof -
  obtain q c1 w1 where sent: "channel_send io h payload (c, w) = (q, c1, w1)"
    by (cases "channel_send io h payload (c, w)")
  obtain p c2 w2 b2 where got: "channel_receive io ((c1, w1), buf) = (p, (c2, w2), b2)"
    by (cases "channel_receive io ((c1, w1), buf)") auto
  have same: "g w1 = g w" "g w2 = g w"
    using keepingD[OF keeping_channel_send[OF io] sent] keeps_channel_receive[OF io got] by simp_all
  have aborts: "g w' = g w" if "handshake_abort io e ((d, u), b) = (r, (c', w'), buf')" "g u = g w" for e d u b
    using that keeps_abort[OF io, of "(d, u)"] by (auto simp: handshake_abort_def split: prod.splits)
  show ?thesis
  proof (cases q)
    case (Err e)
    then show ?thesis using run sent same by (auto simp: handshake_exchange_def intro: aborts)
  next
    case (Ok u)
    show ?thesis
    proof (cases "fst (observe ParentToWorker h v)")
      case (Err e)
      then show ?thesis using run sent same \<open>q = Ok u\<close>
        by (cases "observe ParentToWorker h v") (auto simp: handshake_exchange_def intro: aborts)
    next
      case (Ok u')
      then show ?thesis using run sent got same \<open>q = Ok u\<close>
        by (cases "observe ParentToWorker h v")
          (auto simp: handshake_exchange_def intro: aborts split: result.splits prod.splits if_splits)
    qed
  qed
qed

lemma keeps_handshake:
  assumes io: "io_keeps g io"
    and run: "parent_handshake_over_window io a m p n limits budgets ((c, w), buf) = (r, (c', w'), buf')"
  shows "g w' = g w"
  using run
  by (auto simp: parent_handshake_over_window_def Let_def dest!: keeps_handshake_exchange[OF io]
      split: option.splits if_splits result.splits prod.splits)

lemma keeps_create_parser_session:
  assumes "io_keeps g io"
    and "create_parser_session io ops hp a m p epoch limits (c, w) = (r, c', w')"
  shows "g w' = g w"
  using assms(2) keeps_abort[OF assms(1), of "(c, w)"]
  by (auto simp: create_parser_session_def Let_def split: if_splits result.splits prod.splits)

lemma keeps_retire: "io_keeps g io \<Longrightarrow> g (snd (core_retire io p)) = g (snd p)"
  using keeps_abort[of g io "(core_channel (fst p), snd p)"]
  by (cases p) (auto simp: core_retire_def core_abort_def split: prod.splits)

lemma keeps_parent_drop: "io_keeps g io \<Longrightarrow> g (snd (parent_drop io phase p)) = g (snd p)"
  by (simp add: parent_drop_def keeps_retire)

lemma keeps_shutdown_session:
  assumes io: "io_keeps g io" and run: "shutdown_session io (core, w) = (r, core', w')"
  shows "g w' = g w"
proof -
  obtain q core1 w1 where sent:
    "send_transaction io (request_header Shutdown 0 0 core) [] accept_shutdown (core, w) = (q, core1, w1)"
    by (cases "send_transaction io (request_header Shutdown 0 0 core) [] accept_shutdown (core, w)")
  have "g w1 = g w"
    using sent keepingD[OF keeping_channel_send[OF io]]
    by (auto simp: send_transaction_def split: prod.splits result.splits)
  then show ?thesis
    using run sent keeps_retire[OF io, of "(core1\<lparr>core_active_request_id := 0\<rparr>, w1)"]
    by (cases q) (auto simp: shutdown_session_def parent_advance_def)
qed


section \<open>The worker is reaped once\<close>

text \<open>
  The calls counted: beside the world, how often the worker was terminated and how often it was waited
  for with success.  An owner's life is any sequence of its operations, and between them the session it
  opened moves the transport as it likes.
\<close>

type_synonym 'w counted = "'w \<times> nat \<times> nat"

definition counted :: "'w WorkerProcess \<Rightarrow> 'w counted WorkerProcess" where
  "counted wp =
     \<lparr>wp_io = \<lparr>io_read_exact = (\<lambda>dst (w, n). case io_read_exact (wp_io wp) dst w of (r, dst', w') \<Rightarrow> (r, dst', w', n)),
               io_write_all = (\<lambda>bs (w, n). case io_write_all (wp_io wp) bs w of (r, w') \<Rightarrow> (r, w', n)),
               io_abort_io = (\<lambda>(w, n). (io_abort_io (wp_io wp) w, n))\<rparr>,
      wp_close_channel = (\<lambda>(w, n). (wp_close_channel wp w, n)),
      wp_wait = (\<lambda>(w, t, k). case wp_wait wp w of
        (Ok exit, w') \<Rightarrow> (Ok exit, w', t, k + 1) | (Err e, w') \<Rightarrow> (Err e, w', t, k)),
      wp_terminate_and_wait = (\<lambda>(w, t, k). case wp_terminate_and_wait wp w of (r, w') \<Rightarrow> (r, w', t + 1, k))\<rparr>"

inductive process_reach :: "'w WorkerProcess \<Rightarrow> ProcessSession \<Rightarrow> 'w counted \<Rightarrow> bool" for wp where
  born: "process_reach wp (process_session_new allocation) (w, 0, 0)"
| starting: "process_reach wp ps x \<Longrightarrow>
    open_with_ops (counted wp) ops address media_size pinned_size config ((ps, x), buf) = (r, (ps', x'), buf') \<Longrightarrow>
    process_reach wp ps' x'"
| traffic: "process_reach wp ps (w, n) \<Longrightarrow> process_reach wp ps (w', n)"
| shutting: "process_reach wp ps x \<Longrightarrow>
    orderly_shutdown (counted wp) phase core (ps, x) = (r', ps', x') \<Longrightarrow> process_reach wp ps' x'"
| abandoning: "process_reach wp ps x \<Longrightarrow>
    process_abandon (counted wp) (ps, x) = (outcome, ps', x') \<Longrightarrow> process_reach wp ps' x'"
| finishing: "process_reach wp ps x \<Longrightarrow>
    process_finish (counted wp) (ps, x) = (r', ps', x') \<Longrightarrow> process_reach wp ps' x'"
| dropping: "process_reach wp ps x \<Longrightarrow> process_drop (counted wp) (ps, x) = (ps', x') \<Longrightarrow> process_reach wp ps' x'"

definition reaped_once :: "ProcessSession \<Rightarrow> nat \<times> nat \<Rightarrow> bool" where
  "reaped_once ps n \<longleftrightarrow>
     (case ps_termination ps of
        None \<Rightarrow> n = (0, 0) \<and> \<not> ps_is_terminal ps
      | Some outcome \<Rightarrow>
          if ps_state ps = ProcClosed then n = (0, 1) \<and> (\<exists>exit. outcome = Ok exit)
          else n = (1, 0) \<and> ps_state ps = ProcTerminated)"

lemma counted_io_keeps: "io_keeps snd (wp_io (counted wp))"
  by (auto simp: io_keeps_def counted_def split: prod.splits)

lemma counted_simps:
  "snd (wp_close_channel (counted wp) x) = snd x"
  "wp_terminate_and_wait (counted wp) x = (outcome, y) \<Longrightarrow> snd y = (fst (snd x) + 1, snd (snd x))"
  "wp_wait (counted wp) x = (Ok exit, y) \<Longrightarrow> snd y = (fst (snd x), snd (snd x) + 1)"
  "wp_wait (counted wp) x = (Err e, y) \<Longrightarrow> snd y = snd x"
  by (cases x; auto simp: counted_def split: prod.splits result.splits)+

lemma reaped_terminate:
  assumes "reaped_once ps (snd x)" and "terminate_once (counted wp) (ps, x) = (outcome, ps', x')"
  shows "reaped_once ps' (snd x')" and "ps_termination ps' = Some outcome" and "ps_is_terminal ps'"
  using assms counted_simps(2)[of wp x]
  by (auto simp: terminate_once_def reaped_once_def ps_is_terminal_def split: option.splits prod.splits if_splits)

lemma reaped_shutdown_failed:
  assumes "reaped_once ps (snd x)" and "shutdown_failed (counted wp) e (ps, x) = (r, ps', x')"
  shows "reaped_once ps' (snd x')"
  using assms(2) reaped_terminate(1)[OF assms(1)] by (auto simp: shutdown_failed_def split: prod.splits)

lemma reaped_open_failed:
  assumes "reaped_once ps (snd x)" and "open_failed (counted wp) e (ps, x) buf = (r, (ps', x'), buf')"
  shows "reaped_once ps' (snd x')"
  using assms(2) reaped_terminate(1)[OF assms(1)] by (auto simp: open_failed_def split: prod.splits)

lemma reaped_open:
  assumes inv: "reaped_once ps (snd x)"
    and run: "open_with_ops (counted wp) ops a m p config ((ps, x), buf) = (r, (ps', x'), buf')"
  shows "reaped_once ps' (snd x')"
proof (cases "ps_state ps \<noteq> ProcIdle \<or> ps_channel ps \<noteq> None")
  case False
  let ?ps = "ps\<lparr>ps_channel := Some a\<rparr>"
  have idle: "reaped_once ?ps (snd x)" and live: "ps_termination ps = None" "snd x = (0, 0)"
    using inv False by (auto simp: reaped_once_def ps_is_terminal_def split: option.splits if_splits)
  obtain q c1 x1 b1 where hs:
    "parent_handshake_over_window (wp_io (counted wp)) a m p (ops_window_length ops)
       (cfg_source_read_limits config) (cfg_protocol_budgets config)
       ((frame_channel_new (ps_session_id ps), x), buf) = (q, (c1, x1), b1)"
    by (metis prod.collapse)
  have same: "snd x1 = snd x" using keeps_handshake[OF counted_io_keeps hs] .
  show ?thesis
  proof (cases q)
    case (Err e)
    then show ?thesis using run False hs same reaped_open_failed[of ?ps x1 wp "OpenHandshake e" b1] idle
      by (simp add: open_with_ops_def)
  next
    case (Ok hp)
    obtain v c2 x2 where made:
      "create_parser_session (wp_io (counted wp)) ops hp a m p (ps_worker_epoch ps) (cfg_import_limits config)
         (c1, x1) = (v, c2, x2)"
      by (metis prod.collapse)
    have "snd x2 = snd x" using keeps_create_parser_session[OF counted_io_keeps made] same by simp
    then show ?thesis
      using run False hs Ok made idle live reaped_open_failed[of ?ps x2 wp _ b1 r ps' x' buf']
      by (cases v) (auto simp: open_with_ops_def, simp add: reaped_once_def ps_is_terminal_def)
  qed
qed (use inv run in \<open>simp add: open_with_ops_def\<close>)

lemma reaped_orderly_shutdown:
  assumes inv: "reaped_once ps (snd x)"
    and run: "orderly_shutdown (counted wp) phase core (ps, x) = (r, ps', x')"
  shows "reaped_once ps' (snd x')"
proof -
  have drops: "reaped_once ps' (snd x')"
    if "drop_session (counted wp) phase core (q, qs, y) = (r, ps', x')" "reaped_once qs (snd y)" for q qs y
    using that keeps_parent_drop[OF counted_io_keeps, of wp phase "(core, y)"] by (auto simp: drop_session_def)
  consider "ps_is_terminal ps" | "\<not> ps_is_terminal ps" "ps_state ps \<noteq> ProcOpen" | "ps_state ps = ProcOpen"
    by blast
  then show ?thesis
  proof cases
    case 2
    obtain q qs y where failed: "shutdown_failed (counted wp) ShutdownInvalidState (ps, x) = (q, qs, y)"
      by (metis prod.collapse)
    show ?thesis using run 2 failed drops reaped_shutdown_failed[OF inv failed] by (simp add: orderly_shutdown_def)
  next
    case 3
    then have live: "\<not> ps_is_terminal ps" "ps_termination ps = None" "snd x = (0, 0)"
      using inv by (auto simp: reaped_once_def ps_is_terminal_def split: option.splits if_splits)
    obtain q core1 y where ended: "shutdown_session (wp_io (counted wp)) (core, x) = (q, core1, y)"
      by (metis prod.collapse)
    have same: "snd y = snd x" using keeps_shutdown_session[OF counted_io_keeps ended] .
    obtain o1 z where waited: "wp_wait (counted wp) (wp_close_channel (counted wp) y) = (o1, z)"
      by (cases "wp_wait (counted wp) (wp_close_channel (counted wp) y)")
    show ?thesis
    proof (cases q)
      case (Err e)
      then show ?thesis
        using run 3 live ended reaped_shutdown_failed[of ps y wp "ShutdownProtocol e"] inv same
        by (simp add: orderly_shutdown_def)
    next
      case (Ok u)
      show ?thesis
      proof (cases o1)
        case (Err e)
        then have "snd z = snd x" using counted_simps(4) waited counted_simps(1) same by metis
        then show ?thesis using run 3 live ended Ok waited Err reaped_shutdown_failed[of ps z wp "ShutdownReap e"] inv
          by (simp add: orderly_shutdown_def)
      next
        case (Ok exit)
        then have "snd z = (0, 1)"
          using counted_simps(3) waited counted_simps(1) same live(3) by (metis One_nat_def add_0 fst_conv snd_conv)
        then show ?thesis using run 3 live ended \<open>q = Ok u\<close> waited Ok
          by (auto simp: orderly_shutdown_def reaped_once_def)
      qed
    qed
  qed (use run inv drops in \<open>simp add: orderly_shutdown_def\<close>)
qed

lemma process_reach_reaped: "process_reach wp ps x \<Longrightarrow> reaped_once ps (snd x)"
proof (induction rule: process_reach.induct)
  case (born allocation w)
  then show ?case by (simp add: reaped_once_def process_session_new_def ps_is_terminal_def)
next
  case (finishing ps x r' ps' x')
  then show ?case by (auto simp: process_finish_def dest: reaped_shutdown_failed split: if_splits)
next
  case (dropping ps x ps' x')
  then show ?case
    using reaped_terminate(1)[OF dropping.IH] by (auto simp: process_drop_def split: if_splits) (metis prod.collapse)
qed (auto simp: process_abandon_def dest: reaped_open reaped_orderly_shutdown reaped_terminate(1))

text \<open>
  C17: the worker's process is reaped exactly once.  Along any sequence of openings, shutdowns,
  abandonments, finishes and drops, whatever the transport and the worker answer, the worker has been
  neither terminated nor waited for while no outcome is retained; once one is, there was exactly one
  termination or one successful wait, never both, and the state says which.  Dropping the owner always
  leaves the worker reaped, and every later abandonment returns the retained outcome without a call.
\<close>

theorem process_reaped_once:
  assumes "process_reach wp ps (w, t, k)" and "process_drop (counted wp) (ps, w, t, k) = (ps', w', t', k')"
  shows "(ps_termination ps = None \<longleftrightarrow> t + k = 0) \<and> t + k \<le> 1 \<and>
    (ps_state ps = ProcClosed \<longleftrightarrow> k = 1) \<and> (ps_state ps = ProcTerminated \<longleftrightarrow> t = 1) \<and>
    t' + k' = 1 \<and>
    (\<exists>outcome. ps_termination ps' = Some outcome \<and>
       process_abandon (counted wp) (ps', w', t', k') = (outcome, ps', w', t', k'))"
proof -
  have inv: "reaped_once ps (t, k)" using process_reach_reaped[OF assms(1)] by simp
  have "reaped_once ps' (t', k')"
    using process_reach_reaped[OF process_reach.dropping[OF assms]] by simp
  moreover have "ps_is_terminal ps'"
    using assms(2) reaped_terminate(3)[of ps "(w, t, k)" wp] inv
    by (auto simp: process_drop_def split: if_splits) (metis prod.collapse snd_conv)
  ultimately have "ps_termination ps' \<noteq> None" "t' + k' = 1"
    by (auto simp: reaped_once_def split: option.splits if_splits)
  then show ?thesis
    using inv
    by (auto simp: reaped_once_def ps_is_terminal_def process_abandon_def terminate_once_def
        split: option.splits if_splits)
qed

text \<open>A worker that is dropped before it was opened.\<close>

definition demo_worker :: "(bytes \<times> bytes) WorkerProcess" where
  "demo_worker = \<lparr>wp_io = pipe_io, wp_close_channel = (\<lambda>w. w), wp_wait = (\<lambda>w. (Ok (Exited 0), w)),
     wp_terminate_and_wait = (\<lambda>w. (Ok WorkerTerminated, w))\<rparr>"

theorem process_reaped_once_witness:
  "\<exists>ps' w'. process_drop (counted demo_worker)
       (process_session_new \<lparr>sa_session_id = 1, sa_worker_epoch = 1\<rparr>, ([], []), 0, 0) = (ps', w', 1, 0) \<and>
     process_abandon (counted demo_worker) (ps', w', 1, 0) = (Ok WorkerTerminated, ps', w', 1, 0) \<and>
     process_reach demo_worker ps' (w', 1, 0)"
proof -
  let ?new = "process_session_new \<lparr>sa_session_id = 1, sa_worker_epoch = 1\<rparr>"
  let ?gone = "?new\<lparr>ps_state := ProcTerminated, ps_termination := Some (Ok WorkerTerminated)\<rparr>"
  have born: "process_reach demo_worker ?new (([], []), 0, 0)" by (rule process_reach.born)
  have drop: "process_drop (counted demo_worker) (?new, ([], []), 0, 0) = (?gone, ([], []), 1, 0)"
    by (simp add: process_drop_def terminate_once_def counted_def demo_worker_def ps_is_terminal_def
        process_session_new_def)
  show ?thesis
    using process_reaped_once[OF born drop] process_reach.dropping[OF born drop] drop
    by (intro exI[of _ ?gone] exI[of _ "([], [])"]) auto
qed

end
