(* ===== verification/Worker_Service.thy ===== *)
theory Worker_Service
  imports Parent_Session_Correct
begin

text \<open>
  Crate \<open>ohl-parser-worker-service\<close>: the worker's side of one OWP/1 lifetime.  \<open>capability.rs\<close> are the
  two capabilities the service borrows, the transport and the parser back end, records of functions on
  a state each; \<open>service.rs\<close> is the state machine, one state transformer per method.  The session loop
  is a \<open>partial_function\<close>, so that not returning would be a value; that it always returns is a theorem.
\<close>


section \<open>Capabilities\<close>

datatype IoStatus = IoOk | IoPeerClosed | IoFailed

datatype InputStatus = InputUnavailable | InputAvailable | InputPeerClosed | InputFailed

text \<open>A read gets the destination as it was and returns what the call left in it.\<close>

record 'w Transport =
  tr_read_exact :: "bytes \<Rightarrow> 'w \<Rightarrow> IoStatus \<times> bytes \<times> 'w"
  tr_write_all :: "bytes \<Rightarrow> 'w \<Rightarrow> IoStatus \<times> 'w"
  tr_probe_input :: "'w \<Rightarrow> InputStatus \<times> 'w"
  tr_abort_io :: "'w \<Rightarrow> 'w"
  tr_close_io :: "'w \<Rightarrow> 'w"

datatype Operation = OperationEnumerate | OperationStream

datatype DispatchError = DispUnsupported | DispFailed

datatype DispatchAction =
    NeedRead u64 u32 | ActEntryBatch "EntryBatchEntry list" | ActDataChunk bytes | ActComplete

record 'd Dispatcher =
  dp_begin :: "Operation \<Rightarrow> u64 \<Rightarrow> SourceReadPolicy \<Rightarrow> ('d, DispatchError, u64) stm"
  dp_step :: "('d, DispatchError, DispatchAction) stm"
  dp_accept_read_reply :: "ReadReplyMessage \<Rightarrow> ('d, DispatchError, unit) stm"
  dp_cancel :: "'d \<Rightarrow> 'd"
  dp_end :: "'d \<Rightarrow> 'd"

definition unsupported_dispatcher :: "'d Dispatcher" where
  "unsupported_dispatcher =
     \<lparr>dp_begin = (\<lambda>operation source_token source_policy. st_fail DispUnsupported),
      dp_step = st_fail DispUnsupported, dp_accept_read_reply = (\<lambda>reply. st_fail DispUnsupported),
      dp_cancel = (\<lambda>d. d), dp_end = (\<lambda>d. d)\<rparr>"

record ServiceBuffers =
  bufs_receive_payload :: bytes
  bufs_send_payload :: bytes


section \<open>Limits and reports\<close>

definition MAXIMUM_DISPATCH_STEPS :: u64 where [owp_consts]: "MAXIMUM_DISPATCH_STEPS = MAXIMUM_PROTOCOL_MESSAGES"

datatype ServiceError =
    SvInvalidConfiguration | SvTransportFailure | SvProtocolFailure | SvDispatchUnsupported
  | SvDispatchFailure | SvSourceFailure | SvDispatchBudgetExceeded | SvInternalFailure

record ServiceFailure =
  fl_error :: ServiceError
  fl_protocol_error :: "ProtocolError option"
  fl_io_status :: IoStatus
  fl_dispatch_error :: "DispatchError option"
  fl_session_id :: u64
  fl_dispatch_steps :: u64

definition failure_new :: "ServiceError \<Rightarrow> ServiceFailure" where
  "failure_new e =
     \<lparr>fl_error = e, fl_protocol_error = None, fl_io_status = IoOk, fl_dispatch_error = None,
      fl_session_id = 0, fl_dispatch_steps = 0\<rparr>"

definition failure_transport :: "IoStatus \<Rightarrow> ServiceFailure" where
  "failure_transport status = (failure_new SvTransportFailure)\<lparr>fl_io_status := status\<rparr>"

definition failure_protocol :: "ProtocolError \<Rightarrow> ServiceFailure" where
  "failure_protocol e = (failure_new SvProtocolFailure)\<lparr>fl_protocol_error := Some e\<rparr>"

definition failure_dispatch :: "DispatchError \<Rightarrow> ServiceFailure" where
  "failure_dispatch e =
     (failure_new (case e of DispUnsupported \<Rightarrow> SvDispatchUnsupported | DispFailed \<Rightarrow> SvDispatchFailure))
       \<lparr>fl_dispatch_error := Some e\<rparr>"

definition rejected_action :: "ProtocolError \<Rightarrow> ServiceFailure" where
  "rejected_action e =
     (failure_new SvDispatchFailure)\<lparr>fl_protocol_error := Some e, fl_dispatch_error := Some DispFailed\<rparr>"

definition failure_internal :: "ProtocolError \<Rightarrow> ServiceFailure" where
  "failure_internal e = (failure_new SvInternalFailure)\<lparr>fl_protocol_error := Some e\<rparr>"

record ServiceSummary =
  sum_session_id :: u64
  sum_dispatch_steps :: u64

record ServiceLimits =
  sl_protocol_budgets :: ProtocolBudgets
  sl_maximum_dispatch_steps :: u64

definition service_limits_default :: ServiceLimits where
  "service_limits_default =
     \<lparr>sl_protocol_budgets = protocol_budgets_default, sl_maximum_dispatch_steps = MAXIMUM_DISPATCH_STEPS\<rparr>"

definition service_limits_valid :: "ServiceLimits \<Rightarrow> bool" where
  "service_limits_valid l \<longleftrightarrow>
     sl_maximum_dispatch_steps l \<noteq> 0 \<and> sl_maximum_dispatch_steps l \<le> MAXIMUM_DISPATCH_STEPS
     \<and> pb_maximum_messages (sl_protocol_budgets l) \<ge> 2
     \<and> pb_maximum_payload_bytes (sl_protocol_budgets l) \<ge> of_nat HELLO_PAYLOAD_BYTES"


section \<open>The enumeration budget\<close>

record EnumerationBudget =
  enb_remaining_entries :: u32
  enb_remaining_path_bytes :: u64
  enb_remaining_total_bytes :: u64
  enb_previous_source_token :: "u64 option"

definition enumeration_budget_start :: EnumerationBudget where
  "enumeration_budget_start =
     \<lparr>enb_remaining_entries = MAXIMUM_ENUMERATED_ENTRIES,
      enb_remaining_path_bytes = MAXIMUM_ENUMERATED_PATH_BYTES,
      enb_remaining_total_bytes = MAXIMUM_ENUMERATED_TOTAL_BYTES, enb_previous_source_token = None\<rparr>"

definition budget_policy :: "EnumerationBudget \<Rightarrow> (ProtocolError, EntryBatchPolicy) result" where
  "budget_policy b =
     entry_batch_policy_new (enb_remaining_entries b) (enb_remaining_path_bytes b)
       MAXIMUM_ENUMERATED_ENTRY_BYTES (enb_remaining_total_bytes b) (enb_previous_source_token b)"

definition budget_spend_entry :: "EntryBatchEntry \<Rightarrow> EnumerationBudget \<Rightarrow> EnumerationBudget option" where
  "budget_spend_entry e b =
     (case checked_sub (enb_remaining_entries b) 1 of
        None \<Rightarrow> None
      | Some entries \<Rightarrow>
          (case checked_sub (enb_remaining_path_bytes b) (of_nat (length (ebe_archive_path e))) of
             None \<Rightarrow> None
           | Some paths \<Rightarrow>
               (case checked_sub (enb_remaining_total_bytes b) (ebe_size_bytes e) of
                  None \<Rightarrow> None
                | Some total_bytes \<Rightarrow>
                    Some \<lparr>enb_remaining_entries = entries, enb_remaining_path_bytes = paths,
                          enb_remaining_total_bytes = total_bytes,
                          enb_previous_source_token = Some (ebe_source_token e)\<rparr>)))"

fun budget_spend :: "EntryBatchEntry list \<Rightarrow> EnumerationBudget \<Rightarrow> EnumerationBudget option" where
  "budget_spend [] b = Some b"
| "budget_spend (e # es) b =
     (case budget_spend_entry e b of None \<Rightarrow> None | Some next \<Rightarrow> budget_spend es next)"


section \<open>Frames on the worker's end\<close>

datatype Flow = FlowContinue | FlowShutdown

datatype ReceiveError = RecvIo IoStatus | RecvProtocol ProtocolError

fun failure_of_receive :: "ReceiveError \<Rightarrow> ServiceFailure" where
  "failure_of_receive (RecvIo status) = failure_transport status"
| "failure_of_receive (RecvProtocol e) = failure_protocol e"

definition receive_frame :: "'w Transport \<Rightarrow> u64 \<Rightarrow> (bytes \<times> 'w, ReceiveError, FrameHeader) stm" where
  "receive_frame tr expected_session_id x =
     (case x of (receive_payload, w) \<Rightarrow>
        case tr_read_exact tr (replicate FRAME_HEADER_BYTES 0) w of (status, header_image_bytes, w) \<Rightarrow>
          if status \<noteq> IoOk then (Err (RecvIo status), receive_payload, w)
          else
            (case decode_frame_header header_image_bytes of
               Err e \<Rightarrow> (Err (RecvProtocol e), receive_payload, w)
             | Ok header \<Rightarrow>
                 let n = unat (fh_payload_length header) in
                 if expected_session_id \<noteq> 0 \<and> fh_session_id header \<noteq> expected_session_id
                 then (Err (RecvProtocol WrongSessionId), receive_payload, w)
                 else if n > length receive_payload
                 then (Err (RecvProtocol PayloadTooLarge), receive_payload, w)
                 else if n \<noteq> 0 then
                   (case tr_read_exact tr (take n receive_payload) w of (status, payload, w) \<Rightarrow>
                      let receive_payload = payload @ drop n receive_payload in
                      if status \<noteq> IoOk then (Err (RecvIo status), receive_payload, w)
                      else (Ok header, receive_payload, w))
                 else (Ok header, receive_payload, w)))"

definition send_frame ::
  "'w Transport \<Rightarrow> FrameHeader \<Rightarrow> bytes \<Rightarrow> (SessionValidator \<times> 'w, ServiceFailure, unit) stm" where
  "send_frame tr header payload x =
     (case x of (validator, w) \<Rightarrow>
        if length payload \<noteq> unat (fh_payload_length header)
           \<or> length payload > unat MAXIMUM_FRAME_PAYLOAD_BYTES
        then (Err (failure_protocol NoncanonicalValue), validator, w)
        else
          (case observe WorkerToParent header validator of
             (Err e, validator) \<Rightarrow> (Err (failure_protocol e), validator, w)
           | (Ok _, validator) \<Rightarrow>
               (case frame_header_encode header (replicate FRAME_HEADER_BYTES 0) of
                  (Err e, _) \<Rightarrow> (Err (failure_protocol e), validator, w)
                | (Ok _, header_image_bytes) \<Rightarrow>
                    (case tr_write_all tr header_image_bytes w of (status, w) \<Rightarrow>
                       if status \<noteq> IoOk then (Err (failure_transport status), validator, w)
                       else if payload \<noteq> [] then
                         (case tr_write_all tr payload w of (status, w) \<Rightarrow>
                            if status \<noteq> IoOk then (Err (failure_transport status), validator, w)
                            else (Ok (), validator, w))
                       else (Ok (), validator, w)))))"


section \<open>The service's state\<close>

record ('d, 'w) Service =
  svc_transport :: 'w
  svc_dispatch :: 'd
  svc_receive_payload :: bytes
  svc_send_payload :: bytes
  svc_limits :: ServiceLimits
  svc_validator :: SessionValidator
  svc_source_policy :: SourceReadPolicy
  svc_enumeration :: EnumerationBudget
  svc_active_operation :: Operation
  svc_session_id :: u64
  svc_active_request_id :: u64
  svc_remaining_stream_bytes :: u64
  svc_dispatch_steps :: u64
  svc_next_read_sequence :: u32
  svc_pending_read_sequence :: u32
  svc_pending_read_length :: u32
  svc_dispatch_active :: bool
  svc_pending_read :: bool
  svc_late_read_reply :: bool

type_synonym ('d, 'w, 'a) service_op = "(('d, 'w) Service, ServiceFailure, 'a) stm"

text \<open>The shared helpers on the service's fields.\<close>

definition svc_receive :: "'w Transport \<Rightarrow> ('d, 'w, FrameHeader) service_op" where
  "svc_receive tr s =
     (case receive_frame tr (svc_session_id s) (svc_receive_payload s, svc_transport s) of
        (r, payload, w) \<Rightarrow>
          (map_err failure_of_receive r, s\<lparr>svc_receive_payload := payload, svc_transport := w\<rparr>))"

definition svc_send :: "'w Transport \<Rightarrow> FrameHeader \<Rightarrow> bytes \<Rightarrow> ('d, 'w, unit) service_op" where
  "svc_send tr header payload s =
     (case send_frame tr header payload (svc_validator s, svc_transport s) of
        (r, v, w) \<Rightarrow> (r, s\<lparr>svc_validator := v, svc_transport := w\<rparr>))"

definition svc_observe :: "FrameHeader \<Rightarrow> ('d, 'w, unit) service_op" where
  "svc_observe header s =
     (case observe ParentToWorker header (svc_validator s) of
        (r, v) \<Rightarrow> (map_err failure_protocol r, s\<lparr>svc_validator := v\<rparr>))"

definition svc_frame :: "FrameHeader \<Rightarrow> ('d, 'w) Service \<Rightarrow> FrameView" where
  "svc_frame header s =
     frame_view_new header (take (unat (fh_payload_length header)) (svc_receive_payload s))"

definition svc_dispatched :: "('d, DispatchError, 'a) stm \<Rightarrow> ('d, 'w, 'a) service_op" where
  "svc_dispatched f s =
     (case f (svc_dispatch s) of (r, d) \<Rightarrow> (map_err failure_dispatch r, s\<lparr>svc_dispatch := d\<rparr>))"


section \<open>Requests and cancellation\<close>

definition request_token :: "FrameHeader \<Rightarrow> Operation \<Rightarrow> ('d, 'w, u64) service_op" where
  "request_token header operation s =
     (case operation of
        OperationEnumerate \<Rightarrow>
          st_lift (map_err failure_protocol
            (and_then (decode_enumerate_payload (svc_frame header s)) (\<lambda>_. Ok 0))) s
      | OperationStream \<Rightarrow>
          st_lift (map_err failure_protocol
            (and_then (decode_stream_entry_payload (svc_frame header s)) (\<lambda>m. Ok (se_source_token m)))) s)"

fun size_is_canonical :: "Operation \<Rightarrow> u64 \<Rightarrow> bool" where
  "size_is_canonical OperationEnumerate stream_size \<longleftrightarrow> stream_size = 0"
| "size_is_canonical OperationStream stream_size \<longleftrightarrow> stream_size \<le> MAXIMUM_ENUMERATED_ENTRY_BYTES"

definition svc_activate :: "FrameHeader \<Rightarrow> Operation \<Rightarrow> u64 \<Rightarrow> ('d, 'w) Service \<Rightarrow> ('d, 'w) Service" where
  "svc_activate header operation stream_size s =
     s\<lparr>svc_dispatch_active := True, svc_active_operation := operation,
       svc_active_request_id := fh_request_id header, svc_remaining_stream_bytes := stream_size,
       svc_enumeration := enumeration_budget_start, svc_next_read_sequence := 1,
       svc_pending_read := False, svc_late_read_reply := False\<rparr>"

definition begin_operation :: "'d Dispatcher \<Rightarrow> FrameHeader \<Rightarrow> Operation \<Rightarrow> ('d, 'w, Flow) service_op" where
  "begin_operation dp header operation =
     st_bind (request_token header operation) (\<lambda>source_token.
     st_bind (svc_observe header) (\<lambda>_ s.
     st_bind (svc_dispatched (dp_begin dp operation source_token (svc_source_policy s))) (\<lambda>stream_size s.
       if \<not> size_is_canonical operation stream_size
       then (Err (rejected_action NoncanonicalValue), s\<lparr>svc_dispatch := dp_cancel dp (svc_dispatch s)\<rparr>)
       else (Ok FlowContinue, svc_activate header operation stream_size s)) s))"

definition handle_cancel :: "'w Transport \<Rightarrow> 'd Dispatcher \<Rightarrow> FrameHeader \<Rightarrow> ('d, 'w, Flow) service_op" where
  "handle_cancel tr dp header s =
     (case decode_cancel_payload (svc_frame header s) of
        Err e \<Rightarrow> (Err (failure_protocol e), s)
      | Ok _ \<Rightarrow>
          let prior_state = sv_state (svc_validator s) in
          st_bind (svc_observe header) (\<lambda>_ s.
            if prior_state = Idle then (Ok FlowContinue, s)
            else if \<not> svc_dispatch_active s then (Err (failure_new SvInternalFailure), s)
            else
              let s = s\<lparr>svc_dispatch := dp_cancel dp (svc_dispatch s), svc_dispatch_active := False,
                        svc_late_read_reply := svc_pending_read s\<rparr>;
                  ack = frame_header_new CancelAck (svc_session_id s) (fh_request_id header) 0
              in st_bind (svc_send tr ack []) (\<lambda>_ s. (Ok FlowContinue, s\<lparr>svc_active_request_id := 0\<rparr>)) s) s)"

definition svc_accept_read_reply :: "'d Dispatcher \<Rightarrow> FrameHeader \<Rightarrow> bool \<Rightarrow> ('d, 'w, unit) service_op" where
  "svc_accept_read_reply dp header discard s =
     (if \<not> svc_pending_read s then (Err (failure_protocol NoReadInFlight), s)
      else
        (case decode_read_reply_payload (svc_frame header s) (svc_pending_read_sequence s)
                (svc_pending_read_length s) of
           Err e \<Rightarrow> (Err (failure_protocol e), s)
         | Ok reply \<Rightarrow>
             st_bind (svc_observe header) (\<lambda>_ s.
               let s = s\<lparr>svc_pending_read := False, svc_late_read_reply := False,
                         svc_next_read_sequence := svc_pending_read_sequence s + 1,
                         svc_pending_read_sequence := 0, svc_pending_read_length := 0\<rparr>
               in if discard then (Ok (), s)
                  else if rp_status reply \<noteq> StatusOk then (Err (failure_new SvSourceFailure), s)
                  else svc_dispatched (dp_accept_read_reply dp reply) s) s))"

definition handle_late_read_reply :: "'d Dispatcher \<Rightarrow> FrameHeader \<Rightarrow> ('d, 'w, Flow) service_op" where
  "handle_late_read_reply dp header s =
     (if sv_state (svc_validator s) \<noteq> Cancelled \<or> \<not> svc_late_read_reply s
      then (Err (failure_protocol UnexpectedMessage), s)
      else st_bind (svc_accept_read_reply dp header True) (\<lambda>_. st_return FlowContinue) s)"

definition handle_shutdown :: "'w Transport \<Rightarrow> FrameHeader \<Rightarrow> ('d, 'w, Flow) service_op" where
  "handle_shutdown tr header s =
     (case decode_shutdown_payload (svc_frame header s) of
        Err e \<Rightarrow> (Err (failure_protocol e), s)
      | Ok _ \<Rightarrow>
          st_bind (svc_observe header) (\<lambda>_ s.
            (Ok FlowShutdown, s\<lparr>svc_pending_read := False, svc_late_read_reply := False,
                                svc_transport := tr_close_io tr (svc_transport s)\<rparr>)) s)"

definition handle_parent_frame ::
  "'w Transport \<Rightarrow> 'd Dispatcher \<Rightarrow> FrameHeader \<Rightarrow> ('d, 'w, Flow) service_op" where
  "handle_parent_frame tr dp header =
     (case fh_message_type header of
        Enumerate \<Rightarrow> begin_operation dp header OperationEnumerate
      | StreamEntry \<Rightarrow> begin_operation dp header OperationStream
      | Cancel \<Rightarrow> handle_cancel tr dp header
      | ReadReply \<Rightarrow> handle_late_read_reply dp header
      | Shutdown \<Rightarrow> handle_shutdown tr header
      | _ \<Rightarrow> st_fail (failure_protocol UnexpectedMessage))"


section \<open>Preparing a frame from a dispatcher's action\<close>

datatype Commit =
    CommitReadRequest u32 u32 | CommitEntryBatch EnumerationBudget | CommitDataChunk u64 | CommitComplete

record FrameContext =
  ctx_session_id :: u64
  ctx_request_id :: u64

record PreparedFrame =
  prep_header :: FrameHeader
  prep_payload_length :: nat
  prep_commit :: Commit

text \<open>The send buffer is the state; a context is the rest of \<open>FrameContext\<close>.\<close>

type_synonym prepare_op = "(bytes, ServiceFailure, PreparedFrame) stm"

definition prepared_frame_new ::
  "MessageType \<Rightarrow> FrameContext \<Rightarrow> nat \<Rightarrow> Commit \<Rightarrow> (ServiceFailure, PreparedFrame) result" where
  "prepared_frame_new message_type ctx payload_length commit =
     (case try_from_nat payload_length of
        None \<Rightarrow> Err (failure_internal PayloadTooLarge)
      | Some len \<Rightarrow>
          Ok \<lparr>prep_header = frame_header_new message_type (ctx_session_id ctx) (ctx_request_id ctx) len,
              prep_payload_length = payload_length, prep_commit = commit\<rparr>)"

definition encoded_as ::
  "(ProtocolError \<Rightarrow> ServiceFailure) \<Rightarrow> (bytes, ProtocolError, nat) stm \<Rightarrow> (nat \<Rightarrow> prepare_op) \<Rightarrow> prepare_op" where
  "encoded_as k encode next send_payload =
     (case encode send_payload of
        (Err e, send_payload) \<Rightarrow> (Err (k e), send_payload)
      | (Ok payload_length, send_payload) \<Rightarrow> next payload_length send_payload)"

definition saturating_sub :: "'a::len word \<Rightarrow> 'a word \<Rightarrow> 'a word" where
  "saturating_sub a b = (if b \<le> a then a - b else 0)"

definition prepare_read_request ::
  "u64 \<Rightarrow> u32 \<Rightarrow> bool \<Rightarrow> u32 \<Rightarrow> SourceReadPolicy \<Rightarrow> FrameContext \<Rightarrow> prepare_op" where
  "prepare_read_request offset len pending_read next_read_sequence source_policy ctx =
     (let fits = ucast len \<le> saturating_sub (srp_source_size source_policy) offset in
      if pending_read
         \<or> next_read_sequence = 0
         \<or> len = 0
         \<or> len > srp_maximum_read_bytes source_policy
         \<or> offset \<ge> srp_source_size source_policy
         \<or> \<not> fits
      then st_fail (rejected_action NoncanonicalValue)
      else
        encoded_as rejected_action
          (encode_read_request_payload
             \<lparr>rq_read_sequence = next_read_sequence, rq_offset = offset, rq_length = len\<rparr>
             source_policy next_read_sequence)
          (\<lambda>payload_length. st_lift (prepared_frame_new ReadRequest ctx payload_length
             (CommitReadRequest next_read_sequence len))))"

definition prepare_entry_batch ::
  "EntryBatchEntry list \<Rightarrow> Operation \<Rightarrow> EnumerationBudget \<Rightarrow> FrameContext \<Rightarrow> prepare_op" where
  "prepare_entry_batch entries operation enumeration ctx =
     (if operation \<noteq> OperationEnumerate
         \<or> entries = []
         \<or> length entries > unat MAXIMUM_ENTRY_BATCH_ENTRIES
         \<or> length entries > unat (enb_remaining_entries enumeration)
      then st_fail (rejected_action NoncanonicalValue)
      else if list_ex (\<lambda>e. ebe_archive_path e = []) entries
      then st_fail (rejected_action NoncanonicalValue)
      else
        (case budget_policy enumeration of
           Err e \<Rightarrow> st_fail (rejected_action e)
         | Ok policy \<Rightarrow>
             encoded_as rejected_action (encode_entry_batch_payload entries policy)
               (\<lambda>payload_length.
                  case budget_spend entries enumeration of
                    None \<Rightarrow> st_fail (rejected_action NoncanonicalValue)
                  | Some next \<Rightarrow>
                      st_lift (prepared_frame_new EntryBatch ctx payload_length (CommitEntryBatch next)))))"

definition prepare_data_chunk :: "bytes \<Rightarrow> Operation \<Rightarrow> u64 \<Rightarrow> FrameContext \<Rightarrow> prepare_op" where
  "prepare_data_chunk data operation remaining_stream_bytes ctx =
     (if operation \<noteq> OperationStream \<or> data = []
      then st_fail (rejected_action NoncanonicalValue)
      else
        encoded_as rejected_action (encode_data_chunk_payload \<lparr>dc_data = data\<rparr> remaining_stream_bytes)
          (\<lambda>payload_length.
             case checked_sub remaining_stream_bytes (of_nat payload_length) of
               None \<Rightarrow> st_fail (rejected_action NoncanonicalValue)
             | Some remaining \<Rightarrow>
                 st_lift (prepared_frame_new DataChunk ctx payload_length (CommitDataChunk remaining))))"

definition prepare_complete :: "Operation \<Rightarrow> u64 \<Rightarrow> FrameContext \<Rightarrow> prepare_op" where
  "prepare_complete operation remaining_stream_bytes ctx =
     (if operation = OperationStream \<and> remaining_stream_bytes \<noteq> 0
      then st_fail (rejected_action NoncanonicalValue)
      else
        encoded_as failure_internal
          (encode_complete_payload \<lparr>cm_status = StatusOk, cm_phase = PhaseComplete\<rparr>
             (case operation of OperationEnumerate \<Rightarrow> OpEnumerate | OperationStream \<Rightarrow> OpStream))
          (\<lambda>payload_length. st_lift (prepared_frame_new Complete ctx payload_length CommitComplete)))"

definition prepare_action :: "DispatchAction \<Rightarrow> ('d, 'w, PreparedFrame) service_op" where
  "prepare_action action s =
     (let ctx = \<lparr>ctx_session_id = svc_session_id s, ctx_request_id = svc_active_request_id s\<rparr>;
          prepare = (case action of
             NeedRead offset len \<Rightarrow>
               prepare_read_request offset len (svc_pending_read s) (svc_next_read_sequence s)
                 (svc_source_policy s) ctx
           | ActEntryBatch entries \<Rightarrow>
               prepare_entry_batch entries (svc_active_operation s) (svc_enumeration s) ctx
           | ActDataChunk data \<Rightarrow>
               prepare_data_chunk data (svc_active_operation s) (svc_remaining_stream_bytes s) ctx
           | ActComplete \<Rightarrow>
               prepare_complete (svc_active_operation s) (svc_remaining_stream_bytes s) ctx)
      in case prepare (svc_send_payload s) of (r, payload) \<Rightarrow> (r, s\<lparr>svc_send_payload := payload\<rparr>))"


section \<open>The session loop\<close>

definition await_read_reply_or_cancel :: "'w Transport \<Rightarrow> 'd Dispatcher \<Rightarrow> ('d, 'w, unit) service_op" where
  "await_read_reply_or_cancel tr dp =
     st_bind (svc_receive tr) (\<lambda>header.
       case fh_message_type header of
         Cancel \<Rightarrow> st_bind (handle_cancel tr dp header) (\<lambda>_. st_return ())
       | ReadReply \<Rightarrow> svc_accept_read_reply dp header False
       | _ \<Rightarrow> st_fail (failure_protocol UnexpectedMessage))"

definition record_pending_read :: "Commit \<Rightarrow> ('d, 'w) Service \<Rightarrow> ('d, 'w) Service" where
  "record_pending_read commit s =
     (case commit of
        CommitReadRequest sequence len \<Rightarrow>
          s\<lparr>svc_pending_read := True, svc_pending_read_sequence := sequence, svc_pending_read_length := len\<rparr>
      | _ \<Rightarrow> s)"

definition apply_commit :: "'w Transport \<Rightarrow> 'd Dispatcher \<Rightarrow> Commit \<Rightarrow> ('d, 'w, unit) service_op" where
  "apply_commit tr dp commit s =
     (case commit of
        CommitReadRequest sequence len \<Rightarrow> await_read_reply_or_cancel tr dp s
      | CommitEntryBatch next \<Rightarrow> (Ok (), s\<lparr>svc_enumeration := next\<rparr>)
      | CommitDataChunk remaining \<Rightarrow> (Ok (), s\<lparr>svc_remaining_stream_bytes := remaining\<rparr>)
      | CommitComplete \<Rightarrow>
          (Ok (), s\<lparr>svc_dispatch := dp_end dp (svc_dispatch s), svc_dispatch_active := False,
                    svc_active_request_id := 0\<rparr>))"

definition dispatch_once :: "'w Transport \<Rightarrow> 'd Dispatcher \<Rightarrow> ('d, 'w, unit) service_op" where
  "dispatch_once tr dp =
     st_bind (svc_dispatched (dp_step dp)) (\<lambda>action.
     st_bind (prepare_action action) (\<lambda>prepared s.
       let s = record_pending_read (prep_commit prepared) s in
       st_bind (svc_send tr (prep_header prepared) (take (prep_payload_length prepared) (svc_send_payload s)))
         (\<lambda>_. apply_commit tr dp (prep_commit prepared)) s))"

definition run_active_operation :: "'w Transport \<Rightarrow> 'd Dispatcher \<Rightarrow> ('d, 'w, unit) service_op" where
  "run_active_operation tr dp s =
     (case tr_probe_input tr (svc_transport s) of (input, w) \<Rightarrow>
        let s = s\<lparr>svc_transport := w\<rparr> in
        case input of
          InputPeerClosed \<Rightarrow> (Err (failure_transport IoPeerClosed), s)
        | InputFailed \<Rightarrow> (Err (failure_transport IoFailed), s)
        | InputAvailable \<Rightarrow>
            st_bind (svc_receive tr) (\<lambda>header.
              if fh_message_type header \<noteq> Cancel then st_fail (failure_protocol UnexpectedMessage)
              else st_bind (handle_cancel tr dp header) (\<lambda>_. st_return ())) s
        | InputUnavailable \<Rightarrow>
            if svc_dispatch_steps s \<ge> sl_maximum_dispatch_steps (svc_limits s)
            then (Err (failure_new SvDispatchBudgetExceeded), s)
            else dispatch_once tr dp (s\<lparr>svc_dispatch_steps := svc_dispatch_steps s + 1\<rparr>))"

text \<open>One turn of the loop.\<close>

definition service_turn :: "'w Transport \<Rightarrow> 'd Dispatcher \<Rightarrow> ('d, 'w, Flow) service_op" where
  "service_turn tr dp s =
     (if sv_state (svc_validator s) = Enumerating \<or> sv_state (svc_validator s) = Streaming
      then st_bind (run_active_operation tr dp) (\<lambda>_. st_return FlowContinue) s
      else st_bind (svc_receive tr) (handle_parent_frame tr dp) s)"

partial_function (option) service_run ::
  "'w Transport \<Rightarrow> 'd Dispatcher \<Rightarrow> ('d, 'w) Service \<Rightarrow>
     ((ServiceFailure, unit) result \<times> ('d, 'w) Service) option" where
  "service_run tr dp s =
     (case service_turn tr dp s of
        (Err e, s) \<Rightarrow> Some (Err e, s)
      | (Ok flow, s) \<Rightarrow> (case flow of FlowShutdown \<Rightarrow> Some (Ok (), s) | FlowContinue \<Rightarrow> service_run tr dp s))"


section \<open>One lifetime\<close>

record WorkerHandshake =
  wh_validator :: SessionValidator
  wh_session_id :: u64
  wh_source_policy :: SourceReadPolicy

definition worker_handshake ::
  "'w Transport \<Rightarrow> ServiceLimits \<Rightarrow> (bytes \<times> 'w, ServiceFailure, WorkerHandshake) stm" where
  "worker_handshake tr limits x =
     (case receive_frame tr 0 x of
        (Err e, x) \<Rightarrow> (Err (failure_of_receive e), x)
      | (Ok header, receive_payload, w) \<Rightarrow>
          (case decode_hello_payload
                  (frame_view_new header (take (unat (fh_payload_length header)) receive_payload)) of
             Err e \<Rightarrow> (Err (failure_protocol e), receive_payload, w)
           | Ok hello \<Rightarrow>
               (case session_id_new (fh_session_id header) of
                  None \<Rightarrow> (Err (failure_protocol InvalidSessionId), receive_payload, w)
                | Some session_id \<Rightarrow>
                    (case source_read_policy_new (hello_source_size hello) (hello_maximum_read_bytes hello) of
                       Err e \<Rightarrow> (Err (failure_protocol e), receive_payload, w)
                     | Ok source_policy \<Rightarrow>
                         (case observe ParentToWorker header
                                 (session_validator_new session_id (sl_protocol_budgets limits)) of
                            (Err e, _) \<Rightarrow>
                              (Err ((failure_protocol e)\<lparr>fl_session_id := session_id\<rparr>), receive_payload, w)
                          | (Ok _, validator) \<Rightarrow>
                              (case send_frame tr (frame_header_new Ready session_id 0 0) [] (validator, w) of
                                 (Err f, _, w) \<Rightarrow> (Err (f\<lparr>fl_session_id := session_id\<rparr>), receive_payload, w)
                               | (Ok _, validator, w) \<Rightarrow>
                                   (Ok \<lparr>wh_validator = validator, wh_session_id = session_id,
                                        wh_source_policy = source_policy\<rparr>, receive_payload, w)))))))"

definition service_new ::
  "WorkerHandshake \<Rightarrow> ServiceLimits \<Rightarrow> 'd \<Rightarrow> bytes \<Rightarrow> bytes \<Rightarrow> 'w \<Rightarrow> ('d, 'w) Service" where
  "service_new hs limits d receive_payload send_payload w =
     \<lparr>svc_transport = w, svc_dispatch = d, svc_receive_payload = receive_payload,
      svc_send_payload = send_payload, svc_limits = limits, svc_validator = wh_validator hs,
      svc_source_policy = wh_source_policy hs, svc_enumeration = enumeration_budget_start,
      svc_active_operation = OperationEnumerate, svc_session_id = wh_session_id hs,
      svc_active_request_id = 0, svc_remaining_stream_bytes = 0, svc_dispatch_steps = 0,
      svc_next_read_sequence = 1, svc_pending_read_sequence = 0, svc_pending_read_length = 0,
      svc_dispatch_active = False, svc_pending_read = False, svc_late_read_reply = False\<rparr>"

text \<open>The fail-closed path, and the report.\<close>

definition service_finish ::
  "'w Transport \<Rightarrow> 'd Dispatcher \<Rightarrow> (ServiceFailure, unit) result \<times> ('d, 'w) Service \<Rightarrow>
     (ServiceFailure, ServiceSummary) result \<times> 'd \<times> 'w" where
  "service_finish tr dp x =
     (case x of
        (Ok _, s) \<Rightarrow>
          (Ok \<lparr>sum_session_id = svc_session_id s, sum_dispatch_steps = svc_dispatch_steps s\<rparr>,
           svc_dispatch s, svc_transport s)
      | (Err f, s) \<Rightarrow>
          let s = (if svc_dispatch_active s
                   then s\<lparr>svc_dispatch := dp_cancel dp (svc_dispatch s), svc_dispatch_active := False\<rparr>
                   else s)
          in (Err (f\<lparr>fl_session_id := svc_session_id s, fl_dispatch_steps := svc_dispatch_steps s\<rparr>),
              svc_dispatch s, tr_abort_io tr (svc_transport s)))"

definition run_parser_worker_service ::
  "'w Transport \<Rightarrow> 'd Dispatcher \<Rightarrow> ServiceBuffers \<Rightarrow> ServiceLimits \<Rightarrow> 'd \<times> 'w \<Rightarrow>
     ((ServiceFailure, ServiceSummary) result \<times> 'd \<times> 'w) option" where
  "run_parser_worker_service tr dp buffers limits x =
     (case x of (d, w) \<Rightarrow>
        if length (bufs_receive_payload buffers) < unat MAXIMUM_FRAME_PAYLOAD_BYTES
           \<or> length (bufs_send_payload buffers) < unat MAXIMUM_FRAME_PAYLOAD_BYTES
           \<or> \<not> service_limits_valid limits
        then Some (Err (failure_new SvInvalidConfiguration), d, tr_abort_io tr w)
        else
          (case worker_handshake tr limits (bufs_receive_payload buffers, w) of
             (Err f, _, w) \<Rightarrow> Some (Err f, d, tr_abort_io tr w)
           | (Ok hs, receive_payload, w) \<Rightarrow>
               map_option (service_finish tr dp)
                 (service_run tr dp (service_new hs limits d receive_payload (bufs_send_payload buffers) w))))"

end
