(* ===== verification/Worker_Service_Correct.thy ===== *)
theory Worker_Service_Correct
  imports Worker_Service
begin

text \<open>
  The worker's service returns on every input, treats its back end and its transport as their
  contracts say, and speaks only what the protocol specification admits.
\<close>


section \<open>Progress\<close>

text \<open>
  \<open>advances k f\<close>: whatever \<open>f\<close> returns, limits, session and the bound on dispatch steps are kept; when
  it succeeds, the validator has admitted at least \<open>k\<close> more messages.  Sequencing adds.
\<close>

definition steps_within :: "('d, 'w) Service \<Rightarrow> bool" where
  "steps_within s \<longleftrightarrow> svc_dispatch_steps s \<le> sl_maximum_dispatch_steps (svc_limits s)"

definition same_frame :: "('d, 'w) Service \<Rightarrow> ('d, 'w) Service \<Rightarrow> bool" where
  "same_frame s t \<longleftrightarrow> svc_limits t = svc_limits s \<and> svc_session_id t = svc_session_id s \<and>
     (steps_within s \<longrightarrow> steps_within t)"

definition charged_since :: "nat \<Rightarrow> SessionValidator \<Rightarrow> SessionValidator \<Rightarrow> bool" where
  "charged_since k v u \<longleftrightarrow> sv_inv u \<and> same_session v u \<and>
     unat (sv_message_count v) + k \<le> unat (sv_message_count u)"

definition advances :: "nat \<Rightarrow> ('d, 'w, 'a) service_op \<Rightarrow> bool" where
  "advances k f \<longleftrightarrow> (\<forall>s. case f s of (r, t) \<Rightarrow> same_frame s t \<and>
     (is_ok r \<longrightarrow> sv_inv (svc_validator s) \<longrightarrow> charged_since k (svc_validator s) (svc_validator t)))"

lemma advancesD:
  assumes "advances k f" and "f s = (r, t)"
  shows "same_frame s t"
    and "r = Ok v \<Longrightarrow> sv_inv (svc_validator s) \<Longrightarrow> charged_since k (svc_validator s) (svc_validator t)"
  using assms by (auto simp: advances_def split: prod.splits)

lemma same_frame_refl [simp]: "same_frame s s"
  by (simp add: same_frame_def)

lemma same_frame_trans: "same_frame s t \<Longrightarrow> same_frame t u \<Longrightarrow> same_frame s u"
  by (auto simp: same_frame_def)

lemma charged_since_trans: "charged_since j v u \<Longrightarrow> charged_since k u x \<Longrightarrow> charged_since (j + k) v x"
  by (auto simp: charged_since_def same_session_def)

lemma charged_since_0: "sv_inv v \<Longrightarrow> charged_since 0 v v"
  by (simp add: charged_since_def same_session_def)

lemma advances_weaken: "advances k f \<Longrightarrow> j \<le> k \<Longrightarrow> advances j f"
  by (fastforce simp: advances_def charged_since_def split: prod.splits)

lemma advances_bind:
  assumes "advances j f" and "\<And>v. advances k (g v)"
  shows "advances (j + k) (st_bind f g)"
proof -
  have "same_frame s t \<and>
      (is_ok r \<longrightarrow> sv_inv (svc_validator s) \<longrightarrow> charged_since (j + k) (svc_validator s) (svc_validator t))"
    if run: "st_bind f g s = (r, t)" for s r t
  proof -
    obtain q u where f: "f s = (q, u)" by fastforce
    show ?thesis
    proof (cases q)
      case (Err e)
      then show ?thesis using run f advancesD(1)[OF assms(1) f] by (auto simp: st_bind_def)
    next
      case (Ok v)
      then have g: "g v u = (r, t)" using run f by (simp add: st_bind_def)
      have "same_frame s t"
        using same_frame_trans advancesD(1)[OF assms(1) f] advancesD(1)[OF assms(2) g] by blast
      moreover have "charged_since (j + k) (svc_validator s) (svc_validator t)"
        if ok: "is_ok r" and inv: "sv_inv (svc_validator s)"
      proof -
        have one: "charged_since j (svc_validator s) (svc_validator u)" using advancesD(2)[OF assms(1) f Ok inv] .
        then have "sv_inv (svc_validator u)" by (simp add: charged_since_def)
        moreover obtain x where "r = Ok x" using ok by (auto simp: is_ok_iff)
        ultimately show ?thesis using charged_since_trans[OF one] advancesD(2)[OF assms(2) g] by blast
      qed
      ultimately show ?thesis by blast
    qed
  qed
  then show ?thesis unfolding advances_def by (auto split: prod.splits)
qed

lemma advances_pointwise: "(\<And>s. \<exists>g. advances k g \<and> f s = g s) \<Longrightarrow> advances k f"
  unfolding advances_def by (rule allI) (metis (no_types))

lemma advances_param: "(\<And>x. advances k (g x)) \<Longrightarrow> advances k (\<lambda>s. g (a s) s)"
  by (rule advances_pointwise) blast

lemma advances_if: "advances k f \<Longrightarrow> advances k g \<Longrightarrow> advances k (\<lambda>s. if b s then f s else g s)"
  by (rule advances_pointwise) (metis (full_types))

lemma advances_return [simp]: "advances 0 (st_return v)"
  by (simp add: advances_def charged_since_0)

lemma advances_fail [simp]: "advances k (st_fail e)"
  by (simp add: advances_def)

lemma advances_Err: "(\<And>s. same_frame s (u s)) \<Longrightarrow> advances k (\<lambda>s. (Err (e s), u s))"
  by (simp add: advances_def)

lemma advances_update:
  "(\<And>s. same_frame s (u s) \<and> svc_validator (u s) = svc_validator s) \<Longrightarrow> advances 0 (\<lambda>s. (Ok (v s), u s))"
  by (simp add: advances_def charged_since_0)

lemma advances_lift [simp]: "advances 0 (\<lambda>s. st_lift (r s) s)"
  by (auto simp: advances_def charged_since_0)

lemma advances_receive: "advances 0 (svc_receive tr)"
  by (auto simp: advances_def svc_receive_def same_frame_def steps_within_def charged_since_0 split: prod.splits)

lemma advances_dispatched: "advances 0 (svc_dispatched f)"
  by (auto simp: advances_def svc_dispatched_def same_frame_def steps_within_def charged_since_0 split: prod.splits)

lemma observe_charges: "sv_inv v \<Longrightarrow> observe d h v = (Ok u, v') \<Longrightarrow> charged_since (Suc 0) v v'"
  using observe_Ok_refines[of v d h v'] by (simp add: charged_since_def)

lemma advances_observe: "advances (Suc 0) (svc_observe h)"
  using observe_charges
  by (auto simp: advances_def svc_observe_def same_frame_def steps_within_def is_ok_iff map_err_Ok split: prod.splits)

lemma send_frame_Ok_observes:
  "send_frame tr h payload (v, w) = (Ok u, v', w') \<Longrightarrow> observe WorkerToParent h v = (Ok (), v')"
  by (auto simp: send_frame_def split: if_splits prod.splits result.splits)

lemma advances_send: "advances (Suc 0) (svc_send tr h payload)"
  using observe_charges send_frame_Ok_observes
  by (fastforce simp: advances_def svc_send_def same_frame_def steps_within_def is_ok_iff split: prod.splits)

lemmas advances_blocks = advances_receive advances_dispatched advances_observe advances_send

lemmas failure_defs = failure_new_def failure_transport_def failure_protocol_def failure_dispatch_def
  rejected_action_def failure_internal_def

lemma failure_of_receive_steps [simp]: "fl_dispatch_steps (failure_of_receive e) = 0"
  by (cases e) (simp_all add: failure_defs)

lemmas frame_simps = same_frame_def steps_within_def

lemma advances_request_token: "advances 0 (request_token h op)"
  by (auto simp: advances_def request_token_def charged_since_0 split: Operation.split)

lemma advances_after: "advances 0 f \<Longrightarrow> (\<And>v. advances k (g v)) \<Longrightarrow> advances k (st_bind f g)"
  using advances_bind[of 0 f k g] by simp

lemma advances_before: "advances (Suc 0) f \<Longrightarrow> (\<And>v. advances 0 (g v)) \<Longrightarrow> advances (Suc 0) (st_bind f g)"
  using advances_bind[of "Suc 0" f 0 g] by simp

lemma advances_moved: "advances 0 f \<Longrightarrow> (\<And>s. same_frame s (u s) \<and> svc_validator (u s) = svc_validator s) \<Longrightarrow>
    advances 0 (\<lambda>s. f (u s))"
  by (fastforce simp: advances_def intro: same_frame_trans split: prod.splits)

lemma advances_moved1: "advances (Suc 0) f \<Longrightarrow> (\<And>s. same_frame s (u s) \<and> svc_validator (u s) = svc_validator s) \<Longrightarrow>
    advances (Suc 0) (\<lambda>s. f (u s))"
  by (fastforce simp: advances_def intro: same_frame_trans split: prod.splits)

lemma advances_begin_operation: "advances (Suc 0) (begin_operation dp h op)"
proof -
  have "advances 0 (st_bind (svc_dispatched (dp_begin dp op token policy)) (\<lambda>stream_size s.
       if \<not> size_is_canonical op stream_size
       then (Err (rejected_action NoncanonicalValue), s\<lparr>svc_dispatch := dp_cancel dp (svc_dispatch s)\<rparr>)
       else (Ok FlowContinue, svc_activate h op stream_size s)))" for token policy
    by (intro advances_after[OF advances_dispatched] advances_if advances_Err advances_update)
      (simp_all add: frame_simps svc_activate_def)
  then show ?thesis unfolding begin_operation_def
    by (intro advances_after[OF advances_request_token] advances_before[OF advances_observe]) (rule advances_param)
qed

lemma advances_handle_cancel: "advances (Suc 0) (handle_cancel tr dp h)"
proof (rule advances_pointwise)
  fix s :: "('a, 'b) Service"
  let ?cancelled = "\<lambda>s. s\<lparr>svc_dispatch := dp_cancel dp (svc_dispatch s), svc_dispatch_active := False,
      svc_late_read_reply := svc_pending_read s\<rparr>"
  let ?acked = "\<lambda>sid. st_bind (svc_send tr (frame_header_new CancelAck sid (fh_request_id h) 0) [])
      (\<lambda>_ s. (Ok FlowContinue, s\<lparr>svc_active_request_id := 0\<rparr>))"
  let ?ack = "\<lambda>s. ?acked (svc_session_id (?cancelled s)) (?cancelled s)"
  have "advances (Suc 0) (?acked sid)" for sid
    by (intro advances_before advances_send advances_update) (simp add: frame_simps)
  then have "advances (Suc 0) (\<lambda>s. ?acked (svc_session_id s) s)" by (rule advances_param)
  then have "advances (Suc 0) ?ack" by (rule advances_moved1) (simp add: frame_simps)
  then have ack: "advances 0 ?ack" by (rule advances_weaken) simp
  show "\<exists>g. advances (Suc 0) g \<and> handle_cancel tr dp h s = g s"
  proof (cases "decode_cancel_payload (svc_frame h s)")
    case (Err e)
    then show ?thesis by (intro exI[of _ "st_fail (failure_protocol e)"]) (simp add: handle_cancel_def)
  next
    case (Ok u)
    have "advances (Suc 0) (st_bind (svc_observe h) (\<lambda>_ t. if sv_state (svc_validator s) = Idle then (Ok FlowContinue, t)
        else if \<not> svc_dispatch_active t then (Err (failure_new SvInternalFailure), t) else ?ack t))"
      by (intro advances_before advances_observe advances_if advances_update advances_Err ack) simp_all
    then show ?thesis using Ok unfolding handle_cancel_def Let_def by (intro exI) (auto simp only: result.case)
  qed
qed

lemma advances_accept_read_reply: "advances (Suc 0) (svc_accept_read_reply dp h discard)"
proof (rule advances_pointwise)
  fix s :: "('a, 'b) Service"
  let ?r = "decode_read_reply_payload (svc_frame h s) (svc_pending_read_sequence s) (svc_pending_read_length s)"
  let ?answered = "\<lambda>s. s\<lparr>svc_pending_read := False, svc_late_read_reply := False,
      svc_next_read_sequence := svc_pending_read_sequence s + 1, svc_pending_read_sequence := 0,
      svc_pending_read_length := 0\<rparr>"
  have last: "advances 0 (\<lambda>s. (if discard then (Ok (), ?answered s)
      else if rp_status reply \<noteq> StatusOk then (Err (failure_new SvSourceFailure), ?answered s)
      else svc_dispatched (dp_accept_read_reply dp reply) (?answered s)))" for reply
    by (intro advances_if advances_update advances_Err advances_moved[OF advances_dispatched]) (simp_all add: frame_simps)
  show "\<exists>g. advances (Suc 0) g \<and> svc_accept_read_reply dp h discard s = g s"
  proof (cases "svc_pending_read s")
    case False
    then show ?thesis
      by (intro exI[of _ "st_fail (failure_protocol NoReadInFlight)"]) (simp add: svc_accept_read_reply_def)
  next
    case pending: True
    show ?thesis
    proof (cases ?r)
      case (Err e)
      then show ?thesis using pending
        by (intro exI[of _ "st_fail (failure_protocol e)"]) (simp add: svc_accept_read_reply_def)
    next
      case (Ok reply)
      then show ?thesis using pending advances_before[OF advances_observe last]
        by (intro exI) (auto simp: svc_accept_read_reply_def Let_def)
    qed
  qed
qed

lemma advances_handle_late_read_reply: "advances (Suc 0) (handle_late_read_reply dp h)"
  unfolding handle_late_read_reply_def
  by (intro advances_if advances_Err advances_before advances_accept_read_reply advances_return) simp

lemma advances_handle_shutdown: "advances (Suc 0) (handle_shutdown tr h)"
proof (rule advances_pointwise)
  fix s :: "('a, 'b) Service"
  have "advances (Suc 0) (st_bind (svc_observe h) (\<lambda>_ s. (Ok FlowShutdown, s\<lparr>svc_pending_read := False,
      svc_late_read_reply := False, svc_transport := tr_close_io tr (svc_transport s)\<rparr>)))"
    by (intro advances_before advances_observe advances_update) (simp add: frame_simps)
  then show "\<exists>g. advances (Suc 0) g \<and> handle_shutdown tr h s = g s"
    by (cases "decode_shutdown_payload (svc_frame h s)")
      (auto simp: handle_shutdown_def intro: exI[of _ "st_fail _"])
qed

lemma advances_handle_parent_frame: "advances (Suc 0) (handle_parent_frame tr dp h)"
  by (cases "fh_message_type h")
    (simp_all add: handle_parent_frame_def advances_begin_operation advances_handle_cancel
      advances_handle_late_read_reply advances_handle_shutdown)

lemma advances_prepare_action: "advances 0 (prepare_action action)"
  by (auto simp: advances_def prepare_action_def Let_def frame_simps charged_since_0 split: prod.splits)

lemma advances_await: "advances (Suc 0) (await_read_reply_or_cancel tr dp)"
proof -
  have "advances (Suc 0) (case fh_message_type h of
         Cancel \<Rightarrow> st_bind (handle_cancel tr dp h) (\<lambda>_. st_return ())
       | ReadReply \<Rightarrow> svc_accept_read_reply dp h False
       | _ \<Rightarrow> st_fail (failure_protocol UnexpectedMessage))" for h
    by (cases "fh_message_type h")
      (simp_all add: advances_accept_read_reply advances_before[OF advances_handle_cancel])
  then show ?thesis unfolding await_read_reply_or_cancel_def by (intro advances_after advances_receive)
qed

lemma advances_apply_commit: "advances 0 (apply_commit tr dp commit)"
  unfolding apply_commit_def
  by (cases commit)
    (auto intro: advances_weaken[OF advances_await] intro!: advances_update simp: frame_simps)

lemma advances_dispatch_once: "advances (Suc 0) (dispatch_once tr dp)"
proof -
  have send: "advances (Suc 0) (\<lambda>s. st_bind (svc_send tr (prep_header p) (take (prep_payload_length p) (svc_send_payload s)))
         (\<lambda>_. apply_commit tr dp (prep_commit p)) s)" for p
    by (rule advances_param) (intro advances_before advances_send advances_apply_commit)
  have "advances (Suc 0) (\<lambda>s. let s = record_pending_read (prep_commit p) s in
      st_bind (svc_send tr (prep_header p) (take (prep_payload_length p) (svc_send_payload s)))
         (\<lambda>_. apply_commit tr dp (prep_commit p)) s)" for p
    unfolding Let_def by (rule advances_moved1[OF send]) (auto simp: record_pending_read_def frame_simps split: Commit.split)
  then show ?thesis unfolding dispatch_once_def
    by (intro advances_after[OF advances_dispatched] advances_after[OF advances_prepare_action])
qed

lemma advances_step_taken:
  "advances (Suc 0) (\<lambda>s. if svc_dispatch_steps s \<ge> sl_maximum_dispatch_steps (svc_limits s)
      then (Err (failure_new SvDispatchBudgetExceeded), s)
      else dispatch_once tr dp (s\<lparr>svc_dispatch_steps := svc_dispatch_steps s + 1\<rparr>))"
proof (rule advances_pointwise)
  fix s :: "('a, 'b) Service"
  let ?u = "\<lambda>s. if svc_dispatch_steps s \<ge> sl_maximum_dispatch_steps (svc_limits s) then s
      else s\<lparr>svc_dispatch_steps := svc_dispatch_steps s + 1\<rparr>"
  have "advances (Suc 0) (\<lambda>s. dispatch_once tr dp (?u s))"
    by (rule advances_moved1[OF advances_dispatch_once]) (auto simp: frame_simps inc_le not_le)
  then show "\<exists>g. advances (Suc 0) g \<and> (if svc_dispatch_steps s \<ge> sl_maximum_dispatch_steps (svc_limits s)
      then (Err (failure_new SvDispatchBudgetExceeded), s)
      else dispatch_once tr dp (s\<lparr>svc_dispatch_steps := svc_dispatch_steps s + 1\<rparr>)) = g s"
  proof (cases "svc_dispatch_steps s \<ge> sl_maximum_dispatch_steps (svc_limits s)")
    case True
    then show ?thesis by (intro exI[of _ "st_fail (failure_new SvDispatchBudgetExceeded)"]) simp
  next
    case False
    then show ?thesis using \<open>advances (Suc 0) (\<lambda>s. dispatch_once tr dp (?u s))\<close> by (intro exI) auto
  qed
qed

lemma advances_run_active_operation: "advances (Suc 0) (run_active_operation tr dp)"
proof (rule advances_pointwise)
  fix s :: "('a, 'b) Service"
  obtain input w where probe: "tr_probe_input tr (svc_transport s) = (input, w)" by fastforce
  have received: "advances (Suc 0) (st_bind (svc_receive tr) (\<lambda>header.
              if fh_message_type header \<noteq> Cancel then st_fail (failure_protocol UnexpectedMessage)
              else st_bind (handle_cancel tr dp header) (\<lambda>_. st_return ())))"
    by (intro advances_after advances_receive) (simp add: advances_before[OF advances_handle_cancel])
  have moved: "advances (Suc 0) f \<Longrightarrow> advances (Suc 0) (\<lambda>s. f (s\<lparr>svc_transport := w\<rparr>))"
    for f :: "('a, 'b, unit) service_op"
    by (rule advances_moved1) (simp_all add: frame_simps)
  show "\<exists>g. advances (Suc 0) g \<and> run_active_operation tr dp s = g s"
  proof (cases input)
    case InputUnavailable
    then show ?thesis using probe moved[OF advances_step_taken]
      by (intro exI) (auto simp: run_active_operation_def Let_def)
  next
    case InputAvailable
    then show ?thesis using probe moved[OF received] by (intro exI) (auto simp: run_active_operation_def Let_def)
  next
    case InputPeerClosed
    then show ?thesis using probe moved[OF advances_fail[of _ "failure_transport IoPeerClosed"]]
      by (intro exI) (auto simp: run_active_operation_def Let_def)
  next
    case InputFailed
    then show ?thesis using probe moved[OF advances_fail[of _ "failure_transport IoFailed"]]
      by (intro exI) (auto simp: run_active_operation_def Let_def)
  qed
qed

lemma advances_service_turn: "advances (Suc 0) (service_turn tr dp)"
  unfolding service_turn_def
  by (intro advances_if advances_before[OF advances_run_active_operation] advances_after[OF advances_receive]
      advances_handle_parent_frame) simp

text \<open>What the budget still admits falls with every turn, so the loop ends.\<close>

definition messages_left :: "('d, 'w) Service \<Rightarrow> nat" where
  "messages_left s = unat (pb_maximum_messages (sv_budgets (svc_validator s))) - unat (sv_message_count (svc_validator s))"

lemma turn_spends:
  assumes "service_turn tr dp s = (Ok flow, t)" and "sv_inv (svc_validator s)"
  shows "sv_inv (svc_validator t)" and "same_frame s t" and "messages_left t < messages_left s"
proof -
  note adv = advancesD[OF advances_service_turn assms(1)]
  have c: "charged_since (Suc 0) (svc_validator s) (svc_validator t)" using adv(2) assms(2) by simp
  then show "sv_inv (svc_validator t)" by (simp add: charged_since_def)
  then have "sv_message_count (svc_validator t) \<le> pb_maximum_messages (sv_budgets (svc_validator t))"
    by (simp add: sv_inv_def budget_inv_def)
  then show "messages_left t < messages_left s"
    using c by (auto simp: messages_left_def charged_since_def same_session_def word_le_nat_alt)
  show "same_frame s t" using adv(1) .
qed

lemma service_run_returns:
  "sv_inv (svc_validator s) \<Longrightarrow> \<exists>r t. service_run tr dp s = Some (r, t) \<and> same_frame s t"
proof (induction "messages_left s" arbitrary: s rule: less_induct)
  case less
  obtain r t where turn: "service_turn tr dp s = (r, t)" by fastforce
  have frame: "same_frame s t" using advancesD(1)[OF advances_service_turn turn] .
  show ?case
  proof (cases r)
    case (Err e)
    then show ?thesis using turn frame by (simp add: service_run.simps)
  next
    case (Ok flow)
    note spent = turn_spends[OF turn[unfolded Ok] less.prems]
    show ?thesis
    proof (cases flow)
      case FlowShutdown
      then show ?thesis using turn Ok frame by (simp add: service_run.simps)
    next
      case FlowContinue
      then have "service_run tr dp s = service_run tr dp t" using turn Ok by (subst service_run.simps) simp
      then show ?thesis using less.hyps[OF spent(3,1)] same_frame_trans[OF frame] by auto
    qed
  qed
qed

lemma handshake_inv:
  assumes "worker_handshake tr limits x = (Ok hs, y)"
  shows "sv_inv (wh_validator hs)"
  using assms observe_Ok_refines[OF session_validator_new_inv] observe_Ok_refines
  by (fastforce simp: worker_handshake_def dest!: send_frame_Ok_observes split: prod.splits result.splits option.splits)

lemma service_returns:
  "\<exists>r y. run_parser_worker_service tr dp buffers limits x = Some (r, y) \<and>
     (case r of Ok summary \<Rightarrow> sum_dispatch_steps summary | Err f \<Rightarrow> fl_dispatch_steps f)
       \<le> sl_maximum_dispatch_steps limits"
proof -
  obtain d w where x: "x = (d, w)" by (cases x)
  obtain r buf w1 where hs: "worker_handshake tr limits (bufs_receive_payload buffers, w) = (r, buf, w1)"
    by (metis prod.collapse)
  have early: "fl_dispatch_steps f = 0" if "r = Err f" for f
    using hs that
    by (auto simp: worker_handshake_def failure_defs send_frame_def
        split: prod.splits result.splits option.splits if_splits)
  show ?thesis
  proof (cases r)
    case (Err f)
    then show ?thesis using x hs early by (auto simp: run_parser_worker_service_def failure_new_def)
  next
    case (Ok h)
    let ?s = "service_new h limits d buf (bufs_send_payload buffers) w1"
    have "sv_inv (svc_validator ?s)" using handshake_inv[OF hs[unfolded Ok]] by (simp add: service_new_def)
    from service_run_returns[OF this, of tr dp] obtain q t
      where run: "service_run tr dp ?s = Some (q, t)" and frame: "same_frame ?s t" by blast
    have "steps_within t" "svc_limits t = limits"
      using frame by (auto simp: same_frame_def steps_within_def service_new_def)
    then show ?thesis using x hs Ok run
      by (cases q)
        (auto simp: run_parser_worker_service_def service_finish_def steps_within_def failure_new_def Let_def)
  qed
qed

text \<open>
  C4: the worker's service always returns.  For every transport, every parser back end, all buffers and
  all limits, one lifetime ends with a report, because every turn of the session loop spends at least
  one message of the protocol budget; and the reported number of dispatch steps is within the limit.
\<close>

theorem service_always_returns:
  "\<exists>r y. run_parser_worker_service tr dp buffers limits x = Some (r, y) \<and>
     (case r of Ok summary \<Rightarrow> sum_dispatch_steps summary | Err f \<Rightarrow> fl_dispatch_steps f)
       \<le> sl_maximum_dispatch_steps limits"
  by (rule service_returns)

end
