(* ===== verification/Worker_Conversation.thy ===== *)
theory Worker_Conversation
  imports Worker_Service_Correct
begin

text \<open>
  What the worker's service says and does over one lifetime: the transport and the back end are
  watched, and the invariant of the session loop ties the record of both to the service's state.
\<close>


section \<open>Watching the capabilities\<close>

text \<open>The record of transfers, the number of aborts and the number of closes, beside the transport.\<close>

type_synonym 'w metered = "transfers \<times> nat \<times> nat \<times> 'w"

definition metered :: "'w Transport \<Rightarrow> 'w metered Transport" where
  "metered tr =
     \<lparr>tr_read_exact = (\<lambda>dst (log, a, c, w). case tr_read_exact tr dst w of
        (status, dst', w') \<Rightarrow> (status, dst', log @ [(ParentToWorker, dst')], a, c, w')),
      tr_write_all = (\<lambda>bs (log, a, c, w). case tr_write_all tr bs w of
        (status, w') \<Rightarrow> (status, log @ [(WorkerToParent, bs)], a, c, w')),
      tr_probe_input = (\<lambda>(log, a, c, w). case tr_probe_input tr w of (input, w') \<Rightarrow> (input, log, a, c, w')),
      tr_abort_io = (\<lambda>(log, a, c, w). (log, a + 1, c, tr_abort_io tr w)),
      tr_close_io = (\<lambda>(log, a, c, w). (log, a, c + 1, tr_close_io tr w))\<rparr>"

datatype DispatchEvent = EvBegin | EvStep | EvReply | EvCancel | EvEnd

definition watched :: "'d Dispatcher \<Rightarrow> (DispatchEvent list \<times> 'd) Dispatcher" where
  "watched dp =
     \<lparr>dp_begin = (\<lambda>operation token policy (es, d). case dp_begin dp operation token policy d of
        (Ok n, d') \<Rightarrow> (Ok n, es @ [EvBegin], d') | (Err e, d') \<Rightarrow> (Err e, es, d')),
      dp_step = (\<lambda>(es, d). case dp_step dp d of (r, d') \<Rightarrow> (r, es @ [EvStep], d')),
      dp_accept_read_reply = (\<lambda>reply (es, d). case dp_accept_read_reply dp reply d of
        (r, d') \<Rightarrow> (r, es @ [EvReply], d')),
      dp_cancel = (\<lambda>(es, d). (es @ [EvCancel], dp_cancel dp d)),
      dp_end = (\<lambda>(es, d). (es @ [EvEnd], dp_end dp d))\<rparr>"

text \<open>
  The life of a back end: it is idle until a request begins, is stepped and answered only while one is
  active, and every request it began is either cancelled or ended, once.
\<close>

fun life_step :: "DispatchEvent \<Rightarrow> bool \<Rightarrow> bool option" where
  "life_step EvBegin active = (if active then None else Some True)"
| "life_step EvStep active = (if active then Some True else None)"
| "life_step EvReply active = (if active then Some True else None)"
| "life_step EvCancel active = (if active then Some False else None)"
| "life_step EvEnd active = (if active then Some False else None)"

fun dispatch_life :: "DispatchEvent list \<Rightarrow> bool \<Rightarrow> bool option" where
  "dispatch_life [] active = Some active"
| "dispatch_life (e # es) active = (case life_step e active of None \<Rightarrow> None | Some b \<Rightarrow> dispatch_life es b)"

lemma dispatch_life_snoc:
  "dispatch_life (es @ [e]) active = (case dispatch_life es active of None \<Rightarrow> None | Some b \<Rightarrow> life_step e b)"
  by (induction es arbitrary: active) (auto split: option.split)

text \<open>What every transport promises: a slice keeps its length.\<close>

locale worker_link =
  fixes tr :: "'w Transport"
  assumes read_length: "tr_read_exact tr dst w = (status, dst', w') \<Longrightarrow> length dst' = length dst"


section \<open>What the peer makes of the worker's frames\<close>

text \<open>
  The peer's context: the policy it announced in hello, the sequence number it expects next and what is
  left of an enumeration.  A conversation is well fed when every frame of the worker decodes in the
  context at that point.
\<close>

inductive well_fed ::
  "SourceReadPolicy \<Rightarrow> conversation \<Rightarrow> u32 \<Rightarrow> EnumerationBudget \<Rightarrow> bool" for p where
  silent: "well_fed p [] 1 enumeration_budget_start"
| hello: "decode_hello_payload f =
      Ok \<lparr>hello_source_size = srp_source_size p, hello_maximum_read_bytes = srp_maximum_read_bytes p\<rparr> \<Longrightarrow>
    well_fed p [(ParentToWorker, f)] 1 enumeration_budget_start"
| request: "well_fed p fs q b \<Longrightarrow> fh_message_type (fv_header f) \<in> {Enumerate, StreamEntry} \<Longrightarrow>
    well_fed p (fs @ [(ParentToWorker, f)]) 1 enumeration_budget_start"
| reply: "well_fed p fs q b \<Longrightarrow> decode_read_reply_payload f q n = Ok m \<Longrightarrow>
    well_fed p (fs @ [(ParentToWorker, f)]) (q + 1) b"
| control: "well_fed p fs q b \<Longrightarrow> fh_message_type (fv_header f) \<in> {Cancel, Shutdown} \<Longrightarrow>
    well_fed p (fs @ [(ParentToWorker, f)]) q b"
| ready: "well_fed p fs q b \<Longrightarrow> decode_ready_payload f = Ok () \<Longrightarrow>
    well_fed p (fs @ [(WorkerToParent, f)]) q b"
| read: "well_fed p fs q b \<Longrightarrow> decode_read_request_payload f p q = Ok m \<Longrightarrow>
    well_fed p (fs @ [(WorkerToParent, f)]) q b"
| batch: "well_fed p fs q b \<Longrightarrow> budget_policy b = Ok policy \<Longrightarrow>
    decode_entry_batch_payload f policy storage = (Ok es, storage') \<Longrightarrow> budget_spend es b = Some b' \<Longrightarrow>
    well_fed p (fs @ [(WorkerToParent, f)]) q b'"
| chunk: "well_fed p fs q b \<Longrightarrow> decode_data_chunk_payload f remaining = Ok d \<Longrightarrow>
    well_fed p (fs @ [(WorkerToParent, f)]) q b"
| complete: "well_fed p fs q b \<Longrightarrow> decode_complete_payload f op = Ok x \<Longrightarrow>
    well_fed p (fs @ [(WorkerToParent, f)]) q b"
| cancel_ack: "well_fed p fs q b \<Longrightarrow> decode_cancel_ack_payload f = Ok () \<Longrightarrow>
    well_fed p (fs @ [(WorkerToParent, f)]) q b"

definition talk :: "u64 \<Rightarrow> SourceReadPolicy \<Rightarrow> conversation \<Rightarrow> ProtocolView \<Rightarrow> u32 \<Rightarrow> EnumerationBudget \<Rightarrow> bool" where
  "talk sid p fs u q b \<longleftrightarrow> list_all (\<lambda>(d, f). wf_frame f \<and> fh_session_id (fv_header f) = sid) fs \<and>
     session_trace (conversation_labels fs) u \<and> well_fed p fs q b"

definition spoken :: "u64 \<Rightarrow> SourceReadPolicy \<Rightarrow> transfers \<Rightarrow> SessionValidator \<Rightarrow> u32 \<Rightarrow> EnumerationBudget \<Rightarrow> bool" where
  "spoken sid p log v q b \<longleftrightarrow> sv_inv v \<and> sv_session_id v = sid \<and>
     (\<exists>fs. log = conversation_transfers fs \<and> talk sid p fs (sv_view v) q b)"

text \<open>
  A lifetime that broke off: a conversation, and then either bytes of the peer only, or the beginning of
  one more frame of the worker that both the protocol and the peer's context admit.
\<close>

definition broken_off :: "u64 \<Rightarrow> SourceReadPolicy \<Rightarrow> transfers \<Rightarrow> bool" where
  "broken_off sid p log \<longleftrightarrow> (\<exists>fs u q b rest. log = conversation_transfers fs @ rest \<and> talk sid p fs u q b \<and>
     (list_all (\<lambda>t. fst t = ParentToWorker) rest \<or>
      (\<exists>f y k q' b'. talk sid p (fs @ [(WorkerToParent, f)]) y q' b' \<and>
         rest = take k (frame_transfers WorkerToParent f))))"

lemma conversation_transfers_snoc:
  "conversation_transfers (fs @ [(d, f)]) = conversation_transfers fs @ frame_transfers d f"
  by (simp add: conversation_transfers_def)

lemma spoken_broken_off: "spoken sid p log v q b \<Longrightarrow> list_all (\<lambda>t. fst t = ParentToWorker) rest \<Longrightarrow>
    broken_off sid p (log @ rest)"
  unfolding spoken_def broken_off_def by blast

lemma talk_snoc:
  assumes "talk sid p fs (sv_view v) q b" and "sv_inv v" and "sv_session_id v = sid"
    and "observe d h v = (Ok (), v')" and "f = frame_view_new h payload" and "wf_frame f"
    and "well_fed p (fs @ [(d, f)]) q' b'"
  shows "talk sid p (fs @ [(d, f)]) (sv_view v') q' b'" and "sv_inv v'" and "sv_session_id v' = sid"
    and "exchange (sv_view v) (label_of (d, h)) (sv_view v')"
proof -
  note ok = observe_Ok_refines[OF assms(2,4)]
  have h: "fv_header f = h" using assms(5) by (simp add: frame_view_new_def)
  show "talk sid p (fs @ [(d, f)]) (sv_view v') q' b'"
    using assms(1,3,6,7) ok h session_trace.step[of "conversation_labels fs" "sv_view v" "label_of (d, h)" "sv_view v'"]
    by (auto simp: talk_def conversation_labels_def admissible_def)
  show "sv_inv v'" "sv_session_id v' = sid" "exchange (sv_view v) (label_of (d, h)) (sv_view v')"
    using ok assms(3) by (simp_all add: same_session_def)
qed


section \<open>The three ways the record grows\<close>

lemma send_frame_metered:
  assumes sp: "spoken sid p log v q b"
    and fed: "\<And>fs. well_fed p fs q b \<Longrightarrow> wf_frame (frame_view_new h payload) \<Longrightarrow>
      well_fed p (fs @ [(WorkerToParent, frame_view_new h payload)]) q' b'"
    and run: "send_frame (metered tr) h payload (v, log, a, c, w) = (r, v', log', a', c', w')"
  shows "a' = a \<and> c' = c \<and>
    (case r of Ok _ \<Rightarrow> spoken sid p log' v' q' b' \<and> exchange (sv_view v) (label_of (WorkerToParent, h)) (sv_view v')
     | Err f \<Rightarrow> broken_off sid p log' \<and> fl_error f \<noteq> SvInternalFailure)"
proof -
  let ?f = "frame_view_new h payload"
  from sp obtain fs where log: "log = conversation_transfers fs" and tk: "talk sid p fs (sv_view v) q b"
    and inv: "sv_inv v" "sv_session_id v = sid" by (auto simp: spoken_def)
  have quiet: "broken_off sid p log" using spoken_broken_off[OF sp, of "[]"] by simp
  show ?thesis
  proof (cases "length payload \<noteq> unat (fh_payload_length h) \<or> length payload > unat MAXIMUM_FRAME_PAYLOAD_BYTES")
    case True
    then show ?thesis using run quiet by (auto simp: send_frame_def failure_defs)
  next
    case fits: False
    show ?thesis
    proof (cases "fst (observe WorkerToParent h v)")
      case (Err e)
      then show ?thesis using run quiet fits
        by (cases "observe WorkerToParent h v") (auto simp: send_frame_def failure_defs)
    next
      case (Ok u)
      then obtain v1 where obs: "observe WorkerToParent h v = (Ok (), v1)"
        by (cases "observe WorkerToParent h v") auto
      have valid: "frame_header_validate h = Ok ()"
        using observe_Ok_refines[OF inv(1) obs] by (simp add: admissible_def)
      then have wf: "wf_frame ?f" using fits by (auto simp: wf_frame_def frame_view_new_def)
      have "well_fed p fs q b" using tk by (simp add: talk_def)
      note step = talk_snoc[OF tk inv obs refl wf fed[OF this wf]]
      have sent: "spoken sid p (log @ frame_transfers WorkerToParent ?f) v1 q' b'"
        using step log unfolding spoken_def by (metis conversation_transfers_snoc)
      have cut: "broken_off sid p (log @ take k (frame_transfers WorkerToParent ?f))" for k
        unfolding broken_off_def using log tk step(1) by blast
      obtain s1 w1 where first: "tr_write_all tr (header_bytes h) w = (s1, w1)" by fastforce
      obtain s2 w2 where second: "tr_write_all tr payload w1 = (s2, w2)" by fastforce
      have enc: "frame_header_encode h (replicate FRAME_HEADER_BYTES 0) = (Ok (), header_bytes h)"
        using valid by (simp add: frame_header_encode_eq header_bytes_def)
      have whole: "frame_transfers WorkerToParent ?f =
          (WorkerToParent, header_bytes h) # (if payload = [] then [] else [(WorkerToParent, payload)])"
        by (simp add: frame_transfers_def frame_view_new_def)
      note ex = step(4)
      show ?thesis
      proof (cases "s1 = IoOk")
        case False
        then show ?thesis using run fits obs enc first cut[of 1] whole
          by (auto simp: send_frame_def metered_def failure_defs)
      next
        case one: True
        show ?thesis
        proof (cases "payload = []")
          case True
          then show ?thesis using run fits obs enc first one sent whole ex by (auto simp: send_frame_def metered_def)
        next
          case False
          then show ?thesis using run fits obs enc first one second sent whole ex cut[of 2]
            by (cases "s2 = IoOk") (auto simp: send_frame_def metered_def failure_defs)
        qed
      qed
    qed
  qed
qed

context worker_link
begin

lemma receive_frame_metered:
  assumes run: "receive_frame (metered tr) sid (buf, log, a, c, w) = (r, buf', log', a', c', w')"
  shows "a' = a \<and> c' = c \<and>
    (case r of
       Ok h \<Rightarrow> wf_frame (frame_view_new h (take (unat (fh_payload_length h)) buf')) \<and>
         (sid \<noteq> 0 \<longrightarrow> fh_session_id h = sid) \<and>
         log' = log @ frame_transfers ParentToWorker (frame_view_new h (take (unat (fh_payload_length h)) buf'))
     | Err e \<Rightarrow> (\<exists>rest. log' = log @ rest \<and> list_all (\<lambda>t. fst t = ParentToWorker) rest))"
proof -
  obtain s1 bs w1 where first: "tr_read_exact tr (replicate FRAME_HEADER_BYTES 0) w = (s1, bs, w1)"
    by (metis prod.collapse)
  show ?thesis
  proof (cases "s1 = IoOk \<and> is_ok (decode_frame_header bs)")
    case False
    then show ?thesis using run first
      by (cases "s1 = IoOk"; cases "decode_frame_header bs") (auto simp: receive_frame_def metered_def)
  next
    case True
    then obtain h where dec: "decode_frame_header bs = Ok h" by (auto simp: is_ok_iff)
    let ?n = "unat (fh_payload_length h)"
    obtain s2 part w2 where second: "tr_read_exact tr (take ?n buf) w1 = (s2, part, w2)" by (metis prod.collapse)
    have h: "frame_header_validate h = Ok ()" "bs = header_bytes h"
      using dec by (simp_all add: decode_frame_header_Ok_iff header_bytes_def)
    have len: "?n \<le> length buf \<Longrightarrow> length part = ?n" using read_length[OF second] by simp
    show ?thesis
      using run first True dec second h len
      by (auto simp: receive_frame_def metered_def Let_def wf_frame_def frame_view_new_def frame_transfers_def
          split: if_splits)
  qed
qed

end

lemma observe_received:
  assumes sp: "spoken sid p log v q b" and f: "f = frame_view_new h payload" "wf_frame f"
    and fed: "\<And>fs. well_fed p fs q b \<Longrightarrow> well_fed p (fs @ [(ParentToWorker, f)]) q' b'"
    and obs: "observe ParentToWorker h v = (Ok (), v')"
  shows "spoken sid p (log @ frame_transfers ParentToWorker f) v' q' b' \<and>
    exchange (sv_view v) (label_of (ParentToWorker, h)) (sv_view v')"
proof -
  from sp obtain fs where log: "log = conversation_transfers fs" and tk: "talk sid p fs (sv_view v) q b"
    and inv: "sv_inv v" "sv_session_id v = sid" by (auto simp: spoken_def)
  have "well_fed p fs q b" using tk by (simp add: talk_def)
  note step = talk_snoc[OF tk inv obs f fed[OF this]]
  then show ?thesis using log unfolding spoken_def by (metis conversation_transfers_snoc)
qed

lemma heard_only: "list_all (\<lambda>t. fst t = ParentToWorker) (frame_transfers ParentToWorker f)"
  by (simp add: frame_transfers_def)


section \<open>The invariant of the session loop\<close>

type_synonym ('d, 'w) watched_service = "(DispatchEvent list \<times> 'd, 'w metered) Service"

definition svc_log :: "('d, 'w) watched_service \<Rightarrow> transfers" where
  "svc_log s = fst (svc_transport s)"

definition svc_meter :: "('d, 'w) watched_service \<Rightarrow> nat \<times> nat" where
  "svc_meter s = (fst (snd (svc_transport s)), fst (snd (snd (svc_transport s))))"

definition svc_life :: "('d, 'w) watched_service \<Rightarrow> bool" where
  "svc_life s \<longleftrightarrow> dispatch_life (fst (svc_dispatch s)) False = Some (svc_dispatch_active s)"

fun busy :: "SessionState \<Rightarrow> bool" where
  "busy Enumerating = True"
| "busy Streaming = True"
| "busy _ = False"

text \<open>The books the service keeps, apart from the record of what was said.\<close>

definition kept :: "u64 \<Rightarrow> SourceReadPolicy \<Rightarrow> ('d, 'w) watched_service \<Rightarrow> bool" where
  "kept sid p s \<longleftrightarrow> svc_session_id s = sid \<and> sid \<noteq> 0 \<and> svc_source_policy s = p \<and>
     (svc_pending_read s \<longrightarrow> svc_pending_read_sequence s = svc_next_read_sequence s) \<and>
     svc_meter s = (0, 0) \<and> svc_life s \<and> unat MAXIMUM_FRAME_PAYLOAD_BYTES \<le> length (svc_send_payload s)"

definition said :: "u64 \<Rightarrow> SourceReadPolicy \<Rightarrow> transfers \<Rightarrow> ('d, 'w) watched_service \<Rightarrow> bool" where
  "said sid p log s \<longleftrightarrow> spoken sid p log (svc_validator s) (svc_next_read_sequence s) (svc_enumeration s)"

definition turning :: "u64 \<Rightarrow> SourceReadPolicy \<Rightarrow> ('d, 'w) watched_service \<Rightarrow> bool" where
  "turning sid p s \<longleftrightarrow> kept sid p s \<and> said sid p (svc_log s) s \<and>
     (svc_dispatch_active s \<longleftrightarrow> busy (sv_state (svc_validator s)))"

text \<open>One frame was received and not yet observed.\<close>

definition heard :: "u64 \<Rightarrow> SourceReadPolicy \<Rightarrow> FrameHeader \<Rightarrow> ('d, 'w) watched_service \<Rightarrow> bool" where
  "heard sid p h s \<longleftrightarrow> kept sid p s \<and> (svc_dispatch_active s \<longleftrightarrow> busy (sv_state (svc_validator s))) \<and>
     wf_frame (svc_frame h s) \<and>
     (\<exists>log. said sid p log s \<and> svc_log s = log @ frame_transfers ParentToWorker (svc_frame h s))"

definition stopped :: "u64 \<Rightarrow> SourceReadPolicy \<Rightarrow> ServiceFailure \<Rightarrow> ('d, 'w) watched_service \<Rightarrow> bool" where
  "stopped sid p f s \<longleftrightarrow> broken_off sid p (svc_log s) \<and> svc_meter s = (0, 0) \<and> svc_life s \<and>
     svc_session_id s = sid \<and> fl_error f \<noteq> SvInternalFailure"

definition shut :: "u64 \<Rightarrow> SourceReadPolicy \<Rightarrow> ('d, 'w) watched_service \<Rightarrow> bool" where
  "shut sid p s \<longleftrightarrow> (\<exists>q b. spoken sid p (svc_log s) (svc_validator s) q b) \<and> sv_view (svc_validator s) = Over \<and>
     svc_meter s = (0, 1) \<and> svc_life s \<and> \<not> svc_dispatch_active s \<and> svc_session_id s = sid"

text \<open>The outcomes of an operation: the first predicate on success, \<open>stopped\<close> on failure.\<close>

definition outcome ::
  "u64 \<Rightarrow> SourceReadPolicy \<Rightarrow> ('a \<Rightarrow> ('d, 'w) watched_service \<Rightarrow> bool) \<Rightarrow>
     (ServiceFailure, 'a) result \<times> ('d, 'w) watched_service \<Rightarrow> bool" where
  "outcome sid p Q x \<longleftrightarrow> (case x of (Ok v, s) \<Rightarrow> Q v s | (Err f, s) \<Rightarrow> stopped sid p f s)"

lemma outcome_simps [simp]:
  "outcome sid p Q (Ok v, s) \<longleftrightarrow> Q v s" "outcome sid p Q (Err f, s) \<longleftrightarrow> stopped sid p f s"
  by (simp_all add: outcome_def)

lemma outcome_bind:
  "outcome sid p (\<lambda>v t. outcome sid p Q (g v t)) (f s) \<Longrightarrow> outcome sid p Q (st_bind f g s)"
  by (auto simp: outcome_def st_bind_def split: prod.splits result.splits)

lemma outcome_mono:
  "outcome sid p P x \<Longrightarrow> (\<And>v t. P v t \<Longrightarrow> Q v t) \<Longrightarrow> outcome sid p Q x"
  by (auto simp: outcome_def split: prod.splits result.splits)

lemma view_state:
  "(\<exists>op rid reading. sv_view v = Busy op rid reading) \<longleftrightarrow> busy (sv_state v)"
  "(\<exists>high stale. sv_view v = Resting high stale) \<longleftrightarrow> sv_state v = Idle"
  "(\<exists>late. sv_view v = Drained late) \<longleftrightarrow> sv_state v = Cancelled"
  "sv_view v = Over \<longleftrightarrow> sv_state v = Closed"
  by (cases "sv_state v"; simp add: sv_view_def)+

lemma exchange_heard:
  "exchange w (ParentToWorker, Cancel, rid) w' \<Longrightarrow>
     (\<exists>high stale. w = Resting high stale) \<and> (\<exists>high stale. w' = Resting high stale) \<or>
     (\<exists>op reading. w = Busy op rid reading \<and> w' = Withdrawing op rid reading False)"
  "exchange w (ParentToWorker, k, rid) w' \<Longrightarrow> k = Enumerate \<or> k = StreamEntry \<Longrightarrow>
     (\<exists>high stale. w = Resting high stale) \<and> (\<exists>op. w' = Busy op rid False)"
  "exchange w (ParentToWorker, Shutdown, rid) w' \<Longrightarrow>
     w' = Over \<and> ((\<exists>high stale. w = Resting high stale) \<or> (\<exists>late. w = Drained late))"
  "exchange (Withdrawing op rid reading crossed) (WorkerToParent, CancelAck, r) w' \<Longrightarrow> \<exists>late. w' = Drained late"
  by (auto elim!: exchangeE simp: kind_iffs)

lemma exchange_reply:
  "exchange (Busy op rid reading) (ParentToWorker, ReadReply, r) w' \<Longrightarrow> \<exists>op rid. w' = Busy op rid False"
  "exchange (Drained late) (ParentToWorker, ReadReply, r) w' \<Longrightarrow> \<exists>late. w' = Drained late"
  by (auto elim!: exchangeE simp: kind_iffs)

lemma exchange_told:
  "exchange (Busy op rid reading) (WorkerToParent, ReadRequest, r) w' \<Longrightarrow> \<exists>op rid. w' = Busy op rid True"
  "exchange (Busy op rid reading) (WorkerToParent, EntryBatch, r) w' \<Longrightarrow> \<exists>op rid. w' = Busy op rid False"
  "exchange (Busy op rid reading) (WorkerToParent, DataChunk, r) w' \<Longrightarrow> \<exists>op rid. w' = Busy op rid False"
  "exchange (Busy op rid reading) (WorkerToParent, Complete, r) w' \<Longrightarrow> \<exists>high stale. w' = Resting high stale"
  by (auto elim!: exchangeE simp: kind_iffs)

lemmas ledger = svc_log_def svc_meter_def svc_life_def

lemma heard_stopped: "heard sid p h s \<Longrightarrow> fl_error f \<noteq> SvInternalFailure \<Longrightarrow> stopped sid p f s"
  using spoken_broken_off heard_only by (fastforce simp: heard_def stopped_def kept_def said_def)

lemma turning_stopped: "turning sid p s \<Longrightarrow> fl_error f \<noteq> SvInternalFailure \<Longrightarrow> stopped sid p f s"
  using spoken_broken_off[of _ _ _ _ _ _ "[]"] by (fastforce simp: turning_def stopped_def kept_def said_def)

lemma failure_errors [simp]:
  "fl_error (failure_transport st) = SvTransportFailure" "fl_error (failure_protocol e) = SvProtocolFailure"
  "fl_error (failure_dispatch d) \<noteq> SvInternalFailure" "fl_error (rejected_action e) = SvDispatchFailure"
  "fl_error (failure_new x) = x" "fl_error (failure_of_receive r) \<noteq> SvInternalFailure"
  by (simp_all add: failure_defs split: DispatchError.split) (cases r, simp_all add: failure_defs)

context worker_link
begin

lemma receive_outcome:
  assumes "turning sid p s"
  shows "outcome sid p (\<lambda>h t. heard sid p h t \<and> svc_validator t = svc_validator s \<and>
      svc_pending_read t = svc_pending_read s) (svc_receive (metered tr) s)"
proof -
  obtain log a c w where world: "svc_transport s = (log, a, c, w)" by (metis prod.collapse)
  obtain r buf' log' a' c' w' where run:
    "receive_frame (metered tr) (svc_session_id s) (svc_receive_payload s, log, a, c, w) = (r, buf', log', a', c', w')"
    by (metis prod.collapse)
  let ?t = "s\<lparr>svc_receive_payload := buf', svc_transport := (log', a', c', w')\<rparr>"
  note got = receive_frame_metered[OF run]
  have kept: "kept sid p ?t" using assms got world by (simp add: turning_def kept_def ledger)
  have talk: "said sid p log s" using assms world by (simp add: turning_def ledger)
  have active: "svc_dispatch_active s \<longleftrightarrow> busy (sv_state (svc_validator s))" using assms by (simp add: turning_def)
  show ?thesis
  proof (cases r)
    case (Err e)
    then obtain rest where "log' = log @ rest" "list_all (\<lambda>t. fst t = ParentToWorker) rest" using got by auto
    then have "broken_off sid p log'" using talk spoken_broken_off by (auto simp: said_def)
    then show ?thesis using Err run world kept by (simp add: svc_receive_def stopped_def kept_def ledger)
  next
    case (Ok h)
    have "heard sid p h ?t"
      unfolding heard_def using kept got Ok active talk
      by (auto simp: svc_frame_def svc_log_def said_def intro!: exI[of _ log])
    then show ?thesis using Ok run world by (simp add: svc_receive_def)
  qed
qed

end

lemma observe_outcome:
  assumes "heard sid p h s"
    and fed: "\<And>fs. well_fed p fs (svc_next_read_sequence s) (svc_enumeration s) \<Longrightarrow>
      well_fed p (fs @ [(ParentToWorker, svc_frame h s)]) q' b'"
  shows "outcome sid p (\<lambda>_ t. \<exists>v. t = s\<lparr>svc_validator := v\<rparr> \<and> spoken sid p (svc_log t) v q' b' \<and>
      exchange (sv_view (svc_validator s)) (ParentToWorker, fh_message_type h, fh_request_id h) (sv_view v)) (svc_observe h s)"
proof -
  from assms(1) obtain log where sp: "spoken sid p log (svc_validator s) (svc_next_read_sequence s) (svc_enumeration s)"
    and log: "svc_log s = log @ frame_transfers ParentToWorker (svc_frame h s)" and wf: "wf_frame (svc_frame h s)"
    by (auto simp: heard_def said_def)
  obtain r v where obs: "observe ParentToWorker h (svc_validator s) = (r, v)" by fastforce
  show ?thesis
  proof (cases r)
    case (Err e)
    have "stopped sid p (failure_protocol e) (s\<lparr>svc_validator := v\<rparr>)"
      using heard_stopped[OF assms(1), of "failure_protocol e"] by (simp add: stopped_def ledger)
    then show ?thesis using obs Err by (simp add: svc_observe_def)
  next
    case (Ok u)
    then have "observe ParentToWorker h (svc_validator s) = (Ok (), v)" using obs by simp
    from observe_received[OF sp svc_frame_def wf fed this] log
    have "spoken sid p (svc_log (s\<lparr>svc_validator := v\<rparr>)) v q' b' \<and>
        exchange (sv_view (svc_validator s)) (ParentToWorker, fh_message_type h, fh_request_id h) (sv_view v)"
      by (simp add: svc_log_def label_of_def)
    then show ?thesis using obs Ok by (auto simp: svc_observe_def)
  qed
qed

lemma send_outcome:
  assumes sp: "spoken sid p (svc_log s) (svc_validator s) q b"
    and state: "svc_meter s = (0, 0)" "svc_life s" "svc_session_id s = sid"
    and fed: "\<And>fs. well_fed p fs q b \<Longrightarrow> wf_frame (frame_view_new h payload) \<Longrightarrow>
      well_fed p (fs @ [(WorkerToParent, frame_view_new h payload)]) q' b'"
  shows "outcome sid p (\<lambda>_ t. \<exists>v w. t = s\<lparr>svc_validator := v, svc_transport := w\<rparr> \<and>
      spoken sid p (svc_log t) v q' b' \<and> svc_meter t = (0, 0) \<and>
      exchange (sv_view (svc_validator s)) (WorkerToParent, fh_message_type h, fh_request_id h) (sv_view v))
    (svc_send (metered tr) h payload s)"
proof -
  obtain log a c w where world: "svc_transport s = (log, a, c, w)" by (metis prod.collapse)
  obtain r v log' a' c' w' where run:
    "send_frame (metered tr) h payload (svc_validator s, log, a, c, w) = (r, v, log', a', c', w')"
    by (metis prod.collapse)
  have "spoken sid p log (svc_validator s) q b" using sp world by (simp add: svc_log_def)
  note sent = send_frame_metered[OF this fed run]
  show ?thesis
  proof (cases r)
    case (Err f)
    then show ?thesis using sent run world state by (auto simp: svc_send_def stopped_def ledger)
  next
    case (Ok u)
    then show ?thesis using sent run world state
      by (auto simp: svc_send_def ledger label_of_def intro!: exI[of _ v] exI[of _ "(log', a', c', w')"])
  qed
qed

text \<open>Answering a cancel: the back end was told, and the acknowledgement goes out.\<close>

lemma cancel_ack_outcome:
  assumes kept: "kept sid p s" and busy: "svc_dispatch_active s"
    and sp: "spoken sid p (svc_log s) v (svc_next_read_sequence s) (svc_enumeration s)"
    and ex: "\<exists>op rid reading crossed. sv_view v = Withdrawing op rid reading crossed"
    and t: "t = s\<lparr>svc_validator := v, svc_dispatch := dp_cancel (watched dp) (svc_dispatch s),
      svc_dispatch_active := False, svc_late_read_reply := svc_pending_read s\<rparr>"
    and ack: "ack = frame_header_new CancelAck (svc_session_id t) rid 0"
  shows "outcome sid p (\<lambda>flow t. flow = FlowContinue \<and> turning sid p t)
      (st_bind (svc_send (metered tr) ack []) (\<lambda>_ s. (Ok FlowContinue, s\<lparr>svc_active_request_id := 0\<rparr>)) t)"
proof (rule outcome_bind, rule outcome_mono[OF send_outcome])
  have life: "svc_life t" using t kept busy
    by (cases "svc_dispatch s") (simp add: kept_def ledger watched_def dispatch_life_snoc)
  show "spoken sid p (svc_log t) (svc_validator t) (svc_next_read_sequence s) (svc_enumeration s)"
    using t sp by (simp add: svc_log_def)
  show "svc_meter t = (0, 0)" "svc_life t" "svc_session_id t = sid" using t kept life by (simp_all add: kept_def ledger)
  show "well_fed p (fs @ [(WorkerToParent, frame_view_new ack [])]) (svc_next_read_sequence s) (svc_enumeration s)"
    if "well_fed p fs (svc_next_read_sequence s) (svc_enumeration s)" "wf_frame (frame_view_new ack [])" for fs
    using that ack by (intro well_fed.cancel_ack)
      (simp_all add: decode_cancel_ack_payload_def decode_empty_Ok frame_view_new_def frame_header_new_def)
  fix u t'
  assume "\<exists>v' w. t' = t\<lparr>svc_validator := v', svc_transport := w\<rparr> \<and>
      spoken sid p (svc_log t') v' (svc_next_read_sequence s) (svc_enumeration s) \<and> svc_meter t' = (0, 0) \<and>
      exchange (sv_view (svc_validator t)) (WorkerToParent, fh_message_type ack, fh_request_id ack) (sv_view v')"
  then obtain v' w where t': "t' = t\<lparr>svc_validator := v', svc_transport := w\<rparr>" and m: "svc_meter t' = (0, 0)"
    and sp': "spoken sid p (svc_log t') v' (svc_next_read_sequence s) (svc_enumeration s)"
    and step: "exchange (sv_view v) (WorkerToParent, CancelAck, rid) (sv_view v')"
    using t ack by (auto simp: frame_header_new_def)
  have "\<exists>late. sv_view v' = Drained late" using ex step exchange_heard(4) by metis
  then have "sv_state v' = Cancelled" by (simp add: view_state)
  moreover have "kept sid p (t'\<lparr>svc_active_request_id := 0\<rparr>)" using kept t t' m life by (auto simp: kept_def ledger)
  ultimately show "outcome sid p (\<lambda>flow t. flow = FlowContinue \<and> turning sid p t)
      (Ok FlowContinue, t'\<lparr>svc_active_request_id := 0\<rparr>)"
    using sp' t t' by (simp add: turning_def said_def svc_log_def)
qed

lemma handle_cancel_outcome:
  assumes hd: "heard sid p h s" and kind: "fh_message_type h = Cancel"
  shows "outcome sid p (\<lambda>flow t. flow = FlowContinue \<and> turning sid p t) (handle_cancel (metered tr) (watched dp) h s)"
proof (cases "decode_cancel_payload (svc_frame h s)")
  case (Err e)
  then show ?thesis using heard_stopped[OF hd, of "failure_protocol e"] by (simp add: handle_cancel_def)
next
  case (Ok u)
  let ?q = "svc_next_read_sequence s" and ?b = "svc_enumeration s"
  have hdr: "fv_header (svc_frame h s) = h" by (simp add: svc_frame_def frame_view_new_def)
  have kept: "kept sid p s" and active: "svc_dispatch_active s \<longleftrightarrow> busy (sv_state (svc_validator s))"
    using hd by (auto simp: heard_def)
  have fed: "well_fed p fs ?q ?b \<Longrightarrow> well_fed p (fs @ [(ParentToWorker, svc_frame h s)]) ?q ?b" for fs
    by (rule well_fed.control) (simp_all add: hdr kind)
  have idle: "turning sid p (s\<lparr>svc_validator := v\<rparr>)"
    if "spoken sid p (svc_log (s\<lparr>svc_validator := v\<rparr>)) v ?q ?b" "sv_state (svc_validator s) = Idle"
      "exchange (sv_view (svc_validator s)) (ParentToWorker, fh_message_type h, fh_request_id h) (sv_view v)" for v
  proof -
    have "\<exists>high stale. sv_view v = Resting high stale"
      using that(3) exchange_heard(1)[of "sv_view (svc_validator s)" "fh_request_id h" "sv_view v"] kind that(2)
        view_state(1,2)[of "svc_validator s"] by (metis busy.simps(5))
    then have "sv_state v = Idle" by (simp add: view_state)
    then show ?thesis using that kept active by (auto simp: turning_def kept_def said_def ledger)
  qed
  have busy_case: "(\<exists>op rid reading crossed. sv_view v = Withdrawing op rid reading crossed) \<and> svc_dispatch_active s"
    if "sv_state (svc_validator s) \<noteq> Idle"
      "exchange (sv_view (svc_validator s)) (ParentToWorker, fh_message_type h, fh_request_id h) (sv_view v)" for v
    using that exchange_heard(1)[of "sv_view (svc_validator s)" "fh_request_id h" "sv_view v"] kind active
      view_state(1,2)[of "svc_validator s"] by metis
  show ?thesis
    unfolding handle_cancel_def Ok result.case Let_def
  proof (rule outcome_bind, rule outcome_mono[OF observe_outcome[OF hd fed]])
    fix u t
    assume "\<exists>v. t = s\<lparr>svc_validator := v\<rparr> \<and> spoken sid p (svc_log t) v ?q ?b \<and>
      exchange (sv_view (svc_validator s)) (ParentToWorker, fh_message_type h, fh_request_id h) (sv_view v)"
    then obtain v where t: "t = s\<lparr>svc_validator := v\<rparr>" and sp: "spoken sid p (svc_log t) v ?q ?b"
      and ex: "exchange (sv_view (svc_validator s)) (ParentToWorker, fh_message_type h, fh_request_id h) (sv_view v)" by blast
    show "outcome sid p (\<lambda>flow t. flow = FlowContinue \<and> turning sid p t)
       (if sv_state (svc_validator s) = Idle then (Ok FlowContinue, t)
        else if \<not> svc_dispatch_active t then (Err (failure_new SvInternalFailure), t)
        else st_bind (svc_send (metered tr) (frame_header_new CancelAck
               (svc_session_id (t\<lparr>svc_dispatch := dp_cancel (watched dp) (svc_dispatch t), svc_dispatch_active := False,
                  svc_late_read_reply := svc_pending_read t\<rparr>)) (fh_request_id h) 0) [])
              (\<lambda>_ s. (Ok FlowContinue, s\<lparr>svc_active_request_id := 0\<rparr>))
              (t\<lparr>svc_dispatch := dp_cancel (watched dp) (svc_dispatch t), svc_dispatch_active := False,
                  svc_late_read_reply := svc_pending_read t\<rparr>))"
    proof (cases "sv_state (svc_validator s) = Idle")
      case True
      then show ?thesis using idle[of v] t sp ex by simp
    next
      case False
      note b = busy_case[OF False ex]
      have "spoken sid p (svc_log s) v ?q ?b" using sp t by (simp add: svc_log_def)
      from cancel_ack_outcome[OF kept conjunct2[OF b] this conjunct1[OF b] refl refl] show ?thesis using False b t by simp
    qed
  qed
qed

lemma cancel_taken:
  assumes "heard sid p h s" and "fh_message_type h = Cancel"
  shows "outcome sid p (\<lambda>_ t. turning sid p t)
    (st_bind (handle_cancel (metered tr) (watched dp) h) (\<lambda>_. st_return ()) s)"
  by (rule outcome_bind, rule outcome_mono[OF handle_cancel_outcome[OF assms]]) simp

lemma spoken_stopped:
  assumes "spoken sid p (svc_log s) v q b" and "svc_meter s = (0, 0)" and "svc_life s" and "svc_session_id s = sid"
    and "fl_error f \<noteq> SvInternalFailure"
  shows "stopped sid p f s"
  using assms spoken_broken_off[OF assms(1), of "[]"] by (simp add: stopped_def)

lemma frame_of_header [simp]: "fv_header (svc_frame h s) = h"
  by (simp add: svc_frame_def frame_view_new_def)

lemma reply_delivered:
  assumes t: "turning sid p t" and active: "discard \<or> svc_dispatch_active t"
  shows "outcome sid p (\<lambda>_ t. turning sid p t)
    (if discard then (Ok (), t)
     else if rp_status reply \<noteq> StatusOk then (Err (failure_new SvSourceFailure), t)
     else svc_dispatched (dp_accept_read_reply (watched dp) reply) t)"
proof (cases "discard \<or> rp_status reply \<noteq> StatusOk")
  case True
  then show ?thesis using t turning_stopped[OF t, of "failure_new SvSourceFailure"] by auto
next
  case False
  obtain es d where disp: "svc_dispatch t = (es, d)" by fastforce
  obtain r d' where run: "dp_accept_read_reply dp reply d = (r, d')" by fastforce
  let ?t = "t\<lparr>svc_dispatch := (es @ [EvReply], d')\<rparr>"
  have "turning sid p ?t"
    using t active False disp by (simp add: turning_def kept_def said_def ledger dispatch_life_snoc)
  then show ?thesis using False run disp turning_stopped[of sid p ?t]
    by (cases r) (auto simp: svc_dispatched_def watched_def)
qed

lemma accept_read_reply_outcome:
  assumes hd: "heard sid p h s" and kind: "fh_message_type h = ReadReply"
    and st: "if discard then sv_state (svc_validator s) = Cancelled else busy (sv_state (svc_validator s))"
  shows "outcome sid p (\<lambda>_ t. turning sid p t) (svc_accept_read_reply (watched dp) h discard s)"
proof (cases "svc_pending_read s")
  case False
  then show ?thesis using heard_stopped[OF hd] by (simp add: svc_accept_read_reply_def)
next
  case pending: True
  have kept: "kept sid p s" and active: "svc_dispatch_active s \<longleftrightarrow> busy (sv_state (svc_validator s))"
    using hd by (auto simp: heard_def)
  then have seq: "svc_pending_read_sequence s = svc_next_read_sequence s" using pending by (simp add: kept_def)
  show ?thesis
  proof (cases "decode_read_reply_payload (svc_frame h s) (svc_pending_read_sequence s) (svc_pending_read_length s)")
    case (Err e)
    then show ?thesis using heard_stopped[OF hd] pending by (simp add: svc_accept_read_reply_def)
  next
    case (Ok reply)
    let ?answered = "\<lambda>s. s\<lparr>svc_pending_read := False, svc_late_read_reply := False,
      svc_next_read_sequence := svc_pending_read_sequence s + 1, svc_pending_read_sequence := 0,
      svc_pending_read_length := 0\<rparr>"
    have fed: "well_fed p fs (svc_next_read_sequence s) (svc_enumeration s) \<Longrightarrow>
        well_fed p (fs @ [(ParentToWorker, svc_frame h s)]) (svc_next_read_sequence s + 1) (svc_enumeration s)" for fs
      using well_fed.reply Ok seq by metis
    have next_turn: "turning sid p (?answered t) \<and> (discard \<or> svc_dispatch_active (?answered t))"
      if t: "t = s\<lparr>svc_validator := v\<rparr>" and sp: "spoken sid p (svc_log t) v (svc_next_read_sequence s + 1) (svc_enumeration s)"
        and ex: "exchange (sv_view (svc_validator s)) (ParentToWorker, fh_message_type h, fh_request_id h) (sv_view v)" for t v
    proof -
      have "busy (sv_state v) \<longleftrightarrow> busy (sv_state (svc_validator s))"
      proof (cases discard)
        case True
        then obtain late where "sv_view (svc_validator s) = Drained late" using st view_state(3) by metis
        then have "\<exists>late. sv_view v = Drained late" using ex kind exchange_reply(2) by metis
        then show ?thesis using True st by (simp add: view_state)
      next
        case False
        then obtain op rid reading where "sv_view (svc_validator s) = Busy op rid reading" using st view_state(1) by metis
        then have "busy (sv_state v)" using ex kind exchange_reply(1) view_state(1) by metis
        then show ?thesis using False st by simp
      qed
      then show ?thesis using t sp kept active seq st
        by (auto simp: turning_def kept_def said_def ledger split: if_splits)
    qed
    have eq: "svc_accept_read_reply (watched dp) h discard s = st_bind (svc_observe h) (\<lambda>_ s.
        if discard then (Ok (), ?answered s)
        else if rp_status reply \<noteq> StatusOk then (Err (failure_new SvSourceFailure), ?answered s)
        else svc_dispatched (dp_accept_read_reply (watched dp) reply) (?answered s)) s"
      using pending Ok by (simp add: svc_accept_read_reply_def Let_def)
    show ?thesis unfolding eq
    proof (rule outcome_bind, rule outcome_mono[OF observe_outcome[OF hd fed]])
      fix u t
      assume "\<exists>v. t = s\<lparr>svc_validator := v\<rparr> \<and>
        spoken sid p (svc_log t) v (svc_next_read_sequence s + 1) (svc_enumeration s) \<and>
        exchange (sv_view (svc_validator s)) (ParentToWorker, fh_message_type h, fh_request_id h) (sv_view v)"
      then have "turning sid p (?answered t)" "discard \<or> svc_dispatch_active (?answered t)" using next_turn by blast+
      then show "outcome sid p (\<lambda>_ t. turning sid p t) (if discard then (Ok (), ?answered t)
          else if rp_status reply \<noteq> StatusOk then (Err (failure_new SvSourceFailure), ?answered t)
          else svc_dispatched (dp_accept_read_reply (watched dp) reply) (?answered t))"
        by (rule reply_delivered)
    qed
  qed
qed

lemma handle_late_read_reply_outcome:
  assumes "heard sid p h s" and "fh_message_type h = ReadReply"
  shows "outcome sid p (\<lambda>flow t. flow = FlowContinue \<and> turning sid p t) (handle_late_read_reply (watched dp) h s)"
proof (cases "sv_state (svc_validator s) \<noteq> Cancelled \<or> \<not> svc_late_read_reply s")
  case True
  then show ?thesis using heard_stopped[OF assms(1)] by (simp add: handle_late_read_reply_def)
next
  case False
  then have eq: "handle_late_read_reply (watched dp) h s =
      st_bind (svc_accept_read_reply (watched dp) h True) (\<lambda>_. st_return FlowContinue) s"
    by (simp add: handle_late_read_reply_def)
  show ?thesis unfolding eq
    by (rule outcome_bind, rule outcome_mono[OF accept_read_reply_outcome[OF assms]]) (use False in simp_all)
qed

lemma handle_shutdown_outcome:
  assumes hd: "heard sid p h s" and kind: "fh_message_type h = Shutdown"
  shows "outcome sid p (\<lambda>flow t. flow = FlowShutdown \<and> shut sid p t) (handle_shutdown (metered tr) h s)"
proof (cases "decode_shutdown_payload (svc_frame h s)")
  case (Err e)
  then show ?thesis using heard_stopped[OF hd] by (simp add: handle_shutdown_def)
next
  case (Ok u)
  let ?q = "svc_next_read_sequence s" and ?b = "svc_enumeration s"
  let ?closed = "\<lambda>s. s\<lparr>svc_pending_read := False, svc_late_read_reply := False,
      svc_transport := tr_close_io (metered tr) (svc_transport s)\<rparr>"
  have kept: "kept sid p s" and active: "svc_dispatch_active s \<longleftrightarrow> busy (sv_state (svc_validator s))"
    using hd by (auto simp: heard_def)
  have fed: "well_fed p fs ?q ?b \<Longrightarrow> well_fed p (fs @ [(ParentToWorker, svc_frame h s)]) ?q ?b" for fs
    by (rule well_fed.control) (simp_all add: kind)
  have eq: "handle_shutdown (metered tr) h s = st_bind (svc_observe h) (\<lambda>_ s. (Ok FlowShutdown, ?closed s)) s"
    using Ok by (simp add: handle_shutdown_def)
  show ?thesis unfolding eq
  proof (rule outcome_bind, rule outcome_mono[OF observe_outcome[OF hd fed]])
    fix u t
    assume "\<exists>v. t = s\<lparr>svc_validator := v\<rparr> \<and> spoken sid p (svc_log t) v ?q ?b \<and>
        exchange (sv_view (svc_validator s)) (ParentToWorker, fh_message_type h, fh_request_id h) (sv_view v)"
    then obtain v where t: "t = s\<lparr>svc_validator := v\<rparr>" and sp: "spoken sid p (svc_log t) v ?q ?b"
      and ex: "exchange (sv_view (svc_validator s)) (ParentToWorker, Shutdown, fh_request_id h) (sv_view v)"
      using kind by auto
    have over: "sv_view v = Over" and "\<not> busy (sv_state (svc_validator s))"
      using exchange_heard(3)[OF ex] view_state(1)[of "svc_validator s"] by auto
    then have idle: "\<not> svc_dispatch_active s" using active by simp
    have "shut sid p (?closed t)"
      using t sp over idle kept by (cases "svc_transport s") (auto simp: shut_def kept_def ledger metered_def)
    then show "outcome sid p (\<lambda>flow t. flow = FlowShutdown \<and> shut sid p t) (Ok FlowShutdown, ?closed t)" by simp
  qed
qed

lemma request_token_outcome:
  assumes "heard sid p h s"
  shows "outcome sid p (\<lambda>_ t. t = s) (request_token h op s)"
  using heard_stopped[OF assms]
  by (cases op; cases "decode_enumerate_payload (svc_frame h s)"; cases "decode_stream_entry_payload (svc_frame h s)")
    (auto simp: request_token_def)

lemma begin_dispatched:
  assumes kept: "kept sid p s" and idle: "\<not> svc_dispatch_active s" and t: "t = s\<lparr>svc_validator := v\<rparr>"
    and sp: "spoken sid p (svc_log t) v 1 enumeration_budget_start" and state: "busy (sv_state v)"
  shows "outcome sid p (\<lambda>flow t. flow = FlowContinue \<and> turning sid p t)
    (st_bind (svc_dispatched (dp_begin (watched dp) op token policy)) (\<lambda>stream_size s.
       if \<not> size_is_canonical op stream_size
       then (Err (rejected_action NoncanonicalValue), s\<lparr>svc_dispatch := dp_cancel (watched dp) (svc_dispatch s)\<rparr>)
       else (Ok FlowContinue, svc_activate h op stream_size s)) t)"
proof -
  obtain es d where disp: "svc_dispatch s = (es, d)" by fastforce
  obtain r d' where run: "dp_begin dp op token policy d = (r, d')" by fastforce
  have life: "dispatch_life es False = Some False" using kept idle disp by (simp add: kept_def ledger)
  have stop: "stopped sid p f (t\<lparr>svc_dispatch := (es', d'')\<rparr>)"
    if "dispatch_life es' False = Some False" "fl_error f \<noteq> SvInternalFailure" for es' d'' f
    using that sp t kept idle by (intro spoken_stopped) (auto simp: kept_def ledger)
  show ?thesis
  proof (cases r)
    case (Err e)
    then show ?thesis using run disp t stop[OF life]
      by (simp add: st_bind_def svc_dispatched_def watched_def)
  next
    case (Ok n)
    have begun: "dispatch_life (es @ [EvBegin]) False = Some True" using life by (simp add: dispatch_life_snoc)
    then have "dispatch_life ((es @ [EvBegin]) @ [EvCancel]) False = Some False" by (simp only: dispatch_life_snoc) simp
    then have dropped: "stopped sid p f (t\<lparr>svc_dispatch := (es @ [EvBegin, EvCancel], d'')\<rparr>)"
      if "fl_error f \<noteq> SvInternalFailure" for f d'' using that stop by simp
    have "turning sid p (svc_activate h op n (t\<lparr>svc_dispatch := (es @ [EvBegin], d')\<rparr>))"
      using t sp state kept begun by (auto simp: turning_def said_def kept_def ledger svc_activate_def)
    then show ?thesis using Ok run disp t dropped
      by (simp add: st_bind_def svc_dispatched_def watched_def)
  qed
qed

lemma begin_operation_outcome:
  assumes hd: "heard sid p h s" and kind: "fh_message_type h \<in> {Enumerate, StreamEntry}"
  shows "outcome sid p (\<lambda>flow t. flow = FlowContinue \<and> turning sid p t) (begin_operation (watched dp) h op s)"
proof -
  have kept: "kept sid p s" and active: "svc_dispatch_active s \<longleftrightarrow> busy (sv_state (svc_validator s))"
    using hd by (auto simp: heard_def)
  have fed: "well_fed p fs (svc_next_read_sequence s) (svc_enumeration s) \<Longrightarrow>
      well_fed p (fs @ [(ParentToWorker, svc_frame h s)]) 1 enumeration_budget_start" for fs
    using kind by (intro well_fed.request) simp_all
  show ?thesis unfolding begin_operation_def
  proof (rule outcome_bind, rule outcome_mono[OF request_token_outcome[OF hd]], simp only:,
      rule outcome_bind, rule outcome_mono[OF observe_outcome[OF hd fed]])
    fix token u t
    assume "\<exists>v. t = s\<lparr>svc_validator := v\<rparr> \<and> spoken sid p (svc_log t) v 1 enumeration_budget_start \<and>
        exchange (sv_view (svc_validator s)) (ParentToWorker, fh_message_type h, fh_request_id h) (sv_view v)"
    then obtain v where t: "t = s\<lparr>svc_validator := v\<rparr>" and sp: "spoken sid p (svc_log t) v 1 enumeration_budget_start"
      and ex: "exchange (sv_view (svc_validator s)) (ParentToWorker, fh_message_type h, fh_request_id h) (sv_view v)" by blast
    have "(\<exists>high stale. sv_view (svc_validator s) = Resting high stale) \<and> (\<exists>op. sv_view v = Busy op (fh_request_id h) False)"
      using exchange_heard(2)[OF ex] kind by simp
    then have "sv_state (svc_validator s) = Idle" "busy (sv_state v)"
      using view_state(1)[of v] view_state(2)[of "svc_validator s"] by blast+
    then show "outcome sid p (\<lambda>flow t. flow = FlowContinue \<and> turning sid p t)
        (st_bind (svc_dispatched (dp_begin (watched dp) op token (svc_source_policy t))) (\<lambda>stream_size s.
           if \<not> size_is_canonical op stream_size
           then (Err (rejected_action NoncanonicalValue), s\<lparr>svc_dispatch := dp_cancel (watched dp) (svc_dispatch s)\<rparr>)
           else (Ok FlowContinue, svc_activate h op stream_size s)) t)"
      using begin_dispatched[OF kept _ t sp] active by simp
  qed
qed

lemma handle_parent_frame_outcome:
  assumes "heard sid p h s"
  shows "outcome sid p (\<lambda>flow t. case flow of FlowContinue \<Rightarrow> turning sid p t | FlowShutdown \<Rightarrow> shut sid p t)
    (handle_parent_frame (metered tr) (watched dp) h s)"
  using heard_stopped[OF assms, of "failure_protocol UnexpectedMessage"]
    outcome_mono[OF begin_operation_outcome[OF assms]] outcome_mono[OF handle_cancel_outcome[OF assms]]
    outcome_mono[OF handle_late_read_reply_outcome[OF assms]] outcome_mono[OF handle_shutdown_outcome[OF assms]]
  by (cases "fh_message_type h") (simp_all add: handle_parent_frame_def)


section \<open>From an action to a frame\<close>

text \<open>
  A prepared frame: what it commits to, and that the peer will decode it.  \<open>sound_frame\<close> relates the
  commit to the frame's kind and to the peer's context after it.
\<close>

definition frame_of :: "PreparedFrame \<Rightarrow> bytes \<Rightarrow> FrameView" where
  "frame_of prep payload = frame_view_new (prep_header prep) (take (prep_payload_length prep) payload)"

fun commit_kind :: "Commit \<Rightarrow> MessageType" where
  "commit_kind (CommitReadRequest sequence len) = ReadRequest"
| "commit_kind (CommitEntryBatch b) = EntryBatch"
| "commit_kind (CommitDataChunk n) = DataChunk"
| "commit_kind CommitComplete = Complete"

fun commit_budget :: "Commit \<Rightarrow> EnumerationBudget \<Rightarrow> EnumerationBudget" where
  "commit_budget (CommitEntryBatch b') b = b'"
| "commit_budget _ b = b"

definition sound_frame ::
  "SourceReadPolicy \<Rightarrow> bool \<Rightarrow> u32 \<Rightarrow> EnumerationBudget \<Rightarrow> bytes \<Rightarrow>
     (ServiceFailure, PreparedFrame) result \<times> bytes \<Rightarrow> bool" where
  "sound_frame p pending q b payload x \<longleftrightarrow>
     (case x of
        (Err f, payload') \<Rightarrow> fl_error f \<noteq> SvInternalFailure
      | (Ok prep, payload') \<Rightarrow> length payload' = length payload \<and>
          fh_message_type (prep_header prep) = commit_kind (prep_commit prep) \<and>
          (\<forall>sequence len. prep_commit prep = CommitReadRequest sequence len \<longrightarrow> sequence = q \<and> \<not> pending) \<and>
          (\<forall>fs. well_fed p fs q b \<longrightarrow> wf_frame (frame_of prep payload') \<longrightarrow>
             well_fed p (fs @ [(WorkerToParent, frame_of prep payload')]) q (commit_budget (prep_commit prep) b)))"

lemma prepared_frame_new_small:
  "n \<le> unat MAXIMUM_FRAME_PAYLOAD_BYTES \<Longrightarrow> prepared_frame_new k ctx n commit =
     Ok \<lparr>prep_header = frame_header_new k (ctx_session_id ctx) (ctx_request_id ctx) (of_nat n),
         prep_payload_length = n, prep_commit = commit\<rparr>"
  by (simp add: prepared_frame_new_def try_from_nat_def owp_consts)

lemma header_kind [simp]: "fh_message_type (frame_header_new k sid rid n) = k"
  by (simp add: frame_header_new_def)

lemma view_parts [simp]: "fv_header (frame_view_new h payload) = h" "fv_payload (frame_view_new h payload) = payload"
  by (simp_all add: frame_view_new_def)

lemma prepare_read_request_sound:
  "sound_frame p pending q b payload (prepare_read_request offset len pending q p ctx payload)"
proof -
  let ?m = "\<lparr>rq_read_sequence = q, rq_offset = offset, rq_length = len\<rparr>"
  obtain r payload' where enc: "encode_read_request_payload ?m p q payload = (r, payload')" by fastforce
  show ?thesis
  proof (cases r)
    case (Err e)
    then show ?thesis using enc by (auto simp: prepare_read_request_def Let_def sound_frame_def encoded_as_def)
  next
    case (Ok n)
    then have c: "read_request_valid p q ?m" "n = 16" "16 \<le> length payload" "payload' = read_request_wire ?m @ drop 16 payload"
      using enc by (auto simp: read_request_codec.encode_Ok)
    have "decode_read_request_payload f p q = Ok ?m"
      if "wf_frame f" "fh_message_type (fv_header f) = ReadRequest" "fv_payload f = read_request_wire ?m" for f
      using that c by (simp add: read_request_codec.decode_Ok)
    then have fed: "well_fed p fs q b \<Longrightarrow> wf_frame f \<Longrightarrow> fh_message_type (fv_header f) = ReadRequest \<Longrightarrow>
        fv_payload f = read_request_wire ?m \<Longrightarrow> well_fed p (fs @ [(WorkerToParent, f)]) q b" for fs f
      using well_fed.read by metis
    have "prepared_frame_new ReadRequest ctx n (CommitReadRequest q len) =
        Ok \<lparr>prep_header = frame_header_new ReadRequest (ctx_session_id ctx) (ctx_request_id ctx) (of_nat n),
            prep_payload_length = n, prep_commit = CommitReadRequest q len\<rparr>"
      using c(2) by (intro prepared_frame_new_small) (simp add: owp_consts)
    then show ?thesis using enc Ok c
      by (auto simp: prepare_read_request_def Let_def sound_frame_def encoded_as_def frame_of_def intro!: fed)
  qed
qed

lemma prepare_entry_batch_sound:
  "sound_frame p pending q b payload (prepare_entry_batch es op b ctx payload)"
proof (cases "budget_policy b")
  case (Err e)
  then show ?thesis by (auto simp: prepare_entry_batch_def sound_frame_def)
next
  case (Ok policy)
  let ?n = "length (entry_batch_wire es)"
  show ?thesis
  proof (cases "entry_batch_valid policy es \<and> ?n \<le> length payload")
    case False
    then obtain e where "encode_entry_batch_payload es policy payload = (Err e, payload)"
      using encode_entry_batch_valid[of policy es payload] encode_entry_batch_invalid[of policy es payload] by auto
    then show ?thesis using Ok by (auto simp: prepare_entry_batch_def sound_frame_def encoded_as_def)
  next
    case True
    then have enc: "encode_entry_batch_payload es policy payload = (Ok ?n, entry_batch_wire es @ drop ?n payload)"
      using encode_entry_batch_valid[of policy es payload] by simp
    have small: "?n \<le> unat MAXIMUM_FRAME_PAYLOAD_BYTES" using True by (simp add: entry_batch_valid_def)
    have fed: "well_fed p (fs @ [(WorkerToParent, f)]) q b'"
      if "well_fed p fs q b" "wf_frame f" "fh_message_type (fv_header f) = EntryBatch"
        "fv_payload f = entry_batch_wire es" "budget_spend es b = Some b'" for fs f b'
    proof -
      have "decode_entry_batch_payload f policy es = (Ok es, es)" using that True by (simp add: decode_entry_batch_Ok)
      then show ?thesis using well_fed.batch[OF that(1) Ok] that(5) by blast
    qed
    show ?thesis using Ok enc prepared_frame_new_small[OF small] True
      by (auto simp: prepare_entry_batch_def sound_frame_def encoded_as_def frame_of_def intro!: fed
          split: option.splits)
  qed
qed

lemma prepare_data_chunk_sound:
  "sound_frame p pending q b payload (prepare_data_chunk data op remaining ctx payload)"
proof -
  obtain r payload' where enc: "encode_data_chunk_payload \<lparr>dc_data = data\<rparr> remaining payload = (r, payload')" by fastforce
  show ?thesis
  proof (cases r)
    case (Err e)
    then show ?thesis using enc by (auto simp: prepare_data_chunk_def sound_frame_def encoded_as_def)
  next
    case (Ok n)
    then have c: "data_chunk_valid remaining \<lparr>dc_data = data\<rparr>" "n = length data" "n \<le> length payload"
      "payload' = data @ drop n payload"
      using enc by (auto simp: data_chunk_codec.encode_Ok)
    have small: "n \<le> unat MAXIMUM_FRAME_PAYLOAD_BYTES" using c(1,2) by (simp add: data_chunk_valid_def owp_consts)
    have fed: "well_fed p (fs @ [(WorkerToParent, f)]) q b"
      if "well_fed p fs q b" "wf_frame f" "fh_message_type (fv_header f) = DataChunk" "fv_payload f = data" for fs f
    proof -
      have "decode_data_chunk_payload f remaining = Ok \<lparr>dc_data = data\<rparr>" using that c by (simp add: data_chunk_codec.decode_Ok)
      then show ?thesis using well_fed.chunk[OF that(1)] by blast
    qed
    show ?thesis using enc Ok c prepared_frame_new_small[OF small]
      by (auto simp: prepare_data_chunk_def sound_frame_def encoded_as_def frame_of_def intro!: fed split: option.splits)
  qed
qed

lemma prepare_complete_sound:
  assumes "unat MAXIMUM_FRAME_PAYLOAD_BYTES \<le> length payload"
  shows "sound_frame p pending q b payload (prepare_complete op remaining ctx payload)"
proof -
  let ?m = "\<lparr>cm_status = StatusOk, cm_phase = PhaseComplete\<rparr>"
  have valid: "complete_valid ?m" by (simp add: complete_valid_def)
  have room: "4 \<le> length payload" using assms by (simp add: owp_consts)
  have enc: "encode_complete_payload ?m phase payload = (Ok 4, complete_wire ?m @ drop 4 payload)" for phase
    using valid room by (simp add: complete_codec.encode_Ok)
  have fed: "well_fed p (fs @ [(WorkerToParent, f)]) q b"
    if "well_fed p fs q b" "wf_frame f" "fh_message_type (fv_header f) = Complete" "fv_payload f = complete_wire ?m" for fs f
  proof -
    have "decode_complete_payload f OpStream = Ok ?m" using that valid by (simp add: complete_codec.decode_Ok)
    then show ?thesis using well_fed.complete[OF that(1)] by blast
  qed
  have "prepared_frame_new Complete ctx 4 CommitComplete =
      Ok \<lparr>prep_header = frame_header_new Complete (ctx_session_id ctx) (ctx_request_id ctx) (of_nat 4),
          prep_payload_length = 4, prep_commit = CommitComplete\<rparr>"
    by (intro prepared_frame_new_small) (simp add: owp_consts)
  then show ?thesis using enc room
    by (auto simp: prepare_complete_def sound_frame_def encoded_as_def frame_of_def intro!: fed)
qed

lemma prepare_action_sound:
  assumes "kept sid p s" and "prepare_action action s = (r, t)"
  shows "\<exists>payload. t = s\<lparr>svc_send_payload := payload\<rparr> \<and>
    sound_frame p (svc_pending_read s) (svc_next_read_sequence s) (svc_enumeration s) (svc_send_payload s) (r, payload)"
proof -
  let ?sound = "sound_frame p (svc_pending_read s) (svc_next_read_sequence s) (svc_enumeration s) (svc_send_payload s)"
  have p: "svc_source_policy s = p" "unat MAXIMUM_FRAME_PAYLOAD_BYTES \<le> length (svc_send_payload s)"
    using assms(1) by (simp_all add: kept_def)
  then show ?thesis
    using assms(2) prepare_read_request_sound[of p "svc_pending_read s" "svc_next_read_sequence s" "svc_enumeration s"]
      prepare_entry_batch_sound[of p "svc_pending_read s" "svc_next_read_sequence s" "svc_enumeration s"]
      prepare_data_chunk_sound[of p "svc_pending_read s" "svc_next_read_sequence s" "svc_enumeration s"]
      prepare_complete_sound[OF p(2), of p "svc_pending_read s" "svc_next_read_sequence s" "svc_enumeration s"]
    by (cases action) (auto simp: prepare_action_def Let_def split: prod.splits, metis+)
qed

context worker_link
begin

lemma await_outcome:
  fixes s :: "('d, 'w) watched_service"
  assumes "turning sid p s" and "busy (sv_state (svc_validator s))"
  shows "outcome sid p (\<lambda>_ t. turning sid p t) (await_read_reply_or_cancel (metered tr) (watched dp) s)"
  unfolding await_read_reply_or_cancel_def
proof (rule outcome_bind, rule outcome_mono[OF receive_outcome[OF assms(1)]])
  fix h and t :: "('d, 'w) watched_service"
  assume "heard sid p h t \<and> svc_validator t = svc_validator s \<and> svc_pending_read t = svc_pending_read s"
  then have hd: "heard sid p h t" and b: "busy (sv_state (svc_validator t))" using assms(2) by auto
  show "outcome sid p (\<lambda>_ t. turning sid p t) ((case fh_message_type h of
         Cancel \<Rightarrow> st_bind (handle_cancel (metered tr) (watched dp) h) (\<lambda>_. st_return ())
       | ReadReply \<Rightarrow> svc_accept_read_reply (watched dp) h False
       | _ \<Rightarrow> st_fail (failure_protocol UnexpectedMessage)) t)"
    using heard_stopped[OF hd] accept_read_reply_outcome[OF hd, of False dp] b
      cancel_taken[OF hd, of tr dp]
    by (cases "fh_message_type h") simp_all
qed

lemma apply_commit_outcome:
  assumes kept: "kept sid p t" and sp: "spoken sid p (svc_log t) (svc_validator t) (svc_next_read_sequence t)
      (commit_budget commit (svc_enumeration t))"
    and active: "svc_dispatch_active t" and before: "sv_view v = Busy op rid reading"
    and ex: "exchange (sv_view v) (WorkerToParent, commit_kind commit, r) (sv_view (svc_validator t))"
  shows "outcome sid p (\<lambda>_ t. turning sid p t) (apply_commit (metered tr) (watched dp) commit t)"
proof (cases commit)
  case (CommitReadRequest sequence len)
  then have "busy (sv_state (svc_validator t))"
    using ex before exchange_told(1) view_state(1)[of "svc_validator t"] by (metis commit_kind.simps(1))
  moreover from this have "turning sid p t"
    using kept sp active CommitReadRequest by (simp add: turning_def said_def)
  ultimately show ?thesis using await_outcome CommitReadRequest by (simp add: apply_commit_def)
next
  case (CommitEntryBatch b)
  then have "busy (sv_state (svc_validator t))"
    using ex before exchange_told(2) view_state(1)[of "svc_validator t"] by (metis commit_kind.simps(2))
  then show ?thesis using kept sp active CommitEntryBatch
    by (simp add: apply_commit_def turning_def said_def kept_def ledger)
next
  case (CommitDataChunk n)
  then have "busy (sv_state (svc_validator t))"
    using ex before exchange_told(3) view_state(1)[of "svc_validator t"] by (metis commit_kind.simps(3))
  then show ?thesis using kept sp active CommitDataChunk
    by (simp add: apply_commit_def turning_def said_def kept_def ledger)
next
  case CommitComplete
  then have "sv_state (svc_validator t) = Idle"
    using ex before exchange_told(4) view_state(2)[of "svc_validator t"] by (metis commit_kind.simps(4))
  then show ?thesis using kept sp active CommitComplete
    by (cases "svc_dispatch t")
      (simp add: apply_commit_def turning_def said_def kept_def ledger watched_def dispatch_life_snoc)
qed

lemma prepared_outcome:
  assumes t: "turning sid p s" and b: "busy (sv_state (svc_validator s))"
  shows "outcome sid p (\<lambda>_ t. turning sid p t)
    (st_bind (prepare_action action) (\<lambda>prepared s.
       let s = record_pending_read (prep_commit prepared) s in
       st_bind (svc_send (metered tr) (prep_header prepared) (take (prep_payload_length prepared) (svc_send_payload s)))
         (\<lambda>_. apply_commit (metered tr) (watched dp) (prep_commit prepared)) s) s)"
proof -
  have kept: "kept sid p s" and sp: "said sid p (svc_log s) s" and active: "svc_dispatch_active s"
    using t b by (auto simp: turning_def)
  obtain r s1 where prep: "prepare_action action s = (r, s1)" by fastforce
  from prepare_action_sound[OF kept prep] obtain payload where s1: "s1 = s\<lparr>svc_send_payload := payload\<rparr>"
    and sound: "sound_frame p (svc_pending_read s) (svc_next_read_sequence s) (svc_enumeration s) (svc_send_payload s) (r, payload)"
    by blast
  show ?thesis
  proof (cases r)
    case (Err f)
    then have "stopped sid p f s1" using turning_stopped[OF t, of f] sound s1 by (simp add: sound_frame_def stopped_def ledger)
    then show ?thesis using prep Err by (simp add: st_bind_def)
  next
    case (Ok q)
    let ?s2 = "record_pending_read (prep_commit q) s1"
    have fed: "well_fed p fs (svc_next_read_sequence s) (svc_enumeration s) \<Longrightarrow>
        wf_frame (frame_view_new (prep_header q) (take (prep_payload_length q) (svc_send_payload ?s2))) \<Longrightarrow>
        well_fed p (fs @ [(WorkerToParent, frame_view_new (prep_header q) (take (prep_payload_length q) (svc_send_payload ?s2)))])
          (svc_next_read_sequence s) (commit_budget (prep_commit q) (svc_enumeration s))" for fs
      using sound Ok s1 by (auto simp: sound_frame_def frame_of_def record_pending_read_def split: Commit.splits)
    have same: "svc_log ?s2 = svc_log s" "svc_validator ?s2 = svc_validator s" "svc_meter ?s2 = svc_meter s"
      "svc_dispatch ?s2 = svc_dispatch s" "svc_dispatch_active ?s2 = svc_dispatch_active s"
      "svc_next_read_sequence ?s2 = svc_next_read_sequence s" "svc_enumeration ?s2 = svc_enumeration s"
      "svc_session_id ?s2 = svc_session_id s"
      using s1 by (auto simp: record_pending_read_def ledger split: Commit.split)
    have kept2: "kept sid p (?s2\<lparr>svc_validator := v, svc_transport := w\<rparr>)"
      if "svc_meter (?s2\<lparr>svc_validator := v, svc_transport := w\<rparr>) = (0, 0)" for v w
      using that kept sound Ok s1
      by (auto simp: kept_def ledger sound_frame_def record_pending_read_def split: Commit.splits)
    from b obtain op rid reading where before: "sv_view (svc_validator s) = Busy op rid reading" using view_state(1) by metis
    have kind: "fh_message_type (prep_header q) = commit_kind (prep_commit q)" using sound Ok by (simp add: sound_frame_def)
    have "outcome sid p (\<lambda>_ t. turning sid p t)
      (st_bind (svc_send (metered tr) (prep_header q) (take (prep_payload_length q) (svc_send_payload ?s2)))
         (\<lambda>_. apply_commit (metered tr) (watched dp) (prep_commit q)) ?s2)"
    proof (rule outcome_bind, rule outcome_mono[OF send_outcome[OF _ _ _ _ fed]])
      show "spoken sid p (svc_log ?s2) (svc_validator ?s2) (svc_next_read_sequence s) (svc_enumeration s)"
        using sp same by (simp add: said_def)
      show "svc_meter ?s2 = (0, 0)" "svc_life ?s2" "svc_session_id ?s2 = sid"
        using kept same by (simp_all add: kept_def svc_life_def)
    next
      fix u t'
      assume "\<exists>v w. t' = ?s2\<lparr>svc_validator := v, svc_transport := w\<rparr> \<and>
        spoken sid p (svc_log t') v (svc_next_read_sequence s) (commit_budget (prep_commit q) (svc_enumeration s)) \<and>
        svc_meter t' = (0, 0) \<and> exchange (sv_view (svc_validator ?s2))
          (WorkerToParent, fh_message_type (prep_header q), fh_request_id (prep_header q)) (sv_view v)"
      then obtain v w where t': "t' = ?s2\<lparr>svc_validator := v, svc_transport := w\<rparr>"
        and sp': "spoken sid p (svc_log t') v (svc_next_read_sequence s) (commit_budget (prep_commit q) (svc_enumeration s))"
        and m: "svc_meter t' = (0, 0)"
        and ex: "exchange (sv_view (svc_validator s)) (WorkerToParent, commit_kind (prep_commit q), fh_request_id (prep_header q)) (sv_view v)"
        using same kind by auto
      show "outcome sid p (\<lambda>_ t. turning sid p t) (apply_commit (metered tr) (watched dp) (prep_commit q) t')"
        by (rule apply_commit_outcome[OF _ _ _ before]) (use kept2[of w v] t' m sp' ex active same in simp_all)
    qed
    then show ?thesis using prep Ok by (simp add: st_bind_def Let_def)
  qed
qed

lemma dispatch_once_outcome:
  assumes t: "turning sid p s" and b: "busy (sv_state (svc_validator s))"
  shows "outcome sid p (\<lambda>_ t. turning sid p t) (dispatch_once (metered tr) (watched dp) s)"
proof -
  obtain es d where disp: "svc_dispatch s = (es, d)" by fastforce
  obtain r d' where run: "dp_step dp d = (r, d')" by fastforce
  let ?t = "s\<lparr>svc_dispatch := (es @ [EvStep], d')\<rparr>"
  have turn: "turning sid p ?t"
    using t b disp by (simp add: turning_def kept_def said_def ledger dispatch_life_snoc)
  have "svc_dispatched (dp_step (watched dp)) s = (map_err failure_dispatch r, ?t)"
    using run disp by (simp add: svc_dispatched_def watched_def)
  then show ?thesis
    using turning_stopped[OF turn] prepared_outcome[OF turn, of _ dp] b
    by (cases r) (simp_all add: dispatch_once_def st_bind_def[of "svc_dispatched _"])
qed

end

context worker_link
begin

lemma run_active_operation_outcome:
  assumes t: "turning sid p s" and b: "busy (sv_state (svc_validator s))"
  shows "outcome sid p (\<lambda>_ t. turning sid p t) (run_active_operation (metered tr) (watched dp) s)"
proof -
  obtain log a c w where world: "svc_transport s = (log, a, c, w)" by (metis prod.collapse)
  obtain input w' where probe: "tr_probe_input tr w = (input, w')" by fastforce
  have probe': "tr_probe_input (metered tr) (svc_transport s) = (input, log, a, c, w')"
    using world probe by (simp add: metered_def)
  let ?s = "s\<lparr>svc_transport := (log, a, c, w')\<rparr>"
  have turn: "turning sid p ?s" and busy: "busy (sv_state (svc_validator ?s))"
    using t b world by (simp_all add: turning_def kept_def said_def ledger)
  have listen: "outcome sid p (\<lambda>_ t. turning sid p t) (st_bind (svc_receive (metered tr)) (\<lambda>header.
      if fh_message_type header \<noteq> Cancel then st_fail (failure_protocol UnexpectedMessage)
      else st_bind (handle_cancel (metered tr) (watched dp) header) (\<lambda>_. st_return ())) ?s)"
    by (rule outcome_bind, rule outcome_mono[OF receive_outcome[OF turn]])
      (auto intro: cancel_taken heard_stopped)
  have counted: "turning sid p (?s\<lparr>svc_dispatch_steps := n\<rparr>)" for n
    using turn by (simp add: turning_def kept_def said_def ledger)
  have "run_active_operation (metered tr) (watched dp) s = (case input of
        InputPeerClosed \<Rightarrow> (Err (failure_transport IoPeerClosed), ?s)
      | InputFailed \<Rightarrow> (Err (failure_transport IoFailed), ?s)
      | InputAvailable \<Rightarrow> st_bind (svc_receive (metered tr)) (\<lambda>header.
          if fh_message_type header \<noteq> Cancel then st_fail (failure_protocol UnexpectedMessage)
          else st_bind (handle_cancel (metered tr) (watched dp) header) (\<lambda>_. st_return ())) ?s
      | InputUnavailable \<Rightarrow>
          if svc_dispatch_steps ?s \<ge> sl_maximum_dispatch_steps (svc_limits ?s)
          then (Err (failure_new SvDispatchBudgetExceeded), ?s)
          else dispatch_once (metered tr) (watched dp) (?s\<lparr>svc_dispatch_steps := svc_dispatch_steps ?s + 1\<rparr>))"
    unfolding run_active_operation_def probe' by (simp add: Let_def)
  then show ?thesis
    using turning_stopped[OF turn] listen dispatch_once_outcome[OF counted, of _ dp] busy
    by (cases input) (auto simp del: outcome_bind)
qed

lemma service_turn_outcome:
  assumes "turning sid p s"
  shows "outcome sid p (\<lambda>flow t. case flow of FlowContinue \<Rightarrow> turning sid p t | FlowShutdown \<Rightarrow> shut sid p t)
    (service_turn (metered tr) (watched dp) s)"
proof (cases "busy (sv_state (svc_validator s))")
  case True
  then have eq: "service_turn (metered tr) (watched dp) s =
      st_bind (run_active_operation (metered tr) (watched dp)) (\<lambda>_. st_return FlowContinue) s"
    by (cases "sv_state (svc_validator s)") (simp_all add: service_turn_def)
  show ?thesis unfolding eq
    by (rule outcome_bind, rule outcome_mono[OF run_active_operation_outcome[OF assms True]]) simp
next
  case False
  then have eq: "service_turn (metered tr) (watched dp) s =
      st_bind (svc_receive (metered tr)) (handle_parent_frame (metered tr) (watched dp)) s"
    by (cases "sv_state (svc_validator s)") (simp_all add: service_turn_def)
  show ?thesis unfolding eq
    by (rule outcome_bind, rule outcome_mono[OF receive_outcome[OF assms]]) (simp add: handle_parent_frame_outcome)
qed

lemma service_run_outcome:
  assumes "turning sid p s" and "service_run (metered tr) (watched dp) s = Some x"
  shows "outcome sid p (\<lambda>_ t. shut sid p t) x"
  using assms
proof (induction "messages_left s" arbitrary: s rule: less_induct)
  case less
  obtain r t where turn: "service_turn (metered tr) (watched dp) s = (r, t)" by fastforce
  note out = service_turn_outcome[OF less.prems(1), of dp, unfolded turn]
  have inv: "sv_inv (svc_validator s)" using less.prems(1) by (simp add: turning_def said_def spoken_def)
  show ?case
  proof (cases r)
    case (Err e)
    then show ?thesis using less.prems(2) turn out by (auto simp: service_run.simps)
  next
    case (Ok flow)
    then show ?thesis
      using less.prems(2) turn out turn_spends(3)[OF turn[unfolded Ok] inv] less.hyps[of t]
      by (cases flow) (auto simp: service_run.simps[of _ _ s])
  qed
qed

lemma worker_handshake_metered:
  assumes run: "worker_handshake (metered tr) limits (buf, [], 0, 0, w) = (r, buf', log, a, c, w')"
  shows "a = 0 \<and> c = 0 \<and>
    (case r of
       Ok hs \<Rightarrow> wh_session_id hs \<noteq> 0 \<and> sv_state (wh_validator hs) = Idle \<and>
         spoken (wh_session_id hs) (wh_source_policy hs) log (wh_validator hs) 1 enumeration_budget_start
     | Err f \<Rightarrow> (\<exists>sid p. broken_off sid p log) \<and> fl_error f \<noteq> SvInternalFailure)"
proof -
  obtain q b1 log1 a1 c1 w1 where rcv: "receive_frame (metered tr) 0 (buf, [], 0, 0, w) = (q, b1, log1, a1, c1, w1)"
    by (metis prod.collapse)
  note got = receive_frame_metered[OF rcv]
  have start: "talk sid p [] Fresh 1 enumeration_budget_start" for sid p
    by (simp add: talk_def conversation_labels_def session_trace.start well_fed.silent)
  have quiet: "broken_off sid p rest" if "list_all (\<lambda>t. fst t = ParentToWorker) rest" for sid p rest
    unfolding broken_off_def using that start[of sid p]
    by (intro exI[of _ "[]"] exI[of _ Fresh] exI[of _ 1] exI[of _ enumeration_budget_start] exI[of _ rest])
      (simp add: conversation_transfers_def)
  show ?thesis
  proof (cases q)
    case (Err e)
    then show ?thesis using run rcv got quiet by (auto simp: worker_handshake_def)
  next
    case (Ok h)
    let ?f = "frame_view_new h (take (unat (fh_payload_length h)) b1)"
    have f: "wf_frame ?f" "log1 = frame_transfers ParentToWorker ?f" "a1 = 0" "c1 = 0" using got Ok by simp_all
    have heard: "broken_off sid p log1" for sid p using quiet f(2) heard_only by simp
    show ?thesis
    proof (cases "decode_hello_payload ?f")
      case (Err e)
      then show ?thesis using run rcv Ok f heard by (auto simp: worker_handshake_def)
    next
      case hello: (Ok m)
      let ?sid = "fh_session_id h" and ?p = "\<lparr>srp_source_size = hello_source_size m, srp_maximum_read_bytes = hello_maximum_read_bytes m\<rparr>"
      let ?v = "session_validator_new ?sid (sl_protocol_budgets limits)"
      have m: "hello_valid m" using hello by (simp add: hello_codec.decode_Ok)
      then have policy: "source_read_policy_new (hello_source_size m) (hello_maximum_read_bytes m) = Ok ?p"
        by (simp add: source_read_policy_new_Ok hello_valid_def)
      have sid: "?sid \<noteq> 0" using f(1) by (simp add: wf_frame_def frame_header_validate_Ok)
      obtain o1 v1 where obs: "observe ParentToWorker h ?v = (o1, v1)" by fastforce
      show ?thesis
      proof (cases o1)
        case (Err e)
        then show ?thesis using run rcv Ok f hello heard policy sid obs
          by (auto simp: worker_handshake_def session_id_new_def)
      next
        case observed: (Ok u)
        then have obs': "observe ParentToWorker h ?v = (Ok (), v1)" using obs by simp
        have "well_fed ?p ([] @ [(ParentToWorker, ?f)]) 1 enumeration_budget_start"
          using well_fed.hello[of ?f ?p] hello by simp
        note step = talk_snoc[OF start[of ?sid ?p, folded session_validator_new_view(1)[of ?sid "sl_protocol_budgets limits"]]
            session_validator_new_inv _ obs' refl f(1) this]
        have sp: "spoken ?sid ?p log1 v1 1 enumeration_budget_start"
          unfolding spoken_def using step f(2) by (auto simp: conversation_transfers_def intro!: exI[of _ "[(ParentToWorker, ?f)]"])
        let ?ready = "frame_header_new Ready ?sid 0 0"
        obtain r2 v2 log2 a2 c2 w2 where sent:
          "send_frame (metered tr) ?ready [] (v1, log1, 0, 0, w1) = (r2, v2, log2, a2, c2, w2)" by (metis prod.collapse)
        have fed: "well_fed ?p (fs @ [(WorkerToParent, frame_view_new ?ready [])]) 1 enumeration_budget_start"
          if "well_fed ?p fs 1 enumeration_budget_start" "wf_frame (frame_view_new ?ready [])" for fs
          using that by (intro well_fed.ready) (simp_all add: decode_ready_payload_def decode_empty_Ok)
        note out = send_frame_metered[OF sp fed sent]
        have greeted: "sv_view v1 = Greeted" using step(4) by (auto simp: exchange_simps label_of_def)
        then have "\<exists>high stale. sv_view v2 = Resting high stale" if "r2 = Ok ()"
          using out that by (auto simp: exchange_simps)
        then have "sv_state v2 = Idle" if "r2 = Ok ()" using that by (simp add: view_state)
        moreover have "\<exists>sid p. broken_off sid p log2" if "r2 = Err x" for x using out that by auto
        ultimately show ?thesis using run rcv Ok f hello policy sid obs observed sent out
          by (cases r2, auto simp: worker_handshake_def session_id_new_def, blast)
      qed
    qed
  qed
qed

end


section \<open>One lifetime, watched\<close>

definition lifetime ::
  "'w Transport \<Rightarrow> 'd Dispatcher \<Rightarrow> ServiceBuffers \<Rightarrow> ServiceLimits \<Rightarrow> 'd \<times> 'w \<Rightarrow>
     ((ServiceFailure, ServiceSummary) result \<times> (DispatchEvent list \<times> 'd) \<times> 'w metered) option" where
  "lifetime tr dp buffers limits x =
     run_parser_worker_service (metered tr) (watched dp) buffers limits (([], fst x), [], 0, 0, snd x)"

definition refused_at_once :: "ServiceBuffers \<Rightarrow> ServiceLimits \<Rightarrow> bool" where
  "refused_at_once buffers limits \<longleftrightarrow>
     length (bufs_receive_payload buffers) < unat MAXIMUM_FRAME_PAYLOAD_BYTES
     \<or> length (bufs_send_payload buffers) < unat MAXIMUM_FRAME_PAYLOAD_BYTES
     \<or> \<not> service_limits_valid limits"

context worker_link
begin

text \<open>Everything the two theorems below read off a finished lifetime.\<close>

lemma lifetime_report:
  assumes run: "lifetime tr dp buffers limits x = Some (r, (es, d), log, aborts, closes, w)"
  shows "dispatch_life es False = Some False \<and> (aborts, closes) = (if is_ok r then (0, 1) else (1, 0)) \<and>
    (refused_at_once buffers limits \<longrightarrow> r = Err (failure_new SvInvalidConfiguration) \<and> es = [] \<and> log = []) \<and>
    (case r of
       Ok summary \<Rightarrow> (\<exists>p fs q b. log = conversation_transfers fs \<and> talk (sum_session_id summary) p fs Over q b)
     | Err f \<Rightarrow> (\<exists>sid p. broken_off sid p log) \<and> fl_error f \<noteq> SvInternalFailure)"
proof (cases "refused_at_once buffers limits")
  case True
  have "talk 0 p [] Fresh 1 enumeration_budget_start" for p
    by (simp add: talk_def conversation_labels_def session_trace.start well_fed.silent)
  then have "\<exists>sid p. broken_off sid p []"
    unfolding broken_off_def
    by (intro exI[of _ 0] exI[of _ undefined] exI[of _ "[]"] exI[of _ Fresh] exI[of _ 1]
        exI[of _ enumeration_budget_start]) (simp add: conversation_transfers_def)
  then show ?thesis using run True
    by (auto simp: lifetime_def run_parser_worker_service_def refused_at_once_def metered_def, blast+)
next
  case fits: False
  obtain q buf log1 a1 c1 w1 where hs: "worker_handshake (metered tr) limits
      (bufs_receive_payload buffers, [], 0, 0, snd x) = (q, buf, log1, a1, c1, w1)" by (metis prod.collapse)
  note shake = worker_handshake_metered[OF hs]
  show ?thesis
  proof (cases q)
    case (Err f)
    then show ?thesis using run hs shake fits
      by (auto simp: lifetime_def run_parser_worker_service_def refused_at_once_def metered_def, blast+)
  next
    case (Ok h)
    let ?s = "service_new h limits ([], fst x) buf (bufs_send_payload buffers) (log1, a1, c1, w1)"
    have turn: "turning (wh_session_id h) (wh_source_policy h) ?s"
      using shake Ok fits
      by (simp add: turning_def kept_def said_def ledger service_new_def refused_at_once_def not_less)
    obtain y where loop: "service_run (metered tr) (watched dp) ?s = Some y"
      and r: "service_finish (metered tr) (watched dp) y = (r, (es, d), log, aborts, closes, w)"
      using run hs Ok fits by (auto simp: lifetime_def run_parser_worker_service_def refused_at_once_def)
    note out = service_run_outcome[OF turn loop]
    obtain v t where y: "y = (v, t)" by fastforce
    show ?thesis
    proof (cases v)
      case (Err f)
      then have st: "stopped (wh_session_id h) (wh_source_policy h) f t" using out y by simp
      show ?thesis using r y Err st fits
        by (cases "svc_dispatch t"; cases "svc_transport t")
          (auto simp: service_finish_def stopped_def ledger metered_def watched_def Let_def dispatch_life_snoc
            split: if_splits, blast+)
    next
      case (Ok u)
      then have "shut (wh_session_id h) (wh_source_policy h) t" using out y by simp
      then show ?thesis using r y Ok fits
        by (cases "svc_dispatch t"; cases "svc_transport t")
          (auto simp: service_finish_def shut_def ledger spoken_def, blast)
    qed
  qed
qed

end

end
