(* ===== verification/Worker_Erasure.thy ===== *)
theory Worker_Erasure
  imports Worker_Conversation
begin

text \<open>
  The record a watched lifetime keeps is a ghost: dropping it gives the service's own run, step by step.
  Over a transport that is an exact byte queue, the record of a run that did not fail is what the queue
  gave and took.
\<close>


section \<open>Links that lose nothing\<close>

definition said_by :: "Direction \<Rightarrow> transfers \<Rightarrow> bytes" where
  "said_by d log = concat (map snd (filter (\<lambda>t. fst t = d) log))"

lemma said_by_Nil [simp]: "said_by d [] = []"
  by (simp add: said_by_def)

lemma said_by_append [simp]: "said_by d (log @ rest) = said_by d log @ said_by d rest"
  by (simp add: said_by_def)

lemma said_by_Cons [simp]: "said_by d ((e, bs) # log) = (if e = d then bs else []) @ said_by d log"
  by (simp add: said_by_def)

locale exact_link = worker_link tr for tr :: "'w Transport" +
  fixes arriving :: "'w \<Rightarrow> bytes" and sent :: "'w \<Rightarrow> bytes" and held :: "'w \<Rightarrow> bool" and closings :: "'w \<Rightarrow> nat"
  assumes read_exact: "tr_read_exact tr dst w = (IoOk, dst', w') \<Longrightarrow> dst \<noteq> [] \<Longrightarrow>
      arriving w = dst' @ arriving w' \<and> sent w' = sent w"
    and write_exact: "tr_write_all tr bs w = (IoOk, w') \<Longrightarrow> sent w' = sent w @ bs \<and> arriving w' = arriving w"
    and probe_exact: "tr_probe_input tr w = (input, w') \<Longrightarrow> sent w' = sent w \<and> arriving w' = arriving w"
    and close_exact: "sent (tr_close_io tr w) = sent w" "arriving (tr_close_io tr w) = arriving w"
    and read_keeps: "tr_read_exact tr dst w = (status, dst', w') \<Longrightarrow> held w' = held w \<and> closings w' = closings w"
    and write_keeps: "tr_write_all tr bs w = (status, w') \<Longrightarrow> held w' = held w \<and> closings w' = closings w"
    and probe_keeps: "tr_probe_input tr w = (input, w') \<Longrightarrow> held w' = held w \<and> closings w' = closings w"
    and abort_gives_up: "\<not> held (tr_abort_io tr w)" "closings (tr_abort_io tr w) = closings w + (if held w then 1 else 0)"
    and close_gives_up: "\<not> held (tr_close_io tr w)" "closings (tr_close_io tr w) = closings w + (if held w then 1 else 0)"


section \<open>Dropping the record\<close>

definition bare :: "'w metered \<Rightarrow> 'w" where
  "bare m = snd (snd (snd m))"

definition strip :: "('d, 'w) watched_service \<Rightarrow> ('d, 'w) Service" where
  "strip s =
     \<lparr>svc_transport = bare (svc_transport s), svc_dispatch = snd (svc_dispatch s),
      svc_receive_payload = svc_receive_payload s, svc_send_payload = svc_send_payload s,
      svc_limits = svc_limits s, svc_validator = svc_validator s, svc_source_policy = svc_source_policy s,
      svc_enumeration = svc_enumeration s, svc_active_operation = svc_active_operation s,
      svc_session_id = svc_session_id s, svc_active_request_id = svc_active_request_id s,
      svc_remaining_stream_bytes = svc_remaining_stream_bytes s, svc_dispatch_steps = svc_dispatch_steps s,
      svc_next_read_sequence = svc_next_read_sequence s,
      svc_pending_read_sequence = svc_pending_read_sequence s,
      svc_pending_read_length = svc_pending_read_length s, svc_dispatch_active = svc_dispatch_active s,
      svc_pending_read = svc_pending_read s, svc_late_read_reply = svc_late_read_reply s\<rparr>"

lemma metered_bare:
  "tr_read_exact (metered tr) dst m =
     (case tr_read_exact tr dst (bare m) of (status, dst', w) \<Rightarrow>
        (status, dst', fst m @ [(ParentToWorker, dst')], fst (snd m), fst (snd (snd m)), w))"
  "tr_write_all (metered tr) bs m =
     (case tr_write_all tr bs (bare m) of (status, w) \<Rightarrow>
        (status, fst m @ [(WorkerToParent, bs)], fst (snd m), fst (snd (snd m)), w))"
  "tr_probe_input (metered tr) m =
     (case tr_probe_input tr (bare m) of (input, w) \<Rightarrow> (input, fst m, fst (snd m), fst (snd (snd m)), w))"
  "tr_abort_io (metered tr) m = (fst m, fst (snd m) + 1, fst (snd (snd m)), tr_abort_io tr (bare m))"
  "tr_close_io (metered tr) m = (fst m, fst (snd m), fst (snd (snd m)) + 1, tr_close_io tr (bare m))"
  by (cases m; simp add: metered_def bare_def split: prod.split)+

lemma bare_quad [simp]: "bare (log, a, c, w) = w"
  by (simp add: bare_def)

context exact_link
begin

definition exact_since :: "'w \<Rightarrow> 'w metered \<Rightarrow> bool" where
  "exact_since w0 m \<longleftrightarrow> arriving w0 = said_by ParentToWorker (fst m) @ arriving (bare m) \<and>
     sent (bare m) = sent w0 @ said_by WorkerToParent (fst m)"

text \<open>The link is given up by the first abort or close, and only then.\<close>

definition held_since :: "'w \<Rightarrow> 'w metered \<Rightarrow> bool" where
  "held_since w0 m \<longleftrightarrow> (held (bare m) \<longleftrightarrow> held w0 \<and> fst (snd m) + fst (snd (snd m)) = 0) \<and>
     closings (bare m) = closings w0 + (if held w0 \<and> 0 < fst (snd m) + fst (snd (snd m)) then 1 else 0)"

definition since :: "bool \<Rightarrow> 'w \<Rightarrow> 'w metered \<Rightarrow> bool" where
  "since ok w0 m \<longleftrightarrow> held_since w0 m \<and> (ok \<longrightarrow> exact_since w0 m)"

lemma held_since_kept:
  "held_since w0 m \<Longrightarrow> fst (snd m') = fst (snd m) \<Longrightarrow> fst (snd (snd m')) = fst (snd (snd m)) \<Longrightarrow>
     held (bare m') = held (bare m) \<Longrightarrow> closings (bare m') = closings (bare m) \<Longrightarrow> held_since w0 m'"
  unfolding held_since_def by simp

lemma since_weaken: "since b w0 m \<Longrightarrow> since (b \<and> c) w0 m"
  by (auto simp: since_def)

text \<open>
  \<open>mirrors f g\<close>: the watched operation \<open>f\<close> is the plain operation \<open>g\<close> with a record beside it that still
  accounts for the link; and when it succeeds, a record that was exact still is.
\<close>

definition mirrors ::
  "(('d, 'w) watched_service \<Rightarrow> (ServiceFailure, 'a) result \<times> ('d, 'w) watched_service) \<Rightarrow>
     ('d, 'w, 'a) service_op \<Rightarrow> bool" where
  "mirrors f g \<longleftrightarrow> (\<forall>s. case f s of (r, t) \<Rightarrow> g (strip s) = (r, strip t) \<and>
     (\<forall>b w0. since b w0 (svc_transport s) \<longrightarrow> since (b \<and> is_ok r) w0 (svc_transport t)))"

lemma mirrorsD:
  assumes "mirrors f g" and "f s = (r, t)"
  shows "g (strip s) = (r, strip t)"
    and "since b w0 (svc_transport s) \<Longrightarrow> since (b \<and> is_ok r) w0 (svc_transport t)"
  using assms by (auto simp: mirrors_def split: prod.splits)

lemma mirrorsI:
  assumes "\<And>s r t b w0. f s = (r, t) \<Longrightarrow> g (strip s) = (r, strip t) \<and>
      (since b w0 (svc_transport s) \<longrightarrow> since (b \<and> is_ok r) w0 (svc_transport t))"
  shows "mirrors f g"
  unfolding mirrors_def using assms by (auto split: prod.splits)

lemma mirrors_bind:
  assumes "mirrors f f'" and "\<And>v. mirrors (g v) (g' v)"
  shows "mirrors (st_bind f g) (st_bind f' g')"
proof (rule mirrorsI)
  fix s r t b w0
  assume run: "st_bind f g s = (r, t)"
  obtain q u where f: "f s = (q, u)" by fastforce
  note one = mirrorsD[OF assms(1) f]
  show "st_bind f' g' (strip s) = (r, strip t) \<and>
      (since b w0 (svc_transport s) \<longrightarrow> since (b \<and> is_ok r) w0 (svc_transport t))"
  proof (cases q)
    case (Err e)
    then show ?thesis using run f one(1) one(2)[of b w0] by (auto simp: st_bind_def)
  next
    case (Ok v)
    then have g: "g v u = (r, t)" using run f by (simp add: st_bind_def)
    note two = mirrorsD[OF assms(2) g]
    show ?thesis using one(1) one(2)[of b w0] two(1) two(2)[of b w0] Ok by (simp add: st_bind_def)
  qed
qed

lemma mirrors_pointwise: "(\<And>s. \<exists>h h'. mirrors h h' \<and> f s = h s \<and> f' (strip s) = h' (strip s)) \<Longrightarrow> mirrors f f'"
  unfolding mirrors_def by (rule allI) (metis (no_types))

lemma mirrors_if:
  "mirrors f f' \<Longrightarrow> mirrors g g' \<Longrightarrow> (\<And>s. b' (strip s) = b s) \<Longrightarrow>
     mirrors (\<lambda>s. if b s then f s else g s) (\<lambda>s. if b' s then f' s else g' s)"
  by (rule mirrors_pointwise) (metis (full_types))

lemma mirrors_param:
  "(\<And>x. mirrors (g x) (g' x)) \<Longrightarrow> (\<And>s. a' (strip s) = a s) \<Longrightarrow> mirrors (\<lambda>s. g (a s) s) (\<lambda>s. g' (a' s) s)"
  by (rule mirrors_pointwise) metis

lemma mirrors_moved:
  assumes "mirrors f f'" and "\<And>s. u' (strip s) = strip (u s)"
    and "\<And>s b w0. since b w0 (svc_transport s) \<Longrightarrow> since b w0 (svc_transport (u s))"
  shows "mirrors (\<lambda>s. f (u s)) (\<lambda>s. f' (u' s))"
  using assms by (auto simp: mirrors_def split: prod.splits)

lemma mirrors_return [simp]: "mirrors (st_return v) (st_return v)"
  by (simp add: mirrors_def)

lemma mirrors_fail [simp]: "mirrors (st_fail e) (st_fail e)"
  using since_weaken[where c = False] by (auto simp: mirrors_def)

lemma mirrors_Err:
  "(\<And>s. u' (strip s) = strip (u s)) \<Longrightarrow> (\<And>s. svc_transport (u s) = svc_transport s) \<Longrightarrow>
     mirrors (\<lambda>s. (Err e, u s)) (\<lambda>s. (Err e, u' s))"
  using since_weaken[where c = False] by (auto simp: mirrors_def)

lemma mirrors_update:
  "(\<And>s. u' (strip s) = strip (u s)) \<Longrightarrow>
   (\<And>s b w0. since b w0 (svc_transport s) \<Longrightarrow> since b w0 (svc_transport (u s))) \<Longrightarrow>
   mirrors (\<lambda>s. (Ok v, u s)) (\<lambda>s. (Ok v, u' s))"
  by (simp add: mirrors_def)

lemma mirrors_observe: "mirrors (svc_observe h) (svc_observe h)"
  by (auto simp: mirrors_def svc_observe_def strip_def since_weaken split: prod.splits)

lemma mirrors_request_token: "mirrors (request_token h op) (request_token h op)"
  by (auto simp: mirrors_def request_token_def svc_frame_def strip_def since_weaken split: Operation.split)

lemma mirrors_prepare_action: "mirrors (prepare_action action) (prepare_action action)"
  by (auto simp: mirrors_def prepare_action_def Let_def strip_def since_weaken split: prod.splits DispatchAction.splits)

lemma receive_frame_mirrored:
  assumes "receive_frame (metered tr) sid (buf, m) = (r, buf', m')"
  shows "receive_frame tr sid (buf, bare m) = (r, buf', bare m')"
    and "since b w0 m \<Longrightarrow> since (b \<and> is_ok r) w0 m'"
proof -
  obtain s1 bs w1 where first: "tr_read_exact tr (replicate FRAME_HEADER_BYTES 0) (bare m) = (s1, bs, w1)"
    by (metis prod.collapse)
  have head: "replicate FRAME_HEADER_BYTES (0 :: u8) \<noteq> []" by (simp add: owp_consts)
  obtain h where dec: "is_ok (decode_frame_header bs) \<Longrightarrow> decode_frame_header bs = Ok h" by (auto simp: is_ok_iff)
  let ?n = "unat (fh_payload_length h)"
  obtain s2 part w2 where second: "tr_read_exact tr (take ?n buf) w1 = (s2, part, w2)" by (metis prod.collapse)
  have one: "s1 = IoOk \<Longrightarrow> arriving (bare m) = bs @ arriving w1 \<and> sent w1 = sent (bare m)"
    using first head read_exact by blast
  have two: "s2 = IoOk \<Longrightarrow> ?n \<noteq> 0 \<Longrightarrow> ?n \<le> length buf \<Longrightarrow> arriving w1 = part @ arriving w2 \<and> sent w2 = sent w1"
    using second read_exact[of "take ?n buf" w1 part w2] by (cases buf) auto
  note kept = read_keeps[OF first] read_keeps[OF second]
  show "receive_frame tr sid (buf, bare m) = (r, buf', bare m')"
    using assms first second dec
    by (cases "s1 = IoOk"; cases "decode_frame_header bs")
      (auto simp: receive_frame_def metered_bare Let_def split: if_splits)
  have "fst (snd m') = fst (snd m) \<and> fst (snd (snd m')) = fst (snd (snd m)) \<and>
      held (bare m') = held (bare m) \<and> closings (bare m') = closings (bare m)"
    using assms first second dec kept
    by (cases "s1 = IoOk"; cases "decode_frame_header bs")
      (auto simp: receive_frame_def metered_bare Let_def split: if_splits)
  then have "held_since w0 m'" if "held_since w0 m" using held_since_kept[OF that] by blast
  moreover have "exact_since w0 m'" if "is_ok r" "exact_since w0 m"
    using that assms first second dec one two
    by (cases "s1 = IoOk"; cases "decode_frame_header bs")
      (auto simp: receive_frame_def metered_bare Let_def exact_since_def split: if_splits)
  ultimately show "since (b \<and> is_ok r) w0 m'" if "since b w0 m" using that by (auto simp: since_def)
qed

lemma mirrors_receive: "mirrors (svc_receive (metered tr)) (svc_receive tr)"
proof (rule mirrorsI)
  fix r b w0 and s t :: "('d, 'w) watched_service"
  assume run: "svc_receive (metered tr) s = (r, t)"
  obtain q buf m where rf: "receive_frame (metered tr) (svc_session_id s) (svc_receive_payload s, svc_transport s) = (q, buf, m)"
    by (metis prod.collapse)
  have "is_ok (map_err failure_of_receive q) = is_ok q" by (cases q) simp_all
  then show "svc_receive tr (strip s) = (r, strip t) \<and>
      (since b w0 (svc_transport s) \<longrightarrow> since (b \<and> is_ok r) w0 (svc_transport t))"
    using run rf receive_frame_mirrored[OF rf] by (auto simp: svc_receive_def strip_def)
qed

lemma send_frame_mirrored:
  assumes "send_frame (metered tr) h payload (v, m) = (r, v', m')"
  shows "send_frame tr h payload (v, bare m) = (r, v', bare m')"
    and "since b w0 m \<Longrightarrow> since (b \<and> is_ok r) w0 m'"
proof -
  obtain q v1 where obs: "observe WorkerToParent h v = (q, v1)" by fastforce
  obtain e bs where enc: "frame_header_encode h (replicate FRAME_HEADER_BYTES 0) = (e, bs)" by fastforce
  obtain s1 w1 where first: "tr_write_all tr bs (bare m) = (s1, w1)" by fastforce
  obtain s2 w2 where second: "tr_write_all tr payload w1 = (s2, w2)" by fastforce
  have one: "s1 = IoOk \<Longrightarrow> sent w1 = sent (bare m) @ bs \<and> arriving w1 = arriving (bare m)"
    using first write_exact by blast
  have two: "s2 = IoOk \<Longrightarrow> sent w2 = sent w1 @ payload \<and> arriving w2 = arriving w1"
    using second write_exact by blast
  note kept = write_keeps[OF first] write_keeps[OF second]
  show "send_frame tr h payload (v, bare m) = (r, v', bare m')"
    using assms obs enc first second
    by (cases q; cases e) (auto simp: send_frame_def metered_bare split: if_splits)
  have "fst (snd m') = fst (snd m) \<and> fst (snd (snd m')) = fst (snd (snd m)) \<and>
      held (bare m') = held (bare m) \<and> closings (bare m') = closings (bare m)"
    using assms obs enc first second kept
    by (cases q; cases e) (auto simp: send_frame_def metered_bare split: if_splits)
  then have "held_since w0 m'" if "held_since w0 m" using held_since_kept[OF that] by blast
  moreover have "exact_since w0 m'" if "is_ok r" "exact_since w0 m"
    using that assms obs enc first second one two
    by (cases q; cases e) (auto simp: send_frame_def metered_bare exact_since_def split: if_splits)
  ultimately show "since (b \<and> is_ok r) w0 m'" if "since b w0 m" using that by (auto simp: since_def)
qed

lemma mirrors_send: "mirrors (svc_send (metered tr) h payload) (svc_send tr h payload)"
proof (rule mirrorsI)
  fix r b w0 and s t :: "('d, 'w) watched_service"
  assume run: "svc_send (metered tr) h payload s = (r, t)"
  obtain q v m where sf: "send_frame (metered tr) h payload (svc_validator s, svc_transport s) = (q, v, m)"
    by (metis prod.collapse)
  then show "svc_send tr h payload (strip s) = (r, strip t) \<and>
      (since b w0 (svc_transport s) \<longrightarrow> since (b \<and> is_ok r) w0 (svc_transport t))"
    using run send_frame_mirrored[OF sf] by (auto simp: svc_send_def strip_def)
qed

definition shadows :: "(DispatchEvent list \<times> 'd, DispatchError, 'a) stm \<Rightarrow> ('d, DispatchError, 'a) stm \<Rightarrow> bool" where
  "shadows f g \<longleftrightarrow> (\<forall>x. case f x of (r, y) \<Rightarrow> g (snd x) = (r, snd y))"

lemma mirrors_dispatched:
  fixes g :: "('d, DispatchError, 'a) stm"
  assumes "shadows f g"
  shows "mirrors (svc_dispatched f) (svc_dispatched g)"
proof (rule mirrorsI)
  fix r b w0 and s t :: "('d, 'w) watched_service"
  assume run: "svc_dispatched f s = (r, t)"
  obtain q y where f: "f (svc_dispatch s) = (q, y)" by (cases "f (svc_dispatch s)")
  have "g (snd (svc_dispatch s)) = (q, snd y)"
    using assms[unfolded shadows_def, rule_format, of "svc_dispatch s"] f by simp
  then show "svc_dispatched g (strip s) = (r, strip t) \<and>
      (since b w0 (svc_transport s) \<longrightarrow> since (b \<and> is_ok r) w0 (svc_transport t))"
    using run f by (auto simp: svc_dispatched_def strip_def since_weaken)
qed

lemma watched_shadows:
  "shadows (dp_begin (watched dp) op token policy) (dp_begin dp op token policy)"
  "shadows (dp_step (watched dp)) (dp_step dp)"
  "shadows (dp_accept_read_reply (watched dp) reply) (dp_accept_read_reply dp reply)"
  by (auto simp: shadows_def watched_def split: prod.splits result.splits)

lemma watched_snd:
  "snd (dp_cancel (watched dp) x) = dp_cancel dp (snd x)" "snd (dp_end (watched dp) x) = dp_end dp (snd x)"
  by (auto simp: watched_def split: prod.splits)

lemmas mirrors_steps = mirrors_dispatched[OF watched_shadows(1)] mirrors_dispatched[OF watched_shadows(2)]
  mirrors_dispatched[OF watched_shadows(3)]

lemma strip_fields [simp]:
  "svc_transport (strip s) = bare (svc_transport s)" "svc_dispatch (strip s) = snd (svc_dispatch s)"
  "svc_send_payload (strip s) = svc_send_payload s" "svc_limits (strip s) = svc_limits s"
  "svc_validator (strip s) = svc_validator s" "svc_source_policy (strip s) = svc_source_policy s"
  "svc_session_id (strip s) = svc_session_id s" "svc_dispatch_steps (strip s) = svc_dispatch_steps s"
  "svc_dispatch_active (strip s) = svc_dispatch_active s" "svc_pending_read (strip s) = svc_pending_read s"
  "svc_pending_read_sequence (strip s) = svc_pending_read_sequence s"
  "svc_pending_read_length (strip s) = svc_pending_read_length s"
  "svc_late_read_reply (strip s) = svc_late_read_reply s" "svc_frame h (strip s) = svc_frame h s"
  by (simp_all add: strip_def svc_frame_def)

lemma mirrors_begin_operation: "mirrors (begin_operation (watched dp) h op) (begin_operation dp h op)"
proof -
  have "mirrors
      (st_bind (svc_dispatched (dp_begin (watched dp) op token policy)) (\<lambda>stream_size s.
       if \<not> size_is_canonical op stream_size
       then (Err (rejected_action NoncanonicalValue), s\<lparr>svc_dispatch := dp_cancel (watched dp) (svc_dispatch s)\<rparr>)
       else (Ok FlowContinue, svc_activate h op stream_size s)))
      (st_bind (svc_dispatched (dp_begin dp op token policy)) (\<lambda>stream_size s.
       if \<not> size_is_canonical op stream_size
       then (Err (rejected_action NoncanonicalValue), s\<lparr>svc_dispatch := dp_cancel dp (svc_dispatch s)\<rparr>)
       else (Ok FlowContinue, svc_activate h op stream_size s)))" for token policy
    by (rule mirrors_bind[OF mirrors_steps(1)], rule mirrors_if[OF mirrors_Err mirrors_update])
      (simp_all add: strip_def svc_activate_def watched_snd)
  then show ?thesis unfolding begin_operation_def
    by (intro mirrors_bind[OF mirrors_request_token] mirrors_bind[OF mirrors_observe])
      (rule mirrors_param[where a = svc_source_policy and a' = svc_source_policy], simp_all)
qed

lemma mirrors_handle_cancel:
  fixes dp :: "'d Dispatcher"
  shows "mirrors (handle_cancel (metered tr) (watched dp) h) (handle_cancel tr dp h)"
proof (rule mirrors_pointwise)
  fix s :: "('d, 'w) watched_service"
  let ?cancelled = "\<lambda>dp s. s\<lparr>svc_dispatch := dp_cancel dp (svc_dispatch s), svc_dispatch_active := False,
      svc_late_read_reply := svc_pending_read s\<rparr>"
  let ?acked = "\<lambda>tr sid. st_bind (svc_send tr (frame_header_new CancelAck sid (fh_request_id h) 0) [])
      (\<lambda>_ s. (Ok FlowContinue, s\<lparr>svc_active_request_id := 0\<rparr>))"
  let ?ack = "\<lambda>tr dp s. ?acked tr (svc_session_id (?cancelled dp s)) (?cancelled dp s)"
  have "mirrors (?acked (metered tr) sid) (?acked tr sid)" for sid
    by (intro mirrors_bind mirrors_send mirrors_update) (simp_all add: strip_def)
  then have "mirrors (\<lambda>s. ?acked (metered tr) (svc_session_id s) s) (\<lambda>s. ?acked tr (svc_session_id s) s)"
    by (rule mirrors_param[where a = svc_session_id and a' = svc_session_id]) simp
  then have ack: "mirrors (?ack (metered tr) (watched dp)) (?ack tr dp)"
    by (rule mirrors_moved) (simp_all add: strip_def watched_snd)
  show "\<exists>g g'. mirrors g g' \<and> handle_cancel (metered tr) (watched dp) h s = g s \<and>
      handle_cancel tr dp h (strip s) = g' (strip s)"
  proof (cases "decode_cancel_payload (svc_frame h s)")
    case (Err e)
    then show ?thesis
      by (intro exI[of _ "st_fail (failure_protocol e)"]) (simp add: handle_cancel_def)
  next
    case (Ok u)
    let ?go = "\<lambda>tr dp. st_bind (svc_observe h) (\<lambda>_ t. if sv_state (svc_validator s) = Idle then (Ok FlowContinue, t)
        else if \<not> svc_dispatch_active t then (Err (failure_new SvInternalFailure), t) else ?ack tr dp t)"
    have "mirrors (?go (metered tr) (watched dp)) (?go tr dp)"
      by (intro mirrors_bind mirrors_observe mirrors_if mirrors_update mirrors_Err ack) simp_all
    then show ?thesis using Ok unfolding handle_cancel_def Let_def
      by (intro exI[of _ "?go (metered tr) (watched dp)"] exI[of _ "?go tr dp"]) simp
  qed
qed

lemma mirrors_accept_read_reply:
  fixes dp :: "'d Dispatcher"
  shows "mirrors (svc_accept_read_reply (watched dp) h discard) (svc_accept_read_reply dp h discard)"
proof (rule mirrors_pointwise)
  fix s :: "('d, 'w) watched_service"
  let ?r = "decode_read_reply_payload (svc_frame h s) (svc_pending_read_sequence s) (svc_pending_read_length s)"
  let ?answered = "\<lambda>s. s\<lparr>svc_pending_read := False, svc_late_read_reply := False,
      svc_next_read_sequence := svc_pending_read_sequence s + 1, svc_pending_read_sequence := 0,
      svc_pending_read_length := 0\<rparr>"
  let ?last = "\<lambda>dp reply s. (if discard then (Ok (), ?answered s)
      else if rp_status reply \<noteq> StatusOk then (Err (failure_new SvSourceFailure), ?answered s)
      else svc_dispatched (dp_accept_read_reply dp reply) (?answered s))"
  have last: "mirrors (?last (watched dp) reply) (?last dp reply)" for reply
    by (intro mirrors_if mirrors_update mirrors_Err mirrors_moved[OF mirrors_steps(3)]) (simp_all add: strip_def)
  show "\<exists>g g'. mirrors g g' \<and> svc_accept_read_reply (watched dp) h discard s = g s \<and>
      svc_accept_read_reply dp h discard (strip s) = g' (strip s)"
  proof (cases "svc_pending_read s")
    case False
    then show ?thesis
      by (intro exI[of _ "st_fail (failure_protocol NoReadInFlight)"]) (simp add: svc_accept_read_reply_def)
  next
    case pending: True
    show ?thesis
    proof (cases ?r)
      case (Err e)
      then show ?thesis using pending
        by (intro exI[of _ "st_fail (failure_protocol e)"]) (simp add: svc_accept_read_reply_def)
    next
      case (Ok reply)
      then show ?thesis using pending mirrors_bind[OF mirrors_observe last]
        by (intro exI[of _ "st_bind (svc_observe h) (\<lambda>_. ?last (watched dp) reply)"]
            exI[of _ "st_bind (svc_observe h) (\<lambda>_. ?last dp reply)"])
          (simp add: svc_accept_read_reply_def Let_def)
    qed
  qed
qed

lemma mirrors_handle_late_read_reply: "mirrors (handle_late_read_reply (watched dp) h) (handle_late_read_reply dp h)"
  unfolding handle_late_read_reply_def
  by (rule mirrors_if[OF mirrors_Err mirrors_bind[OF mirrors_accept_read_reply mirrors_return]]) simp_all

lemma mirrors_handle_shutdown:
  "mirrors (handle_shutdown (metered tr) h :: ('d, 'w) watched_service \<Rightarrow> _) (handle_shutdown tr h)"
proof (rule mirrors_pointwise)
  fix s :: "('d, 'w) watched_service"
  let ?go = "\<lambda>tr. st_bind (svc_observe h) (\<lambda>_ s. (Ok FlowShutdown, s\<lparr>svc_pending_read := False,
      svc_late_read_reply := False, svc_transport := tr_close_io tr (svc_transport s)\<rparr>))"
  have "mirrors (?go (metered tr) :: ('d, 'w) watched_service \<Rightarrow> _) (?go tr)"
    by (rule mirrors_bind[OF mirrors_observe], rule mirrors_update)
      (auto simp: strip_def metered_bare since_def exact_since_def held_since_def close_exact close_gives_up)
  then show "\<exists>g g'. mirrors g g' \<and> handle_shutdown (metered tr) h s = g s \<and> handle_shutdown tr h (strip s) = g' (strip s)"
  proof (cases "decode_shutdown_payload (svc_frame h s)")
    case (Err e)
    then show ?thesis
      by (intro exI[of _ "st_fail (failure_protocol e)"]) (simp add: handle_shutdown_def)
  next
    case (Ok u)
    then show ?thesis using \<open>mirrors (?go (metered tr)) (?go tr)\<close>
      by (intro exI[of _ "?go (metered tr)"] exI[of _ "?go tr"]) (simp add: handle_shutdown_def)
  qed
qed

lemma mirrors_handle_parent_frame:
  "mirrors (handle_parent_frame (metered tr) (watched dp) h) (handle_parent_frame tr dp h)"
  by (cases "fh_message_type h")
    (simp_all add: handle_parent_frame_def mirrors_begin_operation mirrors_handle_cancel
      mirrors_handle_late_read_reply mirrors_handle_shutdown)

lemma mirrors_await: "mirrors (await_read_reply_or_cancel (metered tr) (watched dp)) (await_read_reply_or_cancel tr dp)"
  unfolding await_read_reply_or_cancel_def
proof (rule mirrors_bind[OF mirrors_receive])
  fix h :: FrameHeader
  show "mirrors (case fh_message_type h of
         Cancel \<Rightarrow> st_bind (handle_cancel (metered tr) (watched dp) h) (\<lambda>_. st_return ())
       | ReadReply \<Rightarrow> svc_accept_read_reply (watched dp) h False
       | _ \<Rightarrow> st_fail (failure_protocol UnexpectedMessage))
     (case fh_message_type h of
         Cancel \<Rightarrow> st_bind (handle_cancel tr dp h) (\<lambda>_. st_return ())
       | ReadReply \<Rightarrow> svc_accept_read_reply dp h False
       | _ \<Rightarrow> st_fail (failure_protocol UnexpectedMessage))"
    by (cases "fh_message_type h")
      (simp_all add: mirrors_accept_read_reply mirrors_bind[OF mirrors_handle_cancel])
qed

lemma mirrors_apply_commit: "mirrors (apply_commit (metered tr) (watched dp) commit) (apply_commit tr dp commit)"
proof (cases commit)
  case (CommitReadRequest x y)
  then have "apply_commit (metered tr) (watched dp) commit = await_read_reply_or_cancel (metered tr) (watched dp)"
    "apply_commit tr dp commit = await_read_reply_or_cancel tr dp"
    by (auto simp: apply_commit_def fun_eq_iff)
  then show ?thesis using mirrors_await by simp
qed (simp_all add: mirrors_def apply_commit_def strip_def watched_snd)

lemma mirrors_dispatch_once: "mirrors (dispatch_once (metered tr) (watched dp)) (dispatch_once tr dp)"
proof -
  let ?send = "\<lambda>tr dp p payload. st_bind (svc_send tr (prep_header p) (take (prep_payload_length p) payload))
         (\<lambda>_. apply_commit tr dp (prep_commit p))"
  have "mirrors (\<lambda>s. ?send (metered tr) (watched dp) p (svc_send_payload s) s)
      (\<lambda>s. ?send tr dp p (svc_send_payload s) s)" for p
    by (rule mirrors_param[where a = svc_send_payload and a' = svc_send_payload])
      (simp_all add: mirrors_bind[OF mirrors_send mirrors_apply_commit])
  then have "mirrors (\<lambda>s. let s = record_pending_read (prep_commit p) s in
        ?send (metered tr) (watched dp) p (svc_send_payload s) s)
      (\<lambda>s. let s = record_pending_read (prep_commit p) s in ?send tr dp p (svc_send_payload s) s)" for p
    unfolding Let_def
    by (rule mirrors_moved) (auto simp: record_pending_read_def strip_def split: Commit.split)
  then show ?thesis unfolding dispatch_once_def
    by (intro mirrors_bind[OF mirrors_steps(2)] mirrors_bind[OF mirrors_prepare_action])
qed

lemma mirrors_run_active_operation:
  fixes dp :: "'d Dispatcher"
  shows "mirrors (run_active_operation (metered tr) (watched dp)) (run_active_operation tr dp)"
proof (rule mirrors_pointwise)
  fix s :: "('d, 'w) watched_service"
  obtain input w where probe: "tr_probe_input tr (bare (svc_transport s)) = (input, w)" by fastforce
  let ?m = "\<lambda>m. snd (tr_probe_input (metered tr) m)"
  let ?w = "\<lambda>w. snd (tr_probe_input tr w)"
  have bare: "bare (?m m) = ?w (bare m)" for m by (simp add: metered_bare split: prod.split)
  have exact: "since b w0 m \<Longrightarrow> since b w0 (?m m)" for b w0 m
    using probe_exact[of "bare m"] probe_keeps[of "bare m"]
    by (auto simp: metered_bare since_def exact_since_def held_since_def split: prod.split)
  have moved: "mirrors f f' \<Longrightarrow> mirrors (\<lambda>s. f (s\<lparr>svc_transport := ?m (svc_transport s)\<rparr>))
      (\<lambda>s. f' (s\<lparr>svc_transport := ?w (svc_transport s)\<rparr>))"
    for f :: "('d, 'w) watched_service \<Rightarrow> (ServiceFailure, unit) result \<times> ('d, 'w) watched_service" and f'
    by (rule mirrors_moved) (simp_all add: strip_def bare exact)
  let ?heard = "\<lambda>tr dp. st_bind (svc_receive tr) (\<lambda>header.
              if fh_message_type header \<noteq> Cancel then st_fail (failure_protocol UnexpectedMessage)
              else st_bind (handle_cancel tr dp header) (\<lambda>_. st_return ()))"
  have heard: "mirrors (?heard (metered tr) (watched dp)) (?heard tr dp)"
    by (rule mirrors_bind[OF mirrors_receive]) (simp add: mirrors_bind[OF mirrors_handle_cancel])
  let ?step = "\<lambda>tr dp s. if svc_dispatch_steps s \<ge> sl_maximum_dispatch_steps (svc_limits s)
      then (Err (failure_new SvDispatchBudgetExceeded), s)
      else dispatch_once tr dp (s\<lparr>svc_dispatch_steps := svc_dispatch_steps s + 1\<rparr>)"
  have step: "mirrors (?step (metered tr) (watched dp)) (?step tr dp)"
    by (rule mirrors_if[OF mirrors_Err mirrors_moved[OF mirrors_dispatch_once]]) (simp_all add: strip_def)
  have failed: "mirrors (st_fail e :: ('d, 'w) watched_service \<Rightarrow> (ServiceFailure, unit) result \<times> _) (st_fail e)" for e
    by simp
  note cases = moved[OF heard] moved[OF step] moved[OF failed]
  show "\<exists>g g'. mirrors g g' \<and> run_active_operation (metered tr) (watched dp) s = g s \<and>
      run_active_operation tr dp (strip s) = g' (strip s)"
    using probe cases
    by (cases input) (fastforce simp: run_active_operation_def metered_bare Let_def)+
qed

lemma mirrors_service_turn: "mirrors (service_turn (metered tr) (watched dp)) (service_turn tr dp)"
  unfolding service_turn_def
  by (rule mirrors_if[OF mirrors_bind[OF mirrors_run_active_operation mirrors_return]
      mirrors_bind[OF mirrors_receive mirrors_handle_parent_frame]]) simp

lemma service_run_mirrored:
  assumes "service_run (metered tr) (watched dp) s = Some (r, t)" and "sv_inv (svc_validator s)"
  shows "service_run tr dp (strip s) = Some (r, strip t) \<and>
     (since True w0 (svc_transport s) \<longrightarrow> since (is_ok r) w0 (svc_transport t))"
  using assms
proof (induction "messages_left s" arbitrary: s rule: less_induct)
  case less
  obtain q u where turn: "service_turn (metered tr) (watched dp) s = (q, u)" by fastforce
  note plain = mirrorsD[OF mirrors_service_turn turn]
  show ?case
  proof (cases q)
    case (Err e)
    then show ?thesis using less.prems(1) turn plain(1) plain(2)[of True w0] by (auto simp: service_run.simps)
  next
    case (Ok flow)
    note spent = turn_spends[OF turn[unfolded Ok] less.prems(2)]
    show ?thesis
    proof (cases flow)
      case FlowShutdown
      then show ?thesis using less.prems(1) turn Ok plain(1) plain(2)[of True w0] by (auto simp: service_run.simps)
    next
      case FlowContinue
      then have "service_run (metered tr) (watched dp) u = Some (r, t)"
        and same: "service_run tr dp (strip s) = service_run tr dp (strip u)"
        using less.prems(1) turn plain(1) Ok
        by (simp_all add: service_run.simps[of "metered tr" _ s] service_run.simps[of tr _ "strip s"])
      from less.hyps[OF spent(3) this(1) spent(1)] same plain(2)[of True w0] Ok show ?thesis by auto
    qed
  qed
qed

lemma worker_handshake_mirrored:
  assumes run: "worker_handshake (metered tr) limits (buf, m) = (r, buf', m')"
  shows "worker_handshake tr limits (buf, bare m) = (r, buf', bare m') \<and>
    (since True w0 m \<longrightarrow> since (is_ok r) w0 m')"
proof -
  obtain q buf1 m1 where rf: "receive_frame (metered tr) 0 (buf, m) = (q, buf1, m1)" by (metis prod.collapse)
  note one = receive_frame_mirrored(1)[OF rf] receive_frame_mirrored(2)[OF rf, of True w0]
  have off: "since True w0 m1 \<Longrightarrow> since False w0 m1" by (simp add: since_def)
  show ?thesis
  proof (cases q)
    case (Err e)
    then show ?thesis using run rf one by (auto simp: worker_handshake_def)
  next
    case (Ok h)
    let ?hello = "decode_hello_payload (frame_view_new h (take (unat (fh_payload_length h)) buf1))"
    show ?thesis
    proof (cases "is_ok ?hello \<and> session_id_new (fh_session_id h) \<noteq> None")
      case False
      then show ?thesis using run rf one off Ok by (auto simp: worker_handshake_def split: result.splits option.splits)
    next
      case True
      then obtain hello sid where hello: "?hello = Ok hello" and sid: "session_id_new (fh_session_id h) = Some sid"
        by (auto simp: is_ok_iff)
      obtain o1 v1 where obs: "observe ParentToWorker h (session_validator_new sid (sl_protocol_budgets limits)) = (o1, v1)"
        by fastforce
      obtain o2 v2 m2 where sf: "send_frame (metered tr) (frame_header_new Ready sid 0 0) [] (v1, m1) = (o2, v2, m2)"
        by (metis prod.collapse)
      note two = send_frame_mirrored(1)[OF sf] send_frame_mirrored(2)[OF sf, of True w0]
      show ?thesis using run rf one off Ok hello sid obs sf two
        by (cases "source_read_policy_new (hello_source_size hello) (hello_maximum_read_bytes hello)"; cases o1; cases o2)
          (auto simp: worker_handshake_def)
    qed
  qed
qed

text \<open>One lifetime with and without its record.\<close>

lemma lifetime_mirrored:
  assumes run: "lifetime tr dp buffers limits x = Some (r, (es, d), log, a, c, w)"
  shows "run_parser_worker_service tr dp buffers limits x = Some (r, d, w) \<and>
    closings w = closings (snd x) + (if held (snd x) \<and> 0 < a + c then 1 else 0) \<and>
    (is_ok r \<longrightarrow> arriving (snd x) = said_by ParentToWorker log @ arriving w \<and>
       sent w = sent (snd x) @ said_by WorkerToParent log)"
proof (cases "refused_at_once buffers limits")
  case True
  then show ?thesis using run
    by (cases x) (auto simp: lifetime_def run_parser_worker_service_def refused_at_once_def metered_bare abort_gives_up)
next
  case fits: False
  obtain d0 w0 where x: "x = (d0, w0)" by fastforce
  have start: "since True w0 ([], 0, 0, w0)" by (simp add: since_def exact_since_def held_since_def)
  obtain q buf m where hs: "worker_handshake (metered tr) limits
      (bufs_receive_payload buffers, [], 0, 0, w0) = (q, buf, m)" by (metis prod.collapse)
  have shake: "worker_handshake tr limits (bufs_receive_payload buffers, w0) = (q, buf, bare m)"
    "since (is_ok q) w0 m"
    using worker_handshake_mirrored[OF hs, of w0] start by simp_all
  show ?thesis
  proof (cases q)
    case (Err f)
    then show ?thesis using run x hs shake fits
      by (auto simp: lifetime_def run_parser_worker_service_def refused_at_once_def metered_bare abort_gives_up
          since_def held_since_def)
  next
    case (Ok h)
    let ?s = "service_new h limits ([], d0) buf (bufs_send_payload buffers) m"
    have inv: "sv_inv (svc_validator ?s)" using handshake_inv[OF hs[unfolded Ok]] by (simp add: service_new_def)
    obtain v t where loop: "service_run (metered tr) (watched dp) ?s = Some (v, t)"
      and fin: "service_finish (metered tr) (watched dp) (v, t) = (r, (es, d), log, a, c, w)"
      using run x hs Ok fits by (auto simp: lifetime_def run_parser_worker_service_def refused_at_once_def)
    note plain = service_run_mirrored[OF loop inv, of w0]
    have stripped: "strip ?s = service_new h limits d0 buf (bufs_send_payload buffers) (bare m)"
      by (simp add: strip_def service_new_def)
    have fin_plain: "service_finish tr dp (v, strip t) = (r, d, w)"
      using fin watched_snd(1)[of dp "svc_dispatch t"]
      by (cases v) (auto simp: service_finish_def strip_def metered_bare Let_def split: if_splits)
    have "since True w0 (svc_transport ?s)" using shake(2) Ok by (simp add: service_new_def)
    then have "since (is_ok v) w0 (svc_transport t)" using plain by blast
    then have "since (is_ok r) w0 (log, a, c, w)"
      using fin
      by (cases v) (auto simp: service_finish_def Let_def metered_bare since_def held_since_def abort_gives_up split: if_splits)
    then show ?thesis using plain stripped x shake(1) Ok fits fin_plain
      by (auto simp: run_parser_worker_service_def refused_at_once_def since_def exact_since_def held_since_def)
  qed
qed

end

end
