(* ===== verification/Worker_Image.thy ===== *)
theory Worker_Image
  imports Worker_Erasure
begin

text \<open>
  The worker image, \<open>ohl-parser-worker/image/src/hosted.rs\<close>: the transport the service borrows, on the
  inherited channel descriptor, and the process's exit statuses.  The kernel's side of the two
  descriptors is explicit: a socket is the timeline of what the kernel answers to reads, writes and mode
  changes, so every retry loop runs along a finite timeline and an exhausted one is end of file.
\<close>


section \<open>The kernel's end of a Unix stream\<close>

datatype IoErrorKind = WouldBlock | Interrupted | OtherError

text \<open>One point of the arrival timeline: a byte, a pause, a signal, or an error.\<close>

datatype SocketEvent = SockByte u8 | SockQuiet | SockSignal | SockBroken

datatype SocketRoom = RoomFor nat | RoomSignal | RoomBroken

record Socket =
  sk_incoming :: "SocketEvent list"
  sk_outgoing :: "SocketRoom list"
  sk_mode_faults :: "bool list"
  sk_nonblocking :: bool
  sk_sent :: bytes
  sk_closed :: nat

fun sock_arrived :: "nat \<Rightarrow> SocketEvent list \<Rightarrow> bytes \<times> SocketEvent list" where
  "sock_arrived (Suc n) (SockByte b # es) = (case sock_arrived n es of (bs, es') \<Rightarrow> (b # bs, es'))"
| "sock_arrived n es = ([], es)"

text \<open>A blocking read waits through a pause, a non-blocking one reports it.\<close>

fun sock_take :: "bool \<Rightarrow> nat \<Rightarrow> SocketEvent list \<Rightarrow> (IoErrorKind, bytes) result \<times> SocketEvent list" where
  "sock_take nonblocking n [] = (Ok [], [])"
| "sock_take nonblocking n (SockByte b # es) = (case sock_arrived n (SockByte b # es) of (bs, es') \<Rightarrow> (Ok bs, es'))"
| "sock_take nonblocking n (SockQuiet # es) =
     (if nonblocking then (Err WouldBlock, es) else sock_take nonblocking n es)"
| "sock_take nonblocking n (SockSignal # es) = (Err Interrupted, es)"
| "sock_take nonblocking n (SockBroken # es) = (Err OtherError, es)"

definition sock_read :: "nat \<Rightarrow> Socket \<Rightarrow> (IoErrorKind, bytes) result \<times> Socket" where
  "sock_read n s =
     (case sock_take (sk_nonblocking s) n (sk_incoming s) of (r, es) \<Rightarrow> (r, s\<lparr>sk_incoming := es\<rparr>))"

text \<open>A write reports how much it took; with no room left on the timeline the peer is gone.\<close>

definition sock_write :: "bytes \<Rightarrow> Socket \<Rightarrow> (IoErrorKind, nat) result \<times> Socket" where
  "sock_write bs s =
     (case sk_outgoing s of
        [] \<Rightarrow> (Err OtherError, s)
      | RoomFor n # rs \<Rightarrow>
          (Ok (min n (length bs)), s\<lparr>sk_outgoing := rs, sk_sent := sk_sent s @ take n bs\<rparr>)
      | RoomSignal # rs \<Rightarrow> (Err Interrupted, s\<lparr>sk_outgoing := rs\<rparr>)
      | RoomBroken # rs \<Rightarrow> (Err OtherError, s\<lparr>sk_outgoing := rs\<rparr>))"

definition sock_set_nonblocking :: "bool \<Rightarrow> Socket \<Rightarrow> bool \<times> Socket" where
  "sock_set_nonblocking mode s =
     (case sk_mode_faults s of
        [] \<Rightarrow> (True, s\<lparr>sk_nonblocking := mode\<rparr>)
      | True # fs \<Rightarrow> (False, s\<lparr>sk_mode_faults := fs\<rparr>)
      | False # fs \<Rightarrow> (True, s\<lparr>sk_mode_faults := fs, sk_nonblocking := mode\<rparr>))"


section \<open>ChannelTransport\<close>

definition CHANNEL_FD :: int where "CHANNEL_FD = 3"

text \<open>The descriptor is held or given up; \<open>pushback\<close> is the byte a probe had to take.\<close>

record ChannelTransport =
  ct_stream :: "int option"
  ct_pushback :: "u8 option"

definition channel_transport_new :: ChannelTransport where
  "channel_transport_new = \<lparr>ct_stream = Some CHANNEL_FD, ct_pushback = None\<rparr>"

type_synonym channel_state = "ChannelTransport \<times> Socket"

definition channel_end :: "channel_state \<Rightarrow> channel_state" where
  "channel_end x =
     (case x of (t, s) \<Rightarrow>
        (t\<lparr>ct_stream := None\<rparr>,
         (case ct_stream t of None \<Rightarrow> s | Some fd \<Rightarrow> s\<lparr>sk_closed := sk_closed s + 1\<rparr>)))"

lemma sock_arrived_shrinks: "sock_arrived n es = (bs, es') \<Longrightarrow> length es = length bs + length es'"
  by (induction n es arbitrary: bs rule: sock_arrived.induct) (auto split: prod.splits)

lemma sock_take_shrinks:
  "sock_take nb n es = (r, es') \<Longrightarrow> r \<noteq> Ok [] \<Longrightarrow> length es' < length es"
  by (induction nb n es rule: sock_take.induct) (auto dest!: sock_arrived_shrinks split: prod.splits if_splits)

lemma sock_read_shrinks:
  assumes "sock_read n s = (r, s')" and "r \<noteq> Ok []"
  shows "length (sk_incoming s') < length (sk_incoming s)"
  using assms sock_take_shrinks[of "sk_nonblocking s" n "sk_incoming s"]
  by (auto simp: sock_read_def split: prod.splits)

function channel_read_loop :: "nat \<Rightarrow> bytes \<Rightarrow> Socket \<Rightarrow> IoStatus \<times> bytes \<times> Socket" where
  "channel_read_loop offset destination s =
     (if offset < length destination then
        (case sock_read (length destination - offset) s of
           (Ok bs, s') \<Rightarrow>
             if bs = [] then (if offset = 0 then IoPeerClosed else IoFailed, destination, s')
             else channel_read_loop (offset + length bs)
                    (take offset destination @ bs @ drop (offset + length bs) destination) s'
         | (Err e, s') \<Rightarrow>
             if e = Interrupted then channel_read_loop offset destination s'
             else (IoFailed, destination, s'))
      else (IoOk, destination, s))"
  by pat_completeness auto
termination
proof (relation "measure (\<lambda>(offset, destination, s). length (sk_incoming s))", goal_cases)
  case 1
  then show ?case by simp
next
  case (2 offset destination s r s' bs)
  then show ?case using sock_read_shrinks[of _ s r s'] by simp
next
  case (3 offset destination s r s' e)
  then show ?case using sock_read_shrinks[of _ s r s'] by simp
qed

definition channel_read_exact :: "bytes \<Rightarrow> channel_state \<Rightarrow> IoStatus \<times> bytes \<times> channel_state" where
  "channel_read_exact destination x =
     (case x of (t, s) \<Rightarrow>
        case ct_stream t of
          None \<Rightarrow> (IoFailed, destination, t, s)
        | Some fd \<Rightarrow>
            (case (case (ct_pushback t, destination) of
                     (Some byte, first # rest) \<Rightarrow> channel_read_loop 1 (byte # rest) s
                   | _ \<Rightarrow> channel_read_loop 0 destination s) of
               (status, destination, s) \<Rightarrow> (status, destination, t\<lparr>ct_pushback := None\<rparr>, s)))"

function channel_write_loop :: "nat \<Rightarrow> bytes \<Rightarrow> Socket \<Rightarrow> IoStatus \<times> Socket" where
  "channel_write_loop offset source s =
     (if offset < length source then
        (case sock_write (drop offset source) s of
           (Ok amount, s') \<Rightarrow>
             if amount = 0 then (IoFailed, s') else channel_write_loop (offset + amount) source s'
         | (Err e, s') \<Rightarrow>
             if e = Interrupted then channel_write_loop offset source s' else (IoFailed, s'))
      else (IoOk, s))"
  by pat_completeness auto
termination
  by (relation "measure (\<lambda>(offset, source, s). length (sk_outgoing s))")
    (auto simp: sock_write_def split: list.splits SocketRoom.splits)

definition channel_write_all :: "bytes \<Rightarrow> channel_state \<Rightarrow> IoStatus \<times> channel_state" where
  "channel_write_all source x =
     (case x of (t, s) \<Rightarrow>
        case ct_stream t of
          None \<Rightarrow> (IoFailed, t, s)
        | Some fd \<Rightarrow> (case channel_write_loop 0 source s of (status, s) \<Rightarrow> (status, t, s)))"

function channel_probe_loop :: "channel_state \<Rightarrow> InputStatus \<times> channel_state" where
  "channel_probe_loop (t, s) =
     (case sock_read 1 s of
        (Ok [], s') \<Rightarrow> (InputPeerClosed, t, s')
      | (Ok (byte # _), s') \<Rightarrow> (InputAvailable, t\<lparr>ct_pushback := Some byte\<rparr>, s')
      | (Err WouldBlock, s') \<Rightarrow> (InputUnavailable, t, s')
      | (Err Interrupted, s') \<Rightarrow> channel_probe_loop (t, s')
      | (Err OtherError, s') \<Rightarrow> (InputFailed, t, s'))"
  by pat_completeness auto
termination
  by (relation "measure (\<lambda>(t, s). length (sk_incoming s))") (auto dest!: sock_read_shrinks[OF sym])

definition channel_probe_input :: "channel_state \<Rightarrow> InputStatus \<times> channel_state" where
  "channel_probe_input x =
     (case x of (t, s) \<Rightarrow>
        if ct_pushback t \<noteq> None then (InputAvailable, t, s)
        else
          (case ct_stream t of
             None \<Rightarrow> (InputFailed, t, s)
           | Some fd \<Rightarrow>
               (case sock_set_nonblocking True s of (switched, s) \<Rightarrow>
                  if \<not> switched then (InputFailed, t, s)
                  else
                    (case channel_probe_loop (t, s) of (probed, t, s) \<Rightarrow>
                       case sock_set_nonblocking False s of (switched, s) \<Rightarrow>
                         if \<not> switched then (InputFailed, t, s) else (probed, t, s)))))"

definition channel_transport :: "channel_state Transport" where
  "channel_transport =
     \<lparr>tr_read_exact = channel_read_exact, tr_write_all = channel_write_all,
      tr_probe_input = channel_probe_input, tr_abort_io = channel_end, tr_close_io = channel_end\<rparr>"

declare channel_read_loop.simps [simp del] channel_write_loop.simps [simp del] channel_probe_loop.simps [simp del]


section \<open>The channel is an exact byte queue\<close>

text \<open>The bytes still to come from the peer, a byte a probe took included.\<close>

fun event_bytes :: "SocketEvent list \<Rightarrow> bytes" where
  "event_bytes [] = []"
| "event_bytes (SockByte b # es) = b # event_bytes es"
| "event_bytes (_ # es) = event_bytes es"

definition arriving :: "channel_state \<Rightarrow> bytes" where
  "arriving x = (case ct_pushback (fst x) of None \<Rightarrow> [] | Some b \<Rightarrow> [b]) @ event_bytes (sk_incoming (snd x))"

definition sent_bytes :: "channel_state \<Rightarrow> bytes" where
  "sent_bytes x = sk_sent (snd x)"

definition same_socket_but_input :: "Socket \<Rightarrow> Socket \<Rightarrow> bool" where
  "same_socket_but_input s s' \<longleftrightarrow> sk_sent s' = sk_sent s \<and> sk_closed s' = sk_closed s \<and>
     sk_outgoing s' = sk_outgoing s"

lemma same_socket_refl [simp]: "same_socket_but_input s s"
  by (simp add: same_socket_but_input_def)

lemma same_socket_trans: "same_socket_but_input s t \<Longrightarrow> same_socket_but_input t u \<Longrightarrow> same_socket_but_input s u"
  by (simp add: same_socket_but_input_def)

lemma sock_arrived_bytes: "sock_arrived n es = (bs, es') \<Longrightarrow> event_bytes es = bs @ event_bytes es' \<and> length bs \<le> n"
  by (induction n es arbitrary: bs rule: sock_arrived.induct) (auto split: prod.splits)

lemma sock_arrived_first:
  "sock_arrived n (SockByte b # es) = (bs, es') \<Longrightarrow>
     b # event_bytes es = bs @ event_bytes es' \<and> length bs \<le> n \<and> (bs = [] \<longrightarrow> n = 0)"
  using sock_arrived_bytes[of n "SockByte b # es"] by (cases n) (auto split: prod.splits)

lemma sock_take_bytes:
  "sock_take nb n es = (r, es') \<Longrightarrow>
     (case r of Ok bs \<Rightarrow> event_bytes es = bs @ event_bytes es' \<and> length bs \<le> n \<and> (bs = [] \<and> 0 < n \<longrightarrow> es' = [])
      | Err e \<Rightarrow> event_bytes es = event_bytes es')"
  by (induction nb n es rule: sock_take.induct)
    (auto dest!: sock_arrived_first split: prod.splits if_splits result.splits)

lemma sock_read_bytes:
  assumes "sock_read n s = (r, s')"
  shows "same_socket_but_input s s'"
    and "r = Ok bs \<Longrightarrow> event_bytes (sk_incoming s) = bs @ event_bytes (sk_incoming s') \<and> length bs \<le> n"
    and "r = Ok [] \<Longrightarrow> 0 < n \<Longrightarrow> event_bytes (sk_incoming s) = [] \<and> event_bytes (sk_incoming s') = []"
    and "r = Err e \<Longrightarrow> event_bytes (sk_incoming s') = event_bytes (sk_incoming s)"
  using assms sock_take_bytes[of "sk_nonblocking s" n "sk_incoming s"]
  by (auto simp: sock_read_def same_socket_but_input_def split: prod.splits)

text \<open>The read loop moves a prefix of what arrives into the rest of the destination.\<close>

lemma channel_read_loop_moves:
  assumes "channel_read_loop offset dst s = (status, dst', s')" and "offset \<le> length dst"
  shows "\<exists>bs. event_bytes (sk_incoming s) = bs @ event_bytes (sk_incoming s') \<and>
      same_socket_but_input s s' \<and> offset + length bs \<le> length dst \<and>
      dst' = take offset dst @ bs @ drop (offset + length bs) dst \<and>
      (case status of IoOk \<Rightarrow> offset + length bs = length dst
       | IoPeerClosed \<Rightarrow> offset = 0 \<and> bs = [] \<and> 0 < length dst \<and> event_bytes (sk_incoming s) = []
       | IoFailed \<Rightarrow> offset + length bs < length dst)"
  using assms
proof (induction offset dst s rule: channel_read_loop.induct)
  case (1 offset dst s)
  obtain r t where rd: "sock_read (length dst - offset) s = (r, t)" by fastforce
  note moved = sock_read_bytes[OF rd]
  show ?case
  proof (cases "offset < length dst")
    case False
    then have "channel_read_loop offset dst s = (IoOk, dst, s)" by (simp add: channel_read_loop.simps)
    then show ?thesis using 1(3,4) False by (intro exI[of _ "[]"]) auto
  next
    case more: True
    show ?thesis
    proof (cases r)
      case (Err e)
      show ?thesis
      proof (cases "e = Interrupted")
        case True
        then have "channel_read_loop offset dst t = (status, dst', s')"
          using 1(3) more rd Err by (simp add: channel_read_loop.simps[of offset dst s])
        note again = 1(1)[OF more rd[symmetric] Err True this 1(4)]
        have "same_socket_but_input t s' \<longleftrightarrow> same_socket_but_input t s' \<and> same_socket_but_input s s'"
          using same_socket_trans[OF moved(1)] by blast
        with again show ?thesis unfolding moved(4)[OF Err] by blast
      next
        case False
        then show ?thesis using 1(3) more rd Err moved(1,4)
          by (intro exI[of _ "[]"]) (auto simp: channel_read_loop.simps[of offset dst s])
      qed
    next
      case (Ok bs)
      show ?thesis
      proof (cases "bs = []")
        case True
        then show ?thesis using 1(3) more rd Ok moved(1,3)
          by (intro exI[of _ "[]"]) (auto simp: channel_read_loop.simps[of offset dst s])
      next
        case False
        let ?d = "take offset dst @ bs @ drop (offset + length bs) dst"
        have fits: "offset + length bs \<le> length dst" using moved(2)[OF Ok] more by linarith
        then have len: "length ?d = length dst" by simp
        have "channel_read_loop (offset + length bs) ?d t = (status, dst', s')"
          using 1(3) more rd Ok False by (simp add: channel_read_loop.simps[of offset dst s])
        from 1(2)[OF more rd[symmetric] Ok False this] fits obtain cs where
          cs: "event_bytes (sk_incoming t) = cs @ event_bytes (sk_incoming s')" "same_socket_but_input t s'"
            "offset + length bs + length cs \<le> length dst"
            "dst' = take (offset + length bs) ?d @ cs @ drop (offset + length bs + length cs) ?d"
            "case status of IoOk \<Rightarrow> offset + length bs + length cs = length dst
             | IoPeerClosed \<Rightarrow> offset + length bs = 0 \<and> cs = [] \<and> 0 < length dst \<and> event_bytes (sk_incoming t) = []
             | IoFailed \<Rightarrow> offset + length bs + length cs < length dst"
          unfolding len by blast
        have "dst' = take offset dst @ (bs @ cs) @ drop (offset + length (bs @ cs)) dst"
          using cs(3,4) fits more by (simp add: ac_simps)
        then show ?thesis
          using cs(1,3,5) moved(2)[OF Ok] False same_socket_trans[OF moved(1) cs(2)]
          by (intro exI[of _ "bs @ cs"]) (simp add: add.assoc split: IoStatus.splits)
      qed
    qed
  qed
qed


lemma channel_write_loop_sends:
  assumes "channel_write_loop offset source s = (status, s')" and "offset \<le> length source"
  shows "\<exists>n. sk_sent s' = sk_sent s @ take n (drop offset source) \<and> sk_incoming s' = sk_incoming s \<and>
      sk_closed s' = sk_closed s \<and> status \<noteq> IoPeerClosed \<and>
      (status = IoOk \<longrightarrow> offset + n = length source)"
  using assms
proof (induction offset source s rule: channel_write_loop.induct)
  case (1 offset source s)
  obtain r t where wr: "sock_write (drop offset source) s = (r, t)" by fastforce
  show ?case
  proof (cases "offset < length source")
    case False
    then have "channel_write_loop offset source s = (IoOk, s)" by (simp add: channel_write_loop.simps)
    then show ?thesis using 1(3,4) False by (intro exI[of _ 0]) auto
  next
    case more: True
    show ?thesis
    proof (cases r)
      case (Err e)
      have same: "sk_sent t = sk_sent s" "sk_incoming t = sk_incoming s" "sk_closed t = sk_closed s"
        using wr Err by (auto simp: sock_write_def split: list.splits SocketRoom.splits)
      show ?thesis
      proof (cases "e = Interrupted")
        case True
        then have "channel_write_loop offset source t = (status, s')"
          using 1(3) more wr Err by (simp add: channel_write_loop.simps[of offset source s])
        from 1(1)[OF more wr[symmetric] Err True this 1(4)] show ?thesis unfolding same .
      next
        case False
        then show ?thesis using 1(3) more wr Err same
          by (intro exI[of _ 0]) (auto simp: channel_write_loop.simps[of offset source s])
      qed
    next
      case (Ok amount)
      have same: "sk_sent t = sk_sent s @ take amount (drop offset source)" "sk_incoming t = sk_incoming s"
        "sk_closed t = sk_closed s" and fits: "offset + amount \<le> length source"
        using wr Ok more by (auto simp: sock_write_def min_def split: list.splits SocketRoom.splits if_splits)
      show ?thesis
      proof (cases "amount = 0")
        case True
        then show ?thesis using 1(3) more wr Ok same
          by (intro exI[of _ 0]) (auto simp: channel_write_loop.simps[of offset source s])
      next
        case False
        then have "channel_write_loop (offset + amount) source t = (status, s')"
          using 1(3) more wr Ok by (simp add: channel_write_loop.simps[of offset source s])
        from 1(2)[OF more wr[symmetric] Ok False this fits] obtain n where
          n: "sk_sent s' = sk_sent t @ take n (drop (offset + amount) source)" "sk_incoming s' = sk_incoming t"
            "sk_closed s' = sk_closed t" "status \<noteq> IoPeerClosed" "status = IoOk \<longrightarrow> offset + amount + n = length source"
          by blast
        then show ?thesis using same
          by (intro exI[of _ "amount + n"]) (auto simp: take_add ac_simps)
      qed
    qed
  qed
qed

lemma sock_set_nonblocking_keeps:
  assumes "sock_set_nonblocking mode s = (ok, s')"
  shows "same_socket_but_input s s'" and "sk_incoming s' = sk_incoming s"
  using assms by (auto simp: sock_set_nonblocking_def same_socket_but_input_def split: list.splits bool.splits)

text \<open>What a probe's answer says about the bytes still to come.\<close>

fun probe_truthful :: "InputStatus \<Rightarrow> bytes \<Rightarrow> bool" where
  "probe_truthful InputAvailable bs \<longleftrightarrow> bs \<noteq> []"
| "probe_truthful InputPeerClosed bs \<longleftrightarrow> bs = []"
| "probe_truthful _ bs \<longleftrightarrow> True"

lemma channel_probe_loop_keeps:
  assumes "channel_probe_loop x = (probed, x')" and "ct_pushback (fst x) = None"
  shows "arriving x' = arriving x \<and> same_socket_but_input (snd x) (snd x') \<and> ct_stream (fst x') = ct_stream (fst x) \<and>
    probe_truthful probed (arriving x)"
  using assms
proof (induction x rule: channel_probe_loop.induct)
  case (1 t s)
  obtain r u where rd: "sock_read 1 s = (r, u)" by fastforce
  note moved = sock_read_bytes[OF rd]
  show ?case
  proof (cases r)
    case (Err e)
    note same = moved(1) moved(4)[OF Err]
    show ?thesis
    proof (cases e)
      case Interrupted
      then have "channel_probe_loop (t, u) = (probed, x')"
        using 1(2) rd Err by (simp add: channel_probe_loop.simps[of t s])
      note again = 1(1)[OF rd[symmetric] Err Interrupted this]
      have "arriving (t, u) = arriving (t, s)" using same by (simp add: arriving_def)
      then show ?thesis using again 1(3) same_socket_trans[OF same(1)] by simp
    qed (use 1(2,3) rd Err same in \<open>auto simp: channel_probe_loop.simps[of t s] arriving_def\<close>)
  next
    case (Ok bs)
    note got = moved(1) moved(2)[OF Ok]
    show ?thesis
    proof (cases bs)
      case Nil
      then show ?thesis using 1(2,3) rd Ok got moved(3)
        by (auto simp: channel_probe_loop.simps[of t s] arriving_def)
    next
      case (Cons b cs)
      then have "cs = []" using got by simp
      then show ?thesis using 1(2,3) rd Ok got Cons
        by (auto simp: channel_probe_loop.simps[of t s] arriving_def)
    qed
  qed
qed

lemma channel_probe_exact:
  assumes "channel_probe_input x = (probed, x')"
  shows "arriving x' = arriving x \<and> sent_bytes x' = sent_bytes x \<and> sk_closed (snd x') = sk_closed (snd x) \<and>
    ct_stream (fst x') = ct_stream (fst x) \<and>
    probe_truthful probed (arriving x)"
proof -
  obtain t s where x: "x = (t, s)" by fastforce
  show ?thesis
  proof (cases "ct_pushback t = None \<and> ct_stream t \<noteq> None")
    case False
    then show ?thesis using assms x
      by (cases "ct_pushback t"; cases "ct_stream t") (auto simp: channel_probe_input_def arriving_def)
  next
    case True
    obtain ok1 s1 where one: "sock_set_nonblocking True s = (ok1, s1)" by fastforce
    obtain p t2 s2 where two: "channel_probe_loop (t, s1) = (p, t2, s2)" by (metis prod.collapse)
    obtain ok3 s3 where three: "sock_set_nonblocking False s2 = (ok3, s3)" by fastforce
    have start: "arriving (t, s1) = arriving x" using x sock_set_nonblocking_keeps(2)[OF one] by (simp add: arriving_def)
    have finish: "arriving (t2, s3) = arriving (t2, s2)" using sock_set_nonblocking_keeps(2)[OF three] by (simp add: arriving_def)
    have probe: "arriving (t2, s2) = arriving (t, s1)" "same_socket_but_input s1 s2" "ct_stream t2 = ct_stream t"
      "probe_truthful p (arriving (t, s1))"
      using channel_probe_loop_keeps[OF two] True by simp_all
    note kept = sock_set_nonblocking_keeps(1)[OF one] sock_set_nonblocking_keeps(1)[OF three] probe(2)
    show ?thesis using assms True x one two three start finish probe kept
      by (cases ok1; cases ok3) (auto simp: channel_probe_input_def sent_bytes_def same_socket_but_input_def)
  qed
qed

text \<open>A read into a non-empty destination hands on the bytes in order and loses none.\<close>

lemma channel_read_exact_moves:
  assumes "channel_read_exact dst x = (status, dst', x')" and "dst \<noteq> []"
  shows "length dst' = length dst \<and> sent_bytes x' = sent_bytes x \<and> sk_closed (snd x') = sk_closed (snd x) \<and>
    ct_stream (fst x') = ct_stream (fst x) \<and>
    (case status of IoOk \<Rightarrow> arriving x = dst' @ arriving x'
     | IoPeerClosed \<Rightarrow> arriving x = [] \<and> arriving x' = []
     | IoFailed \<Rightarrow> (\<exists>taken. arriving x = taken @ arriving x' \<and> length taken < length dst))"
proof -
  obtain t s where x: "x = (t, s)" by fastforce
  obtain first rest where dst: "dst = first # rest" using assms(2) by (cases dst) auto
  show ?thesis
  proof (cases "ct_stream t")
    case None
    then show ?thesis using assms x by (auto simp: channel_read_exact_def)
  next
    case (Some fd)
    obtain offset D s' where loop: "channel_read_loop offset D s = (status, dst', s')"
      and x': "x' = (t\<lparr>ct_pushback := None\<rparr>, s')" and len: "length D = length dst" "offset \<le> length D"
      and before: "arriving x = take offset D @ event_bytes (sk_incoming s)"
    proof (cases "ct_pushback t")
      case None
      then show ?thesis using assms(1) x Some dst that[of 0 dst]
        by (auto simp: channel_read_exact_def arriving_def split: prod.splits)
    next
      case (Some byte)
      then show ?thesis using assms(1) x \<open>ct_stream t = Some fd\<close> dst that[of 1 "byte # rest"]
        by (auto simp: channel_read_exact_def arriving_def split: prod.splits)
    qed
    from channel_read_loop_moves[OF loop len(2)] obtain bs where
      bs: "event_bytes (sk_incoming s) = bs @ event_bytes (sk_incoming s')" "same_socket_but_input s s'"
        "offset + length bs \<le> length D" "dst' = take offset D @ bs @ drop (offset + length bs) D"
        "case status of IoOk \<Rightarrow> offset + length bs = length D
         | IoPeerClosed \<Rightarrow> offset = 0 \<and> bs = [] \<and> 0 < length D \<and> event_bytes (sk_incoming s) = []
         | IoFailed \<Rightarrow> offset + length bs < length D"
      by blast
    have "sent_bytes x' = sent_bytes x" "sk_closed (snd x') = sk_closed (snd x)" "ct_stream (fst x') = ct_stream (fst x)"
      using bs(2) x x' by (simp_all add: same_socket_but_input_def sent_bytes_def)
    moreover have "length dst' = length dst" using bs(3,4) len by simp
    moreover have after: "arriving x' = event_bytes (sk_incoming s')" using x' by (simp add: arriving_def)
    moreover have "length (take offset D @ bs) < length dst" if "status = IoFailed" using bs(5) len that by simp
    ultimately show ?thesis using bs(1,4,5) before by (cases status) auto
  qed
qed

lemma channel_write_all_sends:
  assumes "channel_write_all source x = (status, x')"
  shows "arriving x' = arriving x \<and> sk_closed (snd x') = sk_closed (snd x) \<and> ct_stream (fst x') = ct_stream (fst x) \<and>
    (\<exists>n. sent_bytes x' = sent_bytes x @ take n source) \<and> status \<noteq> IoPeerClosed \<and>
    (status = IoOk \<longrightarrow> sent_bytes x' = sent_bytes x @ source)"
proof -
  obtain t s where x: "x = (t, s)" by fastforce
  show ?thesis
  proof (cases "ct_stream t")
    case None
    then show ?thesis using assms x by (auto simp: channel_write_all_def intro: exI[of _ 0])
  next
    case (Some fd)
    obtain s' where loop: "channel_write_loop 0 source s = (status, s')" and x': "x' = (t, s')"
      using assms x Some by (auto simp: channel_write_all_def split: prod.splits)
    from channel_write_loop_sends[OF loop] show ?thesis using x x' by (auto simp: arriving_def sent_bytes_def)
  qed
qed

lemma channel_transport_ops [simp]:
  "tr_read_exact channel_transport = channel_read_exact" "tr_write_all channel_transport = channel_write_all"
  "tr_probe_input channel_transport = channel_probe_input" "tr_abort_io channel_transport = channel_end"
  "tr_close_io channel_transport = channel_end"
  by (simp_all add: channel_transport_def)

definition channel_held :: "channel_state \<Rightarrow> bool" where
  "channel_held x \<longleftrightarrow> ct_stream (fst x) \<noteq> None"

definition channel_closings :: "channel_state \<Rightarrow> nat" where
  "channel_closings x = sk_closed (snd x)"

lemma channel_end_keeps:
  "arriving (channel_end x) = arriving x" "sent_bytes (channel_end x) = sent_bytes x"
  "\<not> channel_held (channel_end x)"
  "channel_closings (channel_end x) = channel_closings x + (if channel_held x then 1 else 0)"
  by (cases x; cases "ct_stream (fst x)";
      simp add: channel_end_def arriving_def sent_bytes_def channel_held_def channel_closings_def)+

lemma channel_read_exact_keeps:
  assumes "channel_read_exact dst x = (status, dst', x')"
  shows "length dst' = length dst" and "channel_held x' = channel_held x" and "channel_closings x' = channel_closings x"
  using assms channel_read_exact_moves[OF assms]
  by (cases "dst = []";
      auto simp: channel_read_exact_def channel_read_loop.simps[of 0 "[]"] channel_held_def channel_closings_def
        split: prod.splits option.splits)+

interpretation image_channel: exact_link channel_transport arriving sent_bytes channel_held channel_closings
proof (unfold_locales, unfold channel_transport_ops, goal_cases)
  case (1 dst w status dst' w')
  then show ?case by (rule channel_read_exact_keeps)
next
  case (2 dst w dst' w')
  then show ?case using channel_read_exact_moves by fastforce
next
  case (3 bs w w')
  then show ?case using channel_write_all_sends by blast
next
  case (4 w input w')
  then show ?case using channel_probe_exact by blast
next
  case (7 dst w status dst' w')
  then show ?case using channel_read_exact_keeps by blast
next
  case (8 bs w status w')
  then show ?case using channel_write_all_sends by (simp add: channel_held_def channel_closings_def)
next
  case (9 w input w')
  then show ?case using channel_probe_exact by (simp add: channel_held_def channel_closings_def)
qed (simp_all add: channel_end_keeps)


section \<open>The process\<close>

definition READY_FD :: int where "READY_FD = 4"

definition READY_ATTESTATION :: bytes where
  "READY_ATTESTATION = [0x4F, 0x48, 0x4C, 0x49, 0x53, 0x4F, 0x4C, 0x41, 0x54, 0x45, 0x44, 0, 1, 0, 0, 0]"

definition WORKER_CLEAN_EXIT :: int where "WORKER_CLEAN_EXIT = 0"
definition WORKER_PROTOCOL_FAILURE_EXIT :: int where "WORKER_PROTOCOL_FAILURE_EXIT = 64"
definition WORKER_UNSUPPORTED_EXIT :: int where "WORKER_UNSUPPORTED_EXIT = 65"
definition WORKER_TRANSPORT_FAILURE_EXIT :: int where "WORKER_TRANSPORT_FAILURE_EXIT = 66"
definition WORKER_INTERNAL_FAILURE_EXIT :: int where "WORKER_INTERNAL_FAILURE_EXIT = 70"

lemmas exit_status_defs = WORKER_CLEAN_EXIT_def WORKER_PROTOCOL_FAILURE_EXIT_def WORKER_UNSUPPORTED_EXIT_def
  WORKER_TRANSPORT_FAILURE_EXIT_def WORKER_INTERNAL_FAILURE_EXIT_def

text \<open>The readiness pipe: how much of a write it takes, whether it flushes, and what was written.\<close>

record ReadyPipe =
  ready_room :: nat
  ready_flushes :: bool
  ready_written :: bytes
  ready_closed :: bool

definition attest_readiness :: "ReadyPipe \<Rightarrow> bool \<times> ReadyPipe" where
  "attest_readiness pipe =
     (length READY_ATTESTATION \<le> ready_room pipe \<and> ready_flushes pipe,
      pipe\<lparr>ready_written := ready_written pipe @ take (ready_room pipe) READY_ATTESTATION, ready_closed := True\<rparr>)"

definition failure_status :: "ServiceFailure \<Rightarrow> int" where
  "failure_status failure =
     (case fl_error failure of
        SvTransportFailure \<Rightarrow>
          (case fl_io_status failure of
             IoPeerClosed \<Rightarrow> WORKER_CLEAN_EXIT
           | _ \<Rightarrow> WORKER_TRANSPORT_FAILURE_EXIT)
      | SvProtocolFailure \<Rightarrow> WORKER_PROTOCOL_FAILURE_EXIT
      | SvDispatchUnsupported \<Rightarrow> WORKER_UNSUPPORTED_EXIT
      | _ \<Rightarrow> WORKER_INTERNAL_FAILURE_EXIT)"

definition image_buffers :: ServiceBuffers where
  "image_buffers =
     \<lparr>bufs_receive_payload = replicate (unat MAXIMUM_FRAME_PAYLOAD_BYTES) 0,
      bufs_send_payload = replicate (unat MAXIMUM_FRAME_PAYLOAD_BYTES) 0\<rparr>"

text \<open>The process's world: the back end, the kernel's end of the channel, the readiness pipe.\<close>

record 'd ImageWorld =
  iw_dispatch :: 'd
  iw_socket :: Socket
  iw_ready :: ReadyPipe

definition serve :: "'d Dispatcher \<Rightarrow> 'd ImageWorld \<Rightarrow> (int \<times> 'd ImageWorld) option" where
  "serve dp world =
     (case attest_readiness (iw_ready world) of (attested, pipe) \<Rightarrow>
        let world = world\<lparr>iw_ready := pipe\<rparr> in
        if \<not> attested then Some (WORKER_TRANSPORT_FAILURE_EXIT, world)
        else
          map_option (\<lambda>(outcome, d, t, s).
              (case outcome of Ok _ \<Rightarrow> WORKER_CLEAN_EXIT | Err failure \<Rightarrow> failure_status failure,
               world\<lparr>iw_dispatch := d, iw_socket := s\<rparr>))
            (run_parser_worker_service channel_transport dp image_buffers service_limits_default
               (iw_dispatch world, channel_transport_new, iw_socket world)))"

end
