(* ===== verification/Worker_Image_Correct.thy ===== *)
theory Worker_Image_Correct
  imports Worker_Image
begin

text \<open>
  What one lifetime of the worker shows to the outside: for every transport that keeps the length of a
  slice, and for the image's own channel down to the bytes that crossed it.
\<close>


section \<open>Any transport\<close>

text \<open>
  C5: one lifetime of the worker's service uses the two capabilities it borrows as their contracts say.
  The parser back end is stepped and answered only between a successful begin and the one cancel or end
  that closes it, and none is left open; the transport is closed exactly once when the session shut down,
  aborted exactly once when it failed, never both.  Short buffers and invalid limits are refused before
  the first byte moves, and the internal-failure report never arises.
\<close>

theorem worker_capabilities_respected:
  assumes "worker_link tr" and "lifetime tr dp buffers limits x = Some (r, (es, d), log, aborts, closes, w)"
  shows "dispatch_life es False = Some False \<and> (aborts, closes) = (if is_ok r then (0, 1) else (1, 0)) \<and>
    (refused_at_once buffers limits \<longrightarrow> r = Err (failure_new SvInvalidConfiguration) \<and> es = [] \<and> log = []) \<and>
    (case r of Ok summary \<Rightarrow> True | Err f \<Rightarrow> fl_error f \<noteq> SvInternalFailure)"
  using worker_link.lifetime_report[OF assms] by (simp split: result.splits)

text \<open>
  C13: what crosses the transport during one lifetime is a conversation the protocol admits.  A lifetime
  that shut down has exchanged, byte for byte, the frames of one session whose labels are a complete
  trace of the protocol specification and each of whose worker frames the parent's decoder accepts in
  its context: the read requests under the announced policy with the next sequence number, the entry
  batches within what is left of the enumeration budget.  A lifetime that failed has exchanged such a
  conversation and then only bytes of the peer, or the beginning of one more admissible frame.
\<close>

theorem worker_conversation_admitted:
  assumes "worker_link tr" and "lifetime tr dp buffers limits x = Some (r, (es, d), log, aborts, closes, w)"
  shows "case r of
       Ok summary \<Rightarrow> (\<exists>p fs q b. log = conversation_transfers fs \<and> talk (sum_session_id summary) p fs Over q b)
     | Err f \<Rightarrow> (\<exists>sid p. broken_off sid p log)"
  using worker_link.lifetime_report[OF assms] by (simp split: result.splits)


section \<open>The image's channel\<close>

definition frames_by :: "Direction \<Rightarrow> conversation \<Rightarrow> bytes" where
  "frames_by d fs = concat (map (frame_wire \<circ> snd) (filter (\<lambda>x. fst x = d) fs))"

lemma said_by_frame_transfers: "said_by d (frame_transfers e f) = (if e = d then frame_wire f else [])"
  by (simp add: frame_transfers_def frame_wire_def header_bytes_def)

lemma said_by_conversation: "said_by d (conversation_transfers fs) = frames_by d fs"
  by (induction fs) (auto simp: conversation_transfers_def frames_by_def said_by_frame_transfers)

lemma lifetime_returns: "\<exists>r es d log a c w. lifetime tr dp buffers limits x = Some (r, (es, d), log, a, c, w)"
  using service_returns[of "metered tr" "watched dp" buffers limits "(([], fst x), [], 0, 0, snd x)"]
  unfolding lifetime_def by auto

lemma image_run_watched:
  assumes "run_parser_worker_service channel_transport dp buffers limits x = Some (r, d, w)"
  obtains es log a c where "lifetime channel_transport dp buffers limits x = Some (r, (es, d), log, a, c, w)"
proof -
  obtain r' es d' log a c w' where
    life: "lifetime channel_transport dp buffers limits x = Some (r', (es, d'), log, a, c, w')"
    using lifetime_returns[of channel_transport dp buffers limits x] by blast
  then show ?thesis using assms that image_channel.lifetime_mirrored[OF life] by simp
qed

text \<open>
  C27: when the worker image served a session to its shutdown, the bytes on its channel are exactly a
  conversation.  The bytes that arrived begin with the wire images of the parent's frames, with none
  lost, repeated or reordered by the probes' pushed-back byte; the bytes sent are the wire images of the
  worker's frames; the frames form a complete trace of the protocol specification; and the descriptor was
  closed exactly once.
\<close>

theorem worker_image_exact:
  assumes "run_parser_worker_service channel_transport dp image_buffers service_limits_default
      (d, channel_transport_new, s) = Some (Ok summary, d', t, s')"
  shows "\<exists>p fs q b. talk (sum_session_id summary) p fs Over q b \<and>
    event_bytes (sk_incoming s) = frames_by ParentToWorker fs @ arriving (t, s') \<and>
    sk_sent s' = sk_sent s @ frames_by WorkerToParent fs \<and> sk_closed s' = sk_closed s + 1"
proof -
  obtain es log a c where life: "lifetime channel_transport dp image_buffers service_limits_default
      (d, channel_transport_new, s) = Some (Ok summary, (es, d'), log, a, c, t, s')"
    using image_run_watched[OF assms] .
  note report = image_channel.lifetime_report[OF life] and exact = image_channel.lifetime_mirrored[OF life]
  from report obtain p fs q b where fs: "log = conversation_transfers fs" "talk (sum_session_id summary) p fs Over q b"
    by auto
  have "0 < a + c" using report by simp
  then show ?thesis using fs exact
    by (intro exI[of _ p] exI[of _ fs] exI[of _ q] exI[of _ b])
      (simp add: said_by_conversation sent_bytes_def channel_closings_def channel_held_def channel_transport_new_def
        arriving_def)
qed

text \<open>
  The process always ends with one of the five statuses of the launch contract; it wrote the readiness
  attestation, as far as the pipe took it, and closed the pipe; and it closed the channel exactly once,
  or never opened it when the attestation failed.
\<close>

theorem worker_image_exits:
  "\<exists>status world'. serve dp world = Some (status, world') \<and>
     status \<in> {WORKER_CLEAN_EXIT, WORKER_PROTOCOL_FAILURE_EXIT, WORKER_UNSUPPORTED_EXIT,
       WORKER_TRANSPORT_FAILURE_EXIT, WORKER_INTERNAL_FAILURE_EXIT} \<and>
     ready_written (iw_ready world') =
       ready_written (iw_ready world) @ take (ready_room (iw_ready world)) READY_ATTESTATION \<and>
     ready_closed (iw_ready world') \<and>
     sk_closed (iw_socket world') =
       sk_closed (iw_socket world) + (if fst (attest_readiness (iw_ready world)) then 1 else 0)"
proof (cases "fst (attest_readiness (iw_ready world))")
  case False
  then show ?thesis by (simp add: serve_def attest_readiness_def)
next
  case True
  let ?x = "(iw_dispatch world, channel_transport_new, iw_socket world)"
  obtain r es d log a c t s where
    life: "lifetime channel_transport dp image_buffers service_limits_default ?x = Some (r, (es, d), log, a, c, t, s)"
    using lifetime_returns[of channel_transport dp image_buffers service_limits_default ?x] by (metis prod.collapse)
  note report = image_channel.lifetime_report[OF life] and exact = image_channel.lifetime_mirrored[OF life]
  have "0 < a + c" using report by (auto split: if_splits)
  then have "sk_closed s = sk_closed (iw_socket world) + 1"
    using exact by (simp add: channel_closings_def channel_held_def channel_transport_new_def)
  then show ?thesis using exact True
    by (auto simp: serve_def attest_readiness_def failure_status_def
        split: result.splits ServiceError.splits IoStatus.splits)
qed



section \<open>A session that shuts down\<close>

text \<open>Whole frames arriving on a quiet channel are received and sent as they are.\<close>

lemma sock_arrived_plain: "sock_arrived (length bs) (map SockByte (bs @ rest)) = (bs, map SockByte rest)"
  by (induction bs) simp_all

lemma channel_read_plain:
  assumes "length bs = length dst" and "ct_stream t = Some fd" and "ct_pushback t = None"
    and "sk_incoming s = map SockByte (bs @ rest)"
  shows "channel_read_exact dst (t, s) = (IoOk, bs, t, s\<lparr>sk_incoming := map SockByte rest\<rparr>)"
proof (cases bs)
  case Nil
  then show ?thesis using assms by (simp add: channel_read_exact_def channel_read_loop.simps[of 0 "[]"])
next
  case (Cons b cs)
  have "sock_read (length dst) s = (Ok bs, s\<lparr>sk_incoming := map SockByte rest\<rparr>)"
    using assms(1,4) Cons sock_arrived_plain[of bs rest] by (simp add: sock_read_def)
  then have "channel_read_loop 0 dst s = (IoOk, bs, s\<lparr>sk_incoming := map SockByte rest\<rparr>)"
    using assms(1) Cons
    by (auto simp: channel_read_loop.simps[of 0] channel_read_loop.simps[of "length dst"])
  then show ?thesis using assms(2,3) by (cases t) (simp add: channel_read_exact_def)
qed

lemma receive_frame_plain:
  assumes "wf_frame f" and "length (fv_payload f) \<le> length buf" and "sid = 0 \<or> sid = fh_session_id (fv_header f)"
    and "ct_stream t = Some fd" and "ct_pushback t = None" and "sk_incoming s = map SockByte (frame_wire f @ rest)"
  shows "receive_frame channel_transport sid (buf, t, s) =
    (Ok (fv_header f), fv_payload f @ drop (length (fv_payload f)) buf, t, s\<lparr>sk_incoming := map SockByte rest\<rparr>)"
proof -
  let ?h = "fv_header f" and ?p = "fv_payload f"
  have wf: "frame_header_validate ?h = Ok ()" "length ?p = unat (fh_payload_length ?h)"
    using assms(1) by (simp_all add: wf_frame_def)
  have wire: "sk_incoming s = map SockByte (header_bytes ?h @ ?p @ rest)"
    using assms(6) by (simp add: frame_wire_def header_bytes_def)
  have "length (header_bytes ?h) = FRAME_HEADER_BYTES" by (simp add: header_bytes_def owp_consts)
  then have head: "channel_read_exact (replicate FRAME_HEADER_BYTES 0) (t, s) =
      (IoOk, header_bytes ?h, t, s\<lparr>sk_incoming := map SockByte (?p @ rest)\<rparr>)"
    using channel_read_plain[OF _ assms(4,5) wire] by simp
  have body: "channel_read_exact (take (length ?p) buf) (t, s\<lparr>sk_incoming := map SockByte (?p @ rest)\<rparr>) =
      (IoOk, ?p, t, s\<lparr>sk_incoming := map SockByte rest\<rparr>)"
    using channel_read_plain[of ?p "take (length ?p) buf" t fd "s\<lparr>sk_incoming := map SockByte (?p @ rest)\<rparr>" rest] assms(2,4,5)
    by simp
  have "decode_frame_header (header_bytes ?h) = Ok ?h" using wf(1) by (simp add: decode_frame_header_Ok_iff header_bytes_def)
  then show ?thesis using head body wf(2) assms(2,3)
    by (cases "?p = []") (auto simp: receive_frame_def Let_def)
qed

definition demo_shutdown :: FrameView where
  "demo_shutdown = frame_view_new (frame_header_new Shutdown 7 0 0) []"

definition demo_socket :: Socket where
  "demo_socket = \<lparr>sk_incoming = map SockByte (frame_wire demo_hello @ frame_wire demo_shutdown),
     sk_outgoing = [RoomFor 100], sk_mode_faults = [], sk_nonblocking = False, sk_sent = [], sk_closed = 0\<rparr>"

lemma demo_frames_wf: "wf_frame demo_hello" "wf_frame demo_shutdown"
proof -
  have "frame_header_validate (frame_header_new Hello 7 0 12) = Ok ()"
    "frame_header_validate (frame_header_new Shutdown 7 0 0) = Ok ()" by code_simp+
  then show "wf_frame demo_hello" "wf_frame demo_shutdown"
    by (simp_all add: wf_frame_def demo_hello_def demo_shutdown_def frame_view_new_def hello_wire_def
        frame_header_new_def owp_consts)
qed

lemma demo_shutdown_observed: "\<exists>v. observe ParentToWorker (fv_header demo_shutdown) demo_opened = (Ok (), v)"
proof -
  have "fst (observe ParentToWorker (fv_header demo_shutdown) demo_opened) = Ok ()" by code_simp
  then show ?thesis by (cases "observe ParentToWorker (fv_header demo_shutdown) demo_opened") simp
qed

lemma demo_greeting:
  "\<exists>buf s. worker_handshake channel_transport service_limits_default
       (bufs_receive_payload image_buffers, channel_transport_new, demo_socket) =
     (Ok \<lparr>wh_validator = demo_opened, wh_session_id = 7,
          wh_source_policy = \<lparr>srp_source_size = 100, srp_maximum_read_bytes = MAXIMUM_READ_BYTES\<rparr>\<rparr>,
      buf, channel_transport_new, s) \<and>
     length buf = unat MAXIMUM_FRAME_PAYLOAD_BYTES \<and> sk_incoming s = map SockByte (frame_wire demo_shutdown)"
proof -
  let ?m = "\<lparr>hello_source_size = 100, hello_maximum_read_bytes = MAXIMUM_READ_BYTES\<rparr>"
  let ?h = "frame_header_new Hello 7 0 12"
  let ?buf = "hello_wire ?m @ drop 12 (replicate (unat MAXIMUM_FRAME_PAYLOAD_BYTES) 0)"
  let ?s = "demo_socket\<lparr>sk_incoming := map SockByte (frame_wire demo_shutdown)\<rparr>"
  have parts: "fv_header demo_hello = ?h" "fv_payload demo_hello = hello_wire ?m" "length (hello_wire ?m) = 12"
    by (simp_all add: demo_hello_def frame_view_new_def hello_wire_def)
  have fits: "12 \<le> unat MAXIMUM_FRAME_PAYLOAD_BYTES" by (simp add: owp_consts)
  have got: "receive_frame channel_transport 0 (bufs_receive_payload image_buffers, channel_transport_new, demo_socket) =
      (Ok ?h, ?buf, channel_transport_new, ?s)"
    using receive_frame_plain[OF demo_frames_wf(1), of "bufs_receive_payload image_buffers" 0
        channel_transport_new CHANNEL_FD demo_socket "frame_wire demo_shutdown"] parts fits
    by (simp add: image_buffers_def channel_transport_new_def demo_socket_def)
  have view: "frame_view_new ?h (take (unat (fh_payload_length ?h)) ?buf) = demo_hello"
    using parts by (simp add: demo_hello_def frame_header_new_def)
  have dec: "decode_hello_payload demo_hello = Ok ?m"
    using demo_frames_wf(1) parts by (simp add: hello_codec.decode_Ok hello_valid_def owp_consts frame_header_new_def)
  have pol: "source_read_policy_new 100 MAXIMUM_READ_BYTES =
      Ok \<lparr>srp_source_size = 100, srp_maximum_read_bytes = MAXIMUM_READ_BYTES\<rparr>" by (simp add: source_read_policy_new_def owp_consts)
  have enc: "frame_header_encode demo_ready (replicate FRAME_HEADER_BYTES 0) = (Ok (), header_bytes demo_ready)"
    using demo_ready_wf(1) by (simp add: frame_header_encode_eq header_bytes_def wf_frame_def frame_view_new_def)
  have len: "length (header_bytes demo_ready) = 32" by (simp add: header_bytes_def)
  obtain s where sent: "channel_write_all (header_bytes demo_ready) (channel_transport_new, ?s) =
      (IoOk, channel_transport_new, s)" and s: "sk_incoming s = sk_incoming ?s"
    using len by (simp add: channel_write_all_def channel_transport_new_def demo_socket_def sock_write_def
        channel_write_loop.simps[of 0] channel_write_loop.simps[of FRAME_HEADER_BYTES])
  have "send_frame channel_transport demo_ready [] (demo_greeted, channel_transport_new, ?s) =
      (Ok (), demo_opened, channel_transport_new, s)"
    using demo_handshake_observed(2) enc sent by (simp add: send_frame_def demo_ready_def frame_header_new_def)
  moreover have "session_id_new (fh_session_id ?h) = Some 7" by (simp add: session_id_new_def frame_header_new_def)
  ultimately show ?thesis
    using got view dec pol demo_handshake_observed(1) s parts(3) fits
    by (simp add: worker_handshake_def service_limits_default_def demo_ready_def[symmetric])
qed

lemma demo_service:
  "\<exists>d t s. run_parser_worker_service channel_transport unsupported_dispatcher image_buffers service_limits_default
     ((), channel_transport_new, demo_socket) = Some (Ok \<lparr>sum_session_id = 7, sum_dispatch_steps = 0\<rparr>, d, t, s)"
proof -
  obtain buf s v where hs: "worker_handshake channel_transport service_limits_default
       (bufs_receive_payload image_buffers, channel_transport_new, demo_socket) =
     (Ok \<lparr>wh_validator = demo_opened, wh_session_id = 7,
          wh_source_policy = \<lparr>srp_source_size = 100, srp_maximum_read_bytes = MAXIMUM_READ_BYTES\<rparr>\<rparr>,
      buf, channel_transport_new, s)"
    and s: "sk_incoming s = map SockByte (frame_wire demo_shutdown)"
    and v: "observe ParentToWorker (fv_header demo_shutdown) demo_opened = (Ok (), v)"
    using demo_greeting demo_shutdown_observed by blast
  have parts: "fv_header demo_shutdown = frame_header_new Shutdown 7 0 0" "fv_payload demo_shutdown = []"
    by (simp_all add: demo_shutdown_def frame_view_new_def)
  let ?h = "frame_header_new Shutdown 7 0 0"
  have got: "receive_frame channel_transport 7 (buf, channel_transport_new, s) =
      (Ok ?h, buf, channel_transport_new, s\<lparr>sk_incoming := []\<rparr>)"
    using receive_frame_plain[OF demo_frames_wf(2), of buf 7 channel_transport_new CHANNEL_FD s "[]"] parts s
    by (simp add: channel_transport_new_def frame_header_new_def)
  have dec: "decode_shutdown_payload (frame_view_new ?h []) = Ok ()"
    using demo_frames_wf(2) parts
    by (simp add: decode_shutdown_payload_def decode_empty_Ok demo_shutdown_def frame_view_new_def frame_header_new_def)
  have fields: "fh_message_type ?h = Shutdown" "fh_payload_length ?h = 0" by (simp_all add: frame_header_new_def)
  let ?s = "service_new \<lparr>wh_validator = demo_opened, wh_session_id = 7,
          wh_source_policy = \<lparr>srp_source_size = 100, srp_maximum_read_bytes = MAXIMUM_READ_BYTES\<rparr>\<rparr>
      service_limits_default () buf (bufs_send_payload image_buffers) (channel_transport_new, s)"
  have "\<exists>t. service_turn channel_transport unsupported_dispatcher ?s = (Ok FlowShutdown, t) \<and> svc_session_id t = 7 \<and>
      svc_dispatch_steps t = 0"
    using got dec fields v parts demo_handshake_observed(3)
    by (simp add: service_turn_def service_new_def svc_receive_def st_bind_def
        handle_parent_frame_def handle_shutdown_def svc_frame_def svc_observe_def)
  then obtain t where turn: "service_turn channel_transport unsupported_dispatcher ?s = (Ok FlowShutdown, t)"
    and t: "svc_session_id t = 7" "svc_dispatch_steps t = 0" by blast
  have run: "service_run channel_transport unsupported_dispatcher ?s = Some (Ok (), t)"
    using turn by (subst service_run.simps) simp
  have "\<not> refused_at_once image_buffers service_limits_default"
    by (simp add: refused_at_once_def image_buffers_def service_limits_valid_def service_limits_default_def
        protocol_budgets_default_def owp_consts)
  then show ?thesis using hs run t
    by (cases "svc_transport t")
      (simp add: run_parser_worker_service_def refused_at_once_def service_finish_def)
qed

theorem worker_image_exact_witness:
  "\<exists>d t s' p fs q b. run_parser_worker_service channel_transport unsupported_dispatcher image_buffers service_limits_default
       ((), channel_transport_new, demo_socket) = Some (Ok \<lparr>sum_session_id = 7, sum_dispatch_steps = 0\<rparr>, d, t, s') \<and>
     talk 7 p fs Over q b \<and>
     event_bytes (sk_incoming demo_socket) = frames_by ParentToWorker fs @ arriving (t, s') \<and>
     sk_sent s' = frames_by WorkerToParent fs \<and> sk_closed s' = 1"
proof -
  obtain d t s' where run: "run_parser_worker_service channel_transport unsupported_dispatcher image_buffers
      service_limits_default ((), channel_transport_new, demo_socket) =
        Some (Ok \<lparr>sum_session_id = 7, sum_dispatch_steps = 0\<rparr>, d, t, s')"
    using demo_service by blast
  have "sk_sent demo_socket = []" "sk_closed demo_socket = 0" by (simp_all add: demo_socket_def)
  with worker_image_exact[OF run] obtain p fs q b where "talk 7 p fs Over q b"
    "event_bytes (sk_incoming demo_socket) = frames_by ParentToWorker fs @ arriving (t, s')"
    "sk_sent s' = frames_by WorkerToParent fs" "sk_closed s' = 1" by auto
  with run show ?thesis by blast
qed

lemma demo_lifetime:
  "\<exists>es d log a c w. lifetime channel_transport unsupported_dispatcher image_buffers service_limits_default
     ((), channel_transport_new, demo_socket) =
       Some (Ok \<lparr>sum_session_id = 7, sum_dispatch_steps = 0\<rparr>, (es, d), log, a, c, w)"
proof -
  from demo_service obtain d w where "run_parser_worker_service channel_transport unsupported_dispatcher image_buffers
      service_limits_default ((), channel_transport_new, demo_socket) =
        Some (Ok \<lparr>sum_session_id = 7, sum_dispatch_steps = 0\<rparr>, d, w)" by blast
  then show ?thesis by (rule image_run_watched) blast
qed

theorem worker_capabilities_respected_witness:
  "\<exists>es d log w. lifetime channel_transport unsupported_dispatcher image_buffers service_limits_default
     ((), channel_transport_new, demo_socket) =
       Some (Ok \<lparr>sum_session_id = 7, sum_dispatch_steps = 0\<rparr>, (es, d), log, 0, 1, w) \<and>
     dispatch_life es False = Some False"
proof -
  from demo_lifetime obtain es d log a c w where life: "lifetime channel_transport unsupported_dispatcher image_buffers
      service_limits_default ((), channel_transport_new, demo_socket) =
        Some (Ok \<lparr>sum_session_id = 7, sum_dispatch_steps = 0\<rparr>, (es, d), log, a, c, w)" by blast
  from worker_capabilities_respected[OF image_channel.worker_link_axioms life]
  have "dispatch_life es False = Some False" "a = 0" "c = 1" by simp_all
  with life show ?thesis by blast
qed

theorem worker_conversation_admitted_witness:
  "\<exists>es d log a c w p fs q b. lifetime channel_transport unsupported_dispatcher image_buffers service_limits_default
     ((), channel_transport_new, demo_socket) =
       Some (Ok \<lparr>sum_session_id = 7, sum_dispatch_steps = 0\<rparr>, (es, d), log, a, c, w) \<and>
     log = conversation_transfers fs \<and> talk 7 p fs Over q b"
proof -
  from demo_lifetime obtain es d log a c w where life: "lifetime channel_transport unsupported_dispatcher image_buffers
      service_limits_default ((), channel_transport_new, demo_socket) =
        Some (Ok \<lparr>sum_session_id = 7, sum_dispatch_steps = 0\<rparr>, (es, d), log, a, c, w)" by blast
  from worker_conversation_admitted[OF image_channel.worker_link_axioms life]
  obtain p fs q b where "log = conversation_transfers fs" "talk 7 p fs Over q b" by auto
  with life show ?thesis by blast
qed

end
