(* ===== verification/Save_Bytes.thy ===== *)
theory Save_Bytes
  imports Ohl_Core
begin

text \<open>
  Crate \<open>ohl-save\<close>, \<open>error.rs\<close> and \<open>bytes.rs\<close>: the error codes, the cursor \<open>Reader\<close> over a borrowed
  buffer and the append-only \<open>Writer\<close> every field of a save file goes through.  A \<open>Writer\<close> is the
  bytes it holds.  A Rust \<open>String\<close> is a byte list that passes \<open>from_utf8\<close>; that check of the
  standard library is written out below.  The contract between a field reader and its wire form is
  the locale \<open>cursor_codec\<close>, interpreted for every field kind.
\<close>


section \<open>Errors\<close>

datatype SaveError =
    BadMagic | UnsupportedMajorVersion | Truncated | LimitExceeded | HeaderInvalid | TableInvalid
  | SectionDigestMismatch | TrailerMismatch | DuplicateTag | ReservedTag | SectionNotFound | Codec
  | InvalidSlotName | SlotNotFound | Io

fun save_error_from_sanitized :: "SanitizedError \<Rightarrow> SaveError" where
  "save_error_from_sanitized _ = LimitExceeded"


section \<open>UTF-8 validation\<close>

definition utf8_tail :: "u8 \<Rightarrow> bool" where
  "utf8_tail b \<longleftrightarrow> 0x80 \<le> b \<and> b \<le> 0xBF"

definition utf8_second :: "u8 \<Rightarrow> u8 \<Rightarrow> bool" where
  "utf8_second lead b \<longleftrightarrow>
     (if lead = 0xE0 then 0xA0 \<le> b \<and> b \<le> 0xBF
      else if lead = 0xED then 0x80 \<le> b \<and> b \<le> 0x9F
      else if lead = 0xF0 then 0x90 \<le> b \<and> b \<le> 0xBF
      else if lead = 0xF4 then 0x80 \<le> b \<and> b \<le> 0x8F
      else utf8_tail b)"

fun from_utf8_ok :: "bytes \<Rightarrow> bool" where
  "from_utf8_ok [] = True"
| "from_utf8_ok (a # bs) =
     (if a < 0x80 then from_utf8_ok bs
      else if 0xC2 \<le> a \<and> a \<le> 0xDF then
        (case bs of b # cs \<Rightarrow> utf8_tail b \<and> from_utf8_ok cs | _ \<Rightarrow> False)
      else if 0xE0 \<le> a \<and> a \<le> 0xEF then
        (case bs of b # c # cs \<Rightarrow> utf8_second a b \<and> utf8_tail c \<and> from_utf8_ok cs | _ \<Rightarrow> False)
      else if 0xF0 \<le> a \<and> a \<le> 0xF4 then
        (case bs of b # c # d # cs \<Rightarrow>
           utf8_second a b \<and> utf8_tail c \<and> utf8_tail d \<and> from_utf8_ok cs | _ \<Rightarrow> False)
      else False)"


section \<open>The reader\<close>

record Reader =
  rd_bytes :: bytes
  rd_position :: nat

definition reader_new :: "bytes \<Rightarrow> Reader" where
  "reader_new bs = \<lparr>rd_bytes = bs, rd_position = 0\<rparr>"

definition rd_take :: "nat \<Rightarrow> (Reader, SaveError, bytes) stm" where
  "rd_take count r =
     (case usize_add (rd_position r) count of
        None \<Rightarrow> (Err Truncated, r)
      | Some e \<Rightarrow>
          (case slice_get (rd_position r) e (rd_bytes r) of
             None \<Rightarrow> (Err Truncated, r)
           | Some chunk \<Rightarrow> (Ok chunk, r\<lparr>rd_position := e\<rparr>)))"

definition rd_u16 :: "(Reader, SaveError, u16) stm" where
  "rd_u16 = st_bind (rd_take 2) (\<lambda>bs. st_return (u16_from_le bs))"

definition rd_u32 :: "(Reader, SaveError, u32) stm" where
  "rd_u32 = st_bind (rd_take 4) (\<lambda>bs. st_return (u32_from_le bs))"

definition rd_u64 :: "(Reader, SaveError, u64) stm" where
  "rd_u64 = st_bind (rd_take 8) (\<lambda>bs. st_return (u64_from_le bs))"

definition rd_array32 :: "(Reader, SaveError, bytes) stm" where
  "rd_array32 = rd_take 32"

definition rd_bounded_string :: "nat \<Rightarrow> (Reader, SaveError, bytes) stm" where
  "rd_bounded_string max_len =
     st_bind rd_u16 (\<lambda>len.
     if unat len > max_len then st_fail HeaderInvalid
     else st_bind (rd_take (unat len)) (\<lambda>bs.
          if from_utf8_ok bs then st_return bs else st_fail HeaderInvalid))"

definition rd_bounded_bytes :: "nat \<Rightarrow> (Reader, SaveError, bytes) stm" where
  "rd_bounded_bytes max_len =
     st_bind rd_u32 (\<lambda>len.
     if unat len > max_len then st_fail HeaderInvalid
     else rd_take (unat len))"


section \<open>The writer\<close>

definition wr_raw :: "bytes \<Rightarrow> bytes \<Rightarrow> bytes" where
  "wr_raw bs w = w @ bs"

definition wr_u16 :: "u16 \<Rightarrow> bytes \<Rightarrow> bytes" where
  "wr_u16 v w = w @ u16_to_le v"

definition wr_u32 :: "u32 \<Rightarrow> bytes \<Rightarrow> bytes" where
  "wr_u32 v w = w @ u32_to_le v"

definition wr_u64 :: "u64 \<Rightarrow> bytes \<Rightarrow> bytes" where
  "wr_u64 v w = w @ u64_to_le v"

definition wr_array32 :: "bytes \<Rightarrow> bytes \<Rightarrow> bytes" where
  "wr_array32 v w = w @ v"

definition wr_bounded_string :: "bytes \<Rightarrow> (bytes, SaveError, unit) stm" where
  "wr_bounded_string v w =
     (case try_from_nat (length v) of
        None \<Rightarrow> (Err HeaderInvalid, w)
      | Some len \<Rightarrow> (Ok (), wr_raw v (wr_u16 len w)))"

definition wr_bounded_bytes :: "bytes \<Rightarrow> (bytes, SaveError, unit) stm" where
  "wr_bounded_bytes v w =
     (case try_from_nat (length v) of
        None \<Rightarrow> (Err HeaderInvalid, w)
      | Some len \<Rightarrow> (Ok (), wr_raw v (wr_u32 len w)))"

lemmas wr_defs = wr_raw_def wr_u16_def wr_u32_def wr_u64_def wr_array32_def


section \<open>The cursor contract\<close>

text \<open>
  A cursor is good when its position is inside a buffer that a 64-bit target can hold; \<open>rd_rest\<close>
  is what it has not read yet.
\<close>

definition rd_good :: "Reader \<Rightarrow> bool" where
  "rd_good r \<longleftrightarrow> rd_position r \<le> length (rd_bytes r) \<and> length (rd_bytes r) < 2 ^ 64"

definition rd_rest :: "Reader \<Rightarrow> bytes" where
  "rd_rest r = drop (rd_position r) (rd_bytes r)"

definition rd_advance :: "nat \<Rightarrow> Reader \<Rightarrow> Reader" where
  "rd_advance n r = r\<lparr>rd_position := rd_position r + n\<rparr>"

lemma rd_advance_sel [simp]:
  "rd_bytes (rd_advance n r) = rd_bytes r" "rd_position (rd_advance n r) = rd_position r + n"
  by (simp_all add: rd_advance_def)

lemma rd_advance_advance [simp]: "rd_advance n (rd_advance m r) = rd_advance (m + n) r"
  by (simp add: rd_advance_def add.assoc)

lemma rd_advance_0 [simp]: "rd_advance 0 r = r"
  by (simp add: rd_advance_def)

lemma rd_rest_advance: "rd_rest r = w @ post \<Longrightarrow> rd_rest (rd_advance (length w) r) = post"
  unfolding rd_rest_def by (metis add.commute append_eq_conv_conj drop_drop rd_advance_sel)

lemma rd_good_advance:
  assumes "rd_good r" "rd_rest r = w @ post"
  shows "rd_good (rd_advance (length w) r)"
proof -
  have "length (rd_rest r) = length (rd_bytes r) - rd_position r" by (simp add: rd_rest_def)
  then have "rd_position r + length w \<le> length (rd_bytes r)"
    using assms by (simp add: rd_good_def) linarith
  with assms(1) show ?thesis by (simp add: rd_good_def)
qed

lemma rd_take_Ok:
  assumes "rd_good r"
  shows "rd_take n r = (Ok bs, r') \<longleftrightarrow>
    length bs = n \<and> (\<exists>post. rd_rest r = bs @ post) \<and> r' = rd_advance n r"
proof
  assume "rd_take n r = (Ok bs, r')"
  then have "rd_position r + n \<le> length (rd_bytes r)" "bs = take n (drop (rd_position r) (rd_bytes r))"
    "r' = rd_advance n r"
    by (auto simp: rd_take_def usize_add_def slice_get_def rd_advance_def split: if_splits option.splits)
  then show "length bs = n \<and> (\<exists>post. rd_rest r = bs @ post) \<and> r' = rd_advance n r"
    by (auto simp: rd_rest_def intro: append_take_drop_id[symmetric])
next
  assume *: "length bs = n \<and> (\<exists>post. rd_rest r = bs @ post) \<and> r' = rd_advance n r"
  then obtain post where post: "drop (rd_position r) (rd_bytes r) = bs @ post"
    by (auto simp: rd_rest_def)
  then have "length (rd_bytes r) - rd_position r = n + length post"
    using * by (metis length_append length_drop)
  then have "rd_position r + n \<le> length (rd_bytes r)"
    using assms unfolding rd_good_def by linarith
  then show "rd_take n r = (Ok bs, r')"
    using * post assms
    by (auto simp: rd_take_def usize_add_def slice_get_def rd_advance_def rd_good_def)
qed

text \<open>
  A field reader with its wire form: on a good cursor it succeeds exactly when the unread bytes
  start with the wire form of a valid value, which it returns, and it moves past that form.
\<close>

locale cursor_codec =
  fixes get :: "(Reader, SaveError, 'a) stm"
    and wire :: "'a \<Rightarrow> bytes"
    and valid :: "'a \<Rightarrow> bool"
  assumes exact: "rd_good r \<Longrightarrow> get r = (Ok v, r') \<longleftrightarrow>
      valid v \<and> (\<exists>post. rd_rest r = wire v @ post) \<and> r' = rd_advance (length (wire v)) r"
begin

lemma get_wire:
  "rd_good r \<Longrightarrow> valid v \<Longrightarrow> rd_rest r = wire v @ post \<Longrightarrow>
     get r = (Ok v, rd_advance (length (wire v)) r)"
  by (simp add: exact)

lemma get_sound:
  assumes "rd_good r" "get r = (Ok v, r')"
  shows "valid v \<and> rd_good r' \<and> rd_bytes r' = rd_bytes r \<and> rd_rest r = wire v @ rd_rest r'"
  using assms rd_good_advance rd_rest_advance by (auto simp: exact)

text \<open>Sequencing: a field followed by a continuation that satisfies the same law.\<close>

lemma bind_exact:
  assumes "rd_good r"
  shows "st_bind get f r = (Ok y, r') \<longleftrightarrow>
    (\<exists>v post. valid v \<and> rd_rest r = wire v @ post \<and> f v (rd_advance (length (wire v)) r) = (Ok y, r'))"
  using assms by (auto simp: st_bind_Ok exact)

end

lemma rd_take_codec: "cursor_codec (rd_take n) (\<lambda>bs. bs) (\<lambda>bs. length bs = n)"
  by unfold_locales (auto simp: rd_take_Ok)

interpretation array32_field: cursor_codec rd_array32 "\<lambda>bs. bs" "\<lambda>bs. length bs = 32"
  unfolding rd_array32_def by (rule rd_take_codec)

lemma rd_int_codec:
  assumes "fixed_codec w enc dec"
  shows "cursor_codec (st_bind (rd_take w) (\<lambda>bs. st_return (dec bs))) enc (\<lambda>_. True)"
proof
  fix r r' and v :: 'a
  assume good: "rd_good r"
  have "st_bind (rd_take w) (\<lambda>bs. st_return (dec bs)) r = (Ok v, r') \<longleftrightarrow>
      (\<exists>bs. length bs = w \<and> (\<exists>post. rd_rest r = bs @ post) \<and> r' = rd_advance w r \<and> dec bs = v)"
    by (auto simp: st_bind_Ok rd_take_Ok[OF good])
  also have "\<dots> \<longleftrightarrow> (\<exists>post. rd_rest r = enc v @ post) \<and> r' = rd_advance w r"
    using fixed_codec.length_enc[OF assms, of v] fixed_codec.dec_enc[OF assms, of v]
      fixed_codec.enc_dec[OF assms] by metis
  finally show "st_bind (rd_take w) (\<lambda>bs. st_return (dec bs)) r = (Ok v, r') \<longleftrightarrow>
      True \<and> (\<exists>post. rd_rest r = enc v @ post) \<and> r' = rd_advance (length (enc v)) r"
    by (simp add: fixed_codec.length_enc[OF assms])
qed

interpretation u16_field: cursor_codec rd_u16 u16_to_le "\<lambda>_. True"
  unfolding rd_u16_def by (rule rd_int_codec) (rule u16_codec.fixed_codec_axioms)

interpretation u32_field: cursor_codec rd_u32 u32_to_le "\<lambda>_. True"
  unfolding rd_u32_def by (rule rd_int_codec) (rule u32_codec.fixed_codec_axioms)

interpretation u64_field: cursor_codec rd_u64 u64_to_le "\<lambda>_. True"
  unfolding rd_u64_def by (rule rd_int_codec) (rule u64_codec.fixed_codec_axioms)

text \<open>The length-prefixed fields.\<close>

definition string_wire :: "bytes \<Rightarrow> bytes" where
  "string_wire v = u16_to_le (of_nat (length v)) @ v"

definition blob_wire :: "bytes \<Rightarrow> bytes" where
  "blob_wire v = u32_to_le (of_nat (length v)) @ v"

lemma rd_bounded_string_codec:
  assumes "m < 2 ^ 16"
  shows "cursor_codec (rd_bounded_string m) string_wire (\<lambda>v. length v \<le> m \<and> from_utf8_ok v)"
proof
  fix r r' v
  assume good: "rd_good r"
  show "rd_bounded_string m r = (Ok v, r') \<longleftrightarrow> (length v \<le> m \<and> from_utf8_ok v) \<and>
      (\<exists>post. rd_rest r = string_wire v @ post) \<and> r' = rd_advance (length (string_wire v)) r"
    (is "?get \<longleftrightarrow> ?spec")
  proof
    assume ?get
    then obtain len post where len: "rd_rest r = u16_to_le len @ post" "unat len \<le> m" "from_utf8_ok v"
        "rd_take (unat len) (rd_advance 2 r) = (Ok v, r')"
      using good by (auto simp: rd_bounded_string_def st_bind_Ok u16_field.exact split: if_splits)
    moreover have "rd_good (rd_advance 2 r)" "rd_rest (rd_advance 2 r) = post"
      using rd_good_advance[OF good len(1)] rd_rest_advance[OF len(1)] by simp_all
    ultimately show ?spec by (auto simp: rd_take_Ok string_wire_def)
  next
    assume ?spec
    then obtain post where post: "rd_rest r = u16_to_le (of_nat (length v)) @ v @ post"
      "length v \<le> m" "from_utf8_ok v" "r' = rd_advance (2 + length v) r"
      by (auto simp: string_wire_def)
    have "unat (of_nat (length v) :: u16) = length v"
      using assms post(2) by (simp add: unat_of_nat)
    moreover have "rd_good (rd_advance 2 r)" "rd_rest (rd_advance 2 r) = v @ post"
      using rd_good_advance[OF good post(1)] rd_rest_advance[OF post(1)] by simp_all
    ultimately show ?get using good post
      by (auto simp: rd_bounded_string_def st_bind_Ok u16_field.exact rd_take_Ok intro!: exI[of _ "of_nat (length v)"])
  qed
qed

lemma rd_bounded_bytes_codec:
  assumes "m < 2 ^ 32"
  shows "cursor_codec (rd_bounded_bytes m) blob_wire (\<lambda>v. length v \<le> m)"
proof
  fix r r' v
  assume good: "rd_good r"
  show "rd_bounded_bytes m r = (Ok v, r') \<longleftrightarrow> length v \<le> m \<and>
      (\<exists>post. rd_rest r = blob_wire v @ post) \<and> r' = rd_advance (length (blob_wire v)) r"
    (is "?get \<longleftrightarrow> ?spec")
  proof
    assume ?get
    then obtain len post where len: "rd_rest r = u32_to_le len @ post" "unat len \<le> m"
        "rd_take (unat len) (rd_advance 4 r) = (Ok v, r')"
      using good by (auto simp: rd_bounded_bytes_def st_bind_Ok u32_field.exact split: if_splits)
    moreover have "rd_good (rd_advance 4 r)" "rd_rest (rd_advance 4 r) = post"
      using rd_good_advance[OF good len(1)] rd_rest_advance[OF len(1)] by simp_all
    ultimately show ?spec by (auto simp: rd_take_Ok blob_wire_def)
  next
    assume ?spec
    then obtain post where post: "rd_rest r = u32_to_le (of_nat (length v)) @ v @ post"
      "length v \<le> m" "r' = rd_advance (4 + length v) r"
      by (auto simp: blob_wire_def)
    have "unat (of_nat (length v) :: u32) = length v"
      using assms post(2) by (simp add: unat_of_nat)
    moreover have "rd_good (rd_advance 4 r)" "rd_rest (rd_advance 4 r) = v @ post"
      using rd_good_advance[OF good post(1)] rd_rest_advance[OF post(1)] by simp_all
    ultimately show ?get using good post
      by (auto simp: rd_bounded_bytes_def st_bind_Ok u32_field.exact rd_take_Ok intro!: exI[of _ "of_nat (length v)"])
  qed
qed

text \<open>
  Composition: field after field.  The record a reader builds determines each field through a
  selector \<open>p\<close>, so the wire form of the whole is the concatenation of the wire forms of its fields.
\<close>

lemma codec_return: "cursor_codec (st_return x) (\<lambda>_. []) (\<lambda>v. v = x)"
  by unfold_locales auto

lemma codec_bind:
  assumes one: "cursor_codec get wire1 valid1"
    and two: "\<And>a. cursor_codec (f a) wire2 (valid2 a)"
    and sel: "\<And>a v. valid2 a v \<Longrightarrow> p v = a"
  shows "cursor_codec (st_bind get f) (\<lambda>v. wire1 (p v) @ wire2 v) (\<lambda>v. valid1 (p v) \<and> valid2 (p v) v)"
proof
  fix r r' v
  assume good: "rd_good r"
  have step: "f a (rd_advance (length (wire1 a)) r) = (Ok v, r') \<longleftrightarrow>
      valid2 a v \<and> (\<exists>post'. post = wire2 v @ post') \<and> r' = rd_advance (length (wire1 a) + length (wire2 v)) r"
    if "rd_rest r = wire1 a @ post" for a post
    using cursor_codec.exact[OF two rd_good_advance[OF good that], of a v r'] rd_rest_advance[OF that] by simp
  have "st_bind get f r = (Ok v, r') \<longleftrightarrow>
      (\<exists>a post. valid1 a \<and> rd_rest r = wire1 a @ post \<and> f a (rd_advance (length (wire1 a)) r) = (Ok v, r'))"
    by (rule cursor_codec.bind_exact[OF one good])
  also have "\<dots> \<longleftrightarrow> (\<exists>a post. valid1 a \<and> rd_rest r = wire1 a @ wire2 v @ post \<and> valid2 a v \<and>
      r' = rd_advance (length (wire1 a) + length (wire2 v)) r)"
    using step by blast
  also have "\<dots> \<longleftrightarrow> (valid1 (p v) \<and> valid2 (p v) v) \<and>
      (\<exists>post. rd_rest r = (wire1 (p v) @ wire2 v) @ post) \<and>
      r' = rd_advance (length (wire1 (p v) @ wire2 v)) r"
    using sel by auto
  finally show "st_bind get f r = (Ok v, r') \<longleftrightarrow> (valid1 (p v) \<and> valid2 (p v) v) \<and>
      (\<exists>post. rd_rest r = (wire1 (p v) @ wire2 v) @ post) \<and>
      r' = rd_advance (length (wire1 (p v) @ wire2 v)) r" .
qed

lemma codec_guard:
  "cursor_codec g wire valid \<Longrightarrow> cursor_codec (if c then st_fail e else g) wire (\<lambda>v. \<not> c \<and> valid v)"
  by (auto simp: cursor_codec_def)

lemma codec_cong:
  assumes "cursor_codec get wire valid" "\<And>v. valid' v \<longleftrightarrow> valid v" "\<And>v. valid v \<Longrightarrow> wire' v = wire v"
  shows "cursor_codec get wire' valid'"
proof
  fix r r' v
  assume "rd_good r"
  with assms(1) have "get r = (Ok v, r') \<longleftrightarrow>
      valid v \<and> (\<exists>post. rd_rest r = wire v @ post) \<and> r' = rd_advance (length (wire v)) r"
    by (rule cursor_codec.exact)
  then show "get r = (Ok v, r') \<longleftrightarrow>
      valid' v \<and> (\<exists>post. rd_rest r = wire' v @ post) \<and> r' = rd_advance (length (wire' v)) r"
    using assms(2,3) by auto
qed

lemma wr_bounded_string_exact:
  "wr_bounded_string v w =
     (if length v < 2 ^ 16 then (Ok (), w @ string_wire v) else (Err HeaderInvalid, w))"
  by (simp add: wr_bounded_string_def try_from_nat_def wr_defs string_wire_def)

lemma wr_bounded_bytes_exact:
  "wr_bounded_bytes v w =
     (if length v < 2 ^ 32 then (Ok (), w @ blob_wire v) else (Err HeaderInvalid, w))"
  by (simp add: wr_bounded_bytes_def try_from_nat_def wr_defs blob_wire_def)

end
