(* ===== verification/Save_Container.thy ===== *)
theory Save_Container
  imports Save_Bytes
begin

text \<open>
  Crate \<open>ohl-save\<close>, \<open>limits.rs\<close>, \<open>header.rs\<close>, \<open>table.rs\<close> and \<open>container.rs\<close>: the save-file container.
  \<open>save_finish\<close> writes magic, version, header, section table, sections and a trailer digest;
  \<open>save_open\<close> validates all of them.  The digest (a third-party SHA-256 behind \<open>ohl-core\<close>) and the
  serializer of a section value (\<open>postcard\<close>) are parameters; of the digest the code relies on its
  width only, stated as \<open>digest_width\<close>.
\<close>


section \<open>Limits and header\<close>

record Limits =
  lim_max_sections :: u32
  lim_max_section_bytes :: u64
  lim_max_file_bytes :: u64

definition limits_default :: Limits where
  "limits_default = \<lparr>lim_max_sections = 256, lim_max_section_bytes = 64 * 1024 * 1024,
     lim_max_file_bytes = 256 * 1024 * 1024\<rparr>"

definition MAX_GAME_VERSION_LEN :: nat where "MAX_GAME_VERSION_LEN = 64"
definition MAX_MAP_IDENTITY_LEN :: nat where "MAX_MAP_IDENTITY_LEN = 128"
definition MAX_TITLE_LEN :: nat where "MAX_TITLE_LEN = 128"
definition MAX_THUMBNAIL_LEN :: nat where "MAX_THUMBNAIL_LEN = 65536"

lemmas header_limits = MAX_GAME_VERSION_LEN_def MAX_MAP_IDENTITY_LEN_def MAX_TITLE_LEN_def
  MAX_THUMBNAIL_LEN_def

record Header =
  hd_game_version :: bytes
  hd_created_at_unix_secs :: u64
  hd_map_identity :: bytes
  hd_title :: bytes
  hd_thumbnail :: bytes

definition header_validate :: "Header \<Rightarrow> (SaveError, unit) result" where
  "header_validate h =
     (if length (hd_game_version h) > MAX_GAME_VERSION_LEN
         \<or> length (hd_map_identity h) > MAX_MAP_IDENTITY_LEN
         \<or> length (hd_title h) > MAX_TITLE_LEN
         \<or> length (hd_thumbnail h) > MAX_THUMBNAIL_LEN
      then Err HeaderInvalid else Ok ())"

definition header_encode :: "Header \<Rightarrow> (bytes, SaveError, unit) stm" where
  "header_encode h =
     st_bind (st_lift (header_validate h)) (\<lambda>_.
     st_bind (wr_bounded_string (hd_game_version h)) (\<lambda>_ w.
     st_bind (wr_bounded_string (hd_map_identity h)) (\<lambda>_.
     st_bind (wr_bounded_string (hd_title h)) (\<lambda>_.
     wr_bounded_bytes (hd_thumbnail h)))
       (wr_u64 (hd_created_at_unix_secs h) w)))"

definition header_decode :: "(Reader, SaveError, Header) stm" where
  "header_decode =
     st_bind (rd_bounded_string MAX_GAME_VERSION_LEN) (\<lambda>game_version.
     st_bind rd_u64 (\<lambda>created_at_unix_secs.
     st_bind (rd_bounded_string MAX_MAP_IDENTITY_LEN) (\<lambda>map_identity.
     st_bind (rd_bounded_string MAX_TITLE_LEN) (\<lambda>title.
     st_bind (rd_bounded_bytes MAX_THUMBNAIL_LEN) (\<lambda>thumbnail.
     st_return \<lparr>hd_game_version = game_version, hd_created_at_unix_secs = created_at_unix_secs,
       hd_map_identity = map_identity, hd_title = title, hd_thumbnail = thumbnail\<rparr>)))))"


section \<open>The section table\<close>

definition ENTRY_LEN :: nat where "ENTRY_LEN = 4 + 8 + 8 + 32"

record SectionEntry =
  sec_tag :: u32
  sec_offset :: u64
  sec_length :: u64
  sec_sha256 :: bytes

definition section_entry_encode :: "SectionEntry \<Rightarrow> bytes \<Rightarrow> bytes" where
  "section_entry_encode e w =
     wr_array32 (sec_sha256 e) (wr_u64 (sec_length e) (wr_u64 (sec_offset e) (wr_u32 (sec_tag e) w)))"

definition section_entry_decode :: "(Reader, SaveError, SectionEntry) stm" where
  "section_entry_decode =
     st_bind rd_u32 (\<lambda>tag.
     st_bind rd_u64 (\<lambda>offset.
     st_bind rd_u64 (\<lambda>len.
     st_bind rd_array32 (\<lambda>sha256.
     st_return \<lparr>sec_tag = tag, sec_offset = offset, sec_length = len, sec_sha256 = sha256\<rparr>))))"


section \<open>Writing a container\<close>

definition MAGIC :: bytes where "MAGIC = [0x4F, 0x48, 0x4C, 0x53, 0x41, 0x56, 0x45, 0x00]"
definition FORMAT_MAJOR :: u16 where "FORMAT_MAJOR = 1"
definition FORMAT_MINOR :: u16 where "FORMAT_MINOR = 0"
definition MIN_APPLICATION_TAG :: u32 where "MIN_APPLICATION_TAG = 16"
definition TRAILER_LEN :: nat where "TRAILER_LEN = 32"

record SaveWriter =
  sw_header :: Header
  sw_sections :: "(u32 \<times> bytes) list"

definition save_begin :: "Header \<Rightarrow> SaveWriter" where
  "save_begin h = \<lparr>sw_header = h, sw_sections = []\<rparr>"

definition add_section :: "u32 \<Rightarrow> bytes \<Rightarrow> (SaveWriter, SaveError, unit) stm" where
  "add_section tag bs sw =
     (if tag < MIN_APPLICATION_TAG then (Err ReservedTag, sw)
      else if list_ex (\<lambda>(existing, _). existing = tag) (sw_sections sw) then (Err DuplicateTag, sw)
      else (Ok (), sw\<lparr>sw_sections := sw_sections sw @ [(tag, bs)]\<rparr>))"

definition add_section_serde :: "('v \<Rightarrow> bytes option) \<Rightarrow> u32 \<Rightarrow> 'v \<Rightarrow> (SaveWriter, SaveError, unit) stm" where
  "add_section_serde to_allocvec tag value =
     st_bind (st_lift (ok_or Codec (to_allocvec value))) (\<lambda>bs. add_section tag bs)"

text \<open>The loops of \<open>finish\<close>: section sizes, table layout, and the two loops that write.\<close>

fun check_section_sizes :: "Limits \<Rightarrow> (u32 \<times> bytes) list \<Rightarrow> (SaveError, unit) result" where
  "check_section_sizes limits [] = Ok ()"
| "check_section_sizes limits ((_, bs) # rest) =
     and_then (ok_or LimitExceeded (try_from_nat (length bs) :: u64 option)) (\<lambda>len.
     if len > lim_max_section_bytes limits then Err LimitExceeded
     else check_section_sizes limits rest)"

fun layout_sections :: "(bytes \<Rightarrow> bytes) \<Rightarrow> nat \<Rightarrow> (u32 \<times> bytes) list \<Rightarrow> (SaveError, SectionEntry list) result" where
  "layout_sections digest offset [] = Ok []"
| "layout_sections digest offset ((tag, bs) # rest) =
     and_then (ok_or LimitExceeded (try_from_nat offset)) (\<lambda>offset_u64.
     and_then (ok_or LimitExceeded (try_from_nat (length bs))) (\<lambda>length_u64.
     and_then (ok_or LimitExceeded (usize_add offset (length bs))) (\<lambda>next_offset.
     and_then (layout_sections digest next_offset rest) (\<lambda>entries.
     Ok (\<lparr>sec_tag = tag, sec_offset = offset_u64, sec_length = length_u64,
          sec_sha256 = digest bs\<rparr> # entries)))))"

definition save_finish :: "(bytes \<Rightarrow> bytes) \<Rightarrow> Limits \<Rightarrow> SaveWriter \<Rightarrow> (SaveError, bytes) result" where
  "save_finish digest limits sw =
     (let sections = sw_sections sw; section_count = length sections in
      and_then (ok_or LimitExceeded (try_from_nat section_count :: u32 option)) (\<lambda>section_count_u32.
      if section_count_u32 > lim_max_sections limits then Err LimitExceeded
      else
      and_then (check_section_sizes limits sections) (\<lambda>_.
      let w = wr_u16 FORMAT_MINOR (wr_u16 FORMAT_MAJOR (wr_raw MAGIC [])) in
      case header_encode (sw_header sw) w of
        (Err e, _) \<Rightarrow> Err e
      | (Ok _, w) \<Rightarrow>
          let w = wr_u32 section_count_u32 w; header_end = length w in
          and_then (ok_or LimitExceeded (usize_mul section_count ENTRY_LEN)) (\<lambda>table_len.
          and_then (ok_or LimitExceeded (usize_add header_end table_len)) (\<lambda>data_start.
          and_then (layout_sections digest data_start sections) (\<lambda>entries.
          let w = fold section_entry_encode entries w;
              w = fold (\<lambda>(_, bs). wr_raw bs) sections w in
          and_then (ok_or LimitExceeded (usize_add (length w) TRAILER_LEN)) (\<lambda>total_len.
          and_then (ok_or LimitExceeded (try_from_nat total_len :: u64 option)) (\<lambda>total_len_u64.
          if total_len_u64 > lim_max_file_bytes limits then Err LimitExceeded
          else Ok (wr_array32 (digest w) w))))))))) "


section \<open>Opening a container\<close>

record SaveReader =
  sr_header :: Header
  sr_entries :: "SectionEntry list"
  sr_bytes :: bytes
  sr_unknown_section_count :: u32
  sr_format_minor :: u16

fun decode_section_entries :: "nat \<Rightarrow> (Reader, SaveError, SectionEntry list) stm" where
  "decode_section_entries 0 = st_return []"
| "decode_section_entries (Suc n) =
     st_bind section_entry_decode (\<lambda>e.
     st_bind (decode_section_entries n) (\<lambda>es.
     st_return (e # es)))"

definition check_section_entry ::
  "(bytes \<Rightarrow> bytes) \<Rightarrow> Limits \<Rightarrow> bytes \<Rightarrow> u64 \<Rightarrow> u64 \<Rightarrow> SectionEntry \<Rightarrow> (SaveError, unit) result" where
  "check_section_entry digest limits bs data_start content_len e =
     (if sec_length e > lim_max_section_bytes limits then Err LimitExceeded
      else if sec_offset e < data_start then Err TableInvalid
      else
        and_then (map_err save_error_from_sanitized (checked_add_bounded (sec_offset e) (sec_length e)))
        (\<lambda>section_end.
        if section_end > content_len then Err TableInvalid
        else
          and_then (ok_or TableInvalid (slice_get (unat (sec_offset e)) (unat section_end) bs)) (\<lambda>chunk.
          if digest chunk \<noteq> sec_sha256 e then Err SectionDigestMismatch else Ok ())))"

fun check_section_entries ::
  "(bytes \<Rightarrow> bytes) \<Rightarrow> Limits \<Rightarrow> bytes \<Rightarrow> u64 \<Rightarrow> u64 \<Rightarrow> u32 list \<Rightarrow> u32 \<Rightarrow> SectionEntry list \<Rightarrow>
     (SaveError, u32) result" where
  "check_section_entries digest limits bs data_start content_len seen unknown [] = Ok unknown"
| "check_section_entries digest limits bs data_start content_len seen unknown (e # es) =
     (if sec_tag e \<in> set seen then Err TableInvalid
      else
        and_then (check_section_entry digest limits bs data_start content_len e) (\<lambda>_.
        check_section_entries digest limits bs data_start content_len (seen @ [sec_tag e])
          (if sec_tag e < MIN_APPLICATION_TAG then saturating_add unknown 1 else unknown) es))"

text \<open>The part of \<open>open\<close> that moves the cursor: magic, version, header, count and table.\<close>

definition open_table :: "Limits \<Rightarrow> (Reader, SaveError, u16 \<times> Header \<times> SectionEntry list) stm" where
  "open_table limits =
     st_bind (rd_take (length MAGIC)) (\<lambda>magic.
     if magic \<noteq> MAGIC then st_fail BadMagic
     else
       st_bind rd_u16 (\<lambda>major.
       st_bind rd_u16 (\<lambda>minor.
       if major \<noteq> FORMAT_MAJOR then st_fail UnsupportedMajorVersion
       else
         st_bind header_decode (\<lambda>header.
         st_bind rd_u32 (\<lambda>section_count_u32.
         if section_count_u32 > lim_max_sections limits then st_fail LimitExceeded
         else
           st_bind (decode_section_entries (unat section_count_u32)) (\<lambda>entries.
           st_return (minor, header, entries)))))))"

definition save_open :: "(bytes \<Rightarrow> bytes) \<Rightarrow> bytes \<Rightarrow> Limits \<Rightarrow> (SaveError, SaveReader) result" where
  "save_open digest bs limits =
     (let file_len = length bs in
      and_then (ok_or LimitExceeded (try_from_nat file_len :: u64 option)) (\<lambda>file_len_u64.
      if file_len_u64 > lim_max_file_bytes limits then Err LimitExceeded
      else if file_len < TRAILER_LEN then Err Truncated
      else
        let content_len = file_len - TRAILER_LEN in
        and_then (ok_or LimitExceeded (try_from_nat content_len)) (\<lambda>content_len_u64.
        case open_table limits (reader_new bs) of
          (Err e, _) \<Rightarrow> Err e
        | (Ok (minor, header, entries), r) \<Rightarrow>
            and_then (ok_or LimitExceeded (try_from_nat (rd_position r))) (\<lambda>data_start_u64.
            and_then (check_section_entries digest limits bs data_start_u64 content_len_u64 [] 0 entries)
            (\<lambda>unknown_section_count.
            if drop content_len bs \<noteq> digest (take content_len bs) then Err TrailerMismatch
            else Ok \<lparr>sr_header = header, sr_entries = entries, sr_bytes = bs,
                     sr_unknown_section_count = unknown_section_count, sr_format_minor = minor\<rparr>)))))"

definition save_find :: "SaveReader \<Rightarrow> u32 \<Rightarrow> (SaveError, SectionEntry) result" where
  "save_find r tag = ok_or SectionNotFound (find (\<lambda>e. sec_tag e = tag) (sr_entries r))"

definition save_section :: "SaveReader \<Rightarrow> u32 \<Rightarrow> (SaveError, bytes) result" where
  "save_section r tag =
     and_then (save_find r tag) (\<lambda>e.
     and_then (map_err save_error_from_sanitized (checked_add_bounded (sec_offset e) (sec_length e)))
     (\<lambda>section_end.
     ok_or TableInvalid (slice_get (unat (sec_offset e)) (unat section_end) (sr_bytes r))))"

definition save_deserialize ::
  "(bytes \<Rightarrow> ('v \<times> bytes) option) \<Rightarrow> SaveReader \<Rightarrow> u32 \<Rightarrow> (SaveError, 'v) result" where
  "save_deserialize take_from_bytes r tag =
     and_then (save_section r tag) (\<lambda>bs.
     and_then (ok_or Codec (take_from_bytes bs)) (\<lambda>(value, rest).
     if rest = [] then Ok value else Err Codec))"


section \<open>Specification\<close>

definition digest_width :: "(bytes \<Rightarrow> bytes) \<Rightarrow> bool" where
  "digest_width digest \<longleftrightarrow> (\<forall>bs. length (digest bs) = 32)"

definition header_fits :: "Header \<Rightarrow> bool" where
  "header_fits h \<longleftrightarrow> length (hd_game_version h) \<le> MAX_GAME_VERSION_LEN \<and>
     length (hd_map_identity h) \<le> MAX_MAP_IDENTITY_LEN \<and> length (hd_title h) \<le> MAX_TITLE_LEN \<and>
     length (hd_thumbnail h) \<le> MAX_THUMBNAIL_LEN"

definition header_text :: "Header \<Rightarrow> bool" where
  "header_text h \<longleftrightarrow>
     from_utf8_ok (hd_game_version h) \<and> from_utf8_ok (hd_map_identity h) \<and> from_utf8_ok (hd_title h)"

definition header_wire :: "Header \<Rightarrow> bytes" where
  "header_wire h = string_wire (hd_game_version h) @ u64_to_le (hd_created_at_unix_secs h) @
     string_wire (hd_map_identity h) @ string_wire (hd_title h) @ blob_wire (hd_thumbnail h)"

definition section_entry_wire :: "SectionEntry \<Rightarrow> bytes" where
  "section_entry_wire e =
     u32_to_le (sec_tag e) @ u64_to_le (sec_offset e) @ u64_to_le (sec_length e) @ sec_sha256 e"

definition table_wire :: "u16 \<Rightarrow> Header \<Rightarrow> SectionEntry list \<Rightarrow> bytes" where
  "table_wire minor h es = MAGIC @ u16_to_le FORMAT_MAJOR @ u16_to_le minor @ header_wire h @
     u32_to_le (of_nat (length es)) @ concat (map section_entry_wire es)"

text \<open>The bytes a table row names, in exact arithmetic.\<close>

definition section_bytes :: "bytes \<Rightarrow> SectionEntry \<Rightarrow> bytes" where
  "section_bytes bs e = take (unat (sec_length e)) (drop (unat (sec_offset e)) bs)"

definition section_ok :: "(bytes \<Rightarrow> bytes) \<Rightarrow> Limits \<Rightarrow> bytes \<Rightarrow> nat \<Rightarrow> SectionEntry \<Rightarrow> bool" where
  "section_ok digest limits bs data_start e \<longleftrightarrow>
     unat (sec_length e) \<le> unat (lim_max_section_bytes limits) \<and>
     data_start \<le> unat (sec_offset e) \<and>
     unat (sec_offset e) + unat (sec_length e) \<le> length bs - TRAILER_LEN \<and>
     digest (section_bytes bs e) = sec_sha256 e"


section \<open>Encoders and decoders of the fixed parts\<close>

interpretation entry_field: cursor_codec section_entry_decode section_entry_wire "\<lambda>e. length (sec_sha256 e) = 32"
  unfolding section_entry_decode_def
  apply (rule codec_cong)
    apply (rule codec_bind[where p = sec_tag], rule u32_field.cursor_codec_axioms)
     apply (rule codec_bind[where p = sec_offset], rule u64_field.cursor_codec_axioms)
      apply (rule codec_bind[where p = sec_length], rule u64_field.cursor_codec_axioms)
       apply (rule codec_bind[where p = sec_sha256], rule array32_field.cursor_codec_axioms, rule codec_return)
       apply (auto simp: section_entry_wire_def)
    apply (metis SectionEntry.select_convs)+
  done

interpretation header_field: cursor_codec header_decode header_wire "\<lambda>h. header_fits h \<and> header_text h"
  unfolding header_decode_def
  apply (rule codec_cong)
    apply (rule codec_bind[where p = hd_game_version], rule rd_bounded_string_codec, simp add: header_limits)
     apply (rule codec_bind[where p = hd_created_at_unix_secs], rule u64_field.cursor_codec_axioms)
      apply (rule codec_bind[where p = hd_map_identity], rule rd_bounded_string_codec, simp add: header_limits)
       apply (rule codec_bind[where p = hd_title], rule rd_bounded_string_codec, simp add: header_limits)
        apply (rule codec_bind[where p = hd_thumbnail], rule rd_bounded_bytes_codec, simp add: header_limits)
         apply (rule codec_return)
        apply (auto simp: header_wire_def header_fits_def header_text_def)
     apply (metis Header.select_convs)+
  done


lemma decode_section_entries_codec:
  "cursor_codec (decode_section_entries n) (\<lambda>es. concat (map section_entry_wire es))
     (\<lambda>es. length es = n \<and> list_all (\<lambda>e. length (sec_sha256 e) = 32) es)"
proof (induction n)
  case 0
  show ?case
    unfolding decode_section_entries.simps by (rule codec_cong[OF codec_return]) auto
next
  case (Suc n)
  have inner: "cursor_codec (st_bind (decode_section_entries n) (\<lambda>es. st_return (e # es)))
      (\<lambda>v. concat (map section_entry_wire (tl v)) @ [])
      (\<lambda>v. (length (tl v) = n \<and> list_all (\<lambda>e. length (sec_sha256 e) = 32) (tl v)) \<and> v = e # tl v)" for e
    by (rule codec_bind[OF Suc.IH codec_return]) auto
  show ?case
    unfolding decode_section_entries.simps
  proof (rule codec_cong[OF codec_bind[where p = hd, OF entry_field.cursor_codec_axioms inner]], goal_cases)
    case (1 a v) then show ?case by (cases v) auto
  next
    case (2 v) then show ?case by (cases v) auto
  next
    case (3 v) then show ?case by (cases v) auto
  qed
qed

lemma concat_entry_wire_length:
  "list_all (\<lambda>e. length (sec_sha256 e) = 32) es \<Longrightarrow>
     length (concat (map section_entry_wire es)) = length es * ENTRY_LEN"
  by (induction es) (auto simp: section_entry_wire_def ENTRY_LEN_def)

lemma open_table_codec:
  "cursor_codec (open_table limits) (\<lambda>(minor, h, es). table_wire minor h es)
     (\<lambda>(minor, h, es). header_fits h \<and> header_text h \<and> length es \<le> unat (lim_max_sections limits) \<and>
        list_all (\<lambda>e. length (sec_sha256 e) = 32) es)"
  unfolding open_table_def
  apply (rule codec_cong)
    apply (rule codec_bind[where p = "\<lambda>_. MAGIC"], rule rd_take_codec)
     apply (rule codec_guard)
     apply (rule codec_bind[where p = "\<lambda>_. FORMAT_MAJOR"], rule u16_field.cursor_codec_axioms)
      apply (rule codec_bind[where p = fst], rule u16_field.cursor_codec_axioms)
       apply (rule codec_guard)
       apply (rule codec_bind[where p = "\<lambda>v. fst (snd v)"], rule header_field.cursor_codec_axioms)
        apply (rule codec_bind[where p = "\<lambda>v. of_nat (length (snd (snd v)))"], rule u32_field.cursor_codec_axioms)
         apply (rule codec_guard)
         apply (rule codec_bind[where p = "\<lambda>v. snd (snd v)"], rule decode_section_entries_codec, rule codec_return)
         apply (insert unat_less_pow[of "lim_max_sections limits"])
         apply (auto simp: table_wire_def word_le_nat_alt not_less unat_of_nat)
  done

lemma header_encode_exact:
  "header_encode h w =
     (if header_fits h then (Ok (), w @ header_wire h) else (Err HeaderInvalid, w))"
  by (auto simp: header_encode_def header_validate_def header_fits_def header_wire_def st_bind_def
      wr_bounded_string_exact wr_bounded_bytes_exact wr_u64_def header_limits)

lemma fold_section_entry_encode:
  "fold section_entry_encode es w = w @ concat (map section_entry_wire es)"
  by (induction es arbitrary: w) (auto simp: section_entry_encode_def section_entry_wire_def wr_defs)

lemma fold_write_sections: "fold (\<lambda>(_, bs). wr_raw bs) secs w = w @ concat (map snd secs)"
  by (induction secs arbitrary: w) (auto simp: wr_defs)



section \<open>What the writer produces\<close>

text \<open>The layout in exact arithmetic, and the whole file.\<close>

fun layout_of :: "(bytes \<Rightarrow> bytes) \<Rightarrow> nat \<Rightarrow> (u32 \<times> bytes) list \<Rightarrow> SectionEntry list" where
  "layout_of digest offset [] = []"
| "layout_of digest offset ((tag, bs) # rest) =
     \<lparr>sec_tag = tag, sec_offset = of_nat offset, sec_length = of_nat (length bs), sec_sha256 = digest bs\<rparr>
       # layout_of digest (offset + length bs) rest"

definition data_start_of :: "SaveWriter \<Rightarrow> nat" where
  "data_start_of sw = 16 + length (header_wire (sw_header sw)) + length (sw_sections sw) * ENTRY_LEN"

definition save_entries :: "(bytes \<Rightarrow> bytes) \<Rightarrow> SaveWriter \<Rightarrow> SectionEntry list" where
  "save_entries digest sw = layout_of digest (data_start_of sw) (sw_sections sw)"

definition save_body :: "(bytes \<Rightarrow> bytes) \<Rightarrow> SaveWriter \<Rightarrow> bytes" where
  "save_body digest sw = table_wire FORMAT_MINOR (sw_header sw) (save_entries digest sw) @
     concat (map snd (sw_sections sw))"

definition save_image :: "(bytes \<Rightarrow> bytes) \<Rightarrow> SaveWriter \<Rightarrow> bytes" where
  "save_image digest sw = save_body digest sw @ digest (save_body digest sw)"

definition save_size :: "SaveWriter \<Rightarrow> nat" where
  "save_size sw = data_start_of sw + length (concat (map snd (sw_sections sw))) + TRAILER_LEN"

lemma length_layout_of [simp]: "length (layout_of digest offset secs) = length secs"
  by (induction digest offset secs rule: layout_of.induct) auto

lemma layout_of_tags [simp]: "map sec_tag (layout_of digest offset secs) = map fst secs"
  by (induction digest offset secs rule: layout_of.induct) auto

lemma layout_of_width:
  "digest_width digest \<Longrightarrow> list_all (\<lambda>e. length (sec_sha256 e) = 32) (layout_of digest offset secs)"
  by (induction digest offset secs rule: layout_of.induct) (auto simp: digest_width_def)

lemma length_table_wire:
  "list_all (\<lambda>e. length (sec_sha256 e) = 32) es \<Longrightarrow>
     length (table_wire minor h es) = 16 + length (header_wire h) + length es * ENTRY_LEN"
  by (simp add: table_wire_def concat_entry_wire_length MAGIC_def)

lemma length_save_body:
  "digest_width digest \<Longrightarrow> length (save_body digest sw) + TRAILER_LEN = save_size sw"
  by (simp add: save_body_def length_table_wire save_entries_def layout_of_width save_size_def data_start_of_def)

lemma length_save_image: "digest_width digest \<Longrightarrow> length (save_image digest sw) = save_size sw"
  using length_save_body[of digest sw] by (simp add: save_image_def digest_width_def TRAILER_LEN_def)

lemma layout_sections_exact:
  "offset < 2 ^ 64 \<Longrightarrow> layout_sections digest offset secs =
     (if offset + length (concat (map snd secs)) < 2 ^ 64 then Ok (layout_of digest offset secs)
      else Err LimitExceeded)"
proof (induction secs arbitrary: offset)
  case (Cons sec rest)
  obtain tag bs where sec: "sec = (tag, bs)" by (cases sec)
  show ?case
    using Cons.IH[of "offset + length bs"] Cons.prems
    by (cases "offset + length bs < 2 ^ 64") (auto simp: sec try_from_nat_def usize_add_def)
qed simp

lemma check_section_sizes_exact:
  "check_section_sizes limits secs =
     (if list_all (\<lambda>s. length (snd s) \<le> unat (lim_max_section_bytes limits)) secs then Ok ()
      else Err LimitExceeded)"
proof (induction secs)
  case (Cons sec rest)
  have "unat (lim_max_section_bytes limits) < 2 ^ 64"
    using unat_less_pow[of "lim_max_section_bytes limits"] by simp
  with Cons.IH show ?case
    by (cases sec, cases "length (snd sec) < 2 ^ 64") (auto simp: try_from_nat_def less_of_nat_iff)
qed simp

lemma length_MAGIC [simp]: "length MAGIC = 8"
  by (simp add: MAGIC_def)

lemma count_u32_within:
  fixes m :: u32
  shows "(case try_from_nat n of None \<Rightarrow> False | Some w \<Rightarrow> w \<le> m) \<longleftrightarrow> n \<le> unat m"
  using unat_less_pow[of m] by (auto simp: try_from_nat_def word_le_nat_alt unat_of_nat)

lemma size_u64_within:
  fixes m :: u64
  shows "n \<le> unat m \<longleftrightarrow> n < 2 ^ 64 \<and> of_nat n \<le> m"
  using unat_less_pow[of m] by (auto simp: word_le_nat_alt unat_of_nat)

lemma save_finish_image:
  assumes width: "digest_width digest"
    and count: "length (sw_sections sw) \<le> unat (lim_max_sections limits)"
    and sizes: "list_all (\<lambda>s. length (snd s) \<le> unat (lim_max_section_bytes limits)) (sw_sections sw)"
    and header: "header_fits (sw_header sw)"
  shows "save_finish digest limits sw =
    (if save_size sw \<le> unat (lim_max_file_bytes limits) then Ok (save_image digest sw) else Err LimitExceeded)"
proof -
  let ?n = "length (sw_sections sw)"
  let ?data = "length (concat (map snd (sw_sections sw)))"
  have n: "?n < 2 ^ 32" using count unat_less_pow[of "lim_max_sections limits"] by simp
  have hw: "length (header_wire (sw_header sw)) < 2 ^ 20"
    using header by (simp add: header_fits_def header_wire_def string_wire_def blob_wire_def header_limits)
  have ds: "data_start_of sw < 2 ^ 64"
    using n hw by (simp add: data_start_of_def ENTRY_LEN_def)
  have few: "\<not> lim_max_sections limits < of_nat ?n"
    using n count by (simp add: not_less word_le_nat_alt unat_of_nat)
  have mul: "usize_mul ?n ENTRY_LEN = Some (?n * ENTRY_LEN)"
    using n by (simp add: usize_mul_def ENTRY_LEN_def)
  have w: "length (MAGIC @ u16_to_le FORMAT_MAJOR @ u16_to_le FORMAT_MINOR @ header_wire (sw_header sw) @
      u32_to_le (of_nat ?n)) + ?n * ENTRY_LEN = data_start_of sw"
    by (simp add: data_start_of_def MAGIC_def)
  have add: "usize_add (length (MAGIC @ u16_to_le FORMAT_MAJOR @ u16_to_le FORMAT_MINOR @
      header_wire (sw_header sw) @ u32_to_le (of_nat ?n))) (?n * ENTRY_LEN) = Some (data_start_of sw)"
    using ds unfolding usize_add_def w by simp
  have body: "MAGIC @ u16_to_le FORMAT_MAJOR @ u16_to_le FORMAT_MINOR @ header_wire (sw_header sw) @
      u32_to_le (of_nat ?n) @ concat (map section_entry_wire (save_entries digest sw)) @
      concat (map snd (sw_sections sw)) = save_body digest sw"
    by (simp add: save_body_def table_wire_def save_entries_def)
  have finish: "save_finish digest limits sw =
     and_then (layout_sections digest (data_start_of sw) (sw_sections sw)) (\<lambda>entries.
     let w = MAGIC @ u16_to_le FORMAT_MAJOR @ u16_to_le FORMAT_MINOR @ header_wire (sw_header sw) @
        u32_to_le (of_nat ?n) @ concat (map section_entry_wire entries) @ concat (map snd (sw_sections sw)) in
     and_then (ok_or LimitExceeded (usize_add (length w) TRAILER_LEN)) (\<lambda>total_len.
     and_then (ok_or LimitExceeded (try_from_nat total_len :: u64 option)) (\<lambda>total_len_u64.
     if total_len_u64 > lim_max_file_bytes limits then Err LimitExceeded else Ok (w @ digest w))))"
    using n header sizes add
    by (simp add: save_finish_def Let_def try_from_nat_def[of ?n] few mul
        check_section_sizes_exact header_encode_exact wr_defs
        fold_section_entry_encode fold_write_sections add.assoc cong: if_cong)
  have size: "save_size sw = data_start_of sw + ?data + TRAILER_LEN" by (simp add: save_size_def)
  have limit: "unat (lim_max_file_bytes limits) < 2 ^ 64" using unat_less_pow[of "lim_max_file_bytes limits"] by simp
  show ?thesis
  proof (cases "data_start_of sw + ?data < 2 ^ 64")
    case True
    have "save_finish digest limits sw =
      and_then (ok_or LimitExceeded (usize_add (length (save_body digest sw)) TRAILER_LEN)) (\<lambda>total_len.
      and_then (ok_or LimitExceeded (try_from_nat total_len :: u64 option)) (\<lambda>total_len_u64.
      if total_len_u64 > lim_max_file_bytes limits then Err LimitExceeded
      else Ok (save_body digest sw @ digest (save_body digest sw))))"
      using True
      by (simp only: finish layout_sections_exact[OF ds] if_True and_then.simps Let_def
          save_entries_def[symmetric] body)
    then show ?thesis
      using limit length_save_body[OF width, of sw]
      by (auto simp: usize_add_def try_from_nat_def save_image_def less_of_nat_iff)
  next
    case False
    then have "\<not> save_size sw \<le> unat (lim_max_file_bytes limits)" using size limit by linarith
    with False show ?thesis by (simp add: finish layout_sections_exact[OF ds])
  qed
qed

lemma save_finish_rejects:
  "\<not> (length (sw_sections sw) \<le> unat (lim_max_sections limits) \<and>
      list_all (\<lambda>s. length (snd s) \<le> unat (lim_max_section_bytes limits)) (sw_sections sw)) \<Longrightarrow>
     save_finish digest limits sw = Err LimitExceeded"
  using count_u32_within[where n = "length (sw_sections sw)" and m = "lim_max_sections limits"]
  by (auto simp: save_finish_def check_section_sizes_exact Let_def not_le
      split: option.splits)

lemma save_finish_bad_header:
  assumes "length (sw_sections sw) \<le> unat (lim_max_sections limits)"
    "list_all (\<lambda>s. length (snd s) \<le> unat (lim_max_section_bytes limits)) (sw_sections sw)"
    "\<not> header_fits (sw_header sw)"
  shows "save_finish digest limits sw = Err HeaderInvalid"
  using assms count_u32_within[where n = "length (sw_sections sw)" and m = "lim_max_sections limits"]
  by (auto simp: save_finish_def check_section_sizes_exact Let_def header_encode_exact not_le
      split: option.splits)


section \<open>What the reader accepts\<close>

lemma check_section_entry_exact:
  assumes "length bs < 2 ^ 64" "data_start < 2 ^ 64"
  shows "check_section_entry digest limits bs (of_nat data_start) (of_nat (length bs - TRAILER_LEN)) e = Ok ()
    \<longleftrightarrow> section_ok digest limits bs data_start e"
proof -
  have content: "unat (of_nat (length bs - TRAILER_LEN) :: u64) = length bs - TRAILER_LEN"
    using assms(1) by (simp add: unat_of_nat)
  have start: "unat (of_nat data_start :: u64) = data_start" using assms(2) by (simp add: unat_of_nat)
  show ?thesis
  proof (cases "unat (sec_offset e) + unat (sec_length e) \<le> length bs - TRAILER_LEN")
    case True
    then have fits: "unat (sec_offset e) + unat (sec_length e) \<le> length bs"
        "unat (sec_offset e) + unat (sec_length e) < 2 ^ 64"
      using assms(1) by linarith+
    then have "unat (sec_offset e + sec_length e) = unat (sec_offset e) + unat (sec_length e)"
      by (simp add: unat_word_ariths)
    with True fits show ?thesis
      by (auto simp: check_section_entry_def section_ok_def section_bytes_def checked_add_bounded_def
          checked_add_def slice_get_def word_less_nat_alt content start)
  next
    case False
    then show ?thesis
      by (auto simp: check_section_entry_def section_ok_def checked_add_bounded_Ok result_simps
          word_less_nat_alt content split: if_splits)
  qed
qed

lemma check_section_entries_exact:
  assumes "length bs < 2 ^ 64" "data_start < 2 ^ 64"
  shows "unat unknown + length es < 2 ^ 32 \<Longrightarrow>
    check_section_entries digest limits bs (of_nat data_start) (of_nat (length bs - TRAILER_LEN)) seen unknown es = Ok u
    \<longleftrightarrow> distinct (map sec_tag es) \<and> set seen \<inter> set (map sec_tag es) = {} \<and>
      list_all (section_ok digest limits bs data_start) es \<and>
      u = unknown + of_nat (length (filter (\<lambda>e. sec_tag e < MIN_APPLICATION_TAG) es))"
proof (induction es arbitrary: seen unknown)
  case (Cons e es)
  have sat: "saturating_add unknown 1 = unknown + 1" "unat (unknown + 1) = unat unknown + 1"
    using Cons.prems by (simp_all add: saturating_add_def unat_word_ariths)
  define unknown' where
    "unknown' = (if sec_tag e < MIN_APPLICATION_TAG then saturating_add unknown 1 else unknown)"
  then have "unat unknown' + length es < 2 ^ 32" using Cons.prems sat by auto
  note IH = Cons.IH[OF this, of "seen @ [sec_tag e]"]
  have "unknown + of_nat (length (filter (\<lambda>e. sec_tag e < MIN_APPLICATION_TAG) (e # es))) =
      unknown' + of_nat (length (filter (\<lambda>e. sec_tag e < MIN_APPLICATION_TAG) es))"
    by (simp add: unknown'_def sat add.assoc)
  with IH show ?case
    using check_section_entry_exact[OF assms, of digest limits e]
    by (auto simp: and_then_Ok unknown'_def[symmetric] simp del: filter.simps)
qed (auto)

lemma save_open_exact_iff:
  "save_open digest bs limits = Ok r \<longleftrightarrow>
     TRAILER_LEN \<le> length bs \<and> length bs \<le> unat (lim_max_file_bytes limits) \<and> sr_bytes r = bs \<and>
     header_fits (sr_header r) \<and> header_text (sr_header r) \<and>
     length (sr_entries r) \<le> unat (lim_max_sections limits) \<and>
     list_all (\<lambda>e. length (sec_sha256 e) = 32) (sr_entries r) \<and>
     (\<exists>post. bs = table_wire (sr_format_minor r) (sr_header r) (sr_entries r) @ post) \<and>
     distinct (map sec_tag (sr_entries r)) \<and>
     list_all (section_ok digest limits bs
       (length (table_wire (sr_format_minor r) (sr_header r) (sr_entries r)))) (sr_entries r) \<and>
     unat (sr_unknown_section_count r) =
       length (filter (\<lambda>e. sec_tag e < MIN_APPLICATION_TAG) (sr_entries r)) \<and>
     drop (length bs - TRAILER_LEN) bs = digest (take (length bs - TRAILER_LEN) bs)"
  (is "_ \<longleftrightarrow> ?spec")
proof (cases "length bs \<le> unat (lim_max_file_bytes limits) \<and> TRAILER_LEN \<le> length bs")
  case False
  then show ?thesis
    using size_u64_within[of "length bs" "lim_max_file_bytes limits"]
    by (auto simp: save_open_def Let_def try_from_nat_def not_less split: if_splits)
next
  case True
  have len: "length bs < 2 ^ 64" "of_nat (length bs) \<le> lim_max_file_bytes limits"
    using True size_u64_within[of "length bs" "lim_max_file_bytes limits"] by auto
  then have good: "rd_good (reader_new bs)" and rest: "rd_rest (reader_new bs) = bs"
    by (simp_all add: rd_good_def rd_rest_def reader_new_def)
  have pos: "rd_position (reader_new bs) = 0" by (simp add: reader_new_def)
  note tab = cursor_codec.exact[OF open_table_codec good, unfolded rest]
  have few: "length es < 2 ^ 32" if "length es \<le> unat (lim_max_sections limits)" for es :: "SectionEntry list"
    using that unat_less_pow[of "lim_max_sections limits"] by simp
  have unknown: "u = of_nat (length (filter P es)) \<longleftrightarrow> unat u = length (filter P es)"
    if "length es < 2 ^ 32" for u :: u32 and P and es :: "SectionEntry list"
    using le_less_trans[OF length_filter_le[of P es] that] by (auto simp: unat_of_nat word_unat_eq_iff)
  have "save_open digest bs limits = Ok r \<longleftrightarrow> (\<exists>minor header entries c.
      open_table limits (reader_new bs) = (Ok (minor, header, entries), c) \<and>
      rd_position c < 2 ^ 64 \<and>
      check_section_entries digest limits bs (of_nat (rd_position c)) (of_nat (length bs - TRAILER_LEN)) [] 0
        entries = Ok (sr_unknown_section_count r) \<and>
      drop (length bs - TRAILER_LEN) bs = digest (take (length bs - TRAILER_LEN) bs) \<and>
      r = \<lparr>sr_header = header, sr_entries = entries, sr_bytes = bs,
           sr_unknown_section_count = sr_unknown_section_count r, sr_format_minor = minor\<rparr>)"
    using True len
    by (auto simp: save_open_def Let_def try_from_nat_def not_less and_then_Ok ok_or_Ok
        split: prod.splits result.splits if_splits)
  also have "\<dots> \<longleftrightarrow> ?spec"
    using True len(1) few unknown
      check_section_entries_exact[OF len(1), where seen = "[]" and unknown = 0 and digest = digest and limits = limits]
    by (cases r) (auto simp: tab pos)
  finally show ?thesis .
qed



section \<open>From the writer to the reader\<close>

text \<open>A caller's sequence of \<open>add_section\<close> calls.\<close>

fun add_sections :: "(u32 \<times> bytes) list \<Rightarrow> (SaveWriter, SaveError, unit) stm" where
  "add_sections [] = st_return ()"
| "add_sections ((tag, bs) # rest) = st_bind (add_section tag bs) (\<lambda>_. add_sections rest)"

lemma add_section_Ok:
  "add_section tag bs sw = (Ok u, sw') \<longleftrightarrow>
     \<not> tag < MIN_APPLICATION_TAG \<and> tag \<notin> fst ` set (sw_sections sw) \<and>
     sw' = sw\<lparr>sw_sections := sw_sections sw @ [(tag, bs)]\<rparr>"
  by (force simp: add_section_def list_ex_iff)

lemma add_sections_Ok:
  assumes "add_sections secs sw = (Ok u, sw')" "distinct (map fst (sw_sections sw))"
    "list_all (\<lambda>s. \<not> fst s < MIN_APPLICATION_TAG) (sw_sections sw)"
  shows "sw_header sw' = sw_header sw \<and> sw_sections sw' = sw_sections sw @ secs \<and>
    distinct (map fst (sw_sections sw')) \<and>
    list_all (\<lambda>s. \<not> fst s < MIN_APPLICATION_TAG) (sw_sections sw')"
  using assms
proof (induction secs arbitrary: sw)
  case (Cons sec secs)
  obtain tag bs where sec: "sec = (tag, bs)" by (cases sec)
  with Cons.prems obtain sw1 where
    "add_section tag bs sw = (Ok (), sw1)" "add_sections secs sw1 = (Ok u, sw')"
    by (auto simp: st_bind_Ok)
  with Cons.prems(2,3) Cons.IH[of sw1] sec show ?case by (clarsimp simp: add_section_Ok)
qed auto

lemma layout_of_sections:
  assumes "length pre + length (concat (map snd secs)) < 2 ^ 64"
  shows "list_all2 (\<lambda>e s. sec_tag e = fst s \<and> sec_sha256 e = digest (snd s) \<and>
      unat (sec_length e) = length (snd s) \<and> length pre \<le> unat (sec_offset e) \<and>
      unat (sec_offset e) + unat (sec_length e) \<le> length pre + length (concat (map snd secs)) \<and>
      section_bytes (pre @ concat (map snd secs) @ post) e = snd s)
    (layout_of digest (length pre) secs) secs"
  using assms
proof (induction secs arbitrary: pre)
  case (Cons sec secs)
  obtain tag bs where sec: "sec = (tag, bs)" by (cases sec)
  have "list_all2 (\<lambda>e s. sec_tag e = fst s \<and> sec_sha256 e = digest (snd s) \<and>
      unat (sec_length e) = length (snd s) \<and> length (pre @ bs) \<le> unat (sec_offset e) \<and>
      unat (sec_offset e) + unat (sec_length e) \<le> length (pre @ bs) + length (concat (map snd secs)) \<and>
      section_bytes ((pre @ bs) @ concat (map snd secs) @ post) e = snd s)
    (layout_of digest (length (pre @ bs)) secs) secs"
    using Cons.prems by (intro Cons.IH) (simp add: sec)
  then have "list_all2 (\<lambda>e s. sec_tag e = fst s \<and> sec_sha256 e = digest (snd s) \<and>
      unat (sec_length e) = length (snd s) \<and> length pre \<le> unat (sec_offset e) \<and>
      unat (sec_offset e) + unat (sec_length e) \<le> length pre + length (concat (map snd (sec # secs))) \<and>
      section_bytes (pre @ concat (map snd (sec # secs)) @ post) e = snd s)
    (layout_of digest (length (pre @ bs)) secs) secs"
    by (rule list_all2_mono) (auto simp: sec)
  moreover have "unat (of_nat (length pre) :: u64) = length pre" "unat (of_nat (length bs) :: u64) = length bs"
    using Cons.prems by (simp_all add: sec unat_of_nat)
  ultimately show ?case by (simp add: sec section_bytes_def)
qed simp

lemma find_matching:
  assumes "list_all2 (\<lambda>e s. sec_tag e = fst s \<and> P e s) es secs" "distinct (map fst secs)" "s \<in> set secs"
  shows "\<exists>e. find (\<lambda>e. sec_tag e = fst s) es = Some e \<and> P e s"
  using assms
proof (induction rule: list_all2_induct)
  case (Cons e es t secs)
  show ?case
  proof (cases "s = t")
    case True
    with Cons.hyps(1) show ?thesis by simp
  next
    case False
    with Cons.prems have s: "s \<in> set secs" by simp
    then have "fst s \<in> set (map fst secs)" by simp
    with Cons.prems have "fst s \<noteq> fst t" by (metis distinct.simps(2) list.simps(9))
    with Cons s show ?thesis by simp
  qed
qed simp


lemma save_image_opens:
  assumes width: "digest_width digest"
    and secs: "distinct (map fst (sw_sections sw))"
      "list_all (\<lambda>s. \<not> fst s < MIN_APPLICATION_TAG) (sw_sections sw)"
    and fits: "header_fits (sw_header sw)" "header_text (sw_header sw)"
      "length (sw_sections sw) \<le> unat (lim_max_sections limits)"
      "list_all (\<lambda>s. length (snd s) \<le> unat (lim_max_section_bytes limits)) (sw_sections sw)"
      "save_size sw \<le> unat (lim_max_file_bytes limits)"
  shows "save_open digest (save_image digest sw) limits =
      Ok \<lparr>sr_header = sw_header sw, sr_entries = save_entries digest sw, sr_bytes = save_image digest sw,
          sr_unknown_section_count = 0, sr_format_minor = FORMAT_MINOR\<rparr>"
    and "list_all2 (\<lambda>e s. sec_tag e = fst s \<and> section_bytes (save_image digest sw) e = snd s \<and>
        unat (sec_offset e) + unat (sec_length e) \<le> length (save_image digest sw))
      (save_entries digest sw) (sw_sections sw)"
proof -
  let ?image = "save_image digest sw" and ?es = "save_entries digest sw"
  let ?table = "table_wire FORMAT_MINOR (sw_header sw) ?es" and ?data = "concat (map snd (sw_sections sw))"
  have wide: "list_all (\<lambda>e. length (sec_sha256 e) = 32) ?es"
    by (simp add: save_entries_def layout_of_width width)
  have table: "length ?table = data_start_of sw"
    by (simp add: length_table_wire wide data_start_of_def) (simp add: save_entries_def)
  have lay: "?es = layout_of digest (length ?table) (sw_sections sw)"
    unfolding table by (rule save_entries_def)
  have image: "?image = ?table @ ?data @ digest (save_body digest sw)"
    by (simp add: save_image_def save_body_def)
  have len: "length ?image = save_size sw" by (rule length_save_image[OF width])
  have body: "length (save_body digest sw) = length ?image - TRAILER_LEN"
    using length_save_body[OF width, of sw] len by simp
  have "save_size sw < 2 ^ 64" using fits(5) unat_less_pow[of "lim_max_file_bytes limits"] by simp
  then have "length ?table + length ?data < 2 ^ 64" by (simp add: table save_size_def)
  then have layout: "list_all2 (\<lambda>e s. sec_tag e = fst s \<and> sec_sha256 e = digest (snd s) \<and>
      unat (sec_length e) = length (snd s) \<and> length ?table \<le> unat (sec_offset e) \<and>
      unat (sec_offset e) + unat (sec_length e) \<le> length ?table + length ?data \<and>
      section_bytes ?image e = snd s) ?es (sw_sections sw)"
    using layout_of_sections[of ?table "sw_sections sw" digest "digest (save_body digest sw)"]
    unfolding lay[symmetric] image[symmetric] by simp
  have within: "length ?table + length ?data = length ?image - TRAILER_LEN"
    by (simp add: len table save_size_def)
  from layout show "list_all2 (\<lambda>e s. sec_tag e = fst s \<and> section_bytes ?image e = snd s \<and>
      unat (sec_offset e) + unat (sec_length e) \<le> length ?image) ?es (sw_sections sw)"
    by (rule list_all2_mono) (use within in auto)
  have ok: "list_all (section_ok digest limits ?image (length ?table)) ?es"
    using layout fits(4) within
    by (auto simp: list_all2_conv_all_nth list_all_length section_ok_def)
  have known: "filter (\<lambda>e. sec_tag e < MIN_APPLICATION_TAG) ?es = []"
    using layout secs(2) by (auto simp: list_all2_conv_all_nth list_all_length filter_empty_conv in_set_conv_nth)
  have trailer: "drop (length ?image - TRAILER_LEN) ?image = digest (take (length ?image - TRAILER_LEN) ?image)"
    unfolding body[symmetric] by (simp add: save_image_def)
  show "save_open digest ?image limits = Ok \<lparr>sr_header = sw_header sw, sr_entries = ?es, sr_bytes = ?image,
      sr_unknown_section_count = 0, sr_format_minor = FORMAT_MINOR\<rparr>"
    unfolding save_open_exact_iff
    using fits wide ok known trailer len secs(1)
    by (simp add: image[symmetric]) (auto simp: image save_size_def save_entries_def)
qed

lemma save_section_lookup:
  assumes "find (\<lambda>e. sec_tag e = tag) (sr_entries r) = Some e"
    "unat (sec_offset e) + unat (sec_length e) \<le> length (sr_bytes r)" "length (sr_bytes r) < 2 ^ 64"
  shows "save_section r tag = Ok (section_bytes (sr_bytes r) e)"
  using assms
  by (simp add: save_section_def save_find_def checked_add_bounded_def checked_add_def slice_get_def
      section_bytes_def unat_word_ariths)



section \<open>Correctness\<close>

text \<open>
  C24: the reader's acceptance, exactly.  A byte string opens if and only if it is within the file
  limit, starts with the canonical header and table of the returned reader, every header field is
  valid text within its limit, the table is within the section limit with pairwise distinct tags,
  every section lies between the end of the table and the trailer without wrap-around and matches
  its digest, and the trailer is the digest of everything before it.
\<close>

theorem save_open_exact:
  "save_open digest bs limits = Ok r \<longleftrightarrow>
     TRAILER_LEN \<le> length bs \<and> length bs \<le> unat (lim_max_file_bytes limits) \<and> sr_bytes r = bs \<and>
     header_fits (sr_header r) \<and> header_text (sr_header r) \<and>
     length (sr_entries r) \<le> unat (lim_max_sections limits) \<and>
     list_all (\<lambda>e. length (sec_sha256 e) = 32) (sr_entries r) \<and>
     (\<exists>post. bs = table_wire (sr_format_minor r) (sr_header r) (sr_entries r) @ post) \<and>
     distinct (map sec_tag (sr_entries r)) \<and>
     list_all (section_ok digest limits bs
       (length (table_wire (sr_format_minor r) (sr_header r) (sr_entries r)))) (sr_entries r) \<and>
     unat (sr_unknown_section_count r) =
       length (filter (\<lambda>e. sec_tag e < MIN_APPLICATION_TAG) (sr_entries r)) \<and>
     drop (length bs - TRAILER_LEN) bs = digest (take (length bs - TRAILER_LEN) bs)"
  by (rule save_open_exact_iff)

text \<open>
  C25: a file that was written opens under the same limits, with the same header, the sections in
  the order they were added and no unknown one, and every section reads back as it was added.
\<close>

theorem save_roundtrip:
  assumes "digest_width digest" and "header_text h"
    and "add_sections secs (save_begin h) = (Ok (), sw)"
    and "save_finish digest limits sw = Ok bs"
  shows "\<exists>r. save_open digest bs limits = Ok r \<and> sr_header r = h \<and>
    map sec_tag (sr_entries r) = map fst secs \<and> sr_unknown_section_count r = 0 \<and>
    list_all (\<lambda>(tag, b). save_section r tag = Ok b) secs"
proof -
  have sw: "sw_header sw = h" "sw_sections sw = secs" "distinct (map fst secs)"
      "list_all (\<lambda>s. \<not> fst s < MIN_APPLICATION_TAG) secs"
    using add_sections_Ok[OF assms(3)] by (auto simp: save_begin_def)
  have fits: "length secs \<le> unat (lim_max_sections limits)"
      "list_all (\<lambda>s. length (snd s) \<le> unat (lim_max_section_bytes limits)) secs" "header_fits h"
    using assms(4) save_finish_rejects[of sw limits digest] save_finish_bad_header[of sw limits digest]
    by (auto simp: sw)
  then have size: "save_size sw \<le> unat (lim_max_file_bytes limits)" and bs: "bs = save_image digest sw"
    using assms(4) save_finish_image[OF assms(1), of sw limits] by (auto simp: sw split: if_splits)
  define r where "r = \<lparr>sr_header = h, sr_entries = save_entries digest sw, sr_bytes = bs,
    sr_unknown_section_count = 0, sr_format_minor = FORMAT_MINOR\<rparr>"
  have opens: "save_open digest bs limits = Ok r"
    and layout: "list_all2 (\<lambda>e s. sec_tag e = fst s \<and> section_bytes bs e = snd s \<and>
      unat (sec_offset e) + unat (sec_length e) \<le> length bs) (save_entries digest sw) secs"
    using save_image_opens[OF assms(1), of sw limits] sw fits size assms(2) by (simp_all add: bs r_def)
  have len: "length bs < 2 ^ 64"
    using size unat_less_pow[of "lim_max_file_bytes limits"] by (simp add: bs length_save_image[OF assms(1)])
  have "save_section r (fst s) = Ok (snd s)" if s: "s \<in> set secs" for s
  proof -
    obtain e where "find (\<lambda>e. sec_tag e = fst s) (save_entries digest sw) = Some e" "section_bytes bs e = snd s"
        "unat (sec_offset e) + unat (sec_length e) \<le> length bs"
      using find_matching[OF layout sw(3) s] by blast
    then show ?thesis using save_section_lookup[of "fst s" r e] len by (simp add: r_def)
  qed
  then have "list_all (\<lambda>(tag, b). save_section r tag = Ok b) secs" by (auto simp: list_all_iff)
  with opens show ?thesis by (intro exI[of _ r]) (simp add: r_def save_entries_def sw)
qed

definition demo_digest :: "bytes \<Rightarrow> bytes" where
  "demo_digest bs = replicate 32 (of_nat (length bs))"

definition demo_header :: Header where
  "demo_header = \<lparr>hd_game_version = [0x31], hd_created_at_unix_secs = 42, hd_map_identity = [0x61],
     hd_title = [0xC3, 0xA9], hd_thumbnail = []\<rparr>"

definition demo_writer :: SaveWriter where
  "demo_writer = \<lparr>sw_header = demo_header, sw_sections = [(16, [1, 2, 3]), (17, [])]\<rparr>"

lemma demo_digest_width: "digest_width demo_digest"
  by (simp add: digest_width_def demo_digest_def)

lemma demo_header_ok: "header_text demo_header" "header_fits demo_header"
  by (simp_all add: demo_header_def header_text_def header_fits_def header_limits utf8_tail_def)

lemma demo_writer_added: "add_sections [(16, [1, 2, 3]), (17, [])] (save_begin demo_header) = (Ok (), demo_writer)"
  by (simp add: add_section_def save_begin_def demo_writer_def st_bind_def MIN_APPLICATION_TAG_def)

lemma demo_writer_finished:
  "save_finish demo_digest limits_default demo_writer = Ok (save_image demo_digest demo_writer)"
  by (subst save_finish_image)
    (auto simp: demo_digest_width demo_header_ok demo_writer_def limits_default_def save_size_def data_start_of_def
      header_wire_def string_wire_def blob_wire_def demo_header_def ENTRY_LEN_def TRAILER_LEN_def header_fits_def header_limits)

theorem save_roundtrip_witness:
  "\<exists>r. save_open demo_digest (save_image demo_digest demo_writer) limits_default = Ok r \<and>
     sr_header r = demo_header \<and> save_section r 16 = Ok [1, 2, 3] \<and> save_section r 17 = Ok []"
  using save_roundtrip[OF demo_digest_width demo_header_ok(1) demo_writer_added demo_writer_finished] by auto

text \<open>
  C26: the writer's outcome, exactly.  With a digest of 32 bytes, \<open>finish\<close> reports a limit when the
  section count or a section is too large, then an invalid header, then a limit when the whole file
  in exact arithmetic is too large, and otherwise returns the file image; no size computation wraps.
\<close>

theorem save_finish_exact:
  assumes "digest_width digest"
  shows "save_finish digest limits sw =
    (if \<not> (length (sw_sections sw) \<le> unat (lim_max_sections limits) \<and>
            list_all (\<lambda>s. length (snd s) \<le> unat (lim_max_section_bytes limits)) (sw_sections sw))
     then Err LimitExceeded
     else if \<not> header_fits (sw_header sw) then Err HeaderInvalid
     else if \<not> save_size sw \<le> unat (lim_max_file_bytes limits) then Err LimitExceeded
     else Ok (save_image digest sw))"
  using save_finish_rejects[of sw limits digest] save_finish_bad_header[of sw limits digest]
    save_finish_image[OF assms, of sw limits] by auto

theorem save_finish_exact_witness:
  "save_finish demo_digest limits_default demo_writer = Ok (save_image demo_digest demo_writer) \<and>
   save_finish demo_digest (limits_default\<lparr>lim_max_sections := 1\<rparr>) demo_writer = Err LimitExceeded"
proof
  show "save_finish demo_digest limits_default demo_writer = Ok (save_image demo_digest demo_writer)"
    by (rule demo_writer_finished)
  show "save_finish demo_digest (limits_default\<lparr>lim_max_sections := 1\<rparr>) demo_writer = Err LimitExceeded"
    using save_finish_exact[OF demo_digest_width, of "limits_default\<lparr>lim_max_sections := 1\<rparr>" demo_writer]
    by (simp add: demo_writer_def)
qed

text \<open>
  In an opened file every lookup is total and safe.  A tag of the table yields exactly the bytes
  its row names, which lie between the table and the trailer and match the row's digest; any other
  tag is not found; the internal error branches of \<open>section\<close> cannot be reached; and \<open>deserialize\<close>
  succeeds exactly when the codec consumes the section in full.
\<close>

theorem save_sections_total:
  assumes "save_open digest bs limits = Ok r"
  shows "(case find (\<lambda>e. sec_tag e = tag) (sr_entries r) of
      None \<Rightarrow> save_section r tag = Err SectionNotFound
    | Some e \<Rightarrow> save_section r tag = Ok (section_bytes bs e) \<and>
        length (section_bytes bs e) = unat (sec_length e) \<and>
        digest (section_bytes bs e) = sec_sha256 e \<and>
        length (table_wire (sr_format_minor r) (sr_header r) (sr_entries r)) \<le> unat (sec_offset e) \<and>
        unat (sec_offset e) + unat (sec_length e) \<le> length bs - TRAILER_LEN) \<and>
    (save_deserialize codec r tag = Ok v \<longleftrightarrow>
      (\<exists>b. save_section r tag = Ok b \<and> codec b = Some (v, [])))"
proof (rule conjI, goal_cases)
  case 1
  have bs: "sr_bytes r = bs" "length bs < 2 ^ 64"
    and ok: "list_all (section_ok digest limits bs
      (length (table_wire (sr_format_minor r) (sr_header r) (sr_entries r)))) (sr_entries r)"
    using assms unat_less_pow[of "lim_max_file_bytes limits"] by (auto simp: save_open_exact_iff)
  show ?case
  proof (cases "find (\<lambda>e. sec_tag e = tag) (sr_entries r)")
    case None
    then show ?thesis by (simp add: save_section_def save_find_def)
  next
    case (Some e)
    then have "e \<in> set (sr_entries r)" by (auto simp: find_Some_iff)
    with ok have "section_ok digest limits bs
        (length (table_wire (sr_format_minor r) (sr_header r) (sr_entries r))) e"
      by (simp add: list_all_iff)
    moreover from this have "unat (sec_offset e) + unat (sec_length e) \<le> length bs"
      unfolding section_ok_def by linarith
    ultimately show ?thesis using Some bs save_section_lookup[OF Some]
      by (simp add: section_ok_def section_bytes_def)
  qed
next
  case 2
  show ?case
    by (auto simp: save_deserialize_def result_simps split: if_splits prod.splits)
qed

theorem save_sections_total_witness:
  "\<exists>r. save_open demo_digest (save_image demo_digest demo_writer) limits_default = Ok r \<and>
     save_section r 99 = Err SectionNotFound"
proof -
  have opens: "save_open demo_digest (save_image demo_digest demo_writer) limits_default =
      Ok \<lparr>sr_header = sw_header demo_writer, sr_entries = save_entries demo_digest demo_writer,
        sr_bytes = save_image demo_digest demo_writer, sr_unknown_section_count = 0,
        sr_format_minor = FORMAT_MINOR\<rparr>" (is "_ = Ok ?r")
    by (rule save_image_opens(1))
      (auto simp: demo_digest_width demo_header_ok demo_writer_def limits_default_def save_size_def data_start_of_def
        header_wire_def string_wire_def blob_wire_def demo_header_def ENTRY_LEN_def TRAILER_LEN_def header_fits_def
        header_limits header_text_def MIN_APPLICATION_TAG_def utf8_tail_def)
  have "find (\<lambda>e. sec_tag e = 99) (sr_entries ?r) = None"
    by (simp add: save_entries_def demo_writer_def)
  with save_sections_total[OF opens, of 99 "\<lambda>_. None" "()"] opens show ?thesis by auto
qed

end
