(* ===== verification/Save_Slots.thy ===== *)
theory Save_Slots
  imports Save_Container Media_Paths
begin

text \<open>
  Crate \<open>ohl-save\<close>, \<open>slot.rs\<close>: a directory of named save files.  A directory is a map from file names
  to contents, or absent; the operations of \<open>std::fs\<close> the code calls act on it and may fail at every
  call, as told by a record of faults (a failed write may leave any prefix behind).  \<open>rename\<close> replaces
  its target in one step, which is the guarantee the module documents.
\<close>


section \<open>Slot names and file names\<close>

definition SLOT_EXTENSION :: bytes where "SLOT_EXTENSION = [0x6F, 0x68, 0x6C, 0x73, 0x61, 0x76, 0x65]"
definition MAX_SLOT_NAME_LEN :: nat where "MAX_SLOT_NAME_LEN = 64"
definition MAX_LISTED_SLOTS :: nat where "MAX_LISTED_SLOTS = 4096"

definition DASH :: u8 where "DASH = 0x2D"
definition UNDERSCORE :: u8 where "UNDERSCORE = 0x5F"

definition is_ascii_alphanumeric :: "u8 \<Rightarrow> bool" where
  "is_ascii_alphanumeric b \<longleftrightarrow>
     (0x30 \<le> b \<and> b \<le> 0x39) \<or> (0x41 \<le> b \<and> b \<le> 0x5A) \<or> (0x61 \<le> b \<and> b \<le> 0x7A)"

definition validate_slot_name :: "bytes \<Rightarrow> (SaveError, unit) result" where
  "validate_slot_name name =
     (if name = [] \<or> length name > MAX_SLOT_NAME_LEN then Err InvalidSlotName
      else if \<not> list_all (\<lambda>b. is_ascii_alphanumeric b \<or> b = DASH \<or> b = UNDERSCORE) name
           then Err InvalidSlotName
      else Ok ())"

definition slot_file_name :: "bytes \<Rightarrow> (SaveError, bytes) result" where
  "slot_file_name name =
     and_then (validate_slot_name name) (\<lambda>_. Ok (name @ [DOT] @ SLOT_EXTENSION))"

text \<open>Decimal formatting of an unsigned integer, most significant digit first.\<close>

fun format_dec :: "nat \<Rightarrow> bytes" where
  "format_dec n = (if n < 10 then [0x30 + of_nat n] else format_dec (n div 10) @ [0x30 + of_nat (n mod 10)])"

declare format_dec.simps [simp del]

definition temp_nonce :: "u32 \<Rightarrow> nat \<Rightarrow> bytes" where
  "temp_nonce process_id nanos = format_dec (unat process_id) @ [DASH] @ format_dec nanos"

definition temp_file_name :: "bytes \<Rightarrow> bytes \<Rightarrow> bytes" where
  "temp_file_name name nonce =
     [DOT] @ name @ [DOT] @ SLOT_EXTENSION @ [DOT] @ [0x74, 0x6D, 0x70, DASH] @ nonce"

text \<open>\<open>Path::extension\<close> and \<open>Path::file_stem\<close> of a directory entry.\<close>

definition rsplit_dot :: "bytes \<Rightarrow> (bytes \<times> bytes) option" where
  "rsplit_dot name =
     (if DOT \<in> set name
      then Some (rev (tl (dropWhile (\<lambda>b. b \<noteq> DOT) (rev name))), rev (takeWhile (\<lambda>b. b \<noteq> DOT) (rev name)))
      else None)"

definition path_extension :: "bytes \<Rightarrow> bytes option" where
  "path_extension name =
     (if name = [DOT, DOT] then None
      else case rsplit_dot name of
        None \<Rightarrow> None
      | Some (before, after) \<Rightarrow> if before = [] then None else Some after)"

definition path_file_stem :: "bytes \<Rightarrow> bytes option" where
  "path_file_stem name =
     (if name = [DOT, DOT] then Some name
      else case rsplit_dot name of
        None \<Rightarrow> Some name
      | Some (before, after) \<Rightarrow> if before = [] then Some name else Some before)"


section \<open>The directory\<close>

type_synonym directory = "(bytes \<Rightarrow> bytes option) option"

datatype WriteFault = WriteSucceeds | WriteRefused | WriteStops nat

record IoFaults =
  io_create_dir_fails :: bool
  io_write :: WriteFault
  io_rename_fails :: bool
  io_remove_fails :: bool

datatype IoError = IoNotFound | IoOther

definition fs_create_dir_all :: "bool \<Rightarrow> directory \<Rightarrow> bool \<times> directory" where
  "fs_create_dir_all fails d =
     (if fails then (False, d) else (True, Some (case d of None \<Rightarrow> (\<lambda>_. None) | Some m \<Rightarrow> m)))"

definition fs_write :: "WriteFault \<Rightarrow> bytes \<Rightarrow> bytes \<Rightarrow> directory \<Rightarrow> bool \<times> directory" where
  "fs_write fault name bs d =
     (case d of
        None \<Rightarrow> (False, None)
      | Some m \<Rightarrow>
          (case fault of
             WriteSucceeds \<Rightarrow> (True, Some (m(name \<mapsto> bs)))
           | WriteRefused \<Rightarrow> (False, Some m)
           | WriteStops n \<Rightarrow> (False, Some (m(name \<mapsto> take n bs)))))"

definition fs_remove_file :: "bool \<Rightarrow> bytes \<Rightarrow> directory \<Rightarrow> (IoError, unit) result \<times> directory" where
  "fs_remove_file fails name d =
     (case d of
        None \<Rightarrow> (Err IoNotFound, None)
      | Some m \<Rightarrow>
          (case m name of
             None \<Rightarrow> (Err IoNotFound, Some m)
           | Some _ \<Rightarrow> if fails then (Err IoOther, Some m) else (Ok (), Some (m(name := None)))))"

definition fs_rename :: "bool \<Rightarrow> bytes \<Rightarrow> bytes \<Rightarrow> directory \<Rightarrow> bool \<times> directory" where
  "fs_rename fails src dst d =
     (case d of
        None \<Rightarrow> (False, None)
      | Some m \<Rightarrow>
          (case m src of
             None \<Rightarrow> (False, Some m)
           | Some bs \<Rightarrow> if fails then (False, Some m) else (True, Some (m(src := None, dst \<mapsto> bs)))))"

definition fs_read :: "bool \<Rightarrow> bytes \<Rightarrow> directory \<Rightarrow> (IoError, bytes) result" where
  "fs_read fails name d =
     (case d of
        None \<Rightarrow> Err IoNotFound
      | Some m \<Rightarrow>
          (case m name of None \<Rightarrow> Err IoNotFound | Some bs \<Rightarrow> if fails then Err IoOther else Ok bs))"


section \<open>Slot operations\<close>

definition slot_write :: "IoFaults \<Rightarrow> bytes \<Rightarrow> bytes \<Rightarrow> bytes \<Rightarrow> (directory, SaveError, unit) stm" where
  "slot_write faults nonce name bs d =
     (case slot_file_name name of
        Err e \<Rightarrow> (Err e, d)
      | Ok destination \<Rightarrow>
          (case fs_create_dir_all (io_create_dir_fails faults) d of
             (False, d) \<Rightarrow> (Err Io, d)
           | (True, d) \<Rightarrow>
               let temp_path = temp_file_name name nonce in
               case fs_write (io_write faults) temp_path bs d of
                 (False, d) \<Rightarrow> (Err Io, snd (fs_remove_file (io_remove_fails faults) temp_path d))
               | (True, d) \<Rightarrow>
                   (case fs_rename (io_rename_fails faults) temp_path destination d of
                      (False, d) \<Rightarrow> (Err Io, snd (fs_remove_file (io_remove_fails faults) temp_path d))
                    | (True, d) \<Rightarrow> (Ok (), d))))"

definition slot_read :: "bool \<Rightarrow> bytes \<Rightarrow> directory \<Rightarrow> (SaveError, bytes) result" where
  "slot_read fails name d =
     and_then (slot_file_name name) (\<lambda>path.
     case fs_read fails path d of
       Ok bs \<Rightarrow> Ok bs
     | Err IoNotFound \<Rightarrow> Err SlotNotFound
     | Err IoOther \<Rightarrow> Err Io)"

definition slot_delete :: "bool \<Rightarrow> bytes \<Rightarrow> (directory, SaveError, unit) stm" where
  "slot_delete fails name d =
     (case slot_file_name name of
        Err e \<Rightarrow> (Err e, d)
      | Ok path \<Rightarrow>
          (case fs_remove_file fails path d of
             (Ok _, d) \<Rightarrow> (Ok (), d)
           | (Err IoNotFound, d) \<Rightarrow> (Err SlotNotFound, d)
           | (Err IoOther, d) \<Rightarrow> (Err Io, d)))"

record SlotListing =
  sl_name :: bytes
  sl_header :: Header

text \<open>
  \<open>list\<close> walks the entries \<open>read_dir\<close> yields, in any order; an entry may be an error (\<open>None\<close>), and
  reading a file may fail, as the predicate \<open>unreadable\<close> says.
\<close>

definition slot_of_entry ::
  "(bytes \<Rightarrow> bytes) \<Rightarrow> Limits \<Rightarrow> (bytes \<Rightarrow> bool) \<Rightarrow> directory \<Rightarrow> bytes \<Rightarrow> SlotListing option" where
  "slot_of_entry digest limits unreadable d path =
     (case path_file_stem path of
        None \<Rightarrow> None
      | Some stem \<Rightarrow>
          if \<not> from_utf8_ok stem then None
          else case validate_slot_name stem of
            Err _ \<Rightarrow> None
          | Ok _ \<Rightarrow>
              (case fs_read (unreadable path) path d of
                 Err _ \<Rightarrow> None
               | Ok bs \<Rightarrow>
                   (case save_open digest bs limits of
                      Err _ \<Rightarrow> None
                    | Ok reader \<Rightarrow> Some \<lparr>sl_name = stem, sl_header = sr_header reader\<rparr>)))"

fun list_entries ::
  "(bytes \<Rightarrow> bytes) \<Rightarrow> Limits \<Rightarrow> (bytes \<Rightarrow> bool) \<Rightarrow> directory \<Rightarrow> nat \<Rightarrow> SlotListing list \<Rightarrow>
     bytes option list \<Rightarrow> (SaveError, SlotListing list) result" where
  "list_entries digest limits unreadable d matched out [] = Ok out"
| "list_entries digest limits unreadable d matched out (None # rest) = Err Io"
| "list_entries digest limits unreadable d matched out (Some path # rest) =
     (if path_extension path \<noteq> Some SLOT_EXTENSION
      then list_entries digest limits unreadable d matched out rest
      else if matched + 1 > MAX_LISTED_SLOTS then Err LimitExceeded
      else
        case slot_of_entry digest limits unreadable d path of
          None \<Rightarrow> list_entries digest limits unreadable d (matched + 1) out rest
        | Some listing \<Rightarrow> list_entries digest limits unreadable d (matched + 1) (out @ [listing]) rest)"

definition slot_list ::
  "(bytes \<Rightarrow> bytes) \<Rightarrow> Limits \<Rightarrow> (bytes \<Rightarrow> bool) \<Rightarrow> (IoError, bytes option list) result \<Rightarrow> directory \<Rightarrow>
     (SaveError, SlotListing list) result" where
  "slot_list digest limits unreadable read_dir d =
     (case read_dir of
        Err IoNotFound \<Rightarrow> Ok []
      | Err IoOther \<Rightarrow> Err Io
      | Ok entries \<Rightarrow> list_entries digest limits unreadable d 0 [] entries)"



section \<open>Names\<close>

definition slot_char :: "u8 \<Rightarrow> bool" where
  "slot_char b \<longleftrightarrow> is_ascii_alphanumeric b \<or> b = DASH \<or> b = UNDERSCORE"

lemma slot_char_plain:
  "slot_char b \<Longrightarrow> b \<noteq> DOT \<and> b \<noteq> SLASH \<and> b \<noteq> BACKSLASH \<and> b \<noteq> 0 \<and> b < 0x80"
  by (auto simp: slot_char_def is_ascii_alphanumeric_def DASH_def UNDERSCORE_def DOT_def SLASH_def
      BACKSLASH_def word_le_nat_alt word_less_nat_alt)

lemma validate_slot_name_Ok:
  "validate_slot_name name = Ok u \<longleftrightarrow> name \<noteq> [] \<and> length name \<le> MAX_SLOT_NAME_LEN \<and> list_all slot_char name"
  by (auto simp: validate_slot_name_def slot_char_def list_all_iff)

lemma slot_file_name_Ok:
  "slot_file_name name = Ok path \<longleftrightarrow> name \<noteq> [] \<and> length name \<le> MAX_SLOT_NAME_LEN \<and>
     list_all slot_char name \<and> path = name @ [DOT] @ SLOT_EXTENSION"
  by (auto simp: slot_file_name_def and_then_Ok validate_slot_name_Ok)

lemma slot_name_no_dot: "list_all slot_char name \<Longrightarrow> DOT \<notin> set name"
  using slot_char_plain by (auto simp: list_all_iff)

lemma slot_extension_chars: "list_all slot_char SLOT_EXTENSION"
  by (simp add: SLOT_EXTENSION_def slot_char_def is_ascii_alphanumeric_def)

lemma rsplit_dot_append: "DOT \<notin> set after \<Longrightarrow> rsplit_dot (before @ DOT # after) = Some (before, after)"
proof -
  assume "DOT \<notin> set after"
  then have *: "\<And>b. b \<in> set (rev after) \<Longrightarrow> b \<noteq> DOT" by auto
  have "takeWhile (\<lambda>b. b \<noteq> DOT) (rev after @ DOT # rev before) = rev after"
    "dropWhile (\<lambda>b. b \<noteq> DOT) (rev after @ DOT # rev before) = DOT # rev before"
    using takeWhile_append2[of "rev after" "\<lambda>b. b \<noteq> DOT" "DOT # rev before", OF *]
      dropWhile_append2[of "rev after" "\<lambda>b. b \<noteq> DOT" "DOT # rev before", OF *] by simp_all
  then show ?thesis by (simp add: rsplit_dot_def)
qed

lemma rsplit_dot_Some: "rsplit_dot name = Some (before, after) \<Longrightarrow> name = before @ DOT # after"
proof -
  assume *: "rsplit_dot name = Some (before, after)"
  then have "DOT \<in> set (rev name)" by (auto simp: rsplit_dot_def split: if_splits)
  then obtain ys zs where "rev name = ys @ DOT # zs" "DOT \<notin> set ys" by (meson split_list_first)
  then have "name = rev zs @ DOT # rev ys" "DOT \<notin> set (rev ys)" by (simp_all add: rev_swap)
  then show ?thesis using * rsplit_dot_append by auto
qed

lemma path_extension_append:
  "DOT \<notin> set after \<Longrightarrow> before \<noteq> [] \<Longrightarrow> after \<noteq> [] \<Longrightarrow> path_extension (before @ DOT # after) = Some after"
  by (auto simp: path_extension_def rsplit_dot_append append_eq_Cons_conv)

lemma slot_file_extension:
  "slot_file_name name = Ok path \<Longrightarrow>
     path_extension path = Some SLOT_EXTENSION \<and> path_file_stem path = Some name"
  using slot_name_no_dot[OF slot_extension_chars]
  by (auto simp: slot_file_name_Ok path_extension_append path_file_stem_def rsplit_dot_append
      SLOT_EXTENSION_def append_eq_Cons_conv)

lemma path_extension_stem:
  assumes "path_extension path = Some ext"
  shows "\<exists>stem. path_file_stem path = Some stem \<and> stem \<noteq> [] \<and> path = stem @ [DOT] @ ext"
  using assms rsplit_dot_Some
  by (fastforce simp: path_extension_def path_file_stem_def split: if_splits option.splits prod.splits)

lemma format_dec_digits: "b \<in> set (format_dec n) \<Longrightarrow> 0x30 \<le> b \<and> b \<le> 0x39"
proof (induction n rule: format_dec.induct)
  case (1 n)
  have digit: "0x30 \<le> (0x30 + of_nat k :: u8) \<and> (0x30 + of_nat k :: u8) \<le> 0x39" if "k < 10" for k
    using that by (simp add: word_le_nat_alt unat_word_ariths unat_of_nat)
  from 1 digit[of n] digit[of "n mod 10"] show ?case
    by (subst (asm) (2) format_dec.simps) (auto split: if_splits)
qed

lemma temp_nonce_no_dot: "DOT \<notin> set (temp_nonce process_id nanos)"
  using format_dec_digits[of DOT]
  by (auto simp: temp_nonce_def DOT_def DASH_def word_le_nat_alt)

lemma temp_file_extension:
  "path_extension (temp_file_name name (temp_nonce process_id nanos)) \<noteq> Some SLOT_EXTENSION"
proof -
  let ?ext = "[0x74, 0x6D, 0x70, DASH] @ temp_nonce process_id nanos"
  have "DOT \<notin> set ?ext" using temp_nonce_no_dot by (simp add: DOT_def DASH_def)
  then have "path_extension (([DOT] @ name @ [DOT] @ SLOT_EXTENSION) @ DOT # ?ext) = Some ?ext"
    by (intro path_extension_append) auto
  then show ?thesis by (simp add: temp_file_name_def SLOT_EXTENSION_def)
qed

lemma temp_not_slot_file: "slot_file_name other = Ok path \<Longrightarrow> path \<noteq> temp_file_name name nonce"
  using slot_name_no_dot[of other] by (cases other) (auto simp: slot_file_name_Ok temp_file_name_def)

lemma from_utf8_ascii: "list_all (\<lambda>b. b < 0x80) bs \<Longrightarrow> from_utf8_ok bs"
  by (induction bs) auto

lemma slot_name_utf8: "list_all slot_char name \<Longrightarrow> from_utf8_ok name"
  using slot_char_plain by (auto simp: list_all_iff intro!: from_utf8_ascii)


section \<open>The directory as a lookup\<close>

definition dir_lookup :: "directory \<Rightarrow> bytes \<Rightarrow> bytes option" where
  "dir_lookup d name = (case d of None \<Rightarrow> None | Some m \<Rightarrow> m name)"

lemma fs_create_dir_all_lookup: "fs_create_dir_all fails d = (ok, d') \<Longrightarrow> dir_lookup d' = dir_lookup d"
  by (auto simp: fs_create_dir_all_def dir_lookup_def split: if_splits option.splits)

lemma fs_write_lookup:
  "fs_write fault name bs d = (ok, d') \<Longrightarrow> f \<noteq> name \<Longrightarrow> dir_lookup d' f = dir_lookup d f"
  "fs_write fault name bs d = (True, d') \<Longrightarrow> dir_lookup d' name = Some bs"
  by (auto simp: fs_write_def dir_lookup_def split: option.splits WriteFault.splits)

lemma fs_remove_file_lookup: "f \<noteq> name \<Longrightarrow> dir_lookup (snd (fs_remove_file fails name d)) f = dir_lookup d f"
  by (auto simp: fs_remove_file_def dir_lookup_def split: option.splits)

lemma fs_rename_lookup:
  "fs_rename fails src dst d = (True, d') \<Longrightarrow>
     dir_lookup d' f = (if f = dst then dir_lookup d src else if f = src then None else dir_lookup d f)"
  "fs_rename fails src dst d = (False, d') \<Longrightarrow> dir_lookup d' = dir_lookup d"
  by (auto simp: fs_rename_def dir_lookup_def split: option.splits if_splits)

lemma fs_read_lookup:
  "fs_read fails name d = Ok bs \<longleftrightarrow> dir_lookup d name = Some bs \<and> \<not> fails"
  by (auto simp: fs_read_def dir_lookup_def split: option.splits)



section \<open>Listing\<close>

definition valid_slot ::
  "(bytes \<Rightarrow> bytes) \<Rightarrow> Limits \<Rightarrow> (bytes \<Rightarrow> bool) \<Rightarrow> directory \<Rightarrow> SlotListing \<Rightarrow> bytes \<Rightarrow> bool" where
  "valid_slot digest limits unreadable d l path \<longleftrightarrow>
     slot_file_name (sl_name l) = Ok path \<and> \<not> unreadable path \<and>
     (\<exists>bs r. dir_lookup d path = Some bs \<and> save_open digest bs limits = Ok r \<and> sl_header l = sr_header r)"

lemma slot_of_entry_iff:
  "path_extension path = Some SLOT_EXTENSION \<and> slot_of_entry digest limits unreadable d path = Some l \<longleftrightarrow>
     valid_slot digest limits unreadable d l path"
proof
  assume *: "path_extension path = Some SLOT_EXTENSION \<and> slot_of_entry digest limits unreadable d path = Some l"
  then obtain stem where stem: "path_file_stem path = Some stem" "path = stem @ [DOT] @ SLOT_EXTENSION"
    using path_extension_stem by blast
  with * obtain u bs r where "validate_slot_name stem = Ok u" "fs_read (unreadable path) path d = Ok bs"
      "save_open digest bs limits = Ok r" "l = \<lparr>sl_name = stem, sl_header = sr_header r\<rparr>"
    by (auto simp: slot_of_entry_def split: if_splits result.splits)
  with stem show "valid_slot digest limits unreadable d l path"
    by (auto simp: valid_slot_def slot_file_name_Ok validate_slot_name_Ok fs_read_lookup)
next
  assume *: "valid_slot digest limits unreadable d l path"
  then have name: "slot_file_name (sl_name l) = Ok path" by (simp add: valid_slot_def)
  with slot_file_extension have "path_extension path = Some SLOT_EXTENSION" "path_file_stem path = Some (sl_name l)"
    by auto
  moreover have "from_utf8_ok (sl_name l)" "validate_slot_name (sl_name l) = Ok ()"
    using name slot_name_utf8 by (auto simp: slot_file_name_Ok validate_slot_name_Ok)
  moreover obtain bs r where "fs_read (unreadable path) path d = Ok bs" "save_open digest bs limits = Ok r"
      "sl_header l = sr_header r"
    using * by (auto simp: valid_slot_def fs_read_lookup)
  ultimately show "path_extension path = Some SLOT_EXTENSION \<and>
      slot_of_entry digest limits unreadable d path = Some l"
    by (simp add: slot_of_entry_def)
qed

lemma list_entries_eq:
  "list_entries digest limits unreadable d matched out (map Some names) =
     (let hits = filter (\<lambda>p. path_extension p = Some SLOT_EXTENSION) names in
      if hits = [] \<or> matched + length hits \<le> MAX_LISTED_SLOTS
      then Ok (out @ List.map_filter (slot_of_entry digest limits unreadable d) hits)
      else Err LimitExceeded)"
proof (induction names arbitrary: matched out)
  case (Cons p names)
  show ?case
  proof (cases "path_extension p = Some SLOT_EXTENSION \<and> matched + 1 \<le> MAX_LISTED_SLOTS")
    case True
    then show ?thesis
      by (cases "slot_of_entry digest limits unreadable d p") (auto simp: Cons.IH Let_def List.map_filter_simps)
  next
    case False
    then show ?thesis by (auto simp: Cons.IH Let_def)
  qed
qed (simp add: Let_def List.map_filter_simps)


section \<open>Correctness\<close>

text \<open>
  C28: a slot name cannot leave the save directory.  The file name of an accepted slot name is one
  plain path component that normalization keeps as it is, its stem is the slot name and its
  extension the save extension, so distinct slots have distinct files; and the temporary file a
  write uses is never taken for a slot.
\<close>

theorem slot_names_confined:
  assumes "slot_file_name name = Ok path"
  shows "is_single_path_component path \<and> normalize_path path = Some (SLASH # path) \<and>
    path_extension path = Some SLOT_EXTENSION \<and> path_file_stem path = Some name \<and>
    path_extension (temp_file_name name (temp_nonce process_id nanos)) \<noteq> Some SLOT_EXTENSION"
proof -
  have chars: "list_all slot_char (name @ SLOT_EXTENSION)" "name \<noteq> []" "length name \<le> 64"
      and path: "path = name @ [DOT] @ SLOT_EXTENSION"
    using assms slot_extension_chars by (auto simp: slot_file_name_Ok MAX_SLOT_NAME_LEN_def)
  have plain: "b \<noteq> 0 \<and> \<not> is_separator b" if "b \<in> set path" for b
    using that chars(1) slot_char_plain[of b]
    by (auto simp: path list_all_iff is_separator_def DOT_def SLASH_def BACKSLASH_def)
  have long: "length path > 2" "length path \<le> MAX_PATH_BYTES"
    using chars by (simp_all add: path SLOT_EXTENSION_def MAX_PATH_BYTES_def)
  have whole: "split_on P bs = [bs]" if "\<And>b. b \<in> set bs \<Longrightarrow> \<not> P b" for P and bs :: bytes
    using that by (induction bs) auto
  have "path_parts path = [path]"
    using whole[of path is_separator] plain long by (auto simp: path_parts_def)
  moreover have "plain_component path"
    using plain long by (auto simp: plain_component_def list_all_iff)
  ultimately have "normalize_path path = Some (SLASH # path)"
    using long by (simp add: normalize_path_eq canonical_def)
  moreover have "is_single_path_component path"
    using plain long by (auto simp: is_single_path_component_def is_separator_def)
  ultimately show ?thesis using slot_file_extension[OF assms] temp_file_extension by simp
qed

definition demo_slot :: bytes where "demo_slot = [0x71, 0x31]"

lemma demo_slot_file: "slot_file_name demo_slot = Ok (demo_slot @ [DOT] @ SLOT_EXTENSION)"
  by (simp add: slot_file_name_Ok demo_slot_def MAX_SLOT_NAME_LEN_def slot_char_def is_ascii_alphanumeric_def)

theorem slot_names_confined_witness:
  "is_single_path_component (demo_slot @ [DOT] @ SLOT_EXTENSION)"
  using slot_names_confined[OF demo_slot_file] by blast

text \<open>
  C29: publication is atomic.  Whatever calls of the file system fail and wherever a write stops,
  every file other than the temporary one keeps its old contents, except that the slot's file has
  the whole new contents exactly when the write reports success; then no temporary file is left and
  reading the slot returns what was written.
\<close>

theorem slot_write_atomic:
  assumes "slot_write faults nonce name bs d = (res, d')"
  shows "(f = temp_file_name name nonce \<or>
      dir_lookup d' f = (if res = Ok () \<and> slot_file_name name = Ok f then Some bs else dir_lookup d f)) \<and>
    (res = Ok () \<longrightarrow> dir_lookup d' (temp_file_name name nonce) = None \<and> slot_read False name d' = Ok bs)"
proof (cases "slot_file_name name")
  case (Err e)
  with assms show ?thesis by (auto simp: slot_write_def)
next
  case (Ok dst)
  let ?temp = "temp_file_name name nonce"
  have ne: "dst \<noteq> ?temp" by (rule temp_not_slot_file[OF Ok])
  obtain ok1 d1 where mk: "fs_create_dir_all (io_create_dir_fails faults) d = (ok1, d1)" by fastforce
  obtain ok2 d2 where wr: "fs_write (io_write faults) ?temp bs d1 = (ok2, d2)" by fastforce
  obtain ok3 d3 where mv: "fs_rename (io_rename_fails faults) ?temp dst d2 = (ok3, d3)" by fastforce
  note same = fs_create_dir_all_lookup[OF mk] fs_write_lookup(1)[OF wr]
  show ?thesis
  proof (cases "ok1 \<and> ok2 \<and> ok3")
    case True
    then have res: "res = Ok ()" "d' = d3" using assms Ok mk wr mv by (auto simp: slot_write_def)
    have new: "dir_lookup d3 g = (if g = dst then Some bs else if g = ?temp then None else dir_lookup d g)" for g
      using True wr mv fs_rename_lookup(1)[of "io_rename_fails faults" ?temp dst d2 d3 g]
        fs_write_lookup(2)[of "io_write faults" ?temp bs d1 d2] same by auto
    then have "slot_read False name d3 = Ok bs"
      using Ok fs_read_lookup[of False dst d3 bs] by (simp add: slot_read_def)
    with new ne Ok res show ?thesis by auto
  next
    case False
    then have "res = Err Io \<and> (d' = d1 \<or> d' = snd (fs_remove_file (io_remove_fails faults) ?temp d2) \<or>
        \<not> ok3 \<and> d' = snd (fs_remove_file (io_remove_fails faults) ?temp d3))"
      using assms Ok mk wr mv by (cases ok1; cases ok2; cases ok3) (auto simp: slot_write_def Let_def)
    then show ?thesis
      using same mv fs_rename_lookup(2)[of "io_rename_fails faults" ?temp dst d2 d3]
      by (cases "f = ?temp") (auto simp: fs_remove_file_lookup)
  qed
qed

theorem slot_write_atomic_witness:
  "slot_read False demo_slot
     (snd (slot_write \<lparr>io_create_dir_fails = False, io_write = WriteSucceeds, io_rename_fails = False,
        io_remove_fails = False\<rparr> (temp_nonce 7 9) demo_slot [1, 2] None)) = Ok [1, 2] \<and>
   dir_lookup
     (snd (slot_write \<lparr>io_create_dir_fails = False, io_write = WriteStops 1, io_rename_fails = False,
        io_remove_fails = True\<rparr> (temp_nonce 7 9) demo_slot [1, 2]
        (Some [demo_slot @ [DOT] @ SLOT_EXTENSION \<mapsto> [9]]))) (demo_slot @ [DOT] @ SLOT_EXTENSION) = Some [9]"
proof
  let ?f = "\<lparr>io_create_dir_fails = False, io_write = WriteSucceeds, io_rename_fails = False, io_remove_fails = False\<rparr>"
  let ?w = "slot_write ?f (temp_nonce 7 9) demo_slot [1, 2] None"
  have "fst ?w = Ok ()"
    by (simp add: slot_write_def demo_slot_file fs_create_dir_all_def fs_write_def fs_rename_def)
  moreover obtain res d where "?w = (res, d)" by fastforce
  ultimately show "slot_read False demo_slot (snd ?w) = Ok [1, 2]"
    using slot_write_atomic[of ?f "temp_nonce 7 9" demo_slot "[1, 2]" None res d "[]"] by simp
next
  let ?file = "demo_slot @ [DOT] @ SLOT_EXTENSION"
  let ?f = "\<lparr>io_create_dir_fails = False, io_write = WriteStops 1, io_rename_fails = False, io_remove_fails = True\<rparr>"
  let ?d = "Some [?file \<mapsto> [9]]"
  let ?w = "slot_write ?f (temp_nonce 7 9) demo_slot [1, 2] ?d"
  have "fst ?w = Err Io"
    by (simp add: slot_write_def demo_slot_file fs_create_dir_all_def fs_write_def Let_def)
  moreover obtain res d where "?w = (res, d)" by fastforce
  ultimately show "dir_lookup (snd ?w) ?file = Some [9]"
    using slot_write_atomic[of ?f "temp_nonce 7 9" demo_slot "[1, 2]" ?d res d ?file]
      temp_not_slot_file[OF demo_slot_file, of demo_slot "temp_nonce 7 9"] by (simp add: dir_lookup_def)
qed

text \<open>
  C30: listing is exact.  Over any order of directory entries it returns precisely the entries that
  are files of accepted slot names whose contents can be read and open, each with the header that
  opening yields; other files are skipped, and more save files than the bound is an error.
\<close>

theorem slot_list_exact:
  "case slot_list digest limits unreadable (Ok (map Some names)) d of
     Err e \<Rightarrow> e = LimitExceeded \<and>
       length (filter (\<lambda>p. path_extension p = Some SLOT_EXTENSION) names) > MAX_LISTED_SLOTS
   | Ok listings \<Rightarrow>
       length (filter (\<lambda>p. path_extension p = Some SLOT_EXTENSION) names) \<le> MAX_LISTED_SLOTS \<and>
       (l \<in> set listings \<longleftrightarrow> (\<exists>path. path \<in> set names \<and> valid_slot digest limits unreadable d l path))"
proof -
  let ?hits = "filter (\<lambda>p. path_extension p = Some SLOT_EXTENSION) names"
  have "l \<in> set (List.map_filter (slot_of_entry digest limits unreadable d) ?hits) \<longleftrightarrow>
      (\<exists>path. path \<in> set names \<and> valid_slot digest limits unreadable d l path)"
    unfolding slot_of_entry_iff[symmetric] by (force simp: List.map_filter_def)
  then show ?thesis by (auto simp: slot_list_def list_entries_eq Let_def)
qed

end
