(* ===== verification/Atomic_Directory.thy ===== *)
theory Atomic_Directory
  imports Save_Slots "HOL-Library.Sublist"
begin

text \<open>
  \<open>src/crates/ohl-platform/src/atomic_directory.rs\<close>: staging directories that are created exclusively
  and published by a rename that never replaces.

  The directory a store is rooted at is a list of nodes, each with its path below the root; the
  operations of \<open>std::fs\<close> the code calls act on it.  Every call takes one turn of a timeline, which says
  what others published at the root meanwhile, whether the call fails and with what left behind, and the
  clock.  The root is trusted, as the module requires: others only add names that are absent, and not in
  the staging namespace.  The publication modelled is the one of Linux and macOS.
\<close>


section \<open>A directory under calls that may fail\<close>

type_synonym path = "bytes list"

text \<open>
  A symbolic link leads to a directory, whose tree it carries, or to nothing; one that leads to anything
  else is an \<open>OtherNode\<close>, as a device is.
\<close>

datatype Node = FileNode bytes | DirNode | LinkNode "(bytes list \<times> Node) list option" | OtherNode

type_synonym nodes = "(path \<times> Node) list"

datatype IoErrorKind =
    KindNotFound | KindAlreadyExists | KindPermissionDenied | KindOutOfMemory | KindStorageFull | KindOther

datatype Errno = EXIST | NOTEMPTY | NOSYS | INVAL | OPNOTSUPP | NOENT | XDEV | NOMEM | NOSPC | OtherErrno

text \<open>The calls that only read, for the faults of a whole inspection.\<close>

datatype ReadCall = ReadDir path | NextEntry path | Metadata path | FileType path | ReadFile path

record FsFault =
  flt_kind :: IoErrorKind
  flt_errno :: Errno
  flt_written :: nat
  flt_removed :: "path list"

record FsTurn =
  turn_others :: "(bytes \<times> nodes) list"
  turn_fault :: "FsFault option"
  turn_reads :: "ReadCall \<Rightarrow> IoErrorKind option"
  turn_clock :: nat

record FileSystem =
  fs_nodes :: nodes
  fs_turns :: "FsTurn list"
  fs_process_id :: u32

definition calm :: FsTurn where
  "calm = \<lparr>turn_others = [], turn_fault = None, turn_reads = \<lambda>_. None, turn_clock = 0\<rparr>"

text \<open>A string literal of the source as bytes; the suffix of every staging name.\<close>

definition ascii :: "string \<Rightarrow> bytes" where
  "ascii s = map of_char s"

definition STAGING_SUFFIX :: bytes where
  "STAGING_SUFFIX = ascii ''.staging''"

definition is_staging_name :: "bytes \<Rightarrow> bool" where
  "is_staging_name name \<longleftrightarrow> suffix STAGING_SUFFIX name"

definition place :: "path \<Rightarrow> nodes \<Rightarrow> nodes \<Rightarrow> nodes" where
  "place p below ns = map (\<lambda>(q, n). (p @ q, n)) below @ filter (\<lambda>(q, n). \<not> prefix p q) ns"

fun interfere :: "(bytes \<times> nodes) list \<Rightarrow> nodes \<Rightarrow> nodes" where
  "interfere [] ns = ns"
| "interfere ((name, below) # rest) ns =
     interfere rest
       (if is_staging_name name \<or> map_of ns [name] \<noteq> None then ns else place [name] below ns)"

definition os_turn :: "FileSystem \<Rightarrow> FsTurn \<times> FileSystem" where
  "os_turn fs =
     (case fs_turns fs of
        [] \<Rightarrow> (calm, fs)
      | t # ts \<Rightarrow> (t, fs\<lparr>fs_nodes := interfere (turn_others t) (fs_nodes fs), fs_turns := ts\<rparr>))"

definition is_directory :: "nodes \<Rightarrow> path \<Rightarrow> bool" where
  "is_directory ns p \<longleftrightarrow> p = [] \<or> map_of ns p = Some DirNode"

text \<open>
  \<open>create_dir\<close> and \<open>OpenOptions::create_new\<close>: a node that must not exist, below a directory that must.
\<close>

definition os_create :: "Node \<Rightarrow> path \<Rightarrow> (FileSystem, IoErrorKind, unit) stm" where
  "os_create node p fs =
     (let (t, fs) = os_turn fs in
      case turn_fault t of
        Some fault \<Rightarrow> (Err (flt_kind fault), fs)
      | None \<Rightarrow>
          if map_of (fs_nodes fs) p \<noteq> None then (Err KindAlreadyExists, fs)
          else if \<not> is_directory (fs_nodes fs) (butlast p) then (Err KindNotFound, fs)
          else (Ok (), fs\<lparr>fs_nodes := place p [([], node)] (fs_nodes fs)\<rparr>))"

definition os_create_dir :: "path \<Rightarrow> (FileSystem, IoErrorKind, unit) stm" where
  "os_create_dir = os_create DirNode"

definition os_create_new :: "path \<Rightarrow> (FileSystem, IoErrorKind, unit) stm" where
  "os_create_new = os_create (FileNode [])"

text \<open>\<open>write_all\<close> on the handle of the file created at a path; a failed write leaves any prefix.\<close>

definition os_write_all :: "path \<Rightarrow> bytes \<Rightarrow> (FileSystem, IoErrorKind, unit) stm" where
  "os_write_all p bs fs =
     (let (t, fs) = os_turn fs;
          append = (\<lambda>part. case map_of (fs_nodes fs) p of
              Some (FileNode c) \<Rightarrow> fs\<lparr>fs_nodes := (p, FileNode (c @ part)) # fs_nodes fs\<rparr>
            | _ \<Rightarrow> fs)
      in case turn_fault t of
           Some fault \<Rightarrow> (Err (flt_kind fault), append (take (flt_written fault) bs))
         | None \<Rightarrow> (Ok (), append bs))"

text \<open>\<open>sync_all\<close> on an open handle, and \<open>File::open\<close> on a directory.\<close>

definition os_sync_all :: "(FileSystem, IoErrorKind, unit) stm" where
  "os_sync_all fs =
     (let (t, fs) = os_turn fs in
      case turn_fault t of Some fault \<Rightarrow> (Err (flt_kind fault), fs) | None \<Rightarrow> (Ok (), fs))"

definition os_open :: "path \<Rightarrow> (FileSystem, IoErrorKind, unit) stm" where
  "os_open p fs =
     (let (t, fs) = os_turn fs in
      case turn_fault t of
        Some fault \<Rightarrow> (Err (flt_kind fault), fs)
      | None \<Rightarrow>
          if p \<noteq> [] \<and> map_of (fs_nodes fs) p = None then (Err KindNotFound, fs) else (Ok (), fs))"

text \<open>
  A failed removal may have removed any part of the tree; \<open>NotFound\<close> is reported only when nothing is there.
\<close>

definition os_remove_dir_all :: "path \<Rightarrow> (FileSystem, IoErrorKind, unit) stm" where
  "os_remove_dir_all p fs =
     (let (t, fs) = os_turn fs in
      case turn_fault t of
        Some fault \<Rightarrow>
          (Err (if flt_kind fault = KindNotFound then KindOther else flt_kind fault),
           fs\<lparr>fs_nodes := filter (\<lambda>(q, n). \<not> (prefix p q \<and> q \<in> set (flt_removed fault))) (fs_nodes fs)\<rparr>)
      | None \<Rightarrow>
          if map_of (fs_nodes fs) p = None then (Err KindNotFound, fs)
          else (Ok (), fs\<lparr>fs_nodes := filter (\<lambda>(q, n). \<not> prefix p q) (fs_nodes fs)\<rparr>))"

text \<open>The kernel's rename with the flag that refuses to replace.\<close>

definition moved :: "path \<Rightarrow> path \<Rightarrow> nodes \<Rightarrow> nodes" where
  "moved a b ns =
     map (\<lambda>(q, n). (b @ drop (length a) q, n)) (filter (\<lambda>(q, n). prefix a q) ns) @
     filter (\<lambda>(q, n). \<not> prefix a q \<and> \<not> prefix b q) ns"

definition os_rename_noreplace :: "path \<Rightarrow> path \<Rightarrow> (FileSystem, Errno, unit) stm" where
  "os_rename_noreplace a b fs =
     (let (t, fs) = os_turn fs in
      case turn_fault t of
        Some fault \<Rightarrow> (Err (flt_errno fault), fs)
      | None \<Rightarrow>
          if map_of (fs_nodes fs) a = None then (Err NOENT, fs)
          else if map_of (fs_nodes fs) b \<noteq> None then (Err EXIST, fs)
          else (Ok (), fs\<lparr>fs_nodes := moved a b (fs_nodes fs)\<rparr>))"


section \<open>Staging directories\<close>

definition STAGING_ATTEMPTS :: nat where "STAGING_ATTEMPTS = 128"

datatype AtomicDirectoryError =
    AdInvalidState | AdIoFailure | AdUnsafeDestination | AdResourceExhausted | AdUnsupported

text \<open>A \<open>StagingDirectory\<close> is the path it owns.\<close>

record StagingDirectory =
  sd_path :: path

datatype PublishOutcome = OutcomePublished | OutcomeDestinationExists StagingDirectory

definition staging_nonce :: "FileSystem \<Rightarrow> nat \<Rightarrow> bytes" where
  "staging_nonce fs attempt =
     format_dec (unat (fs_process_id fs)) @ [DASH]
     @ format_dec (case fs_turns fs of [] \<Rightarrow> 0 | t # _ \<Rightarrow> turn_clock t) @ [DASH] @ format_dec attempt"

fun staging_attempts :: "path \<Rightarrow> bytes \<Rightarrow> nat list \<Rightarrow> (FileSystem, AtomicDirectoryError, StagingDirectory) stm" where
  "staging_attempts parent pre [] fs = (Err AdResourceExhausted, fs)"
| "staging_attempts parent pre (attempt # rest) fs =
     (let candidate = parent @ [pre @ [DOT] @ staging_nonce fs attempt @ STAGING_SUFFIX] in
      case os_create_dir candidate fs of
        (Ok _, fs) \<Rightarrow> (Ok \<lparr>sd_path = candidate\<rparr>, fs)
      | (Err KindAlreadyExists, fs) \<Rightarrow> staging_attempts parent pre rest fs
      | (Err KindOutOfMemory, fs) \<Rightarrow> (Err AdResourceExhausted, fs)
      | (Err _, fs) \<Rightarrow> (Err AdIoFailure, fs))"

definition staging_create :: "path \<Rightarrow> bytes \<Rightarrow> (FileSystem, AtomicDirectoryError, StagingDirectory) stm" where
  "staging_create parent pre fs =
     (if pre = [] \<or> SLASH \<in> set pre \<or> BACKSLASH \<in> set pre \<or> 0 \<in> set pre then (Err AdInvalidState, fs)
      else staging_attempts parent pre [0..<STAGING_ATTEMPTS] fs)"

definition rename_no_replace :: "path \<Rightarrow> path \<Rightarrow> (FileSystem, AtomicDirectoryError, bool) stm" where
  "rename_no_replace a b fs =
     (case os_rename_noreplace a b fs of
        (Ok _, fs) \<Rightarrow> (Ok True, fs)
      | (Err e, fs) \<Rightarrow>
          ((case e of
              EXIST \<Rightarrow> Ok False
            | NOTEMPTY \<Rightarrow> Ok False
            | NOSYS \<Rightarrow> Err AdUnsupported
            | INVAL \<Rightarrow> Err AdUnsupported
            | OPNOTSUPP \<Rightarrow> Err AdUnsupported
            | NOENT \<Rightarrow> Err AdInvalidState
            | XDEV \<Rightarrow> Err AdUnsafeDestination
            | NOMEM \<Rightarrow> Err AdResourceExhausted
            | NOSPC \<Rightarrow> Err AdResourceExhausted
            | OtherErrno \<Rightarrow> Err AdIoFailure), fs))"

text \<open>Every outcome but a publication hands the staging directory back.\<close>

definition staging_publish_no_replace ::
  "StagingDirectory \<Rightarrow> path \<Rightarrow> (FileSystem, StagingDirectory \<times> AtomicDirectoryError, PublishOutcome) stm" where
  "staging_publish_no_replace staging destination fs =
     (if destination = [] then (Err (staging, AdUnsafeDestination), fs)
      else
        case rename_no_replace (sd_path staging) destination fs of
          (Ok True, fs) \<Rightarrow> (Ok OutcomePublished, fs)
        | (Ok False, fs) \<Rightarrow> (Ok (OutcomeDestinationExists staging), fs)
        | (Err e, fs) \<Rightarrow> (Err (staging, e), fs))"

definition staging_abort :: "StagingDirectory \<Rightarrow> (FileSystem, AtomicDirectoryError, unit) stm" where
  "staging_abort staging fs =
     (case os_remove_dir_all (sd_path staging) fs of
        (Ok _, fs) \<Rightarrow> (Ok (), fs)
      | (Err KindNotFound, fs) \<Rightarrow> (Ok (), fs)
      | (Err _, fs) \<Rightarrow> (Err AdIoFailure, fs))"

text \<open>Dropping a staging directory removes it on a best-effort basis.\<close>

definition staging_drop :: "StagingDirectory \<Rightarrow> FileSystem \<Rightarrow> FileSystem" where
  "staging_drop staging fs = snd (os_remove_dir_all (sd_path staging) fs)"


section \<open>What a call leaves alone\<close>

lemma map_of_filter_path:
  "map_of (filter (\<lambda>(q, n). P q) ns) q = (if P q then map_of ns q else None)"
  by (induction ns) auto

lemma map_of_prefixed: "map_of (map (\<lambda>(q, n). (p @ q, n)) ns) (p @ q) = map_of ns q"
  by (induction ns) auto

lemma map_of_prefixed_None: "\<not> prefix p q \<Longrightarrow> map_of (map (\<lambda>(r, n). (p @ r, n)) ns) q = None"
  by (induction ns) auto

lemma map_of_place:
  "map_of (place p below ns) q = (if prefix p q then map_of below (drop (length p) q) else map_of ns q)"
proof (cases "prefix p q")
  case True
  then obtain r where q: "q = p @ r" by (auto simp: prefix_def)
  show ?thesis
    unfolding q place_def by (simp add: map_add_def map_of_prefixed map_of_filter_path split: option.split)
next
  case False
  then show ?thesis
    by (simp add: place_def map_add_def map_of_prefixed_None map_of_filter_path)
qed

lemma map_of_moved:
  assumes "\<not> prefix a b" and "\<not> prefix b a"
  shows "map_of (moved a b ns) q =
    (if prefix b q then map_of ns (a @ drop (length b) q) else if prefix a q then None else map_of ns q)"
proof -
  let ?f = "\<lambda>(q, n). (b @ drop (length a) q, n)"
  have shifted: "map_of (map ?f (filter (\<lambda>(q, n). prefix a q) ns)) (b @ r) = map_of ns (a @ r)" for r
    by (induction ns) (auto simp: prefix_def, metis)
  have outside: "map_of (map ?f (filter (\<lambda>(q, n). prefix a q) ns)) q = None" if "\<not> prefix b q"
    using that by (induction ns) auto
  show ?thesis
  proof (cases "prefix b q")
    case True
    then obtain r where q: "q = b @ r" by (auto simp: prefix_def)
    then show ?thesis
      by (simp add: moved_def map_add_def shifted map_of_filter_path split: option.split)
  next
    case False
    then show ?thesis by (simp add: moved_def map_add_def outside map_of_filter_path)
  qed
qed

text \<open>
  What is at the root apart from some names of our own is \<open>untouched\<close>: a name that was there, and every
  name of the staging namespace, has the same nodes.
\<close>

definition untouched :: "bytes set \<Rightarrow> nodes \<Rightarrow> nodes \<Rightarrow> bool" where
  "untouched own ns ns' \<longleftrightarrow>
     (\<forall>name q. name \<notin> own \<longrightarrow> is_staging_name name \<or> map_of ns [name] \<noteq> None \<longrightarrow>
        map_of ns' (name # q) = map_of ns (name # q))"

lemma untouchedD:
  "untouched own ns ns' \<Longrightarrow> name \<notin> own \<Longrightarrow> is_staging_name name \<or> map_of ns [name] \<noteq> None \<Longrightarrow>
     map_of ns' (name # q) = map_of ns (name # q)"
  unfolding untouched_def by blast

lemma untouched_refl [simp]: "untouched own ns ns"
  by (simp add: untouched_def)

lemma untouched_trans: "untouched own ns ns' \<Longrightarrow> untouched own ns' ns'' \<Longrightarrow> untouched own ns ns''"
  unfolding untouched_def by metis

lemma untouched_mono: "untouched own ns ns' \<Longrightarrow> own \<subseteq> own' \<Longrightarrow> untouched own' ns ns'"
  unfolding untouched_def by blast

lemma interfere_untouched: "untouched {} ns (interfere others ns)"
proof (induction others ns rule: interfere.induct)
  case (2 name below rest ns)
  have "untouched {} ns (if is_staging_name name \<or> map_of ns [name] \<noteq> None then ns else place [name] below ns)"
    by (auto simp: untouched_def map_of_place)
  from untouched_trans[OF this 2] show ?case by (simp only: interfere.simps)
qed simp

definition kept :: "bytes set \<Rightarrow> FileSystem \<Rightarrow> FileSystem \<Rightarrow> bool" where
  "kept own fs fs' \<longleftrightarrow> untouched own (fs_nodes fs) (fs_nodes fs')"

lemma kept_refl [simp]: "kept own fs fs"
  by (simp add: kept_def)

lemma kept_trans: "kept own fs fs' \<Longrightarrow> kept own fs' fs'' \<Longrightarrow> kept own fs fs''"
  unfolding kept_def by (rule untouched_trans)

lemma kept_mono: "kept own fs fs' \<Longrightarrow> own \<subseteq> own' \<Longrightarrow> kept own' fs fs'"
  unfolding kept_def by (rule untouched_mono)

lemma os_turn_kept: "os_turn fs = (t, fs') \<Longrightarrow> kept own fs fs'"
  using untouched_mono[OF interfere_untouched, of own]
  by (auto simp: os_turn_def kept_def split: list.splits)

lemma kept_update:
  assumes "os_turn fs = (t, fs1)" and "untouched own (fs_nodes fs1) ns"
  shows "kept own fs (fs1\<lparr>fs_nodes := ns\<rparr>)"
  using os_turn_kept[OF assms(1), of own] assms(2) unfolding kept_def by (auto intro: untouched_trans)

lemma untouched_place: "untouched {name} ns (place (name # p) below ns)"
  by (auto simp: untouched_def map_of_place)

lemma untouched_Cons: "untouched {name} ns ((name # p, n) # ns)"
  by (auto simp: untouched_def)

lemma untouched_filter: "untouched {name} ns (filter (\<lambda>(q, n). \<not> (prefix (name # p) q \<and> P q)) ns)"
proof -
  have "map_of (filter (\<lambda>(q, n). \<not> (prefix (name # p) q \<and> P q)) ns) q =
      (if \<not> (prefix (name # p) q \<and> P q) then map_of ns q else None)" for q
    by (rule map_of_filter_path)
  then show ?thesis by (auto simp: untouched_def)
qed

lemma os_create_kept: "os_create n (name # p) fs = (r, fs') \<Longrightarrow> kept {name} fs fs'"
  using os_turn_kept kept_update[OF _ untouched_place]
  by (auto simp: os_create_def Let_def split: prod.splits option.splits if_splits)

lemma os_write_all_kept: "os_write_all (name # p) bs fs = (r, fs') \<Longrightarrow> kept {name} fs fs'"
  using os_turn_kept kept_update[OF _ untouched_Cons]
  by (auto simp: os_write_all_def Let_def split: prod.splits option.splits Node.splits)

lemma os_sync_all_kept: "os_sync_all fs = (r, fs') \<Longrightarrow> kept own fs fs'"
  using os_turn_kept by (auto simp: os_sync_all_def Let_def split: prod.splits option.splits)

lemma os_open_kept: "os_open p fs = (r, fs') \<Longrightarrow> kept own fs fs'"
  using os_turn_kept by (auto simp: os_open_def Let_def split: prod.splits option.splits if_splits)

lemma os_remove_dir_all_kept: "os_remove_dir_all (name # p) fs = (r, fs') \<Longrightarrow> kept {name} fs fs'"
  using os_turn_kept kept_update[OF _ untouched_filter] kept_update[OF _ untouched_filter[where P = "\<lambda>_. True"]]
  by (auto simp: os_remove_dir_all_def Let_def split: prod.splits option.splits if_splits)

lemma os_rename_kept:
  assumes "os_rename_noreplace [a] [b] fs = (r, fs')" and "a \<noteq> b" and "\<not> is_staging_name b"
  shows "kept {a} fs fs'"
proof -
  have "untouched {a} ns (moved [a] [b] ns)" if "map_of ns [b] = None" for ns
    using assms(2,3) that by (auto simp: untouched_def map_of_moved)
  with assms(1) show ?thesis
    using os_turn_kept kept_update
    by (auto simp: os_rename_noreplace_def Let_def split: prod.splits option.splits if_splits)
qed


section \<open>Staging directories are exclusive and publication never replaces\<close>

lemma os_create_Err: "os_create n p fs = (Err e, fs') \<Longrightarrow> kept own fs fs'"
  using os_turn_kept by (auto simp: os_create_def Let_def split: prod.splits option.splits if_splits)

lemma os_create_Ok:
  assumes "os_create n p fs = (Ok u, fs')"
  obtains fs1 where "kept own fs fs1" and "map_of (fs_nodes fs1) p = None"
    and "is_directory (fs_nodes fs1) (butlast p)" and "fs_nodes fs' = place p [([], n)] (fs_nodes fs1)"
proof -
  obtain t fs1 where "os_turn fs = (t, fs1)" by fastforce
  with assms os_turn_kept[OF this, of own] that show ?thesis
    by (auto simp: os_create_def split: option.splits if_splits)
qed

lemma append_staging_suffix: "is_staging_name (bs @ STAGING_SUFFIX)"
  by (simp add: is_staging_name_def suffix_def)

lemma staging_attempts_Ok:
  assumes "staging_attempts [] pre as fs = (Ok sd, fs')"
  shows "\<exists>name. sd_path sd = [name] \<and> is_staging_name name \<and> map_of (fs_nodes fs) [name] = None \<and>
    kept {name} fs fs' \<and> (\<forall>q. map_of (fs_nodes fs') (name # q) = (if q = [] then Some DirNode else None))"
  using assms
proof (induction as arbitrary: fs)
  case (Cons a as)
  let ?name = "pre @ [DOT] @ staging_nonce fs a @ STAGING_SUFFIX"
  have staging: "is_staging_name ?name" using append_staging_suffix[of "pre @ [DOT] @ staging_nonce fs a"] by simp
  show ?case
  proof (cases "os_create DirNode [?name] fs")
    case (Pair r fs1)
    show ?thesis
    proof (cases r)
      case (Ok u)
      then have res: "sd = \<lparr>sd_path = [?name]\<rparr>" "fs' = fs1" using Cons.prems Pair by (auto simp: os_create_dir_def)
      obtain fs0 where fs0: "kept {} fs fs0" "map_of (fs_nodes fs0) [?name] = None"
        "fs_nodes fs1 = place [?name] [([], DirNode)] (fs_nodes fs0)"
        using os_create_Ok Pair Ok by metis
      have "map_of (fs_nodes fs) [?name] = None"
        using untouchedD[of "{}" "fs_nodes fs" "fs_nodes fs0" ?name "[]"] fs0(1,2) staging by (simp add: kept_def)
      moreover have "map_of (fs_nodes fs') (?name # q) = (if q = [] then Some DirNode else None)" for q
        using fs0(3) res(2) by (simp add: map_of_place)
      ultimately show ?thesis using res staging os_create_kept Pair by force
    next
      case (Err e)
      then have "kept {} fs fs1" using Pair os_create_Err by blast
      moreover have "e = KindAlreadyExists" "staging_attempts [] pre as fs1 = (Ok sd, fs')"
        using Cons.prems Pair Err by (auto simp: os_create_dir_def split: IoErrorKind.splits)
      ultimately obtain name where *: "sd_path sd = [name]" "is_staging_name name"
          "map_of (fs_nodes fs1) [name] = None" "kept {name} fs1 fs'"
          "\<forall>q. map_of (fs_nodes fs') (name # q) = (if q = [] then Some DirNode else None)"
        using Cons.IH by blast
      have "map_of (fs_nodes fs) [name] = None"
        using untouchedD[of "{}" "fs_nodes fs" "fs_nodes fs1" name "[]"] * \<open>kept {} fs fs1\<close> by (simp add: kept_def)
      then show ?thesis using * kept_mono[OF \<open>kept {} fs fs1\<close>, of "{name}"] kept_trans by blast
    qed
  qed
qed simp

lemma staging_attempts_Err: "staging_attempts [] pre as fs = (Err e, fs') \<Longrightarrow> kept {} fs fs'"
proof (induction as arbitrary: fs)
  case (Cons a as)
  obtain r fs1 where c: "os_create DirNode [pre @ [DOT] @ staging_nonce fs a @ STAGING_SUFFIX] fs = (r, fs1)" by fastforce
  show ?case
  proof (cases r)
    case (Err k)
    then have "kept {} fs fs1" using c os_create_Err by blast
    moreover have "kept {} fs1 fs'"
      using Cons c Err by (cases k) (auto simp: os_create_dir_def)
    ultimately show ?thesis by (rule kept_trans)
  qed (use Cons.prems c in \<open>simp add: os_create_dir_def\<close>)
qed simp

lemma staging_create_Ok:
  assumes "staging_create [] pre fs = (Ok sd, fs')"
  obtains name where "sd_path sd = [name]" and "is_staging_name name" and "map_of (fs_nodes fs) [name] = None"
    and "kept {name} fs fs'"
    and "\<And>q. map_of (fs_nodes fs') (name # q) = (if q = [] then Some DirNode else None)"
proof -
  have "staging_attempts [] pre [0..<STAGING_ATTEMPTS] fs = (Ok sd, fs')"
    using assms by (simp add: staging_create_def split: if_splits)
  from staging_attempts_Ok[OF this] that show ?thesis by blast
qed

lemma staging_create_Err: "staging_create [] pre fs = (Err e, fs') \<Longrightarrow> kept {} fs fs'"
  using staging_attempts_Err by (auto simp: staging_create_def split: if_splits)

lemma staging_abort_kept: "sd_path sd = [name] \<Longrightarrow> staging_abort sd fs = (r, fs') \<Longrightarrow> kept {name} fs fs'"
  using os_remove_dir_all_kept[of name "[]"]
  by (auto simp: staging_abort_def split: prod.splits result.splits IoErrorKind.splits)

text \<open>A successful removal leaves nothing at the name.\<close>

lemma staging_abort_gone:
  assumes "sd_path sd = [name]" and "staging_abort sd fs = (Ok u, fs')"
  shows "map_of (fs_nodes fs') [name] = None"
proof -
  obtain t fs1 where t: "os_turn fs = (t, fs1)" by fastforce
  have "map_of (filter (\<lambda>(q, n). \<not> prefix [name] q) (fs_nodes fs1)) [name] = None"
    by (simp add: map_of_filter_path)
  then show ?thesis using assms t
    by (auto simp: staging_abort_def os_remove_dir_all_def split: option.splits if_splits IoErrorKind.splits)
qed

lemma staging_publish_kept:
  assumes "sd_path sd = [name]" and "staging_publish_no_replace sd [dest] fs = (r, fs')"
    and "name \<noteq> dest" and "\<not> is_staging_name dest"
  shows "kept {name} fs fs'"
  using assms os_rename_kept[OF _ assms(3,4)]
  by (auto simp: staging_publish_no_replace_def rename_no_replace_def split: prod.splits result.splits Errno.splits bool.splits)

lemma staging_publish_Ok:
  assumes "sd_path sd = [name]" and "staging_publish_no_replace sd [dest] fs = (Ok OutcomePublished, fs')"
    and "name \<noteq> dest" and "is_staging_name name"
  shows "map_of (fs_nodes fs') (dest # q) = map_of (fs_nodes fs) (name # q)" and "map_of (fs_nodes fs') [name] = None"
proof -
  obtain t fs1 where t: "os_turn fs = (t, fs1)" by fastforce
  have "os_rename_noreplace [name] [dest] fs = (Ok (), fs')"
    using assms(1,2)
    by (auto simp: staging_publish_no_replace_def rename_no_replace_def
        split: prod.splits result.splits Errno.splits bool.splits)
  with t have m: "fs_nodes fs' = moved [name] [dest] (fs_nodes fs1)"
    by (auto simp: os_rename_noreplace_def split: option.splits if_splits)
  have "map_of (fs_nodes fs1) (name # q) = map_of (fs_nodes fs) (name # q)"
    using untouchedD[of "{}" "fs_nodes fs" "fs_nodes fs1" name q] os_turn_kept[OF t, of "{}"] assms(4)
    by (simp add: kept_def)
  then show "map_of (fs_nodes fs') (dest # q) = map_of (fs_nodes fs) (name # q)"
    and "map_of (fs_nodes fs') [name] = None"
    using assms(3) unfolding m by (simp_all add: map_of_moved)
qed

end
