(* ===== verification/Payload_Paths.thy ===== *)
theory Payload_Paths
  imports Import_Catalog
begin

text \<open>
  \<open>path.rs\<close> of crate \<open>ohl-payload\<close>: which archive-relative names may become destination names.  A path
  is its UTF-8 bytes; every separator, forbidden byte and reserved name is ASCII, and a component with
  any other byte is refused.
\<close>

definition MAXIMUM_PATH_BYTES :: nat where "MAXIMUM_PATH_BYTES = 4096"
definition MAXIMUM_COMPONENT_BYTES :: nat where "MAXIMUM_COMPONENT_BYTES = 255"
definition MAXIMUM_COMPONENT_COUNT :: nat where "MAXIMUM_COMPONENT_COUNT = 32"

definition COLON :: u8 where "COLON = 0x3A"
definition SPACE :: u8 where "SPACE = 0x20"

definition FORBIDDEN_BYTES :: bytes where
  "FORBIDDEN_BYTES = [0x3C, 0x3E, 0x3A, 0x22, 0x7C, 0x3F, 0x2A]"

datatype PayloadPathError =
    PathEmpty | PathTooLong | PathRooted | PathEmptyComponent | PathTraversal | PathTooDeep
  | PathInvalidCharacter | PathComponentTooLong | PathReservedName

record PayloadPath =
  pp_relative_path :: bytes
  pp_portability_key :: bytes

text \<open>Text before the first dot, and the device names of Windows.\<close>

definition file_stem :: "bytes \<Rightarrow> bytes" where
  "file_stem c = hd (split_on (\<lambda>b. b = DOT) c)"

definition eq_ignore_ascii_case :: "bytes \<Rightarrow> bytes \<Rightarrow> bool" where
  "eq_ignore_ascii_case a b \<longleftrightarrow> to_ascii_lowercase a = to_ascii_lowercase b"

definition RESERVED :: "bytes list" where
  "RESERVED =
     [[0x43, 0x4F, 0x4E], [0x50, 0x52, 0x4E], [0x41, 0x55, 0x58], [0x4E, 0x55, 0x4C],
      [0x43, 0x4C, 0x4F, 0x43, 0x4B, 0x24], [0x43, 0x4F, 0x4E, 0x49, 0x4E, 0x24],
      [0x43, 0x4F, 0x4E, 0x4F, 0x55, 0x54, 0x24]]"

definition is_ascii_digit :: "u8 \<Rightarrow> bool" where
  "is_ascii_digit b \<longleftrightarrow> 0x30 \<le> b \<and> b \<le> 0x39"

definition is_reserved_windows_name :: "bytes \<Rightarrow> bool" where
  "is_reserved_windows_name c =
     (let stem = file_stem c in
      list_ex (eq_ignore_ascii_case stem) RESERVED
      \<or> (length stem = 4
         \<and> (eq_ignore_ascii_case (take 3 stem) [0x43, 0x4F, 0x4D]
            \<or> eq_ignore_ascii_case (take 3 stem) [0x4C, 0x50, 0x54])
         \<and> is_ascii_digit (stem ! 3)))"

definition validate_component :: "bytes \<Rightarrow> (PayloadPathError, unit) result" where
  "validate_component c =
     (if c = [] then Err PathEmptyComponent
      else if c = [DOT] \<or> c = [DOT, DOT] then Err PathTraversal
      else if length c > MAXIMUM_COMPONENT_BYTES then Err PathComponentTooLong
      else if last c = DOT \<or> last c = SPACE then Err PathInvalidCharacter
      else if list_ex (\<lambda>b. \<not> (0x20 \<le> b \<and> b \<le> 0x7E) \<or> b \<in> set FORBIDDEN_BYTES) c then Err PathInvalidCharacter
      else if is_reserved_windows_name c then Err PathReservedName
      else Ok ())"

text \<open>The loop over the components, with the counter and the two strings it builds.\<close>

fun parse_components :: "nat \<Rightarrow> PayloadPath \<Rightarrow> bytes list \<Rightarrow> (PayloadPathError, PayloadPath) result" where
  "parse_components n p [] = Ok p"
| "parse_components n p (c # cs) =
     (if Suc n > MAXIMUM_COMPONENT_COUNT then Err PathTooDeep
      else
        and_then (validate_component c) (\<lambda>_.
          let p = (if pp_relative_path p = [] then p
                   else \<lparr>pp_relative_path = pp_relative_path p @ [SLASH],
                         pp_portability_key = pp_portability_key p @ [SLASH]\<rparr>)
          in parse_components (Suc n)
               \<lparr>pp_relative_path = pp_relative_path p @ c,
                pp_portability_key = pp_portability_key p @ to_ascii_lowercase c\<rparr> cs))"

definition payload_path_parse :: "bytes \<Rightarrow> (PayloadPathError, PayloadPath) result" where
  "payload_path_parse path =
     (if path = [] then Err PathEmpty
      else if length path > MAXIMUM_PATH_BYTES then Err PathTooLong
      else if hd path = SLASH \<or> hd path = BACKSLASH \<or> (length path \<ge> 2 \<and> path ! 1 = COLON) then Err PathRooted
      else parse_components 0 \<lparr>pp_relative_path = [], pp_portability_key = []\<rparr> (split_on is_separator path))"

definition path_components :: "PayloadPath \<Rightarrow> bytes list" where
  "path_components p = split_on (\<lambda>b. b = SLASH) (pp_relative_path p)"

text \<open>The folded key and the spelling of every proper ancestor, shallowest first.\<close>

definition ancestor_keys :: "PayloadPath \<Rightarrow> (bytes \<times> bytes) list" where
  "ancestor_keys p =
     map (\<lambda>offset. (take offset (pp_portability_key p), take offset (pp_relative_path p)))
       (filter (\<lambda>i. pp_portability_key p ! i = SLASH) [0..<length (pp_portability_key p)])"


section \<open>Accepted paths are lists of portable components\<close>

definition portable_component :: "bytes \<Rightarrow> bool" where
  "portable_component c \<longleftrightarrow> plain_component c \<and> length c \<le> MAXIMUM_COMPONENT_BYTES \<and>
     last c \<noteq> DOT \<and> last c \<noteq> SPACE \<and>
     list_all (\<lambda>b. 0x20 \<le> b \<and> b \<le> 0x7E \<and> b \<notin> set FORBIDDEN_BYTES) c \<and> \<not> is_reserved_windows_name c"

fun join_path :: "bytes list \<Rightarrow> bytes" where
  "join_path [] = []"
| "join_path [c] = c"
| "join_path (c # cs) = c @ SLASH # join_path cs"

definition payload_path_of :: "bytes list \<Rightarrow> PayloadPath" where
  "payload_path_of cs =
     \<lparr>pp_relative_path = join_path cs, pp_portability_key = join_path (map to_ascii_lowercase cs)\<rparr>"

definition portable_parts :: "bytes list \<Rightarrow> bool" where
  "portable_parts cs \<longleftrightarrow> cs \<noteq> [] \<and> length cs \<le> MAXIMUM_COMPONENT_COUNT \<and> list_all portable_component cs"

lemma separator_values [simp]: "is_separator SLASH" "is_separator BACKSLASH" "\<not> is_separator COLON"
  by (simp_all add: is_separator_def SLASH_def BACKSLASH_def COLON_def)

lemma validate_component_Ok:
  assumes "list_all (\<lambda>b. \<not> is_separator b) c"
  shows "validate_component c = Ok () \<longleftrightarrow> portable_component c"
proof -
  have "list_all (\<lambda>b. 0x20 \<le> b \<and> b \<le> 0x7E \<and> b \<notin> set FORBIDDEN_BYTES) c \<Longrightarrow> list_all (\<lambda>b. b \<noteq> 0) c"
    by (auto simp: list_all_iff)
  then show ?thesis using assms
    by (auto simp: validate_component_def portable_component_def plain_component_def list_all_iff list_ex_iff)
qed

lemma join_path_snoc: "cs \<noteq> [] \<Longrightarrow> join_path (cs @ [c]) = join_path cs @ SLASH # c"
  by (induction cs rule: join_path.induct) auto

lemma join_path_Nil_iff: "list_all (\<lambda>c. c \<noteq> []) cs \<Longrightarrow> join_path cs = [] \<longleftrightarrow> cs = []"
  by (induction cs rule: join_path.induct) auto

lemma parse_components_eq:
  assumes "list_all (list_all (\<lambda>b. \<not> is_separator b)) cs" and "list_all (\<lambda>c. c \<noteq> []) ds"
  shows "parse_components (length ds) (payload_path_of ds) cs = Ok p \<longleftrightarrow>
    list_all portable_component cs \<and> (cs = [] \<or> length (ds @ cs) \<le> MAXIMUM_COMPONENT_COUNT) \<and> p = payload_path_of (ds @ cs)"
  using assms
proof (induction cs arbitrary: ds)
  case (Cons c cs)
  have step: "(let p = (if pp_relative_path (payload_path_of ds) = [] then payload_path_of ds
       else \<lparr>pp_relative_path = pp_relative_path (payload_path_of ds) @ [SLASH],
             pp_portability_key = pp_portability_key (payload_path_of ds) @ [SLASH]\<rparr>)
       in \<lparr>pp_relative_path = pp_relative_path p @ c, pp_portability_key = pp_portability_key p @ to_ascii_lowercase c\<rparr>)
      = payload_path_of (ds @ [c])"
    using join_path_Nil_iff[OF Cons.prems(2)] join_path_snoc[of ds c]
      join_path_snoc[of "map to_ascii_lowercase ds" "to_ascii_lowercase c"]
    by (simp add: payload_path_of_def Let_def)
  show ?case
  proof (cases "Suc (length ds) \<le> MAXIMUM_COMPONENT_COUNT \<and> portable_component c")
    case True
    then have ok: "validate_component c = Ok ()" using validate_component_Ok Cons.prems(1) by simp
    have "c \<noteq> []" using True by (auto simp: portable_component_def plain_component_def)
    then have "parse_components (length (ds @ [c])) (payload_path_of (ds @ [c])) cs = Ok p \<longleftrightarrow>
        list_all portable_component cs \<and> (cs = [] \<or> length ((ds @ [c]) @ cs) \<le> MAXIMUM_COMPONENT_COUNT) \<and>
        p = payload_path_of ((ds @ [c]) @ cs)"
      using Cons.IH[of "ds @ [c]"] Cons.prems by simp
    moreover have "parse_components (length ds) (payload_path_of ds) (c # cs) =
        parse_components (length (ds @ [c])) (payload_path_of (ds @ [c])) cs"
      using True ok step by (simp add: Let_def)
    ultimately show ?thesis using True by auto
  next
    case False
    then show ?thesis using validate_component_Ok[of c] Cons.prems(1) by (auto simp: result_simps)
  qed
qed auto

lemma split_first_separator: "split_on P bs = c # cs \<Longrightarrow> bs \<noteq> [] \<Longrightarrow> \<not> P (hd bs) \<Longrightarrow> c \<noteq> [] \<and> hd c = hd bs"
  by (cases bs) auto

lemma portable_not_rooted:
  assumes "list_all portable_component (split_on is_separator p)"
  shows "p \<noteq> []" and "hd p \<noteq> SLASH" and "hd p \<noteq> BACKSLASH" and "length p \<ge> 2 \<Longrightarrow> p ! 1 \<noteq> COLON"
proof -
  have plain: "c \<noteq> [] \<and> COLON \<notin> set c" if "c \<in> set (split_on is_separator p)" for c
    using assms that
    by (auto simp: list_all_iff portable_component_def plain_component_def FORBIDDEN_BYTES_def COLON_def)
  show p: "p \<noteq> []" using plain by auto
  then obtain b bs where b: "p = b # bs" by (cases p) auto
  have sep: "\<not> is_separator b" using plain[of "[]"] b by auto
  then show "hd p \<noteq> SLASH" "hd p \<noteq> BACKSLASH" using b by auto
  show "p ! 1 \<noteq> COLON" if long: "length p \<ge> 2"
  proof
    assume "p ! 1 = COLON"
    then obtain ds where "p = b # COLON # ds" using b long by (cases bs) auto
    then have "b # COLON # hd (split_on is_separator ds) \<in> set (split_on is_separator p)" using sep by simp
    then show False using plain by fastforce
  qed
qed

lemma payload_path_parse_Ok:
  "payload_path_parse p = Ok r \<longleftrightarrow> length p \<le> MAXIMUM_PATH_BYTES \<and> portable_parts (split_on is_separator p) \<and>
     r = payload_path_of (split_on is_separator p)"
proof -
  let ?cs = "split_on is_separator p"
  have "list_all (list_all (\<lambda>b. \<not> is_separator b)) ?cs"
    using split_on_bytes[of _ is_separator p] by (auto simp: list_all_iff)
  then have "parse_components 0 \<lparr>pp_relative_path = [], pp_portability_key = []\<rparr> ?cs = Ok r \<longleftrightarrow>
      list_all portable_component ?cs \<and> length ?cs \<le> MAXIMUM_COMPONENT_COUNT \<and> r = payload_path_of ?cs"
    using parse_components_eq[of ?cs "[]" r] by (simp add: payload_path_of_def)
  then show ?thesis using portable_not_rooted[of p]
    by (auto simp: payload_path_parse_def portable_parts_def)
qed

lemma portable_plain: "list_all portable_component cs \<Longrightarrow> list_all plain_component cs"
  by (auto simp: list_all_iff portable_component_def)

lemma split_on_join:
  assumes "list_all (\<lambda>c. list_all (\<lambda>b. \<not> P b) c) cs" and "cs \<noteq> []" and "P SLASH"
  shows "split_on P (join_path cs) = cs"
  using assms
proof (induction cs rule: join_path.induct)
  case (2 c)
  then show ?case by (simp add: split_on_plain list_all_iff)
next
  case (3 c d cs)
  then show ?case using split_on_at[of c P SLASH "join_path (d # cs)"] by (simp add: list_all_iff)
qed simp

lemma plain_no_separator: "list_all plain_component cs \<Longrightarrow> list_all (\<lambda>c. list_all (\<lambda>b. \<not> is_separator b) c) cs"
  by (auto simp: list_all_iff plain_component_def)

lemma split_join_plain:
  assumes "list_all plain_component cs" and "cs \<noteq> []"
  shows "split_on is_separator (join_path cs) = cs" and "split_on (\<lambda>b. b = SLASH) (join_path cs) = cs"
  using assms plain_no_separator[OF assms(1)]
  by (auto intro!: split_on_join simp: list_all_iff is_separator_def)

lemma lower_separator: "ascii_lower b = SLASH \<longleftrightarrow> b = SLASH" "is_separator (ascii_lower b) \<longleftrightarrow> is_separator b"
proof -
  have range: "0x61 \<le> ascii_lower b \<and> ascii_lower b \<le> 0x7A" if "0x41 \<le> b" "b \<le> 0x5A"
    using that by (simp add: ascii_lower_def word_le_nat_alt unat_word_ariths)
  show "ascii_lower b = SLASH \<longleftrightarrow> b = SLASH" "is_separator (ascii_lower b) \<longleftrightarrow> is_separator b"
    using range by (cases "0x41 \<le> b \<and> b \<le> 0x5A";
        auto simp: ascii_lower_def SLASH_def BACKSLASH_def is_separator_def)+
qed

lemma to_ascii_lowercase_append [simp]: "to_ascii_lowercase (a @ b) = to_ascii_lowercase a @ to_ascii_lowercase b"
  by (simp add: to_ascii_lowercase_def)

lemma length_to_ascii_lowercase [simp]: "length (to_ascii_lowercase a) = length a"
  by (simp add: to_ascii_lowercase_def)

lemma to_ascii_lowercase_join: "to_ascii_lowercase (join_path cs) = join_path (map to_ascii_lowercase cs)"
  by (induction cs rule: join_path.induct)
    (simp_all add: to_ascii_lowercase_def lower_separator)

lemma length_join_path: "cs \<noteq> [] \<Longrightarrow> Suc (length (join_path cs)) = length (concat (map (\<lambda>c. SLASH # c) cs))"
  by (induction cs rule: join_path.induct) simp_all

lemma length_join_split: "length (join_path (split_on P p)) = length p"
  using length_join_path[OF split_on_not_Nil] split_on_length by (metis nat.inject)

lemma payload_path_of_inject:
  assumes "list_all plain_component cs" "list_all plain_component ds" "cs \<noteq> []" "ds \<noteq> []"
  shows "payload_path_of cs = payload_path_of ds \<longleftrightarrow> cs = ds"
proof
  assume "payload_path_of cs = payload_path_of ds"
  then have "join_path cs = join_path ds" by (simp add: payload_path_of_def)
  then show "cs = ds" using split_join_plain(1)[OF assms(1,3)] split_join_plain(1)[OF assms(2,4)] by argo
qed simp

text \<open>
  An accepted path is determined by its components, each of them portable: nonempty, neither a dot nor
  two, printable, without separator, drive colon or reserved name.  Parsing the spelling again gives the
  same value, and the key is the spelling with its case folded.
\<close>

lemma payload_path_parse_parts:
  assumes "payload_path_parse p = Ok r"
  obtains cs where "portable_parts cs" "r = payload_path_of cs" "cs = split_on is_separator p" "path_components r = cs"
proof -
  have "portable_parts (split_on is_separator p)" "r = payload_path_of (split_on is_separator p)"
    using assms by (simp_all add: payload_path_parse_Ok)
  moreover from this have "path_components r = split_on is_separator p"
    using split_join_plain(2)[OF portable_plain]
    by (simp add: path_components_def payload_path_of_def portable_parts_def)
  ultimately show thesis using that by blast
qed

lemma payload_path_parse_again:
  assumes "payload_path_parse p = Ok r"
  shows "payload_path_parse (pp_relative_path r) = Ok r"
  using assms length_join_split[of is_separator p] split_join_plain(1)[OF portable_plain]
  by (auto simp: payload_path_parse_Ok payload_path_of_def portable_parts_def)

lemma payload_path_key: "payload_path_parse p = Ok r \<Longrightarrow> pp_portability_key r = to_ascii_lowercase (pp_relative_path r)"
  by (auto simp: payload_path_parse_Ok payload_path_of_def to_ascii_lowercase_join)


section \<open>Ancestors\<close>

definition slash_prefixes :: "bytes \<Rightarrow> bytes list" where
  "slash_prefixes xs = map (\<lambda>i. take i xs) (filter (\<lambda>i. xs ! i = SLASH) [0..<length xs])"

definition ancestors :: "bytes list \<Rightarrow> bytes list list" where
  "ancestors cs = map (\<lambda>i. take i cs) [1..<length cs]"

lemma slash_prefixes_plain: "SLASH \<notin> set c \<Longrightarrow> slash_prefixes c = []"
  using nth_mem by (fastforce simp: slash_prefixes_def filter_empty_conv)

lemma slash_prefixes_split:
  assumes "SLASH \<notin> set c"
  shows "slash_prefixes (c @ SLASH # rest) = c # map (\<lambda>s. c @ SLASH # s) (slash_prefixes rest)"
proof -
  let ?n = "length c" and ?xs = "c @ SLASH # rest"
  have range: "[0..<length ?xs] = [0..<?n] @ [?n] @ map (\<lambda>i. i + Suc ?n) [0..<length rest]"
    using upt_add_eq_append[of 0 ?n "Suc (length rest)"] map_add_upt[of "Suc ?n" "length rest"]
    by (simp add: upt_conv_Cons add.commute del: upt_Suc)
  have one: "filter (\<lambda>i. ?xs ! i = SLASH) [0..<?n] = []"
    using assms nth_mem by (fastforce simp: filter_empty_conv nth_append)
  have two: "filter (\<lambda>i. ?xs ! i = SLASH) (map (\<lambda>i. i + Suc ?n) [0..<length rest]) =
      map (\<lambda>i. i + Suc ?n) (filter (\<lambda>i. rest ! i = SLASH) [0..<length rest])"
    by (auto simp: filter_map o_def nth_append)
  show ?thesis unfolding slash_prefixes_def range filter_append one two by simp
qed

lemma slash_prefixes_join:
  assumes "list_all plain_component cs"
  shows "slash_prefixes (join_path cs) = map join_path (ancestors cs)"
  using assms
proof (induction cs rule: join_path.induct)
  case 1
  show ?case by (simp add: slash_prefixes_def ancestors_def)
next
  case (2 c)
  then have "SLASH \<notin> set c" by (auto simp: plain_component_def list_all_iff is_separator_def)
  then show ?case by (simp add: slash_prefixes_plain ancestors_def)
next
  case (3 c d cs)
  then have "SLASH \<notin> set c" by (auto simp: plain_component_def list_all_iff is_separator_def)
  moreover have "ancestors (c # d # cs) = [c] # map ((#) c) (ancestors (d # cs))"
  proof -
    have "[1..<Suc (Suc (length cs))] = 1 # map Suc [1..<Suc (length cs)]"
      by (simp add: upt_conv_Cons map_Suc_upt del: upt_Suc)
    then show ?thesis by (simp add: ancestors_def)
  qed
  moreover have "join_path (c # as) = c @ SLASH # join_path as" if "as \<in> set (ancestors (d # cs))" for as
  proof -
    have "as \<noteq> []" using that by (auto simp: ancestors_def simp del: upt_Suc)
    then show ?thesis by (cases as) simp_all
  qed
  ultimately show ?case using 3 by (simp add: slash_prefixes_split)
qed

lemma ancestor_keys_of:
  assumes "list_all plain_component cs"
  shows "ancestor_keys (payload_path_of cs) =
    map (\<lambda>as. (join_path (map to_ascii_lowercase as), join_path as)) (ancestors cs)"
proof -
  let ?r = "join_path cs"
  have "to_ascii_lowercase ?r ! i = SLASH \<longleftrightarrow> ?r ! i = SLASH" if "i < length ?r" for i
    using that by (simp add: to_ascii_lowercase_def lower_separator)
  then have "filter (\<lambda>i. to_ascii_lowercase ?r ! i = SLASH) [0..<length ?r] = filter (\<lambda>i. ?r ! i = SLASH) [0..<length ?r]"
    by (intro filter_cong) auto
  then have "ancestor_keys (payload_path_of cs) = map (\<lambda>s. (to_ascii_lowercase s, s)) (slash_prefixes ?r)"
    by (simp add: ancestor_keys_def payload_path_of_def to_ascii_lowercase_join[symmetric] slash_prefixes_def
        take_map to_ascii_lowercase_def)
  then show ?thesis using slash_prefixes_join[OF assms] by (simp add: to_ascii_lowercase_join)
qed


section \<open>The property\<close>

text \<open>
  C21: the destination policy.  A path is accepted exactly when it is at most 4096 bytes long and splits at
  its separators into between one and 32 portable components: nonempty, neither a dot nor two, at most
  255 bytes, printable and free of the seven forbidden bytes, not ending in a dot or a space, and with a
  stem that is no device name of Windows.  The accepted spelling is those components joined by slashes,
  so it names a place below the destination root; parsing it again changes nothing; and two accepted
  paths have the same key exactly when they are the same path up to the case of ASCII letters.
\<close>

theorem payload_path_exact:
  "(payload_path_parse p = Ok r) =
     (length p \<le> MAXIMUM_PATH_BYTES \<and> portable_parts (split_on is_separator p) \<and>
      r = payload_path_of (split_on is_separator p) \<and>
      path_components r = split_on is_separator p \<and>
      payload_path_parse (pp_relative_path r) = Ok r \<and>
      pp_portability_key r = to_ascii_lowercase (pp_relative_path r))"
proof
  assume ok: "payload_path_parse p = Ok r"
  then obtain cs where "cs = split_on is_separator p" "path_components r = cs" using payload_path_parse_parts by blast
  with ok payload_path_parse_again[OF ok] payload_path_key[OF ok]
  show "length p \<le> MAXIMUM_PATH_BYTES \<and> portable_parts (split_on is_separator p) \<and>
      r = payload_path_of (split_on is_separator p) \<and> path_components r = split_on is_separator p \<and>
      payload_path_parse (pp_relative_path r) = Ok r \<and>
      pp_portability_key r = to_ascii_lowercase (pp_relative_path r)"
    by (simp add: payload_path_parse_Ok)
qed (simp add: payload_path_parse_Ok)

end
