(* ===== verification/Payload_Layout.thy ===== *)
theory Payload_Layout
  imports Payload_Paths
begin

text \<open>
  \<open>layout.rs\<close> of crate \<open>ohl-payload\<close>: from the offered entries to a bounded, ordered destination plan.
  A \<open>BTreeSet\<close> of keys is the sorted list of its elements; the \<open>BTreeMap\<close> from a directory's folded key to
  its one spelling is a map.
\<close>

record PayloadEntryMetadata =
  pem_source_token :: u64
  pem_archive_path :: bytes
  pem_size_bytes :: u64

record PayloadImportLimits =
  pil_maximum_entries :: nat
  pil_maximum_path_bytes :: u64
  pil_maximum_entry_bytes :: u64
  pil_maximum_total_bytes :: u64

definition payload_import_limits_default :: PayloadImportLimits where
  "payload_import_limits_default =
     \<lparr>pil_maximum_entries = 50000, pil_maximum_path_bytes = 64 * 1024 * 1024,
      pil_maximum_entry_bytes = 8 * 1024 * 1024 * 1024, pil_maximum_total_bytes = 32 * 1024 * 1024 * 1024\<rparr>"

definition coherent :: "PayloadImportLimits \<Rightarrow> bool" where
  "coherent l \<longleftrightarrow>
     pil_maximum_entries l \<noteq> 0 \<and> pil_maximum_path_bytes l \<noteq> 0 \<and> pil_maximum_entry_bytes l \<noteq> 0
     \<and> pil_maximum_total_bytes l \<noteq> 0 \<and> pil_maximum_entry_bytes l \<le> pil_maximum_total_bytes l"

datatype PayloadLayoutError =
    LayInvalidLimits | LayTooManyEntries | LayTooManyPathBytes | LaySourceTokenConflict
  | LayInvalidPath PayloadPathError | LayPathConflict | LayEntryTooLarge | LayPayloadTooLarge

record PayloadLayoutRejection =
  rej_error :: PayloadLayoutError
  rej_entry_index :: "nat option"

record PlannedPayloadEntry =
  ppe_source_token :: u64
  ppe_path :: PayloadPath
  ppe_size_bytes :: u64

record PayloadLayout =
  lay_entries :: "PlannedPayloadEntry list"
  lay_total_bytes :: u64

text \<open>The variables of the planning loop.\<close>

record LayoutState =
  lst_source_tokens :: "u64 list"
  lst_file_keys :: "bytes list"
  lst_directory_spellings :: "bytes \<rightharpoonup> bytes"
  lst_planned :: "PlannedPayloadEntry list"
  lst_total_bytes :: u64
  lst_total_path_bytes :: u64

definition layout_start :: LayoutState where
  "layout_start =
     \<lparr>lst_source_tokens = [], lst_file_keys = [], lst_directory_spellings = Map.empty, lst_planned = [],
      lst_total_bytes = 0, lst_total_path_bytes = 0\<rparr>"

text \<open>The inner loop over the ancestors of a path.\<close>

fun claim_ancestors :: "bytes list \<Rightarrow> (bytes \<times> bytes) list \<Rightarrow> (bytes \<rightharpoonup> bytes) \<Rightarrow> (bytes \<rightharpoonup> bytes) option" where
  "claim_ancestors file_keys [] spellings = Some spellings"
| "claim_ancestors file_keys ((key, spelling) # rest) spellings =
     (if key \<in> set file_keys then None
      else case spellings key of
          Some existing \<Rightarrow> if existing \<noteq> spelling then None else claim_ancestors file_keys rest spellings
        | None \<Rightarrow> claim_ancestors file_keys rest (spellings(key \<mapsto> spelling)))"

definition layout_entry ::
  "PayloadImportLimits \<Rightarrow> PayloadEntryMetadata \<Rightarrow> LayoutState \<Rightarrow> (PayloadLayoutError, LayoutState) result" where
  "layout_entry limits source st =
     (case btree_insert (pem_source_token source) (lst_source_tokens st) of
        (False, _) \<Rightarrow> Err LaySourceTokenConflict
      | (True, source_tokens) \<Rightarrow>
          let path_bytes = (case try_from_nat (length (pem_archive_path source)) of Some n \<Rightarrow> n | None \<Rightarrow> - 1) in
          if path_bytes > pil_maximum_path_bytes limits - lst_total_path_bytes st then Err LayTooManyPathBytes
          else if pem_size_bytes source > pil_maximum_entry_bytes limits then Err LayEntryTooLarge
          else if pem_size_bytes source > pil_maximum_total_bytes limits - lst_total_bytes st then Err LayPayloadTooLarge
          else
            (case payload_path_parse (pem_archive_path source) of
               Err e \<Rightarrow> Err (LayInvalidPath e)
             | Ok path \<Rightarrow>
                 if pp_portability_key path \<in> set (lst_file_keys st)
                    \<or> lst_directory_spellings st (pp_portability_key path) \<noteq> None
                 then Err LayPathConflict
                 else
                   (case claim_ancestors (lst_file_keys st) (ancestor_keys path) (lst_directory_spellings st) of
                      None \<Rightarrow> Err LayPathConflict
                    | Some spellings \<Rightarrow>
                        Ok \<lparr>lst_source_tokens = source_tokens,
                            lst_file_keys = insort (pp_portability_key path) (lst_file_keys st),
                            lst_directory_spellings = spellings,
                            lst_planned = lst_planned st @
                              [\<lparr>ppe_source_token = pem_source_token source, ppe_path = path,
                                ppe_size_bytes = pem_size_bytes source\<rparr>],
                            lst_total_bytes = lst_total_bytes st + pem_size_bytes source,
                            lst_total_path_bytes = lst_total_path_bytes st + path_bytes\<rparr>)))"

fun layout_entries ::
  "PayloadImportLimits \<Rightarrow> nat \<Rightarrow> PayloadEntryMetadata list \<Rightarrow> LayoutState \<Rightarrow> (PayloadLayoutRejection, LayoutState) result" where
  "layout_entries limits index [] st = Ok st"
| "layout_entries limits index (source # rest) st =
     (case layout_entry limits source st of
        Err e \<Rightarrow> Err \<lparr>rej_error = e, rej_entry_index = Some index\<rparr>
      | Ok st \<Rightarrow> layout_entries limits (Suc index) rest st)"

definition plan_payload_layout ::
  "PayloadEntryMetadata list \<Rightarrow> PayloadImportLimits \<Rightarrow> (PayloadLayoutRejection, PayloadLayout) result" where
  "plan_payload_layout entries limits =
     (if \<not> coherent limits then Err \<lparr>rej_error = LayInvalidLimits, rej_entry_index = None\<rparr>
      else if length entries > pil_maximum_entries limits
      then Err \<lparr>rej_error = LayTooManyEntries, rej_entry_index = None\<rparr>
      else
        (case layout_entries limits 0 entries layout_start of
           Err e \<Rightarrow> Err e
         | Ok st \<Rightarrow>
             Ok \<lparr>lay_entries = sort_key (\<lambda>e. pp_portability_key (ppe_path e)) (lst_planned st),
                 lay_total_bytes = lst_total_bytes st\<rparr>))"


section \<open>What a plan promises\<close>

definition offered_path :: "PayloadEntryMetadata \<Rightarrow> PayloadPath" where
  "offered_path e = (case payload_path_parse (pem_archive_path e) of Ok p \<Rightarrow> p | Err _ \<Rightarrow> payload_path_of [])"

definition planned_of :: "PayloadEntryMetadata \<Rightarrow> PlannedPayloadEntry" where
  "planned_of e = \<lparr>ppe_source_token = pem_source_token e, ppe_path = offered_path e, ppe_size_bytes = pem_size_bytes e\<rparr>"

definition offered_bytes :: "PayloadEntryMetadata list \<Rightarrow> nat" where
  "offered_bytes es = (\<Sum>e\<leftarrow>es. unat (pem_size_bytes e))"

definition offered_path_bytes :: "PayloadEntryMetadata list \<Rightarrow> nat" where
  "offered_path_bytes es = (\<Sum>e\<leftarrow>es. length (pem_archive_path e))"

text \<open>
  A set of paths can exist side by side, also where case does not count: no two files share a folded
  name, no file is a directory of another, and a directory has one spelling.
\<close>

definition portable_tree :: "PayloadPath list \<Rightarrow> bool" where
  "portable_tree ps \<longleftrightarrow> distinct (map pp_portability_key ps) \<and>
     (\<forall>p \<in> set ps. \<forall>q \<in> set ps. pp_portability_key p \<notin> fst ` set (ancestor_keys q)) \<and>
     (\<forall>p \<in> set ps. \<forall>q \<in> set ps. \<forall>a \<in> set (ancestor_keys p). \<forall>b \<in> set (ancestor_keys q).
        fst a = fst b \<longrightarrow> snd a = snd b)"

definition layout_valid :: "PayloadImportLimits \<Rightarrow> PayloadEntryMetadata list \<Rightarrow> bool" where
  "layout_valid l es \<longleftrightarrow>
     distinct (map pem_source_token es) \<and>
     list_all (\<lambda>e. pem_size_bytes e \<le> pil_maximum_entry_bytes l \<and> is_ok (payload_path_parse (pem_archive_path e))) es \<and>
     offered_bytes es \<le> unat (pil_maximum_total_bytes l) \<and>
     offered_path_bytes es \<le> unat (pil_maximum_path_bytes l) \<and>
     portable_tree (map offered_path es)"

definition layout_inv :: "PayloadEntryMetadata list \<Rightarrow> LayoutState \<Rightarrow> bool" where
  "layout_inv es st \<longleftrightarrow>
     set (lst_source_tokens st) = set (map pem_source_token es) \<and>
     set (lst_file_keys st) = pp_portability_key ` offered_path ` set es \<and>
     (\<forall>k v. lst_directory_spellings st k = Some v \<longleftrightarrow> (\<exists>e \<in> set es. (k, v) \<in> set (ancestor_keys (offered_path e)))) \<and>
     lst_planned st = map planned_of es \<and>
     unat (lst_total_bytes st) = offered_bytes es \<and> unat (lst_total_path_bytes st) = offered_path_bytes es"



section \<open>Ancestors, claimed one by one\<close>

lemma ancestor_keys_distinct: "distinct (map fst (ancestor_keys p))"
proof -
  let ?k = "pp_portability_key p"
  have "inj_on (\<lambda>i. take i ?k) {..<length ?k}" by (rule inj_on_inverseI[of _ length]) simp
  then show ?thesis
    unfolding ancestor_keys_def map_map o_def fst_conv
    by (auto simp: distinct_map intro: inj_on_subset)
qed

lemma ancestor_key_shorter: "a \<in> set (ancestor_keys p) \<Longrightarrow> length (fst a) < length (pp_portability_key p)"
  by (auto simp: ancestor_keys_def)

lemma ancestor_keys_unique:
  "a \<in> set (ancestor_keys p) \<Longrightarrow> b \<in> set (ancestor_keys p) \<Longrightarrow> fst a = fst b \<Longrightarrow> a = b"
  using ancestor_keys_distinct[of p] by (auto simp: distinct_map inj_on_def)

definition claims_fit :: "bytes list \<Rightarrow> (bytes \<times> bytes) list \<Rightarrow> (bytes \<rightharpoonup> bytes) \<Rightarrow> bool" where
  "claims_fit ks as m \<longleftrightarrow> (\<forall>a \<in> set as. fst a \<notin> set ks \<and> (\<forall>v. m (fst a) = Some v \<longrightarrow> v = snd a))"

lemma claims_fit_Cons:
  "claims_fit ks (a # as) m \<longleftrightarrow> fst a \<notin> set ks \<and> (\<forall>v. m (fst a) = Some v \<longrightarrow> v = snd a) \<and> claims_fit ks as m"
  by (simp add: claims_fit_def)

lemma claims_fit_upd: "k \<notin> fst ` set as \<Longrightarrow> claims_fit ks as (m(k \<mapsto> s)) = claims_fit ks as m"
  unfolding claims_fit_def by (intro ball_cong refl) (metis fun_upd_other imageI)

lemma map_add_claimed:
  assumes "k \<notin> fst ` set as"
  shows "m(k \<mapsto> s) ++ map_of as = m ++ map_of ((k, s) # as)"
    and "m k = Some s \<Longrightarrow> m ++ map_of as = m ++ map_of ((k, s) # as)"
proof -
  have "map_of as k = None" using assms by (simp add: map_of_eq_None_iff)
  then show "m(k \<mapsto> s) ++ map_of as = m ++ map_of ((k, s) # as)"
    and "m k = Some s \<Longrightarrow> m ++ map_of as = m ++ map_of ((k, s) # as)"
    by (auto simp: fun_eq_iff map_add_def split: option.split)
qed

lemma claim_ancestors_eq:
  "distinct (map fst as) \<Longrightarrow> claim_ancestors ks as m = (if claims_fit ks as m then Some (m ++ map_of as) else None)"
proof (induction as arbitrary: m)
  case (Cons a as)
  obtain k s where a: "a = (k, s)" by fastforce
  have fresh: "k \<notin> fst ` set as" "distinct (map fst as)" using Cons.prems a by auto
  note IH = Cons.IH[OF fresh(2)]
  show ?case
  proof (cases "k \<in> set ks")
    case True
    then show ?thesis using a by (simp add: claims_fit_Cons)
  next
    case out: False
    show ?thesis
    proof (cases "m k")
      case None
      then have "claim_ancestors ks (a # as) m = claim_ancestors ks as (m(k \<mapsto> s))" using a out by simp
      then show ?thesis
        unfolding IH claims_fit_upd[OF fresh(1)] map_add_claimed(1)[OF fresh(1)] a claims_fit_Cons
        using None out by simp
    next
      case (Some v)
      show ?thesis
      proof (cases "v = s")
        case True
        then have "claim_ancestors ks (a # as) m = claim_ancestors ks as m" using Some a out by simp
        moreover have "m ++ map_of as = m ++ map_of ((k, s) # as)" using map_add_claimed(2)[OF fresh(1)] Some True by simp
        moreover have "claims_fit ks (a # as) m = claims_fit ks as m" using Some out True a by (simp add: claims_fit_Cons)
        ultimately show ?thesis unfolding IH a by argo
      next
        case False
        then show ?thesis using Some a out by (simp add: claims_fit_Cons)
      qed
    qed
  qed
qed (simp add: claims_fit_def)



section \<open>The planning loop\<close>

definition spellings_agree :: "PayloadPath \<Rightarrow> PayloadPath \<Rightarrow> bool" where
  "spellings_agree p q \<longleftrightarrow>
     (\<forall>a \<in> set (ancestor_keys p). \<forall>b \<in> set (ancestor_keys q). fst a = fst b \<longrightarrow> snd a = snd b)"

lemma spellings_agree_sym: "spellings_agree p q \<longleftrightarrow> spellings_agree q p"
  unfolding spellings_agree_def by (metis (no_types))

lemma spellings_agree_self: "spellings_agree p p"
  unfolding spellings_agree_def using ancestor_keys_unique by blast

lemma all_pairs_snoc:
  "(\<forall>x \<in> set (ps @ [p]). \<forall>y \<in> set (ps @ [p]). R x y) \<longleftrightarrow>
     (\<forall>x \<in> set ps. \<forall>y \<in> set ps. R x y) \<and> (\<forall>y \<in> set ps. R p y) \<and> (\<forall>x \<in> set ps. R x p) \<and> R p p"
  by auto

lemma portable_tree_snoc:
  "portable_tree (ps @ [p]) \<longleftrightarrow> portable_tree ps \<and>
    pp_portability_key p \<notin> pp_portability_key ` set ps \<and>
    (\<forall>q \<in> set ps. pp_portability_key p \<notin> fst ` set (ancestor_keys q)) \<and>
    (\<forall>q \<in> set ps. pp_portability_key q \<notin> fst ` set (ancestor_keys p)) \<and>
    (\<forall>q \<in> set ps. spellings_agree p q)"
proof -
  have own: "pp_portability_key p \<notin> fst ` set (ancestor_keys p)" using ancestor_key_shorter by fastforce
  have flip: "(\<forall>q \<in> set ps. spellings_agree q p) \<longleftrightarrow> (\<forall>q \<in> set ps. spellings_agree p q)" using spellings_agree_sym by blast
  show ?thesis
    unfolding portable_tree_def spellings_agree_def[symmetric] all_pairs_snoc flip
    using own spellings_agree_self by auto
qed

lemma claims_fit_iff:
  assumes keys: "set ks = pp_portability_key ` set ps"
    and dirs: "\<And>k v. m k = Some v \<longleftrightarrow> (\<exists>q \<in> set ps. (k, v) \<in> set (ancestor_keys q))"
  shows "claims_fit ks (ancestor_keys p) m \<longleftrightarrow>
    (\<forall>q \<in> set ps. pp_portability_key q \<notin> fst ` set (ancestor_keys p)) \<and> (\<forall>q \<in> set ps. spellings_agree p q)"
proof -
  have "(\<forall>a \<in> set (ancestor_keys p). fst a \<notin> set ks) \<longleftrightarrow>
      (\<forall>q \<in> set ps. pp_portability_key q \<notin> fst ` set (ancestor_keys p))"
    unfolding keys by (auto simp: image_iff) (metis fst_conv)+
  moreover have "(\<forall>a \<in> set (ancestor_keys p). \<forall>v. m (fst a) = Some v \<longrightarrow> v = snd a) \<longleftrightarrow>
      (\<forall>q \<in> set ps. spellings_agree p q)"
    unfolding dirs spellings_agree_def by fastforce
  ultimately show ?thesis unfolding claims_fit_def by blast
qed

lemma offered_path_Ok: "payload_path_parse (pem_archive_path e) = Ok p \<Longrightarrow> offered_path e = p"
  by (simp add: offered_path_def)

lemma offered_snoc [simp]:
  "offered_bytes (es @ [e]) = offered_bytes es + unat (pem_size_bytes e)"
  "offered_path_bytes (es @ [e]) = offered_path_bytes es + length (pem_archive_path e)"
  by (simp_all add: offered_bytes_def offered_path_bytes_def)

lemma headroom:
  fixes used limit n :: u64
  assumes "unat used \<le> unat limit"
  shows "n > limit - used \<longleftrightarrow> \<not> unat used + unat n \<le> unat limit"
    and "unat used + unat n \<le> unat limit \<Longrightarrow> unat (used + n) = unat used + unat n"
proof -
  have "unat (limit - used) = unat limit - unat used" using assms by (simp add: unat_sub word_le_nat_alt)
  then show "n > limit - used \<longleftrightarrow> \<not> unat used + unat n \<le> unat limit"
    using assms by (auto simp: word_less_nat_alt)
  show "unat (used + n) = unat used + unat n" if "unat used + unat n \<le> unat limit"
  proof -
    have "unat limit < 2 ^ LENGTH(64)" by (rule unsigned_less)
    then show ?thesis using that by (simp add: unat_word_ariths)
  qed
qed

lemma parsed_length:
  assumes "is_ok (payload_path_parse p)"
  shows "\<exists>n. try_from_nat (length p) = Some (n :: u64) \<and> unat n = length p"
  using assms by (auto simp: is_ok_iff payload_path_parse_Ok try_from_nat_def MAXIMUM_PATH_BYTES_def unat_of_nat)

lemma layout_valid_prefix: "layout_valid l (es @ [e]) \<Longrightarrow> layout_valid l es"
  by (auto simp: layout_valid_def portable_tree_snoc)

lemma layout_entry_guards:
  assumes "layout_entry l e st = Ok st'"
  obtains p m where "payload_path_parse (pem_archive_path e) = Ok p"
    "pem_source_token e \<notin> set (lst_source_tokens st)"
    "\<not> (case try_from_nat (length (pem_archive_path e)) of Some n \<Rightarrow> n | None \<Rightarrow> - 1)
       > pil_maximum_path_bytes l - lst_total_path_bytes st"
    "pem_size_bytes e \<le> pil_maximum_entry_bytes l"
    "\<not> pem_size_bytes e > pil_maximum_total_bytes l - lst_total_bytes st"
    "pp_portability_key p \<notin> set (lst_file_keys st)" "lst_directory_spellings st (pp_portability_key p) = None"
    "claim_ancestors (lst_file_keys st) (ancestor_keys p) (lst_directory_spellings st) = Some m"
    "st' = \<lparr>lst_source_tokens = insort (pem_source_token e) (lst_source_tokens st),
       lst_file_keys = insort (pp_portability_key p) (lst_file_keys st), lst_directory_spellings = m,
       lst_planned = lst_planned st @
         [\<lparr>ppe_source_token = pem_source_token e, ppe_path = p, ppe_size_bytes = pem_size_bytes e\<rparr>],
       lst_total_bytes = lst_total_bytes st + pem_size_bytes e,
       lst_total_path_bytes = lst_total_path_bytes st +
         (case try_from_nat (length (pem_archive_path e)) of Some n \<Rightarrow> n | None \<Rightarrow> - 1)\<rparr>"
  using assms unfolding layout_entry_def btree_insert_def Let_def
  by (simp split: if_splits result.splits option.split_asm)

lemma key_iff: "k \<in> fst ` S \<longleftrightarrow> (\<exists>v. (k, v) \<in> S)"
  by (auto intro: rev_image_eqI)

lemma directory_known:
  "(\<And>v. (m k = Some v) = (\<exists>q \<in> Q. (k, v) \<in> set (ancestor_keys q))) \<Longrightarrow>
     (m k \<noteq> None) = (\<exists>q \<in> Q. k \<in> fst ` set (ancestor_keys q))"
  unfolding key_iff not_None_eq by blast

lemma directories_extend:
  assumes "claims_fit ks (ancestor_keys p) m"
  shows "(m ++ map_of (ancestor_keys p)) k = Some v \<longleftrightarrow> m k = Some v \<or> (k, v) \<in> set (ancestor_keys p)"
proof -
  have known: "map_of (ancestor_keys p) k = Some v \<longleftrightarrow> (k, v) \<in> set (ancestor_keys p)" for v
    using ancestor_keys_distinct by (simp add: map_of_eq_Some_iff)
  show ?thesis
  proof (cases "map_of (ancestor_keys p) k")
    case None
    then show ?thesis using known[of v] by (simp add: map_add_def)
  next
    case (Some u)
    then have "(k, u) \<in> set (ancestor_keys p)" using known by simp
    then have "m k = Some v \<Longrightarrow> v = u" using bspec[OF assms[unfolded claims_fit_def]] by fastforce
    then show ?thesis using Some known[of v] by (auto simp: map_add_def)
  qed
qed

lemma layout_entry_Ok:
  assumes valid: "layout_valid l es" and inv: "layout_inv es st"
  shows "layout_entry l e st = Ok st' \<Longrightarrow> layout_valid l (es @ [e]) \<and> layout_inv (es @ [e]) st'"
    and "layout_valid l (es @ [e]) \<Longrightarrow> is_ok (layout_entry l e st)"
proof -
  have tokens: "set (lst_source_tokens st) = set (map pem_source_token es)"
    and keys: "set (lst_file_keys st) = pp_portability_key ` set (map offered_path es)"
    and dirs: "\<And>k v. lst_directory_spellings st k = Some v \<longleftrightarrow>
        (\<exists>q \<in> set (map offered_path es). (k, v) \<in> set (ancestor_keys q))"
    and planned: "lst_planned st = map planned_of es"
    and sums: "unat (lst_total_bytes st) = offered_bytes es" "unat (lst_total_path_bytes st) = offered_path_bytes es"
    using inv by (auto simp: layout_inv_def)
  have room: "unat (lst_total_bytes st) \<le> unat (pil_maximum_total_bytes l)"
    "unat (lst_total_path_bytes st) \<le> unat (pil_maximum_path_bytes l)"
    using valid sums by (simp_all add: layout_valid_def)
  have busy: "lst_directory_spellings st k \<noteq> None \<longleftrightarrow> (\<exists>q \<in> set (map offered_path es). k \<in> fst ` set (ancestor_keys q))" for k
    using dirs by (rule directory_known)
  let ?n = "case try_from_nat (length (pem_archive_path e)) of Some n \<Rightarrow> n | None \<Rightarrow> (- 1 :: u64)"
  show "is_ok (layout_entry l e st)" if extended: "layout_valid l (es @ [e])"
  proof -
    obtain p where p: "payload_path_parse (pem_archive_path e) = Ok p"
      using extended by (auto simp: layout_valid_def is_ok_iff)
    then obtain n :: u64 where n: "try_from_nat (length (pem_archive_path e)) = Some n" "unat n = length (pem_archive_path e)"
      using parsed_length by (metis is_ok_iff)
    have tree: "portable_tree (map offered_path es @ [p])"
      using extended p by (simp add: layout_valid_def offered_path_Ok)
    have sums': "offered_bytes es + unat (pem_size_bytes e) \<le> unat (pil_maximum_total_bytes l)"
      "offered_path_bytes es + length (pem_archive_path e) \<le> unat (pil_maximum_path_bytes l)"
      "pem_source_token e \<notin> set (map pem_source_token es)" "pem_size_bytes e \<le> pil_maximum_entry_bytes l"
      using extended by (simp_all add: layout_valid_def)
    have guards: "\<not> n > pil_maximum_path_bytes l - lst_total_path_bytes st"
      "\<not> pem_size_bytes e > pil_maximum_total_bytes l - lst_total_bytes st"
      using sums' sums n(2) headroom(1)[OF room(1), of "pem_size_bytes e"] headroom(1)[OF room(2), of n] by simp_all
    have "claims_fit (lst_file_keys st) (ancestor_keys p) (lst_directory_spellings st)"
      using tree claims_fit_iff[OF keys dirs, of p] unfolding portable_tree_snoc by blast
    moreover have "pp_portability_key p \<notin> set (lst_file_keys st)" "lst_directory_spellings st (pp_portability_key p) = None"
      using tree busy[of "pp_portability_key p"] unfolding portable_tree_snoc keys by blast+
    ultimately show ?thesis using guards sums'(3,4) n(1) p
      unfolding layout_entry_def btree_insert_def tokens claim_ancestors_eq[OF ancestor_keys_distinct] by simp
  qed
  show "layout_valid l (es @ [e]) \<and> layout_inv (es @ [e]) st'" if run: "layout_entry l e st = Ok st'"
  proof -
    obtain p m where p: "payload_path_parse (pem_archive_path e) = Ok p"
      and fresh: "pem_source_token e \<notin> set (lst_source_tokens st)"
      and small: "\<not> ?n > pil_maximum_path_bytes l - lst_total_path_bytes st" "pem_size_bytes e \<le> pil_maximum_entry_bytes l"
        "\<not> pem_size_bytes e > pil_maximum_total_bytes l - lst_total_bytes st"
      and free: "pp_portability_key p \<notin> set (lst_file_keys st)" "lst_directory_spellings st (pp_portability_key p) = None"
      and claim: "claim_ancestors (lst_file_keys st) (ancestor_keys p) (lst_directory_spellings st) = Some m"
      and st': "st' = \<lparr>lst_source_tokens = insort (pem_source_token e) (lst_source_tokens st),
          lst_file_keys = insort (pp_portability_key p) (lst_file_keys st), lst_directory_spellings = m,
          lst_planned = lst_planned st @ [\<lparr>ppe_source_token = pem_source_token e, ppe_path = p, ppe_size_bytes = pem_size_bytes e\<rparr>],
          lst_total_bytes = lst_total_bytes st + pem_size_bytes e, lst_total_path_bytes = lst_total_path_bytes st + ?n\<rparr>"
      by (rule layout_entry_guards[OF run])
    obtain n :: u64 where n: "?n = n" "unat n = length (pem_archive_path e)"
      using parsed_length[of "pem_archive_path e"] p by (auto simp: is_ok_iff)
    have op: "offered_path e = p" using p by (rule offered_path_Ok)
    have m: "claims_fit (lst_file_keys st) (ancestor_keys p) (lst_directory_spellings st)"
      "m = lst_directory_spellings st ++ map_of (ancestor_keys p)"
      using claim by (auto simp: claim_ancestors_eq[OF ancestor_keys_distinct] split: if_splits)
    have tree: "portable_tree (map offered_path es @ [p])"
      using valid m(1) free keys busy[of "pp_portability_key p"] claims_fit_iff[OF keys dirs, of p]
      by (auto simp: portable_tree_snoc layout_valid_def)
    have fit: "unat (lst_total_bytes st) + unat (pem_size_bytes e) \<le> unat (pil_maximum_total_bytes l)"
      "unat (lst_total_path_bytes st) + unat n \<le> unat (pil_maximum_path_bytes l)"
      using small(1,3) headroom(1)[OF room(1), of "pem_size_bytes e"] headroom(1)[OF room(2), of n] n(1) by simp_all
    have "layout_valid l (es @ [e])"
      using valid tree op fresh tokens small(2) p fit sums n(2) by (auto simp: layout_valid_def is_ok_iff)
    moreover have "(m k = Some v) = (\<exists>q \<in> set (map offered_path (es @ [e])). (k, v) \<in> set (ancestor_keys q))" for k v
      unfolding m(2) directories_extend[OF m(1)] dirs using op by auto
    ultimately show ?thesis
      using tokens keys planned sums n op headroom(2)[OF room(1) fit(1)] headroom(2)[OF room(2) fit(2)]
      unfolding layout_inv_def st' by (simp add: set_insort_key planned_of_def image_image)
  qed
qed

lemma layout_valid_take: "layout_valid l (es @ fs) \<Longrightarrow> layout_valid l es"
  by (induction fs rule: rev_induct) (auto dest: layout_valid_prefix[of l "es @ _", simplified])

lemma layout_entries_run:
  assumes "layout_valid l es" and "layout_inv es st"
  shows "case layout_entries l i fs st of
      Ok st' \<Rightarrow> layout_valid l (es @ fs) \<and> layout_inv (es @ fs) st'
    | Err r \<Rightarrow> (\<exists>k < length fs. rej_entry_index r = Some (i + k) \<and> layout_valid l (es @ take k fs) \<and>
        \<not> layout_valid l (es @ take (Suc k) fs))"
  using assms
proof (induction fs arbitrary: es st i)
  case (Cons f fs)
  show ?case
  proof (cases "layout_entry l f st")
    case (Err e)
    then have "\<not> layout_valid l (es @ [f])" using layout_entry_Ok(2)[OF Cons.prems, of f] by auto
    then show ?thesis using Err Cons.prems(1) by (auto intro!: exI[of _ 0])
  next
    case (Ok st1)
    have "layout_valid l (es @ [f])" "layout_inv (es @ [f]) st1" using layout_entry_Ok(1)[OF Cons.prems Ok] by simp_all
    note after = Cons.IH[OF this, of "Suc i"]
    show ?thesis
    proof (cases "layout_entries l (Suc i) fs st1")
      case err: (Err r)
      with after obtain k where "k < length fs" "rej_entry_index r = Some (Suc i + k)"
        "layout_valid l ((es @ [f]) @ take k fs)" "\<not> layout_valid l ((es @ [f]) @ take (Suc k) fs)" by auto
      then show ?thesis using Ok err by (auto intro!: exI[of _ "Suc k"])
    next
      case ok: (Ok st2)
      then show ?thesis using Ok after by simp
    qed
  qed
qed simp

lemma layout_start_inv: "layout_valid l []" "layout_inv [] layout_start"
  by (simp_all add: layout_valid_def layout_inv_def layout_start_def portable_tree_def offered_bytes_def
      offered_path_bytes_def)


lemma plan_payload_layout_report:
  "case plan_payload_layout es limits of
     Ok layout \<Rightarrow>
       coherent limits \<and> length es \<le> pil_maximum_entries limits \<and> layout_valid limits es \<and>
       lay_entries layout = sort_key (\<lambda>e. pp_portability_key (ppe_path e)) (map planned_of es) \<and>
       unat (lay_total_bytes layout) = offered_bytes es
   | Err rejection \<Rightarrow>
       (case rej_entry_index rejection of
          None \<Rightarrow> \<not> (coherent limits \<and> length es \<le> pil_maximum_entries limits)
        | Some i \<Rightarrow> i < length es \<and> layout_valid limits (take i es) \<and> \<not> layout_valid limits (take (Suc i) es))"
proof (cases "coherent limits \<and> length es \<le> pil_maximum_entries limits")
  case False
  then show ?thesis by (auto simp: plan_payload_layout_def)
next
  case True
  note run = layout_entries_run[OF layout_start_inv, where l = limits and i = 0 and fs = es]
  show ?thesis
  proof (cases "layout_entries limits 0 es layout_start")
    case (Err r)
    then show ?thesis using True run by (auto simp: plan_payload_layout_def)
  next
    case (Ok st)
    then show ?thesis using True run by (simp add: plan_payload_layout_def layout_inv_def)
  qed
qed

lemma plan_payload_layout_Ok:
  "plan_payload_layout es limits = Ok layout \<longleftrightarrow>
     coherent limits \<and> length es \<le> pil_maximum_entries limits \<and> layout_valid limits es \<and>
     lay_entries layout = sort_key (\<lambda>e. pp_portability_key (ppe_path e)) (map planned_of es) \<and>
     unat (lay_total_bytes layout) = offered_bytes es"
proof
  assume "plan_payload_layout es limits = Ok layout"
  then show "coherent limits \<and> length es \<le> pil_maximum_entries limits \<and> layout_valid limits es \<and>
     lay_entries layout = sort_key (\<lambda>e. pp_portability_key (ppe_path e)) (map planned_of es) \<and>
     unat (lay_total_bytes layout) = offered_bytes es"
    using plan_payload_layout_report[of limits es] by simp
next
  assume ok: "coherent limits \<and> length es \<le> pil_maximum_entries limits \<and> layout_valid limits es \<and>
     lay_entries layout = sort_key (\<lambda>e. pp_portability_key (ppe_path e)) (map planned_of es) \<and>
     unat (lay_total_bytes layout) = offered_bytes es"
  have pre: "layout_valid limits (take k es)" for k
    using ok layout_valid_take[of limits "take k es" "drop k es"] by simp
  show "plan_payload_layout es limits = Ok layout"
  proof (cases "plan_payload_layout es limits")
    case (Err r)
    then show ?thesis using plan_payload_layout_report[of limits es] ok pre by (auto split: option.splits)
  next
    case (Ok lay)
    then have "lay_entries lay = lay_entries layout" "unat (lay_total_bytes lay) = unat (lay_total_bytes layout)"
      using plan_payload_layout_report[of limits es] ok by simp_all
    then have "lay = layout" by (cases lay; cases layout) (simp add: word_unat_eq_iff)
    then show ?thesis using Ok by simp
  qed
qed

lemma layout_valid_perm:
  assumes "mset es = mset fs"
  shows "layout_valid l es \<longleftrightarrow> layout_valid l fs"
proof -
  have sets: "set es = set fs" using assms by (rule mset_eq_setD)
  have sums: "offered_bytes es = offered_bytes fs" "offered_path_bytes es = offered_path_bytes fs"
    using assms unfolding offered_bytes_def offered_path_bytes_def by (metis mset_map sum_mset_sum_list)+
  have dist: "distinct (map pem_source_token es) \<longleftrightarrow> distinct (map pem_source_token fs)"
    "distinct (map pp_portability_key (map offered_path es)) \<longleftrightarrow> distinct (map pp_portability_key (map offered_path fs))"
    using assms by (metis mset_map mset_eq_imp_distinct_iff)+
  show ?thesis unfolding layout_valid_def portable_tree_def dist sums list_all_iff set_map sets ..
qed


section \<open>The properties\<close>

text \<open>
  C36: a destination plan is exact.  A plan is returned only for coherent limits and at most the allowed
  number of entries, with distinct tokens, portable paths, every size and both sums within their limits
  in exact arithmetic, and a tree that can exist where case does not count: no two files share a folded
  name, no file is a directory of another, every directory has one spelling.  The plan then holds every
  entry once, ordered by folded name, with the exact total.  Otherwise the rejection names the whole set,
  when the limits or the count refuse it, or the first entry that makes the entries up to it invalid.
\<close>

theorem payload_layout_exact:
  "case plan_payload_layout es limits of
     Ok layout \<Rightarrow>
       coherent limits \<and> length es \<le> pil_maximum_entries limits \<and> layout_valid limits es \<and>
       lay_entries layout = sort_key (\<lambda>e. pp_portability_key (ppe_path e)) (map planned_of es) \<and>
       unat (lay_total_bytes layout) = offered_bytes es
   | Err rejection \<Rightarrow>
       (case rej_entry_index rejection of
          None \<Rightarrow> \<not> (coherent limits \<and> length es \<le> pil_maximum_entries limits)
        | Some i \<Rightarrow> i < length es \<and> layout_valid limits (take i es) \<and> \<not> layout_valid limits (take (Suc i) es))"
  by (rule plan_payload_layout_report)

text \<open>
  The same entries in another order give the same plan: the order the staging identity is computed over
  does not depend on the order of the archive.
\<close>

theorem payload_layout_deterministic:
  assumes "mset es = mset fs" and "plan_payload_layout es limits = Ok layout"
  shows "plan_payload_layout fs limits = Ok layout"
proof -
  let ?key = "\<lambda>e. pp_portability_key (ppe_path e)"
  have one: "coherent limits" "length es \<le> pil_maximum_entries limits" "layout_valid limits es"
    "lay_entries layout = sort_key ?key (map planned_of es)" "unat (lay_total_bytes layout) = offered_bytes es"
    using assms(2) unfolding plan_payload_layout_Ok by blast+
  have valid: "layout_valid limits fs" using layout_valid_perm[OF assms(1)] one(3) by simp
  have len: "length es = length fs" using assms(1) by (metis size_mset)
  have dist: "distinct (map ?key (map planned_of gs))" if "layout_valid limits gs" for gs
    using that by (simp add: layout_valid_def portable_tree_def planned_of_def o_def)
  have same: "set (map planned_of es) = set (map planned_of fs)" using mset_eq_setD[OF assms(1)] by simp
  have "sort_key ?key (map planned_of es) = sort_key ?key (map planned_of fs)"
  proof (rule map_sorted_distinct_set_unique[of ?key])
    show "inj_on ?key (set (sort_key ?key (map planned_of es)) \<union> set (sort_key ?key (map planned_of fs)))"
      using dist[OF valid] same by (simp only: set_sort Un_absorb distinct_map)
  qed (use dist[OF valid] dist[OF one(3)] same in \<open>simp_all only: sorted_sort_key set_sort distinct_map distinct_sort\<close>)
  moreover have "offered_bytes es = offered_bytes fs"
    using assms(1) unfolding offered_bytes_def by (metis mset_map sum_mset_sum_list)
  ultimately show ?thesis unfolding plan_payload_layout_Ok using one valid len by simp
qed

end
