(* ===== verification/Payload_Store.thy ===== *)
theory Payload_Store
  imports Atomic_Directory Payload_Layout
begin

text \<open>
  \<open>store.rs\<close> of crate \<open>ohl-payload\<close>: plans, the transaction over one staging directory, the probe of a
  published payload and the recovery of interrupted stages.  A transaction acts on its own fields and on
  the file system of its root; a \<open>BTreeSet\<close> of names is the sorted list of its elements.  A probe is one
  inspection: others only add names, so what is below a directory does not change while it is read.
\<close>


section \<open>Plans\<close>

definition PUBLISHED_PREFIX :: bytes where "PUBLISHED_PREFIX = ascii ''ohl-tree-''"
definition STAGING_PREFIX :: bytes where "STAGING_PREFIX = ascii ''ohl-payload''"
definition FILES_DIRECTORY :: bytes where "FILES_DIRECTORY = ascii ''files''"
definition COMPLETION_NAME :: bytes where "COMPLETION_NAME = ascii ''.ohl-payload-complete-v1''"
definition COMPLETION_FORMAT :: bytes where "COMPLETION_FORMAT = ascii ''ohl-payload-completion-v1''"
definition HEX :: bytes where "HEX = ascii ''0123456789abcdef''"
definition MAXIMUM_COMPLETION_BYTES :: nat where "MAXIMUM_COMPLETION_BYTES = 4096"
definition MAXIMUM_IDENTITY_BYTES :: nat where "MAXIMUM_IDENTITY_BYTES = 96"
definition MAXIMUM_CHUNK_BYTES :: nat where "MAXIMUM_CHUNK_BYTES = 1024 * 1024"

datatype PayloadStoreError =
    StoreInvalidState | StoreIoFailure | StoreUnsafeDestination | StoreResourceExhausted | StoreUnsupported

fun store_error_of_atomic :: "AtomicDirectoryError \<Rightarrow> PayloadStoreError" where
  "store_error_of_atomic AdInvalidState = StoreInvalidState"
| "store_error_of_atomic AdUnsafeDestination = StoreUnsafeDestination"
| "store_error_of_atomic AdResourceExhausted = StoreResourceExhausted"
| "store_error_of_atomic AdUnsupported = StoreUnsupported"
| "store_error_of_atomic AdIoFailure = StoreIoFailure"

record StagingEntry =
  se_components :: "bytes list"
  se_size_bytes :: u64

record StagingPlan =
  sp_identity :: bytes
  sp_entries :: "StagingEntry list"
  sp_total_bytes :: u64

definition valid_component :: "bytes \<Rightarrow> bool" where
  "valid_component c \<longleftrightarrow>
     c \<noteq> [] \<and> c \<noteq> [DOT] \<and> c \<noteq> [DOT, DOT] \<and> SLASH \<notin> set c \<and> BACKSLASH \<notin> set c \<and> 0 \<notin> set c"

definition identity_acceptable :: "bytes \<Rightarrow> bool" where
  "identity_acceptable identity \<longleftrightarrow>
     \<not> (identity = [] \<or> length identity > MAXIMUM_IDENTITY_BYTES
        \<or> \<not> list_all (\<lambda>b. 0x21 \<le> b \<and> b \<le> 0x7E) identity)"

fun plan_total :: "u64 \<Rightarrow> StagingEntry list \<Rightarrow> (PayloadStoreError, u64) result" where
  "plan_total total_bytes [] = Ok total_bytes"
| "plan_total total_bytes (entry # entries) =
     (if se_components entry = [] then Err StoreInvalidState
      else if \<not> list_all valid_component (se_components entry) then Err StoreInvalidState
      else
        case checked_add total_bytes (se_size_bytes entry) of
          None \<Rightarrow> Err StoreInvalidState
        | Some total_bytes \<Rightarrow> plan_total total_bytes entries)"

definition staging_plan_new :: "bytes \<Rightarrow> StagingEntry list \<Rightarrow> (PayloadStoreError, StagingPlan) result" where
  "staging_plan_new identity entries =
     (if \<not> identity_acceptable identity then Err StoreInvalidState
      else and_then (plan_total 0 entries) (\<lambda>total_bytes.
        Ok \<lparr>sp_identity = identity, sp_entries = entries, sp_total_bytes = total_bytes\<rparr>))"

definition hex_encode :: "bytes \<Rightarrow> bytes" where
  "hex_encode bs = concat (map (\<lambda>b. [HEX ! unat (drop_bit 4 b), HEX ! unat (and b 0x0F)]) bs)"

definition published_directory_name :: "bytes \<Rightarrow> bytes option" where
  "published_directory_name identity =
     (if \<not> identity_acceptable identity then None else Some (PUBLISHED_PREFIX @ hex_encode identity))"

definition published_name :: "StagingPlan \<Rightarrow> bytes" where
  "published_name plan = (case published_directory_name (sp_identity plan) of None \<Rightarrow> [] | Some name \<Rightarrow> name)"

definition published_files_directory :: "bytes \<Rightarrow> path option" where
  "published_files_directory identity =
     map_option (\<lambda>name. [name, FILES_DIRECTORY]) (published_directory_name identity)"

definition QUOTE :: u8 where "QUOTE = 0x22"

definition quoted :: "bytes \<Rightarrow> bytes" where
  "quoted bs = QUOTE # bs @ [QUOTE]"

definition completion_document :: "StagingPlan \<Rightarrow> bytes" where
  "completion_document plan =
     ascii ''{'' @ quoted (ascii ''format'') @ ascii '':'' @ quoted COMPLETION_FORMAT
     @ ascii '','' @ quoted (ascii ''identity'') @ ascii '':'' @ quoted (sp_identity plan)
     @ ascii '','' @ quoted (ascii ''entry_count'') @ ascii '':'' @ format_dec (length (sp_entries plan))
     @ ascii '','' @ quoted (ascii ''total_bytes'') @ ascii '':'' @ format_dec (unat (sp_total_bytes plan)) @ ascii ''}''"


section \<open>Transactions\<close>

datatype ProbeState = Absent | Matching | Conflicting

datatype PublishState = StatePublished | StateDestinationExists

datatype TransactionState = TxCreated | TxStaging | TxReady | TxPublished | TxFinished

record OpenFile =
  of_path :: path
  of_expected_size :: u64
  of_written :: u64

record DirectoryTransaction =
  dt_state :: TransactionState
  dt_staging :: "StagingDirectory option"
  dt_plan :: "StagingPlan option"
  dt_created_directories :: "bytes list"
  dt_next_entry :: nat
  dt_open_file :: "OpenFile option"

definition create_transaction :: DirectoryTransaction where
  "create_transaction =
     \<lparr>dt_state = TxCreated, dt_staging = None, dt_plan = None, dt_created_directories = [],
      dt_next_entry = 0, dt_open_file = None\<rparr>"

type_synonym dtx = "DirectoryTransaction \<times> FileSystem"

fun map_io :: "IoErrorKind \<Rightarrow> PayloadStoreError" where
  "map_io KindAlreadyExists = StoreUnsafeDestination"
| "map_io KindPermissionDenied = StoreUnsafeDestination"
| "map_io KindOutOfMemory = StoreResourceExhausted"
| "map_io KindStorageFull = StoreResourceExhausted"
| "map_io _ = StoreIoFailure"

text \<open>A call of \<open>std::fs\<close> with its error classified by \<open>map_io\<close>.\<close>

definition on_fs :: "(FileSystem, IoErrorKind, 'a) stm \<Rightarrow> (dtx, PayloadStoreError, 'a) stm" where
  "on_fs call s = (case call (snd s) of (r, fs) \<Rightarrow> (map_err map_io r, (fst s, fs)))"

definition sync_directory :: "path \<Rightarrow> (dtx, PayloadStoreError, unit) stm" where
  "sync_directory p = st_bind (on_fs (os_open p)) (\<lambda>_. on_fs os_sync_all)"

definition staging_path :: "DirectoryTransaction \<Rightarrow> (PayloadStoreError, path) result" where
  "staging_path dt = ok_or StoreInvalidState (map_option sd_path (dt_staging dt))"

fun create_directories :: "path \<Rightarrow> bytes \<Rightarrow> bytes list \<Rightarrow> (dtx, PayloadStoreError, path) stm" where
  "create_directories p relative [] s = (Ok p, s)"
| "create_directories p relative (c # cs) (dt, fs) =
     (let relative = (if relative = [] then relative else relative @ [SLASH]) @ c;
          p = p @ [c]
      in if relative \<in> set (dt_created_directories dt) then create_directories p relative cs (dt, fs)
         else
           st_bind (on_fs (os_create_dir p)) (\<lambda>_. create_directories p relative cs)
             (dt\<lparr>dt_created_directories := insort relative (dt_created_directories dt)\<rparr>, fs))"

definition create_parents :: "bytes list \<Rightarrow> (dtx, PayloadStoreError, path) stm" where
  "create_parents cs s =
     (case staging_path (fst s) of
        Err e \<Rightarrow> (Err e, s)
      | Ok p \<Rightarrow>
          (case create_directories (p @ [FILES_DIRECTORY]) [] (butlast cs) s of
             (Err e, s) \<Rightarrow> (Err e, s)
           | (Ok p, s) \<Rightarrow> (Ok (p @ [last cs]), s)))"

definition create_new_file :: "path \<Rightarrow> (dtx, PayloadStoreError, unit) stm" where
  "create_new_file p = on_fs (os_create_new p)"

text \<open>A staging directory that is dropped because its \<open>files\<close> directory was refused is removed.\<close>

definition tx_begin :: "StagingPlan \<Rightarrow> (dtx, PayloadStoreError, unit) stm" where
  "tx_begin plan s =
     (if dt_state (fst s) \<noteq> TxCreated then (Err StoreInvalidState, s)
      else
        case staging_create [] STAGING_PREFIX (snd s) of
          (Err e, fs) \<Rightarrow> (Err (store_error_of_atomic e), (fst s, fs))
        | (Ok staging, fs) \<Rightarrow>
            (case on_fs (os_create_dir (sd_path staging @ [FILES_DIRECTORY])) (fst s, fs) of
               (Err e, (dt, fs)) \<Rightarrow> (Err e, (dt, staging_drop staging fs))
             | (Ok _, (dt, fs)) \<Rightarrow>
                 (Ok (), (dt\<lparr>dt_staging := Some staging, dt_plan := Some plan, dt_state := TxStaging\<rparr>, fs))))"

definition tx_open_file :: "bytes list \<Rightarrow> u64 \<Rightarrow> (dtx, PayloadStoreError, unit) stm" where
  "tx_open_file cs expected_size s =
     (let dt = fst s in
      if dt_state dt \<noteq> TxStaging \<or> dt_open_file dt \<noteq> None then (Err StoreInvalidState, s)
      else
        case dt_plan dt of
          None \<Rightarrow> (Err StoreInvalidState, s)
        | Some plan \<Rightarrow>
            if \<not> dt_next_entry dt < length (sp_entries plan) then (Err StoreInvalidState, s)
            else
              let expected = sp_entries plan ! dt_next_entry dt in
              if se_components expected \<noteq> cs \<or> se_size_bytes expected \<noteq> expected_size
              then (Err StoreInvalidState, s)
              else
                st_bind (create_parents cs) (\<lambda>p.
                st_bind (create_new_file p) (\<lambda>_ (dt, fs).
                  (Ok (), (dt\<lparr>dt_open_file :=
                     Some \<lparr>of_path = p, of_expected_size = expected_size, of_written = 0\<rparr>\<rparr>, fs)))) s)"

definition tx_write_chunk :: "bytes \<Rightarrow> (dtx, PayloadStoreError, unit) stm" where
  "tx_write_chunk bs s =
     (let dt = fst s in
      if dt_state dt \<noteq> TxStaging \<or> length bs > MAXIMUM_CHUNK_BYTES then (Err StoreInvalidState, s)
      else
        case dt_open_file dt of
          None \<Rightarrow> (Err StoreInvalidState, s)
        | Some opened \<Rightarrow>
            let offered = (case try_from_nat (length bs) of Some n \<Rightarrow> n | None \<Rightarrow> - 1) in
            if offered > of_expected_size opened - of_written opened then (Err StoreInvalidState, s)
            else
              st_bind (on_fs (os_write_all (of_path opened) bs)) (\<lambda>_ (dt, fs).
                (Ok (), (dt\<lparr>dt_open_file := Some (opened\<lparr>of_written := of_written opened + offered\<rparr>)\<rparr>, fs))) s)"

definition tx_seal_file :: "(dtx, PayloadStoreError, unit) stm" where
  "tx_seal_file s =
     (let dt = fst s in
      if dt_state dt \<noteq> TxStaging then (Err StoreInvalidState, s)
      else
        case dt_open_file dt of
          None \<Rightarrow> (Err StoreInvalidState, s)
        | Some opened \<Rightarrow>
            let s = (dt\<lparr>dt_open_file := None\<rparr>, snd s) in
            if of_written opened \<noteq> of_expected_size opened then (Err StoreInvalidState, s)
            else
              st_bind (on_fs os_sync_all) (\<lambda>_ (dt, fs).
                (Ok (), (dt\<lparr>dt_next_entry := dt_next_entry dt + 1\<rparr>, fs))) s)"

fun sync_directories :: "path list \<Rightarrow> (dtx, PayloadStoreError, unit) stm" where
  "sync_directories [] s = (Ok (), s)"
| "sync_directories (p # ps) s = st_bind (sync_directory p) (\<lambda>_. sync_directories ps) s"

text \<open>Deepest first: by the number of slashes, with the order of the names kept among equals.\<close>

definition deepest_first :: "bytes list \<Rightarrow> bytes list" where
  "deepest_first names = sort_key (\<lambda>n. - int (length (filter (\<lambda>b. b = SLASH) n))) names"

definition tx_seal_completion :: "(dtx, PayloadStoreError, unit) stm" where
  "tx_seal_completion s =
     (let dt = fst s in
      case dt_plan dt of
        None \<Rightarrow> (Err StoreInvalidState, s)
      | Some plan \<Rightarrow>
          if dt_state dt \<noteq> TxStaging \<or> dt_open_file dt \<noteq> None \<or> dt_next_entry dt \<noteq> length (sp_entries plan)
          then (Err StoreInvalidState, s)
          else if length (completion_document plan) > MAXIMUM_COMPLETION_BYTES then (Err StoreInvalidState, s)
          else
            case staging_path dt of
              Err e \<Rightarrow> (Err e, s)
            | Ok staging \<Rightarrow>
                st_bind (create_new_file (staging @ [COMPLETION_NAME])) (\<lambda>_.
                st_bind (on_fs (os_write_all (staging @ [COMPLETION_NAME]) (completion_document plan))) (\<lambda>_.
                st_bind (on_fs os_sync_all) (\<lambda>_.
                st_bind (sync_directories
                    (map (\<lambda>relative. staging @ [FILES_DIRECTORY] @ split_on (\<lambda>b. b = SLASH) relative)
                      (deepest_first (dt_created_directories dt)))) (\<lambda>_.
                st_bind (sync_directory (staging @ [FILES_DIRECTORY])) (\<lambda>_.
                st_bind (sync_directory staging) (\<lambda>_ (dt, fs).
                  (Ok (), (dt\<lparr>dt_state := TxReady\<rparr>, fs)))))))) s)"

definition tx_publish_no_replace :: "(dtx, PayloadStoreError, PublishState) stm" where
  "tx_publish_no_replace s =
     (let dt = fst s in
      if dt_state dt \<noteq> TxReady then (Err StoreInvalidState, s)
      else
        case dt_plan dt of
          None \<Rightarrow> (Err StoreInvalidState, s)
        | Some plan \<Rightarrow>
            (case dt_staging dt of
               None \<Rightarrow> (Err StoreInvalidState, s)
             | Some staging \<Rightarrow>
                 (case staging_publish_no_replace staging [published_name plan] (snd s) of
                    (Ok OutcomePublished, fs) \<Rightarrow>
                      (Ok StatePublished, (dt\<lparr>dt_staging := None, dt_state := TxPublished\<rparr>, fs))
                  | (Ok (OutcomeDestinationExists returned), fs) \<Rightarrow>
                      (Ok StateDestinationExists, (dt\<lparr>dt_staging := Some returned\<rparr>, fs))
                  | (Err (returned, e), fs) \<Rightarrow>
                      (Err (store_error_of_atomic e), (dt\<lparr>dt_staging := Some returned\<rparr>, fs)))))"

definition tx_sync_published_parent :: "(dtx, PayloadStoreError, unit) stm" where
  "tx_sync_published_parent s =
     (if dt_state (fst s) \<noteq> TxPublished then (Err StoreInvalidState, s) else sync_directory [] s)"

definition tx_abort :: "(dtx, PayloadStoreError, unit) stm" where
  "tx_abort s =
     (let dt = fst s in
      if dt_state dt = TxPublished then (Err StoreInvalidState, s)
      else
        let finished = dt\<lparr>dt_open_file := None, dt_staging := None, dt_state := TxFinished\<rparr> in
        case dt_staging dt of
          None \<Rightarrow> (Ok (), (finished, snd s))
        | Some staging \<Rightarrow>
            (case staging_abort staging (snd s) of
               (r, fs) \<Rightarrow> (map_err store_error_of_atomic r, (finished, fs))))"

definition tx_drop :: "dtx \<Rightarrow> dtx" where
  "tx_drop s =
     (case dt_staging (fst s) of
        None \<Rightarrow> s
      | Some staging \<Rightarrow> ((fst s)\<lparr>dt_staging := None\<rparr>, staging_drop staging (snd s)))"


section \<open>The probe of a published payload\<close>

definition fault_at :: "(ReadCall \<Rightarrow> IoErrorKind option) \<Rightarrow> ReadCall \<Rightarrow> IoErrorKind option" where
  "fault_at reads call = (case reads call of Some KindNotFound \<Rightarrow> Some KindOther | fault \<Rightarrow> fault)"

definition os_symlink_metadata ::
  "(ReadCall \<Rightarrow> IoErrorKind option) \<Rightarrow> nodes \<Rightarrow> path \<Rightarrow> (IoErrorKind, Node) result" where
  "os_symlink_metadata reads ns p =
     (case fault_at reads (Metadata p) of
        Some k \<Rightarrow> Err k
      | None \<Rightarrow> ok_or KindNotFound (map_of ns p))"

text \<open>The names in a directory, in the order the listing yields them.\<close>

definition child_names :: "nodes \<Rightarrow> path \<Rightarrow> bytes list" where
  "child_names ns p = remdups (map last (filter (\<lambda>q. q \<noteq> [] \<and> butlast q = p) (map fst ns)))"

definition os_read_dir ::
  "(ReadCall \<Rightarrow> IoErrorKind option) \<Rightarrow> nodes \<Rightarrow> path \<Rightarrow> (IoErrorKind, bytes list) result" where
  "os_read_dir reads ns p =
     (case fault_at reads (ReadDir p) of
        Some k \<Rightarrow> Err k
      | None \<Rightarrow>
          if is_directory ns p then Ok (child_names ns p)
          else if map_of ns p = None then Err KindNotFound else Err KindOther)"

definition os_read_file ::
  "(ReadCall \<Rightarrow> IoErrorKind option) \<Rightarrow> nodes \<Rightarrow> path \<Rightarrow> (IoErrorKind, bytes) result" where
  "os_read_file reads ns p =
     (case fault_at reads (ReadFile p) of
        Some k \<Rightarrow> Err k
      | None \<Rightarrow>
          (case map_of ns p of
             Some (FileNode bs) \<Rightarrow> Ok bs
           | None \<Rightarrow> Err KindNotFound
           | _ \<Rightarrow> Err KindOther))"

definition file_len :: "bytes \<Rightarrow> u64" where
  "file_len bs = (case try_from_nat (length bs) of Some n \<Rightarrow> n | None \<Rightarrow> - 1)"

type_synonym collected = "(bytes \<times> u64) set \<times> bytes set"

definition nodes_below :: "nodes \<Rightarrow> path \<Rightarrow> nat" where
  "nodes_below ns p = card {q \<in> set (map fst ns). strict_prefix p q}"

lemma nodes_below_child:
  assumes "map_of ns (p @ [n]) = Some d"
  shows "nodes_below ns (p @ [n]) < nodes_below ns p"
  unfolding nodes_below_def
proof (rule psubset_card_mono)
  have "p @ [n] \<in> set (map fst ns)" using map_of_SomeD[OF assms] by force
  then have "p @ [n] \<in> {q \<in> set (map fst ns). strict_prefix p q}" by (simp add: strict_prefix_def)
  moreover have "{q \<in> set (map fst ns). strict_prefix (p @ [n]) q} \<subseteq> {q \<in> set (map fst ns). strict_prefix p q}"
    by (auto simp: strict_prefix_def prefix_def)
  moreover have "p @ [n] \<notin> {q \<in> set (map fst ns). strict_prefix (p @ [n]) q}" by simp
  ultimately show "{q \<in> set (map fst ns). strict_prefix (p @ [n]) q} \<subset> {q \<in> set (map fst ns). strict_prefix p q}"
    by blast
qed simp

function (sequential) collect_tree ::
  "(ReadCall \<Rightarrow> IoErrorKind option) \<Rightarrow> nodes \<Rightarrow> path \<Rightarrow> bytes \<Rightarrow> collected \<Rightarrow>
     (PayloadStoreError, bool \<times> collected) result"
and collect_entries ::
  "(ReadCall \<Rightarrow> IoErrorKind option) \<Rightarrow> nodes \<Rightarrow> path \<Rightarrow> bytes \<Rightarrow> bytes list \<Rightarrow> collected \<Rightarrow>
     (PayloadStoreError, bool \<times> collected) result" where
  "collect_tree reads ns p pre acc =
     (case os_read_dir reads ns p of
        Err KindNotFound \<Rightarrow> Ok (False, acc)
      | Err _ \<Rightarrow> Err StoreIoFailure
      | Ok names \<Rightarrow> collect_entries reads ns p pre names acc)"
| "collect_entries reads ns p pre [] acc = Ok (True, acc)"
| "collect_entries reads ns p pre (name # names) (files, directories) =
     (if fault_at reads (NextEntry (p @ [name])) \<noteq> None then Err StoreIoFailure
      else if \<not> from_utf8_ok name \<or> \<not> valid_component name then Ok (False, (files, directories))
      else
        case os_symlink_metadata reads ns (p @ [name]) of
          Err _ \<Rightarrow> Err StoreIoFailure
        | Ok node \<Rightarrow>
            let entry = (if pre = [] then pre else pre @ [SLASH]) @ name in
            case node of
              DirNode \<Rightarrow>
                (case collect_tree reads ns (p @ [name]) entry (files, insert entry directories) of
                   Err e \<Rightarrow> Err e
                 | Ok (accepted, acc) \<Rightarrow>
                     if accepted then collect_entries reads ns p pre names acc else Ok (False, acc))
            | FileNode bs \<Rightarrow> collect_entries reads ns p pre names (insert (entry, file_len bs) files, directories)
            | _ \<Rightarrow> Ok (False, (files, directories)))"
  by pat_completeness auto
termination
proof (relation "measures
    [case_sum (\<lambda>(reads, ns, p, pre, acc). nodes_below ns p) (\<lambda>(reads, ns, p, pre, names, acc). nodes_below ns p),
     case_sum (\<lambda>_. 1) (\<lambda>_. 0),
     case_sum (\<lambda>_. 0) (\<lambda>(reads, ns, p, pre, names, acc). length names)]")
qed (auto simp: os_symlink_metadata_def ok_or_Ok split: option.splits intro: nodes_below_child)

fun expected_tree :: "StagingEntry list \<Rightarrow> collected" where
  "expected_tree [] = ({}, {})"
| "expected_tree (e # es) =
     (let (files, directories) = expected_tree es in
      (insert (join_path (se_components e), se_size_bytes e) files,
       (\<lambda>k. join_path (take k (se_components e))) ` {1..<length (se_components e)} \<union> directories))"

text \<open>\<open>read_dir\<close> follows a link: what the walk of \<open>p\<close> sees when \<open>p\<close> itself is one.\<close>

definition see_through :: "nodes \<Rightarrow> path \<Rightarrow> nodes" where
  "see_through ns p =
     (case map_of ns p of
        Some (LinkNode (Some target)) \<Rightarrow> (p, DirNode) # map (\<lambda>(q, node). (p @ q, node)) target
      | Some (LinkNode None) \<Rightarrow> []
      | _ \<Rightarrow> ns)"

definition published_matches ::
  "(ReadCall \<Rightarrow> IoErrorKind option) \<Rightarrow> nodes \<Rightarrow> path \<Rightarrow> StagingPlan \<Rightarrow> (PayloadStoreError, bool) result" where
  "published_matches reads ns directory plan =
     (case os_read_dir reads ns directory of
        Err _ \<Rightarrow> Err StoreIoFailure
      | Ok names \<Rightarrow>
          if list_ex (\<lambda>n. fault_at reads (NextEntry (directory @ [n])) \<noteq> None) names then Err StoreIoFailure
          else if set names \<noteq> {COMPLETION_NAME, FILES_DIRECTORY} then Ok False
          else
            case os_symlink_metadata reads ns (directory @ [COMPLETION_NAME]) of
              Err _ \<Rightarrow> Err StoreIoFailure
            | Ok node \<Rightarrow>
                let expected_document = completion_document plan;
                    expected_length = file_len expected_document
                in if \<not> (case node of FileNode bs \<Rightarrow> file_len bs = expected_length | _ \<Rightarrow> False) then Ok False
                   else
                     case os_read_file reads ns (directory @ [COMPLETION_NAME]) of
                       Err _ \<Rightarrow> Err StoreIoFailure
                     | Ok bs \<Rightarrow>
                         if bs \<noteq> expected_document then Ok False
                         else
                           and_then (collect_tree reads (see_through ns (directory @ [FILES_DIRECTORY]))
                               (directory @ [FILES_DIRECTORY]) [] ({}, {}))
                             (\<lambda>(accepted, actual). Ok (accepted \<and> actual = expected_tree (sp_entries plan))))"

definition store_probe :: "StagingPlan \<Rightarrow> (FileSystem, PayloadStoreError, ProbeState) stm" where
  "store_probe plan fs =
     (let (t, fs) = os_turn fs;
          published = [published_name plan]
      in (case os_symlink_metadata (turn_reads t) (fs_nodes fs) published of
            Err KindNotFound \<Rightarrow> Ok Absent
          | Err _ \<Rightarrow> Err StoreIoFailure
          | Ok DirNode \<Rightarrow>
              and_then (published_matches (turn_reads t) (fs_nodes fs) published plan)
                (\<lambda>matches. Ok (if matches then Matching else Conflicting))
          | Ok _ \<Rightarrow> Ok Conflicting, fs))"


section \<open>Recovery\<close>

fun discard_entries ::
  "(ReadCall \<Rightarrow> IoErrorKind option) \<Rightarrow> nat \<Rightarrow> bytes list \<Rightarrow> (FileSystem, PayloadStoreError, nat) stm" where
  "discard_entries reads discarded [] fs = (Ok discarded, fs)"
| "discard_entries reads discarded (name # names) fs =
     (if fault_at reads (NextEntry [name]) \<noteq> None then (Err StoreIoFailure, fs)
      else if \<not> from_utf8_ok name \<or> \<not> prefix STAGING_PREFIX name \<or> \<not> suffix STAGING_SUFFIX name
      then discard_entries reads discarded names fs
      else if fault_at reads (FileType [name]) \<noteq> None then (Err StoreIoFailure, fs)
      else if map_of (fs_nodes fs) [name] \<noteq> Some DirNode then discard_entries reads discarded names fs
      else
        case os_remove_dir_all [name] fs of
          (Err _, fs) \<Rightarrow> (Err StoreIoFailure, fs)
        | (Ok _, fs) \<Rightarrow> discard_entries reads (discarded + 1) names fs)"

definition discard_interrupted_stages :: "(FileSystem, PayloadStoreError, nat) stm" where
  "discard_interrupted_stages fs =
     (let (t, fs) = os_turn fs in
      case os_read_dir (turn_reads t) (fs_nodes fs) [] of
        Err _ \<Rightarrow> (Err StoreIoFailure, fs)
      | Ok names \<Rightarrow> discard_entries (turn_reads t) 0 names fs)"

end
