(* ===== verification/Payload_Store_Correct.thy ===== *)
theory Payload_Store_Correct
  imports Payload_Store
begin

text \<open>
  What a transaction has staged, as a function of the files it sealed: the invariant of its directory, and
  that publication moves exactly that tree.
\<close>


section \<open>The tree of a payload\<close>

text \<open>
  The tree below the \<open>files\<close> directory that holds some files at their component paths, and the tree of a
  whole payload directory, with its completion document if it is sealed.
\<close>

type_synonym holdings = "(path \<times> bytes) list"

definition has_below :: "holdings \<Rightarrow> path \<Rightarrow> bool" where
  "has_below fs q \<longleftrightarrow> (\<exists>c \<in> fst ` set fs. strict_prefix q c)"

definition files_view :: "holdings \<Rightarrow> path \<Rightarrow> Node option" where
  "files_view fs q =
     (case map_of fs q of
        Some bs \<Rightarrow> Some (FileNode bs)
      | None \<Rightarrow> if q = [] \<or> has_below fs q then Some DirNode else None)"

definition payload_view :: "bytes option \<Rightarrow> (path \<Rightarrow> Node option) \<Rightarrow> path \<Rightarrow> Node option" where
  "payload_view doc files q =
     (if q = [] then Some DirNode
      else if hd q = FILES_DIRECTORY then files (tl q)
      else if q = [COMPLETION_NAME] then map_option FileNode doc
      else None)"

text \<open>No file is at the root of the tree, none twice, and none is a directory of another.\<close>

definition tree_like :: "holdings \<Rightarrow> bool" where
  "tree_like fs \<longleftrightarrow> [] \<notin> fst ` set fs \<and> distinct (map fst fs) \<and> (\<forall>c \<in> fst ` set fs. \<not> has_below fs c)"

definition directory_names :: "holdings \<Rightarrow> bytes set" where
  "directory_names fs = {join_path q | q. q \<noteq> [] \<and> has_below fs q}"

lemma has_below_snoc: "has_below (fs @ [(c, bs)]) q \<longleftrightarrow> has_below fs q \<or> strict_prefix q c"
  by (auto simp: has_below_def)

lemma map_of_holdings_None: "map_of fs q = None \<longleftrightarrow> q \<notin> fst ` set fs"
  by (rule map_of_eq_None_iff)

lemma files_view_file: "tree_like fs \<Longrightarrow> (c, bs) \<in> set fs \<Longrightarrow> files_view fs c = Some (FileNode bs)"
  by (simp add: files_view_def tree_like_def)

lemma files_view_dir: "tree_like fs \<Longrightarrow> has_below fs q \<Longrightarrow> files_view fs q = Some DirNode"
  by (auto simp: files_view_def tree_like_def map_of_holdings_None split: option.split
      dest!: map_of_SomeD)

lemma files_view_None: "files_view fs q = None \<longleftrightarrow> q \<notin> fst ` set fs \<and> q \<noteq> [] \<and> \<not> has_below fs q"
  by (auto simp: files_view_def map_of_holdings_None split: option.splits)
    (metis map_of_holdings_None option.distinct(1))+

lemma files_view_below:
  assumes "files_view fs d = None" and "prefix d q"
  shows "files_view fs q = None"
proof (cases "q = d")
  case False
  then have less: "strict_prefix d q" using assms(2) by (simp add: strict_prefix_def)
  have "q \<notin> fst ` set fs \<and> \<not> has_below fs q"
    using assms(1) less unfolding files_view_None has_below_def by (meson prefix_order.less_trans)
  moreover have "q \<noteq> []" using less by auto
  ultimately show ?thesis by (simp add: files_view_None)
qed (use assms in simp)

lemma names_distinct [simp]: "COMPLETION_NAME \<noteq> FILES_DIRECTORY" "FILES_DIRECTORY \<noteq> COMPLETION_NAME"
  by (simp_all add: COMPLETION_NAME_def FILES_DIRECTORY_def ascii_def)

lemma payload_view_files [simp]: "payload_view doc files (FILES_DIRECTORY # q) = files q"
  by (simp add: payload_view_def)

lemma payload_view_completion [simp]: "payload_view doc files [COMPLETION_NAME] = map_option FileNode doc"
  by (simp add: payload_view_def)


section \<open>Opening a file\<close>

text \<open>The tree while the directories \<open>d\<close> of a new file are being made.\<close>

definition opening_view :: "holdings \<Rightarrow> path \<Rightarrow> path \<Rightarrow> Node option" where
  "opening_view fs d q = (if files_view fs q = None \<and> prefix q d then Some DirNode else files_view fs q)"

definition opening_names :: "holdings \<Rightarrow> path \<Rightarrow> bytes set" where
  "opening_names fs d = directory_names fs \<union> {join_path q | q. q \<noteq> [] \<and> prefix q d}"

definition slash_free :: "path \<Rightarrow> bool" where
  "slash_free cs \<longleftrightarrow> list_all (\<lambda>c. SLASH \<notin> set c \<and> c \<noteq> []) cs"

lemma split_join_slash_free: "slash_free cs \<Longrightarrow> cs \<noteq> [] \<Longrightarrow> split_on (\<lambda>b. b = SLASH) (join_path cs) = cs"
  by (rule split_on_join) (auto simp: slash_free_def list_all_iff)

lemma join_path_eq_iff:
  assumes "slash_free cs" "slash_free ds" "cs \<noteq> []" "ds \<noteq> []"
  shows "join_path cs = join_path ds \<longleftrightarrow> cs = ds"
  using split_join_slash_free assms by metis

lemma slash_free_prefix: "slash_free cs \<Longrightarrow> prefix q cs \<Longrightarrow> slash_free q"
  by (auto simp: slash_free_def list_all_iff prefix_def)

lemma slash_free_below:
  "list_all (\<lambda>(c, bs). slash_free c) fs \<Longrightarrow> has_below fs q \<Longrightarrow> slash_free q"
  by (fastforce simp: has_below_def list_all_iff strict_prefix_def dest: slash_free_prefix)

lemma join_extend:
  assumes "slash_free d"
  shows "(if join_path d = [] then join_path d else join_path d @ [SLASH]) @ c = join_path (d @ [c])"
proof -
  have "join_path d = [] \<longleftrightarrow> d = []" using assms by (intro join_path_Nil_iff) (auto simp: slash_free_def list_all_iff)
  then show ?thesis using join_path_snoc[of d c] by auto
qed

definition tree_at :: "bytes \<Rightarrow> FileSystem \<Rightarrow> (path \<Rightarrow> Node option) \<Rightarrow> bool" where
  "tree_at name fsys view \<longleftrightarrow> (\<forall>q. map_of (fs_nodes fsys) (name # q) = view q)"

lemma tree_at_kept:
  assumes "tree_at name fs view" and "is_staging_name name \<or> view [] \<noteq> None" and "kept own fs fs'" and "name \<notin> own"
  shows "tree_at name fs' view"
  using assms untouchedD[of own "fs_nodes fs" "fs_nodes fs'" name] unfolding tree_at_def kept_def by metis

lemma tree_at_create:
  assumes "os_create n (name # p) fs = (Ok u, fs')" and "tree_at name fs view" and "is_staging_name name"
  shows "view p = None" and "p \<noteq> [] \<Longrightarrow> butlast p = [] \<or> view (butlast p) = Some DirNode"
    and "tree_at name fs' (\<lambda>q. if prefix p q then (if q = p then Some n else None) else view q)"
proof -
  obtain fs1 where fs1: "kept {} fs fs1" "map_of (fs_nodes fs1) (name # p) = None"
      "is_directory (fs_nodes fs1) (butlast (name # p))" "fs_nodes fs' = place (name # p) [([], n)] (fs_nodes fs1)"
    using os_create_Ok[OF assms(1)] by metis
  have v: "map_of (fs_nodes fs1) (name # q) = view q" for q
    using tree_at_kept[OF assms(2) _ fs1(1)] assms(3) by (simp add: tree_at_def)
  show "view p = None" using fs1(2) v by simp
  show "butlast p = [] \<or> view (butlast p) = Some DirNode" if "p \<noteq> []"
    using fs1(3) that v by (simp add: is_directory_def)
  show "tree_at name fs' (\<lambda>q. if prefix p q then (if q = p then Some n else None) else view q)"
    unfolding tree_at_def fs1(4) map_of_place using v by (auto simp: prefix_def)
qed

lemma tree_at_write:
  assumes "os_write_all (name # p) chunk fs = (Ok u, fs')" and "tree_at name fs view" and "is_staging_name name"
    and "view p = Some (FileNode bs)"
  shows "tree_at name fs' (view(p \<mapsto> FileNode (bs @ chunk)))"
proof -
  obtain t fs1 where t: "os_turn fs = (t, fs1)" by fastforce
  have v: "map_of (fs_nodes fs1) (name # q) = view q" for q
    using tree_at_kept[OF assms(2) _ os_turn_kept[OF t, of "{}"]] assms(3) by (simp add: tree_at_def)
  show ?thesis using assms(1,4) t v
    by (auto simp: os_write_all_def tree_at_def split: option.splits)
qed

lemma tree_at_cong: "tree_at name fs view \<Longrightarrow> (\<And>q. view q = view' q) \<Longrightarrow> tree_at name fs view'"
  by (simp add: tree_at_def)

lemma on_fs_eq: "on_fs call (dt, fs) = (map_err map_io (fst (call fs)), (dt, snd (call fs)))"
  by (simp add: on_fs_def split: prod.split)

lemma on_fs_Ok: "on_fs call (dt, fs) = (Ok u, (dt', fs')) \<longleftrightarrow> dt' = dt \<and> call fs = (Ok u, fs')"
  by (cases "call fs") (auto simp: on_fs_eq map_err_Ok)

lemma opening_names_dir:
  assumes "slash_free (d @ [c])" and "list_all (\<lambda>(c, bs). slash_free c) fs"
  shows "join_path (d @ [c]) \<in> opening_names fs d \<longleftrightarrow> has_below fs (d @ [c])"
proof -
  have "q = d @ [c]" if "join_path (d @ [c]) = join_path q" "q \<noteq> []" "slash_free q" for q
    using join_path_eq_iff[of "d @ [c]" q] that assms(1) by simp
  moreover have "slash_free q" if "has_below fs q \<or> prefix q d" for q
    using that slash_free_below[OF assms(2)] slash_free_prefix[OF assms(1)] by auto
  moreover have "\<not> prefix (d @ [c]) d" by (auto simp: prefix_def)
  ultimately show ?thesis unfolding opening_names_def directory_names_def by blast
qed

lemma opening_names_snoc: "opening_names fs (d @ [c]) = insert (join_path (d @ [c])) (opening_names fs d)"
  by (auto simp: opening_names_def)

lemma create_directories_Ok:
  assumes "create_directories (name # FILES_DIRECTORY # d) (join_path d) cs (dt, fsys) = (Ok p, (dt', fsys'))"
    and "is_staging_name name" and "slash_free (d @ cs)" and "tree_like fs"
    and "list_all (\<lambda>(c, bs). slash_free c) fs"
    and "tree_at name fsys (payload_view None (opening_view fs d))"
    and "set (dt_created_directories dt) = opening_names fs d"
    and "\<forall>q. prefix q d \<longrightarrow> map_of fs q = None"
  shows "p = name # FILES_DIRECTORY # d @ cs \<and> tree_at name fsys' (payload_view None (opening_view fs (d @ cs))) \<and>
    dt' = dt\<lparr>dt_created_directories := dt_created_directories dt'\<rparr> \<and>
    set (dt_created_directories dt') = opening_names fs (d @ cs) \<and> (\<forall>q. prefix q (d @ cs) \<longrightarrow> map_of fs q = None)"
  using assms
proof (induction cs arbitrary: d dt fsys)
  case (Cons c cs)
  let ?d = "d @ [c]"
  have free: "slash_free ?d" "slash_free d" using Cons.prems(3) slash_free_prefix by (auto simp: slash_free_def)
  note rel = join_extend[OF free(2), of c]
  note known = opening_names_dir[OF free(1) Cons.prems(5)]
  have ext: "prefix q ?d \<longleftrightarrow> prefix q d \<or> q = ?d" for q by auto
  show ?case
  proof (cases "has_below fs ?d")
    case True
    then have none: "map_of fs ?d = None"
      using Cons.prems(4) by (auto simp: tree_like_def map_of_holdings_None)
    have view: "opening_view fs ?d = opening_view fs d"
      using True by (auto simp: opening_view_def ext files_view_None fun_eq_iff)
    have names: "opening_names fs ?d = opening_names fs d" using known True unfolding opening_names_snoc by blast
    have step: "create_directories (name # FILES_DIRECTORY # ?d) (join_path ?d) cs (dt, fsys) = (Ok p, (dt', fsys'))"
      using Cons.prems(1,7) True known rel by (simp add: Let_def)
    from Cons.IH[OF step Cons.prems(2)] show ?thesis
      using Cons.prems none unfolding view names ext by simp
  next
    case False
    let ?dt = "dt\<lparr>dt_created_directories := insort (join_path ?d) (dt_created_directories dt)\<rparr>"
    have "st_bind (on_fs (os_create_dir (name # FILES_DIRECTORY # ?d)))
        (\<lambda>_. create_directories (name # FILES_DIRECTORY # ?d) (join_path ?d) cs) (?dt, fsys) = (Ok p, (dt', fsys'))"
      using Cons.prems(1,7) False known rel by (simp add: Let_def)
    then obtain u fsys1 where made: "os_create DirNode (name # FILES_DIRECTORY # ?d) fsys = (Ok u, fsys1)"
        and step: "create_directories (name # FILES_DIRECTORY # ?d) (join_path ?d) cs (?dt, fsys1) = (Ok p, (dt', fsys'))"
      by (auto simp: st_bind_Ok on_fs_Ok os_create_dir_def)
    note fresh = tree_at_create[OF made Cons.prems(6,2)]
    have none: "map_of fs ?d = None" "files_view fs ?d = None"
      using fresh(1) by (auto simp: opening_view_def files_view_None map_of_holdings_None split: if_splits)
    have below: "opening_view fs d q = None" if "prefix ?d q" for q
    proof -
      have "\<not> prefix q d" using that by (auto simp: prefix_def)
      then show ?thesis using files_view_below[OF none(2) that] by (simp add: opening_view_def)
    qed
    have view: "tree_at name fsys1 (payload_view None (opening_view fs ?d))"
      using fresh(3)
    proof (rule tree_at_cong)
      fix q
      show "(if prefix (FILES_DIRECTORY # ?d) q then if q = FILES_DIRECTORY # ?d then Some DirNode else None
          else payload_view None (opening_view fs d) q) = payload_view None (opening_view fs ?d) q"
        using below[of "tl q"] none(2)
        by (cases q) (auto simp: payload_view_def opening_view_def ext split: if_splits)
    qed
    have names: "set (dt_created_directories ?dt) = opening_names fs ?d"
      using Cons.prems(7) by (simp add: set_insort_key opening_names_snoc)
    from Cons.IH[OF step Cons.prems(2) _ Cons.prems(4,5) view names] show ?thesis
      using Cons.prems none(1) unfolding ext by auto
  qed
qed simp


section \<open>The invariant of a transaction\<close>

definition plan_ok :: "StagingPlan \<Rightarrow> bool" where
  "plan_ok plan \<longleftrightarrow> identity_acceptable (sp_identity plan) \<and>
     list_all (\<lambda>e. se_components e \<noteq> [] \<and> list_all valid_component (se_components e)) (sp_entries plan)"

definition held :: "StagingPlan \<Rightarrow> bytes list \<Rightarrow> holdings" where
  "held plan contents = zip (map se_components (sp_entries plan)) contents"

definition exact_sizes :: "StagingPlan \<Rightarrow> bytes list \<Rightarrow> bool" where
  "exact_sizes plan contents \<longleftrightarrow> length contents \<le> length (sp_entries plan) \<and>
     (\<forall>i < length contents. length (contents ! i) = unat (se_size_bytes (sp_entries plan ! i)))"

definition open_agrees :: "bytes \<Rightarrow> StagingPlan \<Rightarrow> nat \<Rightarrow> bytes option \<Rightarrow> OpenFile option \<Rightarrow> bool" where
  "open_agrees name plan i opened handle =
     (case opened of
        None \<Rightarrow> handle = None
      | Some bs \<Rightarrow> i < length (sp_entries plan) \<and> length bs \<le> unat (se_size_bytes (sp_entries plan ! i)) \<and>
          handle = Some \<lparr>of_path = name # FILES_DIRECTORY # se_components (sp_entries plan ! i),
            of_expected_size = se_size_bytes (sp_entries plan ! i), of_written = of_nat (length bs)\<rparr>)"

text \<open>A transaction owns the staging directory \<open>name\<close>, which holds what was sealed and what is open.\<close>

definition owns :: "bytes \<Rightarrow> dtx \<Rightarrow> bool" where
  "owns name s \<longleftrightarrow> is_staging_name name \<and> dt_staging (fst s) = Some \<lparr>sd_path = [name]\<rparr> \<and>
     dt_state (fst s) \<in> {TxStaging, TxReady} \<and>
     (case dt_open_file (fst s) of None \<Rightarrow> True | Some f \<Rightarrow> prefix [name] (of_path f))"

definition staged :: "bytes \<Rightarrow> StagingPlan \<Rightarrow> bytes list \<Rightarrow> bytes option \<Rightarrow> dtx \<Rightarrow> bool" where
  "staged name plan contents opened s \<longleftrightarrow>
     owns name s \<and> plan_ok plan \<and> exact_sizes plan contents \<and>
     dt_state (fst s) = TxStaging \<and> dt_plan (fst s) = Some plan \<and> dt_next_entry (fst s) = length contents \<and>
     open_agrees name plan (length contents) opened (dt_open_file (fst s)) \<and>
     (let hs = held plan (contents @ (case opened of None \<Rightarrow> [] | Some bs \<Rightarrow> [bs])) in
      tree_like hs \<and> set (dt_created_directories (fst s)) = directory_names hs \<and>
      tree_at name (snd s) (payload_view None (files_view hs)))"

definition sealed :: "bytes \<Rightarrow> StagingPlan \<Rightarrow> bytes list \<Rightarrow> dtx \<Rightarrow> bool" where
  "sealed name plan contents s \<longleftrightarrow>
     owns name s \<and> plan_ok plan \<and> exact_sizes plan contents \<and> length contents = length (sp_entries plan) \<and>
     dt_state (fst s) = TxReady \<and> dt_plan (fst s) = Some plan \<and> tree_like (held plan contents) \<and>
     tree_at name (snd s) (payload_view (Some (completion_document plan)) (files_view (held plan contents)))"

definition published :: "StagingPlan \<Rightarrow> bytes list \<Rightarrow> FileSystem \<Rightarrow> bool" where
  "published plan contents fs \<longleftrightarrow>
     plan_ok plan \<and> exact_sizes plan contents \<and> length contents = length (sp_entries plan) \<and>
     tree_like (held plan contents) \<and>
     tree_at (published_name plan) fs
       (payload_view (Some (completion_document plan)) (files_view (held plan contents)))"

lemma staging_plan_new_ok:
  assumes "staging_plan_new identity entries = Ok plan"
  shows "plan_ok plan" and "sp_identity plan = identity" and "sp_entries plan = entries"
proof -
  have "list_all (\<lambda>e. se_components e \<noteq> [] \<and> list_all valid_component (se_components e)) entries"
    if "plan_total t entries = Ok t'" for t t'
    using that by (induction t entries rule: plan_total.induct) (auto split: if_splits option.splits)
  with assms show "plan_ok plan" "sp_identity plan = identity" "sp_entries plan = entries"
    by (auto simp: staging_plan_new_def plan_ok_def and_then_Ok split: if_splits)
qed

lemma zip_snoc: "length ys < length xs \<Longrightarrow> zip xs (ys @ [y]) = zip xs ys @ [(xs ! length ys, y)]"
proof (induction ys arbitrary: xs)
  case Nil
  then show ?case by (cases xs) auto
next
  case (Cons z ys)
  then show ?case by (cases xs) auto
qed

lemma held_snoc:
  "length contents < length (sp_entries plan) \<Longrightarrow>
     held plan (contents @ [bs]) = held plan contents @ [(se_components (sp_entries plan ! length contents), bs)]"
  by (simp add: held_def zip_snoc)

lemma plan_components:
  "plan_ok plan \<Longrightarrow> e \<in> set (sp_entries plan) \<Longrightarrow> se_components e \<noteq> [] \<and> slash_free (se_components e)"
  by (fastforce simp: plan_ok_def list_all_iff slash_free_def valid_component_def)

lemma held_slash_free: "plan_ok plan \<Longrightarrow> list_all (\<lambda>(c, bs). slash_free c) (held plan contents)"
  using plan_components by (fastforce simp: held_def list_all_iff dest: set_zip_leftD)

lemma files_view_snoc:
  assumes "c \<notin> fst ` set fs"
  shows "files_view (fs @ [(c, bs)]) q =
    (if q = c then Some (FileNode bs)
     else if files_view fs q = None \<and> strict_prefix q c then Some DirNode else files_view fs q)"
proof -
  have "map_of (fs @ [(c, bs)]) q = (if q = c then Some bs else map_of fs q)"
    using assms by (auto simp: map_add_def map_of_eq_None_iff[symmetric] split: option.split)
  then show ?thesis
    by (auto simp: files_view_def has_below_snoc split: option.split)
qed

lemma tree_like_snoc:
  assumes "tree_like fs" and "c \<noteq> []" and "files_view fs c = None" and "\<And>q. strict_prefix q c \<Longrightarrow> map_of fs q = None"
  shows "tree_like (fs @ [(c, bs)])"
  using assms by (auto simp: tree_like_def has_below_snoc files_view_None map_of_holdings_None)

lemma directory_names_snoc: "directory_names (fs @ [(c, bs)]) = directory_names fs \<union> {join_path q | q. q \<noteq> [] \<and> strict_prefix q c}"
  by (auto simp: directory_names_def has_below_snoc)

lemma strict_prefix_butlast: "c \<noteq> [] \<Longrightarrow> strict_prefix q c \<longleftrightarrow> prefix q (butlast c)"
  by (cases c rule: rev_cases) (auto simp: strict_prefix_def)


section \<open>Every step keeps the invariant\<close>

lemma st_bind_kept:
  assumes "st_bind m f s = (r, s')"
    and "\<And>r1 s1. m s = (r1, s1) \<Longrightarrow> kept own (snd s) (snd s1)"
    and "\<And>v s1. m s = (Ok v, s1) \<Longrightarrow> f v s1 = (r, s') \<Longrightarrow> kept own (snd s1) (snd s')"
  shows "kept own (snd s) (snd s')"
proof -
  obtain r1 s1 where "m s = (r1, s1)" by (meson surj_pair)
  with assms show ?thesis by (cases r1) (auto simp: st_bind_def intro: kept_trans)
qed

lemma on_fs_kept:
  assumes "on_fs call s = (r, s')" and "\<And>r fs'. call (snd s) = (r, fs') \<Longrightarrow> kept own (snd s) fs'"
  shows "kept own (snd s) (snd s')" and "fst s' = fst s"
  using assms by (auto simp: on_fs_def split: prod.splits)

lemma on_fs_create_kept: "on_fs (os_create n (name # p)) s = (r, s') \<Longrightarrow> kept {name} (snd s) (snd s')"
  by (rule on_fs_kept(1)[OF _ os_create_kept])

lemma on_fs_write_kept: "on_fs (os_write_all (name # p) bs) s = (r, s') \<Longrightarrow> kept {name} (snd s) (snd s')"
  by (rule on_fs_kept(1)[OF _ os_write_all_kept])

lemma on_fs_sync_kept: "on_fs os_sync_all s = (r, s') \<Longrightarrow> kept own (snd s) (snd s')"
  by (rule on_fs_kept(1)[OF _ os_sync_all_kept])

lemma on_fs_open_kept: "on_fs (os_open p) s = (r, s') \<Longrightarrow> kept own (snd s) (snd s')"
  by (rule on_fs_kept(1)[OF _ os_open_kept])

lemma sync_directory_kept:
  assumes "sync_directory p s = (r, s')"
  shows "kept own (snd s) (snd s')"
  using assms unfolding sync_directory_def
  by (rule st_bind_kept) (auto intro: on_fs_open_kept on_fs_sync_kept)

text \<open>A step that keeps the fields of the transaction which say what it owns.\<close>

definition same_owner :: "dtx \<Rightarrow> dtx \<Rightarrow> bool" where
  "same_owner s s' \<longleftrightarrow> dt_state (fst s') = dt_state (fst s) \<and> dt_staging (fst s') = dt_staging (fst s) \<and>
     dt_plan (fst s') = dt_plan (fst s) \<and> dt_next_entry (fst s') = dt_next_entry (fst s) \<and>
     dt_open_file (fst s') = dt_open_file (fst s)"

lemma create_directories_kept:
  "create_directories (name # p) relative cs s = (r, s') \<Longrightarrow> kept {name} (snd s) (snd s') \<and> same_owner s s'"
proof (induction cs arbitrary: p relative s)
  case Nil
  then show ?case by (simp add: same_owner_def)
next
  case (Cons c cs)
  obtain dt fs where s: "s = (dt, fs)" by fastforce
  let ?rel = "(if relative = [] then relative else relative @ [SLASH]) @ c"
  let ?dt = "dt\<lparr>dt_created_directories := insort ?rel (dt_created_directories dt)\<rparr>"
  show ?case
  proof (cases "?rel \<in> set (dt_created_directories dt)")
    case True
    then show ?thesis using Cons.IH[of "p @ [c]" ?rel s] Cons.prems s by (simp add: Let_def)
  next
    case False
    obtain r1 s1 where made: "on_fs (os_create DirNode (name # p @ [c])) (?dt, fs) = (r1, s1)" by (meson surj_pair)
    have first: "kept {name} fs (snd s1)" "fst s1 = ?dt"
      using on_fs_create_kept[OF made] on_fs_kept(2)[OF made os_create_kept] by auto
    show ?thesis
    proof (cases r1)
      case (Err e)
      then show ?thesis using Cons.prems s False made first
        by (auto simp: Let_def st_bind_def os_create_dir_def same_owner_def)
    next
      case (Ok u)
      then have "create_directories (name # p @ [c]) ?rel cs s1 = (r, s')"
        using Cons.prems s False made by (simp add: Let_def st_bind_def os_create_dir_def)
      from Cons.IH[of "p @ [c]" ?rel s1] this have "kept {name} (snd s1) (snd s') \<and> same_owner s1 s'" by simp
      then show ?thesis using first s kept_trans by (fastforce simp: same_owner_def)
    qed
  qed
qed


lemma on_fs_same: "on_fs call s = (r, s') \<Longrightarrow> same_owner s s'"
  by (auto simp: on_fs_def same_owner_def split: prod.splits)

lemma same_owner_refl [simp]: "same_owner s s"
  by (simp add: same_owner_def)

lemma same_owner_trans: "same_owner s s' \<Longrightarrow> same_owner s' s'' \<Longrightarrow> same_owner s s''"
  by (simp add: same_owner_def)

text \<open>A step of the transaction that owns \<open>name\<close>: everything outside \<open>name\<close> stays, and so does the ownership.\<close>

definition own_step :: "bytes \<Rightarrow> dtx \<Rightarrow> dtx \<Rightarrow> bool" where
  "own_step name s s' \<longleftrightarrow> kept {name} (snd s) (snd s') \<and> owns name s'"

lemma own_step_trans: "own_step name s s' \<Longrightarrow> own_step name s' s'' \<Longrightarrow> own_step name s s''"
  using kept_trans by (auto simp: own_step_def)

lemma own_step_same: "owns name s \<Longrightarrow> kept {name} (snd s) (snd s') \<Longrightarrow> same_owner s s' \<Longrightarrow> own_step name s s'"
  by (simp add: own_step_def owns_def same_owner_def)

lemma own_step_refl: "owns name s \<Longrightarrow> own_step name s s"
  by (simp add: own_step_def)

lemma st_bind_own:
  assumes "st_bind m f s = (r, s')"
    and "\<And>r1 s1. m s = (r1, s1) \<Longrightarrow> own_step name s s1"
    and "\<And>v s1. owns name s1 \<Longrightarrow> m s = (Ok v, s1) \<Longrightarrow> f v s1 = (r, s') \<Longrightarrow> own_step name s1 s'"
  shows "own_step name s s'"
proof -
  obtain r1 s1 where m: "m s = (r1, s1)" by (meson surj_pair)
  note one = assms(2)[OF m]
  show ?thesis
  proof (cases r1)
    case (Err e)
    then show ?thesis using assms(1) m one by (simp add: st_bind_def)
  next
    case (Ok v)
    then have "f v s1 = (r, s')" using assms(1) m by (simp add: st_bind_def)
    moreover have "owns name s1" using one by (simp add: own_step_def)
    ultimately show ?thesis using own_step_trans[OF one] assms(3) m Ok by blast
  qed
qed

lemma on_fs_own:
  assumes "owns name s"
  shows "on_fs (os_create n (name # p)) s = (r, s') \<Longrightarrow> own_step name s s'"
    and "on_fs (os_write_all (name # p) bs) s = (r, s') \<Longrightarrow> own_step name s s'"
    and "on_fs os_sync_all s = (r, s') \<Longrightarrow> own_step name s s'"
    and "on_fs (os_open q) s = (r, s') \<Longrightarrow> own_step name s s'"
  by (rule own_step_same[OF assms]; blast intro: on_fs_same on_fs_create_kept on_fs_write_kept
      on_fs_sync_kept on_fs_open_kept)+

lemma sync_directory_own: "owns name s \<Longrightarrow> sync_directory p s = (r, s') \<Longrightarrow> own_step name s s'"
  unfolding sync_directory_def by (erule st_bind_own) (blast intro: on_fs_own)+

lemma sync_directories_own: "owns name s \<Longrightarrow> sync_directories ps s = (r, s') \<Longrightarrow> own_step name s s'"
proof (induction ps arbitrary: s)
  case (Cons p ps)
  from Cons.prems(2) show ?case unfolding sync_directories.simps
    by (rule st_bind_own) (use Cons sync_directory_own in blast)+
qed (simp add: own_step_refl)

lemma create_directories_path:
  "create_directories (name # d) rel cs s = (Ok p, s') \<Longrightarrow> prefix [name] p"
proof (induction cs arbitrary: d rel s)
  case (Cons c cs)
  obtain dt fs where s: "s = (dt, fs)" by fastforce
  show ?case
    using Cons.prems Cons.IH[of "d @ [c]"] unfolding s by (auto simp: Let_def st_bind_Ok split: if_splits)
qed (auto simp: prefix_def)

lemma create_parents_own:
  assumes "owns name s" and "create_parents cs s = (r, s')"
  shows "own_step name s s'" and "r = Ok p \<Longrightarrow> prefix [name] p"
proof -
  have p: "staging_path (fst s) = Ok [name]" using assms(1) by (simp add: owns_def staging_path_def)
  obtain r1 s1 where c: "create_directories (name # [FILES_DIRECTORY]) [] (butlast cs) s = (r1, s1)" by (meson surj_pair)
  then have "own_step name s s1" using create_directories_kept own_step_same[OF assms(1)] by blast
  then show "own_step name s s'" using assms(2) p c by (cases r1) (auto simp: create_parents_def)
  show "prefix [name] p" if "r = Ok p"
    using that assms(2) p c create_directories_path[of name "[FILES_DIRECTORY]" "[]" "butlast cs" s _ s1]
    by (cases r1) (auto simp: create_parents_def)
qed

text \<open>Whatever a step answers, it stays inside the staging directory.\<close>

lemma own_step_field:
  assumes "own_step name s (dt, fs)" and "case g (dt_open_file dt) of None \<Rightarrow> True | Some f \<Rightarrow> prefix [name] (of_path f)"
  shows "own_step name s (dt\<lparr>dt_open_file := g (dt_open_file dt)\<rparr>, fs)"
  using assms by (simp add: own_step_def owns_def)

lemma tx_open_file_own:
  assumes "owns name s" and "tx_open_file cs n s = (r, s')"
  shows "own_step name s s'"
proof -
  let ?opened = "\<lambda>p (_ :: unit) (dt, fs). (Ok (), (dt\<lparr>dt_open_file :=
                     Some \<lparr>of_path = p, of_expected_size = n, of_written = 0\<rparr>\<rparr>, fs))"
  have body: "own_step name s s'"
    if "st_bind (create_parents cs) (\<lambda>p. st_bind (create_new_file p) (?opened p)) s = (r, s')"
    using that
  proof (rule st_bind_own)
    fix p s1 assume o1: "owns name s1" and made: "create_parents cs s = (Ok p, s1)"
      and rest: "st_bind (create_new_file p) (?opened p) s1 = (r, s')"
    obtain q where p: "p = name # q" using create_parents_own(2)[OF assms(1) made, of p] by (auto simp: prefix_def)
    from rest show "own_step name s1 s'"
    proof (rule st_bind_own)
      show "own_step name s1 s2" if "create_new_file p s1 = (r2, s2)" for r2 s2
        using that on_fs_own(1)[OF o1] unfolding create_new_file_def os_create_new_def p by blast
      show "own_step name s2 s'" if "owns name s2" "?opened p v s2 = (r, s')" for v s2
        using that own_step_field[OF own_step_refl, of name "fst s2" "snd s2" "\<lambda>_. Some _"]
        by (auto simp: p split: prod.splits)
    qed
  qed (rule create_parents_own(1)[OF assms(1)])
  then show ?thesis using assms(2) own_step_refl[OF assms(1)]
    by (auto simp: tx_open_file_def Let_def split: if_splits option.splits)
qed

lemma tx_write_chunk_own:
  assumes "owns name s" and "tx_write_chunk bs s = (r, s')"
  shows "own_step name s s'"
proof (cases "dt_open_file (fst s)")
  case (Some f)
  let ?g = "\<lambda>opened. opened\<lparr>of_written := of_written f + (case try_from_nat (length bs) of Some n \<Rightarrow> n | None \<Rightarrow> - 1)\<rparr>"
  let ?done = "\<lambda>(_ :: unit) (dt, fs). (Ok (), (dt\<lparr>dt_open_file := Some (?g f)\<rparr>, fs))"
  obtain q where f: "of_path f = name # q" using assms(1) Some by (auto simp: owns_def prefix_def)
  have body: "own_step name s s'" if "st_bind (on_fs (os_write_all (of_path f) bs)) ?done s = (r, s')"
    using that
  proof (rule st_bind_own)
    show "own_step name s1 s'" if "owns name s1" "?done v s1 = (r, s')" for v s1
      using that own_step_field[OF own_step_refl, of name "fst s1" "snd s1" "\<lambda>_. Some (?g f)"]
      by (auto simp: f split: prod.splits)
  qed (use on_fs_own(2)[OF assms(1)] f in auto)
  then show ?thesis using assms own_step_refl[OF assms(1)] Some
    by (auto simp: tx_write_chunk_def Let_def split: if_splits)
qed (use assms own_step_refl in \<open>auto simp: tx_write_chunk_def Let_def split: if_splits\<close>)

lemma tx_seal_file_own:
  assumes "owns name s" and "tx_seal_file s = (r, s')"
  shows "own_step name s s'"
proof -
  let ?s = "((fst s)\<lparr>dt_open_file := None\<rparr>, snd s)"
  have closed: "own_step name s ?s" "owns name ?s" using assms(1) by (simp_all add: own_step_def owns_def)
  have body: "own_step name ?s s'"
    if "st_bind (on_fs os_sync_all) (\<lambda>_ (dt, fs). (Ok (), (dt\<lparr>dt_next_entry := dt_next_entry dt + 1\<rparr>, fs))) ?s = (r, s')"
    using that by (rule st_bind_own) (use on_fs_own(3)[OF closed(2)] in \<open>auto simp: own_step_def owns_def\<close>)
  then show ?thesis using assms own_step_refl[OF assms(1)] own_step_trans[OF closed(1)] closed(1)
    by (auto simp: tx_seal_file_def Let_def split: if_splits option.splits)
qed

text \<open>Actions that stay inside the staging directory are closed under sequencing.\<close>

definition own_action :: "bytes \<Rightarrow> (dtx, PayloadStoreError, 'a) stm \<Rightarrow> bool" where
  "own_action name m \<longleftrightarrow> (\<forall>s r s'. owns name s \<longrightarrow> m s = (r, s') \<longrightarrow> own_step name s s')"

lemma own_actionD: "own_action name m \<Longrightarrow> owns name s \<Longrightarrow> m s = (r, s') \<Longrightarrow> own_step name s s'"
  unfolding own_action_def by blast

lemma own_actionI: "(\<And>s r s'. owns name s \<Longrightarrow> m s = (r, s') \<Longrightarrow> own_step name s s') \<Longrightarrow> own_action name m"
  unfolding own_action_def by blast

lemma own_action_bind:
  assumes "own_action name m" and "\<And>v. own_action name (f v)"
  shows "own_action name (st_bind m f)"
proof (rule own_actionI)
  fix s r s' assume s: "owns name s" and run: "st_bind m f s = (r, s')"
  from run show "own_step name s s'"
    by (rule st_bind_own[OF _ own_actionD[OF assms(1) s] own_actionD[OF assms(2)]])
qed

lemma own_action_fs:
  "own_action name (on_fs (os_create n (name # p)))" "own_action name (on_fs (os_write_all (name # p) bs))"
  "own_action name (on_fs os_sync_all)" "own_action name (sync_directory q)" "own_action name (sync_directories qs)"
  by (rule own_actionI, (erule (1) on_fs_own sync_directory_own sync_directories_own))+

lemma tx_seal_completion_own:
  assumes "owns name s" and "tx_seal_completion s = (r, s')"
  shows "own_step name s s'"
proof (cases "dt_plan (fst s)")
  case (Some plan)
  let ?c = "name # [COMPLETION_NAME]" and ?dirs = "map (\<lambda>relative. [name] @ [FILES_DIRECTORY] @ split_on (\<lambda>b. b = SLASH) relative)
                      (deepest_first (dt_created_directories (fst s)))"
  have p: "staging_path (fst s) = Ok [name]" using assms(1) by (simp add: owns_def staging_path_def)
  have "own_action name (\<lambda>(dt, fs). (Ok (), (dt\<lparr>dt_state := TxReady\<rparr>, fs)))"
    by (auto simp: own_action_def own_step_def owns_def)
  then have "own_action name
      (st_bind (create_new_file ?c) (\<lambda>_. st_bind (on_fs (os_write_all ?c (completion_document plan))) (\<lambda>_.
        st_bind (on_fs os_sync_all) (\<lambda>_. st_bind (sync_directories ?dirs) (\<lambda>_.
        st_bind (sync_directory ([name] @ [FILES_DIRECTORY])) (\<lambda>_. st_bind (sync_directory [name]) (\<lambda>_ (dt, fs).
          (Ok (), (dt\<lparr>dt_state := TxReady\<rparr>, fs)))))))))"
    unfolding create_new_file_def os_create_new_def by (intro own_action_bind own_action_fs)
  from own_actionD[OF this assms(1)] show ?thesis
    using assms(2) own_step_refl[OF assms(1)] Some p
    by (auto simp: tx_seal_completion_def Let_def split: if_splits)
qed (use assms own_step_refl in \<open>simp add: tx_seal_completion_def\<close>)

lemma length_HEX: "length HEX = 16"
  by (simp add: HEX_def ascii_def)

lemma hex_digits: "set (hex_encode bs) \<subseteq> set HEX"
proof -
  have "unat (drop_bit 4 b) < 16 \<and> unat (and b 0x0F) < 16" for b :: u8
  proof -
    have "unat b < 256" using unsigned_less[of b] by simp
    moreover have "unat (drop_bit 4 b) = unat b div 16" by (simp add: drop_bit_eq_div unat_div_distrib)
    moreover have "and b 0x0F = take_bit 4 b" by (simp add: take_bit_eq_mask mask_eq_exp_minus_1)
    moreover have "unat (take_bit 4 b) < 16" by (simp add: take_bit_eq_mod unat_mod_distrib)
    ultimately show ?thesis by (simp add: less_mult_imp_div_less)
  qed
  then have "HEX ! unat (drop_bit 4 b) \<in> set HEX \<and> HEX ! unat (and b 0x0F) \<in> set HEX" for b :: u8
    using length_HEX by (simp add: nth_mem)
  then show ?thesis by (auto simp: hex_encode_def)
qed

lemma published_name_no_dot: "DOT \<notin> set (published_name plan)"
  using hex_digits[of "sp_identity plan"]
  by (auto simp: published_name_def published_directory_name_def PUBLISHED_PREFIX_def HEX_def ascii_def DOT_def
      dest: subsetD)

lemma published_not_staging [simp]: "\<not> is_staging_name (published_name plan)"
proof
  assume "is_staging_name (published_name plan)"
  then have "set STAGING_SUFFIX \<subseteq> set (published_name plan)" by (auto simp: is_staging_name_def suffix_def)
  then show False using published_name_no_dot by (auto simp: STAGING_SUFFIX_def ascii_def DOT_def)
qed

lemma staging_publish_returned:
  assumes "staging_publish_no_replace sd p fs = (Err (returned, e), fs')
      \<or> staging_publish_no_replace sd p fs = (Ok (OutcomeDestinationExists returned), fs')"
  shows "returned = sd"
  using assms by (auto simp: staging_publish_no_replace_def split: if_splits prod.splits result.splits bool.splits)

lemma tx_publish_own:
  assumes "owns name s" and "tx_publish_no_replace s = (r, s')"
  shows "kept {name} (snd s) (snd s')" and "r \<noteq> Ok StatePublished \<Longrightarrow> own_step name s s'"
proof -
  have "name \<noteq> published_name plan" for plan using assms(1) published_not_staging by (auto simp: owns_def)
  then have k: "kept {name} (snd s) fs'"
    if "staging_publish_no_replace \<lparr>sd_path = [name]\<rparr> [published_name plan] (snd s) = (x, fs')" for plan x fs'
    using staging_publish_kept[of "\<lparr>sd_path = [name]\<rparr>" name "published_name plan" "snd s" x fs'] that by simp
  have sd: "dt_staging (fst s) = Some \<lparr>sd_path = [name]\<rparr>" using assms(1) by (simp add: owns_def)
  show "kept {name} (snd s) (snd s')"
    using assms(2) k sd
    by (auto simp: tx_publish_no_replace_def Let_def split: if_splits option.splits prod.splits result.splits PublishOutcome.splits)
  moreover have "owns name s'" if "r \<noteq> Ok StatePublished"
    using assms that sd staging_publish_returned
    by (fastforce simp: tx_publish_no_replace_def Let_def owns_def split: if_splits option.splits prod.splits result.splits PublishOutcome.splits)
  ultimately show "r \<noteq> Ok StatePublished \<Longrightarrow> own_step name s s'" by (simp add: own_step_def)
qed

lemma tx_abort_own:
  assumes "owns name s" and "tx_abort s = (r, s')"
  shows "kept {name} (snd s) (snd s')" and "dt_staging (fst s') = None" and "r = Ok u \<Longrightarrow> map_of (fs_nodes (snd s')) [name] = None"
proof -
  obtain x fs' where a: "staging_abort \<lparr>sd_path = [name]\<rparr> (snd s) = (x, fs')" by fastforce
  then have s': "s' = ((fst s)\<lparr>dt_open_file := None, dt_staging := None, dt_state := TxFinished\<rparr>, fs')"
    and r: "r = map_err store_error_of_atomic x"
    using assms by (auto simp: tx_abort_def Let_def owns_def)
  show "kept {name} (snd s) (snd s')" "dt_staging (fst s') = None"
    using staging_abort_kept[OF _ a, of name] s' by simp_all
  show "map_of (fs_nodes (snd s')) [name] = None" if "r = Ok u"
    using staging_abort_gone[of "\<lparr>sd_path = [name]\<rparr>" name "snd s" u fs'] a that r s' by (simp add: map_err_Ok)
qed


section \<open>What a successful step adds\<close>

lemma stagedD:
  assumes "staged name plan contents opened s"
  shows "owns name s" "plan_ok plan" "exact_sizes plan contents" "dt_state (fst s) = TxStaging"
    "dt_plan (fst s) = Some plan" "dt_next_entry (fst s) = length contents" "is_staging_name name"
    "open_agrees name plan (length contents) opened (dt_open_file (fst s))"
  using assms by (simp_all add: staged_def owns_def)

lemma staged_closed:
  "staged name plan contents None s \<longleftrightarrow>
     owns name s \<and> plan_ok plan \<and> exact_sizes plan contents \<and>
     dt_state (fst s) = TxStaging \<and> dt_plan (fst s) = Some plan \<and> dt_next_entry (fst s) = length contents \<and>
     dt_open_file (fst s) = None \<and> tree_like (held plan contents) \<and>
     set (dt_created_directories (fst s)) = directory_names (held plan contents) \<and>
     tree_at name (snd s) (payload_view None (files_view (held plan contents)))"
  by (simp add: staged_def open_agrees_def Let_def)

lemma staged_opened:
  "staged name plan contents (Some bs) s \<longleftrightarrow>
     owns name s \<and> plan_ok plan \<and> exact_sizes plan contents \<and>
     dt_state (fst s) = TxStaging \<and> dt_plan (fst s) = Some plan \<and> dt_next_entry (fst s) = length contents \<and>
     open_agrees name plan (length contents) (Some bs) (dt_open_file (fst s)) \<and>
     tree_like (held plan (contents @ [bs])) \<and>
     set (dt_created_directories (fst s)) = directory_names (held plan (contents @ [bs])) \<and>
     tree_at name (snd s) (payload_view None (files_view (held plan (contents @ [bs]))))"
  by (simp add: staged_def Let_def)

lemma held_Nil [simp]: "held plan [] = []"
  by (simp add: held_def)

lemma opened_view:
  assumes "tree_like hs" and "cs \<noteq> []" and "files_view hs cs = None"
    and "\<And>q. prefix q (butlast cs) \<Longrightarrow> map_of hs q = None"
  shows "tree_like (hs @ [(cs, bs)])"
    and "directory_names (hs @ [(cs, bs)]) = opening_names hs (butlast cs)"
    and "(if prefix cs q then if q = cs then Some (FileNode bs) else None else opening_view hs (butlast cs) q) =
      files_view (hs @ [(cs, bs)]) q"
proof -
  note butlast = strict_prefix_butlast[OF assms(2)]
  have new: "cs \<notin> fst ` set hs" using assms(3) by (simp add: files_view_None)
  show "tree_like (hs @ [(cs, bs)])" using assms(1-3) by (rule tree_like_snoc) (simp add: butlast assms(4))
  show "directory_names (hs @ [(cs, bs)]) = opening_names hs (butlast cs)"
    by (simp add: directory_names_snoc opening_names_def butlast)
  show "(if prefix cs q then if q = cs then Some (FileNode bs) else None else opening_view hs (butlast cs) q) =
      files_view (hs @ [(cs, bs)]) q"
    unfolding files_view_snoc[OF new] opening_view_def butlast[symmetric]
    using files_view_below[OF assms(3), of q] prefix_order.antisym[of q cs] by (auto simp: strict_prefix_def)
qed

lemma tx_begin_Ok:
  assumes "tx_begin plan (create_transaction, fs) = (Ok u, s')" and "plan_ok plan"
  shows "\<exists>name. staged name plan [] None s' \<and> map_of (fs_nodes fs) [name] = None \<and> kept {name} fs (snd s')"
proof -
  obtain sd fs1 fs2 where c: "staging_create [] STAGING_PREFIX fs = (Ok sd, fs1)"
      and d: "os_create DirNode (sd_path sd @ [FILES_DIRECTORY]) fs1 = (Ok (), fs2)"
      and s': "s' = (create_transaction\<lparr>dt_staging := Some sd, dt_plan := Some plan, dt_state := TxStaging\<rparr>, fs2)"
    using assms(1)
    by (auto simp: tx_begin_def create_transaction_def on_fs_Ok os_create_dir_def split: prod.splits result.splits)
  from c obtain name where name: "sd_path sd = [name]" "is_staging_name name" "map_of (fs_nodes fs) [name] = None"
      "kept {name} fs fs1" "\<And>q. map_of (fs_nodes fs1) (name # q) = (if q = [] then Some DirNode else None)"
    using staging_create_Ok by metis
  have made: "os_create DirNode (name # [FILES_DIRECTORY]) fs1 = (Ok (), fs2)" using d name(1) by simp
  have "tree_at name fs1 (\<lambda>q. if q = [] then Some DirNode else None)" using name(5) by (simp add: tree_at_def)
  from tree_at_create(3)[OF made this name(2)]
  have "tree_at name fs2 (payload_view None (files_view []))"
  proof (rule tree_at_cong)
    fix q show "(if prefix [FILES_DIRECTORY] q then if q = [FILES_DIRECTORY] then Some DirNode else None
        else if q = [] then Some DirNode else None) = payload_view None (files_view []) q"
      by (cases q) (auto simp: payload_view_def files_view_def has_below_def)
  qed
  moreover have "sd = \<lparr>sd_path = [name]\<rparr>" using name(1) by simp
  ultimately have "staged name plan [] None s'"
    using assms(2) name(2) unfolding staged_closed s'
    by (simp add: owns_def exact_sizes_def create_transaction_def tree_like_def directory_names_def has_below_def)
  moreover have "kept {name} fs fs2" using name(4) os_create_kept[OF made] kept_trans by blast
  ultimately show ?thesis using name(3) s' by auto
qed

lemma tx_open_file_Ok:
  assumes "staged name plan contents None s" and "tx_open_file cs n s = (Ok u, s')"
  shows "staged name plan contents (Some []) s' \<and> length contents < length (sp_entries plan) \<and>
    cs = se_components (sp_entries plan ! length contents) \<and> n = se_size_bytes (sp_entries plan ! length contents)"
proof -
  note st = assms(1)[unfolded staged_closed]
  let ?hs = "held plan contents" and ?e = "sp_entries plan ! length contents"
  obtain dt fs where s: "s = (dt, fs)" by fastforce
  obtain p dt1 fs1 fs2 where guards: "length contents < length (sp_entries plan)" "cs = se_components ?e" "n = se_size_bytes ?e"
      and parents: "create_parents cs s = (Ok p, (dt1, fs1))"
      and made: "os_create (FileNode []) p fs1 = (Ok (), fs2)"
      and s': "s' = (dt1\<lparr>dt_open_file := Some \<lparr>of_path = p, of_expected_size = n, of_written = 0\<rparr>\<rparr>, fs2)"
    using assms(2) st
    by (auto simp: tx_open_file_def Let_def st_bind_Ok create_new_file_def os_create_new_def on_fs_Ok
        split: if_splits prod.splits)
  have e: "?e \<in> set (sp_entries plan)" using guards(1) by simp
  have cs: "cs \<noteq> []" "slash_free cs" using plan_components[OF _ e] st guards(2) by simp_all
  have free: "slash_free (butlast cs)" using cs(2) by (auto simp: slash_free_def list_all_iff dest: in_set_butlastD)
  have path: "staging_path dt = Ok [name]" using st s by (simp add: owns_def staging_path_def)
  obtain q where dirs: "create_directories (name # FILES_DIRECTORY # []) (join_path []) (butlast cs) (dt, fs) = (Ok q, (dt1, fs1))"
      and p: "p = q @ [last cs]"
    using parents path s by (auto simp: create_parents_def split: prod.splits result.splits)
  have start: "tree_at name fs (payload_view None (opening_view ?hs []))"
    using st s by (auto simp: tree_at_def opening_view_def payload_view_def files_view_None)
  have names: "set (dt_created_directories dt) = opening_names ?hs []"
    using st s by (simp add: opening_names_def)
  have root: "\<forall>q. prefix q [] \<longrightarrow> map_of ?hs q = None"
    using st by (simp add: tree_like_def map_of_holdings_None)
  have opened: "q = name # FILES_DIRECTORY # butlast cs"
      "tree_at name fs1 (payload_view None (opening_view ?hs (butlast cs)))"
      "dt1 = dt\<lparr>dt_created_directories := dt_created_directories dt1\<rparr>"
      "set (dt_created_directories dt1) = opening_names ?hs (butlast cs)"
      "\<forall>q. prefix q (butlast cs) \<longrightarrow> map_of ?hs q = None"
    using create_directories_Ok[OF dirs _ _ _ held_slash_free start names root] st free by (auto simp: owns_def)
  have p': "p = name # FILES_DIRECTORY # cs" using p opened(1) cs(1) by simp
  note fresh = tree_at_create[OF made[unfolded p'] opened(2)]
  have none: "files_view ?hs cs = None"
    using fresh(1) st by (auto simp: opening_view_def owns_def split: if_splits)
  note view = opened_view[OF _ cs(1) none, where bs = "[]"]
  have hs: "held plan (contents @ [[]]) = ?hs @ [(cs, [])]" using guards by (simp add: held_snoc)
  have "tree_at name fs2 (payload_view None (files_view (held plan (contents @ [[]]))))"
    using fresh(3)
  proof (rule tree_at_cong)
    fix q
    show "(if prefix (FILES_DIRECTORY # cs) q then if q = FILES_DIRECTORY # cs then Some (FileNode []) else None
        else payload_view None (opening_view ?hs (butlast cs)) q) =
        payload_view None (files_view (held plan (contents @ [[]]))) q"
      using view(3)[of "tl q"] opened(5) st unfolding hs
      by (cases q) (auto simp: payload_view_def split: if_splits)
  qed (use st in \<open>simp add: owns_def\<close>)
  moreover have "owns name s'" using tx_open_file_own[OF _ assms(2)] st by (simp add: own_step_def)
  moreover have "dt_state dt1 = TxStaging" "dt_plan dt1 = Some plan" "dt_next_entry dt1 = length contents"
    using st s by (subst opened(3), simp)+
  ultimately have "staged name plan contents (Some []) s'"
    using st view(1,2) opened(4,5) guards p' unfolding staged_opened s' hs
    by (simp add: open_agrees_def)
  then show ?thesis using guards by simp
qed

lemma tx_write_chunk_Ok:
  assumes "staged name plan contents (Some bs) s" and "tx_write_chunk chunk s = (Ok u, s')"
  shows "staged name plan contents (Some (bs @ chunk)) s'"
proof -
  note st = assms(1)[unfolded staged_opened]
  let ?e = "sp_entries plan ! length contents"
  let ?c = "se_components ?e" and ?hs = "held plan contents"
  let ?p = "FILES_DIRECTORY # ?c"
  obtain dt fs where s: "s = (dt, fs)" by fastforce
  have opened: "length contents < length (sp_entries plan)" "length bs \<le> unat (se_size_bytes ?e)"
      "dt_open_file dt = Some \<lparr>of_path = name # ?p, of_expected_size = se_size_bytes ?e, of_written = of_nat (length bs)\<rparr>"
    using st s by (simp_all add: open_agrees_def)
  obtain fs1 where wrote: "os_write_all (name # ?p) chunk fs = (Ok (), fs1)"
      and small: "\<not> (case try_from_nat (length chunk) of Some n \<Rightarrow> n | None \<Rightarrow> - 1) > se_size_bytes ?e - of_nat (length bs)"
      and s': "s' = (dt\<lparr>dt_open_file := Some \<lparr>of_path = name # ?p, of_expected_size = se_size_bytes ?e,
        of_written = of_nat (length bs) + (case try_from_nat (length chunk) of Some n \<Rightarrow> n | None \<Rightarrow> - 1)\<rparr>\<rparr>, fs1)"
    using assms(2) opened(3) unfolding s
    by (auto simp: tx_write_chunk_def Let_def st_bind_Ok on_fs_Ok split: if_splits)
  have chunk: "length chunk \<le> MAXIMUM_CHUNK_BYTES"
    using assms(2) by (auto simp: tx_write_chunk_def Let_def split: if_splits)
  then have n: "try_from_nat (length chunk) = Some (of_nat (length chunk) :: u64)"
    "unat (of_nat (length chunk) :: u64) = length chunk"
    by (simp_all add: try_from_nat_def MAXIMUM_CHUNK_BYTES_def unat_of_nat)
  have "unat (se_size_bytes ?e) < 2 ^ LENGTH(64)" by (rule unsigned_less)
  then have w: "unat (of_nat (length bs) :: u64) = length bs" using opened(2) by (simp add: unat_of_nat)
  then have "(of_nat (length bs) :: u64) \<le> se_size_bytes ?e" using opened(2) by (simp add: word_le_nat_alt)
  then have fits: "length (bs @ chunk) \<le> unat (se_size_bytes ?e)"
    using small n w opened(2) by (simp add: word_less_nat_alt unat_sub not_less)
  have snoc: "held plan (contents @ [b]) = ?hs @ [(?c, b)]" for b using opened(1) by (rule held_snoc)
  have new: "?c \<notin> fst ` set ?hs" using st unfolding snoc by (simp add: tree_like_def)
  have c: "payload_view None (files_view (held plan (contents @ [bs]))) ?p = Some (FileNode bs)"
    unfolding snoc by (simp add: files_view_snoc[OF new])
  have before: "tree_at name fs (payload_view None (files_view (held plan (contents @ [bs]))))" and "is_staging_name name"
    using st s by (simp_all add: owns_def)
  from tree_at_write[OF wrote this c]
  have "tree_at name fs1 (payload_view None (files_view (held plan (contents @ [bs @ chunk]))))"
  proof (rule tree_at_cong)
    fix q
    show "((payload_view None (files_view (held plan (contents @ [bs]))))(?p \<mapsto> FileNode (bs @ chunk))) q =
        payload_view None (files_view (held plan (contents @ [bs @ chunk]))) q"
      unfolding snoc by (cases q) (auto simp: payload_view_def files_view_snoc[OF new])
  qed
  moreover have "owns name s'" using tx_write_chunk_own[OF _ assms(2)] st by (simp add: own_step_def)
  moreover have "tree_like (held plan (contents @ [bs @ chunk]))"
      "directory_names (held plan (contents @ [bs @ chunk])) = directory_names (held plan (contents @ [bs]))"
    using st unfolding snoc by (simp_all add: tree_like_def directory_names_snoc has_below_snoc)
  ultimately show ?thesis using st fits opened n s unfolding staged_opened s'
    by (simp add: open_agrees_def)
qed

lemma tree_at_quiet:
  assumes "kept {} (snd s) (snd s')" and "tree_at name (snd s) view" and "owns name s"
  shows "tree_at name (snd s') view"
  using tree_at_kept[OF assms(2) _ assms(1)] assms(3) by (simp add: owns_def)

lemma tx_seal_file_Ok:
  assumes "staged name plan contents (Some bs) s" and "tx_seal_file s = (Ok u, s')"
  shows "staged name plan (contents @ [bs]) None s'"
proof -
  note st = assms(1)[unfolded staged_opened]
  let ?e = "sp_entries plan ! length contents"
  obtain dt fs where s: "s = (dt, fs)" by fastforce
  have opened: "length contents < length (sp_entries plan)" "length bs \<le> unat (se_size_bytes ?e)"
      "dt_open_file dt = Some \<lparr>of_path = name # FILES_DIRECTORY # se_components ?e, of_expected_size = se_size_bytes ?e,
        of_written = of_nat (length bs)\<rparr>"
    using st s by (simp_all add: open_agrees_def)
  obtain fs1 where sync: "on_fs os_sync_all (dt\<lparr>dt_open_file := None\<rparr>, fs) = (Ok (), (dt\<lparr>dt_open_file := None\<rparr>, fs1))"
      and full: "of_nat (length bs) = se_size_bytes ?e"
      and s': "s' = (dt\<lparr>dt_open_file := None, dt_next_entry := dt_next_entry dt + 1\<rparr>, fs1)"
    using assms(2) opened(3) unfolding s
    by (auto simp: tx_seal_file_def Let_def st_bind_Ok on_fs_Ok split: if_splits)
  have "unat (se_size_bytes ?e) < 2 ^ LENGTH(64)" by (rule unsigned_less)
  then have "length bs = unat (se_size_bytes ?e)" using opened(2) full[symmetric] by (simp add: unat_of_nat)
  then have "exact_sizes plan (contents @ [bs])"
    using st opened(1) by (auto simp: exact_sizes_def nth_append less_Suc_eq)
  moreover have "tree_at name fs1 (payload_view None (files_view (held plan (contents @ [bs]))))"
    using tree_at_quiet[of s "(dt, fs1)"] on_fs_sync_kept[OF sync, of "{}"] st s by simp
  moreover have "owns name s'" using tx_seal_file_own[OF _ assms(2)] st by (simp add: own_step_def)
  ultimately show ?thesis using st s unfolding staged_closed s' by simp
qed

text \<open>Synchronizing changes neither the transaction nor its tree.\<close>

definition quiet :: "dtx \<Rightarrow> dtx \<Rightarrow> bool" where
  "quiet s s' \<longleftrightarrow> fst s' = fst s \<and> kept {} (snd s) (snd s')"

lemma quiet_trans: "quiet s s' \<Longrightarrow> quiet s' s'' \<Longrightarrow> quiet s s''"
  using kept_trans by (auto simp: quiet_def)

lemma on_fs_quiet: "on_fs os_sync_all s = (r, s') \<Longrightarrow> quiet s s'" "on_fs (os_open p) s = (r, s') \<Longrightarrow> quiet s s'"
  unfolding quiet_def using on_fs_kept os_sync_all_kept os_open_kept by blast+

lemma sync_directory_quiet: "sync_directory p s = (Ok u, s') \<Longrightarrow> quiet s s'"
  unfolding sync_directory_def st_bind_Ok using on_fs_quiet quiet_trans by blast

lemma sync_directories_quiet: "sync_directories ps s = (Ok u, s') \<Longrightarrow> quiet s s'"
proof (induction ps arbitrary: s)
  case (Cons p ps)
  then show ?case unfolding sync_directories.simps st_bind_Ok using sync_directory_quiet quiet_trans by blast
qed (simp add: quiet_def)

lemma quiet_after:
  assumes "st_bind m f s = (Ok v, s')" and "\<forall>u s1. m s = (Ok u, s1) \<longrightarrow> quiet s s1"
  shows "\<exists>u s1. quiet s s1 \<and> f u s1 = (Ok v, s')"
  using assms unfolding st_bind_Ok by metis

lemma seal_syncs_quiet:
  assumes "st_bind (on_fs os_sync_all) (\<lambda>_. st_bind (sync_directories ds) (\<lambda>_.
        st_bind (sync_directory p) (\<lambda>_. st_bind (sync_directory q) (\<lambda>_ (dt, fs).
          (Ok (), (dt\<lparr>dt_state := TxReady\<rparr>, fs)))))) s = (Ok u, s')"
  shows "\<exists>t. quiet s t \<and> s' = ((fst t)\<lparr>dt_state := TxReady\<rparr>, snd t)"
proof -
  from quiet_after[OF assms] on_fs_quiet(1) obtain s1 where 1: "quiet s s1"
      "st_bind (sync_directories ds) (\<lambda>_. st_bind (sync_directory p) (\<lambda>_. st_bind (sync_directory q) (\<lambda>_ (dt, fs).
          (Ok (), (dt\<lparr>dt_state := TxReady\<rparr>, fs))))) s1 = (Ok u, s')" by blast
  from quiet_after[OF 1(2)] sync_directories_quiet obtain s2 where 2: "quiet s1 s2"
      "st_bind (sync_directory p) (\<lambda>_. st_bind (sync_directory q) (\<lambda>_ (dt, fs).
          (Ok (), (dt\<lparr>dt_state := TxReady\<rparr>, fs)))) s2 = (Ok u, s')" by blast
  from quiet_after[OF 2(2)] sync_directory_quiet obtain s3 where 3: "quiet s2 s3"
      "st_bind (sync_directory q) (\<lambda>_ (dt, fs). (Ok (), (dt\<lparr>dt_state := TxReady\<rparr>, fs))) s3 = (Ok u, s')" by blast
  from quiet_after[OF 3(2)] sync_directory_quiet obtain s4 where 4: "quiet s3 s4"
      "s' = ((fst s4)\<lparr>dt_state := TxReady\<rparr>, snd s4)" by (auto split: prod.splits)
  have "quiet s s4" using 1(1) 2(1) 3(1) 4(1) quiet_trans by blast
  then show ?thesis using 4(2) by blast
qed

lemma tx_seal_completion_Ok:
  assumes "staged name plan contents None s" and "tx_seal_completion s = (Ok u, s')"
  shows "sealed name plan contents s'"
proof -
  note st = assms(1)[unfolded staged_closed]
  let ?doc = "completion_document plan" and ?files = "files_view (held plan contents)"
  let ?dirs = "map (\<lambda>relative. [name] @ [FILES_DIRECTORY] @ split_on (\<lambda>b. b = SLASH) relative)
      (deepest_first (dt_created_directories (fst s)))"
  obtain dt fs where s: "s = (dt, fs)" by fastforce
  have path: "staging_path dt = Ok [name]" using st s by (simp add: owns_def staging_path_def)
  have n: "length contents = length (sp_entries plan)"
    using assms(2) st by (auto simp: tx_seal_completion_def Let_def split: if_splits)
  have run: "st_bind (on_fs (os_create (FileNode []) (name # [COMPLETION_NAME]))) (\<lambda>_.
        st_bind (on_fs (os_write_all (name # [COMPLETION_NAME]) ?doc)) (\<lambda>_.
        st_bind (on_fs os_sync_all) (\<lambda>_. st_bind (sync_directories ?dirs) (\<lambda>_.
        st_bind (sync_directory ([name] @ [FILES_DIRECTORY])) (\<lambda>_. st_bind (sync_directory [name]) (\<lambda>_ (dt, fs).
          (Ok (), (dt\<lparr>dt_state := TxReady\<rparr>, fs)))))))) (dt, fs) = (Ok u, s')"
    using assms(2) st path s
    by (simp add: tx_seal_completion_def Let_def create_new_file_def os_create_new_def split: if_splits)
  obtain fs1 fs2 where made: "os_create (FileNode []) (name # [COMPLETION_NAME]) fs = (Ok (), fs1)"
      and wrote: "os_write_all (name # [COMPLETION_NAME]) ?doc fs1 = (Ok (), fs2)"
      and rest: "st_bind (on_fs os_sync_all) (\<lambda>_. st_bind (sync_directories ?dirs) (\<lambda>_.
        st_bind (sync_directory ([name] @ [FILES_DIRECTORY])) (\<lambda>_. st_bind (sync_directory [name]) (\<lambda>_ (dt, fs).
          (Ok (), (dt\<lparr>dt_state := TxReady\<rparr>, fs)))))) (dt, fs2) = (Ok u, s')"
    using run unfolding st_bind_Ok[where s = "(dt, fs)"] st_bind_Ok[where m = "on_fs (os_write_all _ _)"]
    by (auto simp: on_fs_Ok)
  from seal_syncs_quiet[OF rest] obtain s6 where q: "quiet (dt, fs2) s6"
      and s': "s' = ((fst s6)\<lparr>dt_state := TxReady\<rparr>, snd s6)"
    by blast
  have g: "is_staging_name name" and t0: "tree_at name fs (payload_view None ?files)" using st s by (simp_all add: owns_def)
  note t1 = tree_at_create(3)[OF made t0 g]
  have "tree_at name fs2 ((\<lambda>q. if prefix [COMPLETION_NAME] q then if q = [COMPLETION_NAME] then Some (FileNode []) else None
      else payload_view None ?files q)([COMPLETION_NAME] \<mapsto> FileNode ([] @ ?doc)))"
    by (rule tree_at_write[OF wrote t1 g]) simp
  then have "tree_at name fs2 (payload_view (Some ?doc) ?files)"
  proof (rule tree_at_cong)
    fix q show "((\<lambda>q. if prefix [COMPLETION_NAME] q then if q = [COMPLETION_NAME] then Some (FileNode []) else None
        else payload_view None ?files q)([COMPLETION_NAME] \<mapsto> FileNode ([] @ ?doc))) q = payload_view (Some ?doc) ?files q"
      by (cases q) (auto simp: payload_view_def)
  qed
  then have "tree_at name (snd s6) (payload_view (Some ?doc) ?files)"
    using tree_at_quiet[of "(dt, fs2)" s6 name] q st s by (simp add: quiet_def owns_def)
  moreover have "owns name s'" using tx_seal_completion_own[OF _ assms(2)] st by (simp add: own_step_def)
  ultimately show ?thesis using st s n q unfolding sealed_def s' by (simp add: quiet_def)
qed

lemma tx_publish_Ok:
  assumes "sealed name plan contents s" and "tx_publish_no_replace s = (Ok StatePublished, s')"
  shows "published plan contents (snd s')" and "map_of (fs_nodes (snd s')) [name] = None"
    and "dt_state (fst s') = TxPublished" and "dt_staging (fst s') = None"
proof -
  note st = assms(1)[unfolded sealed_def]
  let ?dest = "published_name plan"
  have g: "is_staging_name name" "dt_staging (fst s) = Some \<lparr>sd_path = [name]\<rparr>" using st by (simp_all add: owns_def)
  have neq: "name \<noteq> ?dest" using g(1) published_not_staging by auto
  obtain fs' where p: "staging_publish_no_replace \<lparr>sd_path = [name]\<rparr> [?dest] (snd s) = (Ok OutcomePublished, fs')"
      and s': "s' = ((fst s)\<lparr>dt_staging := None, dt_state := TxPublished\<rparr>, fs')"
    using assms(2) st g
    by (auto simp: tx_publish_no_replace_def Let_def split: if_splits prod.splits result.splits PublishOutcome.splits)
  have "map_of (fs_nodes fs') (?dest # q) = map_of (fs_nodes (snd s)) (name # q)" "map_of (fs_nodes fs') [name] = None" for q
    using staging_publish_Ok(1)[OF _ p neq g(1), of q] staging_publish_Ok(2)[OF _ p neq g(1)] by simp_all
  then show "published plan contents (snd s')" "map_of (fs_nodes (snd s')) [name] = None"
      "dt_state (fst s') = TxPublished" "dt_staging (fst s') = None"
    using st unfolding published_def s' by (simp_all add: tree_at_def)
qed

end
