(* ===== verification/Payload_Stream.thy ===== *)
theory Payload_Stream
  imports Payload_Layout
begin

text \<open>
  \<open>stream.rs\<close> of crate \<open>ohl-payload\<close>: one planned entry is streamed from a source that does not know its
  destination.  A \<open>PayloadSource\<close> is code of the caller; what it does in one call is a finite tree: it
  offers a chunk and goes on with the sink's answer, acts on the outside world, or returns.  The
  destination is a function on a state of its own, which the source cannot see; a poll of the
  cancellation token is a step of the world.
\<close>


section \<open>The bounded sink\<close>

datatype 'w SourcePlay =
    Returns bool
  | Offers bytes "bool \<Rightarrow> 'w SourcePlay"
  | Acts "'w \<Rightarrow> 'w" "'w \<Rightarrow> 'w SourcePlay"

datatype PayloadStreamError =
    StreamSourceFailure | StreamDestinationFailure | StreamOverflow | StreamUnderflow | StreamCancelled

record PayloadStreamOutcome =
  pso_error :: "PayloadStreamError option"
  pso_bytes_written :: u64

definition stream_complete :: "PayloadStreamOutcome \<Rightarrow> bool" where
  "stream_complete outcome \<longleftrightarrow> pso_error outcome = None"

record BoundedSink =
  bs_declared_size :: u64
  bs_bytes_written :: u64
  bs_error :: "PayloadStreamError option"

type_synonym ('d, 'w) streaming = "BoundedSink \<times> 'd \<times> 'w"

definition bounded_write_chunk ::
  "('w \<Rightarrow> bool \<times> 'w) \<Rightarrow> (bytes \<Rightarrow> 'd \<Rightarrow> bool \<times> 'd) \<Rightarrow> bytes \<Rightarrow> ('d, 'w) streaming \<Rightarrow> bool \<times> ('d, 'w) streaming" where
  "bounded_write_chunk stop_requested destination bs s =
     (case s of (sink, d, w) \<Rightarrow>
        if bs_error sink \<noteq> None then (False, (sink, d, w))
        else
          case stop_requested w of
            (True, w) \<Rightarrow> (False, (sink\<lparr>bs_error := Some StreamCancelled\<rparr>, d, w))
          | (False, w) \<Rightarrow>
              let remaining = bs_declared_size sink - bs_bytes_written sink;
                  offered = (case try_from_nat (length bs) of Some n \<Rightarrow> n | None \<Rightarrow> - 1)
              in if offered > remaining then (False, (sink\<lparr>bs_error := Some StreamOverflow\<rparr>, d, w))
                 else
                   case destination bs d of
                     (False, d) \<Rightarrow> (False, (sink\<lparr>bs_error := Some StreamDestinationFailure\<rparr>, d, w))
                   | (True, d) \<Rightarrow> (True, (sink\<lparr>bs_bytes_written := bs_bytes_written sink + offered\<rparr>, d, w)))"

text \<open>
  One call of \<open>PayloadSource::stream\<close> with the bounded sink.  What is offered is a slice, and a slice of
  Rust has at most \<open>isize::MAX\<close> bytes.
\<close>

definition as_slice :: "bytes \<Rightarrow> bytes" where
  "as_slice bs = take (2 ^ 63 - 1) bs"

primrec run_source ::
  "('w \<Rightarrow> bool \<times> 'w) \<Rightarrow> (bytes \<Rightarrow> 'd \<Rightarrow> bool \<times> 'd) \<Rightarrow> 'w SourcePlay \<Rightarrow> ('d, 'w) streaming \<Rightarrow> bool \<times> ('d, 'w) streaming" where
  "run_source stop_requested destination (Returns succeeded) = (\<lambda>s. (succeeded, s))"
| "run_source stop_requested destination (Offers bs k) =
     (\<lambda>s. case bounded_write_chunk stop_requested destination (as_slice bs) s of
            (accepted, s) \<Rightarrow> run_source stop_requested destination (k accepted) s)"
| "run_source stop_requested destination (Acts f k) =
     (\<lambda>s. case s of (sink, d, w) \<Rightarrow> run_source stop_requested destination (k w) (sink, d, f w))"

definition stream_payload_entry ::
  "PlannedPayloadEntry \<Rightarrow> (u64 \<Rightarrow> 'w SourcePlay) \<Rightarrow> ('w \<Rightarrow> bool \<times> 'w) \<Rightarrow> (bytes \<Rightarrow> 'd \<Rightarrow> bool \<times> 'd) \<Rightarrow>
     'd \<times> 'w \<Rightarrow> PayloadStreamOutcome \<times> 'd \<times> 'w" where
  "stream_payload_entry entry source stop_requested destination s =
     (case s of (d, w) \<Rightarrow>
        case stop_requested w of
          (True, w) \<Rightarrow> (\<lparr>pso_error = Some StreamCancelled, pso_bytes_written = 0\<rparr>, d, w)
        | (False, w) \<Rightarrow>
            (case run_source stop_requested destination (source (ppe_source_token entry))
                    (\<lparr>bs_declared_size = ppe_size_bytes entry, bs_bytes_written = 0, bs_error = None\<rparr>, d, w) of
               (source_succeeded, bounded, d, w) \<Rightarrow>
                 let bytes_written = bs_bytes_written bounded in
                 case bs_error bounded of
                   Some e \<Rightarrow> (\<lparr>pso_error = Some e, pso_bytes_written = bytes_written\<rparr>, d, w)
                 | None \<Rightarrow>
                     (case stop_requested w of
                        (stop, w) \<Rightarrow>
                          (\<lparr>pso_error =
                              (if stop then Some StreamCancelled
                               else if \<not> source_succeeded then Some StreamSourceFailure
                               else if bytes_written = ppe_size_bytes entry then None
                               else Some StreamUnderflow),
                            pso_bytes_written = bytes_written\<rparr>, d, w))))"


section \<open>What reaches the destination\<close>

text \<open>Chunks handed to a destination one after the other, all of them accepted.\<close>

fun deliver :: "(bytes \<Rightarrow> 'd \<Rightarrow> bool \<times> 'd) \<Rightarrow> bytes list \<Rightarrow> 'd \<Rightarrow> 'd option" where
  "deliver destination [] d = Some d"
| "deliver destination (bs # rest) d =
     (case destination bs d of (True, d) \<Rightarrow> deliver destination rest d | (False, d) \<Rightarrow> None)"

text \<open>
  The source offers some chunks, none of them refused, and returns: a run of its play in which every
  chunk is preceded by a poll that finds no stop requested.
\<close>

inductive offers :: "('w \<Rightarrow> bool \<times> 'w) \<Rightarrow> 'w SourcePlay \<Rightarrow> 'w \<Rightarrow> bytes list \<Rightarrow> bool \<Rightarrow> 'w \<Rightarrow> bool"
  for stop_requested where
  return: "offers stop_requested (Returns r) w [] r w"
| offer: "stop_requested w = (False, w1) \<Longrightarrow> offers stop_requested (k True) w1 cs r w2 \<Longrightarrow>
     offers stop_requested (Offers bs k) w (as_slice bs # cs) r w2"
| act: "offers stop_requested (k w) (f w) cs r w' \<Longrightarrow> offers stop_requested (Acts f k) w cs r w'"

inductive_simps offers_Returns: "offers stop (Returns r) w cs b w'"
inductive_simps offers_Offers: "offers stop (Offers bs k) w cs b w'"
inductive_simps offers_Acts: "offers stop (Acts f k) w cs b w'"

lemma deliver_append: "deliver destination (cs @ ds) d = Option.bind (deliver destination cs d) (deliver destination ds)"
  by (induction cs arbitrary: d) (auto split: prod.split bool.split)

text \<open>
  What a run of the source has done to the sink, from the state in which nothing was refused yet: some
  chunks were delivered, counted exactly and within the declared size; then either nothing was refused,
  or the first refusal is recorded and nothing reached the destination after it.
\<close>

definition sink_inv :: "BoundedSink \<Rightarrow> bool" where
  "sink_inv sink \<longleftrightarrow> bs_bytes_written sink \<le> bs_declared_size sink"

definition delivered ::
  "(bytes \<Rightarrow> 'd \<Rightarrow> bool \<times> 'd) \<Rightarrow> BoundedSink \<Rightarrow> 'd \<Rightarrow> bytes list \<Rightarrow> BoundedSink \<Rightarrow> 'd \<Rightarrow> bool" where
  "delivered destination sink d cs sink' d' \<longleftrightarrow>
     bs_declared_size sink' = bs_declared_size sink \<and> sink_inv sink' \<and>
     unat (bs_bytes_written sink') = unat (bs_bytes_written sink) + length (concat cs) \<and>
     (\<exists>d1. deliver destination cs d = Some d1 \<and>
        (if bs_error sink' = Some StreamDestinationFailure
         then \<exists>bs. destination bs d1 = (False, d') \<and>
                unat (bs_bytes_written sink') + length bs \<le> unat (bs_declared_size sink')
         else d' = d1))"

lemma run_source_refused:
  assumes "bs_error sink \<noteq> None"
  shows "\<exists>r w'. run_source stop destination play (sink, d, w) = (r, (sink, d, w'))"
  using assms by (induction play arbitrary: w) (auto simp: bounded_write_chunk_def)

lemma as_slice_len: "try_from_nat (length (as_slice bs)) = Some (of_nat (length (as_slice bs)) :: u64)"
  "unat (of_nat (length (as_slice bs)) :: u64) = length (as_slice bs)"
proof -
  have "length (as_slice bs) < 2 ^ LENGTH(64)" by (simp add: as_slice_def)
  then show "try_from_nat (length (as_slice bs)) = Some (of_nat (length (as_slice bs)) :: u64)"
    "unat (of_nat (length (as_slice bs)) :: u64) = length (as_slice bs)"
    by (simp_all add: try_from_nat_def unat_of_nat)
qed

text \<open>The four answers of the bounded sink to a chunk.\<close>

lemma bounded_write_chunk_cases:
  assumes "sink_inv sink" and "bs_error sink = None"
    and "bounded_write_chunk stop destination (as_slice bs) (sink, d, w) = (ok, (sink1, d1, w1))"
  obtains (refused) e where "\<not> ok" "sink1 = sink\<lparr>bs_error := Some e\<rparr>" "d1 = d" "e \<noteq> StreamDestinationFailure"
  | (failed) "\<not> ok" "sink1 = sink\<lparr>bs_error := Some StreamDestinationFailure\<rparr>" "destination (as_slice bs) d = (False, d1)"
      "unat (bs_bytes_written sink) + length (as_slice bs) \<le> unat (bs_declared_size sink)"
  | (accepted) "ok" "stop w = (False, w1)" "destination (as_slice bs) d = (True, d1)" "sink_inv sink1"
      "bs_declared_size sink1 = bs_declared_size sink" "bs_error sink1 = None"
      "unat (bs_bytes_written sink1) = unat (bs_bytes_written sink) + length (as_slice bs)"
proof -
  let ?n = "of_nat (length (as_slice bs)) :: u64" and ?remaining = "bs_declared_size sink - bs_bytes_written sink"
  have rem: "unat ?remaining = unat (bs_declared_size sink) - unat (bs_bytes_written sink)"
    "unat (bs_bytes_written sink) \<le> unat (bs_declared_size sink)"
    using assms(1) by (simp_all add: sink_inv_def unat_sub word_le_nat_alt)
  have fits: "?n > ?remaining \<longleftrightarrow> \<not> unat (bs_bytes_written sink) + length (as_slice bs) \<le> unat (bs_declared_size sink)"
    using rem as_slice_len(2)[of bs] by (auto simp: word_less_nat_alt)
  have "unat (bs_declared_size sink) < 2 ^ LENGTH(64)" by (rule unsigned_less)
  then have sum: "unat (bs_bytes_written sink + ?n) = unat (bs_bytes_written sink) + length (as_slice bs)" if "\<not> ?n > ?remaining"
    using that as_slice_len(2)[of bs] unfolding fits by (simp add: unat_word_ariths)
  obtain b w2 where stop: "stop w = (b, w2)" by fastforce
  obtain c d2 where dest: "destination (as_slice bs) d = (c, d2)" by fastforce
  have put: "(ok, (sink1, d1, w1)) =
      (if b then (False, (sink\<lparr>bs_error := Some StreamCancelled\<rparr>, d, w2))
       else if ?n > ?remaining then (False, (sink\<lparr>bs_error := Some StreamOverflow\<rparr>, d, w2))
       else if c then (True, (sink\<lparr>bs_bytes_written := bs_bytes_written sink + ?n\<rparr>, d2, w2))
       else (False, (sink\<lparr>bs_error := Some StreamDestinationFailure\<rparr>, d2, w2)))"
    using assms(2,3) stop dest as_slice_len(1)[of bs]
    by (cases b; cases c; simp add: bounded_write_chunk_def Let_def split: if_splits)
  consider "b \<or> ?n > ?remaining" | "\<not> b" "\<not> ?n > ?remaining" "\<not> c" | "\<not> b" "\<not> ?n > ?remaining" "c" by blast
  then show thesis
  proof cases
    case 1
    then show thesis using put refused by (auto split: if_splits)
  next
    case 2
    then show thesis using put failed fits dest by simp
  next
    case 3
    then show thesis using put accepted fits sum stop dest assms(2) by (simp add: sink_inv_def word_le_nat_alt)
  qed
qed

lemma run_source_delivers:
  assumes "sink_inv sink" and "bs_error sink = None"
    and "run_source stop destination play (sink, d, w) = (r, (sink', d', w'))"
  shows "\<exists>cs. delivered destination sink d cs sink' d' \<and>
    (bs_error sink' = None \<longrightarrow> offers stop play w cs r w')"
  using assms
proof (induction play arbitrary: sink d w)
  case (Returns b)
  then have "delivered destination sink d [] sink' d'" by (simp add: delivered_def)
  then show ?case using Returns offers.return by fastforce
next
  case (Acts f k)
  then show ?case by (auto simp: offers_Acts)
next
  case (Offers bs k)
  obtain ok sink1 d1 w1 where put: "bounded_write_chunk stop destination (as_slice bs) (sink, d, w) = (ok, (sink1, d1, w1))"
    by (rule prod_cases4)
  then have rest: "run_source stop destination (k ok) (sink1, d1, w1) = (r, (sink', d', w'))" using Offers.prems(3) by simp
  from Offers.prems(1,2) put show ?case
  proof (cases rule: bounded_write_chunk_cases)
    case (refused e)
    then have "sink' = sink1" "d' = d1" using run_source_refused[of sink1 stop destination "k ok" d1 w1] rest by auto
    then have "delivered destination sink d [] sink' d'" "bs_error sink' \<noteq> None"
      using refused Offers.prems(1) by (simp_all add: delivered_def sink_inv_def)
    then show ?thesis by (intro exI[of _ "[]"] conjI impI) simp_all
  next
    case failed
    then have "sink' = sink1" "d' = d1" using run_source_refused[of sink1 stop destination "k ok" d1 w1] rest by auto
    then have "delivered destination sink d [] sink' d'" "bs_error sink' \<noteq> None"
      using failed(2-4) Offers.prems(1) unfolding delivered_def sink_inv_def by (simp_all, blast)
    then show ?thesis by (intro exI[of _ "[]"] conjI impI) simp_all
  next
    case accepted
    obtain cs where cs: "delivered destination sink1 d1 cs sink' d'" "bs_error sink' = None \<longrightarrow> offers stop (k ok) w1 cs r w'"
      using Offers.IH[OF rangeI accepted(4,6) rest] by (elim exE conjE)
    have "delivered destination sink d (as_slice bs # cs) sink' d'"
      using cs(1) accepted(3,5,7) by (simp add: delivered_def add.assoc)
    moreover have "offers stop (Offers bs k) w (as_slice bs # cs) r w'" if "bs_error sink' = None"
      using offers.offer[where stop_requested = stop and k = k and bs = bs, OF accepted(2), of cs r w'] cs(2) that accepted(1)
      by simp
    ultimately show ?thesis by (intro exI[of _ "as_slice bs # cs"] conjI impI)
  qed
qed


text \<open>
  Streaming one entry.  Whatever the source does, the chunks that reached the destination are within the
  declared size and are what the outcome counts.  When the outcome is complete they are exactly the
  declared number of bytes, all accepted, and exactly what the source offered before it succeeded, with
  no stop requested at any poll; when the destination refused a chunk, that chunk was the last one it
  saw; in every other failure it saw nothing but the accepted chunks.
\<close>

lemma stream_payload_entry_delivers:
  assumes "stream_payload_entry entry source stop destination (d, w) = (outcome, d', w')"
  shows "\<exists>cs d1. deliver destination cs d = Some d1 \<and>
    unat (pso_bytes_written outcome) = length (concat cs) \<and> length (concat cs) \<le> unat (ppe_size_bytes entry) \<and>
    (case pso_error outcome of
       None \<Rightarrow> d' = d1 \<and> length (concat cs) = unat (ppe_size_bytes entry) \<and>
         (\<exists>w0 w1. stop w = (False, w0) \<and> offers stop (source (ppe_source_token entry)) w0 cs True w1 \<and> stop w1 = (False, w'))
     | Some StreamDestinationFailure \<Rightarrow>
         (\<exists>bs. destination bs d1 = (False, d') \<and> length (concat cs) + length bs \<le> unat (ppe_size_bytes entry))
     | Some _ \<Rightarrow> d' = d1)"
proof -
  let ?sink = "\<lparr>bs_declared_size = ppe_size_bytes entry, bs_bytes_written = 0, bs_error = None\<rparr>"
  obtain b w0 where stop: "stop w = (b, w0)" by fastforce
  show ?thesis
  proof (cases b)
    case True
    then have "deliver destination [] d = Some d'" "outcome = \<lparr>pso_error = Some StreamCancelled, pso_bytes_written = 0\<rparr>"
      using assms stop by (simp_all add: stream_payload_entry_def)
    then show ?thesis by (intro exI[of _ "[]"]) simp
  next
    case False
    obtain r sink1 d2 w1 where run: "run_source stop destination (source (ppe_source_token entry)) (?sink, d, w0) = (r, (sink1, d2, w1))"
      by (rule prod_cases4)
    have inv: "sink_inv ?sink" "bs_error ?sink = None" by (simp_all add: sink_inv_def)
    from run_source_delivers[OF inv run] obtain cs where cs: "delivered destination ?sink d cs sink1 d2"
        "bs_error sink1 = None \<longrightarrow> offers stop (source (ppe_source_token entry)) w0 cs r w1"
      by (elim exE conjE)
    have sizes: "unat (bs_bytes_written sink1) = length (concat cs)" "length (concat cs) \<le> unat (ppe_size_bytes entry)"
      using cs(1) by (auto simp: delivered_def sink_inv_def word_le_nat_alt)
    show ?thesis
    proof (cases "bs_error sink1")
      case (Some e)
      then have "outcome = \<lparr>pso_error = Some e, pso_bytes_written = bs_bytes_written sink1\<rparr>" "d' = d2"
        using assms stop False run by (auto simp: stream_payload_entry_def Let_def)
      moreover obtain d1 where d1: "deliver destination cs d = Some d1"
          "if bs_error sink1 = Some StreamDestinationFailure
           then \<exists>bs. destination bs d1 = (False, d2) \<and> unat (bs_bytes_written sink1) + length bs \<le> unat (bs_declared_size sink1)
           else d2 = d1"
        using cs(1) unfolding delivered_def by (elim exE conjE)
      moreover have "bs_declared_size sink1 = ppe_size_bytes entry" using cs(1) by (simp add: delivered_def)
      ultimately show ?thesis using sizes Some by (intro exI[of _ cs] exI[of _ d1]) (cases e; simp)
    next
      case None
      obtain b2 w2 where stop2: "stop w1 = (b2, w2)" by fastforce
      have out: "outcome = \<lparr>pso_error = (if b2 then Some StreamCancelled else if \<not> r then Some StreamSourceFailure
            else if bs_bytes_written sink1 = ppe_size_bytes entry then None else Some StreamUnderflow),
          pso_bytes_written = bs_bytes_written sink1\<rparr>" "d' = d2" "w' = w2"
        using assms stop False run None stop2 by (auto simp: stream_payload_entry_def Let_def)
      have "deliver destination cs d = Some d2" using cs(1) None by (auto simp: delivered_def)
      moreover have "offers stop (source (ppe_source_token entry)) w0 cs r w1" using cs(2) None by simp
      moreover from this stop2 have "\<not> b2 \<and> r \<longrightarrow> (\<exists>v. offers stop (source (ppe_source_token entry)) w0 cs True v \<and> stop v = (False, w2))"
        by (intro impI exI[of _ w1]) simp
      ultimately show ?thesis using sizes stop False stop2 unfolding out
        by (intro exI[of _ cs] exI[of _ d2]) (cases b2; cases r; cases "bs_bytes_written sink1 = ppe_size_bytes entry"; simp)
    qed
  qed
qed

end
