(* ===== verification/Source_Stability.thy ===== *)
theory Source_Stability
  imports Import_Reads_Correct
begin

text \<open>
  \<open>src/crates/ohl-platform/src/stability.rs\<close>: a pinned source is authenticated again, whole, before
  something derived from it is published.  The pinned source is a record of functions on the state of
  the outside world, and so is the question whether a stop was requested; a read fills a slice of a given
  length, so it returns the byte at every index.  SHA-256 is a parameter.
\<close>

definition REHASH_CHUNK_BYTES :: u64 where "REHASH_CHUNK_BYTES = 64 * 1024"

record 'w MediaSource =
  ms_size :: u64
  ms_verify_unchanged :: "'w \<Rightarrow> (MediaSourceError, unit) result \<times> 'w"
  ms_read_exact_at :: "u64 \<Rightarrow> nat \<Rightarrow> 'w \<Rightarrow> (MediaSourceError, nat \<Rightarrow> u8) result \<times> 'w"

record SourceFingerprint =
  fp_size_bytes :: u64
  fp_sha256 :: bytes

datatype SourceStabilityError =
    StInvalidCapability | StSourceChanged | StReadFailure | StDigestMismatch | StCancelled

fun map_boundary_error :: "(MediaSourceError, unit) result \<Rightarrow> (SourceStabilityError, unit) result" where
  "map_boundary_error (Ok _) = Ok ()"
| "map_boundary_error (Err Changed) = Err StSourceChanged"
| "map_boundary_error (Err _) = Err StReadFailure"

definition verify_boundary :: "'w MediaSource \<Rightarrow> ('w, SourceStabilityError, unit) stm" where
  "verify_boundary source w = (case ms_verify_unchanged source w of (r, w) \<Rightarrow> (map_boundary_error r, w))"

text \<open>A failed read is ambiguous, so the pinned object is asked first whether it changed.\<close>

fun classify_read_error :: "MediaSourceError \<Rightarrow> SourceStabilityError" where
  "classify_read_error UnexpectedEof = StSourceChanged"
| "classify_read_error OutOfRange = StSourceChanged"
| "classify_read_error _ = StReadFailure"

text \<open>The loop over the chunks; it returns everything the digest was updated with.\<close>

function rehash ::
  "'w MediaSource \<Rightarrow> ('w \<Rightarrow> bool \<times> 'w) \<Rightarrow> u64 \<Rightarrow> u64 \<Rightarrow> bytes \<Rightarrow> ('w, SourceStabilityError, bytes) stm" where
  "rehash source stop_requested size_bytes offset hashed w =
     (if \<not> offset < size_bytes then (Ok hashed, w)
      else
        let remaining = size_bytes - offset;
            count = min remaining REHASH_CHUNK_BYTES
        in case ms_read_exact_at source offset (unat count) w of
             (Err read_error, w) \<Rightarrow>
               st_bind (verify_boundary source) (\<lambda>_. st_fail (classify_read_error read_error)) w
           | (Ok chunk, w) \<Rightarrow>
               let hashed = hashed @ map chunk [0..<unat count];
                   offset = offset + count
               in if offset < size_bytes
                  then (case stop_requested w of
                          (True, w) \<Rightarrow> (Err StCancelled, w)
                        | (False, w) \<Rightarrow> rehash source stop_requested size_bytes offset hashed w)
                  else rehash source stop_requested size_bytes offset hashed w)"
  by pat_completeness auto

lemma rehash_progress:
  fixes offset size_bytes :: u64
  assumes "offset < size_bytes"
  shows "unat (offset + min (size_bytes - offset) REHASH_CHUNK_BYTES) =
      unat offset + unat (min (size_bytes - offset) REHASH_CHUNK_BYTES)"
    and "0 < unat (min (size_bytes - offset) REHASH_CHUNK_BYTES)"
    and "unat offset + unat (min (size_bytes - offset) REHASH_CHUNK_BYTES) \<le> unat size_bytes"
proof -
  let ?c = "min (size_bytes - offset) REHASH_CHUNK_BYTES"
  have d: "unat (size_bytes - offset) = unat size_bytes - unat offset" using assms by (simp add: unat_sub word_less_nat_alt word_le_nat_alt)
  have c: "unat ?c = min (unat (size_bytes - offset)) 65536"
    by (auto simp: min_def word_le_nat_alt REHASH_CHUNK_BYTES_def)
  have less: "unat offset < unat size_bytes" using assms by (simp add: word_less_nat_alt)
  show "0 < unat ?c" and le: "unat offset + unat ?c \<le> unat size_bytes" using c d less by auto
  have "unat size_bytes < 2 ^ LENGTH(64)" by (rule unsigned_less)
  then show "unat (offset + ?c) = unat offset + unat ?c" using le by (simp add: unat_word_ariths)
qed

lemma rehash_decreases:
  fixes offset size_bytes :: u64
  assumes "offset < size_bytes"
  shows "unat size_bytes - unat (offset + min (size_bytes - offset) REHASH_CHUNK_BYTES) < unat size_bytes - unat offset"
  using rehash_progress[OF assms] assms by (simp add: word_less_nat_alt)

termination rehash
  by (relation "measure (\<lambda>(source, stop, size_bytes, offset, hashed, w). unat size_bytes - unat offset)")
    (auto intro: rehash_decreases)

declare rehash.simps [simp del]

definition verify_complete_source_stability_with_cancellation ::
  "(bytes \<Rightarrow> bytes) \<Rightarrow> 'w MediaSource \<Rightarrow> SourceFingerprint \<Rightarrow> ('w \<Rightarrow> bool \<times> 'w) \<Rightarrow>
     ('w, SourceStabilityError, unit) stm" where
  "verify_complete_source_stability_with_cancellation sha256 source fingerprint stop_requested w =
     (if ms_size source \<noteq> fp_size_bytes fingerprint then (Err StInvalidCapability, w)
      else
        st_bind (verify_boundary source) (\<lambda>_ w.
          case stop_requested w of
            (True, w) \<Rightarrow> (Err StCancelled, w)
          | (False, w) \<Rightarrow>
              st_bind (rehash source stop_requested (fp_size_bytes fingerprint) 0 []) (\<lambda>hashed.
              st_bind (verify_boundary source) (\<lambda>_.
                if sha256 hashed = fp_sha256 fingerprint then st_return () else st_fail StDigestMismatch)) w) w)"

definition verify_complete_source_stability ::
  "(bytes \<Rightarrow> bytes) \<Rightarrow> 'w MediaSource \<Rightarrow> SourceFingerprint \<Rightarrow> ('w, SourceStabilityError, unit) stm" where
  "verify_complete_source_stability sha256 source fingerprint =
     verify_complete_source_stability_with_cancellation sha256 source fingerprint (\<lambda>w. (False, w))"


section \<open>What a completed check has read\<close>

text \<open>
  The bytes that consecutive reads returned from \<open>offset\<close> to the end, as a relation on the states of the
  world between them.
\<close>

definition reads_back :: "'w MediaSource \<Rightarrow> (nat \<Rightarrow> u8) \<Rightarrow> bool" where
  "reads_back source content \<longleftrightarrow>
     (\<forall>offset n w chunk w' i. ms_read_exact_at source offset n w = (Ok chunk, w') \<longrightarrow> i < n \<longrightarrow>
        chunk i = content (unat offset + i))"

lemma reads_backD:
  "reads_back source content \<Longrightarrow> ms_read_exact_at source offset n w = (Ok chunk, w') \<Longrightarrow> i < n \<Longrightarrow>
     chunk i = content (unat offset + i)"
  unfolding reads_back_def by blast

lemma map_content_append:
  "map content [0..<a] @ map (\<lambda>i. content (a + i)) [0..<b] = map content [0..<a + b]"
proof -
  have "map (\<lambda>i. content (a + i)) [0..<b] = map content [a..<a + b]" by (rule nth_equalityI) auto
  moreover have "[0..<a + b] = [0..<a] @ [a..<a + b]" by (rule upt_add_eq_append) simp
  ultimately show ?thesis by simp
qed

lemma rehash_again:
  assumes "offset < size_bytes"
    and "ms_read_exact_at source offset (unat (min (size_bytes - offset) REHASH_CHUNK_BYTES)) w = (Ok chunk, w1)"
    and "rehash source stop_requested size_bytes offset hashed w = (Ok all_hashed, w')"
  shows "\<exists>w2. rehash source stop_requested size_bytes (offset + min (size_bytes - offset) REHASH_CHUNK_BYTES)
    (hashed @ map chunk [0..<unat (min (size_bytes - offset) REHASH_CHUNK_BYTES)]) w2 = (Ok all_hashed, w')"
proof -
  let ?c = "min (size_bytes - offset) REHASH_CHUNK_BYTES"
  obtain stop w2 where stop: "stop_requested w1 = (stop, w2)" by fastforce
  have "rehash source stop_requested size_bytes offset hashed w =
     (if offset + ?c < size_bytes
      then if stop then (Err StCancelled, w2)
        else rehash source stop_requested size_bytes (offset + ?c) (hashed @ map chunk [0..<unat ?c]) w2
      else rehash source stop_requested size_bytes (offset + ?c) (hashed @ map chunk [0..<unat ?c]) w1)"
    unfolding rehash.simps[of source stop_requested size_bytes offset] using assms(1,2) stop
    by (simp add: Let_def split: bool.split)
  with assms(3) show ?thesis by (auto split: if_splits)
qed

lemma rehash_exact:
  assumes "reads_back source content"
    and "rehash source stop_requested size_bytes offset (map content [0..<unat offset]) w = (Ok hashed, w')"
    and "offset \<le> size_bytes"
  shows "hashed = map content [0..<unat size_bytes]"
  using assms(2,3)
proof (induction "unat size_bytes - unat offset" arbitrary: offset w rule: less_induct)
  case less
  show ?case
  proof (cases "offset < size_bytes")
    case False
    then have "offset = size_bytes" using less.prems(2) by simp
    then show ?thesis using less.prems(1) by (simp add: rehash.simps)
  next
    case True
    let ?c = "min (size_bytes - offset) REHASH_CHUNK_BYTES"
    note step = rehash_progress[OF True]
    obtain r w1 where read: "ms_read_exact_at source offset (unat ?c) w = (r, w1)" by fastforce
    show ?thesis
    proof (cases r)
      case (Err e)
      then show ?thesis using less.prems(1) read True by (simp add: rehash.simps[of _ _ _ offset] Let_def st_bind_Ok)
    next
      case (Ok chunk)
      have "map chunk [0..<unat ?c] = map (\<lambda>i. content (unat offset + i)) [0..<unat ?c]"
        using reads_backD[OF assms(1)] read Ok by auto
      then have all: "map content [0..<unat offset] @ map chunk [0..<unat ?c] = map content [0..<unat (offset + ?c)]"
        using map_content_append step(1) by metis
      have "\<exists>w2. rehash source stop_requested size_bytes (offset + ?c) (map content [0..<unat (offset + ?c)]) w2 = (Ok hashed, w')"
        using rehash_again[OF True read[unfolded Ok] less.prems(1)] unfolding all .
      moreover have "offset + ?c \<le> size_bytes" using step(1,3) by (simp add: word_le_nat_alt)
      moreover note rehash_decreases[OF True]
      ultimately show ?thesis using less.hyps by blast
    qed
  qed
qed

lemma boundary_no_mismatch: "verify_boundary source w \<noteq> (Err StDigestMismatch, w')"
proof -
  have "map_boundary_error r \<noteq> Err StDigestMismatch" for r
    by (cases r rule: map_boundary_error.cases) auto
  then show ?thesis by (auto simp: verify_boundary_def split: prod.splits)
qed

lemma rehash_no_mismatch: "rehash source stop_requested size_bytes offset hashed w \<noteq> (Err StDigestMismatch, w')"
proof (induction source stop_requested size_bytes offset hashed w rule: rehash.induct)
  case (1 source stop_requested size_bytes offset hashed w)
  have "classify_read_error e \<noteq> StDigestMismatch" for e by (cases e) auto
  moreover have "verify_boundary source u = (Err StDigestMismatch, u') \<Longrightarrow> False" for u u'
    using boundary_no_mismatch by metis
  ultimately show ?case using 1
    by (subst rehash.simps) (auto simp: Let_def st_bind_Err split: prod.splits result.splits bool.splits)
qed

text \<open>
  If the reads that succeed return the bytes of one content, a check that succeeds has hashed that whole
  content and found the accepted digest and size, and a mismatch is reported only when the digest differs.
\<close>

lemma stability_verdict:
  assumes "reads_back source content"
    and "verify_complete_source_stability_with_cancellation sha256 source fingerprint stop_requested w = (r, w')"
  shows "r = Ok u \<Longrightarrow> ms_size source = fp_size_bytes fingerprint \<and>
      sha256 (map content [0..<unat (ms_size source)]) = fp_sha256 fingerprint"
    and "r = Err StDigestMismatch \<Longrightarrow> sha256 (map content [0..<unat (ms_size source)]) \<noteq> fp_sha256 fingerprint"
proof -
  let ?n = "fp_size_bytes fingerprint"
  have verdict: "(r = Ok u \<longrightarrow> sha256 (map content [0..<unat ?n]) = fp_sha256 fingerprint) \<and>
      (r = Err StDigestMismatch \<longrightarrow> sha256 (map content [0..<unat ?n]) \<noteq> fp_sha256 fingerprint)"
    if "st_bind (rehash source stop_requested ?n 0 []) (\<lambda>hashed. st_bind (verify_boundary source) (\<lambda>_.
        if sha256 hashed = fp_sha256 fingerprint then st_return () else st_fail StDigestMismatch)) w2 = (r, w')" for w2
  proof -
    obtain x w3 where x: "rehash source stop_requested ?n 0 [] w2 = (x, w3)" by fastforce
    obtain y w4 where y: "verify_boundary source w3 = (y, w4)" by fastforce
    have "x \<noteq> Err StDigestMismatch" "y \<noteq> Err StDigestMismatch"
      using x y rehash_no_mismatch boundary_no_mismatch by metis+
    moreover have "h = map content [0..<unat ?n]" if "x = Ok h" for h
      using rehash_exact[OF assms(1), of stop_requested ?n 0 w2 h w3] x that by simp
    ultimately show ?thesis using that x y
      by (cases x; cases y) (auto simp: st_bind_def split: if_splits)
  qed
  obtain x w1 where x: "verify_boundary source w = (x, w1)" by fastforce
  have "x \<noteq> Err StDigestMismatch" using x boundary_no_mismatch by metis
  then show "r = Ok u \<Longrightarrow> ms_size source = fp_size_bytes fingerprint \<and>
      sha256 (map content [0..<unat (ms_size source)]) = fp_sha256 fingerprint"
    and "r = Err StDigestMismatch \<Longrightarrow> sha256 (map content [0..<unat (ms_size source)]) \<noteq> fp_sha256 fingerprint"
    using assms(2) x verdict
    by (cases x; cases "stop_requested w1"; cases "fst (stop_requested w1)";
        force simp: verify_complete_source_stability_with_cancellation_def st_bind_def[of "verify_boundary source"]
        split: if_splits)+
qed

end
