(* ===== verification/Payload_Stage.thy ===== *)
theory Payload_Stage
  imports Payload_Store_Correct Payload_Stream Source_Stability
begin

text \<open>
  \<open>stage.rs\<close> of crate \<open>ohl-payload\<close>: the whole commit protocol.  The traits \<open>PayloadStore\<close> and
  \<open>PayloadTransaction\<close> of \<open>store.rs\<close> are one record of functions on a state \<open>'t\<close> that holds the store and
  the open transaction; the pinned source, the payload source and the cancellation token act on the
  state \<open>'w\<close> of the outside world.  An early return is the error of a state transformer.
\<close>


section \<open>The store interface\<close>

record 't PayloadStore =
  ps_probe :: "StagingPlan \<Rightarrow> ('t, PayloadStoreError, ProbeState) stm"
  ps_create_transaction :: "('t, PayloadStoreError, unit) stm"
  pt_begin :: "StagingPlan \<Rightarrow> ('t, PayloadStoreError, unit) stm"
  pt_open_file :: "bytes list \<Rightarrow> u64 \<Rightarrow> ('t, PayloadStoreError, unit) stm"
  pt_write_chunk :: "bytes \<Rightarrow> ('t, PayloadStoreError, unit) stm"
  pt_seal_file :: "('t, PayloadStoreError, unit) stm"
  pt_seal_completion :: "('t, PayloadStoreError, unit) stm"
  pt_publish_no_replace :: "('t, PayloadStoreError, PublishState) stm"
  pt_sync_published_parent :: "('t, PayloadStoreError, unit) stm"
  pt_abort :: "('t, PayloadStoreError, unit) stm"
  pt_drop :: "'t \<Rightarrow> 't"

definition directory_payload_store :: "dtx PayloadStore" where
  "directory_payload_store =
     \<lparr>ps_probe = \<lambda>plan s. (case store_probe plan (snd s) of (r, fs) \<Rightarrow> (r, (fst s, fs))),
      ps_create_transaction = \<lambda>s. (Ok (), (create_transaction, snd s)),
      pt_begin = tx_begin, pt_open_file = tx_open_file, pt_write_chunk = tx_write_chunk, pt_seal_file = tx_seal_file,
      pt_seal_completion = tx_seal_completion, pt_publish_no_replace = tx_publish_no_replace,
      pt_sync_published_parent = tx_sync_published_parent, pt_abort = tx_abort, pt_drop = tx_drop\<rparr>"


section \<open>Requests and reports\<close>

definition MAXIMUM_RECIPE_IDENTITY_BYTES :: nat where "MAXIMUM_RECIPE_IDENTITY_BYTES = 4096"
definition IDENTITY_DOMAIN :: bytes where "IDENTITY_DOMAIN = ascii ''open-half-life-payload-stage''"
definition IDENTITY_VERSION :: u64 where "IDENTITY_VERSION = 2"
definition IDENTITY_PREFIX :: bytes where "IDENTITY_PREFIX = ascii ''ohl-payload-v2-sha256:''"
definition STAGE_CHUNK_BYTES :: nat where "STAGE_CHUNK_BYTES = 64 * 1024"

record PayloadStageRequest =
  req_recipe_identity :: bytes
  req_entries :: "PlannedPayloadEntry list"
  req_declared_total_bytes :: u64
  req_limits :: PayloadImportLimits

datatype PayloadStageStatus =
    StageFailed | StageCleanupFailed | StageCacheHit | StageConflict
  | StagePublishedSyncComplete | StagePublishedSyncUncertain

datatype PayloadStagePhase =
    PhaseValidation | PhaseCancellation | PhaseProbe | PhaseCreateTransaction | PhaseBegin | PhaseOpenFile
  | PhaseStreamFile | PhaseSealFile | PhaseSealCompletion | PhaseVerifySource | PhasePublish | PhaseRevalidate
  | PhaseSyncPublishedParent | PhaseComplete

datatype PayloadStageError =
    StageInvalidRequest | StageStoreFailure | StageStreamFailure | StageSourceVerificationFailure | StageCancelled
  | StagePublishFailure | StageRevalidationFailure | StageCleanupFailure | StagePublishedSyncFailure

datatype WinnerObservation =
    WinnerNotChecked | WinnerMatching | WinnerConflict | WinnerAbsent | WinnerProbeFailed

datatype PublicationState = NotPublished | Published | PublishedSyncComplete | PublishedSyncUncertain

record PayloadStageReport =
  rep_status :: PayloadStageStatus
  rep_phase :: PayloadStagePhase
  rep_error :: "PayloadStageError option"
  rep_publication :: PublicationState
  rep_winner_observation :: WinnerObservation
  rep_store_error :: "PayloadStoreError option"
  rep_stream_error :: "PayloadStreamError option"
  rep_verification_error :: "SourceStabilityError option"
  rep_failing_entry :: "nat option"
  rep_bytes_streamed :: u64
  rep_entries_streamed :: u64
  rep_cleanup_attempted :: bool
  rep_cleanup_error :: "PayloadStoreError option"
  rep_identity :: "bytes option"

definition report_failed :: PayloadStageReport where
  "report_failed =
     \<lparr>rep_status = StageFailed, rep_phase = PhaseValidation, rep_error = None, rep_publication = NotPublished,
      rep_winner_observation = WinnerNotChecked, rep_store_error = None, rep_stream_error = None,
      rep_verification_error = None, rep_failing_entry = None, rep_bytes_streamed = 0, rep_entries_streamed = 0,
      rep_cleanup_attempted = False, rep_cleanup_error = None, rep_identity = None\<rparr>"

definition usable :: "PayloadStageReport \<Rightarrow> bool" where
  "usable report \<longleftrightarrow> rep_cleanup_error report = None \<and>
     (rep_status report = StageCacheHit \<or> rep_status report = StagePublishedSyncComplete)"


section \<open>Preparing a plan\<close>

record PreparedPlan =
  prep_identity :: bytes
  prep_plan :: StagingPlan

definition u64_to_be :: "u64 \<Rightarrow> bytes" where
  "u64_to_be v = rev (u64_to_le v)"

definition absorb :: "bytes \<Rightarrow> bytes" where
  "absorb bs = u64_to_be (case try_from_nat (length bs) of Some n \<Rightarrow> n | None \<Rightarrow> - 1) @ bs"

definition identity_preimage :: "SourceFingerprint \<Rightarrow> PayloadStageRequest \<Rightarrow> bytes" where
  "identity_preimage fingerprint request =
     absorb IDENTITY_DOMAIN @ u64_to_be IDENTITY_VERSION @ u64_to_be (fp_size_bytes fingerprint)
     @ absorb (fp_sha256 fingerprint) @ absorb (req_recipe_identity request)
     @ u64_to_be (case try_from_nat (length (req_entries request)) of Some n \<Rightarrow> n | None \<Rightarrow> - 1)
     @ u64_to_be (req_declared_total_bytes request)
     @ concat (map (\<lambda>entry. absorb (pp_relative_path (ppe_path entry)) @ u64_to_be (ppe_size_bytes entry))
         (req_entries request))"

text \<open>The sums over the request, or the index of the first entry that breaks a limit.\<close>

fun request_total :: "PayloadImportLimits \<Rightarrow> nat \<Rightarrow> u64 \<Rightarrow> u64 \<Rightarrow> PlannedPayloadEntry list \<Rightarrow> (nat, u64) result" where
  "request_total limits index total_path_bytes total_bytes [] = Ok total_bytes"
| "request_total limits index total_path_bytes total_bytes (entry # entries) =
     (let path_bytes = (case try_from_nat (length (pp_relative_path (ppe_path entry))) of Some n \<Rightarrow> n | None \<Rightarrow> - 1) in
      if path_bytes > pil_maximum_path_bytes limits - total_path_bytes
         \<or> ppe_size_bytes entry > pil_maximum_entry_bytes limits
         \<or> ppe_size_bytes entry > pil_maximum_total_bytes limits - total_bytes
      then Err index
      else request_total limits (Suc index) (total_path_bytes + path_bytes) (total_bytes + ppe_size_bytes entry) entries)"

text \<open>The first index at which two lists of entries differ.\<close>

fun first_difference :: "nat \<Rightarrow> PlannedPayloadEntry list \<Rightarrow> PlannedPayloadEntry list \<Rightarrow> nat option" where
  "first_difference index (p # ps) (q # qs) = (if p \<noteq> q then Some index else first_difference (Suc index) ps qs)"
| "first_difference index _ _ = None"

definition staging_entry_of :: "PlannedPayloadEntry \<Rightarrow> StagingEntry" where
  "staging_entry_of entry = \<lparr>se_components = path_components (ppe_path entry), se_size_bytes = ppe_size_bytes entry\<rparr>"

definition metadata_of :: "PlannedPayloadEntry \<Rightarrow> PayloadEntryMetadata" where
  "metadata_of entry =
     \<lparr>pem_source_token = ppe_source_token entry, pem_archive_path = pp_relative_path (ppe_path entry),
      pem_size_bytes = ppe_size_bytes entry\<rparr>"

definition prepare_plan ::
  "(bytes \<Rightarrow> bytes) \<Rightarrow> SourceFingerprint \<Rightarrow> PayloadStageRequest \<Rightarrow> PreparedPlan option" where
  "prepare_plan sha256 fingerprint request =
     (let identity = IDENTITY_PREFIX @ hex_encode (sha256 (identity_preimage fingerprint request)) in
      case staging_plan_new identity (map staging_entry_of (req_entries request)) of
        Err _ \<Rightarrow> None
      | Ok plan \<Rightarrow> Some \<lparr>prep_identity = identity, prep_plan = plan\<rparr>)"

definition prepare ::
  "(bytes \<Rightarrow> bytes) \<Rightarrow> u64 \<Rightarrow> SourceFingerprint \<Rightarrow> PayloadStageRequest \<Rightarrow> PreparedPlan option \<times> nat option" where
  "prepare sha256 media_bytes fingerprint request =
     (let limits = req_limits request; entries = req_entries request in
      if req_recipe_identity request = []
         \<or> length (req_recipe_identity request) > MAXIMUM_RECIPE_IDENTITY_BYTES
         \<or> media_bytes \<noteq> fp_size_bytes fingerprint
         \<or> \<not> coherent limits
         \<or> length entries > pil_maximum_entries limits
      then (None, None)
      else
        case request_total limits 0 0 0 entries of
          Err index \<Rightarrow> (None, Some index)
        | Ok total_bytes \<Rightarrow>
            if total_bytes \<noteq> req_declared_total_bytes request then (None, None)
            else
              case plan_payload_layout (map metadata_of entries) limits of
                Err rejection \<Rightarrow> (None, rej_entry_index rejection)
              | Ok planned \<Rightarrow>
                  if lay_total_bytes planned \<noteq> req_declared_total_bytes request
                     \<or> length (lay_entries planned) \<noteq> length entries
                  then (None, None)
                  else
                    case first_difference 0 (lay_entries planned) entries of
                      Some index \<Rightarrow> (None, Some index)
                    | None \<Rightarrow> (prepare_plan sha256 fingerprint request, None))"


section \<open>Staging\<close>

function chunks :: "nat \<Rightarrow> bytes \<Rightarrow> bytes list" where
  "chunks n bs = (if bs = [] \<or> n = 0 then [] else take n bs # chunks n (drop n bs))"
  by pat_completeness auto
termination
  by (relation "measure (\<lambda>(n, bs). length bs)") auto

declare chunks.simps [simp del]

fun write_windows :: "'t PayloadStore \<Rightarrow> bytes list \<Rightarrow> PayloadStoreError option \<times> 't \<Rightarrow> bool \<times> PayloadStoreError option \<times> 't" where
  "write_windows store [] s = (True, s)"
| "write_windows store (window # windows) (error, t) =
     (case pt_write_chunk store window t of
        (Err e, t) \<Rightarrow> (False, (Some e, t))
      | (Ok _, t) \<Rightarrow> write_windows store windows (error, t))"

text \<open>The \<open>TransactionSink\<close>: its first store error and the transaction.\<close>

definition transaction_sink_write ::
  "'t PayloadStore \<Rightarrow> bytes \<Rightarrow> PayloadStoreError option \<times> 't \<Rightarrow> bool \<times> PayloadStoreError option \<times> 't" where
  "transaction_sink_write store bs s = write_windows store (chunks STAGE_CHUNK_BYTES bs) s"

definition abort_stage :: "'t PayloadStore \<Rightarrow> PayloadStageReport \<Rightarrow> 't \<Rightarrow> PayloadStageReport \<times> 't" where
  "abort_stage store report t =
     (case pt_abort store t of
        (r, t) \<Rightarrow>
          (report\<lparr>rep_cleanup_attempted := True,
             rep_cleanup_error := (case r of Err e \<Rightarrow> Some e | Ok _ \<Rightarrow> None)\<rparr>, t))"

text \<open>Abort the transaction and return the report.\<close>

definition give_up :: "'t PayloadStore \<Rightarrow> PayloadStageReport \<Rightarrow> ('t \<times> 'w, PayloadStageReport, 'a) stm" where
  "give_up store report s = (case abort_stage store report (fst s) of (report, t) \<Rightarrow> (Err report, (t, snd s)))"

definition store_failure :: "PayloadStagePhase \<Rightarrow> PayloadStoreError \<Rightarrow> PayloadStageReport \<Rightarrow> PayloadStageReport" where
  "store_failure phase e report =
     report\<lparr>rep_phase := phase, rep_error := Some StageStoreFailure, rep_store_error := Some e\<rparr>"

definition stage_entry ::
  "'t PayloadStore \<Rightarrow> (u64 \<Rightarrow> 'w SourcePlay) \<Rightarrow> ('w \<Rightarrow> bool \<times> 'w) \<Rightarrow> nat \<Rightarrow> PlannedPayloadEntry \<Rightarrow> PayloadStageReport \<Rightarrow>
     ('t \<times> 'w, PayloadStageReport, PayloadStageReport) stm" where
  "stage_entry store payload_source stop_requested index entry report s =
     (case pt_open_file store (path_components (ppe_path entry)) (ppe_size_bytes entry) (fst s) of
        (Err e, t) \<Rightarrow>
          give_up store ((store_failure PhaseOpenFile e report)\<lparr>rep_failing_entry := Some index\<rparr>) (t, snd s)
      | (Ok _, t) \<Rightarrow>
          (case stream_payload_entry entry payload_source stop_requested (transaction_sink_write store) ((None, t), snd s) of
             (outcome, (write_error, t), w) \<Rightarrow>
               let report = report\<lparr>rep_bytes_streamed := rep_bytes_streamed report + pso_bytes_written outcome\<rparr> in
               case pso_error outcome of
                 Some stream_error \<Rightarrow>
                   give_up store
                     (report\<lparr>rep_phase := PhaseStreamFile,
                        rep_error := Some (if stream_error = StreamCancelled then StageCancelled else StageStreamFailure),
                        rep_stream_error := Some stream_error, rep_store_error := write_error,
                        rep_failing_entry := Some index\<rparr>) (t, w)
               | None \<Rightarrow>
                   let report = report\<lparr>rep_entries_streamed := rep_entries_streamed report + 1\<rparr> in
                   case pt_seal_file store t of
                     (Err e, t) \<Rightarrow>
                       give_up store ((store_failure PhaseSealFile e report)\<lparr>rep_failing_entry := Some index\<rparr>) (t, w)
                   | (Ok _, t) \<Rightarrow> (Ok report, (t, w))))"

fun stage_entries ::
  "'t PayloadStore \<Rightarrow> (u64 \<Rightarrow> 'w SourcePlay) \<Rightarrow> ('w \<Rightarrow> bool \<times> 'w) \<Rightarrow> nat \<Rightarrow> PlannedPayloadEntry list \<Rightarrow>
     PayloadStageReport \<Rightarrow> ('t \<times> 'w, PayloadStageReport, PayloadStageReport) stm" where
  "stage_entries store payload_source stop_requested index [] report s = (Ok report, s)"
| "stage_entries store payload_source stop_requested index (entry # entries) report s =
     st_bind (stage_entry store payload_source stop_requested index entry report)
       (stage_entries store payload_source stop_requested (Suc index) entries) s"

text \<open>Everything between the creation of the transaction and the attempt to publish.\<close>

definition stage_tree ::
  "(bytes \<Rightarrow> bytes) \<Rightarrow> 'w MediaSource \<Rightarrow> SourceFingerprint \<Rightarrow> PlannedPayloadEntry list \<Rightarrow> StagingPlan \<Rightarrow>
     (u64 \<Rightarrow> 'w SourcePlay) \<Rightarrow> 't PayloadStore \<Rightarrow> ('w \<Rightarrow> bool \<times> 'w) \<Rightarrow> PayloadStageReport \<Rightarrow>
     ('t \<times> 'w, PayloadStageReport, PayloadStageReport) stm" where
  "stage_tree sha256 source fingerprint entries plan payload_source store stop_requested report s =
     (case pt_begin store plan (fst s) of
        (Err e, t) \<Rightarrow> give_up store (store_failure PhaseBegin e report) (t, snd s)
      | (Ok _, t) \<Rightarrow>
          st_bind (stage_entries store payload_source stop_requested 0 entries report) (\<lambda>report (t, w).
            case pt_seal_completion store t of
              (Err e, t) \<Rightarrow> give_up store (store_failure PhaseSealCompletion e report) (t, w)
            | (Ok _, t) \<Rightarrow>
                (case verify_complete_source_stability_with_cancellation sha256 source fingerprint stop_requested w of
                   (Err e, w) \<Rightarrow>
                     give_up store
                       (report\<lparr>rep_phase := PhaseVerifySource,
                          rep_error := Some (if e = StCancelled then StageCancelled else StageSourceVerificationFailure),
                          rep_verification_error := Some e\<rparr>) (t, w)
                 | (Ok _, w) \<Rightarrow>
                     (case stop_requested w of
                        (True, w) \<Rightarrow>
                          give_up store
                            (report\<lparr>rep_phase := PhaseCancellation, rep_error := Some StageCancelled\<rparr>) (t, w)
                      | (False, w) \<Rightarrow> (Ok report, (t, w))))) (t, snd s))"

definition stage_publish :: "'t PayloadStore \<Rightarrow> StagingPlan \<Rightarrow> PayloadStageReport \<Rightarrow> 't \<Rightarrow> PayloadStageReport \<times> 't" where
  "stage_publish store plan report t =
     (case pt_publish_no_replace store t of
        (Err e, t) \<Rightarrow>
          (case abort_stage store
                  (report\<lparr>rep_phase := PhasePublish, rep_error := Some StagePublishFailure, rep_store_error := Some e\<rparr>) t of
             (report, t) \<Rightarrow> (report, pt_drop store t))
      | (Ok StateDestinationExists, t) \<Rightarrow>
          (case abort_stage store (report\<lparr>rep_phase := PhaseRevalidate\<rparr>) t of
             (report, t) \<Rightarrow>
               (case ps_probe store plan (pt_drop store t) of
                  (r, t) \<Rightarrow>
                    let report =
                      (case r of
                         Err e \<Rightarrow> report\<lparr>rep_store_error := Some e, rep_winner_observation := WinnerProbeFailed\<rparr>
                       | Ok Matching \<Rightarrow> report\<lparr>rep_winner_observation := WinnerMatching\<rparr>
                       | Ok Conflicting \<Rightarrow> report\<lparr>rep_winner_observation := WinnerConflict\<rparr>
                       | Ok Absent \<Rightarrow> report\<lparr>rep_winner_observation := WinnerAbsent\<rparr>)
                    in (if rep_cleanup_error report \<noteq> None
                        then report\<lparr>rep_status := StageCleanupFailed, rep_error := Some StageCleanupFailure\<rparr>
                        else if rep_winner_observation report = WinnerMatching
                        then report\<lparr>rep_status := StageCacheHit\<rparr>
                        else if rep_winner_observation report = WinnerConflict
                        then report\<lparr>rep_status := StageConflict\<rparr>
                        else report\<lparr>rep_error := Some StageRevalidationFailure\<rparr>, t)))
      | (Ok StatePublished, t) \<Rightarrow>
          let report = report\<lparr>rep_publication := Published\<rparr> in
          (case pt_sync_published_parent store t of
             (Err e, t) \<Rightarrow>
               (report\<lparr>rep_status := StagePublishedSyncUncertain, rep_phase := PhaseSyncPublishedParent,
                  rep_error := Some StagePublishedSyncFailure, rep_publication := PublishedSyncUncertain,
                  rep_store_error := Some e\<rparr>, pt_drop store t)
           | (Ok _, t) \<Rightarrow>
               (report\<lparr>rep_status := StagePublishedSyncComplete, rep_phase := PhaseComplete,
                  rep_publication := PublishedSyncComplete\<rparr>, pt_drop store t)))"

text \<open>A probe that found nothing is followed by the transaction, which is dropped however it ends.\<close>

definition stage_absent ::
  "(bytes \<Rightarrow> bytes) \<Rightarrow> 'w MediaSource \<Rightarrow> SourceFingerprint \<Rightarrow> PlannedPayloadEntry list \<Rightarrow> StagingPlan \<Rightarrow>
     (u64 \<Rightarrow> 'w SourcePlay) \<Rightarrow> 't PayloadStore \<Rightarrow> ('w \<Rightarrow> bool \<times> 'w) \<Rightarrow> PayloadStageReport \<Rightarrow>
     't \<times> 'w \<Rightarrow> PayloadStageReport \<times> 't \<times> 'w" where
  "stage_absent sha256 source fingerprint entries plan payload_source store stop_requested report s =
     (case ps_create_transaction store (fst s) of
        (Err e, t) \<Rightarrow> (store_failure PhaseCreateTransaction e report, t, snd s)
      | (Ok _, t) \<Rightarrow>
          (case stage_tree sha256 source fingerprint entries plan payload_source store stop_requested report (t, snd s) of
             (Err report, (t, w)) \<Rightarrow> (report, pt_drop store t, w)
           | (Ok report, (t, w)) \<Rightarrow>
               (case stage_publish store plan report t of (report, t) \<Rightarrow> (report, t, w))))"

definition stage_payload ::
  "(bytes \<Rightarrow> bytes) \<Rightarrow> 'w MediaSource \<Rightarrow> SourceFingerprint \<Rightarrow> PayloadStageRequest \<Rightarrow> (u64 \<Rightarrow> 'w SourcePlay) \<Rightarrow>
     't PayloadStore \<Rightarrow> ('w \<Rightarrow> bool \<times> 'w) \<Rightarrow> 't \<times> 'w \<Rightarrow> PayloadStageReport \<times> 't \<times> 'w" where
  "stage_payload sha256 source fingerprint request payload_source store stop_requested s =
     (case prepare sha256 (ms_size source) fingerprint request of
        (None, failing_entry) \<Rightarrow>
          (let report = report_failed\<lparr>rep_failing_entry := failing_entry\<rparr> in
           (if ms_size source = fp_size_bytes fingerprint
            then report\<lparr>rep_error := Some StageInvalidRequest\<rparr>
            else report\<lparr>rep_error := Some StageSourceVerificationFailure,
                   rep_verification_error := Some StInvalidCapability\<rparr>), s)
      | (Some prepared, failing_entry) \<Rightarrow>
          let report = report_failed\<lparr>rep_failing_entry := failing_entry, rep_identity := Some (prep_identity prepared)\<rparr> in
          case stop_requested (snd s) of
            (True, w) \<Rightarrow>
              (report\<lparr>rep_phase := PhaseCancellation, rep_error := Some StageCancelled\<rparr>, fst s, w)
          | (False, w) \<Rightarrow>
              (let report = report\<lparr>rep_phase := PhaseProbe\<rparr> in
               case ps_probe store (prep_plan prepared) (fst s) of
                 (Err e, t) \<Rightarrow> (report\<lparr>rep_error := Some StageStoreFailure, rep_store_error := Some e\<rparr>, t, w)
               | (Ok Matching, t) \<Rightarrow> (report\<lparr>rep_status := StageCacheHit\<rparr>, t, w)
               | (Ok Conflicting, t) \<Rightarrow> (report\<lparr>rep_status := StageConflict\<rparr>, t, w)
               | (Ok Absent, t) \<Rightarrow>
                   stage_absent sha256 source fingerprint (req_entries request) (prep_plan prepared) payload_source
                     store stop_requested report (t, w)))"

end
