(* ===== verification/Payload_Probe.thy ===== *)
theory Payload_Probe
  imports Payload_Store_Correct
begin

text \<open>
  What a probe decides: the walk of a published tree collects exactly what can be reached below it, so
  the four answers of \<open>probe\<close> are told apart by what is at the published name, and the two cases where they
  depart from the documentation are made explicit.  At the end, what the recovery
  of interrupted stages removes.
\<close>


section \<open>What a walk reaches\<close>

definition reach :: "nodes \<Rightarrow> path \<Rightarrow> path \<Rightarrow> Node \<Rightarrow> bool" where
  "reach ns p q node \<longleftrightarrow> q \<noteq> [] \<and> map_of ns (p @ q) = Some node \<and>
     (\<forall>r. r \<noteq> [] \<longrightarrow> strict_prefix r q \<longrightarrow> map_of ns (p @ r) = Some DirNode)"

text \<open>What the walk accepts: names that are components, and only directories and files.\<close>

definition admissible :: "path \<Rightarrow> Node \<Rightarrow> bool" where
  "admissible q node \<longleftrightarrow> list_all (\<lambda>c. from_utf8_ok c \<and> valid_component c) q \<and>
     (case node of FileNode _ \<Rightarrow> True | DirNode \<Rightarrow> True | _ \<Rightarrow> False)"

definition spelled :: "bytes \<Rightarrow> path \<Rightarrow> bytes" where
  "spelled pre q = (if pre = [] then join_path q else pre @ SLASH # join_path q)"

text \<open>What a walk of \<open>p\<close> adds when it looks at the names \<open>N\<close> only.\<close>

definition walked :: "nodes \<Rightarrow> path \<Rightarrow> bytes \<Rightarrow> bytes set \<Rightarrow> collected \<Rightarrow> collected" where
  "walked ns p pre N acc =
     (fst acc \<union> {(spelled pre q, file_len bs) | q bs. reach ns p q (FileNode bs) \<and> hd q \<in> N},
      snd acc \<union> {spelled pre q | q. reach ns p q DirNode \<and> hd q \<in> N})"

lemma reach_single: "reach ns p [n] node \<longleftrightarrow> map_of ns (p @ [n]) = Some node"
  by (auto simp: reach_def strict_prefix_def prefix_Cons)

lemma reach_Cons:
  assumes "q \<noteq> []"
  shows "reach ns p (n # q) node \<longleftrightarrow> map_of ns (p @ [n]) = Some DirNode \<and> reach ns (p @ [n]) q node"
proof
  assume r: "reach ns p (n # q) node"
  have "strict_prefix [n] (n # q)" using assms by (simp add: strict_prefix_def)
  then have "map_of ns (p @ [n]) = Some DirNode" using r unfolding reach_def by blast
  moreover have "map_of ns ((p @ [n]) @ r) = Some DirNode" if "r \<noteq> []" "strict_prefix r q" for r
    using r that unfolding reach_def by (metis Cons_eq_appendI append.assoc append.left_neutral list.distinct(1) strict_prefix_simps(3))
  ultimately show "map_of ns (p @ [n]) = Some DirNode \<and> reach ns (p @ [n]) q node"
    using r assms by (simp add: reach_def)
next
  assume r: "map_of ns (p @ [n]) = Some DirNode \<and> reach ns (p @ [n]) q node"
  have "map_of ns (p @ s) = Some DirNode" if "s \<noteq> []" "strict_prefix s (n # q)" for s
  proof (cases s)
    case (Cons a s')
    then have "a = n" "strict_prefix s' q" using that by auto
    then show ?thesis using r Cons unfolding reach_def by (cases "s' = []") auto
  qed (use that in simp)
  then show "reach ns p (n # q) node" using r by (simp add: reach_def)
qed

lemma reach_not_Nil: "reach ns p q node \<Longrightarrow> q \<noteq> []"
  by (simp add: reach_def)

lemma reach_Nil [simp]: "\<not> reach ns p [] node"
  by (simp add: reach_def)

lemma spelled_Cons:
  assumes "n \<noteq> []" and "q \<noteq> []"
  shows "spelled (spelled pre [n]) q = spelled pre (n # q)"
  using assms by (cases q) (simp_all add: spelled_def)

lemma set_child_names: "n \<in> set (child_names ns p) \<longleftrightarrow> map_of ns (p @ [n]) \<noteq> None"
proof -
  have "p @ [n] \<in> fst ` set ns \<longleftrightarrow> n \<in> set (child_names ns p)"
    unfolding child_names_def by (force simp: image_iff intro: append_butlast_last_id)
  then show ?thesis by (metis map_of_eq_None_iff)
qed

lemma distinct_child_names: "distinct (child_names ns p)"
  by (simp add: child_names_def)

lemma reach_from:
  "reach ns p q node \<and> hd q = n \<longleftrightarrow>
     q = [n] \<and> map_of ns (p @ [n]) = Some node \<or>
     (\<exists>q'. q = n # q' \<and> map_of ns (p @ [n]) = Some DirNode \<and> reach ns (p @ [n]) q' node)"
  (is "?l \<longleftrightarrow> ?r")
proof
  assume ?l
  then obtain q' where q: "q = n # q'" using reach_not_Nil by (cases q) auto
  show ?r
  proof (cases "q' = []")
    case True
    then show ?thesis using \<open>?l\<close> q by (simp add: reach_single)
  next
    case False
    then show ?thesis using \<open>?l\<close> q by (simp add: reach_Cons)
  qed
next
  assume ?r
  then show ?l
  proof (elim disjE exE conjE)
    fix q' assume "q = n # q'" "map_of ns (p @ [n]) = Some DirNode" "reach ns (p @ [n]) q' node"
    then show ?l using reach_Cons[OF reach_not_Nil] by simp
  qed (simp add: reach_single)
qed

definition files_from :: "nodes \<Rightarrow> path \<Rightarrow> bytes \<Rightarrow> bytes \<Rightarrow> (bytes \<times> u64) set" where
  "files_from ns p pre n = {(spelled pre q, file_len bs) | q bs. reach ns p q (FileNode bs) \<and> hd q = n}"

definition directories_from :: "nodes \<Rightarrow> path \<Rightarrow> bytes \<Rightarrow> bytes \<Rightarrow> bytes set" where
  "directories_from ns p pre n = {spelled pre q | q. reach ns p q DirNode \<and> hd q = n}"

lemma walked_from: "walked ns p pre N acc = (fst acc \<union> (\<Union>n \<in> N. files_from ns p pre n), snd acc \<union> (\<Union>n \<in> N. directories_from ns p pre n))"
proof -
  have "{(spelled pre q, file_len bs) | q bs. reach ns p q (FileNode bs) \<and> hd q \<in> N} = (\<Union>n \<in> N. files_from ns p pre n)"
    unfolding files_from_def by blast
  moreover have "{spelled pre q | q. reach ns p q DirNode \<and> hd q \<in> N} = (\<Union>n \<in> N. directories_from ns p pre n)"
    unfolding directories_from_def by blast
  ultimately show ?thesis by (simp add: walked_def)
qed

lemma from_file:
  assumes "map_of ns (p @ [n]) = Some (FileNode bs)"
  shows "files_from ns p pre n = {(spelled pre [n], file_len bs)}" and "directories_from ns p pre n = {}"
  unfolding files_from_def directories_from_def reach_from using assms by simp_all

lemma from_directory:
  assumes "map_of ns (p @ [n]) = Some DirNode" and "n \<noteq> []"
  shows "files_from ns p pre n = (\<Union>m. files_from ns (p @ [n]) (spelled pre [n]) m)"
    and "directories_from ns p pre n = insert (spelled pre [n]) (\<Union>m. directories_from ns (p @ [n]) (spelled pre [n]) m)"
proof -
  have spell: "spelled pre (n # q) = spelled (spelled pre [n]) q" if "reach ns (p @ [n]) q node" for q node
    using spelled_Cons[OF assms(2) reach_not_Nil[OF that]] by simp
  have below: "reach ns p q node \<and> hd q = n \<longleftrightarrow> q = [n] \<and> node = DirNode \<or> (\<exists>q'. q = n # q' \<and> reach ns (p @ [n]) q' node)" for q node
    unfolding reach_from using assms(1) by auto
  show "files_from ns p pre n = (\<Union>m. files_from ns (p @ [n]) (spelled pre [n]) m)"
  proof (intro set_eqI iffI)
    fix x assume "x \<in> files_from ns p pre n"
    then obtain q' bs where "reach ns (p @ [n]) q' (FileNode bs)" "x = (spelled pre (n # q'), file_len bs)"
      unfolding files_from_def below by blast
    then show "x \<in> (\<Union>m. files_from ns (p @ [n]) (spelled pre [n]) m)"
      using spell unfolding files_from_def by (intro UN_I[of "hd q'"]) auto
  next
    fix x assume "x \<in> (\<Union>m. files_from ns (p @ [n]) (spelled pre [n]) m)"
    then obtain q' bs where "reach ns (p @ [n]) q' (FileNode bs)" "x = (spelled pre (n # q'), file_len bs)"
      unfolding files_from_def using spell by auto
    then show "x \<in> files_from ns p pre n" unfolding files_from_def below by blast
  qed
  show "directories_from ns p pre n = insert (spelled pre [n]) (\<Union>m. directories_from ns (p @ [n]) (spelled pre [n]) m)"
  proof (intro set_eqI iffI)
    fix x assume "x \<in> directories_from ns p pre n"
    then have "x = spelled pre [n] \<or> (\<exists>q'. reach ns (p @ [n]) q' DirNode \<and> x = spelled pre (n # q'))"
      unfolding directories_from_def below by blast
    then show "x \<in> insert (spelled pre [n]) (\<Union>m. directories_from ns (p @ [n]) (spelled pre [n]) m)"
      using spell unfolding directories_from_def by auto
  next
    fix x assume "x \<in> insert (spelled pre [n]) (\<Union>m. directories_from ns (p @ [n]) (spelled pre [n]) m)"
    then have "x = spelled pre [n] \<or> (\<exists>q'. reach ns (p @ [n]) q' DirNode \<and> x = spelled pre (n # q'))"
      unfolding directories_from_def using spell by auto
    then show "x \<in> directories_from ns p pre n" unfolding directories_from_def below by blast
  qed
qed

lemma walked_none: "walked ns p pre {} acc = acc"
  by (simp add: walked_from)

lemma walked_insert: "walked ns p pre (insert n N) acc = walked ns p pre N (walked ns p pre {n} acc)"
  by (simp add: walked_from Un_assoc)

lemma walked_file:
  "map_of ns (p @ [n]) = Some (FileNode bs) \<Longrightarrow>
     walked ns p pre {n} (files, directories) = (insert (spelled pre [n], file_len bs) files, directories)"
  by (simp add: walked_from from_file)

lemma walked_directory:
  "map_of ns (p @ [n]) = Some DirNode \<Longrightarrow> n \<noteq> [] \<Longrightarrow>
     walked ns p pre {n} (files, directories) = walked ns (p @ [n]) (spelled pre [n]) UNIV (files, insert (spelled pre [n]) directories)"
  by (simp add: walked_from from_directory)


section \<open>The verdict of a walk\<close>

definition walk_says ::
  "(ReadCall \<Rightarrow> IoErrorKind option) \<Rightarrow> nodes \<Rightarrow> path \<Rightarrow> bytes \<Rightarrow> bytes set \<Rightarrow> collected \<Rightarrow>
     (PayloadStoreError, bool \<times> collected) result \<Rightarrow> bool" where
  "walk_says reads ns p pre N acc r =
     (case r of
        Err e \<Rightarrow> e = StoreIoFailure \<and> (\<exists>call. fault_at reads call \<noteq> None)
      | Ok (True, acc') \<Rightarrow> acc' = walked ns p pre N acc \<and> (\<forall>q node. reach ns p q node \<longrightarrow> hd q \<in> N \<longrightarrow> admissible q node)
      | Ok (False, _) \<Rightarrow> (\<exists>q node. reach ns p q node \<and> hd q \<in> N \<and> \<not> admissible q node))"

lemma walk_says_fault: "fault_at reads call \<noteq> None \<Longrightarrow> walk_says reads ns p pre N acc (Err StoreIoFailure)"
  by (auto simp: walk_says_def)

lemma walk_says_refused:
  "reach ns p q node \<Longrightarrow> hd q \<in> N \<Longrightarrow> \<not> admissible q node \<Longrightarrow> walk_says reads ns p pre N acc (Ok (False, acc'))"
  by (auto simp: walk_says_def)

lemma walk_says_accepted:
  "walk_says reads ns p pre N acc (Ok (True, acc')) \<longleftrightarrow>
     acc' = walked ns p pre N acc \<and> (\<forall>q node. reach ns p q node \<longrightarrow> hd q \<in> N \<longrightarrow> admissible q node)"
  by (simp add: walk_says_def)

lemma walk_says_insert:
  assumes "walk_says reads ns p pre {n} acc (Ok (True, acc1))" and "walk_says reads ns p pre N acc1 r"
  shows "walk_says reads ns p pre (insert n N) acc r"
proof (cases r)
  case (Err e)
  then show ?thesis using assms(2) by (simp add: walk_says_def)
next
  case (Ok v)
  then obtain b acc' where r: "r = Ok (b, acc')" by (cases v) simp
  show ?thesis
  proof (cases b)
    case True
    then show ?thesis using assms r walked_insert[of ns p pre n N acc] by (simp add: walk_says_accepted)
  next
    case False
    then show ?thesis using assms(2) r unfolding walk_says_def by auto
  qed
qed

lemma reach_first: "reach ns p q node \<Longrightarrow> hd q \<in> set (child_names ns p)"
  using reach_from[of ns p q node "hd q"] set_child_names[of "hd q" ns p] by auto

lemma walk_says_children:
  assumes "walk_says reads ns p pre (set (child_names ns p)) acc r"
  shows "walk_says reads ns p pre UNIV acc r"
proof -
  have "reach ns p q node \<and> hd q \<in> set (child_names ns p) \<longleftrightarrow> reach ns p q node \<and> hd q \<in> UNIV" for q node
    using reach_first by auto
  then have "walked ns p pre UNIV acc = walked ns p pre (set (child_names ns p)) acc"
    unfolding walked_def by presburger
  then show ?thesis using assms reach_first unfolding walk_says_def by (auto split: result.splits bool.splits)
qed

lemma walk_says_directory:
  assumes "map_of ns (p @ [n]) = Some DirNode" and "from_utf8_ok n" and "valid_component n"
    and "walk_says reads ns (p @ [n]) (spelled pre [n]) UNIV (files, insert (spelled pre [n]) directories) r"
  shows "walk_says reads ns p pre {n} (files, directories) r"
proof (cases r)
  case (Err e)
  then show ?thesis using assms(4) by (simp add: walk_says_def)
next
  case (Ok v)
  then obtain b acc' where r: "r = Ok (b, acc')" by (cases v) simp
  show ?thesis
  proof (cases b)
    case True
    have "n \<noteq> []" using assms(3) by (simp add: valid_component_def)
    note same = walked_directory[OF assms(1) this]
    have "admissible q node" if q: "reach ns p q node" "hd q = n" for q node
    proof -
      have "q = [n] \<and> node = DirNode \<or> (\<exists>q'. q = n # q' \<and> reach ns (p @ [n]) q' node)"
        using reach_from[of ns p q node n] q assms(1) by auto
      then show ?thesis using assms(2-4) r True by (auto simp: admissible_def walk_says_accepted)
    qed
    then show ?thesis using assms(4) r True same by (simp add: walk_says_accepted)
  next
    case False
    then obtain q node where "reach ns (p @ [n]) q node" "\<not> admissible q node"
      using assms(4) r by (auto simp: walk_says_def)
    then have "reach ns p (n # q) node" "\<not> admissible (n # q) node"
      using assms(1) reach_Cons[OF reach_not_Nil] by (auto simp: admissible_def)
    then show ?thesis using r False by (auto intro!: walk_says_refused)
  qed
qed

lemma walk_says_file:
  assumes "map_of ns (p @ [n]) = Some (FileNode bs)" and "from_utf8_ok n" and "valid_component n"
  shows "walk_says reads ns p pre {n} (files, directories) (Ok (True, insert (spelled pre [n], file_len bs) files, directories))"
proof -
  have "admissible q node" if q: "reach ns p q node" "hd q = n" for q node
    using reach_from[of ns p q node n] q assms by (auto simp: admissible_def)
  then show ?thesis by (simp add: walk_says_accepted walked_file[OF assms(1)])
qed

text \<open>How the walk meets one name of a listing.\<close>

lemma collect_entry_cases:
  assumes "map_of ns (p @ [name]) = Some node"
  obtains call where "fault_at reads call \<noteq> None"
      "collect_entries reads ns p pre (name # names) (files, directories) = Err StoreIoFailure"
    | "collect_entries reads ns p pre (name # names) (files, directories) = Ok (False, (files, directories))"
      "\<not> admissible [name] node"
    | "fault_at reads (NextEntry (p @ [name])) = None" "from_utf8_ok name" "valid_component name"
      "os_symlink_metadata reads ns (p @ [name]) = Ok node" "admissible [name] node"
proof (cases "fault_at reads (NextEntry (p @ [name]))")
  case (Some k)
  then show ?thesis using that(1)[of "NextEntry (p @ [name])"] by simp
next
  case next_ok: None
  show ?thesis
  proof (cases "from_utf8_ok name \<and> valid_component name")
    case False
    then show ?thesis using that(2) next_ok by (auto simp: admissible_def)
  next
    case name_ok: True
    show ?thesis
    proof (cases "fault_at reads (Metadata (p @ [name]))")
      case (Some k)
      then show ?thesis using that(1)[of "Metadata (p @ [name])"] next_ok name_ok by (simp add: os_symlink_metadata_def)
    next
      case None
      then have meta: "os_symlink_metadata reads ns (p @ [name]) = Ok node" using assms by (simp add: os_symlink_metadata_def)
      show ?thesis
      proof (cases "admissible [name] node")
        case True
        then show ?thesis using that(3) next_ok name_ok meta by simp
      next
        case False
        then show ?thesis using that(2) next_ok name_ok meta by (cases node) (simp_all add: admissible_def)
      qed
    qed
  qed
qed

lemma collect_says:
  "is_directory ns p \<Longrightarrow> walk_says reads ns p pre UNIV acc (collect_tree reads ns p pre acc)"
  "set names \<subseteq> set (child_names ns p) \<Longrightarrow> walk_says reads ns p pre (set names) acc (collect_entries reads ns p pre names acc)"
proof (induction reads ns p pre acc and reads ns p pre names acc rule: collect_tree_collect_entries.induct)
  case (1 reads ns p pre acc)
  show ?case
  proof (cases "fault_at reads (ReadDir p)")
    case None
    then have "os_read_dir reads ns p = Ok (child_names ns p)" using 1(2) by (simp add: os_read_dir_def)
    then show ?thesis using 1(1)[of "child_names ns p"] walk_says_children by simp
  next
    case (Some k)
    then have "k \<noteq> KindNotFound" by (auto simp: fault_at_def split: option.splits IoErrorKind.splits)
    then show ?thesis using Some walk_says_fault[of reads "ReadDir p"]
      by (cases k) (simp_all add: os_read_dir_def)
  qed
next
  case (2 reads ns p pre acc)
  then show ?case by (simp add: walk_says_accepted walked_none)
next
  case (3 reads ns p pre name names files directories)
  have rest: "set names \<subseteq> set (child_names ns p)" using 3(4) by simp
  obtain node where node: "map_of ns (p @ [name]) = Some node" using 3(4) set_child_names[of name ns p] by auto
  then have single: "reach ns p [name] node" by (simp add: reach_single)
  let ?entry = "spelled pre [name]"
  have entry: "(if pre = [] then pre else pre @ [SLASH]) @ name = ?entry" by (simp add: spelled_def)
  from collect_entry_cases[OF node, of reads pre names files directories] show ?case
  proof cases
    case (1 call)
    then show ?thesis using walk_says_fault by simp
  next
    case 2
    then show ?thesis using walk_says_refused[OF single] by simp
  next
    case go: 3
    then consider "node = DirNode" | bs where "node = FileNode bs" by (cases node) (auto simp: admissible_def)
    then show ?thesis
    proof cases
      case 1
      let ?sub = "collect_tree reads ns (p @ [name]) ?entry (files, insert ?entry directories)"
      have "walk_says reads ns (p @ [name]) ?entry UNIV (files, insert ?entry directories) ?sub"
        using 3(2)[OF _ _ go(4) _ 1, of ?entry] go entry node 1 by (simp add: is_directory_def)
      then have here: "walk_says reads ns p pre {name} (files, directories) ?sub"
        using walk_says_directory go node 1 by blast
      show ?thesis
      proof (cases ?sub)
        case (Err e)
        then show ?thesis using here go 1 entry by (simp add: walk_says_def)
      next
        case (Ok v)
        then obtain b acc where sub: "?sub = Ok (b, acc)" by (cases v) simp
        show ?thesis
        proof (cases b)
          case True
          have "walk_says reads ns p pre (set names) acc (collect_entries reads ns p pre names acc)"
            using 3(3)[OF _ _ go(4) _ 1 sub, of b acc] go entry True rest by simp
          then show ?thesis using walk_says_insert[of reads ns p pre name "(files, directories)" acc "set names"] here go 1 sub True entry
            by simp
        next
          case False
          then show ?thesis using here go 1 sub entry by (auto simp: walk_says_def)
        qed
      qed
    next
      case (2 bs)
      let ?acc = "(insert (?entry, file_len bs) files, directories)"
      have "walk_says reads ns p pre {name} (files, directories) (Ok (True, ?acc))"
        using walk_says_file go node 2 by blast
      moreover have "walk_says reads ns p pre (set names) ?acc (collect_entries reads ns p pre names ?acc)"
        using 3(1)[OF _ _ go(4) _ 2, of ?entry] go entry rest by simp
      ultimately have "walk_says reads ns p pre (insert name (set names)) (files, directories) (collect_entries reads ns p pre names ?acc)"
        by (rule walk_says_insert)
      then show ?thesis using go 2 entry by simp
    qed
  qed
qed


section \<open>The verdict of a probe\<close>

text \<open>What is at the published name of a plan when the payload is there.\<close>

definition tree_matches :: "StagingPlan \<Rightarrow> nodes \<Rightarrow> path \<Rightarrow> bool" where
  "tree_matches plan ns p \<longleftrightarrow>
     (\<forall>q node. reach ns p q node \<longrightarrow> admissible q node) \<and>
     {(q, file_len bs) | q bs. reach ns p q (FileNode bs)} = (\<lambda>e. (se_components e, se_size_bytes e)) ` set (sp_entries plan) \<and>
     {q. reach ns p q DirNode} = {q. q \<noteq> [] \<and> (\<exists>e \<in> set (sp_entries plan). strict_prefix q (se_components e))}"

definition payload_at :: "StagingPlan \<Rightarrow> nodes \<Rightarrow> bool" where
  "payload_at plan ns \<longleftrightarrow>
     (let directory = [published_name plan]; files = directory @ [FILES_DIRECTORY]; seen = see_through ns files in
      map_of ns directory = Some DirNode \<and>
      (\<forall>n. map_of ns (directory @ [n]) \<noteq> None \<longleftrightarrow> n \<in> {COMPLETION_NAME, FILES_DIRECTORY}) \<and>
      map_of ns (directory @ [COMPLETION_NAME]) = Some (FileNode (completion_document plan)) \<and>
      is_directory seen files \<and> tree_matches plan seen files)"

lemma expected_tree_eq:
  "expected_tree es =
     ((\<lambda>e. (join_path (se_components e), se_size_bytes e)) ` set es,
      {join_path q | q. q \<noteq> [] \<and> (\<exists>e \<in> set es. strict_prefix q (se_components e))})"
proof (induction es)
  case (Cons e es)
  have "(\<lambda>k. join_path (take k (se_components e))) ` {1..<length (se_components e)} =
      {join_path q | q. q \<noteq> [] \<and> strict_prefix q (se_components e)}" (is "?l = ?r")
  proof (intro set_eqI iffI)
    fix x assume "x \<in> ?l"
    then obtain k where k: "1 \<le> k" "k < length (se_components e)" "x = join_path (take k (se_components e))" by auto
    have "take k (se_components e) \<noteq> []" "strict_prefix (take k (se_components e)) (se_components e)"
      using k(1,2) by (auto simp: strict_prefix_def take_is_prefix dest: arg_cong[of _ _ length])
    then show "x \<in> ?r" using k(3) by blast
  next
    fix x assume "x \<in> ?r"
    then obtain q where q: "q \<noteq> []" "strict_prefix q (se_components e)" "x = join_path q" by blast
    then have "q = take (length q) (se_components e)" "length q < length (se_components e)"
      by (auto simp: strict_prefix_def prefix_def)
    then show "x \<in> ?l" using q(1,3) by (intro image_eqI[of _ _ "length q"]) (auto simp: Suc_le_eq)
  qed
  then show ?case using Cons by (auto simp: Let_def)
qed simp

lemma join_path_inj: "inj_on join_path {q. slash_free q \<and> q \<noteq> []}"
  by (auto simp: inj_on_def join_path_eq_iff)

lemma admissible_slash_free: "admissible q node \<Longrightarrow> slash_free q"
  by (auto simp: admissible_def slash_free_def valid_component_def list_all_iff)

lemma walked_matches:
  assumes "plan_ok plan" and "\<forall>q node. reach ns p q node \<longrightarrow> admissible q node"
  shows "walked ns p [] UNIV ({}, {}) = expected_tree (sp_entries plan) \<longleftrightarrow> tree_matches plan ns p"
proof -
  let ?good = "{q. slash_free q \<and> q \<noteq> []}"
  let ?F = "{(q, file_len bs) | q bs. reach ns p q (FileNode bs)}" and ?D = "{q. reach ns p q DirNode}"
  let ?f = "(\<lambda>e. (se_components e, se_size_bytes e)) ` set (sp_entries plan)"
  let ?d = "{q. q \<noteq> [] \<and> (\<exists>e \<in> set (sp_entries plan). strict_prefix q (se_components e))}"
  have comps: "slash_free (se_components e)" "se_components e \<noteq> []" if "e \<in> set (sp_entries plan)" for e
    using assms(1) that by (auto simp: plan_ok_def slash_free_def valid_component_def list_all_iff)
  have "?F \<subseteq> ?good \<times> UNIV" "?D \<subseteq> ?good" using assms(2) admissible_slash_free by (auto dest: reach_not_Nil)
  moreover have "?f \<subseteq> ?good \<times> UNIV" using comps by auto
  moreover have "?d \<subseteq> ?good" using comps slash_free_prefix by (auto simp: strict_prefix_def)
  moreover have "inj_on (map_prod join_path id) (?good \<times> (UNIV :: u64 set))" using join_path_inj by (rule map_prod_inj_on) simp
  ultimately have inj: "map_prod join_path id ` ?F = map_prod join_path id ` ?f \<longleftrightarrow> ?F = ?f" "join_path ` ?D = join_path ` ?d \<longleftrightarrow> ?D = ?d"
    using inj_on_image_eq_iff[of "map_prod join_path id" "?good \<times> UNIV" ?F ?f] inj_on_image_eq_iff[OF join_path_inj, of ?D ?d]
    by simp_all
  have "{(spelled [] q, file_len bs) | q bs. reach ns p q (FileNode bs) \<and> hd q \<in> UNIV} = map_prod join_path id ` ?F"
    by (rule set_eqI) (simp add: spelled_def image_iff, blast)
  moreover have "{spelled [] q | q. reach ns p q DirNode \<and> hd q \<in> UNIV} = join_path ` ?D"
    by (simp add: spelled_def setcompr_eq_image)
  ultimately have "walked ns p [] UNIV ({}, {}) = (map_prod join_path id ` ?F, join_path ` ?D)" by (simp add: walked_def)
  moreover have "expected_tree (sp_entries plan) = (map_prod join_path id ` ?f, join_path ` ?d)"
    unfolding expected_tree_eq by (simp add: image_image setcompr_eq_image)
  ultimately show ?thesis using assms(2) inj unfolding tree_matches_def by simp
qed

text \<open>Why a probe may fail: a call failed, or \<open>files\<close> is no directory that can be listed.\<close>

definition unreadable :: "StagingPlan \<Rightarrow> (ReadCall \<Rightarrow> IoErrorKind option) \<Rightarrow> nodes \<Rightarrow> bool" where
  "unreadable plan reads ns \<longleftrightarrow> (\<exists>call. fault_at reads call \<noteq> None) \<or>
     (case map_of ns [published_name plan, FILES_DIRECTORY] of
        Some (FileNode _) \<Rightarrow> True | Some OtherNode \<Rightarrow> True | _ \<Rightarrow> False)"

lemma list_ex_fault: "list_ex (\<lambda>n. fault_at reads (f n) \<noteq> None) names \<Longrightarrow> \<exists>call. fault_at reads call \<noteq> None"
  by (auto simp: list_ex_iff)

lemma os_calls_faultless:
  assumes "\<And>call. fault_at reads call = None"
  shows "os_symlink_metadata reads ns p = ok_or KindNotFound (map_of ns p)"
    and "is_directory ns p \<Longrightarrow> os_read_dir reads ns p = Ok (child_names ns p)"
    and "map_of ns p = Some (FileNode bs) \<Longrightarrow> os_read_file reads ns p = Ok bs"
  using assms by (simp_all add: os_symlink_metadata_def os_read_dir_def os_read_file_def)

lemma os_calls_Ok:
  shows "os_symlink_metadata reads ns p = Ok node \<Longrightarrow> map_of ns p = Some node"
    and "os_read_dir reads ns p = Ok names \<Longrightarrow> is_directory ns p \<and> names = child_names ns p"
    and "os_read_file reads ns p = Ok bs \<Longrightarrow> map_of ns p = Some (FileNode bs)"
  by (auto simp: os_symlink_metadata_def os_read_dir_def os_read_file_def result_simps split: option.splits if_splits Node.splits)

lemma os_calls_Err:
  shows "os_symlink_metadata reads ns p = Err k \<Longrightarrow> map_of ns p \<noteq> None \<Longrightarrow> \<exists>call. fault_at reads call \<noteq> None"
    and "os_read_dir reads ns p = Err k \<Longrightarrow> is_directory ns p \<Longrightarrow> \<exists>call. fault_at reads call \<noteq> None"
    and "os_read_file reads ns p = Err k \<Longrightarrow> map_of ns p = Some (FileNode bs) \<Longrightarrow> \<exists>call. fault_at reads call \<noteq> None"
  by (auto simp: os_symlink_metadata_def os_read_dir_def os_read_file_def result_simps split: option.splits if_splits)

text \<open>The walk of \<open>files\<close>, which may be a link.\<close>

lemma collect_files_verdict:
  assumes "plan_ok plan" and "p = [published_name plan, FILES_DIRECTORY]" and "map_of ns p \<noteq> None"
  shows "case collect_tree reads (see_through ns p) p [] ({}, {}) of
      Err e \<Rightarrow> e = StoreIoFailure \<and> unreadable plan reads ns
    | Ok (accepted, actual) \<Rightarrow> accepted \<and> actual = expected_tree (sp_entries plan) \<longleftrightarrow>
        is_directory (see_through ns p) p \<and> tree_matches plan (see_through ns p) p"
proof (cases "is_directory (see_through ns p) p")
  case True
  let ?seen = "see_through ns p" and ?r = "collect_tree reads (see_through ns p) p [] ({}, {})"
  note says = collect_says(1)[OF True, of reads "[]" "({}, {})"]
  show ?thesis
  proof (cases ?r)
    case (Err e)
    then show ?thesis using says by (auto simp: walk_says_def unreadable_def)
  next
    case (Ok v)
    then obtain b acc where r: "?r = Ok (b, acc)" by (cases v) simp
    show ?thesis
    proof (cases b)
      case True
      then have "acc = walked ?seen p [] UNIV ({}, {})" "\<forall>q node. reach ?seen p q node \<longrightarrow> admissible q node"
        using says r by (simp_all add: walk_says_accepted)
      then show ?thesis using r True \<open>is_directory ?seen p\<close> walked_matches[OF assms(1), of ?seen p] by simp
    next
      case False
      then have "\<not> tree_matches plan ?seen p" using says r by (auto simp: walk_says_def tree_matches_def)
      then show ?thesis using r False by simp
    qed
  qed
next
  case False
  then have "map_of ns p \<noteq> Some DirNode" "\<nexists>t. map_of ns p = Some (LinkNode (Some t))"
    by (auto simp: see_through_def is_directory_def)
  then have seen: "see_through ns p = [] \<or> (see_through ns p = ns \<and> unreadable plan reads ns)"
    using assms(2,3) by (auto simp: see_through_def unreadable_def split: option.splits Node.splits)
  show ?thesis
  proof (cases "os_read_dir reads (see_through ns p) p")
    case (Ok names)
    then show ?thesis using os_calls_Ok(2) False by blast
  next
    case (Err k)
    show ?thesis
    proof (cases "k = KindNotFound")
      case True
      then show ?thesis using Err False by simp
    next
      case k: False
      have "unreadable plan reads ns"
        using seen Err k by (auto simp: os_read_dir_def unreadable_def split: option.splits if_splits)
      then show ?thesis using Err k by (cases k) simp_all
    qed
  qed
qed


lemma published_names:
  "set (child_names ns d) = {COMPLETION_NAME, FILES_DIRECTORY} \<longleftrightarrow>
     (\<forall>n. map_of ns (d @ [n]) \<noteq> None \<longleftrightarrow> n \<in> {COMPLETION_NAME, FILES_DIRECTORY})"
  using set_child_names[of _ ns d] by blast

lemma unreadable_fault: "\<exists>call. fault_at reads call \<noteq> None \<Longrightarrow> unreadable plan reads ns"
  by (simp add: unreadable_def)

text \<open>A published directory with the two names, up to its document, and then with the right document.\<close>

lemma published_matches_files:
  assumes "plan_ok plan" and "map_of ns [published_name plan] = Some DirNode"
    and "os_read_dir reads ns [published_name plan] = Ok names"
    and "\<not> list_ex (\<lambda>n. fault_at reads (NextEntry ([published_name plan] @ [n])) \<noteq> None) names"
    and "set names = {COMPLETION_NAME, FILES_DIRECTORY}"
    and "os_symlink_metadata reads ns ([published_name plan] @ [COMPLETION_NAME]) = Ok (FileNode (completion_document plan))"
    and "os_read_file reads ns ([published_name plan] @ [COMPLETION_NAME]) = Ok (completion_document plan)"
  shows "case published_matches reads ns [published_name plan] plan of
      Err e \<Rightarrow> e = StoreIoFailure \<and> unreadable plan reads ns
    | Ok matches \<Rightarrow> matches \<longleftrightarrow> payload_at plan ns"
proof -
  let ?d = "[published_name plan]"
  let ?p = "?d @ [FILES_DIRECTORY]"
  have names: "\<forall>n. map_of ns (?d @ [n]) \<noteq> None \<longleftrightarrow> n \<in> {COMPLETION_NAME, FILES_DIRECTORY}"
    using os_calls_Ok(2)[OF assms(3)] assms(5) published_names[of ns ?d] by simp
  then have there: "map_of ns ?p \<noteq> None" by blast
  have same: "payload_at plan ns \<longleftrightarrow> is_directory (see_through ns ?p) ?p \<and> tree_matches plan (see_through ns ?p) ?p"
    using assms(2) names os_calls_Ok(3)[OF assms(7)] unfolding payload_at_def Let_def by blast
  have steps: "published_matches reads ns ?d plan =
      and_then (collect_tree reads (see_through ns ?p) ?p [] ({}, {}))
        (\<lambda>(accepted, actual). Ok (accepted \<and> actual = expected_tree (sp_entries plan)))"
    using assms(3-7) by (simp add: published_matches_def Let_def)
  show ?thesis
    using collect_files_verdict[OF assms(1), of ?p ns reads] there same unfolding steps
    by (auto split: result.splits prod.splits)
qed

lemma published_matches_listed:
  assumes "plan_ok plan" and "map_of ns [published_name plan] = Some DirNode"
    and "os_read_dir reads ns [published_name plan] = Ok names"
    and "\<not> list_ex (\<lambda>n. fault_at reads (NextEntry ([published_name plan] @ [n])) \<noteq> None) names"
    and "set names = {COMPLETION_NAME, FILES_DIRECTORY}"
  shows "case published_matches reads ns [published_name plan] plan of
      Err e \<Rightarrow> e = StoreIoFailure \<and> unreadable plan reads ns
    | Ok matches \<Rightarrow> matches \<longleftrightarrow> payload_at plan ns"
proof -
  let ?c = "[published_name plan] @ [COMPLETION_NAME]" and ?doc = "completion_document plan"
  have there: "map_of ns ?c \<noteq> None"
    using os_calls_Ok(2)[OF assms(3)] assms(5) published_names[of ns "[published_name plan]"] by auto
  show ?thesis
  proof (cases "os_symlink_metadata reads ns ?c")
    case (Err k)
    then show ?thesis using assms(3-5) unreadable_fault[OF os_calls_Err(1)[OF Err there]] by (simp add: published_matches_def)
  next
    case (Ok node)
    note meta = Ok os_calls_Ok(1)[OF Ok]
    show ?thesis
    proof (cases "\<exists>bs. node = FileNode bs \<and> file_len bs = file_len ?doc")
      case False
      then have "\<not> payload_at plan ns" using meta(2) by (auto simp: payload_at_def Let_def)
      then show ?thesis using assms(3-5) meta(1) False by (auto simp: published_matches_def Let_def split: Node.splits)
    next
      case True
      then obtain bs where bs: "node = FileNode bs" "file_len bs = file_len ?doc" by blast
      show ?thesis
      proof (cases "os_read_file reads ns ?c")
        case (Err k)
        then show ?thesis using assms(3-5) meta bs unreadable_fault[OF os_calls_Err(3)[OF Err]]
          by (simp add: published_matches_def Let_def)
      next
        case (Ok cs)
        then have cs: "cs = bs" using os_calls_Ok(3)[OF Ok] meta(2) bs by simp
        show ?thesis
        proof (cases "bs = ?doc")
          case False
          then show ?thesis using assms(3-5) meta bs Ok cs by (simp add: published_matches_def payload_at_def Let_def)
        next
          case True
          then show ?thesis using published_matches_files[OF assms] meta bs Ok cs by simp
        qed
      qed
    qed
  qed
qed

lemma published_matches_verdict:
  assumes "plan_ok plan" and "map_of ns [published_name plan] = Some DirNode"
  shows "case published_matches reads ns [published_name plan] plan of
      Err e \<Rightarrow> e = StoreIoFailure \<and> unreadable plan reads ns
    | Ok matches \<Rightarrow> matches \<longleftrightarrow> payload_at plan ns"
proof (cases "os_read_dir reads ns [published_name plan]")
  case (Err k)
  have "is_directory ns [published_name plan]" using assms(2) by (simp add: is_directory_def)
  then show ?thesis using Err unreadable_fault[OF os_calls_Err(2)[OF Err]] by (simp add: published_matches_def)
next
  case (Ok names)
  let ?faulty = "list_ex (\<lambda>n. fault_at reads (NextEntry ([published_name plan] @ [n])) \<noteq> None) names"
  consider ?faulty | "\<not> ?faulty" "set names \<noteq> {COMPLETION_NAME, FILES_DIRECTORY}"
    | "\<not> ?faulty" "set names = {COMPLETION_NAME, FILES_DIRECTORY}" by blast
  then show ?thesis
  proof cases
    case 1
    then show ?thesis using Ok unreadable_fault[OF list_ex_fault[OF 1]] by (simp add: published_matches_def)
  next
    case 2
    then have "\<not> payload_at plan ns"
      using os_calls_Ok(2)[OF Ok] published_names[of ns "[published_name plan]"] unfolding payload_at_def Let_def by blast
    then show ?thesis using Ok 2 by (simp add: published_matches_def)
  next
    case 3
    then show ?thesis using published_matches_listed[OF assms Ok] by blast
  qed
qed

lemma store_probe_verdict:
  assumes "plan_ok plan" and "store_probe plan fs = (r, fs')"
  shows "case r of
      Err e \<Rightarrow> e = StoreIoFailure \<and> unreadable plan (turn_reads (fst (os_turn fs))) (fs_nodes fs')
    | Ok Absent \<Rightarrow> map_of (fs_nodes fs') [published_name plan] = None
    | Ok Matching \<Rightarrow> payload_at plan (fs_nodes fs')
    | Ok Conflicting \<Rightarrow> map_of (fs_nodes fs') [published_name plan] \<noteq> None \<and> \<not> payload_at plan (fs_nodes fs')"
proof -
  obtain t fs1 where t: "os_turn fs = (t, fs1)" by fastforce
  let ?reads = "turn_reads t" and ?ns = "fs_nodes fs1" and ?d = "[published_name plan]"
  have fs': "fs' = fs1" using assms(2) t by (simp add: store_probe_def Let_def)
  show ?thesis
  proof (cases "os_symlink_metadata ?reads ?ns ?d")
    case (Err k)
    show ?thesis
    proof (cases "k = KindNotFound")
      case True
      then have "map_of ?ns ?d = None" using Err
        by (auto simp: os_symlink_metadata_def result_simps fault_at_def split: option.splits IoErrorKind.splits)
      then show ?thesis using assms(2) t Err True fs' by (auto simp: store_probe_def Let_def)
    next
      case False
      then have "unreadable plan ?reads ?ns" using Err
        by (auto simp: os_symlink_metadata_def result_simps unreadable_def split: option.splits)
      then show ?thesis using assms(2) t Err False fs' by (cases k) (auto simp: store_probe_def Let_def)
    qed
  next
    case (Ok node)
    note node = os_calls_Ok(1)[OF Ok]
    show ?thesis
    proof (cases "node = DirNode")
      case True
      then show ?thesis using assms(2) t Ok fs' node published_matches_verdict[OF assms(1), of ?ns ?reads]
        by (auto simp: store_probe_def Let_def split: result.splits)
    next
      case False
      then have "\<not> payload_at plan ?ns" using node by (auto simp: payload_at_def Let_def)
      then show ?thesis using assms(2) t Ok fs' node False by (cases node) (auto simp: store_probe_def Let_def)
    qed
  qed
qed


section \<open>A published payload is found\<close>

definition utf8_plan :: "StagingPlan \<Rightarrow> bool" where
  "utf8_plan plan \<longleftrightarrow> list_all (\<lambda>e. list_all from_utf8_ok (se_components e)) (sp_entries plan)"

lemma file_len_exact:
  assumes "length bs = unat n"
  shows "file_len bs = n"
proof -
  have "unat n < 2 ^ LENGTH(64)" by (rule unsigned_less)
  then have "try_from_nat (length bs) = Some n" using assms by (simp only: try_from_nat_Some_iff)
  then show ?thesis by (simp add: file_len_def)
qed

lemma set_held:
  assumes "exact_sizes plan contents" and "length contents = length (sp_entries plan)"
  shows "(\<lambda>(c, bs). (c, file_len bs)) ` set (held plan contents) = (\<lambda>e. (se_components e, se_size_bytes e)) ` set (sp_entries plan)"
    and "fst ` set (held plan contents) = se_components ` set (sp_entries plan)"
proof -
  have "map (\<lambda>(c, bs). (c, file_len bs)) (held plan contents) = map (\<lambda>e. (se_components e, se_size_bytes e)) (sp_entries plan)"
    using assms by (intro nth_equalityI) (simp_all add: held_def exact_sizes_def file_len_exact)
  from arg_cong[OF this, of set]
  show "(\<lambda>(c, bs). (c, file_len bs)) ` set (held plan contents) = (\<lambda>e. (se_components e, se_size_bytes e)) ` set (sp_entries plan)"
    by (simp only: list.set_map)
  have "map fst (held plan contents) = map se_components (sp_entries plan)" using assms(2) by (simp add: held_def)
  from arg_cong[OF this, of set]
  show "fst ` set (held plan contents) = se_components ` set (sp_entries plan)" by (simp only: list.set_map)
qed

lemma files_view_node:
  assumes "tree_like fs"
  shows "files_view fs q = Some (FileNode bs) \<longleftrightarrow> (q, bs) \<in> set fs"
    and "q \<noteq> [] \<Longrightarrow> files_view fs q = Some DirNode \<longleftrightarrow> has_below fs q"
    and "files_view fs q = Some node \<Longrightarrow> node = DirNode \<or> (\<exists>bs. node = FileNode bs)"
    and "files_view fs q = Some node \<Longrightarrow> strict_prefix r q \<Longrightarrow> has_below fs r"
proof -
  have d: "distinct (map fst fs)" using assms by (simp add: tree_like_def)
  show "files_view fs q = Some (FileNode bs) \<longleftrightarrow> (q, bs) \<in> set fs"
    unfolding map_of_eq_Some_iff[OF d, symmetric] by (auto simp: files_view_def split: option.splits if_splits)
  show "q \<noteq> [] \<Longrightarrow> files_view fs q = Some DirNode \<longleftrightarrow> has_below fs q"
    using files_view_dir[OF assms, of q] by (auto simp: files_view_def split: option.splits if_splits)
  show "files_view fs q = Some node \<Longrightarrow> node = DirNode \<or> (\<exists>bs. node = FileNode bs)"
    by (auto simp: files_view_def split: option.splits if_splits)
  show "has_below fs r" if "files_view fs q = Some node" "strict_prefix r q"
  proof -
    have "q \<in> fst ` set fs \<or> has_below fs q"
      using that files_view_None[of fs q] by (auto simp: strict_prefix_def)
    then show ?thesis using that(2) unfolding has_below_def by (meson strict_prefix_def prefix_order.less_trans)
  qed
qed

lemma tree_matches_held:
  assumes "plan_ok plan" and "utf8_plan plan" and "exact_sizes plan contents" and "length contents = length (sp_entries plan)"
    and "tree_like (held plan contents)" and "\<And>q. map_of ns (p @ q) = files_view (held plan contents) q"
  shows "tree_matches plan ns p"
proof -
  let ?hs = "held plan contents"
  note view = files_view_node[OF assms(5)]
  have reach: "reach ns p q node \<longleftrightarrow> q \<noteq> [] \<and> files_view ?hs q = Some node" for q node
    using view(2,4) assms(6) by (auto simp: reach_def)
  have names: "fst ` set ?hs = se_components ` set (sp_entries plan)" by (rule set_held(2)[OF assms(3,4)])
  have good: "list_all (\<lambda>c. from_utf8_ok c \<and> valid_component c) c" if "c \<in> fst ` set ?hs" for c
    using that assms(1,2) unfolding names by (auto simp: plan_ok_def utf8_plan_def list_all_iff)
  have "admissible q node" if "reach ns p q node" for q node
  proof -
    have "q \<in> fst ` set ?hs \<or> has_below ?hs q" using that files_view_None[of ?hs q] unfolding reach by auto
    then obtain c where "c \<in> fst ` set ?hs" "prefix q c" by (auto simp: has_below_def strict_prefix_def)
    then have "list_all (\<lambda>c. from_utf8_ok c \<and> valid_component c) q"
      using good by (auto simp: list_all_iff dest: set_mono_prefix)
    then show ?thesis using view(3)[of q node] that unfolding reach admissible_def by auto
  qed
  moreover have "{(q, file_len bs) | q bs. reach ns p q (FileNode bs)} = (\<lambda>e. (se_components e, se_size_bytes e)) ` set (sp_entries plan)"
  proof -
    have "[] \<notin> fst ` set ?hs" using assms(5) by (simp add: tree_like_def)
    then have "{(q, file_len bs) | q bs. reach ns p q (FileNode bs)} = (\<lambda>(c, bs). (c, file_len bs)) ` set ?hs"
      unfolding reach view(1) by force
    then show ?thesis using set_held(1)[OF assms(3,4)] by simp
  qed
  moreover have "{q. reach ns p q DirNode} = {q. q \<noteq> [] \<and> (\<exists>e \<in> set (sp_entries plan). strict_prefix q (se_components e))}"
    using view(2) names by (auto simp: reach has_below_def)
  ultimately show ?thesis by (simp add: tree_matches_def)
qed

lemma published_payload_at:
  assumes "published plan contents fs" and "utf8_plan plan"
  shows "payload_at plan (fs_nodes fs)"
proof -
  let ?d = "[published_name plan]" and ?p = "[published_name plan, FILES_DIRECTORY]" and ?ns = "fs_nodes fs"
  have pub: "plan_ok plan" "exact_sizes plan contents" "length contents = length (sp_entries plan)" "tree_like (held plan contents)"
    using assms(1) by (simp_all add: published_def)
  have at: "map_of ?ns (published_name plan # q) = payload_view (Some (completion_document plan)) (files_view (held plan contents)) q" for q
    using assms(1) by (simp add: published_def tree_at_def)
  have root: "files_view (held plan contents) [] = Some DirNode"
    using pub(4) map_of_holdings_None[of "held plan contents" "[]"] by (simp add: files_view_def tree_like_def)
  have seen: "see_through ?ns ?p = ?ns" using at[of "[FILES_DIRECTORY]"] root by (simp add: see_through_def)
  have "map_of ?ns (?p @ q) = files_view (held plan contents) q" for q using at[of "FILES_DIRECTORY # q"] by simp
  then have "tree_matches plan ?ns ?p" using tree_matches_held[OF pub(1) assms(2) pub(2-4)] by blast
  moreover have "is_directory ?ns ?p" using at[of "[FILES_DIRECTORY]"] root by (simp add: is_directory_def)
  moreover have "map_of ?ns (?d @ [n]) \<noteq> None \<longleftrightarrow> n \<in> {COMPLETION_NAME, FILES_DIRECTORY}" for n
    using at[of "[n]"] root by (auto simp: payload_view_def)
  moreover have "map_of ?ns ?d = Some DirNode" "map_of ?ns (?d @ [COMPLETION_NAME]) = Some (FileNode (completion_document plan))"
    using at[of "[]"] at[of "[COMPLETION_NAME]"] by (simp_all add: payload_view_def)
  ultimately show ?thesis using seen by (simp add: payload_at_def Let_def)
qed


section \<open>The payload as documented, and the two departures\<close>

text \<open>
  The documentation of \<open>ProbeState\<close> and of \<open>collect_tree\<close> knows one payload: a directory with the
  completion document and a real directory \<open>files\<close>; a link or a wrong type is a conflict.  Around the same
  document the code meets two more cases.  \<open>read_dir\<close> follows a \<open>files\<close> that is a link, and a \<open>files\<close>
  that is no directory at all makes it fail.
\<close>

definition payload_shell :: "StagingPlan \<Rightarrow> nodes \<Rightarrow> bool" where
  "payload_shell plan ns \<longleftrightarrow>
     map_of ns [published_name plan] = Some DirNode \<and>
     (\<forall>n. map_of ns [published_name plan, n] \<noteq> None \<longleftrightarrow> n \<in> {COMPLETION_NAME, FILES_DIRECTORY}) \<and>
     map_of ns [published_name plan, COMPLETION_NAME] = Some (FileNode (completion_document plan))"

definition documented_payload :: "StagingPlan \<Rightarrow> nodes \<Rightarrow> bool" where
  "documented_payload plan ns \<longleftrightarrow> payload_shell plan ns \<and>
     map_of ns [published_name plan, FILES_DIRECTORY] = Some DirNode \<and>
     tree_matches plan ns [published_name plan, FILES_DIRECTORY]"

definition linked_payload :: "StagingPlan \<Rightarrow> nodes \<Rightarrow> bool" where
  "linked_payload plan ns \<longleftrightarrow> payload_shell plan ns \<and>
     (\<exists>target. map_of ns [published_name plan, FILES_DIRECTORY] = Some (LinkNode (Some target)) \<and>
        tree_matches plan target [])"

definition obstructed_payload :: "StagingPlan \<Rightarrow> nodes \<Rightarrow> bool" where
  "obstructed_payload plan ns \<longleftrightarrow> payload_shell plan ns \<and>
     (case map_of ns [published_name plan, FILES_DIRECTORY] of
        Some (FileNode _) \<Rightarrow> True | Some OtherNode \<Rightarrow> True | _ \<Rightarrow> False)"

definition read_faulted :: "(ReadCall \<Rightarrow> IoErrorKind option) \<Rightarrow> bool" where
  "read_faulted reads \<longleftrightarrow> (\<exists>call. fault_at reads call \<noteq> None)"

lemma map_of_below:
  "map_of (map (\<lambda>(q, node). (p @ q, node)) target) (p @ q) = map_of target q"
  by (induction target) auto

lemma reach_target:
  "reach ((p, DirNode) # map (\<lambda>(q, node). (p @ q, node)) target) p q node \<longleftrightarrow> reach target [] q node"
  unfolding reach_def by (simp add: map_of_below cong: conj_cong imp_cong)

lemma tree_matches_target:
  "tree_matches plan ((p, DirNode) # map (\<lambda>(q, node). (p @ q, node)) target) p \<longleftrightarrow> tree_matches plan target []"
  unfolding tree_matches_def reach_target ..

lemma payload_at_cases: "payload_at plan ns \<longleftrightarrow> documented_payload plan ns \<or> linked_payload plan ns"
proof -
  let ?p = "[published_name plan, FILES_DIRECTORY]"
  have "payload_at plan ns \<longleftrightarrow> payload_shell plan ns \<and> is_directory (see_through ns ?p) ?p \<and> tree_matches plan (see_through ns ?p) ?p"
    by (simp add: payload_at_def payload_shell_def Let_def)
  moreover have "is_directory (see_through ns ?p) ?p \<and> tree_matches plan (see_through ns ?p) ?p \<longleftrightarrow>
      map_of ns ?p = Some DirNode \<and> tree_matches plan ns ?p \<or>
      (\<exists>target. map_of ns ?p = Some (LinkNode (Some target)) \<and> tree_matches plan target [])"
    by (cases "map_of ns ?p")
      (auto simp: see_through_def is_directory_def tree_matches_target[of plan ?p, simplified] split: Node.split option.split)
  ultimately show ?thesis unfolding documented_payload_def linked_payload_def by blast
qed

lemma published_matches_obstructed:
  assumes "obstructed_payload plan ns"
  shows "published_matches reads ns [published_name plan] plan = Err StoreIoFailure"
proof -
  let ?d = "[published_name plan]" and ?p = "[published_name plan, FILES_DIRECTORY]"
  have shell: "payload_shell plan ns" using assms by (simp add: obstructed_payload_def)
  then have names: "set (child_names ns ?d) = {COMPLETION_NAME, FILES_DIRECTORY}"
    unfolding published_names by (simp add: payload_shell_def)
  have "see_through ns ?p = ns" "\<not> is_directory ns ?p" "map_of ns ?p \<noteq> None"
    using assms by (auto simp: obstructed_payload_def see_through_def is_directory_def split: option.splits Node.splits)
  moreover have "fault_at reads (ReadDir ?p) \<noteq> Some KindNotFound"
    by (simp add: fault_at_def split: option.split IoErrorKind.split)
  ultimately have walk: "collect_tree reads (see_through ns ?p) ?p [] ({}, {}) = Err StoreIoFailure"
    by (auto simp: os_read_dir_def split: option.split IoErrorKind.split)
  have dir: "is_directory ns ?d" and doc: "map_of ns [published_name plan, COMPLETION_NAME] = Some (FileNode (completion_document plan))"
    using shell by (simp_all add: payload_shell_def is_directory_def)
  show ?thesis
    using names walk dir doc
    by (simp add: published_matches_def os_read_dir_def os_symlink_metadata_def os_read_file_def Let_def split: option.split)
qed

lemma store_probe_obstructed:
  assumes "obstructed_payload plan (fs_nodes fs')" and "store_probe plan fs = (r, fs')"
  shows "r = Err StoreIoFailure"
proof -
  obtain t fs1 where t: "os_turn fs = (t, fs1)" by fastforce
  have fs': "fs' = fs1" using assms(2) t by (simp add: store_probe_def Let_def)
  have node: "map_of (fs_nodes fs1) [published_name plan] = Some DirNode"
    using assms(1) fs' by (simp add: obstructed_payload_def payload_shell_def)
  have "fault_at (turn_reads t) (Metadata [published_name plan]) \<noteq> Some KindNotFound"
    by (simp add: fault_at_def split: option.split IoErrorKind.split)
  then show ?thesis
    using assms t fs' node published_matches_obstructed[of plan "fs_nodes fs1" "turn_reads t"]
    by (auto simp: store_probe_def Let_def os_symlink_metadata_def split: option.splits IoErrorKind.splits)
qed

lemma published_matches_failed:
  assumes "plan_ok plan" and "map_of ns [published_name plan] = Some DirNode" and "\<not> read_faulted reads"
    and "published_matches reads ns [published_name plan] plan = Err e"
  shows "obstructed_payload plan ns"
proof -
  let ?d = "[published_name plan]" and ?c = "[published_name plan, COMPLETION_NAME]"
  have calls: "fault_at reads call = None" for call using assms(3) unfolding read_faulted_def by blast
  have dir: "is_directory ns ?d" using assms(2) by (simp add: is_directory_def)
  have calm: "list_ex (\<lambda>n. fault_at reads (NextEntry (?d @ [n])) \<noteq> None) ns' \<longleftrightarrow> False" for ns'
    by (simp add: calls list_ex_iff)
  have names: "set (child_names ns ?d) = {COMPLETION_NAME, FILES_DIRECTORY}"
    using assms(4) calm by (auto simp: published_matches_def os_calls_faultless(2)[OF calls dir] split: if_splits)
  then have two: "\<forall>n. map_of ns [published_name plan, n] \<noteq> None \<longleftrightarrow> n \<in> {COMPLETION_NAME, FILES_DIRECTORY}"
    unfolding published_names by simp
  then obtain node where node: "map_of ns ?c = Some node" by blast
  have doc: "node = FileNode (completion_document plan)"
    using assms(4) calm names node
    by (auto simp: published_matches_def os_calls_faultless(2)[OF calls dir] os_symlink_metadata_def os_read_file_def calls Let_def
        split: if_splits Node.splits)
  have "unreadable plan reads ns"
    using published_matches_verdict[OF assms(1,2), of reads] assms(4) by simp
  then show ?thesis
    using assms(2) two node doc calls by (simp add: obstructed_payload_def payload_shell_def unreadable_def)
qed

lemma store_probe_failed:
  assumes "plan_ok plan" and "store_probe plan fs = (Err e, fs')"
  shows "obstructed_payload plan (fs_nodes fs') \<or> read_faulted (turn_reads (fst (os_turn fs)))"
proof (rule disjCI)
  assume calm: "\<not> read_faulted (turn_reads (fst (os_turn fs)))"
  obtain t fs1 where t: "os_turn fs = (t, fs1)" by fastforce
  have "fault_at (turn_reads t) call = None" for call using calm t unfolding read_faulted_def by auto
  note meta = os_calls_faultless(1)[OF this, of "fs_nodes fs1" "[published_name plan]"]
  have fs': "fs' = fs1" using assms(2) t by (simp add: store_probe_def Let_def)
  let ?m = "published_matches (turn_reads t) (fs_nodes fs1) [published_name plan] plan"
  have probe: "fst (store_probe plan fs) =
      (case map_of (fs_nodes fs1) [published_name plan] of
         None \<Rightarrow> Ok Absent
       | Some DirNode \<Rightarrow> and_then ?m (\<lambda>matches. Ok (if matches then Matching else Conflicting))
       | Some _ \<Rightarrow> Ok Conflicting)"
    unfolding store_probe_def Let_def t by (simp add: meta split: option.split Node.split)
  have node: "map_of (fs_nodes fs1) [published_name plan] = Some DirNode"
    using probe assms(2) by (auto split: option.splits Node.splits)
  then have "and_then ?m (\<lambda>matches. Ok (if matches then Matching else Conflicting)) = Err e" using probe assms(2) by simp
  then obtain e' where "?m = Err e'" by (cases ?m) simp_all
  then show "obstructed_payload plan (fs_nodes fs')"
    using published_matches_failed[OF assms(1) node] calm t fs' by simp
qed

text \<open>Both departures happen, on a root where no call fails.\<close>

definition bare_plan :: StagingPlan where
  "bare_plan = \<lparr>sp_identity = ascii ''i'', sp_entries = [], sp_total_bytes = 0\<rparr>"

definition bare_root :: "Node \<Rightarrow> FileSystem" where
  "bare_root files = \<lparr>fs_nodes = [([published_name bare_plan], DirNode),
     ([published_name bare_plan, COMPLETION_NAME], FileNode (completion_document bare_plan)),
     ([published_name bare_plan, FILES_DIRECTORY], files)], fs_turns = [], fs_process_id = 0\<rparr>"

lemma bare_plan_ok: "plan_ok bare_plan"
proof -
  have "staging_plan_new (ascii ''i'') [] = Ok bare_plan"
    by (simp add: staging_plan_new_def identity_acceptable_def ascii_def MAXIMUM_IDENTITY_BYTES_def bare_plan_def)
  then show ?thesis by (rule staging_plan_new_ok(1))
qed

lemma bare_shell: "payload_shell bare_plan (fs_nodes (bare_root files))"
  by (auto simp: payload_shell_def bare_root_def)

lemma bare_probed:
  obtains r where "store_probe bare_plan (bare_root files) = (r, bare_root files)"
    and "\<not> read_faulted (turn_reads (fst (os_turn (bare_root files))))"
proof
  have run: "os_turn (bare_root files) = (calm, bare_root files)" by (simp add: os_turn_def bare_root_def)
  then show "store_probe bare_plan (bare_root files) = (fst (store_probe bare_plan (bare_root files)), bare_root files)"
    by (simp add: store_probe_def Let_def)
  show "\<not> read_faulted (turn_reads (fst (os_turn (bare_root files))))"
    unfolding run by (simp add: read_faulted_def calm_def fault_at_def)
qed

lemma linked_files_match:
  "linked_payload bare_plan (fs_nodes (bare_root (LinkNode (Some [])))) \<and>
   store_probe bare_plan (bare_root (LinkNode (Some []))) = (Ok Matching, bare_root (LinkNode (Some [])))"
proof -
  let ?fs = "bare_root (LinkNode (Some []))"
  have files: "map_of (fs_nodes ?fs) [published_name bare_plan, FILES_DIRECTORY] = Some (LinkNode (Some []))"
    by (simp add: bare_root_def)
  have "tree_matches bare_plan [] []" by (simp add: tree_matches_def reach_def bare_plan_def)
  then have linked: "linked_payload bare_plan (fs_nodes ?fs)"
    using bare_shell files unfolding linked_payload_def by blast
  obtain r where r: "store_probe bare_plan ?fs = (r, ?fs)" "\<not> read_faulted (turn_reads (fst (os_turn ?fs)))" by (rule bare_probed)
  have "\<not> obstructed_payload bare_plan (fs_nodes ?fs)" using files by (simp add: obstructed_payload_def)
  then have "r = Ok Matching"
    using store_probe_verdict[OF bare_plan_ok r(1)] store_probe_failed[OF bare_plan_ok, of ?fs _ ?fs] r linked payload_at_cases
    by (auto simp: linked_payload_def payload_shell_def split: result.splits ProbeState.splits)
  then show ?thesis using linked r(1) by blast
qed

lemma obstructed_files_fail:
  "obstructed_payload bare_plan (fs_nodes (bare_root (FileNode []))) \<and>
   \<not> read_faulted (turn_reads (fst (os_turn (bare_root (FileNode []))))) \<and>
   store_probe bare_plan (bare_root (FileNode [])) = (Err StoreIoFailure, bare_root (FileNode []))"
proof -
  let ?fs = "bare_root (FileNode [])"
  have "map_of (fs_nodes ?fs) [published_name bare_plan, FILES_DIRECTORY] = Some (FileNode [])" by (simp add: bare_root_def)
  then have "obstructed_payload bare_plan (fs_nodes ?fs)" using bare_shell by (simp add: obstructed_payload_def)
  moreover obtain r where "store_probe bare_plan ?fs = (r, ?fs)" "\<not> read_faulted (turn_reads (fst (os_turn ?fs)))" by (rule bare_probed)
  ultimately show ?thesis using store_probe_obstructed by blast
qed


section \<open>The probe is exact\<close>

text \<open>
  C22: What a probe decides, and where it departs from its documentation.  It answers that nothing is there
  exactly then; it answers that the payload is there for the documented payload, which is a directory
  with the completion document of the plan and a real directory \<open>files\<close> that holds exactly the planned
  files with their planned sizes, their directories, and nothing else; and it answers conflict for
  anything else.  There are two exceptions, both contrary to the documentation, which calls a link and a
  wrong type a conflict: a \<open>files\<close> that is a symbolic link is followed, and the answer is that the payload
  is there when the tree behind the link is the planned one; and beside the right completion document a
  \<open>files\<close> that is neither a directory nor a link makes the probe fail.  Otherwise it fails only when a call of
  the file system failed.  Both exceptions are exhibited on roots where no call fails.
\<close>

theorem probe_exact:
  "(case staging_plan_new identity entries of
      Err e \<Rightarrow> e = StoreInvalidState
    | Ok plan \<Rightarrow>
        (case store_probe plan fs of
           (Ok Absent, fs') \<Rightarrow> map_of (fs_nodes fs') [published_name plan] = None
         | (Ok Matching, fs') \<Rightarrow> documented_payload plan (fs_nodes fs') \<or> linked_payload plan (fs_nodes fs')
         | (Ok Conflicting, fs') \<Rightarrow>
             map_of (fs_nodes fs') [published_name plan] \<noteq> None \<and> \<not> documented_payload plan (fs_nodes fs') \<and>
             \<not> linked_payload plan (fs_nodes fs') \<and> \<not> obstructed_payload plan (fs_nodes fs')
         | (Err e, fs') \<Rightarrow> e = StoreIoFailure \<and>
             (obstructed_payload plan (fs_nodes fs') \<or> read_faulted (turn_reads (fst (os_turn fs)))))) \<and>
   (\<exists>plan root. linked_payload plan (fs_nodes root) \<and> \<not> documented_payload plan (fs_nodes root) \<and>
      store_probe plan root = (Ok Matching, root)) \<and>
   (\<exists>plan root. obstructed_payload plan (fs_nodes root) \<and> \<not> read_faulted (turn_reads (fst (os_turn root))) \<and>
      store_probe plan root = (Err StoreIoFailure, root))"
  (is "?verdict \<and> ?linked \<and> ?obstructed")
proof (intro conjI)
  show ?verdict
  proof (cases "staging_plan_new identity entries")
    case (Err e)
    have "plan_total t entries = Err e \<Longrightarrow> e = StoreInvalidState" for t
      by (induction t entries rule: plan_total.induct) (auto split: if_splits option.splits)
    then show ?thesis using Err
      by (cases "plan_total 0 entries") (auto simp: staging_plan_new_def split: if_splits)
  next
    case (Ok plan)
    obtain r fs' where probe: "store_probe plan fs = (r, fs')" by fastforce
    note ok = staging_plan_new_ok(1)[OF Ok]
    show ?thesis
      using store_probe_verdict[OF ok probe] store_probe_failed[OF ok, of fs _ fs'] store_probe_obstructed[OF _ probe] probe Ok
      by (auto simp: payload_at_cases split: result.splits ProbeState.splits)
  qed
  have "\<not> documented_payload bare_plan (fs_nodes (bare_root (LinkNode (Some []))))"
    by (simp add: documented_payload_def bare_root_def)
  then show ?linked using linked_files_match by blast
  show ?obstructed using obstructed_files_fail by blast
qed


section \<open>Recovery\<close>

text \<open>The names of interrupted stages, and what discarding them leaves.\<close>

definition stage_names :: "bytes set" where
  "stage_names = {name. from_utf8_ok name \<and> prefix STAGING_PREFIX name \<and> suffix STAGING_SUFFIX name}"

lemma remove_gone:
  assumes "os_remove_dir_all [name] fs = (Ok u, fs')"
  shows "map_of (fs_nodes fs') [name] = None"
proof -
  obtain t fs1 where t: "os_turn fs = (t, fs1)" by fastforce
  have "fs_nodes fs' = filter (\<lambda>(q, n). \<not> prefix [name] q) (fs_nodes fs1)"
    using assms t by (auto simp: os_remove_dir_all_def Let_def split: option.splits if_splits)
  then show ?thesis by (simp add: map_of_filter_path)
qed

lemma stage_name_kept:
  assumes "kept own fs fs'" and "name \<in> stage_names" and "name \<notin> own"
  shows "map_of (fs_nodes fs') [name] = map_of (fs_nodes fs) [name]"
  using assms untouchedD[of own "fs_nodes fs" "fs_nodes fs'" name "[]"]
  by (simp add: kept_def stage_names_def is_staging_name_def)

definition stages_in :: "FileSystem \<Rightarrow> bytes set" where
  "stages_in fs = {name \<in> stage_names. map_of (fs_nodes fs) [name] = Some DirNode}"

text \<open>What a walk over a listing has discarded, from a count to a result.\<close>

definition discards :: "bytes list \<Rightarrow> nat \<Rightarrow> FileSystem \<Rightarrow> (PayloadStoreError, nat) result \<Rightarrow> FileSystem \<Rightarrow> bool" where
  "discards names discarded fs r fs' \<longleftrightarrow> kept (stage_names \<inter> set names) fs fs' \<and>
     (case r of
        Err e \<Rightarrow> e = StoreIoFailure
      | Ok n \<Rightarrow> n = discarded + card (stages_in fs \<inter> set names) \<and> stages_in fs' \<inter> set names = {})"

lemma stages_in_kept:
  assumes "kept own fs fs'" and "x \<notin> own"
  shows "x \<in> stages_in fs' \<longleftrightarrow> x \<in> stages_in fs"
  using stage_name_kept[OF assms(1) _ assms(2)] unfolding stages_in_def by auto

lemma discards_Cons:
  assumes "name \<notin> set names" and "kept (stage_names \<inter> {name}) fs fs1" and "name \<notin> stages_in fs1"
    and "discards names (discarded + (if name \<in> stages_in fs then 1 else 0)) fs1 r fs'"
  shows "discards (name # names) discarded fs r fs'"
proof -
  have k: "kept (stage_names \<inter> set names) fs1 fs'" using assms(4) by (simp add: discards_def)
  have away: "name \<notin> stages_in fs'" using stages_in_kept[OF k, of name] assms(1,3) by simp
  have "x \<in> stages_in fs1 \<longleftrightarrow> x \<in> stages_in fs" if "x \<in> set names" for x
    using stages_in_kept[OF assms(2), of x] that assms(1) by auto
  then have same: "stages_in fs1 \<inter> set names = stages_in fs \<inter> set names" by blast
  have "stages_in fs \<inter> set (name # names) =
      (if name \<in> stages_in fs then insert name (stages_in fs \<inter> set names) else stages_in fs \<inter> set names)" by auto
  then have "card (stages_in fs \<inter> set (name # names)) =
      (if name \<in> stages_in fs then 1 else 0) + card (stages_in fs1 \<inter> set names)"
    using assms(1) same by simp
  moreover have "kept (stage_names \<inter> set (name # names)) fs fs'"
    by (rule kept_trans[OF kept_mono[OF assms(2)] kept_mono[OF k]]) auto
  moreover have "stages_in fs' \<inter> set (name # names) = stages_in fs' \<inter> set names" using away by auto
  ultimately show ?thesis using assms(4) unfolding discards_def by (simp split: result.splits)
qed

lemma discard_entries_skip:
  assumes "fault_at reads (NextEntry [name]) = None" and "name \<notin> stages_in fs"
    and "name \<in> stage_names \<Longrightarrow> fault_at reads (FileType [name]) = None"
  shows "discard_entries reads discarded (name # names) fs = discard_entries reads discarded names fs"
  using assms by (auto simp: stages_in_def stage_names_def)

lemma discard_entries_stage:
  assumes "fault_at reads (NextEntry [name]) = None" and "name \<in> stages_in fs" and "fault_at reads (FileType [name]) = None"
  shows "discard_entries reads discarded (name # names) fs =
    (case os_remove_dir_all [name] fs of
       (Err _, fs) \<Rightarrow> (Err StoreIoFailure, fs)
     | (Ok _, fs) \<Rightarrow> discard_entries reads (discarded + 1) names fs)"
  using assms by (simp add: stages_in_def stage_names_def)

lemma discard_entries_fault:
  assumes "fault_at reads (NextEntry [name]) \<noteq> None \<or> (name \<in> stage_names \<and> fault_at reads (FileType [name]) \<noteq> None)"
  shows "discard_entries reads discarded (name # names) fs = (Err StoreIoFailure, fs)"
  using assms by (auto simp: stage_names_def)

lemma discard_entries_run:
  "distinct names \<Longrightarrow> discard_entries reads discarded names fs = (r, fs') \<Longrightarrow> discards names discarded fs r fs'"
proof (induction names arbitrary: discarded fs)
  case Nil
  then show ?case by (auto simp: discards_def)
next
  case (Cons name names)
  have new: "name \<notin> set names" "distinct names" using Cons.prems(1) by simp_all
  let ?fault = "fault_at reads (NextEntry [name]) \<noteq> None \<or> (name \<in> stage_names \<and> fault_at reads (FileType [name]) \<noteq> None)"
  show ?case
  proof (cases ?fault)
    case True
    have "r = Err StoreIoFailure" "fs' = fs" using Cons.prems(2) discard_entries_fault[OF True] by simp_all
    then show ?thesis by (simp add: discards_def)
  next
    case False
    then have calls: "fault_at reads (NextEntry [name]) = None" "name \<in> stage_names \<Longrightarrow> fault_at reads (FileType [name]) = None"
      by simp_all
    show ?thesis
    proof (cases "name \<in> stages_in fs")
      case False
      have "discard_entries reads discarded names fs = (r, fs')"
        using Cons.prems(2) discard_entries_skip[OF calls(1) False calls(2)] by simp
      from Cons.IH[OF new(2) this] show ?thesis using discards_Cons[OF new(1) kept_refl False] False by simp
    next
      case True
      have stage: "name \<in> stage_names" using True by (simp add: stages_in_def)
      note step = discard_entries_stage[OF calls(1) True calls(2)[OF stage]]
      obtain x fs1 where rm: "os_remove_dir_all [name] fs = (x, fs1)" by fastforce
      have k: "kept (stage_names \<inter> {name}) fs fs1" using os_remove_dir_all_kept[OF rm] stage by simp
      show ?thesis
      proof (cases x)
        case (Err e)
        then have "r = Err StoreIoFailure" "fs' = fs1" using Cons.prems(2) step rm by simp_all
        moreover have "kept (stage_names \<inter> set (name # names)) fs fs1" by (rule kept_mono[OF k]) auto
        ultimately show ?thesis by (simp add: discards_def)
      next
        case (Ok u)
        have gone: "name \<notin> stages_in fs1" using remove_gone[OF rm[unfolded Ok]] by (simp add: stages_in_def)
        have "discard_entries reads (discarded + 1) names fs1 = (r, fs')" using Cons.prems(2) step rm Ok by simp
        from Cons.IH[OF new(2) this] show ?thesis using discards_Cons[OF new(1) k gone] True by simp
      qed
    qed
  qed
qed

text \<open>
  Recovery removes the interrupted stages and nothing else: names outside the staging namespace keep their
  trees, the count returned is the number of stages that were there, and none is left.
\<close>

theorem recovery_exact:
  "case discard_interrupted_stages fs of
     (r, fs') \<Rightarrow> kept stage_names fs fs' \<and>
       (case r of Err e \<Rightarrow> e = StoreIoFailure | Ok n \<Rightarrow> n = card (stages_in fs) \<and> stages_in fs' = {})"
proof -
  obtain t fs1 where t: "os_turn fs = (t, fs1)" by fastforce
  have same: "stages_in fs1 = stages_in fs"
    using stage_name_kept[OF os_turn_kept[OF t, of "{}"]] by (auto simp: stages_in_def)
  show ?thesis
  proof (cases "os_read_dir (turn_reads t) (fs_nodes fs1) []")
    case (Err k)
    then show ?thesis using t os_turn_kept[OF t] by (simp add: discard_interrupted_stages_def)
  next
    case (Ok names)
    then have names: "names = child_names (fs_nodes fs1) []" using os_calls_Ok(2) by blast
    obtain r fs' where run: "discard_entries (turn_reads t) 0 names fs1 = (r, fs')" by fastforce
    have "distinct names" using names distinct_child_names by simp
    note d = discard_entries_run[OF this run, unfolded discards_def]
    have all: "stages_in fs1 \<inter> set names = stages_in fs1"
      using set_child_names[of _ "fs_nodes fs1" "[]"] names by (auto simp: stages_in_def)
    have "name \<in> set names" if "name \<in> stages_in fs'" for name
    proof (rule ccontr)
      assume "name \<notin> set names"
      then have "map_of (fs_nodes fs') [name] = map_of (fs_nodes fs1) [name]" "map_of (fs_nodes fs1) [name] = None"
        using stage_name_kept[OF conjunct1[OF d], of name] that set_child_names[of name "fs_nodes fs1" "[]"] names
        by (auto simp: stages_in_def)
      then show False using that by (simp add: stages_in_def)
    qed
    then have "stages_in fs' = stages_in fs' \<inter> set names" by auto
    moreover have "kept stage_names fs fs'" using kept_trans[OF os_turn_kept[OF t] kept_mono[OF conjunct1[OF d]]] by blast
    ultimately show ?thesis using t Ok run d all same
      by (cases r) (simp_all add: discard_interrupted_stages_def)
  qed
qed

end
