(* ===== verification/Payload_Stage_Correct.thy ===== *)
theory Payload_Stage_Correct
  imports Payload_Stage Payload_Probe
begin

text \<open>
  What the commit protocol promises.  The locale \<open>payload_transaction\<close> is the contract of a store: what a
  transaction that owns a staging place holds after each step, and that every step leaves everything else
  alone.  The protocol's theorems are proved in the locale; the directory store is an instance.
\<close>


section \<open>The contract of a store\<close>

text \<open>
  \<open>owner x t\<close>: the transaction owns the place \<open>x\<close>.  \<open>tree x plan contents opened t\<close>: what is there.
  \<open>frame x t t'\<close>: outside \<open>x\<close> nothing was changed.  \<open>vacant x t\<close>, \<open>gone x t\<close>: nothing is at \<open>x\<close>.
\<close>

text \<open>Two reports with the same verdict; the bytes of one whole stream of an entry.\<close>

definition same_verdict :: "PayloadStageReport \<Rightarrow> PayloadStageReport \<Rightarrow> bool" where
  "same_verdict report rep \<longleftrightarrow> rep_status rep = rep_status report \<and> rep_publication rep = rep_publication report"

definition streamed ::
  "(u64 \<Rightarrow> 'w SourcePlay) \<Rightarrow> ('w \<Rightarrow> bool \<times> 'w) \<Rightarrow> PlannedPayloadEntry \<Rightarrow> bytes \<Rightarrow> bool" where
  "streamed source stop entry bs \<longleftrightarrow>
     (\<exists>w cs w'. offers stop (source (ppe_source_token entry)) w cs True w' \<and> concat cs = bs)"

text \<open>
  The source passed its check and no stop was requested in the poll that followed, which ended in \<open>w\<close>; so
  if what the source returns are the bytes of one content, the accepted digest is the digest of it.
\<close>

definition verified_before ::
  "(bytes \<Rightarrow> bytes) \<Rightarrow> 'w MediaSource \<Rightarrow> SourceFingerprint \<Rightarrow> ('w \<Rightarrow> bool \<times> 'w) \<Rightarrow> 'w \<Rightarrow> bool" where
  "verified_before sha256 source fingerprint stop w \<longleftrightarrow>
     (\<exists>v u v'. verify_complete_source_stability_with_cancellation sha256 source fingerprint stop v = (Ok u, v') \<and>
        stop v' = (False, w)) \<and>
     (\<forall>content. reads_back source content \<longrightarrow>
        sha256 (map content [0..<unat (ms_size source)]) = fp_sha256 fingerprint)"

lemma verified_beforeI:
  assumes "verify_complete_source_stability_with_cancellation sha256 source fingerprint stop v = (Ok u, v')"
    and "stop v' = (False, w)"
  shows "verified_before sha256 source fingerprint stop w"
proof -
  have "sha256 (map content [0..<unat (ms_size source)]) = fp_sha256 fingerprint" if "reads_back source content" for content
    using stability_verdict(1)[OF that assms(1) refl] by blast
  then show ?thesis using assms unfolding verified_before_def by blast
qed

lemma stream_touches:
  assumes "stream_payload_entry entry source stop destination (d, w) = (outcome, d', w')"
  shows "\<exists>cs d1. deliver destination cs d = Some d1 \<and> (d' = d1 \<or> (\<exists>bs. destination bs d1 = (False, d')))"
proof -
  obtain cs d1 where cs: "deliver destination cs d = Some d1" and
      "case pso_error outcome of
         None \<Rightarrow> d' = d1 \<and> length (concat cs) = unat (ppe_size_bytes entry) \<and>
           (\<exists>w0 w1. stop w = (False, w0) \<and> offers stop (source (ppe_source_token entry)) w0 cs True w1 \<and> stop w1 = (False, w'))
       | Some StreamDestinationFailure \<Rightarrow>
           (\<exists>bs. destination bs d1 = (False, d') \<and> length (concat cs) + length bs \<le> unat (ppe_size_bytes entry))
       | Some _ \<Rightarrow> d' = d1"
    using stream_payload_entry_delivers[OF assms] by (elim exE conjE)
  then have "d' = d1 \<or> (\<exists>bs. destination bs d1 = (False, d'))"
    by (cases "pso_error outcome"; cases "the (pso_error outcome)") auto
  then show ?thesis using cs by blast
qed

lemma concat_chunks: "0 < n \<Longrightarrow> concat (chunks n bs) = bs"
proof (induction n bs rule: chunks.induct)
  case (1 n bs)
  then show ?case by (subst chunks.simps) simp
qed

lemma concat_stage_chunks: "concat (chunks STAGE_CHUNK_BYTES bs) = bs"
  by (rule concat_chunks) (simp add: STAGE_CHUNK_BYTES_def)

locale payload_transaction =
  fixes store :: "'t PayloadStore"
    and fresh :: "'t \<Rightarrow> bool"
    and idle :: "'t \<Rightarrow> bool"
    and owner :: "'o \<Rightarrow> 't \<Rightarrow> bool"
    and tree :: "'o \<Rightarrow> StagingPlan \<Rightarrow> bytes list \<Rightarrow> bytes option \<Rightarrow> 't \<Rightarrow> bool"
    and whole :: "'o \<Rightarrow> StagingPlan \<Rightarrow> bytes list \<Rightarrow> 't \<Rightarrow> bool"
    and public :: "StagingPlan \<Rightarrow> bytes list \<Rightarrow> 't \<Rightarrow> bool"
    and frame :: "'o \<Rightarrow> 't \<Rightarrow> 't \<Rightarrow> bool"
    and gone :: "'o \<Rightarrow> 't \<Rightarrow> bool"
    and lossless :: "'t \<Rightarrow> 't \<Rightarrow> bool"
    and clean :: "'t \<Rightarrow> 't \<Rightarrow> bool"
  assumes frame_refl: "frame x t t"
    and frame_trans: "frame x t t' \<Longrightarrow> frame x t' t'' \<Longrightarrow> frame x t t''"
    and lossless_refl: "lossless t t"
    and lossless_trans: "lossless t t' \<Longrightarrow> lossless t' t'' \<Longrightarrow> lossless t t''"
    and clean_trans: "clean t t' \<Longrightarrow> clean t' t'' \<Longrightarrow> clean t t''"
    and frame_lossless: "gone x t \<Longrightarrow> frame x t t' \<Longrightarrow> lossless t t'"
    and frame_clean: "frame x t t' \<Longrightarrow> gone x t' \<Longrightarrow> clean t t'"
    and create_ok: "ps_create_transaction store t = (r, t') \<Longrightarrow>
      lossless t t' \<and> clean t t' \<and> (is_ok r \<longrightarrow> fresh t')"
    and begin_ok: "fresh t \<Longrightarrow> plan_ok plan \<Longrightarrow> pt_begin store plan t = (Ok u, t') \<Longrightarrow>
      \<exists>x. gone x t \<and> frame x t t' \<and> tree x plan [] None t'"
    and begin_err: "fresh t \<Longrightarrow> pt_begin store plan t = (Err e, t') \<Longrightarrow> idle t' \<and> lossless t t'"
    and tree_owner: "tree x plan contents opened t \<Longrightarrow> owner x t"
    and whole_owner: "whole x plan contents t \<Longrightarrow> owner x t"
    and open_ok: "tree x plan contents None t \<Longrightarrow> pt_open_file store c n t = (Ok u, t') \<Longrightarrow>
      tree x plan contents (Some []) t'"
    and write_ok: "tree x plan contents (Some bs) t \<Longrightarrow> pt_write_chunk store chunk t = (Ok u, t') \<Longrightarrow>
      tree x plan contents (Some (bs @ chunk)) t'"
    and seal_ok: "tree x plan contents (Some bs) t \<Longrightarrow> pt_seal_file store t = (Ok u, t') \<Longrightarrow>
      tree x plan (contents @ [bs]) None t'"
    and completion_ok: "tree x plan contents None t \<Longrightarrow> pt_seal_completion store t = (Ok u, t') \<Longrightarrow>
      whole x plan contents t'"
    and publish_ok: "whole x plan contents t \<Longrightarrow> pt_publish_no_replace store t = (Ok StatePublished, t') \<Longrightarrow>
      public plan contents t' \<and> idle t' \<and> gone x t' \<and> frame x t t'"
    and open_step: "owner x t \<Longrightarrow> pt_open_file store c n t = (r, t') \<Longrightarrow> owner x t' \<and> frame x t t'"
    and write_step: "owner x t \<Longrightarrow> pt_write_chunk store chunk t = (r, t') \<Longrightarrow> owner x t' \<and> frame x t t'"
    and seal_step: "owner x t \<Longrightarrow> pt_seal_file store t = (r, t') \<Longrightarrow> owner x t' \<and> frame x t t'"
    and completion_step: "owner x t \<Longrightarrow> pt_seal_completion store t = (r, t') \<Longrightarrow> owner x t' \<and> frame x t t'"
    and publish_step: "owner x t \<Longrightarrow> pt_publish_no_replace store t = (outcome, t') \<Longrightarrow> outcome \<noteq> Ok StatePublished \<Longrightarrow>
      owner x t' \<and> frame x t t'"
    and abort_step: "owner x t \<Longrightarrow> pt_abort store t = (r, t') \<Longrightarrow>
      idle t' \<and> frame x t t' \<and> (is_ok r \<longrightarrow> gone x t')"
    and abort_idle: "idle t \<Longrightarrow> pt_abort store t = (r, t') \<Longrightarrow> idle t' \<and> lossless t t'"
    and drop_idle: "idle t \<Longrightarrow> pt_drop store t = t"
    and sync_step: "public plan contents t \<Longrightarrow> idle t \<Longrightarrow> pt_sync_published_parent store t = (r, t') \<Longrightarrow>
      public plan contents t' \<and> idle t' \<and> lossless t t' \<and> clean t t'"
    and probe_step: "ps_probe store plan t = (found, t') \<Longrightarrow> lossless t t' \<and> clean t t'"
begin

lemma give_up_step:
  assumes "owner x t" and "give_up store report (t, w) = (r, (t', w'))"
  shows "\<exists>rep. r = Err rep \<and> same_verdict report rep \<and> idle t' \<and> frame x t t' \<and>
    (rep_cleanup_error rep = None \<longrightarrow> gone x t')"
proof -
  obtain a t1 where a: "pt_abort store t = (a, t1)" by fastforce
  then show ?thesis using assms abort_step[OF assms(1) a]
    by (cases a) (auto simp: give_up_def abort_stage_def same_verdict_def)
qed

lemma write_windows_step:
  "owner x t \<Longrightarrow> write_windows store ws (e, t) = (ok, (e', t')) \<Longrightarrow> owner x t' \<and> frame x t t'"
proof (induction ws arbitrary: t)
  case (Cons c ws)
  obtain r t1 where c: "pt_write_chunk store c t = (r, t1)" by fastforce
  note one = write_step[OF Cons.prems(1) c]
  show ?case
  proof (cases r)
    case (Ok u)
    then have "write_windows store ws (e, t1) = (ok, (e', t'))" using Cons.prems(2) c by simp
    then show ?thesis using Cons.IH[of t1] one frame_trans by blast
  qed (use Cons.prems(2) c one in simp)
qed (simp add: frame_refl)

lemma write_windows_ok:
  "tree x plan contents (Some bs) t \<Longrightarrow> write_windows store ws (e, t) = (True, (e', t')) \<Longrightarrow>
     tree x plan contents (Some (bs @ concat ws)) t'"
proof (induction ws arbitrary: t bs)
  case (Cons c ws)
  obtain r t1 where c: "pt_write_chunk store c t = (r, t1)" by fastforce
  then obtain u where "r = Ok u" "write_windows store ws (e, t1) = (True, (e', t'))"
    using Cons.prems(2) by (cases r) simp_all
  then show ?case using Cons.IH[OF write_ok[OF Cons.prems(1)], of c u t1] c by simp
qed simp

lemma sink_step:
  "owner x t \<Longrightarrow> transaction_sink_write store bs (e, t) = (ok, (e', t')) \<Longrightarrow> owner x t' \<and> frame x t t'"
  unfolding transaction_sink_write_def by (rule write_windows_step)

lemma sink_ok:
  "tree x plan contents (Some bs) t \<Longrightarrow> transaction_sink_write store chunk (e, t) = (True, (e', t')) \<Longrightarrow>
     tree x plan contents (Some (bs @ chunk)) t'"
  using write_windows_ok[of x plan contents bs t "chunks STAGE_CHUNK_BYTES chunk"]
  by (simp add: transaction_sink_write_def concat_stage_chunks)

lemma deliver_own:
  "owner x t \<Longrightarrow> deliver (transaction_sink_write store) cs (e, t) = Some (e', t') \<Longrightarrow> owner x t' \<and> frame x t t'"
proof (induction cs arbitrary: e t)
  case (Cons c cs)
  obtain ok e1 t1 where c: "transaction_sink_write store c (e, t) = (ok, (e1, t1))" by (rule prod_cases3)
  note one = sink_step[OF Cons.prems(1) c]
  have "deliver (transaction_sink_write store) cs (e1, t1) = Some (e', t')"
    using Cons.prems(2) c by (simp split: bool.splits)
  then show ?case using Cons.IH[of t1 e1] one frame_trans by blast
qed (simp add: frame_refl)

lemma deliver_ok:
  "tree x plan contents (Some bs) t \<Longrightarrow> deliver (transaction_sink_write store) cs (e, t) = Some (e', t') \<Longrightarrow>
     tree x plan contents (Some (bs @ concat cs)) t'"
proof (induction cs arbitrary: e t bs)
  case (Cons c cs)
  obtain ok e1 t1 where c: "transaction_sink_write store c (e, t) = (ok, (e1, t1))" by (rule prod_cases3)
  then have "ok" "deliver (transaction_sink_write store) cs (e1, t1) = Some (e', t')"
    using Cons.prems(2) by (simp_all split: bool.splits)
  then show ?case using Cons.IH[OF sink_ok[OF Cons.prems(1)], of c e e1 t1] c by simp
qed simp

lemma stream_own:
  assumes "owner x t"
    and "stream_payload_entry entry source stop (transaction_sink_write store) ((e, t), w) = (outcome, (e', t'), w')"
  shows "owner x t' \<and> frame x t t'"
proof -
  obtain cs d1 where cs: "deliver (transaction_sink_write store) cs (e, t) = Some d1"
      "(e', t') = d1 \<or> (\<exists>bs. transaction_sink_write store bs d1 = (False, (e', t')))"
    using stream_touches[OF assms(2)] by metis
  obtain e1 t1 where d1: "d1 = (e1, t1)" by fastforce
  have "owner x t1" "frame x t t1" using deliver_own[OF assms(1)] cs(1) d1 by blast+
  then show ?thesis using cs(2) d1 sink_step frame_trans by blast
qed

lemma stream_ok:
  assumes "tree x plan contents (Some []) t"
    and "stream_payload_entry entry source stop (transaction_sink_write store) ((e, t), w) = (outcome, (e', t'), w')"
    and "pso_error outcome = None"
  shows "\<exists>bs. tree x plan contents (Some bs) t' \<and> streamed source stop entry bs"
proof -
  obtain cs d1 w0 w1 where "deliver (transaction_sink_write store) cs (e, t) = Some d1" "(e', t') = d1"
      "offers stop (source (ppe_source_token entry)) w0 cs True w1"
    using stream_payload_entry_delivers[OF assms(2)] assms(3) by auto
  then show ?thesis using deliver_ok[OF assms(1)] unfolding streamed_def by (metis append_Nil)
qed

lemma stage_entry_ok:
  assumes "tree x plan contents None t"
    and "stage_entry store source stop index entry report (t, w) = (Ok rep, (t', w'))"
  shows "\<exists>bs. tree x plan (contents @ [bs]) None t' \<and> frame x t t' \<and> streamed source stop entry bs \<and> same_verdict report rep"
proof -
  let ?open = "pt_open_file store (path_components (ppe_path entry)) (ppe_size_bytes entry) t"
  obtain u t1 where opened: "?open = (Ok u, t1)" using assms(2)
    by (cases ?open; cases "fst ?open") (auto simp: stage_entry_def give_up_def split: prod.splits)
  obtain outcome e2 t2 w2 where stream:
      "stream_payload_entry entry source stop (transaction_sink_write store) ((None, t1), w) = (outcome, (e2, t2), w2)"
    by (metis prod.exhaust)
  have rest: "pso_error outcome = None" "\<exists>v. pt_seal_file store t2 = (Ok v, t')" "same_verdict report rep"
    using assms(2) opened stream
    by (auto simp: stage_entry_def give_up_def same_verdict_def Let_def split: prod.splits option.splits result.splits)
  have own: "owner x t" "owner x t1" "frame x t t1" using tree_owner[OF assms(1)] open_step opened by blast+
  have "owner x t2" "frame x t1 t2" using stream_own[OF own(2) stream] by auto
  then have "frame x t t'" using rest(2) seal_step own(3) frame_trans by blast
  moreover obtain bs where "tree x plan contents (Some bs) t2" "streamed source stop entry bs"
    using stream_ok[OF open_ok[OF assms(1) opened] stream rest(1)] by blast
  ultimately show ?thesis using rest(2,3) seal_ok by blast
qed

lemma stage_entry_err:
  assumes "owner x t" and "stage_entry store source stop index entry report (t, w) = (Err rep, (t', w'))"
  shows "same_verdict report rep \<and> idle t' \<and> frame x t t' \<and> (rep_cleanup_error rep = None \<longrightarrow> gone x t')"
proof -
  let ?open = "pt_open_file store (path_components (ppe_path entry)) (ppe_size_bytes entry) t"
  have quit: ?thesis if "give_up store report1 (t1, w1) = (Err rep :: (PayloadStageReport, PayloadStageReport) result, (t', w'))" "owner x t1" "frame x t t1" "same_verdict report report1"
    for report1 t1 w1
  proof -
    have "same_verdict report1 rep \<and> idle t' \<and> frame x t1 t' \<and> (rep_cleanup_error rep = None \<longrightarrow> gone x t')"
      using give_up_step[OF that(2,1)] by auto
    then show ?thesis using that(3,4) frame_trans by (auto simp: same_verdict_def)
  qed
  obtain r t1 where o: "?open = (r, t1)" by fastforce
  note own1 = open_step[OF assms(1) o]
  show ?thesis
  proof (cases r)
    case (Err e)
    then have "give_up store ((store_failure PhaseOpenFile e report)\<lparr>rep_failing_entry := Some index\<rparr>) (t1, w) =
        (Err rep :: (PayloadStageReport, PayloadStageReport) result, (t', w'))"
      using assms(2) o by (simp add: stage_entry_def)
    from quit[OF this] own1 show ?thesis by (simp add: same_verdict_def store_failure_def)
  next
    case (Ok u)
    obtain outcome e2 t2 w2 where stream:
        "stream_payload_entry entry source stop (transaction_sink_write store) ((None, t1), w) = (outcome, (e2, t2), w2)"
      by (metis prod.exhaust)
    have own2: "owner x t2" "frame x t t2" using stream_own[OF _ stream] own1 frame_trans by blast+
    show ?thesis
    proof (cases "pso_error outcome")
      case (Some s)
      then show ?thesis using assms(2) o Ok stream quit[OF _ own2]
        by (auto simp: stage_entry_def same_verdict_def Let_def)
    next
      case None
      obtain v t3 where sealed: "pt_seal_file store t2 = (v, t3)" by fastforce
      have own3: "owner x t3" "frame x t t3" using seal_step[OF own2(1) sealed] own2(2) frame_trans by blast+
      then show ?thesis using assms(2) o Ok stream None sealed quit[OF _ own3]
        by (cases v) (auto simp: stage_entry_def same_verdict_def store_failure_def Let_def)
    qed
  qed
qed

lemma stage_entries_ok:
  "tree x plan contents None t \<Longrightarrow> stage_entries store source stop index entries report (t, w) = (Ok rep, (t', w')) \<Longrightarrow>
     \<exists>ds. tree x plan (contents @ ds) None t' \<and> frame x t t' \<and> list_all2 (streamed source stop) entries ds \<and> same_verdict report rep"
proof (induction entries arbitrary: contents t w index report)
  case Nil
  then show ?case by (auto simp: same_verdict_def frame_refl)
next
  case (Cons entry entries)
  from Cons.prems(2) obtain rep1 t1 w1 where one: "stage_entry store source stop index entry report (t, w) = (Ok rep1, (t1, w1))"
      and rest: "stage_entries store source stop (Suc index) entries rep1 (t1, w1) = (Ok rep, (t', w'))"
    by (auto simp: st_bind_Ok)
  from stage_entry_ok[OF Cons.prems(1) one] obtain bs where bs: "tree x plan (contents @ [bs]) None t1" "frame x t t1"
      "streamed source stop entry bs" "same_verdict report rep1" by blast
  from Cons.IH[OF bs(1) rest] obtain ds where "tree x plan ((contents @ [bs]) @ ds) None t'" "frame x t1 t'"
      "list_all2 (streamed source stop) entries ds" "same_verdict rep1 rep" by blast
  then have "tree x plan (contents @ bs # ds) None t'" "list_all2 (streamed source stop) (entry # entries) (bs # ds)"
      "frame x t t'" "same_verdict report rep"
    using bs frame_trans by (auto simp: same_verdict_def)
  then show ?case by blast
qed

lemma stage_entries_err:
  "tree x plan contents None t \<Longrightarrow> stage_entries store source stop index entries report (t, w) = (Err rep, (t', w')) \<Longrightarrow>
     same_verdict report rep \<and> idle t' \<and> frame x t t' \<and> (rep_cleanup_error rep = None \<longrightarrow> gone x t')"
proof (induction entries arbitrary: contents t w index report)
  case (Cons entry entries)
  obtain r t1 w1 where one: "stage_entry store source stop index entry report (t, w) = (r, (t1, w1))" by (rule prod_cases3)
  show ?case
  proof (cases r)
    case (Err e)
    then have "stage_entry store source stop index entry report (t, w) = (Err rep, (t', w'))"
      using one Cons.prems(2) by (simp add: st_bind_def)
    from stage_entry_err[OF tree_owner[OF Cons.prems(1)] this] show ?thesis .
  next
    case (Ok rep1)
    then have rest: "stage_entries store source stop (Suc index) entries rep1 (t1, w1) = (Err rep, (t', w'))"
      using one Cons.prems(2) by (simp add: st_bind_def)
    from stage_entry_ok[OF Cons.prems(1) one[unfolded Ok]] obtain bs where bs: "tree x plan (contents @ [bs]) None t1" "frame x t t1"
        "same_verdict report rep1" by blast
    then show ?thesis using Cons.IH[OF bs(1) rest] frame_trans by (auto simp: same_verdict_def)
  qed
qed simp

lemma give_up_lossless:
  assumes "idle t" and "give_up store report (t, w) = (r, (t', w'))"
  shows "\<exists>rep. r = Err rep \<and> same_verdict report rep \<and> rep_phase rep = rep_phase report \<and> idle t' \<and> lossless t t'"
proof -
  obtain a t1 where a: "pt_abort store t = (a, t1)" by fastforce
  then show ?thesis using assms abort_idle[OF assms(1) a]
    by (auto simp: give_up_def abort_stage_def same_verdict_def)
qed

text \<open>
  A tree that is ready to be published holds what every entry streamed, and the source was verified after
  the last byte of it was read, with no stop requested since.
\<close>

lemma stage_tree_ok:
  assumes "fresh t" and "plan_ok plan"
    and "stage_tree sha256 source fingerprint entries plan plays store stop report (t, w) = (Ok rep, (t', w'))"
  shows "\<exists>x contents. gone x t \<and> frame x t t' \<and> whole x plan contents t' \<and> list_all2 (streamed plays stop) entries contents \<and>
    same_verdict report rep \<and> verified_before sha256 source fingerprint stop w'"
proof -
  obtain r0 t0 where begun: "pt_begin store plan t = (r0, t0)" by fastforce
  then obtain u where r0: "r0 = Ok u" using assms(3) by (cases r0) (auto simp: stage_tree_def give_up_def split: prod.splits)
  from begin_ok[OF assms(1,2) begun[unfolded r0]] obtain x where x: "gone x t" "frame x t t0" "tree x plan [] None t0" by blast
  obtain r1 t1 w1 where entries: "stage_entries store plays stop 0 entries report (t0, w) = (r1, (t1, w1))" by (rule prod_cases3)
  then obtain rep1 where r1: "r1 = Ok rep1" using assms(3) begun r0 by (cases r1) (auto simp: stage_tree_def st_bind_def)
  from stage_entries_ok[OF x(3) entries[unfolded r1]] obtain ds where ds: "tree x plan ds None t1" "frame x t0 t1"
      "list_all2 (streamed plays stop) entries ds" "same_verdict report rep1" by auto
  obtain r2 t2 where sealing: "pt_seal_completion store t1 = (r2, t2)" by fastforce
  then obtain v where r2: "r2 = Ok v" using assms(3) begun r0 entries r1
    by (cases r2) (auto simp: stage_tree_def st_bind_def give_up_def split: prod.splits)
  obtain r3 w3 where check: "verify_complete_source_stability_with_cancellation sha256 source fingerprint stop w1 = (r3, w3)" by fastforce
  then obtain v3 where r3: "r3 = Ok v3" using assms(3) begun r0 entries r1 sealing r2
    by (cases r3) (auto simp: stage_tree_def st_bind_def give_up_def split: prod.splits)
  obtain b w4 where last: "stop w3 = (b, w4)" by fastforce
  then have fin: "\<not> b" "rep = rep1" "t' = t2" "w' = w4"
    using assms(3) begun r0 entries r1 sealing r2 check r3
    by (cases b; auto simp: stage_tree_def st_bind_def give_up_def split: prod.splits)+
  have "whole x plan ds t'" using completion_ok[OF ds(1)] sealing r2 fin(3) by blast
  moreover have "frame x t t'" using x(2) ds(2) completion_step[OF tree_owner[OF ds(1)] sealing] fin(3) frame_trans by blast
  moreover have "verified_before sha256 source fingerprint stop w'"
    using verified_beforeI[OF check[unfolded r3]] last fin by simp
  ultimately show ?thesis using x(1) ds(3,4) fin(2) by blast
qed

lemma stage_tree_err:
  assumes "fresh t" and "plan_ok plan"
    and "stage_tree sha256 source fingerprint entries plan plays store stop report (t, w) = (Err rep, (t', w'))"
  shows "same_verdict report rep \<and> idle t' \<and> lossless t t' \<and>
    (rep_cleanup_error rep = None \<longrightarrow> rep_phase rep = PhaseBegin \<or> clean t t')"
proof -
  obtain r0 t0 where begun: "pt_begin store plan t = (r0, t0)" by fastforce
  show ?thesis
  proof (cases r0)
    case (Err e)
    then have quit: "give_up store (store_failure PhaseBegin e report) (t0, w) =
        (Err rep :: (PayloadStageReport, PayloadStageReport) result, (t', w'))"
      using assms(3) begun by (simp add: stage_tree_def)
    have "idle t0" "lossless t t0" using begin_err[OF assms(1) begun[unfolded Err]] by blast+
    with give_up_lossless[OF _ quit] lossless_trans show ?thesis
      by (auto simp: same_verdict_def store_failure_def)
  next
    case (Ok u)
    from begin_ok[OF assms(1,2) begun[unfolded Ok]] obtain x where x: "gone x t" "frame x t t0" "tree x plan [] None t0" by blast
    have finish: ?thesis if "same_verdict report rep" "idle t'" "frame x t0 t'" "rep_cleanup_error rep = None \<longrightarrow> gone x t'"
      using that frame_trans[OF x(2) that(3)] frame_lossless[OF x(1)] frame_clean by blast
    have quit: ?thesis if "give_up store report1 (t1, w1) = (Err rep :: (PayloadStageReport, PayloadStageReport) result, (t', w'))"
        "owner x t1" "frame x t0 t1" "same_verdict report report1" for report1 t1 w1
    proof -
      have "same_verdict report1 rep \<and> idle t' \<and> frame x t1 t' \<and> (rep_cleanup_error rep = None \<longrightarrow> gone x t')"
        using give_up_step[OF that(2,1)] by auto
      then show ?thesis using finish that(3,4) frame_trans by (auto simp: same_verdict_def)
    qed
    obtain r1 t1 w1 where entries: "stage_entries store plays stop 0 entries report (t0, w) = (r1, (t1, w1))" by (rule prod_cases3)
    show ?thesis
    proof (cases r1)
      case (Err e)
      then have "stage_entries store plays stop 0 entries report (t0, w) = (Err rep, (t', w'))"
        using assms(3) begun Ok entries by (simp add: stage_tree_def st_bind_def)
      from stage_entries_err[OF x(3) this] show ?thesis by (elim conjE) (rule finish)
    next
      case r1: (Ok rep1)
      from stage_entries_ok[OF x(3) entries[unfolded r1]] obtain ds where ds: "tree x plan ds None t1" "frame x t0 t1"
          "same_verdict report rep1" by auto
      obtain r2 t2 where sealing: "pt_seal_completion store t1 = (r2, t2)" by fastforce
      note own2 = completion_step[OF tree_owner[OF ds(1)] sealing]
      then have f2: "frame x t0 t2" using ds(2) frame_trans by blast
      obtain r3 w3 where check: "verify_complete_source_stability_with_cancellation sha256 source fingerprint stop w1 = (r3, w3)" by fastforce
      obtain b w4 where last: "stop w3 = (b, w4)" by fastforce
      note run = assms(3) begun Ok entries r1 sealing check last
      show ?thesis
      proof (cases r2)
        case (Err e)
        then show ?thesis using run quit[OF _ conjunct1[OF own2] f2] ds(3)
          by (simp add: stage_tree_def st_bind_def same_verdict_def store_failure_def)
      next
        case r2: (Ok v)
        show ?thesis
        proof (cases r3)
          case (Err e)
          then show ?thesis using run r2 quit[OF _ conjunct1[OF own2] f2] ds(3)
            by (simp add: stage_tree_def st_bind_def same_verdict_def)
        next
          case (Ok v3)
          then show ?thesis using run r2 quit[OF _ conjunct1[OF own2] f2] ds(3)
            by (cases b) (simp_all add: stage_tree_def st_bind_def same_verdict_def)
        qed
      qed
    qed
  qed
qed


lemma abort_stage_step:
  assumes "owner x t" and "abort_stage store report t = (rep, t')"
  shows "same_verdict report rep \<and> rep_winner_observation rep = rep_winner_observation report \<and> idle t' \<and> frame x t t' \<and>
    (rep_cleanup_error rep = None \<longrightarrow> gone x t')"
proof -
  obtain a t1 where a: "pt_abort store t = (a, t1)" by fastforce
  then show ?thesis using assms abort_step[OF assms(1) a]
    by (cases a) (auto simp: abort_stage_def same_verdict_def)
qed

text \<open>
  Publishing a whole tree: when the report says published, the tree is public; otherwise the staging place
  was given up and the report's verdict is that of a probe.
\<close>

lemma stage_publish_verdict:
  assumes "whole x plan contents t" and "gone x t0" and "frame x t0 t"
    and "rep_publication report = NotPublished" and "rep_status report = StageFailed"
    and "stage_publish store plan report t = (rep, t')"
  shows "lossless t0 t' \<and> (rep_cleanup_error rep = None \<longrightarrow> clean t0 t') \<and>
    (if rep_publication rep = NotPublished
     then rep_status rep \<in> {StageFailed, StageCleanupFailed, StageConflict} \<or>
       (rep_status rep = StageCacheHit \<and> (\<exists>t1. ps_probe store plan t1 = (Ok Matching, t')))
     else rep_status rep \<in> {StagePublishedSyncComplete, StagePublishedSyncUncertain} \<and> public plan contents t')"
proof -
  obtain r t1 where pub: "pt_publish_no_replace store t = (r, t1)" by fastforce
  have lost: "lossless t0 v" if "frame x t v" for v using frame_lossless[OF assms(2)] frame_trans[OF assms(3) that] by blast
  have tidy: "clean t0 v" if "frame x t v" "gone x v" for v using frame_clean[OF frame_trans[OF assms(3) that(1)] that(2)] .
  show ?thesis
  proof (cases "r = Ok StatePublished")
    case True
    have p: "public plan contents t1" "idle t1" "gone x t1" "frame x t t1"
      using publish_ok[OF assms(1) pub[unfolded True]] by blast+
    obtain r2 t2 where sync: "pt_sync_published_parent store t1 = (r2, t2)" by fastforce
    note q = sync_step[OF p(1,2) sync]
    have "lossless t0 t2" "clean t0 t2" using lost[OF p(4)] tidy[OF p(4,3)] q lossless_trans clean_trans by blast+
    moreover have "pt_drop store t2 = t2" using q drop_idle by blast
    ultimately show ?thesis using assms(6) pub True sync q
      by (cases r2) (auto simp: stage_publish_def Let_def)
  next
    case False
    have own: "owner x t1" "frame x t t1" using publish_step[OF whole_owner[OF assms(1)] pub False] by blast+
    show ?thesis
    proof (cases r)
      case (Err e)
      obtain rep1 t2 where ab: "abort_stage store
          (report\<lparr>rep_phase := PhasePublish, rep_error := Some StagePublishFailure, rep_store_error := Some e\<rparr>) t1 = (rep1, t2)" by fastforce
      note q = abort_stage_step[OF own(1) ab]
      have f: "frame x t t2" using q own(2) frame_trans by blast
      have "rep = rep1" "t' = t2" using assms(6) pub Err ab q drop_idle[of t2] by (auto simp: stage_publish_def)
      then show ?thesis using q lost[OF f] tidy[OF f] assms(4,5) by (auto simp: same_verdict_def)
    next
      case (Ok st)
      then have st: "r = Ok StateDestinationExists" using False by (cases st) auto
      obtain rep1 t2 where ab: "abort_stage store (report\<lparr>rep_phase := PhaseRevalidate\<rparr>) t1 = (rep1, t2)" by fastforce
      note q = abort_stage_step[OF own(1) ab]
      have f: "frame x t t2" using q own(2) frame_trans by blast
      obtain r3 t3 where pr: "ps_probe store plan t2 = (r3, t3)" by fastforce
      have lc: "lossless t0 t3" "rep_cleanup_error rep1 = None \<longrightarrow> clean t0 t3"
        using lost[OF f] tidy[OF f] q probe_step[OF pr] lossless_trans clean_trans by blast+
      have st1: "rep_status rep1 = StageFailed" "rep_publication rep1 = NotPublished"
        using q assms(4,5) by (auto simp: same_verdict_def)
      show ?thesis using assms(6) pub st ab pr lc st1 q drop_idle[of t2]
        by (auto simp: stage_publish_def Let_def split: result.splits ProbeState.splits if_splits)
    qed
  qed
qed

text \<open>The whole protocol after a probe that found nothing.\<close>

lemma stage_absent_verdict:
  assumes "plan_ok plan" and "rep_publication report = NotPublished" and "rep_status report = StageFailed"
    and "stage_absent sha256 source fingerprint entries plan plays store stop report (t, w) = (rep, t', w')"
  shows "lossless t t' \<and> (rep_cleanup_error rep = None \<longrightarrow> rep_phase rep = PhaseBegin \<or> clean t t') \<and>
    (if rep_publication rep = NotPublished
     then rep_status rep \<in> {StageFailed, StageCleanupFailed, StageConflict} \<or>
       (rep_status rep = StageCacheHit \<and> (\<exists>t1. ps_probe store plan t1 = (Ok Matching, t')))
     else rep_status rep \<in> {StagePublishedSyncComplete, StagePublishedSyncUncertain} \<and>
       (\<exists>contents. public plan contents t' \<and> list_all2 (streamed plays stop) entries contents \<and>
         verified_before sha256 source fingerprint stop w'))"
proof -
  obtain r t1 where create: "ps_create_transaction store t = (r, t1)" by fastforce
  note c = create_ok[OF create]
  show ?thesis
  proof (cases r)
    case (Err e)
    then show ?thesis using assms c create by (auto simp: stage_absent_def store_failure_def)
  next
    case (Ok u)
    then have fresh: "fresh t1" using c by simp
    obtain r2 t2 w2 where tree: "stage_tree sha256 source fingerprint entries plan plays store stop report (t1, w) = (r2, (t2, w2))"
      by (rule prod_cases3)
    show ?thesis
    proof (cases r2)
      case (Err rep1)
      note e = stage_tree_err[OF fresh assms(1) tree[unfolded Err]]
      have "rep = rep1" "t' = t2" using assms(4) create Ok tree Err e drop_idle[of t2] by (auto simp: stage_absent_def)
      then show ?thesis using e c lossless_trans clean_trans assms(2,3) by (auto simp: same_verdict_def)
    next
      case r2: (Ok rep1)
      from stage_tree_ok[OF fresh assms(1) tree[unfolded r2]] obtain x contents where
        x: "gone x t1" "frame x t1 t2" "whole x plan contents t2" "list_all2 (streamed plays stop) entries contents"
          "same_verdict report rep1" "verified_before sha256 source fingerprint stop w2"
        by (elim exE conjE)
      obtain rep2 t3 where pub: "stage_publish store plan rep1 t2 = (rep2, t3)" by fastforce
      have fin: "rep = rep2" "t' = t3" "w' = w2" using assms(4) create Ok tree r2 pub by (auto simp: stage_absent_def)
      have "rep_publication rep1 = NotPublished" "rep_status rep1 = StageFailed" using x(5) assms(2,3) by (auto simp: same_verdict_def)
      note v = stage_publish_verdict[OF x(3,1,2) this pub]
      have "lossless t1 t'" "rep_cleanup_error rep = None \<longrightarrow> clean t1 t'" using v fin by simp_all
      then have "lossless t t'" "rep_cleanup_error rep = None \<longrightarrow> clean t t'"
        using c lossless_trans clean_trans by blast+
      moreover have "\<exists>contents. public plan contents t' \<and> list_all2 (streamed plays stop) entries contents \<and>
         verified_before sha256 source fingerprint stop w'" if "rep_publication rep \<noteq> NotPublished"
        using v x(4,6) fin that by (intro exI[of _ contents]) simp
      ultimately show ?thesis using v fin by (simp split: if_splits)
    qed
  qed
qed

end


section \<open>The directory store\<close>

text \<open>Every name that was at the root has the tree it had; no staging name is left that was not there.\<close>

definition nothing_lost :: "FileSystem \<Rightarrow> FileSystem \<Rightarrow> bool" where
  "nothing_lost fs fs' \<longleftrightarrow>
     (\<forall>name q. map_of (fs_nodes fs) [name] \<noteq> None \<longrightarrow> map_of (fs_nodes fs') (name # q) = map_of (fs_nodes fs) (name # q))"

definition no_stage_left :: "FileSystem \<Rightarrow> FileSystem \<Rightarrow> bool" where
  "no_stage_left fs fs' \<longleftrightarrow>
     (\<forall>name. is_staging_name name \<longrightarrow> map_of (fs_nodes fs) [name] = None \<longrightarrow> map_of (fs_nodes fs') [name] = None)"

lemma nothing_lost_trans: "nothing_lost fs fs' \<Longrightarrow> nothing_lost fs' fs'' \<Longrightarrow> nothing_lost fs fs''"
  unfolding nothing_lost_def by metis

lemma no_stage_left_trans: "no_stage_left fs fs' \<Longrightarrow> no_stage_left fs' fs'' \<Longrightarrow> no_stage_left fs fs''"
  unfolding no_stage_left_def by blast

lemma kept_nothing_lost: "map_of (fs_nodes fs) [name] = None \<Longrightarrow> kept {name} fs fs' \<Longrightarrow> nothing_lost fs fs'"
  unfolding nothing_lost_def kept_def untouched_def by (metis singletonD)

lemma kept_no_stage_left: "kept {name} fs fs' \<Longrightarrow> map_of (fs_nodes fs') [name] = None \<Longrightarrow> no_stage_left fs fs'"
  unfolding no_stage_left_def kept_def untouched_def by (metis singletonD)

lemma kept_none:
  assumes "kept {} fs fs'"
  shows "nothing_lost fs fs'" and "no_stage_left fs fs'"
  using assms unfolding nothing_lost_def no_stage_left_def kept_def untouched_def by (metis empty_iff)+

lemma store_probe_kept: "store_probe plan fs = (r, fs') \<Longrightarrow> kept own fs fs'"
  using os_turn_kept by (auto simp: store_probe_def Let_def split: prod.splits)

lemma tx_begin_err:
  assumes "tx_begin plan (create_transaction, fs) = (Err e, s')"
  shows "dt_staging (fst s') = None \<and> nothing_lost fs (snd s')"
proof -
  have idle: "dt_staging create_transaction = None" "dt_state create_transaction = TxCreated" by (simp_all add: create_transaction_def)
  obtain r fs1 where c: "staging_create [] STAGING_PREFIX fs = (r, fs1)" by fastforce
  show ?thesis
  proof (cases r)
    case (Err e)
    then have "s' = (create_transaction, fs1)" "kept {} fs fs1"
      using assms c idle staging_create_Err by (auto simp: tx_begin_def)
    then show ?thesis using kept_none idle by simp
  next
    case (Ok sd)
    from staging_create_Ok[OF c[unfolded Ok]] obtain name where
      name: "sd_path sd = [name]" "map_of (fs_nodes fs) [name] = None" "kept {name} fs fs1" by metis
    obtain r2 dt2 fs2 where m: "on_fs (os_create DirNode (name # [FILES_DIRECTORY])) (create_transaction, fs1) = (r2, (dt2, fs2))"
      by (rule prod_cases3)
    have k: "kept {name} fs1 fs2" "dt2 = create_transaction"
      using on_fs_create_kept[OF m] m by (auto simp: on_fs_eq)
    obtain r3 fs3 where d: "os_remove_dir_all (name # []) fs2 = (r3, fs3)" by fastforce
    have "s' = (create_transaction, fs3)"
      using assms c Ok idle m d k(2) name(1)
      by (cases r2) (auto simp: tx_begin_def os_create_dir_def staging_drop_def)
    moreover have "kept {name} fs fs3" using name(3) k(1) os_remove_dir_all_kept[OF d] kept_trans by blast
    ultimately show ?thesis using kept_nothing_lost[OF name(2)] idle by simp
  qed
qed

text \<open>The laws the directory store owes, one operation at a time.\<close>

lemmas store_fields = directory_payload_store_def

lemma directory_probe: "ps_probe directory_payload_store plan s = (r, s') \<longleftrightarrow>
    store_probe plan (snd s) = (r, snd s') \<and> fst s' = fst s"
  by (cases s') (auto simp: store_fields split: prod.splits)

lemma tx_own_steps:
  assumes "owns name s"
  shows "tx_open_file cs n s = (r, s') \<Longrightarrow> owns name s' \<and> kept {name} (snd s) (snd s')"
    and "tx_write_chunk bs s = (r, s') \<Longrightarrow> owns name s' \<and> kept {name} (snd s) (snd s')"
    and "tx_seal_file s = (r, s') \<Longrightarrow> owns name s' \<and> kept {name} (snd s) (snd s')"
    and "tx_seal_completion s = (r, s') \<Longrightarrow> owns name s' \<and> kept {name} (snd s) (snd s')"
    and "tx_publish_no_replace s = (outcome, s') \<Longrightarrow> outcome \<noteq> Ok StatePublished \<Longrightarrow> owns name s' \<and> kept {name} (snd s) (snd s')"
  using tx_open_file_own[OF assms] tx_write_chunk_own[OF assms] tx_seal_file_own[OF assms]
    tx_seal_completion_own[OF assms] tx_publish_own(2)[OF assms]
  unfolding own_step_def by blast+

lemma tx_abort_step:
  assumes "owns name s" and "tx_abort s = (r, s')"
  shows "dt_staging (fst s') = None \<and> kept {name} (snd s) (snd s') \<and>
    (is_ok r \<longrightarrow> map_of (fs_nodes (snd s')) [name] = None)"
  using tx_abort_own[OF assms] by (cases r) auto

lemma tx_abort_idle:
  assumes "dt_staging (fst s) = None" and "tx_abort s = (r, s')"
  shows "dt_staging (fst s') = None \<and> nothing_lost (snd s) (snd s')"
  using assms kept_none(1)[OF kept_refl] by (auto simp: tx_abort_def Let_def split: if_splits)

lemma published_kept: "published plan contents fs \<Longrightarrow> kept {} fs fs' \<Longrightarrow> published plan contents fs'"
  using tree_at_kept[of "published_name plan" fs _ "{}" fs'] by (simp add: published_def payload_view_def)

lemma tx_sync_step:
  assumes "published plan contents (snd s)" and "dt_staging (fst s) = None" and "tx_sync_published_parent s = (r, s')"
  shows "published plan contents (snd s') \<and> dt_staging (fst s') = None \<and>
    nothing_lost (snd s) (snd s') \<and> no_stage_left (snd s) (snd s')"
proof -
  have k: "kept {} (snd s) (snd s')"
    using assms(3) sync_directory_kept kept_refl by (auto simp: tx_sync_published_parent_def split: if_splits)
  have "fst s' = fst s"
    using assms(3) by (auto simp: tx_sync_published_parent_def sync_directory_def st_bind_def on_fs_def
        split: if_splits prod.splits result.splits)
  then show ?thesis using published_kept[OF assms(1) k] kept_none[OF k] assms(2) by simp
qed

interpretation directory: payload_transaction directory_payload_store
  "\<lambda>s. fst s = create_transaction" "\<lambda>s. dt_staging (fst s) = None" owns staged sealed
  "\<lambda>plan contents s. published plan contents (snd s)" "\<lambda>name s s'. kept {name} (snd s) (snd s')"
  "\<lambda>name s. map_of (fs_nodes (snd s)) [name] = None" "\<lambda>s s'. nothing_lost (snd s) (snd s')"
  "\<lambda>s s'. no_stage_left (snd s) (snd s')"
proof (unfold_locales, goal_cases)
  case (1 x t) show ?case by (rule kept_refl)
next
  case (2 x t t' t'') then show ?case by (rule kept_trans)
next
  case (3 t) show ?case by (rule kept_none(1)[OF kept_refl])
next
  case (4 t t' t'') then show ?case by (rule nothing_lost_trans)
next
  case (5 t t' t'') then show ?case by (rule no_stage_left_trans)
next
  case (6 x t t') then show ?case by (rule kept_nothing_lost)
next
  case (7 x t t') then show ?case by (rule kept_no_stage_left)
next
  case (8 t r t') then show ?case using kept_none[OF kept_refl] by (auto simp: store_fields)
next
  case (9 t plan u t')
  then show ?case using tx_begin_Ok[of plan "snd t" u t'] by (cases t) (auto simp: store_fields)
next
  case (10 t plan e t')
  then show ?case using tx_begin_err[of plan "snd t" e t'] by (cases t) (simp add: store_fields)
next
  case 11 then show ?case by (rule stagedD(1))
next
  case 12 then show ?case by (simp add: sealed_def)
next
  case 13 then show ?case using tx_open_file_Ok by (simp add: store_fields)
next
  case 14 then show ?case using tx_write_chunk_Ok by (simp add: store_fields)
next
  case 15 then show ?case using tx_seal_file_Ok by (simp add: store_fields)
next
  case 16 then show ?case using tx_seal_completion_Ok by (simp add: store_fields)
next
  case (17 x plan contents t t')
  then have own: "owns x t" and pub: "tx_publish_no_replace t = (Ok StatePublished, t')"
    by (simp_all add: store_fields sealed_def)
  show ?case using tx_publish_Ok[OF 17(1) pub] tx_publish_own(1)[OF own pub] by simp
next
  case 18 then show ?case using tx_own_steps(1) by (simp add: store_fields)
next
  case 19 then show ?case using tx_own_steps(2) by (simp add: store_fields)
next
  case 20 then show ?case using tx_own_steps(3) by (simp add: store_fields)
next
  case 21 then show ?case using tx_own_steps(4) by (simp add: store_fields)
next
  case (22 x t outcome t')
  then show ?case using tx_own_steps(5)[OF 22(1), of outcome t'] by (simp add: store_fields)
next
  case 23 then show ?case using tx_abort_step by (simp add: store_fields)
next
  case 24 then show ?case using tx_abort_idle by (simp add: store_fields)
next
  case 25 then show ?case by (simp add: store_fields tx_drop_def)
next
  case (26 plan contents t r t')
  then show ?case using tx_sync_step[OF 26(1,2), of r t'] by (simp add: store_fields)
next
  case (27 plan t found t')
  then have "store_probe plan (snd t) = (found, snd t')" by (simp add: directory_probe)
  then show ?case using kept_none[OF store_probe_kept] by blast
qed



section \<open>The verdict of a stage\<close>

lemma prepare_Some:
  assumes "prepare sha256 media_bytes fingerprint request = (Some prepared, failing_entry)"
  shows "plan_ok (prep_plan prepared)" and "sp_identity (prep_plan prepared) = prep_identity prepared"
    and "sp_entries (prep_plan prepared) = map staging_entry_of (req_entries request)"
    and "media_bytes = fp_size_bytes fingerprint" and "failing_entry = None"
proof -
  have plan: "prepare_plan sha256 fingerprint request = Some prepared"
    and rest: "media_bytes = fp_size_bytes fingerprint" "failing_entry = None"
    using assms by (auto simp: prepare_def Let_def split: if_splits result.splits option.splits)
  have new: "staging_plan_new (prep_identity prepared) (map staging_entry_of (req_entries request)) = Ok (prep_plan prepared)"
    using plan by (auto simp: prepare_plan_def Let_def split: result.splits)
  show "plan_ok (prep_plan prepared)" "sp_identity (prep_plan prepared) = prep_identity prepared"
    "sp_entries (prep_plan prepared) = map staging_entry_of (req_entries request)"
    using staging_plan_new_ok[OF new] by blast+
  show "media_bytes = fp_size_bytes fingerprint" "failing_entry = None" by (rule rest)+
qed

text \<open>An accepted request is its own destination plan, so its components are printable ASCII.\<close>

lemma first_difference_None:
  "length ps = length qs \<Longrightarrow> first_difference index ps qs = None \<Longrightarrow> ps = qs"
  by (induction index ps qs rule: first_difference.induct) (auto split: if_splits)

lemma portable_utf8: "portable_component c \<Longrightarrow> from_utf8_ok c"
proof (rule from_utf8_ascii)
  assume "portable_component c"
  then have "list_all (\<lambda>b. b \<le> 0x7E) c" by (auto simp: portable_component_def list_all_iff)
  then show "list_all (\<lambda>b. b < 0x80) c" by (auto simp: list_all_iff word_le_nat_alt word_less_nat_alt)
qed

lemma prepare_planned:
  assumes "prepare sha256 media_bytes fingerprint request = (Some prepared, failing_entry)"
  shows "\<exists>layout. plan_payload_layout (map metadata_of (req_entries request)) (req_limits request) = Ok layout \<and>
    lay_entries layout = req_entries request \<and> lay_total_bytes layout = req_declared_total_bytes request"
  using assms
  by (auto simp: prepare_def Let_def split: if_splits result.splits option.splits intro!: first_difference_None)

lemma prepare_utf8:
  assumes "prepare sha256 media_bytes fingerprint request = (Some prepared, failing_entry)"
  shows "utf8_plan (prep_plan prepared)"
proof -
  from prepare_planned[OF assms] obtain layout where
    lay: "plan_payload_layout (map metadata_of (req_entries request)) (req_limits request) = Ok layout"
      "lay_entries layout = req_entries request" by blast
  let ?ms = "map metadata_of (req_entries request)"
  from lay(1) have valid: "layout_valid (req_limits request) ?ms"
      and sorted: "lay_entries layout = sort_key (\<lambda>e. pp_portability_key (ppe_path e)) (map planned_of ?ms)"
    unfolding plan_payload_layout_Ok by blast+
  have "list_all from_utf8_ok (path_components (ppe_path entry))" if "entry \<in> set (req_entries request)" for entry
  proof -
    have "entry \<in> planned_of ` set ?ms" using that sorted unfolding lay(2) by (metis list.set_map set_sort)
    then obtain m where m: "m \<in> set ?ms" "entry = planned_of m" by blast
    have "is_ok (payload_path_parse (pem_archive_path m))" using valid m(1) by (simp only: layout_valid_def list_all_iff)
    then obtain r where r: "payload_path_parse (pem_archive_path m) = Ok r" by (cases "payload_path_parse (pem_archive_path m)") simp_all
    have "ppe_path entry = r" using m(2) r by (simp add: planned_of_def offered_path_Ok)
    moreover obtain cs where "portable_parts cs" "path_components r = cs" using payload_path_parse_parts[OF r] by metis
    ultimately show ?thesis using portable_utf8 by (auto simp: portable_parts_def list_all_iff)
  qed
  then show ?thesis using prepare_Some(3)[OF assms] by (auto simp: utf8_plan_def staging_entry_of_def list_all_iff)
qed

text \<open>
  What a report may say of the root.  Not published: a cache hit only when the payload is there.
  Published: the payload is there, and it holds what every entry of the request streamed.
\<close>

definition verdict_holds ::
  "(bytes \<Rightarrow> bytes) \<Rightarrow> 'w MediaSource \<Rightarrow> SourceFingerprint \<Rightarrow> PayloadStageRequest \<Rightarrow> (u64 \<Rightarrow> 'w SourcePlay) \<Rightarrow>
     ('w \<Rightarrow> bool \<times> 'w) \<Rightarrow> StagingPlan \<Rightarrow> PayloadStageReport \<Rightarrow> FileSystem \<Rightarrow> 'w \<Rightarrow> bool" where
  "verdict_holds sha256 source fingerprint request plays stop plan report fs w =
     (if rep_publication report = NotPublished
      then rep_status report \<in> {StageFailed, StageCleanupFailed, StageConflict} \<or>
        (rep_status report = StageCacheHit \<and> payload_at plan (fs_nodes fs))
      else rep_status report \<in> {StagePublishedSyncComplete, StagePublishedSyncUncertain} \<and>
        payload_at plan (fs_nodes fs) \<and>
        (\<exists>contents. published plan contents fs \<and> list_all2 (streamed plays stop) (req_entries request) contents) \<and>
        verified_before sha256 source fingerprint stop w)"

lemma stage_absent_directory:
  assumes "plan_ok plan" and "utf8_plan plan" and "rep_publication report = NotPublished" and "rep_status report = StageFailed"
    and "stage_absent sha256 source fingerprint (req_entries request) plan plays directory_payload_store
      stop report (s, w) = (rep, s', w')"
  shows "nothing_lost (snd s) (snd s')"
    and "rep_cleanup_error rep = None \<Longrightarrow> rep_phase rep \<noteq> PhaseBegin \<Longrightarrow> no_stage_left (snd s) (snd s')"
    and "verdict_holds sha256 source fingerprint request plays stop plan rep (snd s') w'"
proof -
  note v = directory.stage_absent_verdict[OF assms(1,3-5)]
  show "nothing_lost (snd s) (snd s')"
    "rep_cleanup_error rep = None \<Longrightarrow> rep_phase rep \<noteq> PhaseBegin \<Longrightarrow> no_stage_left (snd s) (snd s')"
    using v by blast+
  have "payload_at plan (fs_nodes (snd s'))" if "ps_probe directory_payload_store plan t1 = (Ok Matching, s')" for t1
    using store_probe_verdict[OF assms(1)] that unfolding directory_probe by force
  then show "verdict_holds sha256 source fingerprint request plays stop plan rep (snd s') w'"
    using v published_payload_at[OF _ assms(2)] by (auto simp: verdict_holds_def split: if_splits)
qed

text \<open>
  C12: Staging a payload at a directory root.  Whatever calls fail, whatever others publish meanwhile and
  whatever the source, the cancellation token and the pinned media do, every name that was at the root
  keeps its whole tree, and unless the report names a cleanup error or the stage failed in its beginning,
  no staging directory is left.  A request that is refused touches nothing.  Otherwise the report is true:
  a cache hit and every published verdict mean that the payload is at its published name, with the
  completion document and exactly the planned files in their planned sizes (for a cache hit, \<open>files\<close> may
  be a link that the probe followed), and a published verdict
  that it holds, entry by entry, exactly the bytes the source streamed, that the media passed its complete
  check after the last of them was read, and that no stop was requested before the publication.
\<close>

theorem staged_payload_exact:
  "case stage_payload sha256 source fingerprint request plays directory_payload_store stop ((dt, fs), w) of
     (report, (dt', fs'), w') \<Rightarrow>
       nothing_lost fs fs' \<and>
       (if rep_cleanup_error report = None \<and> rep_phase report \<noteq> PhaseBegin then no_stage_left fs fs' else True) \<and>
       (case fst (prepare sha256 (ms_size source) fingerprint request) of
          None \<Rightarrow> rep_status report = StageFailed \<and> rep_publication report = NotPublished \<and> fs' = fs \<and> w' = w
        | Some prepared \<Rightarrow> verdict_holds sha256 source fingerprint request plays stop (prep_plan prepared) report fs' w')"
proof -
  obtain found failing_entry where p: "prepare sha256 (ms_size source) fingerprint request = (found, failing_entry)" by fastforce
  have same: "nothing_lost fs fs" "no_stage_left fs fs" using kept_none[OF kept_refl] by blast+
  show ?thesis
  proof (cases found)
    case None
    then show ?thesis using p same by (simp add: stage_payload_def Let_def report_failed_def)
  next
    case (Some prepared)
    note ok = prepare_Some(1)[OF p[unfolded Some]]
    obtain b w1 where b: "stop w = (b, w1)" by fastforce
    obtain r fs1 where pr: "store_probe (prep_plan prepared) fs = (r, fs1)" by fastforce
    then have probe: "ps_probe directory_payload_store (prep_plan prepared) (dt, fs) = (r, (dt, fs1))" by (simp add: store_fields)
    have kept: "nothing_lost fs fs1" "no_stage_left fs fs1" using kept_none[OF store_probe_kept[OF pr]] by blast+
    let ?report = "report_failed\<lparr>rep_failing_entry := failing_entry, rep_identity := Some (prep_identity prepared), rep_phase := PhaseProbe\<rparr>"
    obtain rep s' w' where run: "stage_absent sha256 source fingerprint (req_entries request) (prep_plan prepared) plays
        directory_payload_store stop ?report ((dt, fs1), w1) = (rep, s', w')" by (rule prod_cases3)
    have "rep_publication ?report = NotPublished" "rep_status ?report = StageFailed" by (simp_all add: report_failed_def)
    note tail = stage_absent_directory[OF ok prepare_utf8[OF p[unfolded Some]] this run]
    have all: "nothing_lost fs (snd s')"
        "rep_cleanup_error rep = None \<Longrightarrow> rep_phase rep \<noteq> PhaseBegin \<Longrightarrow> no_stage_left fs (snd s')"
      using tail(1,2) kept nothing_lost_trans no_stage_left_trans by auto
    show ?thesis
    proof (cases "\<not> b \<and> r = Ok Absent")
      case True
      then show ?thesis using p Some b probe run all tail(3) by (cases s') (auto simp: stage_payload_def)
    next
      case False
      have "payload_at (prep_plan prepared) (fs_nodes fs1)" if "r = Ok Matching" using store_probe_verdict[OF ok pr] that by simp
      then show ?thesis using False p Some b probe pr same kept
        by (auto simp: stage_payload_def Let_def report_failed_def verdict_holds_def split: bool.splits result.splits ProbeState.splits)
    qed
  qed
qed


text \<open>
  A stage that fails in its beginning is the exception of that theorem.  The new staging directory is not
  yet held by the transaction when its \<open>files\<close> directory is created; if that fails, it is removed by
  \<open>Drop\<close>, whose own failure is ignored, and the abort that follows reports success.
\<close>

definition io_fault :: FsTurn where
  "io_fault = calm\<lparr>turn_fault := Some \<lparr>flt_kind = KindOther, flt_errno = OtherErrno, flt_written = 0, flt_removed = []\<rparr>\<rparr>"

theorem begin_may_leave_stage:
  "\<exists>fs s' name. tx_begin plan (create_transaction, fs) = (Err StoreIoFailure, s') \<and>
     fst (tx_abort s') = Ok () \<and> fs_nodes fs = [] \<and> is_staging_name name \<and>
     map_of (fs_nodes (snd (snd (tx_abort s')))) [name] = Some DirNode"
proof -
  let ?fs = "\<lparr>fs_nodes = [], fs_turns = [calm, io_fault, io_fault], fs_process_id = 0\<rparr>"
  let ?fs1 = "\<lambda>name ts. \<lparr>fs_nodes = [([name], DirNode)], fs_turns = ts, fs_process_id = 0\<rparr>"
  define name where "name = STAGING_PREFIX @ [DOT] @ staging_nonce ?fs 0 @ STAGING_SUFFIX"
  have attempts: "[0..<STAGING_ATTEMPTS] = 0 # [1..<STAGING_ATTEMPTS]" by (simp add: STAGING_ATTEMPTS_def upt_rec)
  have plain: "STAGING_PREFIX \<noteq> []" "SLASH \<notin> set STAGING_PREFIX" "BACKSLASH \<notin> set STAGING_PREFIX" "0 \<notin> set STAGING_PREFIX"
    by (simp_all add: STAGING_PREFIX_def ascii_def SLASH_def BACKSLASH_def)
  have "os_create_dir [name] ?fs = (Ok (), ?fs1 name [io_fault, io_fault])"
    by (simp add: os_create_dir_def os_create_def os_turn_def calm_def is_directory_def place_def)
  then have made: "staging_create [] STAGING_PREFIX ?fs = (Ok \<lparr>sd_path = [name]\<rparr>, ?fs1 name [io_fault, io_fault])"
    unfolding staging_create_def attempts using plain by (simp add: name_def Let_def)
  have refused: "on_fs (os_create_dir [name, FILES_DIRECTORY]) (create_transaction, ?fs1 name [io_fault, io_fault]) =
      (Err StoreIoFailure, (create_transaction, ?fs1 name [io_fault]))"
    by (simp add: on_fs_def os_create_dir_def os_create_def os_turn_def io_fault_def calm_def)
  have kept: "staging_drop \<lparr>sd_path = [name]\<rparr> (?fs1 name [io_fault]) = ?fs1 name []"
    by (simp add: staging_drop_def os_remove_dir_all_def os_turn_def io_fault_def calm_def)
  let ?s = "(create_transaction, ?fs1 name [])"
  have "tx_begin plan (create_transaction, ?fs) = (Err StoreIoFailure, ?s)"
    using made refused kept by (simp add: tx_begin_def create_transaction_def)
  moreover have "tx_abort ?s = (Ok (), (create_transaction\<lparr>dt_state := TxFinished\<rparr>, ?fs1 name []))"
    by (simp add: tx_abort_def create_transaction_def)
  moreover have "is_staging_name name" by (simp add: name_def is_staging_name_def suffix_def)
  ultimately show ?thesis by (intro exI[of _ ?fs] exI[of _ ?s] exI[of _ name]) simp
qed

end
