(* ===== verification/Spec2Isabelle.thy ===== *)
theory Spec2Isabelle
  imports Parent_Session_Errors Worker_Process Worker_Image_Correct Save_Slots Payload_Stage_Correct
begin

text \<open>
  A verification development for Open Half-Life.

  Open Half-Life reimplements a game engine and imports the original game data from disc images and
  installers.  The formats are untrusted, so they are parsed in a sandboxed worker process and the
  privileged parent talks to the worker over a small binary protocol, OWP/1.  This development
  models the parent's side of that trust boundary: the wire format, the two payload cursors, the
  message schemas, the session validator, the normalization of archive paths, the planning of an
  import catalog, the session object that turns frames into a catalog and into streamed bytes, the
  broker that serves the worker's reads of the source, and what composes them: the frame channel, the
  handshake, the parent session and the owner of the worker process.  The worker's side of the protocol
  is modelled too, from the service loop down to the channel descriptor of the worker image.  The other
  untrusted input of the running game is a saved game, so the container of save files and the directory of save slots are
  modelled too.  What an import yields is a payload: destination paths, the destination plan, and the
  transaction that streams every entry into a staging directory and publishes it are the last part.

  \<^bold>\<open>Parts and theories.\<close>

    \<^item> \<open>Ohl_Prelude\<close>: result values, state transformers with an error, Rust's checked and saturating
      arithmetic on words and on \<open>usize\<close>, and the locale \<open>sticky_machine\<close>, the contract of a
      component whose first failure is final.
    \<^item> \<open>Ohl_Bytes\<close>: slices, little-endian numbers and the locale \<open>fixed_codec\<close>.
    \<^item> \<open>Ohl_Core\<close>: \<open>src/crates/ohl-core/src/checked.rs\<close> and \<open>error.rs\<close>.
    \<^item> \<open>Owp_Frame\<close>: \<open>src/crates/ohl-parser-protocol/src/lib.rs\<close> (wire enumerations and limits) and
      \<open>frame.rs\<close> (the 32-byte header, \<open>encode_frame\<close>, \<open>decode_frame\<close>).
    \<^item> \<open>Owp_Payload\<close>: \<open>payload.rs\<close>; the records \<open>PayloadWriter\<close> and \<open>PayloadReader\<close> hold the buffer, the
      cursor and the sticky error of the structs of that name.
    \<^item> \<open>Owp_Messages\<close>: \<open>messages.rs\<close>; one record per message, one encoder and one decoder each, the
      read policy and the enumeration policy.
    \<^item> \<open>Owp_Session\<close>: \<open>session.rs\<close>; the record \<open>SessionValidator\<close> with the fields of the struct,
      \<open>observe\<close> and its helpers, and the inductive protocol specification \<open>exchange\<close>.
    \<^item> \<open>Media_Paths\<close>: \<open>src/crates/ohl-media-archive/src/path.rs\<close>.
    \<^item> \<open>Import_Catalog\<close>: \<open>src/crates/ohl-import/src/catalog.rs\<close>; limits, generations, \<open>plan_catalog\<close>.
    \<^item> \<open>Import_Results\<close> and \<open>Import_Results_Correct\<close>: \<open>src/crates/ohl-import/src/result_session.rs\<close>;
      the first has the record \<open>ResultSession\<close> and one definition per method, the second its theorems.
    \<^item> \<open>Import_Reads\<close> and \<open>Import_Reads_Correct\<close>: \<open>source_read_broker.rs\<close> and \<open>source_window.rs\<close> of
      \<open>src/crates/ohl-import/src\<close>; the record \<open>SourceReadBroker\<close>, \<open>prepare\<close> and the two ways a
      prepared reply ends, and the window that narrows a pinned source; the locale \<open>source_seam\<close>
      is what the broker relies on of its source, and the window over a mounted file provides it.
    \<^item> \<open>Frame_Channel\<close>: \<open>frame_channel.rs\<close> and the transport interface of \<open>io.rs\<close>; the record
      \<open>FrameChannel\<close>, \<open>channel_send\<close> and \<open>channel_receive\<close>, the step relation \<open>channel_step\<close> in which
      the critical sections of any number of callers interleave, and the locale \<open>exact_transport\<close>.
    \<^item> \<open>Parent_Session\<close>, \<open>Parent_Session_Correct\<close>, \<open>Parent_Session_Errors\<close>: \<open>handshake.rs\<close> and
      \<open>parent_session.rs\<close>; one definition per method of each phase, the live states \<open>parent_live\<close> and
      the calls \<open>parent_call\<close>.
    \<^item> \<open>Worker_Process\<close>: \<open>platform.rs\<close> and \<open>process_session.rs\<close>; the adapter from the native worker to
      the transport, which is interpreted as an \<open>exact_transport\<close>, the allocation of session identities
      and the owner of the process.
    \<^item> \<open>Worker_Service\<close>, \<open>Worker_Service_Correct\<close>: \<open>capability.rs\<close> and \<open>service.rs\<close> of
      \<open>src/crates/ohl-parser-worker-service/src\<close>; the record \<open>Service\<close>, one state transformer per
      method, the loop \<open>service_run\<close> and one lifetime \<open>run_parser_worker_service\<close>; the second shows
      that every turn spends a message of the budget.
    \<^item> \<open>Worker_Conversation\<close>, \<open>Worker_Erasure\<close>: the same lifetime over a transport that records what
      crosses it and a back end that records how it is called; the locales \<open>worker_link\<close> (a slice keeps
      its length) and \<open>exact_link\<close> (a byte queue that is given up once), and that dropping the record
      gives the service's own run.
    \<^item> \<open>Worker_Image\<close>, \<open>Worker_Image_Correct\<close>: \<open>src/crates/ohl-parser-worker/image/src/hosted.rs\<close> and
      \<open>contract.rs\<close>; the transport on the channel descriptor over an explicit kernel socket, which is
      interpreted as an \<open>exact_link\<close>, the exit statuses and \<open>serve\<close>; the theorems of the worker's side.
    \<^item> \<open>Save_Bytes\<close>: \<open>src/crates/ohl-save/src/bytes.rs\<close> and \<open>error.rs\<close>; the reader and writer of
      little-endian fields and length-prefixed strings, and the locale \<open>cursor_codec\<close>.
    \<^item> \<open>Save_Container\<close>: \<open>limits.rs\<close>, \<open>header.rs\<close>, \<open>table.rs\<close> and \<open>container.rs\<close> of \<open>src/crates/ohl-save/src\<close>.
    \<^item> \<open>Payload_Paths\<close>, \<open>Payload_Layout\<close>: \<open>path.rs\<close> and \<open>layout.rs\<close> of \<open>src/crates/ohl-payload/src\<close>; which names may
      become destination names, and the destination plan of an import.
    \<^item> \<open>Atomic_Directory\<close>: \<open>src/crates/ohl-platform/src/atomic_directory.rs\<close>; a directory root as a list of
      nodes whose every call takes a turn of a timeline, and the staging directory that is created exclusively
      and renamed without replacing.
    \<^item> \<open>Payload_Store\<close>, \<open>Payload_Store_Correct\<close>, \<open>Payload_Probe\<close>: \<open>store.rs\<close> of \<open>src/crates/ohl-payload/src\<close>; plans,
      one definition per operation of the record \<open>DirectoryTransaction\<close>, the probe and the recovery; the second
      theory has the invariant of a transaction (\<open>staged\<close>, \<open>sealed\<close>, \<open>published\<close>), the third what a probe and a
      recovery decide.
    \<^item> \<open>Payload_Stream\<close>: \<open>stream.rs\<close>; the bounded sink and the streaming of one entry from a source whose
      behaviour is a tree of actions.
    \<^item> \<open>Source_Stability\<close>: \<open>src/crates/ohl-platform/src/stability.rs\<close>; the complete rehash of a pinned source.
    \<^item> \<open>Payload_Stage\<close>, \<open>Payload_Stage_Correct\<close>: \<open>stage.rs\<close>; the record \<open>PayloadStore\<close> stands for the two store traits,
      \<open>stage_payload\<close> and its stretches; the locale \<open>payload_transaction\<close> is the contract of a store, in which the
      commit protocol is proved, and the directory store is its instance.
    \<^item> \<open>Save_Slots\<close>: \<open>slot.rs\<close>; slot names, and the file operations over a directory whose calls may fail.

  \<^bold>\<open>How they interact.\<close>  A frame is split into header and payload by \<open>decode_frame\<close>.  Every method of
  the result session decodes the payload with the decoder of its kind, then hands the header to the
  validator's \<open>observe\<close>, and only then changes the candidate catalog, the promoted catalog or the
  stream; an error at any point retires the session.  \<open>complete_enumeration\<close> plans the collected
  entries with \<open>plan_catalog\<close>, which normalizes each spelling with \<open>normalize_path\<close>.  A read request
  goes to the broker first, which decodes it against its policy, lets the result session observe it,
  reads the source between two checks that it did not change, and prepares the reply; only when the
  transport sent the reply does the session observe that one too.  The parent session lets the result
  session observe a request before the channel sends it, receives one frame at a time, dispatches it by
  its kind to the result session or to the broker, and on any error retires the result session and
  aborts the channel.  The owner of the process makes the channel, runs the handshake, creates the
  parent session and, however that ends, reaps the worker.  In the worker, the service answers hello with
  ready, then receives one frame of the parent at a time, lets its own validator observe it and begins,
  cancels or ends a request of the parser back end; while a request is active it probes for a cancel
  and otherwise asks the back end for one action, which it encodes, lets the validator observe, and
  sends.  A slot write builds the container
  and publishes it under a temporary name that is renamed at the end; listing opens each container.
  Staging plans the request again, derives an identity from the source, the recipe and the plan, probes
  the root for it, and if nothing is there begins a transaction, streams each entry through the bounded
  sink into its file, seals the files and the completion document, rehashes the whole source, polls the
  cancellation token once more and renames the staging directory to its published name; a failure before
  the rename aborts the transaction, and a lost race ends in a second probe.

  \<^bold>\<open>What is shown.\<close>  Frames and messages round trip, and their decoders accept exactly the canonical
  encodings of valid values (C1, C2, C6, C7); the cursors write and read whole schemas with one
  check at the end; the source-read boundary and the enumeration quotas are exact, without
  wrap-around (C8, C9); the validator accepts exactly the traces of the protocol specification,
  counts frames and bytes exactly within its budgets, orders requests and closes the cancellation race (C10, C11); a normalized path
  cannot escape (C14); the planner is equivalent to a declarative description of a good catalog, and
  its alias check is complete exactly up to bytes that sort below the slash (C15, C16); the
  result session keeps its quotas, hands the sink exactly the data chunks and so the declared number of bytes, refuses stale
  generations, agrees with the planner and fails closed (C18 to C20, C23).  A save file opens exactly when it is canonical, within all limits and intact, what was
  written is what is read, and no size computation wraps (C24 to C26); slot names cannot leave the
  save directory, a write is all or nothing whichever file operation fails, and the listing is exact
  (C28 to C30).  The broker charges exactly what it answers and keeps its quotas in every reachable state, reads only inside the policy,
  answers with exactly the bytes of the source and makes progress; the window shows exactly its range (C31 to C35).
  A destination path is a bounded list of portable components, and a destination plan is exact: it is
  returned for exactly the bounded sets of entries whose tree can exist where case does not count
  (C21, C36).  A stage loses nothing of the root, leaves nothing behind unless its report or its phase says
  so, and reports a payload only when it is there, with exactly the bytes that were streamed and after the
  source was verified (C12); a probe is exact up to a \<open>files\<close> that is a link or no directory, where it
  departs from its documentation (C22), and the recovery removes the interrupted stages and
  nothing else.  However callers interleave, the channel retains its first
  failure and aborts the transport once; a frame crosses it whole or not at all (C37, C38).  A handshake
  is one hello and one ready, and from then on every transfer of a live parent session belongs to a
  conversation of the protocol specification, in the phase the typestate claims (C39, C40).  An error of
  any method retires the session for good (C3), and the worker process is reaped exactly once (C17).
  The worker's service always returns (C4), uses its transport and its back end as their contracts say
  (C5), and says only what the parent's decoders and the protocol specification admit (C13); through the
  image's channel that is so byte for byte, whatever short reads, signals and probes occur (C27).

  \<^bold>\<open>Modelling.\<close>  Integers keep their width (\<open>8 word\<close> to \<open>64 word\<close>); lengths and indices of slices
  (\<open>usize\<close>) are natural numbers with the 64-bit overflow checks of the source written out.  A
  \<open>Result\<close> is the datatype \<open>result\<close>; a method on \<open>&mut self\<close> is a state transformer that returns
  the result and the new state, also on failure.  Strings are lists of bytes, since every spelling
  the protocol admits is printable ASCII.  The byte sink a stream writes to is code of the caller
  and a parameter of \<open>accept_data_chunk\<close>; so are the pinned source behind the broker (a record of
  functions on a state of the outside world, since a source may change), the transport and the native
  worker (records of the same kind; deadlines and cancellation are among their answers), the SHA-256 digest and the
  postcard codec of the save container, and which file-system calls of a slot operation fail; the parser
  back end of the worker is a record of functions on a state, and the kernel's answers to reads, writes
  and mode changes of the channel are a finite timeline, after which the channel is at its end.  The
  payload root has a timeline of the same kind: before each call others may add names to the root, outside
  the staging namespace, as the trust the module asks for allows, the call may fail with a part of its work
  done, and the clock advances; a probe or a recovery is one inspection.  The payload source is a tree of
  offers and actions, so it may do anything with the world and nothing with the destination.  No
  definition uses fuel: every loop of the modelled code runs over a list or a shrinking interval, and
  the loop that fills a buffer from a file ends because every pass fills a byte or stops.  The loop of
  the worker's service is a \<open>partial_function\<close>, and that it returns is C4.

  \<^bold>\<open>Not modelled.\<close>  Debug output, which is fixed text; borrowed lifetimes; allocation failure, which
  the source maps to an error before any state changes; the native
  worker behind the transport (pipes, process control and sandboxing), the allocator wrapper and the
  panic hook of the worker image, the import pipeline, the archive format readers and the parser back ends, the opening of a payload store
  and its publication on Windows, the selection of archive entries, the game simulation, rendering and
  audio.
\<close>

end
